(* ===== verification/Prelude.thy ===== *)
theory Prelude
  imports Main "HOL-Library.Sublist" "HOL-Library.Char_ord" "HOL-Library.List_Lexorder"
begin

text \<open>
  Shared vocabulary of the development: the machine-integer operations, the byte strings and
  the string operations of the Rust standard library that the modelled code calls.

  A Rust \<open>&str\<close>, \<open>String\<close> or \<open>[u8]\<close> is the list of its bytes (\<open>string\<close>, one \<open>char\<close> per byte),
  so \<open>length\<close> is Rust's \<open>len()\<close> and the order of \<open>HOL-Library.List_Lexorder\<close> is Rust's \<open>Ord\<close>.
  A \<open>u64\<close> or \<open>usize\<close> (the application ships for 64-bit targets only) is a \<open>nat\<close> whose
  operations carry the bound \<open>2 ^ 64\<close> explicitly.
\<close>

named_theorems rust_arith \<open>definitions of the checked and saturating operations\<close>
named_theorems rust_str \<open>definitions of the string operations\<close>

section \<open>Machine integers\<close>

definition u64_bound :: nat where
  "u64_bound = 2 ^ 64"

lemma u64_bound_eval [rust_arith]: "u64_bound = 18446744073709551616"
  by (simp add: u64_bound_def)

definition checked_add :: "nat \<Rightarrow> nat \<Rightarrow> nat option" where
  [rust_arith]: "checked_add a b = (if a + b < u64_bound then Some (a + b) else None)"

definition checked_mul :: "nat \<Rightarrow> nat \<Rightarrow> nat option" where
  [rust_arith]: "checked_mul a b = (if a * b < u64_bound then Some (a * b) else None)"

definition checked_sub :: "nat \<Rightarrow> nat \<Rightarrow> nat option" where
  [rust_arith]: "checked_sub a b = (if b \<le> a then Some (a - b) else None)"

definition saturating_add :: "nat \<Rightarrow> nat \<Rightarrow> nat" where
  [rust_arith]: "saturating_add a b = min (a + b) (u64_bound - 1)"

definition saturating_mul :: "nat \<Rightarrow> nat \<Rightarrow> nat" where
  [rust_arith]: "saturating_mul a b = min (a * b) (u64_bound - 1)"

lemma checked_add_Some_iff: "checked_add a b = Some c \<longleftrightarrow> c = a + b \<and> a + b < u64_bound"
  by (auto simp: checked_add_def)

lemma checked_sub_Some_iff: "checked_sub a b = Some c \<longleftrightarrow> c + b = a"
  by (auto simp: checked_sub_def)

lemma saturating_add_zero [simp]: "saturating_add 0 b = min b (u64_bound - 1)"
  by (simp add: saturating_add_def)

lemma saturating_add_le: "saturating_add a b \<le> a + b"
  by (simp add: saturating_add_def)

lemma saturating_add_gt: "n < u64_bound - 1 \<Longrightarrow> n < saturating_add a b \<longleftrightarrow> n < a + b"
  by (auto simp: saturating_add_def)

section \<open>Results\<close>

text \<open>\<open>Ok\<close> is \<open>Inr\<close> and \<open>Err\<close> is \<open>Inl\<close>; \<open>ok_or\<close> and the \<open>?\<close> operator as functions.\<close>

definition ok_or :: "'e \<Rightarrow> 'a option \<Rightarrow> 'e + 'a" where
  "ok_or e x = (case x of None \<Rightarrow> Inl e | Some a \<Rightarrow> Inr a)"

definition bind_r :: "'e + 'a \<Rightarrow> ('a \<Rightarrow> 'e + 'b) \<Rightarrow> 'e + 'b" where
  "bind_r m f = (case m of Inl e \<Rightarrow> Inl e | Inr a \<Rightarrow> f a)"

lemma bind_r_simps [simp]:
  "bind_r (Inl e) f = Inl e"
  "bind_r (Inr a) f = f a"
  by (simp_all add: bind_r_def)

lemma bind_r_Inr_iff: "bind_r m f = Inr b \<longleftrightarrow> (\<exists>a. m = Inr a \<and> f a = Inr b)"
  by (cases m) auto

lemma ok_or_simps [simp]:
  "ok_or e None = Inl e"
  "ok_or e (Some a) = Inr a"
  by (simp_all add: ok_or_def)

lemma ok_or_Inr_iff [simp]: "ok_or e x = Inr a \<longleftrightarrow> x = Some a"
  by (cases x) auto

text \<open>Collecting into a \<open>Result\<close> or an \<open>Option\<close>: the first failure in order wins.\<close>

fun traverse_r :: "('a \<Rightarrow> 'e + 'b) \<Rightarrow> 'a list \<Rightarrow> 'e + 'b list" where
  "traverse_r f [] = Inr []"
| "traverse_r f (x # xs) = bind_r (f x) (\<lambda>y. bind_r (traverse_r f xs) (\<lambda>ys. Inr (y # ys)))"

lemma traverse_r_Inr_iff:
  "traverse_r f xs = Inr ys \<longleftrightarrow> list_all2 (\<lambda>x y. f x = Inr y) xs ys"
  by (induction xs arbitrary: ys) (auto simp: bind_r_Inr_iff list_all2_Cons1)

fun traverse_o :: "('a \<Rightarrow> 'b option) \<Rightarrow> 'a list \<Rightarrow> 'b list option" where
  "traverse_o f [] = Some []"
| "traverse_o f (x # xs) =
     (case f x of None \<Rightarrow> None | Some y \<Rightarrow> map_option ((#) y) (traverse_o f xs))"

lemma traverse_o_Some_iff:
  "traverse_o f xs = Some ys \<longleftrightarrow> list_all2 (\<lambda>x y. f x = Some y) xs ys"
  by (induction xs arbitrary: ys) (auto simp: list_all2_Cons1 split: option.splits)

section \<open>Bytes and ASCII classes\<close>

type_synonym byte = char
type_synonym bytes = string

definition code :: "char \<Rightarrow> nat" where
  "code c = of_char c"

lemma code_less [simp]: "code c < 256"
  by (simp add: code_def)

definition is_ascii_digit :: "char \<Rightarrow> bool" where
  [rust_str]: "is_ascii_digit c \<longleftrightarrow> 48 \<le> code c \<and> code c \<le> 57"

definition is_ascii_alphabetic :: "char \<Rightarrow> bool" where
  [rust_str]: "is_ascii_alphabetic c \<longleftrightarrow>
     65 \<le> code c \<and> code c \<le> 90 \<or> 97 \<le> code c \<and> code c \<le> 122"

definition is_ascii_alphanumeric :: "char \<Rightarrow> bool" where
  [rust_str]: "is_ascii_alphanumeric c \<longleftrightarrow> is_ascii_digit c \<or> is_ascii_alphabetic c"

definition to_ascii_lowercase :: "char \<Rightarrow> char" where
  [rust_str]: "to_ascii_lowercase c =
     (if 65 \<le> code c \<and> code c \<le> 90 then char_of (code c + 32) else c)"

definition eq_ignore_ascii_case :: "string \<Rightarrow> string \<Rightarrow> bool" where
  [rust_str]: "eq_ignore_ascii_case s t \<longleftrightarrow> map to_ascii_lowercase s = map to_ascii_lowercase t"

section \<open>Splitting, stripping and searching\<close>

fun strip_prefix :: "'a list \<Rightarrow> 'a list \<Rightarrow> 'a list option" where
  "strip_prefix [] s = Some s"
| "strip_prefix (p # ps) [] = None"
| "strip_prefix (p # ps) (x # xs) = (if p = x then strip_prefix ps xs else None)"

definition strip_suffix :: "'a list \<Rightarrow> 'a list \<Rightarrow> 'a list option" where
  "strip_suffix p s = map_option rev (strip_prefix (rev p) (rev s))"

definition starts_with :: "'a list \<Rightarrow> 'a list \<Rightarrow> bool" where
  "starts_with p s \<longleftrightarrow> strip_prefix p s \<noteq> None"

lemma strip_prefix_Some_iff: "strip_prefix p s = Some r \<longleftrightarrow> s = p @ r"
  by (induction p s rule: strip_prefix.induct) auto

lemma strip_prefix_append [simp]: "strip_prefix p (p @ r) = Some r"
  by (simp add: strip_prefix_Some_iff)

lemma strip_prefix_None_iff: "strip_prefix p s = None \<longleftrightarrow> \<not> prefix p s"
  by (cases "strip_prefix p s") (auto simp: prefix_def strip_prefix_Some_iff dest: sym)

lemma starts_with_iff: "starts_with p s \<longleftrightarrow> prefix p s"
  by (auto simp: starts_with_def strip_prefix_None_iff)

fun split_once :: "'a \<Rightarrow> 'a list \<Rightarrow> ('a list \<times> 'a list) option" where
  "split_once d [] = None"
| "split_once d (x # xs) =
     (if x = d then Some ([], xs)
      else map_option (\<lambda>(a, b). (x # a, b)) (split_once d xs))"

lemma split_once_Some_iff:
  "split_once d s = Some (a, b) \<longleftrightarrow> s = a @ d # b \<and> d \<notin> set a"
proof (induction d s arbitrary: a rule: split_once.induct)
  case (2 d x xs)
  then show ?case by (cases a) auto
qed simp

lemma split_once_None_iff: "split_once d s = None \<longleftrightarrow> d \<notin> set s"
  by (induction d s rule: split_once.induct) auto

definition rsplit_once :: "'a \<Rightarrow> 'a list \<Rightarrow> ('a list \<times> 'a list) option" where
  "rsplit_once d s = map_option (\<lambda>(a, b). (rev b, rev a)) (split_once d (rev s))"

lemma rsplit_once_Some_iff:
  "rsplit_once d s = Some (a, b) \<longleftrightarrow> s = a @ d # b \<and> d \<notin> set b"
proof -
  have "rsplit_once d s = Some (a, b) \<longleftrightarrow> split_once d (rev s) = Some (rev b, rev a)"
    by (cases "split_once d (rev s)") (auto simp: rsplit_once_def)
  then show ?thesis
    by (auto simp: split_once_Some_iff rev_swap)
qed

fun split_on :: "'a \<Rightarrow> 'a list \<Rightarrow> 'a list list" where
  "split_on d [] = [[]]"
| "split_on d (x # xs) =
     (if x = d then [] # split_on d xs
      else (case split_on d xs of [] \<Rightarrow> [[x]] | w # ws \<Rightarrow> (x # w) # ws))"

lemma split_on_nonempty [simp]: "split_on d s \<noteq> []"
  by (induction d s rule: split_on.induct) (auto split: list.splits)

lemma split_on_no_sep: "w \<in> set (split_on d s) \<Longrightarrow> d \<notin> set w"
  by (induction d s arbitrary: w rule: split_on.induct)
     (fastforce split: list.splits if_splits)+

lemma split_on_subset: "w \<in> set (split_on d s) \<Longrightarrow> set w \<subseteq> set s"
  by (induction d s arbitrary: w rule: split_on.induct)
     (fastforce split: list.splits if_splits)+

fun join :: "'a list \<Rightarrow> 'a list list \<Rightarrow> 'a list" where
  "join sep [] = []"
| "join sep [w] = w"
| "join sep (w # ws) = w @ sep @ join sep ws"

text \<open>The position of the first occurrence of a non-empty pattern (\<open>windows(n).position\<close>).\<close>

fun find_sub :: "'a list \<Rightarrow> 'a list \<Rightarrow> nat option" where
  "find_sub p [] = (if p = [] then Some 0 else None)"
| "find_sub p (x # xs) =
     (if starts_with p (x # xs) then Some 0 else map_option Suc (find_sub p xs))"

lemma find_sub_Some: "find_sub p s = Some n \<Longrightarrow> n \<le> length s \<and> prefix p (drop n s)"
  by (induction p s arbitrary: n rule: find_sub.induct)
     (auto simp: starts_with_iff split: if_splits)

lemma find_sub_first: "find_sub p s = Some n \<Longrightarrow> m < n \<Longrightarrow> \<not> prefix p (drop m s)"
proof (induction p s arbitrary: n m rule: find_sub.induct)
  case (2 p x xs)
  then show ?case
    by (cases m) (auto simp: starts_with_iff split: if_splits)
qed (auto split: if_splits)

definition contains_sub :: "'a list \<Rightarrow> 'a list \<Rightarrow> bool" where
  "contains_sub p s \<longleftrightarrow> find_sub p s \<noteq> None"

text \<open>\<open>split_once\<close> and \<open>rsplit_once\<close> with a string pattern.\<close>

definition split_sub :: "'a list \<Rightarrow> 'a list \<Rightarrow> ('a list \<times> 'a list) option" where
  "split_sub p s = map_option (\<lambda>n. (take n s, drop (n + length p) s)) (find_sub p s)"

definition rsplit_sub :: "'a list \<Rightarrow> 'a list \<Rightarrow> ('a list \<times> 'a list) option" where
  "rsplit_sub p s = map_option (\<lambda>(a, b). (rev b, rev a)) (split_sub (rev p) (rev s))"

lemma prefix_inside: "prefix p (s @ t) \<Longrightarrow> length p \<le> length s \<Longrightarrow> prefix p s"
  by (rule prefix_length_prefix [of p "s @ t" s]) simp_all

lemma find_sub_fits: "find_sub p s = Some n \<Longrightarrow> n + length p \<le> length s"
  using find_sub_Some [of p s n] prefix_length_le [of p "drop n s"] by auto

lemma find_sub_append: "find_sub p s = Some n \<Longrightarrow> find_sub p (s @ t) = Some n"
proof (induction p s arbitrary: n rule: find_sub.induct)
  case (1 p)
  then show ?case by (cases t) (auto simp: starts_with_def split: if_splits)
next
  case (2 p x xs)
  show ?case
  proof (cases "prefix p (x # xs)")
    case True
    then have "prefix p (x # xs @ t)" using prefix_prefix [of p "x # xs" t] by simp
    with True 2(2) show ?thesis by (simp add: starts_with_iff)
  next
    case False
    with 2(2) obtain m where m: "find_sub p xs = Some m" "n = Suc m" by (auto simp: starts_with_iff)
    from False find_sub_fits [OF m(1)] have "\<not> prefix p (x # xs @ t)"
      using prefix_inside [of p "x # xs" t] by auto
    with False m 2(1) show ?thesis by (simp add: starts_with_iff)
  qed
qed

lemma find_sub_None_iff: "find_sub p s = None \<longleftrightarrow> (\<forall>n \<le> length s. \<not> prefix p (drop n s))"
proof (induction p s rule: find_sub.induct)
  case (2 p x xs)
  show ?case
  proof
    assume none: "find_sub p (x # xs) = None"
    show "\<forall>n \<le> length (x # xs). \<not> prefix p (drop n (x # xs))"
    proof (intro allI impI)
      fix n assume "n \<le> length (x # xs)"
      with none 2 show "\<not> prefix p (drop n (x # xs))"
        by (cases n) (auto simp: starts_with_iff split: if_splits)
    qed
  next
    assume all: "\<forall>n \<le> length (x # xs). \<not> prefix p (drop n (x # xs))"
    then have "\<not> prefix p (x # xs)" by (auto dest: spec [of _ 0])
    moreover have "\<forall>n \<le> length xs. \<not> prefix p (drop n xs)"
    proof (intro allI impI)
      fix n assume "n \<le> length xs"
      with all have "\<not> prefix p (drop (Suc n) (x # xs))" by auto
      then show "\<not> prefix p (drop n xs)" by simp
    qed
    ultimately show "find_sub p (x # xs) = None" using 2 by (simp add: starts_with_iff)
  qed
qed auto

lemma find_sub_inside:
  assumes "find_sub p (s @ t) = Some n" and "n + length p \<le> length s"
  shows "find_sub p s = Some n"
proof (cases "find_sub p s")
  case None
  from find_sub_Some [OF assms(1)] assms(2) have "prefix p (drop n s @ t)" by simp
  then have "prefix p (drop n s)" by (rule prefix_inside) (use assms(2) in simp)
  with None assms(2) show ?thesis by (auto simp: find_sub_None_iff)
next
  case (Some m)
  with find_sub_append [OF this, of t] assms(1) show ?thesis by simp
qed

text \<open>\<open>str::split\<close> with a string pattern.\<close>

function split_all :: "'a list \<Rightarrow> 'a list \<Rightarrow> 'a list list" where
  "split_all p s =
     (if p = [] then [s]
      else (case split_sub p s of None \<Rightarrow> [s] | Some (a, b) \<Rightarrow> a # split_all p b))"
  by pat_completeness auto
termination
proof (relation "measure (\<lambda>(p, s). length s)")
  fix p s :: "'a list" and x a b
  assume "p \<noteq> []" and "split_sub p s = Some x" and "(a, b) = x"
  then obtain n where n: "find_sub p s = Some n" and b: "b = drop (n + length p) s"
    by (auto simp: split_sub_def)
  from find_sub_Some [OF n] have "prefix p (drop n s)" and "n \<le> length s" by auto
  with \<open>p \<noteq> []\<close> have "n < length s" using prefix_length_le [of p "drop n s"] by (cases p) auto
  with \<open>p \<noteq> []\<close> show "((p, b), (p, s)) \<in> measure (\<lambda>(p, s). length s)"
    by (cases p) (auto simp: b)
qed simp

declare split_all.simps [simp del]

lemma split_sub_Some:
  assumes "split_sub p s = Some (a, b)" and "p \<noteq> []"
  shows "s = a @ p @ b \<and> find_sub p a = None"
proof -
  from assms(1) obtain n where n: "find_sub p s = Some n" and a: "a = take n s" and b: "b = drop (n + length p) s"
    by (auto simp: split_sub_def)
  from find_sub_Some [OF n] obtain z where z: "drop n s = p @ z" and le: "n \<le> length s" by (auto simp: prefix_def)
  have "b = z" using arg_cong [OF z, of "drop (length p)"] by (simp add: b add.commute)
  with z a have s: "s = a @ p @ b" by (metis append_take_drop_id)
  have "find_sub p a = None"
  proof (rule ccontr)
    assume "find_sub p a \<noteq> None"
    then obtain m where m: "find_sub p a = Some m" by auto
    from find_sub_append [OF m, of "p @ b"] n s have "m = n" by simp
    with find_sub_fits [OF m] le assms(2) show False by (simp add: a)
  qed
  with s show ?thesis by simp
qed

lemma split_all_no_sep:
  assumes "p \<noteq> []" and "w \<in> set (split_all p s)"
  shows "find_sub p w = None"
  using assms
proof (induction p s rule: split_all.induct)
  case (1 p s)
  show ?case
  proof (cases "split_sub p s")
    case None
    with 1(2,3) show ?thesis by (subst (asm) split_all.simps) (auto simp: split_sub_def)
  next
    case (Some x)
    obtain a b where x: "x = (a, b)" by (cases x)
    from 1(3) 1(2) Some x have "w = a \<or> w \<in> set (split_all p b)"
      by (subst (asm) split_all.simps) auto
    moreover have "find_sub p a = None" using split_sub_Some [of p s a b] Some x 1(2) by simp
    ultimately show ?thesis using 1(1) [OF 1(2) Some x [symmetric] 1(2)] by auto
  qed
qed

lemma find_sub_infix:
  assumes "find_sub p (a @ w @ b) = None"
  shows "find_sub p w = None"
proof (rule ccontr)
  assume "find_sub p w \<noteq> None"
  then obtain n where n: "find_sub p w = Some n" by auto
  from find_sub_Some [OF n] have "prefix p (drop n w)" "n \<le> length w" by auto
  then have "prefix p (drop (length a + n) (a @ w @ b))" using prefix_prefix [of p "drop n w" b] by simp
  moreover have "length a + n \<le> length (a @ w @ b)" using \<open>n \<le> length w\<close> by simp
  ultimately show False using assms unfolding find_sub_None_iff by blast
qed

lemma find_sub_absent: "p \<noteq> [] \<Longrightarrow> hd p \<notin> set s \<Longrightarrow> find_sub p s = None"
  by (induction p s rule: find_sub.induct) (auto simp: starts_with_iff neq_Nil_conv)

lemma find_sub_at:
  assumes "p \<noteq> []" and "hd p \<notin> set a"
  shows "find_sub p (a @ p @ r) = Some (length a)"
  using assms
proof (induction a)
  case Nil
  then show ?case by (cases p) (simp_all add: starts_with_iff)
next
  case (Cons x a)
  then show ?case by (cases p) (auto simp: starts_with_iff)
qed

lemma find_sub_skip:
  "p \<noteq> [] \<Longrightarrow> hd p \<notin> set a \<Longrightarrow> find_sub p (a @ s) = map_option (\<lambda>n. length a + n) (find_sub p s)"
proof (induction a)
  case (Cons x a)
  then show ?case by (cases p) (auto simp: starts_with_iff option.map_comp comp_def)
qed (cases "find_sub p s"; simp)

section \<open>Numbers\<close>

text \<open>\<open>parse\<close> of an unsigned type: an optional plus sign and decimal digits within its range.\<close>

definition digits_value :: "string \<Rightarrow> nat" where
  "digits_value s = foldl (\<lambda>n c. 10 * n + (code c - 48)) 0 s"

definition parse_unsigned :: "nat \<Rightarrow> string \<Rightarrow> nat option" where
  "parse_unsigned bound s =
     (let ds = (case s of [] \<Rightarrow> [] | c # cs \<Rightarrow> if c = CHR ''+'' then cs else s)
      in if ds \<noteq> [] \<and> list_all is_ascii_digit ds \<and> digits_value ds < bound
         then Some (digits_value ds) else None)"

text \<open>\<open>to_string\<close> of an unsigned number.\<close>

fun digits_of_nat :: "nat \<Rightarrow> string" where
  "digits_of_nat n =
     (if n < 10 then [char_of (48 + n)] else digits_of_nat (n div 10) @ [char_of (48 + n mod 10)])"

declare digits_of_nat.simps [simp del]

section \<open>UTF-8\<close>

text \<open>\<open>std::str::from_utf8\<close>: the well-formed byte sequences of the Unicode standard.\<close>

definition utf8_tail :: "nat \<Rightarrow> bool" where
  "utf8_tail b \<longleftrightarrow> 128 \<le> b \<and> b \<le> 191"

fun utf8_ok :: "nat list \<Rightarrow> bool" where
  "utf8_ok [] = True"
| "utf8_ok (a # bs) =
     (if a < 128 then utf8_ok bs
      else if 194 \<le> a \<and> a \<le> 223 then
        (case bs of b # r \<Rightarrow> utf8_tail b \<and> utf8_ok r | _ \<Rightarrow> False)
      else if 224 \<le> a \<and> a \<le> 239 then
        (case bs of
           b # c # r \<Rightarrow>
             (if a = 224 then 160 \<le> b \<and> b \<le> 191
              else if a = 237 then 128 \<le> b \<and> b \<le> 159
              else utf8_tail b) \<and> utf8_tail c \<and> utf8_ok r
         | _ \<Rightarrow> False)
      else if 240 \<le> a \<and> a \<le> 244 then
        (case bs of
           b # c # e # r \<Rightarrow>
             (if a = 240 then 144 \<le> b \<and> b \<le> 191
              else if a = 244 then 128 \<le> b \<and> b \<le> 143
              else utf8_tail b) \<and> utf8_tail c \<and> utf8_tail e \<and> utf8_ok r
         | _ \<Rightarrow> False)
      else False)"

definition from_utf8 :: "string \<Rightarrow> string option" where
  "from_utf8 s = (if utf8_ok (map code s) then Some s else None)"

lemma from_utf8_Some [simp]: "from_utf8 s = Some t \<longleftrightarrow> t = s \<and> utf8_ok (map code s)"
  by (auto simp: from_utf8_def)

text \<open>
  \<open>String::from_utf8_lossy\<close>: a chunk is one well-formed character, or a maximal ill-formed
  prefix, which is replaced by U+FFFD.
\<close>

definition utf8_second3 :: "nat \<Rightarrow> nat \<Rightarrow> bool" where
  "utf8_second3 a b \<longleftrightarrow>
     (if a = 224 then 160 \<le> b \<and> b \<le> 191
      else if a = 237 then 128 \<le> b \<and> b \<le> 159
      else utf8_tail b)"

definition utf8_second4 :: "nat \<Rightarrow> nat \<Rightarrow> bool" where
  "utf8_second4 a b \<longleftrightarrow>
     (if a = 240 then 144 \<le> b \<and> b \<le> 191
      else if a = 244 then 128 \<le> b \<and> b \<le> 143
      else utf8_tail b)"

text \<open>The continuation bytes of the list that match the given tests, counted.\<close>

fun matching :: "(nat \<Rightarrow> bool) list \<Rightarrow> nat list \<Rightarrow> nat" where
  "matching (p # ps) (b # bs) = (if p b then Suc (matching ps bs) else 0)"
| "matching _ _ = 0"

definition utf8_chunk :: "nat \<Rightarrow> nat list \<Rightarrow> bool \<times> nat" where
  "utf8_chunk a bs =
     (if a < 128 then (True, 1)
      else let tests = (if 194 \<le> a \<and> a \<le> 223 then [utf8_tail]
                        else if 224 \<le> a \<and> a \<le> 239 then [utf8_second3 a, utf8_tail]
                        else if 240 \<le> a \<and> a \<le> 244 then [utf8_second4 a, utf8_tail, utf8_tail]
                        else []);
               n = matching tests bs
           in (tests \<noteq> [] \<and> n = length tests, Suc n))"

function from_utf8_lossy :: "string \<Rightarrow> string" where
  "from_utf8_lossy [] = []"
| "from_utf8_lossy (c # cs) =
     (let (ok, n) = utf8_chunk (code c) (map code cs)
      in (if ok then take n (c # cs) else [CHR 0xEF, CHR 0xBF, CHR 0xBD])
           @ from_utf8_lossy (drop (n - 1) cs))"
  by pat_completeness auto
termination
  by (relation "measure length") auto

text \<open>\<open>char::is_whitespace\<close>: the UTF-8 encodings of the Unicode \<open>White_Space\<close> characters.\<close>

definition ws_encodings :: "nat list list" where
  "ws_encodings =
     [[9], [10], [11], [12], [13], [32], [194, 133], [194, 160], [225, 154, 128],
      [226, 128, 128], [226, 128, 129], [226, 128, 130], [226, 128, 131], [226, 128, 132],
      [226, 128, 133], [226, 128, 134], [226, 128, 135], [226, 128, 136], [226, 128, 137],
      [226, 128, 138], [226, 128, 168], [226, 128, 169], [226, 128, 175], [226, 129, 159],
      [227, 128, 128]]"

text \<open>
  Every encoding starts with a lead byte, so in valid UTF-8 an occurrence of one at the start,
  at the end or inside the text is exactly an occurrence of the character.
\<close>

fun first_strip :: "string list \<Rightarrow> string \<Rightarrow> string option" where
  "first_strip [] s = None"
| "first_strip (p # ps) s = (case strip_prefix p s of None \<Rightarrow> first_strip ps s | Some r \<Rightarrow> Some r)"

lemma strip_prefix_length: "strip_prefix p s = Some r \<Longrightarrow> length s = length p + length r"
  by (auto simp: strip_prefix_Some_iff)

lemma first_strip_length:
  "first_strip ps s = Some r \<Longrightarrow> [] \<notin> set ps \<Longrightarrow> length r < length s"
  by (induction ps s rule: first_strip.induct)
     (auto split: option.splits dest!: strip_prefix_length)

definition ws_chars :: "string list" where
  "ws_chars = map (map char_of) ws_encodings"

lemma ws_chars_nonempty: "[] \<notin> set ws_chars" "[] \<notin> set (map rev ws_chars)"
  by (auto simp: ws_chars_def ws_encodings_def)

function strip_all :: "string list \<Rightarrow> string \<Rightarrow> string" where
  "strip_all ps s =
     (if [] \<in> set ps then s
      else (case first_strip ps s of None \<Rightarrow> s | Some r \<Rightarrow> strip_all ps r))"
  by pat_completeness auto
termination
  by (relation "measure (\<lambda>(ps, s). length s)") (auto dest: first_strip_length)

declare strip_all.simps [simp del]

definition trim_start :: "string \<Rightarrow> string" where
  [rust_str]: "trim_start s = strip_all ws_chars s"

definition trim_end :: "string \<Rightarrow> string" where
  [rust_str]: "trim_end s = rev (strip_all (map rev ws_chars) (rev s))"

definition trim :: "string \<Rightarrow> string" where
  [rust_str]: "trim s = trim_end (trim_start s)"

lemma strip_all_suffix: "\<exists>a. s = a @ strip_all ps s"
proof (induction ps s rule: strip_all.induct)
  case (1 ps s)
  show ?case
  proof (cases "[] \<in> set ps \<or> first_strip ps s = None")
    case True
    then have "strip_all ps s = s" by (subst strip_all.simps) auto
    then show ?thesis by simp
  next
    case False
    then obtain r where r: "first_strip ps s = Some r" by auto
    have "\<exists>q. s = q @ r"
      using r by (induction ps s rule: first_strip.induct) (auto simp: strip_prefix_Some_iff split: option.splits)
    moreover from False r have "strip_all ps s = strip_all ps r" by (subst strip_all.simps) simp
    moreover obtain a where "r = a @ strip_all ps r" using 1 False r by blast
    ultimately show ?thesis by (metis append.assoc)
  qed
qed

lemma trim_infix: "\<exists>a b. s = a @ trim s @ b"
proof -
  obtain a where a: "s = a @ trim_start s" using strip_all_suffix unfolding trim_start_def by blast
  obtain b where "rev (trim_start s) = b @ strip_all (map rev ws_chars) (rev (trim_start s))"
    using strip_all_suffix by blast
  then have "trim_start s = trim s @ rev b"
    by (simp add: trim_def trim_end_def) (metis rev_append rev_rev_ident)
  with a show ?thesis by metis
qed

text \<open>Text that starts and ends with a printable ASCII character other than the blank.\<close>

definition graphic :: "char \<Rightarrow> bool" where
  "graphic c \<longleftrightarrow> 33 \<le> code c \<and> code c \<le> 126"

lemma ws_chars_ends:
  "list_all (\<lambda>w. w \<noteq> [] \<and> \<not> graphic (hd w) \<and> \<not> graphic (last w)) ws_chars"
  by (simp add: ws_chars_def ws_encodings_def graphic_def code_def)

lemma first_strip_graphic:
  "list_all (\<lambda>w. w \<noteq> [] \<and> \<not> graphic (hd w)) ps \<Longrightarrow> graphic c \<Longrightarrow> first_strip ps (c # s) = None"
proof (induction ps)
  case (Cons p ps)
  then show ?case by (cases p) auto
qed simp

lemma strip_all_graphic:
  "list_all (\<lambda>w. w \<noteq> [] \<and> \<not> graphic (hd w)) ps \<Longrightarrow> graphic c \<Longrightarrow> strip_all ps (c # s) = c # s"
  by (subst strip_all.simps) (auto simp: first_strip_graphic)

lemma trim_graphic:
  assumes "s \<noteq> []" and "graphic (hd s)" and "graphic (last s)"
  shows "trim s = s" "trim_start s = s" "trim_end s = s"
proof -
  obtain c r where c: "s = c # r" using assms(1) by (cases s) auto
  obtain d q where d: "rev s = d # q" using assms(1) by (cases "rev s") auto
  have gd: "graphic d" using assms(3) d by (metis hd_rev list.sel(1))
  have 1: "list_all (\<lambda>w. w \<noteq> [] \<and> \<not> graphic (hd w)) ws_chars"
    and 2: "list_all (\<lambda>w. w \<noteq> [] \<and> \<not> graphic (hd w)) (map rev ws_chars)"
    using ws_chars_ends by (auto simp: list_all_iff hd_rev)
  show a: "trim_start s = s"
    using strip_all_graphic [OF 1, of c r] assms(2) by (simp add: trim_start_def c)
  show b: "trim_end s = s"
    using strip_all_graphic [OF 2 gd, of q] d by (simp add: trim_end_def rev_swap)
  show "trim s = s" by (simp add: trim_def a b)
qed

lemma trim_Nil [simp]: "trim [] = []" "trim_start [] = []" "trim_end [] = []"
proof -
  have n: "first_strip ps [] = None" if "[] \<notin> set ps" for ps :: "string list"
    using that
  proof (induction ps)
    case (Cons p ps)
    then show ?case by (cases p) auto
  qed simp
  have "strip_all ps [] = []" for ps by (subst strip_all.simps) (simp add: n)
  then show "trim [] = []" "trim_start [] = []" "trim_end [] = []"
    by (simp_all add: trim_def trim_start_def trim_end_def)
qed

text \<open>\<open>str::split_whitespace\<close>: the non-empty pieces between whitespace characters.\<close>

function words_from :: "string \<Rightarrow> string \<Rightarrow> string list" where
  "words_from acc [] = [rev acc]"
| "words_from acc (c # cs) =
     (case first_strip ws_chars (c # cs) of
        Some r \<Rightarrow> rev acc # words_from [] r
      | None \<Rightarrow> words_from (c # acc) cs)"
  by pat_completeness auto
termination
  by (relation "measure (\<lambda>(acc, s). length s)") (auto dest: first_strip_length simp: ws_chars_nonempty)

definition split_whitespace :: "string \<Rightarrow> string list" where
  "split_whitespace s = filter (\<lambda>w. w \<noteq> []) (words_from [] s)"

definition has_whitespace :: "string \<Rightarrow> bool" where
  [rust_str]: "has_whitespace s \<longleftrightarrow> list_ex (\<lambda>w. find_sub w s \<noteq> None) ws_chars"

text \<open>\<open>chars().any(char::is_control)\<close>: the C0 and C1 ranges and DEL.\<close>

fun has_control :: "nat list \<Rightarrow> bool" where
  "has_control [] = False"
| "has_control (a # bs) =
     (a < 32 \<or> a = 127
      \<or> (a = 194 \<and> (case bs of b # _ \<Rightarrow> 128 \<le> b \<and> b \<le> 159 | [] \<Rightarrow> False))
      \<or> has_control bs)"

section \<open>Association lists standing for hash maps\<close>

text \<open>
  A \<open>HashMap\<close> is an association list with distinct keys; insertion of a fresh key conses,
  removal filters. The order is not observed by the modelled operations.
\<close>

definition map_remove :: "'k \<Rightarrow> ('k \<times> 'v) list \<Rightarrow> ('k \<times> 'v) list" where
  "map_remove k m = filter (\<lambda>(k', _). k' \<noteq> k) m"

lemma map_of_map_remove: "map_of (map_remove k m) = (map_of m)(k := None)"
  by (induction m) (auto simp: map_remove_def fun_eq_iff)

lemma keys_map_remove [simp]: "set (map fst (map_remove k m)) = set (map fst m) - {k}"
  by (force simp: map_remove_def)

lemma map_remove_distinct: "distinct (map fst m) \<Longrightarrow> distinct (map fst (map_remove k m))"
  by (induction m) (auto simp: map_remove_def)

lemma map_remove_length: "length (map_remove k m) \<le> length m"
  by (simp add: map_remove_def)

lemma map_remove_set: "set (map_remove k m) = {(k', v) \<in> set m. k' \<noteq> k}"
  by (auto simp: map_remove_def)

lemma map_of_None_iff: "map_of m k = None \<longleftrightarrow> k \<notin> set (map fst m)"
  by (simp add: map_of_eq_None_iff)

text \<open>\<open>insert\<close> into a \<open>BTreeMap\<close> or a \<open>Map\<close> of \<open>serde_json\<close>: increasing keys.\<close>

fun map_insert :: "string \<Rightarrow> 'v \<Rightarrow> (string \<times> 'v) list \<Rightarrow> (string \<times> 'v) list" where
  "map_insert k v [] = [(k, v)]"
| "map_insert k v ((k', v') # m) =
     (if k = k' then (k, v) # m
      else if k < k' then (k, v) # (k', v') # m
      else (k', v') # map_insert k v m)"

lemma map_insert_last: "\<forall>k' \<in> fst ` set m. k' < k \<Longrightarrow> map_insert k v m = m @ [(k, v)]"
  by (induction k v m rule: map_insert.induct) auto

lemma map_insert_again: "\<forall>k' \<in> fst ` set m. k' < k \<Longrightarrow> map_insert k v (m @ [(k, w)]) = m @ [(k, v)]"
  by (induction k v m rule: map_insert.induct) auto

lemma map_insert_keys: "fst ` set (map_insert k v m) = insert k (fst ` set m)"
  by (induction k v m rule: map_insert.induct) auto

lemma map_insert_sorted: "sorted_wrt (<) (map fst m) \<Longrightarrow> sorted_wrt (<) (map fst (map_insert k v m))"
proof (induction k v m rule: map_insert.induct)
  case (2 k v k' v' m)
  have keys: "set (map fst (map_insert k v m)) = insert k (set (map fst m))"
    using map_insert_keys [of k v m] by simp
  consider "k = k'" | "k < k'" | "k' < k" by (rule linorder_cases)
  then show ?case
  proof cases
    case 3
    then have "k \<noteq> k'" "\<not> k < k'" by auto
    then show ?thesis using 2 3 keys by (simp add: Ball_def) 
  qed (use 2 in \<open>auto dest: less_trans\<close>)
qed simp

lemma map_insert_all: "list_all P m \<Longrightarrow> P (k, v) \<Longrightarrow> list_all P (map_insert k v m)"
  by (induction k v m rule: map_insert.induct) auto

section \<open>Transition systems\<close>

text \<open>
  The interface between a component's step relation and a property of its reachable states: the
  invariant holds initially and every step keeps it.
\<close>

locale invariant_system =
  fixes init :: "'s \<Rightarrow> bool" and step :: "'s \<Rightarrow> 's \<Rightarrow> bool" and inv :: "'s \<Rightarrow> bool"
  assumes init_inv: "init s \<Longrightarrow> inv s"
    and step_inv: "step s t \<Longrightarrow> inv s \<Longrightarrow> inv t"
begin

lemma reachable_inv:
  assumes "step\<^sup>*\<^sup>* s t" and "init s"
  shows "inv t"
  using assms by (induction rule: rtranclp_induct) (auto intro: init_inv step_inv)

end

end
