(* ===== verification/Jobs.thy ===== *)
theory Jobs
  imports Prelude
begin

text \<open>
  The cancellation registries of \<open>src-tauri/src/launch_jobs.rs\<close> (launch preflights),
  \<open>media/jobs.rs\<close> (media preparations) and \<open>models/scan_jobs.rs\<close> (model scans).

  Each registry maps an operation id to a shared \<open>Arc<AtomicBool>\<close> and remembers a bounded
  number of cancellations that arrived before their operation. The shared booleans live in an
  explicit store \<open>reg_flags\<close>: an \<open>Arc\<close> is an index of that store, so a guard and the registry
  observe the same flag. \<open>reg_poisoned\<close> is the poisoning of the registry's mutex.
\<close>

section \<open>State\<close>

record registry =
  reg_active :: "(string \<times> nat) list"
  reg_cancelled :: "string set"
  reg_order :: "string list"
  reg_flags :: "bool list"
  reg_poisoned :: bool

record job_guard =
  guard_id :: string
  guard_flag :: nat

datatype job_error = InvalidId | LockPoisoned | AlreadyActiveOrTooMany | AlreadyActive | TooMany

definition empty_registry :: registry where
  "empty_registry = \<lparr>reg_active = [], reg_cancelled = {}, reg_order = [], reg_flags = [],
     reg_poisoned = False\<rparr>"

definition job_id_byte :: "char \<Rightarrow> bool" where
  "job_id_byte b \<longleftrightarrow> is_ascii_alphanumeric b \<or> b \<in> set ''-_''"

definition validate_job_id :: "string \<Rightarrow> job_error + unit" where
  "validate_job_id i =
     (if i = [] \<or> length i > 128 \<or> \<not> list_all job_id_byte i then Inl InvalidId else Inr ())"

text \<open>The store of an atomic flag, and the loop that drops the oldest early cancellations.\<close>

definition store_flag :: "nat \<Rightarrow> bool \<Rightarrow> registry \<Rightarrow> registry" where
  "store_flag a v r = r\<lparr>reg_flags := (reg_flags r)[a := v]\<rparr>"

fun evict_early :: "nat \<Rightarrow> string list \<Rightarrow> string set \<Rightarrow> string list \<times> string set" where
  "evict_early cap [] C = ([], C)"
| "evict_early cap (old # rest) C =
     (if length (old # rest) > cap then evict_early cap rest (C - {old}) else (old # rest, C))"

fun store_all :: "(string \<times> nat) list \<Rightarrow> registry \<Rightarrow> registry" where
  "store_all [] r = r"
| "store_all ((i, a) # rest) r = store_all rest (store_flag a True r)"

section \<open>Launch preflights\<close>

definition launch_begin :: "string \<Rightarrow> registry \<Rightarrow> job_error + job_guard \<times> registry" where
  "launch_begin i r =
     (case validate_job_id i of Inl e \<Rightarrow> Inl e | Inr _ \<Rightarrow>
      if reg_poisoned r then Inl LockPoisoned
      else if map_of (reg_active r) i \<noteq> None \<or> length (reg_active r) \<ge> 64
      then Inl AlreadyActiveOrTooMany
      else
        let cancel = length (reg_flags r) in
        Inr (\<lparr>guard_id = i, guard_flag = cancel\<rparr>,
             r\<lparr>reg_flags := reg_flags r @ [i \<in> reg_cancelled r],
               reg_cancelled := reg_cancelled r - {i},
               reg_order := filter (\<lambda>entry. entry \<noteq> i) (reg_order r),
               reg_active := (i, cancel) # reg_active r\<rparr>))"

definition launch_cancel :: "string \<Rightarrow> registry \<Rightarrow> job_error + registry" where
  "launch_cancel i r =
     (case validate_job_id i of Inl e \<Rightarrow> Inl e | Inr _ \<Rightarrow>
      if reg_poisoned r then Inl LockPoisoned
      else (case map_of (reg_active r) i of
        Some cancel \<Rightarrow> Inr (store_flag cancel True r)
      | None \<Rightarrow>
          if i \<in> reg_cancelled r then Inr r
          else let (ord, C) = evict_early 256 (reg_order r @ [i]) (insert i (reg_cancelled r))
               in Inr (r\<lparr>reg_order := ord, reg_cancelled := C\<rparr>)))"

definition launch_cancel_all :: "registry \<Rightarrow> registry" where
  "launch_cancel_all r = (if reg_poisoned r then r else store_all (reg_active r) r)"

definition launch_drop :: "job_guard \<Rightarrow> registry \<Rightarrow> registry" where
  "launch_drop g r =
     (let r = store_flag (guard_flag g) True r in
      if reg_poisoned r then r
      else r\<lparr>reg_active := map_remove (guard_id g) (reg_active r)\<rparr>)"

section \<open>Media preparations\<close>

definition media_begin :: "string \<Rightarrow> registry \<Rightarrow> job_error + job_guard \<times> registry" where
  "media_begin i r =
     (case validate_job_id i of Inl e \<Rightarrow> Inl e | Inr _ \<Rightarrow>
      if reg_poisoned r then Inl LockPoisoned
      else if map_of (reg_active r) i \<noteq> None \<or> length (reg_active r) \<ge> 8
      then Inl AlreadyActiveOrTooMany
      else
        let cancel = length (reg_flags r) in
        Inr (\<lparr>guard_id = i, guard_flag = cancel\<rparr>,
             r\<lparr>reg_flags := reg_flags r @ [i \<in> reg_cancelled r],
               reg_cancelled := reg_cancelled r - {i},
               reg_order := filter (\<lambda>entry. entry \<noteq> i) (reg_order r),
               reg_active := (i, cancel) # reg_active r\<rparr>))"

definition media_cancel :: "string \<Rightarrow> registry \<Rightarrow> job_error + registry" where
  "media_cancel i r =
     (case validate_job_id i of Inl e \<Rightarrow> Inl e | Inr _ \<Rightarrow>
      if reg_poisoned r then Inl LockPoisoned
      else (case map_of (reg_active r) i of
        Some cancel \<Rightarrow> Inr (store_flag cancel True r)
      | None \<Rightarrow>
          if i \<in> reg_cancelled r then Inr r
          else let (ord, C) = evict_early 128 (reg_order r @ [i]) (insert i (reg_cancelled r))
               in Inr (r\<lparr>reg_order := ord, reg_cancelled := C\<rparr>)))"

definition media_cancel_all :: "registry \<Rightarrow> registry" where
  "media_cancel_all r = (if reg_poisoned r then r else store_all (reg_active r) r)"

definition media_drop :: "job_guard \<Rightarrow> registry \<Rightarrow> registry" where
  "media_drop g r =
     (let r = store_flag (guard_flag g) True r in
      if reg_poisoned r then r
      else r\<lparr>reg_active := map_remove (guard_id g) (reg_active r)\<rparr>)"

section \<open>Model scans\<close>

text \<open>A scan guard does not raise its flag when it is dropped, and there is no bulk cancel.\<close>

definition max_active_scans :: nat where
  "max_active_scans = 64"

definition max_early_cancellations :: nat where
  "max_early_cancellations = 256"

definition scan_begin :: "string \<Rightarrow> registry \<Rightarrow> job_error + job_guard \<times> registry" where
  "scan_begin i r =
     (case validate_job_id i of Inl e \<Rightarrow> Inl e | Inr _ \<Rightarrow>
      if reg_poisoned r then Inl LockPoisoned
      else if map_of (reg_active r) i \<noteq> None then Inl AlreadyActive
      else if length (reg_active r) \<ge> max_active_scans then Inl TooMany
      else
        let cancelled = (i \<in> reg_cancelled r);
            cancel = length (reg_flags r) in
        Inr (\<lparr>guard_id = i, guard_flag = cancel\<rparr>,
             r\<lparr>reg_cancelled := reg_cancelled r - {i},
               reg_order := filter (\<lambda>entry. entry \<noteq> i) (reg_order r),
               reg_flags := reg_flags r @ [cancelled],
               reg_active := (i, cancel) # reg_active r\<rparr>))"

definition scan_cancel :: "string \<Rightarrow> registry \<Rightarrow> job_error + registry" where
  "scan_cancel i r =
     (case validate_job_id i of Inl e \<Rightarrow> Inl e | Inr _ \<Rightarrow>
      if reg_poisoned r then Inl LockPoisoned
      else (case map_of (reg_active r) i of
        Some cancel \<Rightarrow> Inr (store_flag cancel True r)
      | None \<Rightarrow>
          if i \<in> reg_cancelled r then Inr r
          else let (ord, C) = evict_early max_early_cancellations (reg_order r @ [i])
                                (insert i (reg_cancelled r))
               in Inr (r\<lparr>reg_order := ord, reg_cancelled := C\<rparr>)))"

definition scan_drop :: "job_guard \<Rightarrow> registry \<Rightarrow> registry" where
  "scan_drop g r =
     (if reg_poisoned r then r
      else r\<lparr>reg_active := map_remove (guard_id g) (reg_active r)\<rparr>)"

section \<open>The registry invariant\<close>

definition reg_inv :: "nat \<Rightarrow> nat \<Rightarrow> registry \<Rightarrow> bool" where
  "reg_inv max_active max_early r \<longleftrightarrow>
     distinct (map fst (reg_active r)) \<and> distinct (map snd (reg_active r)) \<and>
     (\<forall>a \<in> snd ` set (reg_active r). a < length (reg_flags r)) \<and>
     length (reg_active r) \<le> max_active \<and>
     distinct (reg_order r) \<and> set (reg_order r) = reg_cancelled r \<and>
     length (reg_order r) \<le> max_early \<and>
     reg_cancelled r \<inter> fst ` set (reg_active r) = {}"

definition flag_raised :: "nat \<Rightarrow> registry \<Rightarrow> bool" where
  "flag_raised a r \<longleftrightarrow> a < length (reg_flags r) \<and> reg_flags r ! a"

lemma reg_inv_empty: "reg_inv ma me empty_registry"
  by (simp add: reg_inv_def empty_registry_def)

lemma store_flag_fields [simp]:
  "reg_active (store_flag a v r) = reg_active r"
  "reg_cancelled (store_flag a v r) = reg_cancelled r"
  "reg_order (store_flag a v r) = reg_order r"
  "reg_poisoned (store_flag a v r) = reg_poisoned r"
  "length (reg_flags (store_flag a v r)) = length (reg_flags r)"
  by (simp_all add: store_flag_def)

lemma store_all_fields [simp]:
  "reg_active (store_all m r) = reg_active r"
  "reg_cancelled (store_all m r) = reg_cancelled r"
  "reg_order (store_all m r) = reg_order r"
  "reg_poisoned (store_all m r) = reg_poisoned r"
  "length (reg_flags (store_all m r)) = length (reg_flags r)"
  by (induction m r rule: store_all.induct) auto

lemma flag_raised_store: "flag_raised b (store_flag a True r) \<longleftrightarrow>
    flag_raised b r \<or> (b = a \<and> a < length (reg_flags r))"
  by (cases "a < length (reg_flags r)") (auto simp: flag_raised_def store_flag_def nth_list_update)

lemma flag_raised_store_all: "flag_raised b (store_all m r) \<longleftrightarrow>
    flag_raised b r \<or> (b \<in> snd ` set m \<and> b < length (reg_flags r))"
  by (induction m r rule: store_all.induct) (auto simp: flag_raised_store)

lemma reg_inv_store_flag [simp]: "reg_inv ma me (store_flag a v r) = reg_inv ma me r"
  by (simp add: reg_inv_def)

lemma reg_inv_store_all [simp]: "reg_inv ma me (store_all m r) = reg_inv ma me r"
  by (simp add: reg_inv_def)

lemma reg_inv_remove:
  assumes "reg_inv ma me r"
  shows "reg_inv ma me (r\<lparr>reg_active := map_remove i (reg_active r)\<rparr>)"
proof -
  have "distinct (map snd (map_remove i (reg_active r)))"
    using assms by (auto simp: reg_inv_def map_remove_def distinct_map_filter)
  moreover have "length (map_remove i (reg_active r)) \<le> ma"
    using assms map_remove_length [of i "reg_active r"] by (simp add: reg_inv_def)
  ultimately show ?thesis
    using assms map_remove_distinct [of "reg_active r" i]
    by (auto simp: reg_inv_def map_remove_set)
qed

lemma reg_inv_insert:
  assumes "reg_inv ma me r" and "map_of (reg_active r) i = None"
    and "length (reg_active r) < ma"
  shows "reg_inv ma me (r\<lparr>reg_flags := reg_flags r @ [v],
           reg_cancelled := reg_cancelled r - {i},
           reg_order := filter (\<lambda>entry. entry \<noteq> i) (reg_order r),
           reg_active := (i, length (reg_flags r)) # reg_active r\<rparr>)"
proof -
  have "length (filter (\<lambda>entry. entry \<noteq> i) (reg_order r)) \<le> me"
    using assms(1) length_filter_le [of "\<lambda>entry. entry \<noteq> i" "reg_order r"]
    by (simp add: reg_inv_def del: length_filter_le)
  moreover have "length (reg_flags r) \<notin> set (map snd (reg_active r))"
    using assms(1) by (auto simp: reg_inv_def)
  ultimately show ?thesis
    using assms by (simp add: reg_inv_def map_of_None_iff) (auto simp: less_Suc_eq)
qed

lemma evict_early_eq:
  "distinct ord \<Longrightarrow> set ord = C \<Longrightarrow>
   evict_early cap ord C = (drop (length ord - cap) ord, set (drop (length ord - cap) ord))"
proof (induction cap ord C rule: evict_early.induct)
  case (2 cap old rest C)
  show ?case
  proof (cases "length (old # rest) > cap")
    case True
    with 2 have "evict_early cap rest (C - {old}) =
        (drop (length rest - cap) rest, set (drop (length rest - cap) rest))"
      by auto
    with True show ?thesis by (simp add: Suc_diff_le)
  next
    case False
    with 2 show ?thesis by simp
  qed
qed simp

lemma reg_inv_early:
  assumes "reg_inv ma me r" and "map_of (reg_active r) i = None" and "i \<notin> reg_cancelled r"
    and "ord = drop (length (reg_order r @ [i]) - me) (reg_order r @ [i])"
  shows "reg_inv ma me (r\<lparr>reg_order := ord, reg_cancelled := set ord\<rparr>)"
proof -
  have "set (reg_order r @ [i]) = insert i (reg_cancelled r)" "distinct (reg_order r @ [i])"
    using assms(1,3) by (auto simp: reg_inv_def)
  then have "set ord \<subseteq> insert i (reg_cancelled r)" "distinct ord"
    using set_drop_subset [of _ "reg_order r @ [i]"] unfolding assms(4) by (blast, simp del: drop_append)
  moreover have "length ord \<le> me" using assms by simp
  moreover have "i \<notin> fst ` set (reg_active r)"
    using assms(2) by (simp add: map_of_None_iff)
  ultimately show ?thesis
    using assms(1) by (simp add: reg_inv_def) blast
qed

section \<open>The contract of a cancellation registry\<close>

text \<open>
  One step of a registry and the guards its callers hold: an operation starts, is cancelled by
  id, every running operation is cancelled, or a guard is dropped. The four operations are
  parameters; \<open>job_reach\<close> is everything the callers can do from the empty registry.
\<close>

inductive job_step ::
  "(string \<Rightarrow> registry \<Rightarrow> job_error + job_guard \<times> registry) \<Rightarrow>
   (string \<Rightarrow> registry \<Rightarrow> job_error + registry) \<Rightarrow> (registry \<Rightarrow> registry) \<Rightarrow>
   (job_guard \<Rightarrow> registry \<Rightarrow> registry) \<Rightarrow>
   registry \<times> job_guard list \<Rightarrow> registry \<times> job_guard list \<Rightarrow> bool"
  for start cancel bulk release where
  step_start: "start i r = Inr (g, r') \<Longrightarrow>
     job_step start cancel bulk release (r, gs) (r', g # gs)"
| step_cancel: "cancel i r = Inr r' \<Longrightarrow>
     job_step start cancel bulk release (r, gs) (r', gs)"
| step_bulk: "job_step start cancel bulk release (r, gs) (bulk r, gs)"
| step_release: "g \<in> set gs \<Longrightarrow>
     job_step start cancel bulk release (r, gs) (release g r, remove1 g gs)"

inductive job_reach ::
  "(string \<Rightarrow> registry \<Rightarrow> job_error + job_guard \<times> registry) \<Rightarrow>
   (string \<Rightarrow> registry \<Rightarrow> job_error + registry) \<Rightarrow> (registry \<Rightarrow> registry) \<Rightarrow>
   (job_guard \<Rightarrow> registry \<Rightarrow> registry) \<Rightarrow> registry \<times> job_guard list \<Rightarrow> bool"
  for start cancel bulk release where
  reach_start: "job_reach start cancel bulk release (empty_registry, [])"
| reach_step: "job_reach start cancel bulk release s \<Longrightarrow>
     job_step start cancel bulk release s t \<Longrightarrow> job_reach start cancel bulk release t"

definition guards_agree :: "registry \<Rightarrow> job_guard list \<Rightarrow> bool" where
  "guards_agree r gs \<longleftrightarrow>
     distinct gs \<and> (\<lambda>g. (guard_id g, guard_flag g)) ` set gs = set (reg_active r)"

definition job_sys_inv :: "nat \<Rightarrow> nat \<Rightarrow> registry \<times> job_guard list \<Rightarrow> bool" where
  "job_sys_inv ma me s \<longleftrightarrow>
     reg_inv ma me (fst s) \<and> \<not> reg_poisoned (fst s) \<and> guards_agree (fst s) (snd s)"

fun cancel_each ::
  "(string \<Rightarrow> registry \<Rightarrow> job_error + registry) \<Rightarrow> string list \<Rightarrow> registry \<Rightarrow> job_error + registry"
where
  "cancel_each cancel [] r = Inr r"
| "cancel_each cancel (i # is) r =
     (case cancel i r of Inl e \<Rightarrow> Inl e | Inr r' \<Rightarrow> cancel_each cancel is r')"

text \<open>An early cancellation of \<open>i\<close> is pending and at most \<open>n\<close> younger ones follow it.\<close>

definition pending_within :: "nat \<Rightarrow> string \<Rightarrow> registry \<Rightarrow> bool" where
  "pending_within n i r \<longleftrightarrow> (\<exists>p q. reg_order r = p @ i # q \<and> length q \<le> n)"

lemma guards_agree_start:
  assumes "guards_agree r gs" and "reg_active r' = (guard_id g, guard_flag g) # reg_active r"
    and "map_of (reg_active r) (guard_id g) = None"
  shows "guards_agree r' (g # gs)"
proof -
  have "(guard_id g, guard_flag g) \<notin> (\<lambda>g. (guard_id g, guard_flag g)) ` set gs"
    using assms(1,3) by (force simp: guards_agree_def map_of_None_iff)
  then have "g \<notin> set gs" by blast
  then show ?thesis using assms(1,2) by (simp add: guards_agree_def)
qed

lemma guards_agree_release:
  assumes "guards_agree r gs" and "g \<in> set gs" and "distinct (map fst (reg_active r))"
    and "reg_active r' = map_remove (guard_id g) (reg_active r)"
  shows "guards_agree r' (remove1 g gs)"
proof -
  have agree: "(\<lambda>g. (guard_id g, guard_flag g)) ` set gs = set (reg_active r)"
    using assms(1) by (simp add: guards_agree_def)
  have "h = g" if "h \<in> set gs" "guard_id h = guard_id g" for h
  proof -
    have "(guard_id h, guard_flag h) \<in> set (reg_active r)"
      and "(guard_id g, guard_flag g) \<in> set (reg_active r)"
      using agree that(1) assms(2) by blast+
    then have "guard_flag h = guard_flag g"
      using that(2) assms(3) by (auto dest: eq_key_imp_eq_value)
    then show "h = g" using that(2) by simp
  qed
  moreover have "set (reg_active r') = {x \<in> set (reg_active r). fst x \<noteq> guard_id g}"
    using assms(4) by (auto simp: map_remove_set)
  moreover have "set (remove1 g gs) = {h \<in> set gs. guard_id h \<noteq> guard_id g}"
    using calculation(1) assms(1) by (auto simp: guards_agree_def)
  ultimately have "(\<lambda>g. (guard_id g, guard_flag g)) ` set (remove1 g gs) = set (reg_active r')"
    unfolding agree [symmetric] by auto
  then show ?thesis using assms(1) by (simp add: guards_agree_def)
qed

locale cancellation_registry =
  fixes start :: "string \<Rightarrow> registry \<Rightarrow> job_error + job_guard \<times> registry"
    and cancel :: "string \<Rightarrow> registry \<Rightarrow> job_error + registry"
    and bulk :: "registry \<Rightarrow> registry"
    and release :: "job_guard \<Rightarrow> registry \<Rightarrow> registry"
    and max_active max_early :: nat
  assumes start_inv: "start i r = Inr (g, r') \<Longrightarrow> reg_inv max_active max_early r \<Longrightarrow>
      reg_inv max_active max_early r'"
    and start_fresh: "start i r = Inr (g, r') \<Longrightarrow>
      map_of (reg_active r) i = None \<and> g = \<lparr>guard_id = i, guard_flag = length (reg_flags r)\<rparr> \<and>
      reg_active r' = (i, guard_flag g) # reg_active r \<and>
      reg_flags r' = reg_flags r @ [i \<in> reg_cancelled r] \<and> reg_poisoned r' = reg_poisoned r"
    and cancel_active: "cancel i r = Inr r' \<Longrightarrow> map_of (reg_active r) i = Some a \<Longrightarrow>
      r' = store_flag a True r"
    and cancel_early: "cancel i r = Inr r' \<Longrightarrow> map_of (reg_active r) i = None \<Longrightarrow>
      reg_inv max_active max_early r \<Longrightarrow>
      r' = (if i \<in> reg_cancelled r then r
            else let ord = drop (length (reg_order r @ [i]) - max_early) (reg_order r @ [i])
                 in r\<lparr>reg_order := ord, reg_cancelled := set ord\<rparr>)"
    and bulk_effect: "\<not> reg_poisoned r \<Longrightarrow> bulk r = r \<or> bulk r = store_all (reg_active r) r"
    and release_effect: "\<not> reg_poisoned r \<Longrightarrow>
      (\<exists>r1 \<in> {r, store_flag (guard_flag g) True r}.
         release g r = r1\<lparr>reg_active := map_remove (guard_id g) (reg_active r1)\<rparr>)"
begin

lemma cancel_inv:
  assumes "cancel i r = Inr r'" and "reg_inv max_active max_early r"
  shows "reg_inv max_active max_early r' \<and> reg_active r' = reg_active r \<and>
         reg_poisoned r' = reg_poisoned r"
proof (cases "map_of (reg_active r) i")
  case None
  with cancel_early [OF assms(1) None assms(2)] assms(2) reg_inv_early [OF assms(2) None]
  show ?thesis by (simp add: Let_def)
next
  case (Some a)
  with cancel_active [OF assms(1) Some] assms(2) show ?thesis by simp
qed

lemma release_inv:
  assumes "\<not> reg_poisoned r" and "reg_inv max_active max_early r"
  shows "reg_inv max_active max_early (release g r) \<and> \<not> reg_poisoned (release g r) \<and>
         reg_active (release g r) = map_remove (guard_id g) (reg_active r)"
  using release_effect [OF assms(1), of g] assms
    reg_inv_remove [OF assms(2)]
    reg_inv_remove [of max_active max_early "store_flag (guard_flag g) True r" "guard_id g"]
  by auto

lemma bulk_inv:
  assumes "\<not> reg_poisoned r" and "reg_inv max_active max_early r"
  shows "reg_inv max_active max_early (bulk r) \<and> \<not> reg_poisoned (bulk r) \<and>
         reg_active (bulk r) = reg_active r"
  using bulk_effect [OF assms(1)] assms by auto

lemma step_keeps_inv:
  assumes "job_step start cancel bulk release s t" and "job_sys_inv max_active max_early s"
  shows "job_sys_inv max_active max_early t"
  using assms
proof (induction rule: job_step.induct)
  case (step_start i r g r' gs)
  from step_start(1) start_fresh start_inv step_start(2) show ?case
    by (fastforce simp: job_sys_inv_def intro: guards_agree_start)
next
  case (step_cancel i r r' gs)
  with cancel_inv show ?case by (simp add: job_sys_inv_def guards_agree_def)
next
  case (step_bulk r gs)
  with bulk_inv show ?case by (simp add: job_sys_inv_def guards_agree_def)
next
  case (step_release g gs r)
  then have "distinct (map fst (reg_active r))"
    by (simp add: job_sys_inv_def reg_inv_def)
  with step_release release_inv [of r g] show ?case
    by (auto simp: job_sys_inv_def intro: guards_agree_release)
qed

lemma reach_inv:
  assumes "job_reach start cancel bulk release s"
  shows "job_sys_inv max_active max_early s"
  using assms
proof (induction rule: job_reach.induct)
  case reach_start
  show ?case
    by (simp add: job_sys_inv_def reg_inv_empty guards_agree_def)
       (simp add: empty_registry_def)
next
  case (reach_step s t)
  then show ?case by (blast intro: step_keeps_inv)
qed

lemma cancel_flags:
  assumes "cancel i r = Inr r'" and "reg_inv max_active max_early r"
  shows "flag_raised a r' \<longleftrightarrow> flag_raised a r \<or> map_of (reg_active r) i = Some a"
proof (cases "map_of (reg_active r) i")
  case None
  with cancel_early [OF assms(1) None assms(2)] show ?thesis
    by (simp add: flag_raised_def Let_def)
next
  case (Some b)
  then have "b < length (reg_flags r)"
    using assms(2) by (auto simp: reg_inv_def dest!: map_of_SomeD)
  with cancel_active [OF assms(1) Some] Some show ?thesis by (auto simp: flag_raised_store)
qed

lemma flags_sticky:
  assumes "job_step start cancel bulk release s t" and "job_sys_inv max_active max_early s"
    and "flag_raised a (fst s)"
  shows "flag_raised a (fst t)"
  using assms
proof (induction rule: job_step.induct)
  case (step_start i r g r' gs)
  with start_fresh [OF step_start(1)] show ?case
    by (simp add: flag_raised_def nth_append)
next
  case (step_cancel i r r' gs)
  then show ?case by (simp add: cancel_flags job_sys_inv_def)
next
  case (step_bulk r gs)
  then show ?case
    using bulk_effect [of r] by (auto simp: job_sys_inv_def flag_raised_store_all)
next
  case (step_release g gs r)
  then show ?case
    using release_effect [of r g] flag_raised_store [of a "guard_flag g" r]
    by (auto simp: job_sys_inv_def flag_raised_def)
qed

lemma cancel_scoped:
  assumes "job_reach start cancel bulk release (r, gs)" and "g \<in> set gs"
    and "cancel i r = Inr r'"
  shows "flag_raised (guard_flag g) r' \<longleftrightarrow> guard_id g = i \<or> flag_raised (guard_flag g) r"
proof -
  from reach_inv [OF assms(1)] have inv: "reg_inv max_active max_early r"
    and "(guard_id g, guard_flag g) \<in> set (reg_active r)"
    using assms(2) by (auto simp: job_sys_inv_def guards_agree_def)
  moreover have "distinct (map fst (reg_active r))" "distinct (map snd (reg_active r))"
    using inv by (simp_all add: reg_inv_def)
  ultimately have "map_of (reg_active r) i = Some (guard_flag g) \<longleftrightarrow> guard_id g = i"
    by (metis eq_key_imp_eq_value eq_snd_iff fst_conv inj_on_def distinct_map map_of_SomeD
        map_of_is_SomeI snd_conv)
  with cancel_flags [OF assms(3) inv] show ?thesis by blast
qed

lemma cancel_pending:
  assumes "cancel j r = Inr r'" and "reg_inv max_active max_early r"
    and "pending_within n i r" and "Suc n < max_early"
  shows "pending_within (Suc n) i r'"
proof (cases "map_of (reg_active r) j \<noteq> None \<or> j \<in> reg_cancelled r")
  case True
  then have "reg_order r' = reg_order r"
    using cancel_active [OF assms(1)] cancel_early [OF assms(1) _ assms(2)] by fastforce
  with assms(3) show ?thesis by (auto simp: pending_within_def le_Suc_eq)
next
  case False
  from assms(3) obtain p q where pq: "reg_order r = p @ i # q" "length q \<le> n"
    by (auto simp: pending_within_def)
  let ?k = "length (reg_order r @ [j]) - max_early"
  have "?k \<le> length p" using pq assms(4) by simp
  moreover have "reg_order r' = drop ?k (reg_order r @ [j])"
    using False cancel_early [OF assms(1) _ assms(2)] by (simp add: Let_def)
  ultimately have "reg_order r' = drop ?k p @ i # (q @ [j])"
    using pq(1) by simp
  moreover have "length (q @ [j]) \<le> Suc n" using pq(2) by simp
  ultimately show ?thesis unfolding pending_within_def by blast
qed

lemma cancel_each_pending:
  assumes "cancel_each cancel js r = Inr r'" and "reg_inv max_active max_early r"
    and "pending_within n i r" and "n + length js < max_early"
  shows "pending_within (n + length js) i r' \<and> reg_inv max_active max_early r'"
  using assms
proof (induction js arbitrary: r n)
  case (Cons j js)
  then obtain r1 where r1: "cancel j r = Inr r1" "cancel_each cancel js r1 = Inr r'"
    by (auto split: sum.splits)
  with Cons.prems have "pending_within (Suc n) i r1" "reg_inv max_active max_early r1"
    using cancel_pending [OF r1(1)] cancel_inv [OF r1(1)] by auto
  with Cons.IH [OF r1(2), of "Suc n"] Cons.prems(4) show ?case by simp
qed simp

lemma early_cancellation_survives:
  assumes "job_reach start cancel bulk release (r, gs)"
    and "map_of (reg_active r) i = None" and "i \<notin> reg_cancelled r"
    and "cancel i r = Inr r1" and "cancel_each cancel js r1 = Inr r2"
    and "length js < max_early" and "start i r2 = Inr (g, r3)"
  shows "flag_raised (guard_flag g) r3"
proof -
  have inv: "reg_inv max_active max_early r"
    using reach_inv [OF assms(1)] by (simp add: job_sys_inv_def)
  have "0 < max_early" using assms(6) by simp
  then have "reg_order r1 = drop (length (reg_order r @ [i]) - max_early) (reg_order r) @ [i]"
    using cancel_early [OF assms(4,2) inv] assms(3) by (simp add: Let_def)
  then have "pending_within 0 i r1" by (auto simp: pending_within_def)
  then have "pending_within (length js) i r2" "reg_inv max_active max_early r2"
    using cancel_each_pending [OF assms(5), of 0 i] cancel_inv [OF assms(4) inv] assms(6) by simp_all
  then have "i \<in> reg_cancelled r2"
    by (auto simp: pending_within_def reg_inv_def)
  with start_fresh [OF assms(7)] show ?thesis by (simp add: flag_raised_def)
qed

end

section \<open>The three registries meet the contract\<close>

lemma validate_job_id_Inr: "validate_job_id i = Inr u \<longleftrightarrow>
    i \<noteq> [] \<and> length i \<le> 128 \<and> list_all job_id_byte i"
  by (auto simp: validate_job_id_def)

lemma early_record:
  assumes "reg_inv ma me r" and "map_of (reg_active r) i = None" and "i \<notin> reg_cancelled r"
  shows "evict_early me (reg_order r @ [i]) (insert i (reg_cancelled r)) =
    (let ord = drop (length (reg_order r @ [i]) - me) (reg_order r @ [i]) in (ord, set ord))"
  using assms by (subst evict_early_eq) (auto simp: reg_inv_def Let_def)

lemmas job_op_defs = launch_begin_def launch_cancel_def launch_cancel_all_def launch_drop_def
  media_begin_def media_cancel_def media_cancel_all_def media_drop_def
  scan_begin_def scan_cancel_def scan_drop_def max_active_scans_def max_early_cancellations_def

interpretation launch: cancellation_registry
  launch_begin launch_cancel launch_cancel_all launch_drop 64 256
proof (unfold_locales, goal_cases)
  case (1 i r g r')
  then show ?case
    by (auto simp: job_op_defs Let_def intro!: reg_inv_insert split: sum.splits if_splits)
next
  case (4 i r r')
  then show ?case
    by (auto simp: job_op_defs early_record Let_def split: sum.splits if_splits)
qed (auto simp: job_op_defs Let_def split: sum.splits if_splits option.splits)

interpretation media: cancellation_registry
  media_begin media_cancel media_cancel_all media_drop 8 128
proof (unfold_locales, goal_cases)
  case (1 i r g r')
  then show ?case
    by (auto simp: job_op_defs Let_def intro!: reg_inv_insert split: sum.splits if_splits)
next
  case (4 i r r')
  then show ?case
    by (auto simp: job_op_defs early_record Let_def split: sum.splits if_splits)
qed (auto simp: job_op_defs Let_def split: sum.splits if_splits option.splits)

interpretation scan: cancellation_registry
  scan_begin scan_cancel "\<lambda>r. r" scan_drop 64 256
proof (unfold_locales, goal_cases)
  case (1 i r g r')
  then have "map_of (reg_active r) i = None" "length (reg_active r) < 64"
    and "r' = r\<lparr>reg_cancelled := reg_cancelled r - {i},
           reg_order := filter (\<lambda>entry. entry \<noteq> i) (reg_order r),
           reg_flags := reg_flags r @ [i \<in> reg_cancelled r],
           reg_active := (i, length (reg_flags r)) # reg_active r\<rparr>"
    by (auto simp: job_op_defs Let_def split: sum.splits if_splits)
  with reg_inv_insert [OF 1(2), of i "i \<in> reg_cancelled r"] show ?case
    by (simp add: reg_inv_def)
next
  case (4 i r r')
  then show ?case
    by (auto simp: job_op_defs early_record Let_def split: sum.splits if_splits)
qed (auto simp: job_op_defs Let_def split: sum.splits if_splits option.splits)

section \<open>Properties\<close>

text \<open>Whatever interleaving of starts, cancellations, bulk cancellations and guard drops the
  callers perform, a launch registry never tracks more than 64 operations or 256 early
  cancellations, its queue and set of early cancellations agree, no id is both running and
  cancelled early, and the live guards are exactly the tracked operations, each sharing its
  flag with the registry.\<close>

lemma launch_registry_safe:
  assumes "job_reach launch_begin launch_cancel launch_cancel_all launch_drop (r, gs)"
  shows "length (reg_active r) \<le> 64 \<and> length (reg_order r) \<le> 256 \<and>
    set (reg_order r) = reg_cancelled r \<and> reg_cancelled r \<inter> fst ` set (reg_active r) = {} \<and>
    (\<lambda>g. (guard_id g, guard_flag g)) ` set gs = set (reg_active r) \<and> distinct gs"
  using launch.reach_inv [OF assms] by (simp add: job_sys_inv_def reg_inv_def guards_agree_def)

text \<open>A cancellation that arrives before its launch is not lost: while fewer than 256 further
  cancellations come in between, in any order and for any ids, the launch starts with its flag
  already raised.\<close>

lemma launch_early_cancellation_wins:
  assumes "job_reach launch_begin launch_cancel launch_cancel_all launch_drop (r, gs)"
    and "map_of (reg_active r) i = None" and "i \<notin> reg_cancelled r"
    and "launch_cancel i r = Inr r1" and "cancel_each launch_cancel js r1 = Inr r2"
    and "length js < 256" and "launch_begin i r2 = Inr (g, r3)"
  shows "flag_raised (guard_flag g) r3"
  by (rule launch.early_cancellation_survives [OF assms])

text \<open>Cancelling one media preparation raises the flag of that preparation and of no other
  running one.\<close>

lemma media_cancel_scoped:
  assumes "job_reach media_begin media_cancel media_cancel_all media_drop (r, gs)"
    and "g \<in> set gs" and "media_cancel i r = Inr r'"
  shows "flag_raised (guard_flag g) r' \<longleftrightarrow> guard_id g = i \<or> flag_raised (guard_flag g) r"
  by (rule media.cancel_scoped [OF assms])

text \<open>A raised scan flag stays raised: no later start, cancellation or drop lowers it.\<close>

lemma scan_flags_sticky:
  assumes "job_reach scan_begin scan_cancel (\<lambda>r. r) scan_drop s"
    and "job_step scan_begin scan_cancel (\<lambda>r. r) scan_drop s t"
    and "flag_raised a (fst s)"
  shows "flag_raised a (fst t)"
  by (rule scan.flags_sticky [OF assms(2) scan.reach_inv [OF assms(1)] assms(3)])

section \<open>Witnesses\<close>

lemmas job_eval = validate_job_id_def job_id_byte_def is_ascii_alphanumeric_def
  is_ascii_alphabetic_def is_ascii_digit_def code_def empty_registry_def Let_def

definition queued_registry :: registry where
  "queued_registry = \<lparr>reg_active = [], reg_cancelled = {''q''}, reg_order = [''q''],
     reg_flags = [], reg_poisoned = False\<rparr>"

definition running_registry :: "bool \<Rightarrow> registry" where
  "running_registry v = \<lparr>reg_active = [(''a'', 0)], reg_cancelled = {}, reg_order = [],
     reg_flags = [v], reg_poisoned = False\<rparr>"

lemma launch_cancel_queued: "launch_cancel ''q'' empty_registry = Inr queued_registry"
  by (simp add: launch_cancel_def job_eval queued_registry_def)

lemma media_begin_running:
  "media_begin ''a'' empty_registry =
     Inr (\<lparr>guard_id = ''a'', guard_flag = 0\<rparr>, running_registry False)"
  by (simp add: media_begin_def job_eval running_registry_def)

lemma scan_begin_running:
  "scan_begin ''a'' empty_registry =
     Inr (\<lparr>guard_id = ''a'', guard_flag = 0\<rparr>, running_registry False)"
  by (simp add: scan_begin_def job_eval running_registry_def max_active_scans_def)

theorem launch_registry_safe_witness:
  "job_reach launch_begin launch_cancel launch_cancel_all launch_drop (queued_registry, []) \<and>
   length (reg_order queued_registry) \<le> 256"
proof -
  have reach: "job_reach launch_begin launch_cancel launch_cancel_all launch_drop
      (queued_registry, [])"
    by (rule reach_step [OF reach_start], rule step_cancel, rule launch_cancel_queued)
  with launch_registry_safe [OF reach] show ?thesis by blast
qed

theorem launch_early_cancellation_wins_witness:
  "\<exists>g r. launch_begin ''q'' queued_registry = Inr (g, r) \<and> flag_raised (guard_flag g) r"
proof -
  have start: "launch_begin ''q'' queued_registry = Inr (\<lparr>guard_id = ''q'', guard_flag = 0\<rparr>,
      \<lparr>reg_active = [(''q'', 0)], reg_cancelled = {}, reg_order = [], reg_flags = [True],
       reg_poisoned = False\<rparr>)"
    by (simp add: launch_begin_def job_eval queued_registry_def)
  show ?thesis
    using start launch_early_cancellation_wins [OF reach_start _ _ launch_cancel_queued _ _ start,
        of "[]"]
    by (simp add: empty_registry_def)
qed

theorem media_cancel_scoped_witness:
  "media_cancel ''a'' (running_registry False) = Inr (running_registry True) \<and>
   flag_raised 0 (running_registry True)"
proof -
  let ?g = "\<lparr>guard_id = ''a'', guard_flag = 0\<rparr>"
  have reach: "job_reach media_begin media_cancel media_cancel_all media_drop
      (running_registry False, [?g])"
    by (rule reach_step [OF reach_start], rule step_start, rule media_begin_running)
  have cancel: "media_cancel ''a'' (running_registry False) = Inr (running_registry True)"
    by (simp add: media_cancel_def job_eval running_registry_def store_flag_def)
  from cancel media_cancel_scoped [OF reach _ cancel, of ?g] show ?thesis by simp
qed

theorem scan_flags_sticky_witness:
  "scan_drop \<lparr>guard_id = ''a'', guard_flag = 0\<rparr> (running_registry True) =
     (running_registry True)\<lparr>reg_active := []\<rparr> \<and>
   flag_raised 0 ((running_registry True)\<lparr>reg_active := []\<rparr>)"
proof -
  let ?g = "\<lparr>guard_id = ''a'', guard_flag = 0\<rparr>"
  have begun: "job_reach scan_begin scan_cancel (\<lambda>r. r) scan_drop (running_registry False, [?g])"
    by (rule reach_step [OF reach_start], rule step_start, rule scan_begin_running)
  have cancel: "scan_cancel ''a'' (running_registry False) = Inr (running_registry True)"
    by (simp add: scan_cancel_def job_eval running_registry_def store_flag_def)
  have reach: "job_reach scan_begin scan_cancel (\<lambda>r. r) scan_drop (running_registry True, [?g])"
    by (rule reach_step [OF begun], rule step_cancel, rule cancel)
  have drop: "scan_drop ?g (running_registry True) = (running_registry True)\<lparr>reg_active := []\<rparr>"
    by (simp add: scan_drop_def running_registry_def map_remove_def)
  have step: "job_step scan_begin scan_cancel (\<lambda>r. r) scan_drop (running_registry True, [?g])
      ((running_registry True)\<lparr>reg_active := []\<rparr>, [])"
    using step_release [of ?g "[?g]" scan_begin scan_cancel "\<lambda>r. r" scan_drop "running_registry True"]
    unfolding drop by simp
  have "flag_raised 0 (fst (running_registry True, [?g]))"
    by (simp add: flag_raised_def running_registry_def)
  from scan_flags_sticky [OF reach step this] drop show ?thesis by simp
qed

end
