(* ===== verification/Sse.thy ===== *)
theory Sse
  imports Prelude
begin

text \<open>
  The server-sent-events framer of \<open>src-tauri/src/providers/sse.rs\<close>, shared by connection
  verification and serving measurements.

  The caller's \<open>FnMut\<close> callback is a function that threads its own state \<open>'s\<close> and answers
  \<open>Inr stop\<close> or \<open>Inl e\<close>. Every operation returns the framer as it is left behind, the callback's
  state and the result, so an early return by \<open>?\<close> keeps the half-updated fields of the code.
\<close>

definition event_limit :: nat where
  "event_limit = 64 * 1024"

record framer =
  fr_pending :: bytes
  fr_data :: string
  fr_has_data :: bool
  fr_event_type :: "string option"
  fr_total :: nat
  fr_skip_lf :: bool
  fr_started :: bool

definition default_framer :: framer where
  "default_framer = \<lparr>fr_pending = [], fr_data = [], fr_has_data = False, fr_event_type = None, fr_total = 0,
     fr_skip_lf = False, fr_started = False\<rparr>"

datatype 'e sse_error =
  NotUtf8 | EventTooLarge | ResponseTooLarge | LineTooLarge | Callback 'e

type_synonym ('s, 'e) emitter = "string \<Rightarrow> string option \<Rightarrow> 's \<Rightarrow> ('e + bool) \<times> 's"
type_synonym ('s, 'e) framed = "('e sse_error + bool) \<times> framer \<times> 's"

definition sse_event :: "('s, 'e) emitter \<Rightarrow> framer \<Rightarrow> 's \<Rightarrow> ('s, 'e) framed" where
  "sse_event emit f s =
     (let (r, s') = (if fr_has_data f \<or> fr_event_type f = Some ''error''
                     then emit (fr_data f) (fr_event_type f) s else (Inr False, s))
      in case r of
           Inl e \<Rightarrow> (Inl (Callback e), f, s')
         | Inr stop \<Rightarrow> (Inr stop, f\<lparr>fr_data := [], fr_has_data := False, fr_event_type := None\<rparr>, s'))"

definition utf8_bom :: bytes where
  "utf8_bom = [CHR 0xEF, CHR 0xBB, CHR 0xBF]"

definition field_value :: "string \<Rightarrow> string \<times> string" where
  "field_value line =
     (let (field, value) = (case split_once (CHR '':'') line of None \<Rightarrow> (line, []) | Some p \<Rightarrow> p)
      in (field, case strip_prefix '' '' value of None \<Rightarrow> value | Some v \<Rightarrow> v))"

definition sse_line :: "('s, 'e) emitter \<Rightarrow> framer \<Rightarrow> 's \<Rightarrow> ('s, 'e) framed" where
  "sse_line emit f s =
     (let raw = (if fr_started f then fr_pending f
                 else case strip_prefix utf8_bom (fr_pending f) of None \<Rightarrow> fr_pending f | Some r \<Rightarrow> r);
          f = f\<lparr>fr_started := True\<rparr>
      in case from_utf8 raw of
           None \<Rightarrow> (Inl NotUtf8, f, s)
         | Some line \<Rightarrow>
             if line = [] then sse_event emit (f\<lparr>fr_pending := []\<rparr>) s
             else
               let (field, value) = field_value line in
               if field = ''data'' then
                 let separator = (if fr_has_data f then 1 else 0) in
                 if saturating_add (saturating_add (length (fr_data f)) separator) (length value)
                      > event_limit
                 then (Inl EventTooLarge, f, s)
                 else (Inr False,
                       f\<lparr>fr_data := fr_data f @ (if fr_has_data f then [CHR 0x0A] else []) @ value,
                         fr_has_data := True, fr_pending := []\<rparr>, s)
               else if field = ''event'' then
                 (Inr False, f\<lparr>fr_event_type := Some value, fr_pending := []\<rparr>, s)
               else (Inr False, f\<lparr>fr_pending := []\<rparr>, s))"

fun sse_push ::
  "('s, 'e) emitter \<Rightarrow> nat \<Rightarrow> bytes \<Rightarrow> framer \<Rightarrow> 's \<Rightarrow> ('s, 'e) framed" where
  "sse_push emit limit [] f s = (Inr False, f, s)"
| "sse_push emit limit (b # chunk) f s =
     (let f = f\<lparr>fr_total := saturating_add (fr_total f) 1\<rparr> in
      if fr_total f > limit then (Inl ResponseTooLarge, f, s)
      else if fr_skip_lf f \<and> b = CHR 0x0A then
        sse_push emit limit chunk (f\<lparr>fr_skip_lf := False\<rparr>) s
      else
        let f = f\<lparr>fr_skip_lf := False\<rparr> in
        if b = CHR 0x0D \<or> b = CHR 0x0A then
          (case sse_line emit f s of
             (Inl e, f, s) \<Rightarrow> (Inl e, f, s)
           | (Inr stop, f, s) \<Rightarrow>
               let f = f\<lparr>fr_skip_lf := (b = CHR 0x0D)\<rparr> in
               if stop then (Inr True, f, s) else sse_push emit limit chunk f s)
        else
          let f = f\<lparr>fr_pending := fr_pending f @ [b]\<rparr> in
          if length (fr_pending f) > event_limit then (Inl LineTooLarge, f, s)
          else sse_push emit limit chunk f s)"

section \<open>Chunk boundaries do not matter\<close>

lemma sse_push_append:
  "sse_push emit limit (a @ b) f s =
     (case sse_push emit limit a f s of
        (Inr False, f', s') \<Rightarrow> sse_push emit limit b f' s'
      | stopped \<Rightarrow> stopped)"
proof (induction a arbitrary: f s)
  case (Cons x a)
  show ?case
    by (auto simp: Cons.IH Let_def split: sum.splits prod.splits bool.splits)
qed simp

fun push_chunks ::
  "('s, 'e) emitter \<Rightarrow> nat \<Rightarrow> bytes list \<Rightarrow> framer \<Rightarrow> 's \<Rightarrow> ('s, 'e) framed" where
  "push_chunks emit limit [] f s = (Inr False, f, s)"
| "push_chunks emit limit (c # cs) f s =
     (case sse_push emit limit c f s of
        (Inr False, f', s') \<Rightarrow> push_chunks emit limit cs f' s'
      | stopped \<Rightarrow> stopped)"

lemma push_chunks_concat: "push_chunks emit limit cs f s = sse_push emit limit (concat cs) f s"
proof (induction cs arbitrary: f s)
  case (Cons c cs)
  then show ?case
    by (auto simp: sse_push_append split: prod.splits sum.splits bool.splits)
qed simp

section \<open>Bounds\<close>

definition framer_inv :: "nat \<Rightarrow> framer \<Rightarrow> bool" where
  "framer_inv limit f \<longleftrightarrow> length (fr_pending f) \<le> event_limit \<and> length (fr_data f) \<le> event_limit \<and>
     fr_total f \<le> limit"

lemma event_limit_eval: "event_limit = 65536"
  by (simp add: event_limit_def)

lemma sse_event_bounds:
  "sse_event emit f s = (r, f', s') \<Longrightarrow> framer_inv limit f \<Longrightarrow> framer_inv limit f'"
  by (auto simp: sse_event_def framer_inv_def Let_def split: prod.splits sum.splits if_splits)

lemma sse_line_bounds:
  assumes "sse_line emit f s = (r, f', s')" and "framer_inv limit f"
  shows "framer_inv limit f'"
proof -
  have lim: "event_limit < u64_bound - 1" by (simp add: event_limit_eval rust_arith)
  have sat: "saturating_add (saturating_add a b) c \<le> event_limit \<longleftrightarrow> a + b + c \<le> event_limit"
    for a b c
    using lim by (auto simp: saturating_add_def)
  show ?thesis
    using assms
    by (auto simp: sse_line_def Let_def framer_inv_def sat not_less
        dest!: sse_event_bounds [of _ _ _ _ _ _ limit]
        split: option.splits prod.splits if_splits)
qed

lemma sse_push_bounds:
  assumes "sse_push emit limit chunk f s = (Inr b, f', s')" and "framer_inv limit f"
  shows "framer_inv limit f'"
  using assms
proof (induction emit limit chunk f s rule: sse_push.induct)
  case (2 emit limit b chunk f s)
  let ?f0 = "f\<lparr>fr_total := saturating_add (fr_total f) 1\<rparr>"
  let ?f1 = "?f0\<lparr>fr_skip_lf := False\<rparr>"
  show ?case
  proof (cases "fr_total ?f0 > limit")
    case False
    have inv: "framer_inv limit ?f1" using False 2(5) by (simp add: framer_inv_def)
    show ?thesis
    proof (cases "fr_skip_lf ?f0 \<and> b = CHR 0x0A")
      case True
      then show ?thesis using 2 False inv by (simp add: Let_def)
    next
      case noskip: False
      show ?thesis
      proof (cases "b = CHR 0x0D \<or> b = CHR 0x0A")
        case True
        obtain r f2 s2 where line: "sse_line emit ?f1 s = (r, f2, s2)"
          by (cases "sse_line emit ?f1 s") auto
        from sse_line_bounds [OF line inv] have "framer_inv limit (f2\<lparr>fr_skip_lf := b = CHR 0x0D\<rparr>)"
          by (simp add: framer_inv_def)
        then show ?thesis using 2 False noskip True line
          by (auto simp: Let_def split: sum.splits if_splits)
      next
        case plain: False
        then show ?thesis using 2 False noskip inv
          by (auto simp: Let_def framer_inv_def split: if_splits)
      qed
    qed
  qed (use 2 in simp)
qed simp

section \<open>Decoding what a server sends\<close>

text \<open>The event a server sends for the text \<open>join ls\<close>: one \<open>data:\<close> field per line, then an empty
  line, with the same terminator throughout.\<close>

definition data_line :: "bytes \<Rightarrow> bytes" where
  "data_line l = ''data: '' @ l"

definition encode_event :: "bytes \<Rightarrow> bytes list \<Rightarrow> bytes" where
  "encode_event term ls = concat (map (\<lambda>l. data_line l @ term) ls) @ term"

definition line_terminators :: "bytes set" where
  "line_terminators = {[CHR 0x0A], [CHR 0x0D], [CHR 0x0D, CHR 0x0A]}"

definition plain_line :: "bytes \<Rightarrow> bool" where
  "plain_line l \<longleftrightarrow> CHR 0x0D \<notin> set l \<and> CHR 0x0A \<notin> set l \<and> utf8_ok (map code l) \<and>
     length (data_line l) \<le> event_limit"

definition between_events :: "framer \<Rightarrow> bool" where
  "between_events f \<longleftrightarrow> fr_started f \<and> fr_pending f = [] \<and> fr_data f = [] \<and>
     \<not> fr_has_data f \<and> fr_event_type f = None"

lemma saturating_add_exact: "a + b < u64_bound \<Longrightarrow> saturating_add a b = a + b"
  by (simp add: saturating_add_def)

lemma push_plain:
  assumes "CHR 0x0D \<notin> set seg" and "CHR 0x0A \<notin> set seg" and "seg \<noteq> []"
    and "length (fr_pending f) + length seg \<le> event_limit"
    and "fr_total f + length seg \<le> limit" and "limit < u64_bound"
  shows "sse_push emit limit (seg @ rest) f s = sse_push emit limit rest
    (f\<lparr>fr_total := fr_total f + length seg, fr_skip_lf := False,
       fr_pending := fr_pending f @ seg\<rparr>) s"
  using assms
proof (induction seg arbitrary: f)
  case (Cons b seg)
  let ?f = "f\<lparr>fr_total := fr_total f + 1, fr_skip_lf := False, fr_pending := fr_pending f @ [b]\<rparr>"
  have step: "sse_push emit limit ((b # seg) @ rest) f s = sse_push emit limit (seg @ rest) ?f s"
    using Cons.prems by (auto simp: saturating_add_exact Let_def)
  show ?case
  proof (cases "seg = []")
    case True
    with step show ?thesis by simp
  next
    case False
    have "sse_push emit limit (seg @ rest) ?f s = sse_push emit limit rest
      (?f\<lparr>fr_total := fr_total ?f + length seg, fr_skip_lf := False,
          fr_pending := fr_pending ?f @ seg\<rparr>) s"
      by (rule Cons.IH) (use Cons.prems False in auto)
    with step show ?thesis by simp
  qed
qed simp

lemma data_line_facts:
  "data_line l \<noteq> []" "field_value (data_line l) = (''data'', l)"
  "length (data_line l) = 6 + length l"
  "utf8_ok (map code (data_line l)) \<longleftrightarrow> utf8_ok (map code l)"
  "set (data_line l) = set ''data: '' \<union> set l"
  by (simp_all add: data_line_def field_value_def code_def)

lemma line_data:
  assumes "fr_started f" and "fr_pending f = data_line l" and "utf8_ok (map code l)"
    and "length (fr_data f) + (if fr_has_data f then 1 else 0) + length l \<le> event_limit"
  shows "sse_line emit f s = (Inr False, f\<lparr>fr_data := fr_data f @
      (if fr_has_data f then [CHR 0x0A] else []) @ l, fr_has_data := True, fr_pending := []\<rparr>, s)"
proof -
  have utf8: "from_utf8 (data_line l) = Some (data_line l)"
    using assms(3) by (simp add: data_line_facts)
  have sat: "saturating_add (saturating_add (length (fr_data f)) (if fr_has_data f then 1 else 0))
      (length l) \<le> event_limit"
    using assms(4) by (simp add: saturating_add_def)
  have "f\<lparr>fr_started := True\<rparr> = f" using assms(1) by simp
  then show ?thesis
    using assms(1,2) sat
    by (simp add: sse_line_def utf8 data_line_facts not_less Let_def split del: if_split)
qed

lemma line_empty:
  assumes "fr_started f" and "fr_pending f = []" and "fr_has_data f"
    and "emit (fr_data f) (fr_event_type f) s = (Inr False, s')"
  shows "sse_line emit f s =
    (Inr False, f\<lparr>fr_data := [], fr_has_data := False, fr_event_type := None\<rparr>, s')"
proof -
  have f: "f\<lparr>fr_started := True, fr_pending := []\<rparr> = f" using assms(1,2) by simp
  show ?thesis
    using assms f by (simp add: sse_line_def from_utf8_def Let_def sse_event_def)
qed

lemma push_terminator:
  assumes "term \<in> line_terminators" and "fr_skip_lf f \<longrightarrow> hd term \<noteq> CHR 0x0A"
    and "fr_total f + length term \<le> limit" and "limit < u64_bound"
    and "sse_line emit (f\<lparr>fr_total := fr_total f + 1, fr_skip_lf := False\<rparr>) s = (Inr False, f2, s2)"
    and "fr_total f2 = fr_total f + 1"
  shows "sse_push emit limit (term @ rest) f s = sse_push emit limit rest
    (f2\<lparr>fr_skip_lf := (term = [CHR 0x0D]), fr_total := fr_total f + length term\<rparr>) s2"
  using assms unfolding line_terminators_def
  by (cases f2) (auto simp: saturating_add_exact Let_def split: if_splits)

text \<open>The text of an event accumulates line by line.\<close>

fun accumulate :: "bool \<Rightarrow> string \<Rightarrow> string list \<Rightarrow> string" where
  "accumulate had d [] = d"
| "accumulate had d (l # ls) = accumulate True (d @ (if had then [CHR 0x0A] else []) @ l) ls"

lemma accumulate_length: "length d \<le> length (accumulate had d ls)"
proof (induction ls arbitrary: had d)
  case (Cons l ls)
  from Cons [of "d @ (if had then [CHR 0x0A] else []) @ l" True] show ?case by simp
qed simp

lemma accumulate_join: "accumulate True d ls = d @ concat (map (\<lambda>l. CHR 0x0A # l) ls)"
  by (induction ls arbitrary: d) auto

lemma join_Cons: "join [c] (l # ls) = l @ concat (map (\<lambda>l. c # l) ls)"
  by (induction ls arbitrary: l) auto

lemma accumulate_all: "ls \<noteq> [] \<Longrightarrow> accumulate False [] ls = join [CHR 0x0A] ls"
  by (cases ls) (simp_all add: accumulate_join join_Cons)

lemma push_data_line:
  assumes "term \<in> line_terminators" and "fr_started f" and "fr_pending f = []"
    and "plain_line l" and "fr_total f + length (data_line l @ term) \<le> limit"
    and "limit < u64_bound"
    and "length (fr_data f) + (if fr_has_data f then 1 else 0) + length l \<le> event_limit"
  shows "sse_push emit limit ((data_line l @ term) @ rest) f s = sse_push emit limit rest
    (f\<lparr>fr_data := fr_data f @ (if fr_has_data f then [CHR 0x0A] else []) @ l, fr_has_data := True,
       fr_skip_lf := (term = [CHR 0x0D]),
       fr_total := fr_total f + length (data_line l @ term)\<rparr>) s"
proof -
  let ?f = "f\<lparr>fr_total := fr_total f + length (data_line l), fr_skip_lf := False,
      fr_pending := data_line l\<rparr>"
  have plain: "sse_push emit limit (data_line l @ term @ rest) f s
      = sse_push emit limit (term @ rest) ?f s"
    using assms(3-6) by (subst push_plain) (auto simp: plain_line_def data_line_facts)
  have "sse_line emit (?f\<lparr>fr_total := fr_total ?f + 1, fr_skip_lf := False\<rparr>) s =
      (Inr False, ?f\<lparr>fr_total := fr_total ?f + 1, fr_skip_lf := False,
         fr_data := fr_data f @ (if fr_has_data f then [CHR 0x0A] else []) @ l,
         fr_has_data := True, fr_pending := []\<rparr>, s)"
    using assms(2,4,7) by (subst line_data) (auto simp: plain_line_def)
  then have "sse_push emit limit (term @ rest) ?f s = sse_push emit limit rest
    ((?f\<lparr>fr_total := fr_total ?f + 1, fr_skip_lf := False,
       fr_data := fr_data f @ (if fr_has_data f then [CHR 0x0A] else []) @ l,
       fr_has_data := True, fr_pending := []\<rparr>)
     \<lparr>fr_skip_lf := (term = [CHR 0x0D]), fr_total := fr_total ?f + length term\<rparr>) s"
    using assms(1,5,6) by (intro push_terminator) auto
  also have "\<dots> = sse_push emit limit rest
    (f\<lparr>fr_data := fr_data f @ (if fr_has_data f then [CHR 0x0A] else []) @ l, fr_has_data := True,
       fr_skip_lf := (term = [CHR 0x0D]),
       fr_total := fr_total f + length (data_line l @ term)\<rparr>) s"
    using assms(3) by (intro arg_cong [of _ _ "\<lambda>f. sse_push emit limit rest f s"]) simp
  finally show ?thesis using plain by simp
qed

lemma push_data_lines:
  assumes "term \<in> line_terminators" and "limit < u64_bound"
    and "fr_started f" and "fr_pending f = []" and "fr_event_type f = None"
    and "\<forall>l \<in> set ls. plain_line l"
    and "fr_total f + length (concat (map (\<lambda>l. data_line l @ term) ls)) \<le> limit"
    and "length (accumulate (fr_has_data f) (fr_data f) ls) \<le> event_limit"
    and "fr_skip_lf f \<longrightarrow> term = [CHR 0x0D] \<or> ls \<noteq> []"
  shows "\<exists>f'. (\<forall>rest. sse_push emit limit (concat (map (\<lambda>l. data_line l @ term) ls) @ rest) f s =
      sse_push emit limit rest f' s) \<and>
    fr_started f' \<and> fr_pending f' = [] \<and> fr_event_type f' = None \<and>
    fr_data f' = accumulate (fr_has_data f) (fr_data f) ls \<and>
    (fr_has_data f' \<longleftrightarrow> fr_has_data f \<or> ls \<noteq> []) \<and>
    (fr_skip_lf f' \<longrightarrow> term = [CHR 0x0D]) \<and>
    fr_total f' = fr_total f + length (concat (map (\<lambda>l. data_line l @ term) ls))"
  using assms
proof (induction ls arbitrary: f)
  case (Cons l ls)
  let ?d = "fr_data f @ (if fr_has_data f then [CHR 0x0A] else []) @ l"
  let ?f = "f\<lparr>fr_data := ?d, fr_has_data := True, fr_skip_lf := (term = [CHR 0x0D]),
      fr_total := fr_total f + length (data_line l @ term)\<rparr>"
  have "length ?d \<le> length (accumulate True ?d ls)" by (rule accumulate_length)
  with Cons.prems have "length ?d \<le> event_limit" by simp
  then have one: "sse_push emit limit ((data_line l @ term) @ rest) f s = sse_push emit limit rest ?f s"
    for rest
    using Cons.prems by (intro push_data_line) auto
  obtain f' where
    rest: "\<And>rest. sse_push emit limit (concat (map (\<lambda>l. data_line l @ term) ls) @ rest) ?f s =
      sse_push emit limit rest f' s"
    and f': "fr_started f' \<and> fr_pending f' = [] \<and> fr_event_type f' = None \<and>
      fr_data f' = accumulate True ?d ls \<and> fr_has_data f' \<and>
      (fr_skip_lf f' \<longrightarrow> term = [CHR 0x0D]) \<and>
      fr_total f' = fr_total ?f + length (concat (map (\<lambda>l. data_line l @ term) ls))"
    using Cons.IH [of ?f] Cons.prems by auto
  have "sse_push emit limit (concat (map (\<lambda>l. data_line l @ term) (l # ls)) @ rest) f s =
      sse_push emit limit rest f' s" for rest
    using one [of "concat (map (\<lambda>l. data_line l @ term) ls) @ rest"] rest [of rest] by simp
  with f' show ?case by (intro exI [of _ f']) simp
qed auto

lemma push_event:
  assumes "term \<in> line_terminators" and "limit < u64_bound" and "between_events f"
    and "ls \<noteq> []" and "\<forall>l \<in> set ls. plain_line l"
    and "length (join [CHR 0x0A] ls) \<le> event_limit"
    and "fr_total f + length (encode_event term ls) \<le> limit"
    and "emit (join [CHR 0x0A] ls) None s = (Inr False, s')"
  shows "\<exists>f'. (\<forall>rest. sse_push emit limit (encode_event term ls @ rest) f s =
      sse_push emit limit rest f' s') \<and> between_events f' \<and>
    fr_total f' = fr_total f + length (encode_event term ls)"
proof -
  let ?text = "concat (map (\<lambda>l. data_line l @ term) ls)"
  have enc: "encode_event term ls = ?text @ term" by (simp add: encode_event_def)
  obtain f1 where
    lines: "\<And>rest. sse_push emit limit (?text @ rest) f s = sse_push emit limit rest f1 s"
    and f1: "fr_started f1" "fr_pending f1 = []" "fr_event_type f1 = None" "fr_has_data f1"
      "fr_data f1 = join [CHR 0x0A] ls" "fr_skip_lf f1 \<longrightarrow> term = [CHR 0x0D]"
      "fr_total f1 = fr_total f + length ?text"
    using push_data_lines [of "term" limit f ls emit s] assms
    by (auto simp: between_events_def encode_event_def accumulate_all)
  let ?f2 = "f1\<lparr>fr_total := fr_total f1 + 1, fr_skip_lf := False, fr_data := [],
      fr_has_data := False, fr_event_type := None\<rparr>"
  let ?f3 = "?f2\<lparr>fr_skip_lf := (term = [CHR 0x0D]), fr_total := fr_total f1 + length term\<rparr>"
  have "sse_line emit (f1\<lparr>fr_total := fr_total f1 + 1, fr_skip_lf := False\<rparr>) s =
      (Inr False, ?f2, s')"
    using f1 assms(8) by (subst line_empty) auto
  then have "sse_push emit limit (term @ rest) f1 s = sse_push emit limit rest ?f3 s'" for rest
    using assms(1,2,7) f1 enc by (intro push_terminator) auto
  with lines have "sse_push emit limit (encode_event term ls @ rest) f s =
      sse_push emit limit rest ?f3 s'" for rest
    by (simp add: enc)
  moreover have "between_events ?f3" using f1 by (simp add: between_events_def)
  moreover have "fr_total ?f3 = fr_total f + length (encode_event term ls)"
    using f1 by (simp add: enc)
  ultimately show ?thesis by blast
qed

section \<open>Properties\<close>

text \<open>How the network cuts the response into chunks is irrelevant: pushing the chunks one after
  the other, stopping at the first error or terminator, leaves the framer, the callback's state
  and the result exactly as pushing the whole text at once does. A carriage return at the end of
  one chunk and its line feed at the start of the next are one line ending.\<close>

lemma sse_chunking_irrelevant:
  "push_chunks emit limit cs f s = sse_push emit limit (concat cs) f s"
  by (rule push_chunks_concat)

text \<open>A successful push never buffers more than one 64 KiB line and one 64 KiB event, and never
  accepts more than the response limit in total.\<close>

lemma sse_buffers_bounded:
  assumes "push_chunks emit limit cs default_framer s = (Inr b, f, s')"
  shows "length (fr_pending f) \<le> 65536 \<and> length (fr_data f) \<le> 65536 \<and> fr_total f \<le> limit"
proof -
  have "sse_push emit limit (concat cs) default_framer s = (Inr b, f, s')"
    using assms by (simp add: push_chunks_concat)
  from sse_push_bounds [OF this] show ?thesis
    by (simp add: framer_inv_def default_framer_def event_limit_eval)
qed

text \<open>C34. Decoding inverts encoding: an event written as \<open>data:\<close> lines, with any of the three line
  endings of the standard, reaches the callback exactly once, as its lines joined by a line feed,
  and the framer is again between events.\<close>

theorem sse_decodes_encoded_event:
  assumes "term \<in> line_terminators" and "limit < u64_bound" and "between_events f"
    and "ls \<noteq> []" and "\<forall>l \<in> set ls. plain_line l"
    and "length (join [CHR 0x0A] ls) \<le> event_limit"
    and "fr_total f + length (encode_event term ls) \<le> limit"
    and "emit (join [CHR 0x0A] ls) None s = (Inr False, s')"
  shows "\<exists>f'. sse_push emit limit (encode_event term ls) f s = (Inr False, f', s') \<and>
    between_events f'"
proof -
  obtain f' where "\<And>rest. sse_push emit limit (encode_event term ls @ rest) f s =
      sse_push emit limit rest f' s'" and "between_events f'"
    using push_event [where emit = emit and s = s and s' = s', OF assms] by blast
  from this(1) [of "[]"] this(2) show ?thesis by simp
qed

text \<open>Bytes after the event at which the callback stops are not consumed: whatever follows, the
  framer and the callback's state are those at the terminator.\<close>

lemma sse_stop_consumes_nothing_more:
  assumes "sse_push emit limit chunk f s = (Inr True, f', s')"
  shows "sse_push emit limit (chunk @ rest) f s = (Inr True, f', s')"
  using assms by (simp add: sse_push_append)

section \<open>Witnesses\<close>

text \<open>A callback that records the texts it is given and stops at \<open>[DONE]\<close>.\<close>

definition recorder :: "(string list, unit) emitter" where
  "recorder d e seen = (Inr (d = ''[DONE]''), seen @ [d])"

definition open_framer :: framer where
  "open_framer = default_framer\<lparr>fr_started := True\<rparr>"

theorem sse_buffers_bounded_witness:
  "\<exists>f. push_chunks recorder 9 [''data'', '':x''] default_framer [] = (Inr False, f, []) \<and>
     length (fr_pending f) \<le> 65536 \<and> fr_total f \<le> 9"
proof -
  obtain f where run: "push_chunks recorder 9 [''data'', '':x''] default_framer [] =
      (Inr False, f, [])"
    by (simp add: default_framer_def saturating_add_def u64_bound_eval event_limit_def)
  from sse_buffers_bounded [OF run] run show ?thesis by blast
qed

theorem sse_decodes_encoded_event_witness:
  "\<exists>f'. sse_push recorder 100 (encode_event [CHR 0x0D, CHR 0x0A] [''a'', ''b'']) open_framer [] =
     (Inr False, f', [[CHR ''a'', CHR 0x0A, CHR ''b'']]) \<and> between_events f'"
  by (rule sse_decodes_encoded_event)
     (simp_all add: line_terminators_def u64_bound_eval open_framer_def default_framer_def
       between_events_def plain_line_def code_def event_limit_def data_line_def encode_event_def
       recorder_def)

theorem sse_stop_consumes_nothing_more_witness:
  "\<exists>f. sse_push recorder 100 (encode_event [CHR 0x0A] [''[DONE]''] @ ''ignored'') open_framer [] =
     (Inr True, f, [''[DONE]''])"
proof -
  obtain f where run: "sse_push recorder 100 (encode_event [CHR 0x0A] [''[DONE]'']) open_framer [] =
      (Inr True, f, [''[DONE]''])"
    by (simp add: encode_event_def data_line_def open_framer_def default_framer_def
        saturating_add_def u64_bound_eval event_limit_def sse_line_def from_utf8_def code_def
        field_value_def recorder_def sse_event_def Let_def)
  from sse_stop_consumes_nothing_more [OF run, of "''ignored''"] show ?thesis by blast
qed

end
