(* ===== verification/OutputBuffers.thy ===== *)
theory OutputBuffers
  imports Prelude
begin

text \<open>
  The bounded process diagnostics of \<open>src-tauri/src/process_output.rs\<close>: a buffer that retains
  the head or the tail of a child's output, and the loop that drains a pipe into it.

  The subtractions of the code are checked: \<open>None\<close> is the arithmetic-overflow or slice panic of
  Rust. The lemmas show that no buffer built by \<open>ob_new\<close> and \<open>ob_push\<close> panics.
\<close>

datatype retain = Head | Tail

record output_buffer =
  ob_bytes :: bytes
  ob_cap :: nat
  ob_retain :: retain

definition ob_new :: "nat \<Rightarrow> retain \<Rightarrow> output_buffer" where
  "ob_new cap k = \<lparr>ob_bytes = [], ob_cap = cap, ob_retain = k\<rparr>"

definition ob_push :: "bytes \<Rightarrow> output_buffer \<Rightarrow> output_buffer option" where
  "ob_push chunk b =
     (case ob_retain b of
        Head \<Rightarrow>
          (case checked_sub (ob_cap b) (length (ob_bytes b)) of
             None \<Rightarrow> None
           | Some room \<Rightarrow>
               Some (b\<lparr>ob_bytes := ob_bytes b @ take (min room (length chunk)) chunk\<rparr>))
      | Tail \<Rightarrow>
          if length chunk \<ge> ob_cap b then
            Some (b\<lparr>ob_bytes := drop (length chunk - ob_cap b) chunk\<rparr>)
          else
            let room = ob_cap b - length chunk;
                excess = length (ob_bytes b) - room in
            Some (b\<lparr>ob_bytes := drop excess (ob_bytes b) @ chunk\<rparr>))"

definition ob_snapshot :: "output_buffer \<Rightarrow> bytes" where
  "ob_snapshot b = ob_bytes b"

definition ob_clear :: "output_buffer \<Rightarrow> output_buffer" where
  "ob_clear b = b\<lparr>ob_bytes := []\<rparr>"

text \<open>A pipe is the sequence of results its reads will return.\<close>

datatype pipe_read = ReadBytes bytes | ReadError

fun drain_stream_into :: "pipe_read list \<Rightarrow> output_buffer \<Rightarrow> (output_buffer \<times> pipe_read list) option"
where
  "drain_stream_into [] b = Some (b, [])"
| "drain_stream_into (ReadError # rest) b = Some (b, rest)"
| "drain_stream_into (ReadBytes chunk # rest) b =
     (if chunk = [] then Some (b, rest)
      else case ob_push chunk b of
             None \<Rightarrow> None
           | Some b' \<Rightarrow> drain_stream_into rest b')"

definition drain_stream :: "pipe_read list \<Rightarrow> nat \<Rightarrow> retain \<Rightarrow> bytes option" where
  "drain_stream reads cap k =
     map_option (\<lambda>(b, _). ob_snapshot b) (drain_stream_into reads (ob_new cap k))"

section \<open>Refinement of the unbounded log\<close>

text \<open>What the buffer promises: the head or the tail of everything that was written.\<close>

definition retained :: "retain \<Rightarrow> nat \<Rightarrow> bytes \<Rightarrow> bytes" where
  "retained k cap log = (case k of Head \<Rightarrow> take cap log | Tail \<Rightarrow> drop (length log - cap) log)"

definition ob_refines :: "output_buffer \<Rightarrow> bytes \<Rightarrow> bool" where
  "ob_refines b log \<longleftrightarrow> ob_bytes b = retained (ob_retain b) (ob_cap b) log"

fun ob_push_all :: "bytes list \<Rightarrow> output_buffer \<Rightarrow> output_buffer option" where
  "ob_push_all [] b = Some b"
| "ob_push_all (c # cs) b = (case ob_push c b of None \<Rightarrow> None | Some b' \<Rightarrow> ob_push_all cs b')"

lemma ob_refines_new: "ob_refines (ob_new cap k) []"
  by (simp add: ob_refines_def ob_new_def retained_def split: retain.splits)

lemma ob_push_refines:
  assumes "ob_refines b log"
  shows "\<exists>b'. ob_push chunk b = Some b' \<and> ob_refines b' (log @ chunk) \<and>
    ob_cap b' = ob_cap b \<and> ob_retain b' = ob_retain b"
proof (cases "ob_retain b")
  case Head
  with assms show ?thesis
    by (auto simp: ob_refines_def retained_def ob_push_def checked_sub_def min_def)
next
  case Tail
  show ?thesis
  proof (cases "length chunk \<ge> ob_cap b")
    case True
    with Tail show ?thesis
      by (auto simp: ob_refines_def retained_def ob_push_def)
  next
    case False
    let ?old = "drop (length log - ob_cap b) log"
    have "drop (length ?old - (ob_cap b - length chunk)) ?old =
        drop (length log + length chunk - ob_cap b) log"
      using False by (simp add: add.commute) (rule arg_cong [of _ _ "\<lambda>n. drop n log"], linarith)
    with Tail False assms show ?thesis
      by (simp add: ob_refines_def retained_def ob_push_def Let_def)
  qed
qed

lemma ob_push_all_refines:
  assumes "ob_refines b log"
  shows "\<exists>b'. ob_push_all cs b = Some b' \<and> ob_refines b' (log @ concat cs) \<and>
    ob_cap b' = ob_cap b \<and> ob_retain b' = ob_retain b"
  using assms
proof (induction cs arbitrary: b log)
  case (Cons c cs)
  obtain b1 where b1: "ob_push c b = Some b1" "ob_refines b1 (log @ c)"
    "ob_cap b1 = ob_cap b" "ob_retain b1 = ob_retain b"
    using ob_push_refines [OF Cons.prems] by blast
  with Cons.IH [OF b1(2)] show ?case by auto
qed auto

lemma drain_refines:
  assumes "ob_refines b log" and "[] \<notin> set cs"
  shows "\<exists>b'. drain_stream_into (map ReadBytes cs @ ReadBytes [] # rest) b = Some (b', rest) \<and>
    ob_refines b' (log @ concat cs) \<and> ob_cap b' = ob_cap b \<and> ob_retain b' = ob_retain b"
  using assms
proof (induction cs arbitrary: b log)
  case (Cons c cs)
  obtain b1 where b1: "ob_push c b = Some b1" "ob_refines b1 (log @ c)"
    "ob_cap b1 = ob_cap b" "ob_retain b1 = ob_retain b"
    using ob_push_refines [OF Cons.prems(1)] by blast
  with Cons.IH [OF b1(2)] Cons.prems(2) show ?case by auto
qed auto

section \<open>Properties\<close>

text \<open>The diagnostics do not depend on how the pipe cut the output: after any sequence of
  chunks the buffer holds exactly the first (Head) or last (Tail) \<open>cap\<close> bytes of everything
  written, and no push panics, for every capacity including zero.\<close>

lemma output_buffer_retains:
  "\<exists>b. ob_push_all cs (ob_new cap k) = Some b \<and> ob_snapshot b = retained k cap (concat cs)"
  using ob_push_all_refines [OF ob_refines_new [of cap k], of cs]
  by (auto simp: ob_refines_def ob_new_def ob_snapshot_def)

text \<open>Draining reads the pipe to its end, whatever the retention limit: all the non-empty
  reads before the end of file are consumed, and the result is the retained part of their
  concatenation.\<close>

lemma drain_reads_to_eof:
  assumes "[] \<notin> set cs"
  shows "drain_stream (map ReadBytes cs @ ReadBytes [] # rest) cap k =
      Some (retained k cap (concat cs))"
  using drain_refines [OF ob_refines_new [of cap k] assms, of rest]
  by (auto simp: drain_stream_def ob_refines_def ob_new_def ob_snapshot_def)

theorem drain_reads_to_eof_witness:
  "drain_stream [ReadBytes ''ab'', ReadBytes ''cde'', ReadBytes [], ReadError] 4 Tail = Some ''bcde''"
  using drain_reads_to_eof [of "[''ab'', ''cde'']" "[ReadError]" 4 Tail]
  by (simp add: retained_def)

end
