(* ===== verification/InferenceArgs.thy ===== *)
theory InferenceArgs
  imports Prelude
begin

text \<open>
  Host-only placement of inference arguments, \<open>src-tauri/src/inference_args.rs\<close>: every option
  that places work on an accelerator is removed and the CPU placement appended.
\<close>

section \<open>Number syntax\<close>

text \<open>\<open>value.parse::<f64>().is_ok()\<close>: the grammar of \<open>f64::from_str\<close>.\<close>

definition strip_sign :: "string \<Rightarrow> string" where
  "strip_sign s = (case s of c # r \<Rightarrow> if c = CHR ''+'' \<or> c = CHR ''-'' then r else s | [] \<Rightarrow> [])"

definition digits :: "string \<Rightarrow> bool" where
  "digits s \<longleftrightarrow> list_all is_ascii_digit s"

definition is_mantissa :: "string \<Rightarrow> bool" where
  "is_mantissa s =
     (case split_once (CHR ''.'') s of
        None \<Rightarrow> s \<noteq> [] \<and> digits s
      | Some (a, b) \<Rightarrow> digits a \<and> digits b \<and> (a \<noteq> [] \<or> b \<noteq> []))"

definition exponent_mark :: "char \<Rightarrow> bool" where
  "exponent_mark c \<longleftrightarrow> c = CHR ''e'' \<or> c = CHR ''E''"

definition is_decimal :: "string \<Rightarrow> bool" where
  "is_decimal s =
     (let m = takeWhile (\<lambda>c. \<not> exponent_mark c) s;
          e = dropWhile (\<lambda>c. \<not> exponent_mark c) s
      in is_mantissa m \<and>
         (case e of [] \<Rightarrow> True | _ # x \<Rightarrow> strip_sign x \<noteq> [] \<and> digits (strip_sign x)))"

definition parses_f64 :: "string \<Rightarrow> bool" where
  "parses_f64 s =
     (let t = strip_sign s
      in eq_ignore_ascii_case t ''inf'' \<or> eq_ignore_ascii_case t ''infinity''
       \<or> eq_ignore_ascii_case t ''nan'' \<or> is_decimal t)"

section \<open>Removing placement options\<close>

definition option_name :: "string \<Rightarrow> string \<times> bool" where
  "option_name argument =
     (case split_once (CHR ''='') argument of
        None \<Rightarrow> (argument, False) | Some (name, _) \<Rightarrow> (name, True))"

definition placement_value_options :: "string list" where
  "placement_value_options =
     [''--device'', ''-dev'', ''--n-gpu-layers'', ''--gpu-layers'', ''-ngl'', ''--main-gpu'', ''-mg'',
      ''--split-mode'', ''-sm'', ''--tensor-split'', ''-ts'', ''--override-tensor'', ''-ot'',
      ''--spec-draft-device'', ''--device-draft'', ''-devd'', ''--spec-draft-ngl'',
      ''--n-gpu-layers-draft'', ''--gpu-layers-draft'', ''-ngld'', ''--spec-draft-override-tensor'',
      ''--override-tensor-draft'', ''-otd'', ''--mmproj-device'', ''-mmdev'']"

definition placement_switches :: "string list" where
  "placement_switches =
     [''--kv-offload'', ''-kvo'', ''--no-kv-offload'', ''-nkvo'', ''--op-offload'', ''--no-op-offload'',
      ''--mmproj-offload'', ''--no-mmproj-offload'']"

definition takes_value :: "string \<Rightarrow> bool" where
  "takes_value name \<longleftrightarrow> name \<in> set placement_value_options"

definition is_switch :: "string \<Rightarrow> bool" where
  "is_switch name \<longleftrightarrow> name \<in> set placement_switches"

text \<open>The value that a two-token option owns is consumed when it cannot be another option.\<close>

definition skip_value :: "string list \<Rightarrow> string list" where
  "skip_value source =
     (case source of
        [] \<Rightarrow> []
      | value # rest \<Rightarrow>
          if \<not> starts_with ''-'' value \<or> parses_f64 value then rest else source)"

lemma skip_value_length: "length (skip_value source) \<le> length source"
  by (auto simp: skip_value_def split: list.splits)

function strip_placement :: "string list \<Rightarrow> string list" where
  "strip_placement [] = []"
| "strip_placement (argument # source) =
     (let (name, inline_value) = option_name argument in
      if takes_value name then
        strip_placement (if \<not> inline_value then skip_value source else source)
      else if \<not> is_switch name then argument # strip_placement source
      else strip_placement source)"
  by pat_completeness auto
termination
  by (relation "measure length") (auto simp: le_imp_less_Suc skip_value_length)

definition cpu_placement :: "string list" where
  "cpu_placement =
     [''--device'', ''none'', ''--n-gpu-layers'', ''0'', ''--no-kv-offload'', ''--no-op-offload'']"

definition force_cpu :: "string list \<Rightarrow> string list" where
  "force_cpu args = strip_placement args @ cpu_placement"

definition force_cpu_server :: "bool \<Rightarrow> string list \<Rightarrow> string list" where
  "force_cpu_server draft_enabled args =
     force_cpu args @ [''--no-mmproj-offload'']
       @ (if draft_enabled then [''--spec-draft-device'', ''none'', ''--spec-draft-ngl'', ''0''] else [])"

section \<open>Lemmas\<close>

definition is_placement :: "string \<Rightarrow> bool" where
  "is_placement argument \<longleftrightarrow>
     takes_value (fst (option_name argument)) \<or> is_switch (fst (option_name argument))"

lemma skip_value_suffix: "set (skip_value source) \<subseteq> set source"
  by (auto simp: skip_value_def split: list.splits)

lemma skip_value_subseq: "subseq xs (skip_value source) \<Longrightarrow> subseq xs source"
  by (auto simp: skip_value_def split: list.splits if_splits)

lemma strip_placement_neutral: "a \<in> set (strip_placement args) \<Longrightarrow> \<not> is_placement a"
proof (induction args rule: strip_placement.induct)
  case (2 argument source)
  then show ?case
    by (cases "option_name argument") (auto simp: is_placement_def Let_def split: if_splits)
qed simp

lemma strip_placement_keeps:
  "\<forall>a \<in> set kept. \<not> is_placement a \<Longrightarrow> strip_placement (kept @ rest) = kept @ strip_placement rest"
  by (induction kept) (auto simp: is_placement_def Let_def split: prod.splits)

lemma strip_placement_subseq: "subseq (strip_placement args) args"
proof (induction args rule: strip_placement.induct)
  case (2 argument source)
  obtain name inl where on: "option_name argument = (name, inl)" by (cases "option_name argument")
  note ih = 2 [OF refl on [symmetric]]
  have "subseq (strip_placement source) source" if "takes_value name \<longrightarrow> inl"
    using ih that by (cases "takes_value name") auto
  moreover have "subseq (strip_placement (skip_value source)) source" if "takes_value name" "\<not> inl"
    using ih that skip_value_subseq by auto
  ultimately show ?case
    using on list_emb_Cons [of "(=)" _ source argument] by auto
qed simp

lemmas placement_tables = placement_value_options_def placement_switches_def

lemma strip_cpu_placement: "strip_placement cpu_placement = []"
  by (simp add: cpu_placement_def option_name_def takes_value_def is_switch_def
      placement_tables starts_with_def skip_value_def)

lemma force_cpu_stable: "strip_placement (force_cpu args) = strip_placement args"
  by (simp add: force_cpu_def strip_placement_keeps strip_placement_neutral strip_cpu_placement)

section \<open>Properties\<close>

text \<open>Forcing the CPU leaves exactly one host-only placement at the end: every other argument
  of the result is free of placement options and comes from the input, in the input's order;
  nothing that is not a placement option or the value of one is dropped.\<close>

lemma force_cpu_server_placement:
  "\<exists>workload. force_cpu_server d args = workload @ cpu_placement @ [''--no-mmproj-offload''] @
      (if d then [''--spec-draft-device'', ''none'', ''--spec-draft-ngl'', ''0''] else []) \<and>
    subseq workload args \<and> list_all (\<lambda>a. \<not> is_placement a) workload \<and>
    (list_all (\<lambda>a. \<not> is_placement a) args \<longrightarrow> workload = args)"
  using strip_placement_keeps [of args "[]"]
  by (intro exI [of _ "strip_placement args"])
     (auto simp: force_cpu_server_def force_cpu_def strip_placement_subseq list_all_iff
       dest: strip_placement_neutral)

text \<open>Forcing the CPU is idempotent, so applying it again after inherited defaults and raw
  options were assembled changes nothing.\<close>

lemma force_cpu_idempotent: "force_cpu (force_cpu args) = force_cpu args"
  by (simp add: force_cpu_def [of "force_cpu args"] force_cpu_stable) (simp add: force_cpu_def)

theorem force_cpu_server_placement_witness:
  "\<exists>workload. force_cpu_server False [''--model'', ''m.gguf'', ''-ngl'', ''-1'', ''-kvo'', ''--threads'', ''4''] =
      workload @ cpu_placement @ [''--no-mmproj-offload''] \<and> workload = [''--model'', ''m.gguf'', ''--threads'', ''4'']"
proof -
  let ?args = "[''--model'', ''m.gguf'', ''-ngl'', ''-1'', ''-kvo'', ''--threads'', ''4'']"
  have "strip_placement ?args = [''--model'', ''m.gguf'', ''--threads'', ''4'']"
    by (simp add: option_name_def takes_value_def is_switch_def placement_tables starts_with_def
        skip_value_def parses_f64_def strip_sign_def is_decimal_def exponent_mark_def
        is_mantissa_def digits_def is_ascii_digit_def code_def Let_def)
  with force_cpu_server_placement [of False ?args] show ?thesis
    by (simp add: force_cpu_server_def force_cpu_def)
qed

end
