(* ===== verification/RuntimeElf.thy ===== *)
theory RuntimeElf
  imports Prelude
begin

text \<open>
  The reader of ELF dependency names, \<open>src-tauri/src/runtime_elf.rs\<close>. The opened file is the list
  of its bytes; a file that cannot be opened, sought or read (an \<open>io::Error\<close> of the operating
  system) is outside the model, so the only error is \<open>invalid()\<close>.
\<close>

definition max_metadata_bytes :: nat where
  "max_metadata_bytes = 16 * 1024 * 1024"

definition max_needed_libraries :: nat where
  "max_needed_libraries = 4096"

definition max_library_name_bytes :: nat where
  "max_library_name_bytes = 4096"

datatype elf_error = InvalidElf

definition read_at :: "bytes \<Rightarrow> nat \<Rightarrow> nat \<Rightarrow> elf_error + bytes" where
  "read_at file offset sz =
     (if sz > max_metadata_bytes then Inl InvalidElf
      else case checked_add offset sz of
             None \<Rightarrow> Inl InvalidElf
           | Some end_pos \<Rightarrow>
               if end_pos > length file then Inl InvalidElf
               else Inr (take sz (drop offset file)))"

fun le_value :: "bytes \<Rightarrow> nat" where
  "le_value [] = 0"
| "le_value (b # bs) = code b + 256 * le_value bs"

definition u64_at :: "bytes \<Rightarrow> nat \<Rightarrow> nat" where
  "u64_at bs offset = le_value (take 8 (drop offset bs))"

definition u32_at :: "bytes \<Rightarrow> nat \<Rightarrow> nat" where
  "u32_at bs offset = le_value (take 4 (drop offset bs))"

definition u16_at :: "bytes \<Rightarrow> nat \<Rightarrow> nat" where
  "u16_at bs offset = le_value (take 2 (drop offset bs))"

function chunks_exact :: "nat \<Rightarrow> 'a list \<Rightarrow> 'a list list" where
  "chunks_exact n xs =
     (if n = 0 \<or> length xs < n then [] else take n xs # chunks_exact n (drop n xs))"
  by pat_completeness auto
termination
  by (relation "measure (\<lambda>(n, xs). length xs)") auto

declare chunks_exact.simps [simp del]

text \<open>The program headers: the load segments in order, and the final dynamic segment.\<close>

type_synonym load_segment = "nat \<times> nat \<times> nat"

fun scan_headers ::
  "bytes list \<Rightarrow> load_segment list \<times> (nat \<times> nat) option \<Rightarrow>
   load_segment list \<times> (nat \<times> nat) option" where
  "scan_headers [] acc = acc"
| "scan_headers (entry # rest) (loads, dyn) =
     (let kind = u32_at entry 0;
          offset = u64_at entry 8;
          address = u64_at entry 16;
          sz = u64_at entry 32
      in if kind = 1 then scan_headers rest (loads @ [(offset, address, sz)], dyn)
         else if kind = 2 then scan_headers rest (loads, Some (offset, sz))
         else scan_headers rest (loads, dyn))"

record dynamic_table =
  dt_needed :: "nat list"
  dt_strings_address :: "nat option"
  dt_strings_size :: "nat option"

fun scan_dynamic :: "bytes list \<Rightarrow> dynamic_table \<Rightarrow> elf_error + dynamic_table" where
  "scan_dynamic [] d = Inr d"
| "scan_dynamic (entry # rest) d =
     (let value = u64_at entry 8; tag = u64_at entry 0 in
      if tag = 0 then Inr d
      else if tag = 1 then
        (if length (dt_needed d) = max_needed_libraries then Inl InvalidElf
         else scan_dynamic rest (d\<lparr>dt_needed := dt_needed d @ [value]\<rparr>))
      else if tag = 5 then scan_dynamic rest (d\<lparr>dt_strings_address := Some value\<rparr>)
      else if tag = 10 then scan_dynamic rest (d\<lparr>dt_strings_size := Some value\<rparr>)
      else scan_dynamic rest d)"

text \<open>The file offset of the string table: the first load segment that contains it.\<close>

definition segment_offset :: "nat \<Rightarrow> nat \<Rightarrow> load_segment \<Rightarrow> nat option" where
  "segment_offset address sz seg =
     (case seg of (offset, start, len) \<Rightarrow>
        Option.bind (checked_sub address start) (\<lambda>relative.
        Option.bind (checked_add relative sz) (\<lambda>end_pos.
        if end_pos \<le> len then checked_add offset relative else None)))"

fun find_map :: "('a \<Rightarrow> 'b option) \<Rightarrow> 'a list \<Rightarrow> 'b option" where
  "find_map f [] = None"
| "find_map f (x # xs) = (case f x of None \<Rightarrow> find_map f xs | Some y \<Rightarrow> Some y)"

fun position :: "('a \<Rightarrow> bool) \<Rightarrow> 'a list \<Rightarrow> nat option" where
  "position p [] = None"
| "position p (x # xs) = (if p x then Some 0 else map_option Suc (position p xs))"

definition library_name :: "bytes \<Rightarrow> nat \<Rightarrow> nat \<Rightarrow> nat \<Rightarrow> elf_error + string" where
  "library_name file offset sz index =
     (case checked_sub sz index of
        None \<Rightarrow> Inl InvalidElf
      | Some remaining \<Rightarrow>
          case checked_add offset index of
            None \<Rightarrow> Inl InvalidElf
          | Some start \<Rightarrow>
              bind_r (read_at file start (min remaining (max_library_name_bytes + 1))) (\<lambda>bytes.
                case position (\<lambda>b. b = CHR 0x00) bytes of
                  None \<Rightarrow> Inl InvalidElf
                | Some len \<Rightarrow>
                    case from_utf8 (take len bytes) of
                      None \<Rightarrow> Inl InvalidElf
                    | Some name \<Rightarrow>
                        if name = [] \<or> CHR 0x2F \<in> set name \<or> CHR 0x5C \<in> set name
                        then Inl InvalidElf else Inr name))"

fun collect :: "('a \<Rightarrow> 'e + 'b) \<Rightarrow> 'a list \<Rightarrow> 'e + 'b list" where
  "collect f [] = Inr []"
| "collect f (x # xs) =
     (case f x of Inl e \<Rightarrow> Inl e
      | Inr y \<Rightarrow> (case collect f xs of Inl e \<Rightarrow> Inl e | Inr ys \<Rightarrow> Inr (y # ys)))"

definition elf_magic :: bytes where
  "elf_magic = [CHR 0x7F, CHR ''E'', CHR ''L'', CHR ''F'']"

text \<open>The names of a dynamic table whose string table lies in one of the load segments.\<close>

definition dynamic_names ::
  "bytes \<Rightarrow> load_segment list \<Rightarrow> dynamic_table \<Rightarrow> elf_error + string list" where
  "dynamic_names file loads d =
     (if dt_needed d = [] then Inr []
      else bind_r (ok_or InvalidElf (dt_strings_address d)) (\<lambda>address.
        bind_r (ok_or InvalidElf (dt_strings_size d)) (\<lambda>sz.
        bind_r (ok_or InvalidElf (find_map (segment_offset address sz) loads)) (\<lambda>offset.
          case checked_add offset sz of
            None \<Rightarrow> Inl InvalidElf
          | Some end_pos \<Rightarrow>
              if end_pos > length file then Inl InvalidElf
              else collect (library_name file offset sz) (dt_needed d)))))"

definition dynamic_segment ::
  "bytes \<Rightarrow> load_segment list \<Rightarrow> nat \<Rightarrow> nat \<Rightarrow> elf_error + string list" where
  "dynamic_segment file loads offset sz =
     (if sz mod 16 \<noteq> 0 then Inl InvalidElf
      else bind_r (read_at file offset sz) (\<lambda>table.
        bind_r (scan_dynamic (chunks_exact 16 table)
                  \<lparr>dt_needed = [], dt_strings_address = None, dt_strings_size = None\<rparr>)
          (dynamic_names file loads)))"

definition needed_libraries :: "bytes \<Rightarrow> elf_error + string list" where
  "needed_libraries file =
     (if length (take 4 file) \<noteq> 4 \<or> take 4 file \<noteq> elf_magic then Inr []
      else bind_r (read_at file 0 64) (\<lambda>header.
        if code (header ! 4) \<noteq> 2 \<or> code (header ! 5) \<noteq> 1 \<or> code (header ! 6) \<noteq> 1
        then Inl InvalidElf
        else
          let entry_size = u16_at header 54; count = u16_at header 56 in
          if entry_size < 56 \<or> count = 0 \<or> count = 0xFFFF then Inl InvalidElf
          else bind_r (read_at file (u64_at header 32) (entry_size * count)) (\<lambda>headers.
            case scan_headers (chunks_exact entry_size headers) ([], None) of
              (loads, None) \<Rightarrow> Inr []
            | (loads, Some (offset, sz)) \<Rightarrow> dynamic_segment file loads offset sz)))"

section \<open>Lemmas\<close>

lemma le_value_less: "le_value bs < 256 ^ length bs"
proof (induction bs)
  case (Cons b bs)
  have "code b + 256 * le_value bs < 256 * (1 + le_value bs)" by simp
  also have "\<dots> \<le> 256 * 256 ^ length bs" using Cons by (simp add: Suc_le_eq)
  finally show ?case by simp
qed simp

lemma read_at_Inr: "read_at file offset sz = Inr bs \<longleftrightarrow>
    sz \<le> max_metadata_bytes \<and> offset + sz < u64_bound \<and> offset + sz \<le> length file \<and>
    bs = take sz (drop offset file)"
  by (auto simp: read_at_def checked_add_def)

lemma position_Some: "position p xs = Some n \<longleftrightarrow>
    n < length xs \<and> p (xs ! n) \<and> (\<forall>m < n. \<not> p (xs ! m))"
proof (induction xs arbitrary: n)
  case (Cons x xs)
  show ?case
  proof (cases n)
    case (Suc k)
    then show ?thesis by (auto simp: Cons.IH nth_Cons split: nat.splits)
  qed auto
qed simp

lemma scan_dynamic_needed:
  "scan_dynamic entries d = Inr d' \<Longrightarrow> length (dt_needed d) \<le> max_needed_libraries \<Longrightarrow>
   length (dt_needed d') \<le> max_needed_libraries"
  by (induction entries d rule: scan_dynamic.induct) (auto simp: Let_def split: if_splits)

lemma collect_Inr:
  "collect f xs = Inr ys \<Longrightarrow> length ys = length xs \<and> (\<forall>i < length xs. f (xs ! i) = Inr (ys ! i))"
proof (induction xs arbitrary: ys)
  case (Cons x xs)
  then show ?case by (auto simp: less_Suc_eq_0_disj split: sum.splits)
qed simp

text \<open>What a reported name is: a NUL-terminated string of the file, safe as a base name.\<close>

definition elf_name_at :: "bytes \<Rightarrow> nat \<Rightarrow> string \<Rightarrow> bool" where
  "elf_name_at file start name \<longleftrightarrow>
     prefix (name @ [CHR 0x00]) (drop start file) \<and> CHR 0x00 \<notin> set name \<and> name \<noteq> [] \<and>
     length name \<le> max_library_name_bytes \<and> utf8_ok (map code name) \<and>
     CHR 0x2F \<notin> set name \<and> CHR 0x5C \<notin> set name"

lemma library_name_Inr:
  assumes "library_name file offset sz index = Inr name"
  shows "index \<le> sz \<and> elf_name_at file (offset + index) name"
proof -
  obtain remaining bs len where
    rem: "remaining + index = sz"
    and bs: "bs = take (min remaining (max_library_name_bytes + 1)) (drop (offset + index) file)"
    and len: "position (\<lambda>b. b = CHR 0x00) bs = Some len"
    and name: "name = take len bs" "utf8_ok (map code name)" "name \<noteq> []"
      "CHR 0x2F \<notin> set name" "CHR 0x5C \<notin> set name"
    using assms
    by (auto simp: library_name_def bind_r_Inr_iff read_at_Inr checked_sub_Some_iff
        checked_add_Some_iff split: option.splits if_splits)
  have n: "len < length bs" "bs ! len = CHR 0x00" "\<And>m. m < len \<Longrightarrow> bs ! m \<noteq> CHR 0x00"
    using len by (auto simp: position_Some)
  have "take (Suc len) bs = name @ [CHR 0x00]"
    using n name(1) by (simp add: take_Suc_conv_app_nth)
  moreover have "prefix (take (Suc len) bs) (drop (offset + index) file)"
    unfolding bs by (metis prefix_order.trans take_is_prefix)
  moreover have "length name \<le> max_library_name_bytes"
    using n(1) name(1) bs by auto
  moreover have "CHR 0x00 \<notin> set name"
    using n name(1) by (auto simp: in_set_conv_nth)
  ultimately show ?thesis using name rem by (simp add: elf_name_at_def)
qed

lemma needed_libraries_Inr:
  assumes "needed_libraries file = Inr names" and "names \<noteq> []"
  shows "\<exists>(d :: dynamic_table) offset sz. length (dt_needed d) \<le> max_needed_libraries \<and>
    collect (library_name file offset sz) (dt_needed d) = Inr names"
proof -
  obtain headers n where "(case scan_headers (chunks_exact n headers) ([], None) of
      (loads, None) \<Rightarrow> Inr []
    | (loads, Some (offset, sz)) \<Rightarrow> dynamic_segment file loads offset sz) = Inr names"
    using assms by (auto simp: needed_libraries_def bind_r_Inr_iff Let_def split: if_splits)
  then obtain loads offset sz where "dynamic_segment file loads offset sz = Inr names"
    using assms(2) by (auto split: prod.splits option.splits)
  then obtain entries d where
    scan: "scan_dynamic entries \<lparr>dt_needed = [], dt_strings_address = None, dt_strings_size = None\<rparr> = Inr d"
    and "dynamic_names file loads d = Inr names"
    by (auto simp: dynamic_segment_def bind_r_Inr_iff split: if_splits)
  then obtain off sz' where "collect (library_name file off sz') (dt_needed d) = Inr names"
    using assms(2)
    by (auto simp: dynamic_names_def bind_r_Inr_iff split: if_splits option.splits)
  moreover have "length (dt_needed d) \<le> max_needed_libraries"
    using scan_dynamic_needed [OF scan] by simp
  ultimately show ?thesis by blast
qed

section \<open>Properties\<close>

text \<open>Every dependency name that is reported is a NUL-terminated string of the file itself,
  non-empty, valid UTF-8, at most 4096 bytes long and without a path separator, and at most 4096
  names are reported, whatever the bytes of the file are.\<close>

lemma elf_names_safe:
  assumes "needed_libraries file = Inr names"
  shows "length names \<le> max_needed_libraries \<and>
    (\<forall>name \<in> set names. \<exists>start. elf_name_at file start name)"
proof (cases "names = []")
  case False
  then obtain d :: dynamic_table and offset sz where d: "length (dt_needed d) \<le> max_needed_libraries"
    and names: "collect (library_name file offset sz) (dt_needed d) = Inr names"
    using needed_libraries_Inr [OF assms] by blast
  have "\<exists>start. elf_name_at file start name" if "name \<in> set names" for name
  proof -
    from that obtain i where "i < length names" "names ! i = name"
      by (auto simp: in_set_conv_nth)
    then have "library_name file offset sz (dt_needed d ! i) = Inr name"
      using collect_Inr [OF names] by auto
    from library_name_Inr [OF this] show ?thesis by blast
  qed
  with d collect_Inr [OF names] show ?thesis by simp
qed simp

text \<open>A name is read at exactly the string-table offset its dynamic entry holds, and only
  inside the string table: the reported list is, entry by entry, the strings at the offsets of
  the dependency entries, in their order.\<close>

lemma elf_names_in_entry_order:
  assumes "collect (library_name file offset sz) indices = Inr names" and "i < length indices"
  shows "indices ! i \<le> sz \<and> elf_name_at file (offset + indices ! i) (names ! i)"
  using collect_Inr [OF assms(1)] assms(2) library_name_Inr by blast

section \<open>Witnesses\<close>

text \<open>A 64-bit little-endian image: the header, a load and a dynamic program header, the dynamic
  table (one dependency, the string table's address and size) and the string table.\<close>

definition elf_example :: bytes where
  "elf_example =
     [CHR 0x7F, CHR 0x45, CHR 0x4C, CHR 0x46, CHR 0x02, CHR 0x01, CHR 0x01, CHR 0x00,
      CHR 0x00, CHR 0x00, CHR 0x00, CHR 0x00, CHR 0x00, CHR 0x00, CHR 0x00, CHR 0x00,
      CHR 0x00, CHR 0x00, CHR 0x00, CHR 0x00, CHR 0x00, CHR 0x00, CHR 0x00, CHR 0x00,
      CHR 0x00, CHR 0x00, CHR 0x00, CHR 0x00, CHR 0x00, CHR 0x00, CHR 0x00, CHR 0x00,
      CHR 0x40, CHR 0x00, CHR 0x00, CHR 0x00, CHR 0x00, CHR 0x00, CHR 0x00, CHR 0x00,
      CHR 0x00, CHR 0x00, CHR 0x00, CHR 0x00, CHR 0x00, CHR 0x00, CHR 0x00, CHR 0x00,
      CHR 0x00, CHR 0x00, CHR 0x00, CHR 0x00, CHR 0x00, CHR 0x00, CHR 0x38, CHR 0x00,
      CHR 0x02, CHR 0x00, CHR 0x00, CHR 0x00, CHR 0x00, CHR 0x00, CHR 0x00, CHR 0x00,
      CHR 0x01, CHR 0x00, CHR 0x00, CHR 0x00, CHR 0x00, CHR 0x00, CHR 0x00, CHR 0x00,
      CHR 0x00, CHR 0x00, CHR 0x00, CHR 0x00, CHR 0x00, CHR 0x00, CHR 0x00, CHR 0x00,
      CHR 0x00, CHR 0x00, CHR 0x00, CHR 0x00, CHR 0x00, CHR 0x00, CHR 0x00, CHR 0x00,
      CHR 0x00, CHR 0x00, CHR 0x00, CHR 0x00, CHR 0x00, CHR 0x00, CHR 0x00, CHR 0x00,
      CHR 0xE8, CHR 0x03, CHR 0x00, CHR 0x00, CHR 0x00, CHR 0x00, CHR 0x00, CHR 0x00,
      CHR 0x00, CHR 0x00, CHR 0x00, CHR 0x00, CHR 0x00, CHR 0x00, CHR 0x00, CHR 0x00,
      CHR 0x00, CHR 0x00, CHR 0x00, CHR 0x00, CHR 0x00, CHR 0x00, CHR 0x00, CHR 0x00,
      CHR 0x02, CHR 0x00, CHR 0x00, CHR 0x00, CHR 0x00, CHR 0x00, CHR 0x00, CHR 0x00,
      CHR 0xB0, CHR 0x00, CHR 0x00, CHR 0x00, CHR 0x00, CHR 0x00, CHR 0x00, CHR 0x00,
      CHR 0x00, CHR 0x00, CHR 0x00, CHR 0x00, CHR 0x00, CHR 0x00, CHR 0x00, CHR 0x00,
      CHR 0x00, CHR 0x00, CHR 0x00, CHR 0x00, CHR 0x00, CHR 0x00, CHR 0x00, CHR 0x00,
      CHR 0x40, CHR 0x00, CHR 0x00, CHR 0x00, CHR 0x00, CHR 0x00, CHR 0x00, CHR 0x00,
      CHR 0x00, CHR 0x00, CHR 0x00, CHR 0x00, CHR 0x00, CHR 0x00, CHR 0x00, CHR 0x00,
      CHR 0x00, CHR 0x00, CHR 0x00, CHR 0x00, CHR 0x00, CHR 0x00, CHR 0x00, CHR 0x00,
      CHR 0x01, CHR 0x00, CHR 0x00, CHR 0x00, CHR 0x00, CHR 0x00, CHR 0x00, CHR 0x00,
      CHR 0x01, CHR 0x00, CHR 0x00, CHR 0x00, CHR 0x00, CHR 0x00, CHR 0x00, CHR 0x00,
      CHR 0x05, CHR 0x00, CHR 0x00, CHR 0x00, CHR 0x00, CHR 0x00, CHR 0x00, CHR 0x00,
      CHR 0xF0, CHR 0x00, CHR 0x00, CHR 0x00, CHR 0x00, CHR 0x00, CHR 0x00, CHR 0x00,
      CHR 0x0A, CHR 0x00, CHR 0x00, CHR 0x00, CHR 0x00, CHR 0x00, CHR 0x00, CHR 0x00,
      CHR 0x06, CHR 0x00, CHR 0x00, CHR 0x00, CHR 0x00, CHR 0x00, CHR 0x00, CHR 0x00,
      CHR 0x00, CHR 0x00, CHR 0x00, CHR 0x00, CHR 0x00, CHR 0x00, CHR 0x00, CHR 0x00,
      CHR 0x00, CHR 0x00, CHR 0x00, CHR 0x00, CHR 0x00, CHR 0x00, CHR 0x00, CHR 0x00,
      CHR 0x00, CHR 0x61, CHR 0x2E, CHR 0x73, CHR 0x6F, CHR 0x00]"

lemmas elf_example_eval = elf_example_def elf_magic_def read_at_def checked_add_def
  checked_sub_def u64_bound_eval max_metadata_bytes_def max_needed_libraries_def
  max_library_name_bytes_def u64_at_def u32_at_def u16_at_def chunks_exact.simps code_def
  dynamic_segment_def dynamic_names_def segment_offset_def library_name_def from_utf8_def Let_def

lemma elf_example_run: "needed_libraries elf_example = Inr [''a.so'']"
  by (simp add: needed_libraries_def elf_example_eval)

theorem elf_names_safe_witness:
  "needed_libraries elf_example = Inr [''a.so''] \<and>
   (\<exists>start. elf_name_at elf_example start ''a.so'')"
  using elf_names_safe [OF elf_example_run] elf_example_run by simp

theorem elf_names_in_entry_order_witness:
  "elf_name_at elf_example 241 ''a.so''"
proof -
  have "collect (library_name elf_example 240 6) [1] = Inr [''a.so'']"
    by (simp add: elf_example_eval)
  from elf_names_in_entry_order [OF this, of 0] show ?thesis by simp
qed

end
