(* ===== verification/RuntimeArchive.thy ===== *)
theory RuntimeArchive
  imports Prelude "HOL-Library.Word"
begin

unbundle bit_operations_syntax

text \<open>
  Extraction of runtime archives, \<open>src-tauri/src/runtime_archive.rs\<close>.

  Paths are the lists of their components, relative to the staging root. The part of the file
  system below the root is an association list from paths to nodes; new nodes are put in front,
  so everything an extraction adds is a prefix of the final list. The tar and zip decoders are
  third-party code: the functions here run over the entries they deliver, each entry with the
  reads its data stream will return. An \<open>io::Error\<close> the operating system raises for reasons of
  its own (permissions, a full disk) is outside the model.

  The cancellation flag may be raised at any time: \<open>ex_cancel\<close> lists what the successive loads of
  the flag return, and no further load returns true once the list is used up.
\<close>

type_synonym path = "string list"

datatype node = Directory | RegularFile bytes "32 word" | SymbolicLink

type_synonym tree = "(path \<times> node) list"

datatype archive_error =
  Cancelled | UnsafePath | UnsafeLinkTarget | LinkEscapes | EmptyLinkTarget | ParentNotDirectory
| SizeOverflow | TooLarge | AlreadyExists | ReadFailed | SizeChanged | TooManyEntries
| SymlinkEntry | BadEntry | PathNotUtf8 | EmptyFilePath | RepeatedPath | MissingLinkTarget
| TargetNotUtf8 | SpecialFile | CyclicLinks | LinkTargetNotAFile | LinkedRoot

definition max_archive_path_bytes :: nat where
  "max_archive_path_bytes = 4096"

definition max_archive_entries :: nat where
  "max_archive_entries = 100000"

definition max_extracted_bytes :: nat where
  "max_extracted_bytes = 16 * 1024 * 1024 * 1024"

record extraction =
  ex_tree :: tree
  ex_total :: nat
  ex_cancel :: "bool list"

type_synonym 'a extract_result = "(archive_error + 'a) \<times> extraction"

text \<open>One load of the cancellation flag.\<close>

definition check_cancelled :: "extraction \<Rightarrow> unit extract_result" where
  "check_cancelled x =
     (case ex_cancel x of
        [] \<Rightarrow> (Inr (), x)
      | c # cs \<Rightarrow> (if c then Inl Cancelled else Inr (), x\<lparr>ex_cancel := cs\<rparr>))"

definition then_do ::
  "'a extract_result \<Rightarrow> ('a \<Rightarrow> extraction \<Rightarrow> 'b extract_result) \<Rightarrow> 'b extract_result" where
  "then_do r f = (case r of (Inl e, x) \<Rightarrow> (Inl e, x) | (Inr a, x) \<Rightarrow> f a x)"

definition lift_result :: "archive_error + 'a \<Rightarrow> extraction \<Rightarrow> 'a extract_result" where
  "lift_result r x = (r, x)"

section \<open>Paths\<close>

definition unsafe_text :: "string \<Rightarrow> bool" where
  "unsafe_text value \<longleftrightarrow>
     length value > max_archive_path_bytes \<or> starts_with ''/'' value
     \<or> CHR 0x5C \<in> set value \<or> CHR '':'' \<in> set value \<or> CHR 0x00 \<in> set value"

fun push_components :: "string list \<Rightarrow> path \<Rightarrow> archive_error + path" where
  "push_components [] path = Inr path"
| "push_components (component # rest) path =
     (if component = [] \<or> component = ''.'' then push_components rest path
      else if component = ''..'' then Inl UnsafePath
      else push_components rest (path @ [component]))"

definition safe_path :: "string \<Rightarrow> archive_error + path" where
  "safe_path value =
     (if unsafe_text value then Inl UnsafePath
      else push_components (split_on (CHR ''/'') value) [])"

fun walk_components :: "string list \<Rightarrow> path \<Rightarrow> archive_error + path" where
  "walk_components [] target = Inr target"
| "walk_components (component # rest) target =
     (if component = [] \<or> component = ''.'' then walk_components rest target
      else if component = ''..'' then
        (if target = [] then Inl LinkEscapes else walk_components rest (butlast target))
      else walk_components rest (target @ [component]))"

definition link_target :: "path \<Rightarrow> string \<Rightarrow> bool \<Rightarrow> archive_error + path" where
  "link_target path value hard_link =
     (if unsafe_text value then Inl UnsafeLinkTarget
      else
        let start = (if hard_link then [] else butlast path) in
        bind_r (walk_components (split_on (CHR ''/'') value) start) (\<lambda>target.
          if target = [] then Inl EmptyLinkTarget else Inr target))"

section \<open>Writing below the root\<close>

fun make_parents :: "path \<Rightarrow> string list \<Rightarrow> tree \<Rightarrow> (archive_error + unit) \<times> tree" where
  "make_parents current [] t = (Inr (), t)"
| "make_parents current (component # rest) t =
     (let current = current @ [component] in
      case map_of t current of
        Some Directory \<Rightarrow> make_parents current rest t
      | Some _ \<Rightarrow> (Inl ParentNotDirectory, t)
      | None \<Rightarrow> make_parents current rest ((current, Directory) # t))"

definition prepare_parent :: "path \<Rightarrow> extraction \<Rightarrow> path extract_result" where
  "prepare_parent relative x =
     (let (r, t) = make_parents [] (butlast relative) (ex_tree x) in
      (case r of Inl e \<Rightarrow> Inl e | Inr _ \<Rightarrow> Inr relative, x\<lparr>ex_tree := t\<rparr>))"

definition add_size :: "nat \<Rightarrow> extraction \<Rightarrow> unit extract_result" where
  "add_size n x =
     (case checked_add (ex_total x) n of
        None \<Rightarrow> (Inl SizeOverflow, x)
      | Some expanded \<Rightarrow>
          (if expanded > max_extracted_bytes then Inl TooLarge else Inr (),
           x\<lparr>ex_total := expanded\<rparr>))"

text \<open>
  \<open>copy_entry\<close> reads through \<open>take (size + 1)\<close>: \<open>limit\<close> is what that adapter still lets through.
  The file is created first and never over an existing node; when the copy fails, what was
  written so far stays behind with the mode of a fresh file. A read is \<open>None\<close> when the stream fails. The result is the bytes that reached the output file.
\<close>

fun copy_loop ::
  "nat \<Rightarrow> bytes option list \<Rightarrow> nat \<Rightarrow> bytes \<Rightarrow> extraction \<Rightarrow>
   (archive_error + unit) \<times> bytes \<times> extraction" where
  "copy_loop limit reads sz out x =
     (case check_cancelled x of
        (Inl e, x) \<Rightarrow> (Inl e, out, x)
      | (Inr _, x) \<Rightarrow>
          (case reads of
             [] \<Rightarrow> (if length out \<noteq> sz then Inl SizeChanged else Inr (), out, x)
           | None # _ \<Rightarrow> (Inl ReadFailed, out, x)
           | Some c # rest \<Rightarrow>
               let chunk = take limit c in
               if chunk = [] then (if length out \<noteq> sz then Inl SizeChanged else Inr (), out, x)
               else if length out + length chunk > sz then (Inl SizeChanged, out, x)
               else copy_loop (limit - length chunk) rest sz (out @ chunk) x))"

definition file_mode :: "32 word option \<Rightarrow> 32 word" where
  "file_mode mode = ((case mode of None \<Rightarrow> 0x1A4 | Some m \<Rightarrow> m) AND 0x1ED) OR 0x180"

definition copy_entry ::
  "bytes option list \<Rightarrow> nat \<Rightarrow> path \<Rightarrow> 32 word option \<Rightarrow> extraction \<Rightarrow> unit extract_result" where
  "copy_entry reads sz path mode x =
     (if map_of (ex_tree x) path \<noteq> None then (Inl AlreadyExists, x)
      else case copy_loop (saturating_add sz 1) reads sz [] x of
        (Inl e, out, x) \<Rightarrow> (Inl e, x\<lparr>ex_tree := (path, RegularFile out 0x1A4) # ex_tree x\<rparr>)
      | (Inr _, out, x) \<Rightarrow>
          (Inr (), x\<lparr>ex_tree := (path, RegularFile out (file_mode mode)) # ex_tree x\<rparr>))"

section \<open>Zip archives\<close>

record zip_entry =
  ze_name :: string
  ze_mode :: "32 word option"
  ze_is_dir :: bool
  ze_size :: nat
  ze_reads :: "bytes option list"

definition is_symlink_mode :: "32 word option \<Rightarrow> bool" where
  "is_symlink_mode mode = (case mode of None \<Rightarrow> False | Some m \<Rightarrow> m AND 0xF000 = 0xA000)"

definition extract_zip_entry :: "archive_error + zip_entry \<Rightarrow> extraction \<Rightarrow> unit extract_result" where
  "extract_zip_entry item x =
     then_do (check_cancelled x) (\<lambda>_ x.
     then_do (lift_result item x) (\<lambda>entry x.
       if is_symlink_mode (ze_mode entry) then (Inl SymlinkEntry, x)
       else then_do (lift_result (safe_path (ze_name entry)) x) (\<lambda>relative x.
         if relative = [] then (Inr (), x)
         else then_do (prepare_parent relative x) (\<lambda>output x.
           if ze_is_dir entry then
             then_do (prepare_parent (relative @ [''.child'']) x) (\<lambda>_ x. (Inr (), x))
           else
             then_do (add_size (ze_size entry) x) (\<lambda>_ x.
               copy_entry (ze_reads entry) (ze_size entry) output (ze_mode entry) x)))))"

fun extract_zip_entries :: "(archive_error + zip_entry) list \<Rightarrow> extraction \<Rightarrow> unit extract_result" where
  "extract_zip_entries [] x = (Inr (), x)"
| "extract_zip_entries (item # rest) x =
     then_do (extract_zip_entry item x) (\<lambda>_ x. extract_zip_entries rest x)"

definition extract_zip :: "(archive_error + zip_entry) list \<Rightarrow> extraction \<Rightarrow> unit extract_result" where
  "extract_zip archive x =
     (if length archive > max_archive_entries then (Inl TooManyEntries, x)
      else extract_zip_entries archive (x\<lparr>ex_total := 0\<rparr>))"

section \<open>Tar archives\<close>

datatype tar_kind = TarDirectory | TarFile | TarSymlink | TarHardLink | TarOther

record tar_entry =
  te_path :: bytes
  te_kind :: tar_kind
  te_link :: "bytes option"
  te_size :: nat
  te_mode :: "archive_error + 32 word"
  te_reads :: "bytes option list"

record tar_state =
  ts_files :: "path list"
  ts_links :: "(path \<times> path) list"
  ts_count :: nat

text \<open>The decoder's budget: every read of the compressed stream is charged against it.\<close>

definition max_tar_metadata_bytes :: nat where
  "max_tar_metadata_bytes = 1024 * 1024"

datatype tar_read_error = ReadCancelled | MetadataTooLarge | InnerReadFailed

definition tar_read ::
  "bool \<Rightarrow> nat \<Rightarrow> nat \<Rightarrow> (nat \<Rightarrow> bytes option) \<Rightarrow> (tar_read_error + bytes) \<times> nat" where
  "tar_read cancel remaining buffer_len inner =
     (if buffer_len = 0 then (Inr [], remaining)
      else if cancel then (Inl ReadCancelled, remaining)
      else if remaining = 0 then (Inl MetadataTooLarge, remaining)
      else case inner (min remaining buffer_len) of
             None \<Rightarrow> (Inl InnerReadFailed, remaining)
           | Some bytes \<Rightarrow> (Inr bytes, remaining - length bytes))"

definition extract_tar_entry ::
  "tar_entry \<Rightarrow> tar_state \<Rightarrow> extraction \<Rightarrow> tar_state extract_result" where
  "extract_tar_entry entry ts x =
     then_do (lift_result (ok_or PathNotUtf8 (from_utf8 (te_path entry))) x) (\<lambda>text x.
     then_do (lift_result (safe_path text) x) (\<lambda>relative x.
       if relative = [] then
         (if te_kind entry = TarDirectory then (Inr ts, x) else (Inl EmptyFilePath, x))
       else then_do (prepare_parent relative x) (\<lambda>output x.
         if te_kind entry = TarDirectory then
           then_do (prepare_parent (relative @ [''.child'']) x) (\<lambda>_ x. (Inr ts, x))
         else if relative \<in> set (ts_files ts) \<or> map_of (ts_links ts) relative \<noteq> None then
           (Inl RepeatedPath, x)
         else if te_kind entry = TarSymlink \<or> te_kind entry = TarHardLink then
           then_do (lift_result (ok_or MissingLinkTarget (te_link entry)) x) (\<lambda>raw x.
           then_do (lift_result (ok_or TargetNotUtf8 (from_utf8 raw)) x) (\<lambda>target x.
           then_do (lift_result (link_target relative target (te_kind entry = TarHardLink)) x)
             (\<lambda>target x. (Inr (ts\<lparr>ts_links := (relative, target) # ts_links ts\<rparr>), x))))
         else if te_kind entry = TarFile then
           then_do (lift_result (te_mode entry) x) (\<lambda>mode x.
           then_do (add_size (te_size entry) x) (\<lambda>_ x.
           then_do (copy_entry (te_reads entry) (te_size entry) output (Some mode) x) (\<lambda>_ x.
             (Inr (ts\<lparr>ts_files := relative # ts_files ts\<rparr>), x))))
         else (Inl SpecialFile, x))))"

fun extract_tar_entries ::
  "(archive_error + tar_entry) list \<Rightarrow> tar_state \<Rightarrow> extraction \<Rightarrow> tar_state extract_result" where
  "extract_tar_entries [] ts x = then_do (check_cancelled x) (\<lambda>_ x. (Inr ts, x))"
| "extract_tar_entries (item # rest) ts x =
     then_do (check_cancelled x) (\<lambda>_ x.
       let ts = ts\<lparr>ts_count := ts_count ts + 1\<rparr> in
       if ts_count ts > max_archive_entries then (Inl TooManyEntries, x)
       else then_do (lift_result item x) (\<lambda>entry x.
         then_do (extract_tar_entry entry ts x) (\<lambda>ts x. extract_tar_entries rest ts x)))"

text \<open>Following a chain of links: at most 64 steps, and never the same name twice.\<close>

function resolve_link :: "(path \<times> path) list \<Rightarrow> path \<Rightarrow> path list \<Rightarrow> archive_error + path" where
  "resolve_link links target visited =
     (case map_of links target of
        None \<Rightarrow> Inr target
      | Some follow \<Rightarrow>
          if length visited \<ge> 64 \<or> target \<in> set visited then Inl CyclicLinks
          else resolve_link links follow (target # visited))"
  by pat_completeness auto
termination
  by (relation "measure (\<lambda>(links, target, visited). 64 - length visited)") auto

declare resolve_link.simps [simp del]

definition set_mode :: "path \<Rightarrow> 32 word \<Rightarrow> tree \<Rightarrow> tree" where
  "set_mode p mode t =
     map (\<lambda>(q, n). (q, case n of RegularFile b m \<Rightarrow> if q = p then RegularFile b mode else n | _ \<Rightarrow> n)) t"

text \<open>Reading a regular file back: full buffers of 64 KiB and the rest.\<close>

function file_reads :: "bytes \<Rightarrow> bytes option list" where
  "file_reads content =
     (if content = [] then [] else Some (take 65536 content) # file_reads (drop 65536 content))"
  by pat_completeness auto
termination
  by (relation "measure length") auto

declare file_reads.simps [simp del]

definition extract_link ::
  "path list \<Rightarrow> (path \<times> path) list \<Rightarrow> path \<times> path \<Rightarrow> extraction \<Rightarrow> unit extract_result" where
  "extract_link files links link x =
     (let (relative, initial) = link in
      then_do (check_cancelled x) (\<lambda>_ x.
      then_do (lift_result (resolve_link links initial []) x) (\<lambda>target x.
        if target \<notin> set files then (Inl LinkTargetNotAFile, x)
        else case map_of (ex_tree x) target of
          Some (RegularFile content mode) \<Rightarrow>
            then_do (add_size (length content) x) (\<lambda>_ x.
            then_do (prepare_parent relative x) (\<lambda>output x.
            then_do (copy_entry (file_reads content) (length content) output None x) (\<lambda>_ x.
              (Inr (), x\<lparr>ex_tree := set_mode output mode (ex_tree x)\<rparr>))))
        | _ \<Rightarrow> (Inl LinkTargetNotAFile, x))))"

fun extract_links ::
  "path list \<Rightarrow> (path \<times> path) list \<Rightarrow> (path \<times> path) list \<Rightarrow> extraction \<Rightarrow> unit extract_result" where
  "extract_links files links [] x = (Inr (), x)"
| "extract_links files links (link # rest) x =
     then_do (extract_link files links link x) (\<lambda>_ x. extract_links files links rest x)"

text \<open>\<open>hash_order\<close> is the order in which the hash map of links is iterated.\<close>

definition extract_tar ::
  "((path \<times> path) list \<Rightarrow> (path \<times> path) list) \<Rightarrow> (archive_error + tar_entry) list \<Rightarrow> extraction \<Rightarrow>
   unit extract_result" where
  "extract_tar hash_order entries x =
     then_do (extract_tar_entries entries \<lparr>ts_files = [], ts_links = [], ts_count = 0\<rparr>
                (x\<lparr>ex_total := 0\<rparr>))
       (\<lambda>ts x. extract_links (ts_files ts) (ts_links ts) (hash_order (ts_links ts)) x)"

section \<open>Safe names\<close>

definition clean_component :: "string \<Rightarrow> bool" where
  "clean_component c \<longleftrightarrow> c \<noteq> [] \<and> c \<noteq> ''.'' \<and> c \<noteq> ''..'' \<and>
     CHR ''/'' \<notin> set c \<and> CHR 0x5C \<notin> set c \<and> CHR '':'' \<notin> set c \<and> CHR 0x00 \<notin> set c"

definition clean_path :: "path \<Rightarrow> bool" where
  "clean_path p \<longleftrightarrow> (\<forall>c \<in> set p. clean_component c)"

lemma clean_path_simps [simp]:
  "clean_path []"
  "clean_path (p @ q) \<longleftrightarrow> clean_path p \<and> clean_path q"
  "clean_path (c # q) \<longleftrightarrow> clean_component c \<and> clean_path q"
  by (auto simp: clean_path_def)

lemma clean_path_butlast [simp]: "clean_path p \<Longrightarrow> clean_path (butlast p)"
  by (auto simp: clean_path_def dest: in_set_butlastD)

lemma clean_path_take: "clean_path p \<Longrightarrow> clean_path (take k p)"
  by (auto simp: clean_path_def dest: in_set_takeD)

definition text_component :: "string \<Rightarrow> bool" where
  "text_component c \<longleftrightarrow> CHR ''/'' \<notin> set c \<and> CHR 0x5C \<notin> set c \<and> CHR '':'' \<notin> set c \<and> CHR 0x00 \<notin> set c"

lemma clean_component_text:
  "clean_component c \<longleftrightarrow> c \<noteq> [] \<and> c \<noteq> ''.'' \<and> c \<noteq> ''..'' \<and> text_component c"
  by (auto simp: clean_component_def text_component_def)

lemma text_components:
  assumes "\<not> unsafe_text value" and "c \<in> set (split_on (CHR ''/'') value)"
  shows "text_component c"
  using assms split_on_no_sep [OF assms(2)] split_on_subset [OF assms(2)]
  by (auto simp: unsafe_text_def text_component_def)

lemma push_components_clean:
  "push_components cs path = Inr p \<Longrightarrow> clean_path path \<Longrightarrow> \<forall>c \<in> set cs. text_component c \<Longrightarrow>
   clean_path p"
  by (induction cs path rule: push_components.induct)
     (auto simp: clean_component_text split: if_splits)

lemma walk_components_clean:
  "walk_components cs target = Inr p \<Longrightarrow> clean_path target \<Longrightarrow> \<forall>c \<in> set cs. text_component c \<Longrightarrow>
   clean_path p"
  by (induction cs target rule: walk_components.induct)
     (auto simp: clean_component_text split: if_splits)

lemma safe_path_clean: "safe_path value = Inr p \<Longrightarrow> clean_path p"
  by (auto simp: safe_path_def text_components intro: push_components_clean split: if_splits)

lemma link_target_clean:
  assumes "link_target path value hard = Inr t" and "clean_path path"
  shows "clean_path t \<and> t \<noteq> []"
  using assms
  by (auto simp: link_target_def bind_r_Inr_iff text_components Let_def
      elim!: walk_components_clean split: if_splits)

section \<open>What an extraction may do to the tree\<close>

definition parents_real :: "tree \<Rightarrow> path \<Rightarrow> bool" where
  "parents_real t p \<longleftrightarrow> (\<forall>k. 0 < k \<and> k < length p \<longrightarrow> map_of t (take k p) = Some Directory)"

definition tree_bytes :: "tree \<Rightarrow> nat" where
  "tree_bytes t = sum_list (map (\<lambda>(_, n). case n of RegularFile b _ \<Rightarrow> length b | _ \<Rightarrow> 0) t)"

definition plain_addition :: "tree \<Rightarrow> tree \<Rightarrow> tree \<Rightarrow> bool" where
  "plain_addition t0 new t \<longleftrightarrow>
     t = new @ t0 \<and> distinct (map fst new) \<and> fst ` set new \<inter> fst ` set t0 = {} \<and>
     (\<forall>(p, n) \<in> set new. n \<noteq> SymbolicLink \<and> clean_path p \<and> p \<noteq> [] \<and> parents_real t p)"

text \<open>The invariant, with \<open>slack\<close> bytes accounted for but not written yet.\<close>

definition ext_inv :: "tree \<Rightarrow> nat \<Rightarrow> extraction \<Rightarrow> bool" where
  "ext_inv t0 slack x \<longleftrightarrow> (\<exists>new. plain_addition t0 new (ex_tree x) \<and>
     tree_bytes new + slack \<le> ex_total x \<and> tree_bytes new + slack \<le> max_extracted_bytes)"

lemma map_of_fresh: "map_of t q = None \<Longrightarrow> map_of ((q, n) # t) p = (if p = q then Some n else map_of t p)"
  by simp

lemma parents_real_fresh:
  "parents_real t p \<Longrightarrow> map_of t q = None \<Longrightarrow> parents_real ((q, n) # t) p"
  by (auto simp: parents_real_def)

lemma plain_addition_insert:
  assumes "plain_addition t0 new t" and "map_of t q = None" and "n \<noteq> SymbolicLink"
    and "clean_path q" and "q \<noteq> []" and "parents_real t q"
  shows "plain_addition t0 ((q, n) # new) ((q, n) # t)"
proof -
  have "q \<notin> fst ` set new" "q \<notin> fst ` set t0"
    using assms(1,2) by (auto simp: plain_addition_def map_of_None_iff image_Un)
  then show ?thesis
    using assms by (auto simp: plain_addition_def parents_real_fresh)
qed

lemma ext_inv_cancel [simp]: "ext_inv t0 k (x\<lparr>ex_cancel := cs\<rparr>) = ext_inv t0 k x"
  by (simp add: ext_inv_def)

lemma check_cancelled_inv: "check_cancelled x = (r, x') \<Longrightarrow> ext_inv t0 k x \<Longrightarrow> ext_inv t0 k x'"
  by (auto simp: check_cancelled_def split: list.splits)

lemma check_cancelled_tree: "check_cancelled x = (r, x') \<Longrightarrow>
    ex_tree x' = ex_tree x \<and> ex_total x' = ex_total x"
  by (auto simp: check_cancelled_def split: list.splits)

definition dirs_real :: "tree \<Rightarrow> path \<Rightarrow> bool" where
  "dirs_real t p \<longleftrightarrow> (\<forall>k. 0 < k \<and> k \<le> length p \<longrightarrow> map_of t (take k p) = Some Directory)"

lemma dirs_real_Nil [simp]: "dirs_real t []"
  by (simp add: dirs_real_def)

lemma dirs_real_snoc: "dirs_real t (p @ [c]) \<longleftrightarrow> dirs_real t p \<and> map_of t (p @ [c]) = Some Directory"
  by (auto simp: dirs_real_def le_Suc_eq)

lemma parents_real_snoc: "parents_real t (p @ [c]) \<longleftrightarrow> dirs_real t p"
  by (auto simp: parents_real_def dirs_real_def less_Suc_eq_le)

lemma dirs_real_fresh: "dirs_real t p \<Longrightarrow> map_of t q = None \<Longrightarrow> dirs_real ((q, n) # t) p"
  by (auto simp: dirs_real_def)

lemma parents_real_butlast: "p \<noteq> [] \<Longrightarrow> parents_real t p \<longleftrightarrow> dirs_real t (butlast p)"
  by (cases p rule: rev_cases) (auto simp: parents_real_snoc)

lemma tree_bytes_simps [simp]:
  "tree_bytes [] = 0"
  "tree_bytes ((p, Directory) # t) = tree_bytes t"
  "tree_bytes ((p, SymbolicLink) # t) = tree_bytes t"
  "tree_bytes ((p, RegularFile b m) # t) = length b + tree_bytes t"
  by (simp_all add: tree_bytes_def)

lemma make_parents_inv:
  assumes "make_parents current cs t = (r, t')" and "plain_addition t0 new t"
    and "clean_path (current @ cs)" and "dirs_real t current"
  shows "(\<exists>new'. plain_addition t0 new' t' \<and> tree_bytes new' = tree_bytes new) \<and>
    (r = Inr () \<longrightarrow> dirs_real t' (current @ cs))"
  using assms
proof (induction current cs t arbitrary: new rule: make_parents.induct)
  case (2 current c cs t)
  let ?cur = "current @ [c]"
  have clean: "clean_path (?cur @ cs)" using 2(5) by simp
  show ?case
  proof (cases "map_of t ?cur")
    case None
    have "plain_addition t0 ((?cur, Directory) # new) ((?cur, Directory) # t)"
      using 2(4-6) None
      by (intro plain_addition_insert) (auto simp: parents_real_snoc)
    moreover have "dirs_real ((?cur, Directory) # t) ?cur"
      using 2(6) None by (simp add: dirs_real_snoc dirs_real_fresh)
    moreover have "make_parents ?cur cs ((?cur, Directory) # t) = (r, t')"
      using 2(3) None by (simp add: Let_def)
    ultimately show ?thesis using 2(1) [OF refl None _ _ clean] by fastforce
  next
    case (Some n)
    show ?thesis
    proof (cases "n = Directory")
      case True
      have "make_parents ?cur cs t = (r, t')" "dirs_real t ?cur"
        using 2(3,6) Some True by (simp_all add: Let_def dirs_real_snoc)
      with 2(2) [OF refl Some True _ 2(4) clean] show ?thesis by simp
    next
      case False
      then have "t' = t" "r = Inl ParentNotDirectory"
        using 2(3) Some by (cases n; simp add: Let_def)+
      with 2(4) show ?thesis by auto
    qed
  qed
qed auto

lemma prepare_parent_inv:
  assumes "prepare_parent relative x = (r, x')" and "ext_inv t0 k x" and "clean_path relative"
  shows "ext_inv t0 k x' \<and> ex_total x' = ex_total x \<and>
    (\<forall>output. r = Inr output \<longrightarrow> output = relative \<and>
       (relative \<noteq> [] \<longrightarrow> parents_real (ex_tree x') relative))"
proof -
  obtain r0 t' where mk: "make_parents [] (butlast relative) (ex_tree x) = (r0, t')"
    by (cases "make_parents [] (butlast relative) (ex_tree x)")
  from assms(2) obtain new where new: "plain_addition t0 new (ex_tree x)"
    "tree_bytes new + k \<le> ex_total x" "tree_bytes new + k \<le> max_extracted_bytes"
    by (auto simp: ext_inv_def)
  from make_parents_inv [OF mk new(1)] assms(3) obtain new' where
    new': "plain_addition t0 new' t'" "tree_bytes new' = tree_bytes new"
    and dirs: "r0 = Inr () \<longrightarrow> dirs_real t' (butlast relative)" by auto
  have x': "x' = x\<lparr>ex_tree := t'\<rparr>" and r: "r = (case r0 of Inl e \<Rightarrow> Inl e | Inr _ \<Rightarrow> Inr relative)"
    using assms(1) mk by (auto simp: prepare_parent_def Let_def)
  have "ext_inv t0 k x'" using new new' by (auto simp: ext_inv_def x')
  with dirs show ?thesis
    by (auto simp: x' r parents_real_butlast split: sum.splits)
qed

lemma add_size_inv:
  assumes "add_size n x = (r, x')" and "ext_inv t0 0 x"
  shows "ext_inv t0 0 x' \<and> ex_tree x' = ex_tree x \<and> (r = Inr () \<longrightarrow> ext_inv t0 n x')"
  using assms
  by (auto simp: add_size_def ext_inv_def checked_add_def split: if_splits)

lemma copy_loop_bounds:
  "copy_loop limit reads sz out x = (r, out', x') \<Longrightarrow> length out \<le> sz \<Longrightarrow>
   length out' \<le> sz \<and> ex_tree x' = ex_tree x \<and> ex_total x' = ex_total x \<and>
   (r = Inr () \<longrightarrow> length out' = sz)"
proof (induction limit reads sz out x rule: copy_loop.induct)
  case (1 limit reads sz out x)
  obtain rc x1 where c: "check_cancelled x = (rc, x1)" by (cases "check_cancelled x")
  note t = check_cancelled_tree [OF c]
  show ?case
  proof (cases rc)
    case (Inl e)
    with 1(2,3) c t show ?thesis by auto
  next
    case (Inr u)
    show ?thesis
    proof (cases reads)
      case Nil
      with 1(2,3) c t Inr show ?thesis by (auto split: if_splits)
    next
      case (Cons a rest)
      show ?thesis
      proof (cases a)
        case None
        with 1(2,3) c t Inr Cons show ?thesis by auto
      next
        case (Some b)
        note IH = 1(1) [OF c [symmetric] Inr Cons Some refl]
        show ?thesis
        proof (cases "take limit b = [] \<or> length out + length (take limit b) > sz")
          case True
          with 1(2,3) c t Inr Cons Some show ?thesis by (auto simp: Let_def split: if_splits)
        next
          case False
          with 1(2) c Inr Cons Some
          have "copy_loop (limit - length (take limit b)) rest sz (out @ take limit b) x1 = (r, out', x')"
            by (simp add: Let_def)
          with IH False t show ?thesis by simp
        qed
      qed
    qed
  qed
qed

declare copy_loop.simps [simp del]

lemma copy_entry_inv:
  assumes "copy_entry reads n path mode x = (r, x')" and "ext_inv t0 n x"
    and "clean_path path" and "path \<noteq> []" and "parents_real (ex_tree x) path"
  shows "ext_inv t0 0 x' \<and> (r = Inr () \<longrightarrow>
     map_of (ex_tree x) path = None \<and>
     (\<exists>content m. ex_tree x' = (path, RegularFile content m) # ex_tree x \<and> length content = n))"
proof (cases "map_of (ex_tree x) path")
  case None
  obtain rc out x1 where loop: "copy_loop (saturating_add n 1) reads n [] x = (rc, out, x1)"
    by (cases "copy_loop (saturating_add n 1) reads n [] x") auto
  have b: "length out \<le> n" "ex_tree x1 = ex_tree x" "ex_total x1 = ex_total x"
    "rc = Inr () \<longrightarrow> length out = n"
    using copy_loop_bounds [OF loop] by auto
  obtain m where x': "x' = x1\<lparr>ex_tree := (path, RegularFile out m) # ex_tree x\<rparr>" and r: "r = rc"
    using assms(1) None loop b(2) by (auto simp: copy_entry_def split: sum.splits)
  from assms(2) obtain new where new: "plain_addition t0 new (ex_tree x)"
    "tree_bytes new + n \<le> ex_total x" "tree_bytes new + n \<le> max_extracted_bytes"
    by (auto simp: ext_inv_def)
  have "plain_addition t0 ((path, RegularFile out m) # new) (ex_tree x')"
    using plain_addition_insert [OF new(1) None _ assms(3-5)] by (simp add: x')
  with new b have "ext_inv t0 0 x'"
    unfolding ext_inv_def by (intro exI [of _ "(path, RegularFile out m) # new"]) (simp add: x')
  with x' r b None show ?thesis by auto
next
  case (Some n')
  with assms(1,2) show ?thesis by (auto simp: copy_entry_def ext_inv_def)
qed

lemma then_do_Pair [simp]:
  "then_do (Inl e, x) f = (Inl e, x)"
  "then_do (Inr a, x) f = f a x"
  by (simp_all add: then_do_def)

lemma then_doE:
  assumes "then_do m f = (r, x')"
  obtains (error) e where "m = (Inl e, x')" "r = Inl e"
    | (ok) a x1 where "m = (Inr a, x1)" "f a x1 = (r, x')"
  using assms by (auto simp: then_do_def split: prod.splits sum.splits)

lemma lift_result_simps [simp]: "lift_result r x = (a, x') \<longleftrightarrow> a = r \<and> x' = x"
  by (auto simp: lift_result_def)

text \<open>A directory entry, and a regular file whose size has been charged.\<close>

lemma clean_child: "clean_component ''.child''"
  by (simp add: clean_component_def)

lemma prepare_child_inv:
  assumes "then_do (prepare_parent (relative @ [''.child'']) x) (\<lambda>_ x. (Inr a, x)) = (r, x')"
    and "ext_inv t0 k x" and "clean_path relative"
  shows "ext_inv t0 k x'"
  using assms(1)
proof (cases rule: then_doE)
  case (error e)
  with prepare_parent_inv [OF error(1) assms(2)] assms(3) show ?thesis
    by (simp add: clean_child)
next
  case (ok b x1)
  with prepare_parent_inv [OF ok(1) assms(2)] assms(3) show ?thesis
    by (simp add: clean_child)
qed

lemma store_file_inv:
  assumes "then_do (add_size n x) (\<lambda>_ x. copy_entry reads n path mode x) = (r, x')"
    and "ext_inv t0 0 x" and "clean_path path" and "path \<noteq> []" and "parents_real (ex_tree x) path"
  shows "ext_inv t0 0 x'"
  using assms(1)
proof (cases rule: then_doE)
  case (error e)
  with add_size_inv [OF error(1) assms(2)] show ?thesis by simp
next
  case (ok b x1)
  from add_size_inv [OF ok(1) assms(2)] have "ext_inv t0 n x1" "ex_tree x1 = ex_tree x"
    by simp_all
  with copy_entry_inv [OF ok(2) _ assms(3,4)] assms(5) show ?thesis by simp
qed

lemma extract_zip_entry_inv:
  assumes "extract_zip_entry item x = (r, x')" and "ext_inv t0 0 x"
  shows "ext_inv t0 0 x'"
  using assms(1) unfolding extract_zip_entry_def
proof (cases rule: then_doE)
  case (error e)
  with check_cancelled_inv assms(2) show ?thesis by blast
next
  case (ok u x1)
  have x1: "ext_inv t0 0 x1" using check_cancelled_inv [OF ok(1) assms(2)] .
  show ?thesis
  proof (cases "\<exists>entry relative. item = Inr entry \<and> \<not> is_symlink_mode (ze_mode entry) \<and>
      safe_path (ze_name entry) = Inr relative \<and> relative \<noteq> []")
    case False
    with ok(2) x1 show ?thesis
      by (cases item) (auto simp: lift_result_def split: if_splits elim!: then_doE)
  next
    case True
    then obtain entry relative where item: "item = Inr entry" "\<not> is_symlink_mode (ze_mode entry)"
      and rel: "safe_path (ze_name entry) = Inr relative" "relative \<noteq> []" by blast
    note clean = safe_path_clean [OF rel(1)]
    have "then_do (prepare_parent relative x1) (\<lambda>output x.
        if ze_is_dir entry then
          then_do (prepare_parent (relative @ [''.child'']) x) (\<lambda>_ x. (Inr (), x))
        else then_do (add_size (ze_size entry) x) (\<lambda>_ x.
          copy_entry (ze_reads entry) (ze_size entry) output (ze_mode entry) x)) = (r, x')"
      using ok(2) item rel by (simp add: lift_result_def)
    then show ?thesis
    proof (cases rule: then_doE)
      case (error e)
      with prepare_parent_inv [OF error(1) x1 clean] show ?thesis by simp
    next
      case (ok out x2)
      from prepare_parent_inv [OF ok(1) x1 clean] rel(2)
      have "ext_inv t0 0 x2" "out = relative" "parents_real (ex_tree x2) relative" by simp_all
      with ok(2) clean rel(2) show ?thesis
        by (cases "ze_is_dir entry") (auto intro: prepare_child_inv store_file_inv)
    qed
  qed
qed

lemma extract_zip_entries_inv:
  "extract_zip_entries items x = (r, x') \<Longrightarrow> ext_inv t0 0 x \<Longrightarrow> ext_inv t0 0 x'"
  by (induction items x rule: extract_zip_entries.induct)
     (auto elim!: then_doE dest: extract_zip_entry_inv)

lemma ext_inv_start: "ext_inv (ex_tree x) 0 (x\<lparr>ex_total := 0\<rparr>)"
  by (auto simp: ext_inv_def plain_addition_def intro!: exI [of _ "[]"])

lemma extract_zip_inv: "extract_zip items x = (r, x') \<Longrightarrow> \<exists>new.
    plain_addition (ex_tree x) new (ex_tree x') \<and> tree_bytes new \<le> max_extracted_bytes"
  using extract_zip_entries_inv [OF _ ext_inv_start] ext_inv_start [of x]
  by (fastforce simp: extract_zip_def ext_inv_def split: if_splits)

section \<open>Tar entries and links keep the invariant\<close>

lemma extract_tar_entry_inv:
  assumes "extract_tar_entry entry ts x = (r, x')" and "ext_inv t0 0 x"
    and "\<forall>(p, q) \<in> set (ts_links ts). clean_path p \<and> p \<noteq> []"
  shows "ext_inv t0 0 x' \<and>
    (\<forall>ts'. r = Inr ts' \<longrightarrow> (\<forall>(p, q) \<in> set (ts_links ts'). clean_path p \<and> p \<noteq> []))"
proof (cases "\<exists>name relative. from_utf8 (te_path entry) = Some name \<and>
    safe_path name = Inr relative \<and> relative \<noteq> []")
  case False
  with assms show ?thesis
    by (auto simp: extract_tar_entry_def lift_result_def ok_or_def
        split: option.splits if_splits sum.splits elim!: then_doE)
next
  case True
  then obtain name relative where rel: "from_utf8 (te_path entry) = Some name"
    "safe_path name = Inr relative" "relative \<noteq> []" by blast
  note clean = safe_path_clean [OF rel(2)]
  obtain rp x1 where prep: "prepare_parent relative x = (rp, x1)"
    by (cases "prepare_parent relative x")
  note p = prepare_parent_inv [OF prep assms(2) clean]
  have clean_new: "clean_path relative \<and> relative \<noteq> []" using clean rel(3) by simp
  show ?thesis
  proof (cases rp)
    case (Inl e)
    with assms(1) rel prep p show ?thesis
      by (auto simp: extract_tar_entry_def lift_result_def)
  next
    case (Inr out)
    then have out: "out = relative" "parents_real (ex_tree x1) relative" "ext_inv t0 0 x1"
      using p rel(3) by auto
    show ?thesis
    proof (cases "te_kind entry = TarDirectory")
      case True
      then have run: "then_do (prepare_parent (relative @ [''.child'']) x1) (\<lambda>_ x. (Inr ts, x)) = (r, x')"
        using assms(1) rel prep Inr by (simp add: extract_tar_entry_def lift_result_def)
      have "ext_inv t0 0 x'" by (rule prepare_child_inv [OF run out(3) clean])
      moreover have "ts' = ts" if "r = Inr ts'" for ts'
        using run that by (cases rule: then_doE) auto
      ultimately show ?thesis using assms(3) by auto
    next
      case notdir: False
      show ?thesis
      proof (cases "te_kind entry = TarFile \<and> relative \<notin> set (ts_files ts) \<and>
          map_of (ts_links ts) relative = None")
        case True
        then have
          "then_do (lift_result (te_mode entry) x1) (\<lambda>mode x.
           then_do (add_size (te_size entry) x) (\<lambda>_ x.
           then_do (copy_entry (te_reads entry) (te_size entry) relative (Some mode) x) (\<lambda>_ x.
             (Inr (ts\<lparr>ts_files := relative # ts_files ts\<rparr>), x)))) = (r, x')"
          using assms(1) rel prep Inr out(1)
          by (simp add: extract_tar_entry_def lift_result_def)
        then show ?thesis
        proof (cases rule: then_doE)
          case (error e)
          with out assms(3) show ?thesis by simp
        next
          case (ok mode x2)
          then have ok': "then_do (add_size (te_size entry) x1) (\<lambda>_ x.
             then_do (copy_entry (te_reads entry) (te_size entry) relative (Some mode) x) (\<lambda>_ x.
             (Inr (ts\<lparr>ts_files := relative # ts_files ts\<rparr>), x))) = (r, x')" by simp
          obtain rf x3 where run: "then_do (add_size (te_size entry) x1) (\<lambda>_ x.
             copy_entry (te_reads entry) (te_size entry) relative (Some mode) x) = (rf, x3)"
            by (cases "then_do (add_size (te_size entry) x1) (\<lambda>_ x.
             copy_entry (te_reads entry) (te_size entry) relative (Some mode) x)")
          have "ext_inv t0 0 x3"
            by (rule store_file_inv [OF run out(3) clean rel(3) out(2)])
          moreover have "x' = x3 \<and> (\<forall>ts'. r = Inr ts' \<longrightarrow> ts_links ts' = ts_links ts)"
            using ok' run by (auto simp: then_do_def split: prod.splits sum.splits)
          ultimately show ?thesis using assms(3) by auto
        qed
      next
        case False
        with assms(1) rel prep Inr out notdir assms(3) clean_new show ?thesis
          by (auto simp: extract_tar_entry_def lift_result_def split: if_splits elim!: then_doE)
      qed
    qed
  qed
qed

lemma extract_tar_entries_inv:
  "extract_tar_entries items ts x = (r, x') \<Longrightarrow> ext_inv t0 0 x \<Longrightarrow>
   \<forall>(p, q) \<in> set (ts_links ts). clean_path p \<and> p \<noteq> [] \<Longrightarrow>
   ext_inv t0 0 x' \<and>
   (\<forall>ts'. r = Inr ts' \<longrightarrow> (\<forall>(p, q) \<in> set (ts_links ts'). clean_path p \<and> p \<noteq> []))"
proof (induction items ts x arbitrary: r x' rule: extract_tar_entries.induct)
  case (1 ts x)
  then show ?case by (auto elim!: then_doE dest: check_cancelled_inv)
next
  case (2 item rest ts x)
  from 2(2) show ?case unfolding extract_tar_entries.simps
  proof (cases rule: then_doE)
    case (error e)
    with 2(3) show ?thesis by (auto dest: check_cancelled_inv)
  next
    case (ok u x1)
    have x1: "ext_inv t0 0 x1" by (rule check_cancelled_inv [OF ok(1) 2(3)])
    let ?ts = "ts\<lparr>ts_count := ts_count ts + 1\<rparr>"
    show ?thesis
    proof (cases "ts_count ?ts > max_archive_entries \<or> (\<exists>e. item = Inl e)")
      case True
      with ok(2) x1 show ?thesis by (auto simp: Let_def lift_result_def split: if_splits)
    next
      case False
      then obtain entry where item: "item = Inr entry" by (cases item) auto
      have "then_do (extract_tar_entry entry ?ts x1) (\<lambda>ts x. extract_tar_entries rest ts x) = (r, x')"
        using ok(2) False item by (simp add: Let_def lift_result_def)
      then show ?thesis
      proof (cases rule: then_doE)
        case (error e)
        with extract_tar_entry_inv [OF error(1) x1] 2(4) show ?thesis by simp
      next
        case step: (ok ts2 x2)
        with extract_tar_entry_inv [OF step(1) x1] 2(4) have
          "ext_inv t0 0 x2" "\<forall>(p, q) \<in> set (ts_links ts2). clean_path p \<and> p \<noteq> []" by simp_all
        with 2(1) step(2) False show ?thesis by simp
      qed
    qed
  qed
qed

lemma set_mode_keys: "map fst (set_mode p m t) = map fst t"
  by (simp add: set_mode_def comp_def case_prod_beta)

lemma set_mode_append: "set_mode p m (s @ t) = set_mode p m s @ set_mode p m t"
  by (simp add: set_mode_def)

lemma set_mode_other: "map_of t p = None \<Longrightarrow> set_mode p m t = t"
  by (induction t) (auto simp: set_mode_def split: node.splits if_splits)

lemma set_mode_directory: "map_of (set_mode p m t) q = Some Directory \<longleftrightarrow> map_of t q = Some Directory"
  by (induction t) (auto simp: set_mode_def split: node.splits if_splits)

lemma set_mode_bytes: "tree_bytes (set_mode p m t) = tree_bytes t"
  by (induction t) (auto simp: set_mode_def tree_bytes_def split: node.splits)

lemma set_mode_symlinks:
  "(q, n) \<in> set (set_mode p m t) \<Longrightarrow> \<exists>n'. (q, n') \<in> set t \<and> (n' = SymbolicLink \<longleftrightarrow> n = SymbolicLink)"
  by (force simp: set_mode_def split: node.splits if_splits)

lemma ext_inv_set_mode:
  assumes "ext_inv t0 k x" and "map_of t0 p = None"
  shows "ext_inv t0 k (x\<lparr>ex_tree := set_mode p m (ex_tree x)\<rparr>)"
proof -
  obtain new where new: "plain_addition t0 new (ex_tree x)" "tree_bytes new + k \<le> ex_total x"
    "tree_bytes new + k \<le> max_extracted_bytes"
    using assms(1) by (auto simp: ext_inv_def)
  have "parents_real (set_mode p m new @ t0) q \<longleftrightarrow> parents_real (new @ t0) q" for q
    using set_mode_directory [of p m "new @ t0"]
    by (simp add: parents_real_def set_mode_append set_mode_other [OF assms(2)])
  moreover have "fst ` set (set_mode p m new) = fst ` set new"
    using set_mode_keys [of p m new] by (metis list.set_map)
  ultimately have "plain_addition t0 (set_mode p m new) (set_mode p m (ex_tree x))"
    using new(1) set_mode_other [OF assms(2)]
    by (auto simp: plain_addition_def set_mode_keys set_mode_append dest!: set_mode_symlinks)
  with new show ?thesis by (auto simp: ext_inv_def set_mode_bytes)
qed

section \<open>Links become copies\<close>

lemma ext_inv_self: "ext_inv (ex_tree x) 0 x"
  by (auto simp: ext_inv_def plain_addition_def intro!: exI [of _ "[]"])

lemma ext_inv_keeps: "ext_inv t0 k x \<Longrightarrow> map_of t0 q = Some n \<Longrightarrow> map_of (ex_tree x) q = Some n"
proof -
  assume inv: "ext_inv t0 k x" and q: "map_of t0 q = Some n"
  then obtain new where new: "ex_tree x = new @ t0" "fst ` set new \<inter> fst ` set t0 = {}"
    by (auto simp: ext_inv_def plain_addition_def)
  from q have "q \<in> fst ` set t0" by (force dest: map_of_SomeD)
  then have "map_of new q = None" using new(2) by (auto simp: map_of_None_iff)
  with q new(1) show "map_of (ex_tree x) q = Some n" by (simp add: map_add_def)
qed

lemma copy_loop_delivers:
  "copy_loop limit (map Some cs) sz out x = (Inr (), out', x') \<Longrightarrow> [] \<notin> set cs \<Longrightarrow>
   length (concat cs) < limit \<Longrightarrow> out' = out @ concat cs"
proof (induction cs arbitrary: limit out x)
  case Nil
  then show ?case
    by (subst (asm) copy_loop.simps) (auto split: prod.splits sum.splits if_splits)
next
  case (Cons c cs)
  then have c: "take limit c = c" "c \<noteq> []" by auto
  obtain rc x1 where cc: "check_cancelled x = (rc, x1)" by (cases "check_cancelled x")
  have "copy_loop (limit - length c) (map Some cs) sz (out @ c) x1 = (Inr (), out', x')"
    using Cons.prems(1) c cc
    by (subst (asm) copy_loop.simps) (auto simp: Let_def split: sum.splits if_splits)
  with Cons.IH [OF this] Cons.prems(2,3) show ?case by simp
qed

lemma file_reads_chunks: "\<exists>cs. file_reads content = map Some cs \<and> [] \<notin> set cs \<and> concat cs = content"
proof (induction content rule: file_reads.induct)
  case (1 content)
  show ?case
  proof (cases "content = []")
    case False
    with 1 obtain cs where "file_reads (drop 65536 content) = map Some cs" "[] \<notin> set cs"
      "concat cs = drop 65536 content" by blast
    with False show ?thesis
      by (subst file_reads.simps) (auto intro!: exI [of _ "take 65536 content # cs"])
  qed (simp add: file_reads.simps)
qed

lemma copy_file_exact:
  assumes "copy_entry (file_reads content) (length content) path mode x = (Inr (), x')"
    and "length content < u64_bound - 1"
  shows "\<exists>m. ex_tree x' = (path, RegularFile content m) # ex_tree x \<and> map_of (ex_tree x) path = None"
proof -
  obtain rc out x1 where
    loop: "copy_loop (saturating_add (length content) 1) (file_reads content) (length content) [] x = (rc, out, x1)"
    by (cases "copy_loop (saturating_add (length content) 1) (file_reads content) (length content) [] x") auto
  have fresh: "map_of (ex_tree x) path = None" and rc: "rc = Inr ()"
    and x': "x' = x1\<lparr>ex_tree := (path, RegularFile out (file_mode mode)) # ex_tree x1\<rparr>"
    using assms(1) loop by (auto simp: copy_entry_def split: if_splits sum.splits)
  obtain cs where cs: "file_reads content = map Some cs" "[] \<notin> set cs" "concat cs = content"
    using file_reads_chunks by blast
  have "out = content"
    using copy_loop_delivers [of _ cs "length content" "[]" x out x1] loop cs rc assms(2)
    by (simp add: saturating_add_def)
  moreover have "ex_tree x1 = ex_tree x" using copy_loop_bounds [OF loop] by simp
  ultimately show ?thesis using fresh x' by auto
qed

definition link_copied :: "path list \<Rightarrow> (path \<times> path) list \<Rightarrow> tree \<Rightarrow> path \<times> path \<Rightarrow> bool" where
  "link_copied files links t link \<longleftrightarrow> (\<exists>target content mode.
     resolve_link links (snd link) [] = Inr target \<and> target \<in> set files \<and>
     map_of t target = Some (RegularFile content mode) \<and>
     map_of t (fst link) = Some (RegularFile content mode))"

lemma extract_link_inv:
  assumes "extract_link files links (relative, initial) x = (r, x')" and "ext_inv t0 0 x"
    and "clean_path relative" and "relative \<noteq> []"
  shows "ext_inv t0 0 x' \<and>
    (r = Inr () \<longrightarrow> link_copied files links (ex_tree x') (relative, initial))"
proof -
  obtain rc x1 where cc: "check_cancelled x = (rc, x1)" by (cases "check_cancelled x")
  have x1: "ext_inv t0 0 x1" "ex_tree x1 = ex_tree x"
    using check_cancelled_inv [OF cc assms(2)] check_cancelled_tree [OF cc] by simp_all
  show ?thesis
  proof (cases "\<exists>target content mode. rc = Inr () \<and> resolve_link links initial [] = Inr target \<and>
      target \<in> set files \<and> map_of (ex_tree x1) target = Some (RegularFile content mode)")
    case False
    with assms(1) x1 cc show ?thesis
      by (cases rc; cases "resolve_link links initial []")
         (auto simp: extract_link_def lift_result_def split: if_splits option.splits node.splits)
  next
    case True
    then obtain target content mode where t: "rc = Inr ()" "resolve_link links initial [] = Inr target"
      "target \<in> set files" "map_of (ex_tree x1) target = Some (RegularFile content mode)" by blast
    have "then_do (add_size (length content) x1) (\<lambda>_ x.
        then_do (prepare_parent relative x) (\<lambda>out x.
        then_do (copy_entry (file_reads content) (length content) out None x) (\<lambda>_ x.
          (Inr (), x\<lparr>ex_tree := set_mode out mode (ex_tree x)\<rparr>)))) = (r, x')"
      using assms(1) t cc by (simp add: extract_link_def lift_result_def)
    then show ?thesis
    proof (cases rule: then_doE)
      case (error e)
      with add_size_inv [OF error(1) x1(1)] show ?thesis by simp
    next
      case (ok u x2)
      note a = add_size_inv [OF ok(1) x1(1)]
      have len: "length content < u64_bound - 1"
        using ok(1) by (auto simp: add_size_def checked_add_def max_extracted_bytes_def rust_arith
            split: if_splits)
      from ok(2) show ?thesis
      proof (cases rule: then_doE)
        case (error e)
        with prepare_parent_inv [OF error(1) _ assms(3), of t0 0] a show ?thesis by simp
      next
        case prep: (ok out x3)
        from prepare_parent_inv [OF prep(1) _ assms(3), of t0 "length content"] a assms(4)
        have x3: "ext_inv t0 (length content) x3" "out = relative" "parents_real (ex_tree x3) relative"
          by simp_all
        have kept: "map_of (ex_tree x3) target = Some (RegularFile content mode)"
          using prepare_parent_inv [OF prep(1) ext_inv_self assms(3)] a t(4)
          by (auto dest: ext_inv_keeps)
        from prep(2) show ?thesis
        proof (cases rule: then_doE)
          case (error e)
          with copy_entry_inv [OF error(1) _ _ _ _, of t0] x3 assms(3,4) show ?thesis by simp
        next
          case copy: (ok u x4)
          note c = copy_entry_inv [OF copy(1) _ _ _ _, of t0]
          have x': "x' = x4\<lparr>ex_tree := set_mode relative mode (ex_tree x4)\<rparr>" "r = Inr ()"
            using copy(2) x3(2) by auto
          obtain m where x4: "ex_tree x4 = (relative, RegularFile content m) # ex_tree x3"
            "map_of (ex_tree x3) relative = None"
            using copy_file_exact [of content relative None x3 x4] copy(1) x3(2) len by auto
          have tree: "ex_tree x' = (relative, RegularFile content mode) # ex_tree x3"
            using set_mode_other [OF x4(2)] by (simp add: x' x4 set_mode_def)
          have "map_of t0 relative = None"
            using x4(2) ext_inv_keeps [OF x3(1), of relative] by (cases "map_of t0 relative") auto
          then have "ext_inv t0 0 x'"
            using c x3 assms(3,4) x' ext_inv_set_mode by auto
          moreover have "target \<noteq> relative" using kept x4(2) by auto
          ultimately show ?thesis
            using t kept tree by (auto simp: link_copied_def)
        qed
      qed
    qed
  qed
qed

lemma extract_links_inv:
  "extract_links files links order x = (r, x') \<Longrightarrow> ext_inv t0 0 x \<Longrightarrow>
   \<forall>(p, q) \<in> set order. clean_path p \<and> p \<noteq> [] \<Longrightarrow>
   ext_inv t0 0 x' \<and>
   (r = Inr () \<longrightarrow> (\<forall>link \<in> set order. link_copied files links (ex_tree x') link))"
proof (induction order arbitrary: x t0)
  case (Cons link order)
  obtain relative initial where link: "link = (relative, initial)" by (cases link)
  with Cons.prems(3) have clean: "clean_path relative" "relative \<noteq> []" by auto
  from Cons.prems(1) show ?case unfolding extract_links.simps
  proof (cases rule: then_doE)
    case (error e)
    with extract_link_inv [OF error(1) [unfolded link] Cons.prems(2) clean] show ?thesis by simp
  next
    case (ok u x1)
    from extract_link_inv [OF ok(1) [unfolded link] Cons.prems(2) clean]
    have x1: "ext_inv t0 0 x1" "link_copied files links (ex_tree x1) link"
      by (simp_all add: link)
    have "link_copied files links (ex_tree x') link"
      using x1(2) Cons.IH [OF ok(2) ext_inv_self] Cons.prems(3)
      unfolding link_copied_def by (auto dest: ext_inv_keeps)
    then show ?thesis using Cons.IH [OF ok(2) x1(1)] Cons.prems(3) by simp
  qed
qed simp

section \<open>Properties\<close>

lemma extract_tar_run:
  assumes "extract_tar hash_order entries x = (r, x')"
  obtains (entries) e where
    "extract_tar_entries entries \<lparr>ts_files = [], ts_links = [], ts_count = 0\<rparr> (x\<lparr>ex_total := 0\<rparr>) = (Inl e, x')"
    "r = Inl e"
  | (links) ts x1 where
    "extract_tar_entries entries \<lparr>ts_files = [], ts_links = [], ts_count = 0\<rparr> (x\<lparr>ex_total := 0\<rparr>) = (Inr ts, x1)"
    "extract_links (ts_files ts) (ts_links ts) (hash_order (ts_links ts)) x1 = (r, x')"
  using assms unfolding extract_tar_def by (auto elim!: then_doE)

lemma ext_inv_addition: "ext_inv t0 0 x \<Longrightarrow> \<exists>new. plain_addition t0 new (ex_tree x) \<and>
    tree_bytes new \<le> max_extracted_bytes"
  by (auto simp: ext_inv_def)

text \<open>C13. However a tar archive is formed, and whether its extraction succeeds, fails or is
  cancelled, the extraction only adds nodes to the staging directory: plain directories and
  regular files, never a symbolic link, each at a non-empty path of harmless components whose
  every ancestor is a real directory. Nothing that was there before is changed, and the added
  files hold at most 16 GiB together.\<close>

theorem tar_extraction_contained:
  assumes "extract_tar hash_order entries x = (r, x')" and "\<And>l. set (hash_order l) = set l"
  shows "\<exists>new. plain_addition (ex_tree x) new (ex_tree x') \<and> tree_bytes new \<le> max_extracted_bytes"
  using assms(1)
proof (cases rule: extract_tar_run)
  case (entries e)
  with extract_tar_entries_inv [OF entries(1) ext_inv_start] show ?thesis
    by (auto intro: ext_inv_addition)
next
  case (links ts x1)
  from extract_tar_entries_inv [OF links(1) ext_inv_start]
  have "ext_inv (ex_tree x) 0 x1" "\<forall>(p, q) \<in> set (hash_order (ts_links ts)). clean_path p \<and> p \<noteq> []"
    by (auto simp: assms(2))
  with extract_links_inv [OF links(2)] show ?thesis by (blast intro: ext_inv_addition)
qed

text \<open>The same containment for zip archives.\<close>

lemma zip_extraction_contained:
  assumes "extract_zip archive x = (r, x')"
  shows "\<exists>new. plain_addition (ex_tree x) new (ex_tree x') \<and> tree_bytes new \<le> max_extracted_bytes"
  by (rule extract_zip_inv [OF assms])

text \<open>When a tar extraction succeeds, every link of the archive, symbolic or hard and through
  any chain of links, is a regular file with the content and mode of the regular archive file it
  resolves to, for every order in which the hash map of links is walked.\<close>

lemma tar_links_are_copies:
  assumes "extract_tar hash_order entries x = (Inr (), x')" and "\<And>l. set (hash_order l) = set l"
  shows "\<exists>ts x1. extract_tar_entries entries \<lparr>ts_files = [], ts_links = [], ts_count = 0\<rparr>
      (x\<lparr>ex_total := 0\<rparr>) = (Inr ts, x1) \<and>
    (\<forall>link \<in> set (ts_links ts). link_copied (ts_files ts) (ts_links ts) (ex_tree x') link)"
  using assms(1)
proof (cases rule: extract_tar_run)
  case (links ts x1)
  from extract_tar_entries_inv [OF links(1) ext_inv_start]
  have "ext_inv (ex_tree x) 0 x1" "\<forall>(p, q) \<in> set (hash_order (ts_links ts)). clean_path p \<and> p \<noteq> []"
    by (auto simp: assms(2))
  with extract_links_inv [OF links(2)] links(1) assms(2) show ?thesis by auto
qed simp

text \<open>A link target accepted for a harmless path is itself a non-empty list of harmless
  components below the staging root: an accepted link cannot name anything outside it.\<close>

lemma link_target_contained:
  assumes "safe_path name = Inr path" and "link_target path value hard = Inr target"
  shows "clean_path target \<and> target \<noteq> []"
  by (rule link_target_clean [OF assms(2) safe_path_clean [OF assms(1)]])

section \<open>Witnesses\<close>

definition empty_extraction :: extraction where
  "empty_extraction = \<lparr>ex_tree = [], ex_total = 0, ex_cancel = []\<rparr>"

definition tar_example :: "(archive_error + tar_entry) list" where
  "tar_example =
     [Inr \<lparr>te_path = ''lib/a'', te_kind = TarFile, te_link = None, te_size = 2, te_mode = Inr 0x1ED,
           te_reads = [Some ''xy'']\<rparr>,
      Inr \<lparr>te_path = ''b'', te_kind = TarSymlink, te_link = Some ''lib/a'', te_size = 0,
           te_mode = Inr 0x1ED, te_reads = []\<rparr>]"

lemmas extraction_eval = empty_extraction_def check_cancelled_def lift_result_def
  extract_tar_entry_def safe_path_def unsafe_text_def starts_with_def max_archive_path_bytes_def
  max_archive_entries_def max_extracted_bytes_def prepare_parent_def add_size_def
  checked_add_def saturating_add_def u64_bound_eval copy_entry_def copy_loop.simps
  file_mode_def link_target_def from_utf8_def code_def Let_def

lemma tar_example_run:
  "extract_tar (\<lambda>l. l) tar_example empty_extraction =
     (Inr (), \<lparr>ex_tree = [([''b''], RegularFile ''xy'' 0x1ED), ([''lib'', ''a''], RegularFile ''xy'' 0x1ED),
                ([''lib''], Directory)], ex_total = 4, ex_cancel = []\<rparr>)"
  by (simp add: extract_tar_def tar_example_def extraction_eval)
     (simp add: extract_link_def resolve_link.simps file_reads.simps set_mode_def extraction_eval)

theorem tar_extraction_contained_witness:
  "\<exists>x'. extract_tar (\<lambda>l. l) tar_example empty_extraction = (Inr (), x') \<and>
     (\<exists>new. plain_addition [] new (ex_tree x') \<and> tree_bytes new \<le> max_extracted_bytes)"
  using tar_extraction_contained [OF tar_example_run] tar_example_run
  by (simp add: empty_extraction_def)

theorem tar_links_are_copies_witness:
  "\<exists>x'. extract_tar (\<lambda>l. l) tar_example empty_extraction = (Inr (), x') \<and>
     map_of (ex_tree x') [''b''] = map_of (ex_tree x') [''lib'', ''a'']"
  using tar_links_are_copies [OF tar_example_run] tar_example_run by simp

theorem zip_extraction_contained_witness:
  "\<exists>x'. extract_zip [Inr \<lparr>ze_name = ''a'', ze_mode = None, ze_is_dir = False, ze_size = 1,
       ze_reads = [Some ''z'']\<rparr>] empty_extraction = (Inr (), x') \<and>
     (\<exists>new. plain_addition [] new (ex_tree x') \<and> tree_bytes new \<le> max_extracted_bytes)"
proof -
  obtain x' where run: "extract_zip [Inr \<lparr>ze_name = ''a'', ze_mode = None, ze_is_dir = False,
       ze_size = 1, ze_reads = [Some ''z'']\<rparr>] empty_extraction = (Inr (), x')"
    by (simp add: extract_zip_def extract_zip_entry_def is_symlink_mode_def extraction_eval)
  from zip_extraction_contained [OF run] run show ?thesis by (simp add: empty_extraction_def)
qed

theorem link_target_contained_witness:
  "safe_path ''lib/a'' = Inr [''lib'', ''a''] \<and> link_target [''lib'', ''a''] ''../b'' False = Inr [''b''] \<and>
   clean_path [''b'']"
proof -
  have "safe_path ''lib/a'' = Inr [''lib'', ''a'']" "link_target [''lib'', ''a''] ''../b'' False = Inr [''b'']"
    by (simp_all add: extraction_eval)
  with link_target_contained [OF this] show ?thesis by simp
qed

end
