(* ===== verification/Http.thy ===== *)
theory Http
  imports Prelude
begin

text \<open>
  The HTTP/1.1 plumbing of the API listener, \<open>src-tauri/src/gateway/http.rs\<close>: gateway errors,
  reading a request in two phases, and the heads of the responses.

  The client's side of a connection is the list of what its reads return: up to 8192 bytes, or a
  failure; the end of the list, like an empty read, is the closed connection. The reading timeout
  and the failure of the interim response are arguments. A response is the bytes written; the
  reason phrase of a status and the encoded JSON body are arguments.
\<close>

section \<open>JSON values\<close>

datatype json =
  JNull | JBool bool | JNum string | JStr string | JArr "json list" | JObj "(string \<times> json) list"

section \<open>Errors\<close>

datatype api = OpenAi | Anthropic

record api_error =
  ae_status :: nat
  ae_code :: string
  ae_message :: string
  ae_param :: "string option"

definition api_error_new :: "nat \<Rightarrow> string \<Rightarrow> string \<Rightarrow> api_error" where
  "api_error_new status c message =
     \<lparr>ae_status = status, ae_code = c, ae_message = message, ae_param = None\<rparr>"

definition with_param :: "string \<Rightarrow> api_error \<Rightarrow> api_error" where
  "with_param param e = e\<lparr>ae_param := Some param\<rparr>"

definition openai_kind :: "nat \<Rightarrow> string" where
  "openai_kind status =
     (if status = 401 then ''authentication_error'' else if status \<ge> 500 then ''server_error''
      else ''invalid_request_error'')"

definition anthropic_kind :: "nat \<Rightarrow> string" where
  "anthropic_kind status =
     (if status = 401 then ''authentication_error'' else if status = 404 then ''not_found_error''
      else if status = 413 then ''request_too_large'' else if status = 503 then ''overloaded_error''
      else if status \<ge> 500 then ''api_error'' else ''invalid_request_error'')"

fun error_body :: "api \<Rightarrow> api_error \<Rightarrow> json" where
  "error_body OpenAi e =
     JObj [(''error'', JObj
       [(''message'', JStr (ae_message e)), (''type'', JStr (openai_kind (ae_status e))),
        (''param'', case ae_param e of None \<Rightarrow> JNull | Some p \<Rightarrow> JStr p),
        (''code'', JStr (ae_code e))])]"
| "error_body Anthropic e =
     JObj [(''type'', JStr ''error''), (''error'', JObj
       [(''type'', JStr (anthropic_kind (ae_status e))), (''message'', JStr (ae_message e))])]"

definition bad_request :: "string \<Rightarrow> api_error" where
  "bad_request message = api_error_new 400 ''invalid_request'' message"

definition request_timeout :: api_error where
  "request_timeout = api_error_new 408 ''request_timeout'' ''timed out waiting for the request''"

definition headers_too_large :: api_error where
  "headers_too_large =
     api_error_new 431 ''headers_too_large'' ''request headers exceed the 64 KiB limit''"

section \<open>Reading a request\<close>

definition max_body :: nat where "max_body = 32 * 1024 * 1024"
definition max_header_bytes :: nat where "max_header_bytes = 64 * 1024"

definition crlf :: string where "crlf = [CHR 0x0D, CHR 0x0A]"

datatype read_result = Received bytes | ReadFailed string

record head =
  hd_method :: string
  hd_path :: string
  hd_headers :: "(string \<times> string) list"
  hd_content_length :: nat
  hd_received :: bytes

record request =
  rq_method :: string
  rq_path :: string
  rq_headers :: "(string \<times> string) list"
  rq_body :: bytes

text \<open>What the bytes read so far decide: where the headers end, or that they are too large.\<close>

definition header_end :: "bytes \<Rightarrow> (api_error + nat) option" where
  "header_end bs =
     (case find_sub (crlf @ crlf) bs of
        Some index \<Rightarrow>
          Some (if index + 4 > max_header_bytes then Inl headers_too_large else Inr (index + 4))
      | None \<Rightarrow> if length bs > max_header_bytes then Some (Inl headers_too_large) else None)"

definition closed_in_headers :: api_error where
  "closed_in_headers = bad_request ''client closed before the headers were complete''"

fun read_headers ::
  "bytes \<Rightarrow> read_result list \<Rightarrow> api_error + (bytes \<times> nat \<times> read_result list)" where
  "read_headers bs [] =
     (case header_end bs of
        Some (Inl e) \<Rightarrow> Inl e | Some (Inr n) \<Rightarrow> Inr (bs, n, []) | None \<Rightarrow> Inl closed_in_headers)"
| "read_headers bs (c # cs) =
     (case header_end bs of
        Some (Inl e) \<Rightarrow> Inl e
      | Some (Inr n) \<Rightarrow> Inr (bs, n, c # cs)
      | None \<Rightarrow>
          (case c of
             ReadFailed m \<Rightarrow> Inl (bad_request (''request read failed: '' @ m))
           | Received d \<Rightarrow> if d = [] then Inl closed_in_headers else read_headers (bs @ d) cs))"

text \<open>A later header of the same name replaces an earlier one.\<close>

definition add_header :: "string \<Rightarrow> (string \<times> string) list \<Rightarrow> (string \<times> string) list" where
  "add_header line hs =
     (if line = [] then hs
      else case split_once CHR '':'' line of
        None \<Rightarrow> hs
      | Some (name, value) \<Rightarrow>
          (let k = map to_ascii_lowercase (trim name) in (k, trim value) # map_remove k hs))"

definition header_map :: "string list \<Rightarrow> (string \<times> string) list" where
  "header_map lines = fold add_header lines []"

definition too_large_body :: api_error where
  "too_large_body =
     api_error_new 413 ''request_too_large'' ''request body exceeds the 32 MiB limit''"

definition length_required :: api_error where
  "length_required = api_error_new 411 ''length_required''
     ''chunked request bodies are not supported; send a Content-Length header''"

definition body_length :: "(string \<times> string) list \<Rightarrow> api_error + nat" where
  "body_length headers =
     (if map_of headers ''transfer-encoding'' \<noteq> None then Inl length_required
      else
        bind_r (case map_of headers ''content-length'' of
            None \<Rightarrow> Inr 0
          | Some v \<Rightarrow> ok_or (bad_request ''Content-Length is not a valid number'') (parse_unsigned (2 ^ 64) v))
          (\<lambda>n. if n > max_body then Inl too_large_body else Inr n))"

definition nth_or_empty :: "string list \<Rightarrow> nat \<Rightarrow> string" where
  "nth_or_empty ws i = (if i < length ws then ws ! i else [])"

definition parse_head :: "bytes \<Rightarrow> nat \<Rightarrow> api_error + head" where
  "parse_head bs n =
     (let lines = split_all crlf (from_utf8_lossy (take n bs));
          parts = split_whitespace (hd lines);
          meth = nth_or_empty parts 0;
          target = nth_or_empty parts 1;
          headers = header_map (tl lines)
      in if meth = [] \<or> target = [] then Inl (bad_request ''malformed request line'')
         else bind_r (body_length headers) (\<lambda>len.
           Inr \<lparr>hd_method = meth, hd_path = hd (split_on CHR ''?'' target), hd_headers = headers,
                hd_content_length = len, hd_received = drop n bs\<rparr>))"

definition read_head :: "bool \<Rightarrow> read_result list \<Rightarrow> api_error + (head \<times> read_result list)" where
  "read_head timed_out cs =
     (if timed_out then Inl request_timeout
      else bind_r (read_headers [] cs) (\<lambda>(bs, n, rest).
           bind_r (parse_head bs n) (\<lambda>h. Inr (h, rest))))"

fun read_rest :: "nat \<Rightarrow> bytes \<Rightarrow> read_result list \<Rightarrow> api_error + (bytes \<times> read_result list)" where
  "read_rest n body [] =
     (if length body < n then Inl (bad_request ''client closed before the body was complete'')
      else Inr (body, []))"
| "read_rest n body (c # cs) =
     (if length body < n then
        (case c of
           ReadFailed m \<Rightarrow> Inl (bad_request (''request body read failed: '' @ m))
         | Received d \<Rightarrow>
             if d = [] then Inl (bad_request ''client closed before the body was complete'')
             else read_rest n (body @ d) cs)
      else Inr (body, c # cs))"

text \<open>Whether the interim response is sent, and why writing it failed when it did.\<close>

definition wants_continue :: "head \<Rightarrow> bool" where
  "wants_continue h \<longleftrightarrow>
     length (hd_received h) < hd_content_length h \<and>
     (case map_of (hd_headers h) ''expect'' of
        None \<Rightarrow> False | Some v \<Rightarrow> eq_ignore_ascii_case v ''100-continue'')"

definition read_body ::
  "bool \<Rightarrow> string option \<Rightarrow> head \<Rightarrow> read_result list \<Rightarrow> api_error + (request \<times> read_result list)" where
  "read_body timed_out write_error h cs =
     (if timed_out then Inl request_timeout
      else case (if wants_continue h then write_error else None) of
        Some m \<Rightarrow> Inl (bad_request (''request read failed: '' @ m))
      | None \<Rightarrow>
          bind_r (read_rest (hd_content_length h) (hd_received h) cs) (\<lambda>(body, rest).
          Inr (\<lparr>rq_method = hd_method h, rq_path = hd_path h, rq_headers = hd_headers h,
                rq_body = take (hd_content_length h) body\<rparr>, rest)))"

definition discard_budget :: nat where "discard_budget = 4 * 1024 * 1024"

fun discard_unread :: "nat \<Rightarrow> read_result list \<Rightarrow> read_result list" where
  "discard_unread budget [] = []"
| "discard_unread budget (c # cs) =
     (if budget = 0 then c # cs
      else case c of
        ReadFailed _ \<Rightarrow> cs
      | Received d \<Rightarrow> if d = [] then cs else discard_unread (budget - length d) cs)"

section \<open>Responses\<close>

definition is_allowed_origin :: "string \<Rightarrow> bool" where
  "is_allowed_origin origin \<longleftrightarrow>
     origin \<in> {''tauri://localhost'', ''http://tauri.localhost'', ''https://tauri.localhost'',
               ''http://localhost:1420''}"

definition allowed_origin :: "(string \<times> string) list \<Rightarrow> string option" where
  "allowed_origin headers =
     (case map_of headers ''origin'' of
        None \<Rightarrow> None | Some origin \<Rightarrow> if is_allowed_origin origin then Some origin else None)"

definition cors_lines :: "string option \<Rightarrow> string" where
  "cors_lines origin =
     (case origin of
        None \<Rightarrow> []
      | Some o1 \<Rightarrow> ''Access-Control-Allow-Origin: '' @ o1 @ crlf @ ''Vary: Origin'' @ crlf)"

definition json_response :: "string option \<Rightarrow> nat \<Rightarrow> string \<Rightarrow> bytes \<Rightarrow> bytes" where
  "json_response origin status reason body =
     ''HTTP/1.1 '' @ digits_of_nat status @ '' '' @ reason @ crlf @ ''Content-Type: application/json'' @ crlf
     @ ''Content-Length: '' @ digits_of_nat (length body) @ crlf @ cors_lines origin
     @ ''Connection: close'' @ crlf @ crlf @ body"

definition stream_head ::
  "string option \<Rightarrow> nat \<Rightarrow> string \<Rightarrow> string \<Rightarrow> nat option \<Rightarrow> bytes" where
  "stream_head origin status reason content_type content_length =
     ''HTTP/1.1 '' @ digits_of_nat status @ '' '' @ reason @ crlf @ ''Content-Type: '' @ content_type @ crlf
     @ (if starts_with ''text/event-stream'' content_type then ''Cache-Control: no-cache'' @ crlf else [])
     @ (case content_length of
          None \<Rightarrow> [] | Some n \<Rightarrow> ''Content-Length: '' @ digits_of_nat n @ crlf)
     @ cors_lines origin @ ''Connection: close'' @ crlf @ crlf"

definition requested_headers :: "(string \<times> string) list \<Rightarrow> string" where
  "requested_headers headers =
     (case map_of headers ''access-control-request-headers'' of
        None \<Rightarrow> ''authorization, content-type, x-api-key, anthropic-version'' | Some v \<Rightarrow> v)"

definition preflight_response :: "(string \<times> string) list \<Rightarrow> bytes" where
  "preflight_response headers =
     ''HTTP/1.1 204 No Content'' @ crlf
     @ (case allowed_origin headers of
          None \<Rightarrow> []
        | Some o1 \<Rightarrow>
            ''Access-Control-Allow-Origin: '' @ o1 @ crlf @ ''Vary: Origin'' @ crlf
            @ ''Access-Control-Allow-Methods: GET, POST, DELETE, OPTIONS'' @ crlf
            @ ''Access-Control-Allow-Headers: '' @ requested_headers headers @ crlf
            @ ''Access-Control-Max-Age: 600'' @ crlf)
     @ ''Content-Length: 0'' @ crlf @ ''Connection: close'' @ crlf @ crlf"

definition event_frame :: "string \<Rightarrow> bytes \<Rightarrow> bytes" where
  "event_frame event value =
     ''event: '' @ event @ [CHR 0x0A] @ ''data: '' @ value @ [CHR 0x0A, CHR 0x0A]"

section \<open>Reading does not depend on the chunks\<close>

text \<open>The whole request as a function of the bytes the client sends before it closes.\<close>

definition closed_in_body :: api_error where
  "closed_in_body = bad_request ''client closed before the body was complete''"

definition request_of :: "bytes \<Rightarrow> api_error + request" where
  "request_of s =
     (case header_end s of
        None \<Rightarrow> Inl closed_in_headers
      | Some (Inl e) \<Rightarrow> Inl e
      | Some (Inr n) \<Rightarrow>
          bind_r (parse_head s n) (\<lambda>h.
          if length (hd_received h) < hd_content_length h then Inl closed_in_body
          else Inr \<lparr>rq_method = hd_method h, rq_path = hd_path h, rq_headers = hd_headers h,
                    rq_body = take (hd_content_length h) (hd_received h)\<rparr>))"

definition read_request :: "read_result list \<Rightarrow> api_error + request" where
  "read_request cs =
     bind_r (read_head False cs) (\<lambda>(h, rest).
     bind_r (read_body False None h rest) (\<lambda>(r, _). Inr r))"

fun steady :: "read_result list \<Rightarrow> bool" where
  "steady [] \<longleftrightarrow> True"
| "steady (Received d # cs) \<longleftrightarrow> d \<noteq> [] \<and> steady cs"
| "steady (ReadFailed m # cs) \<longleftrightarrow> False"

fun sent :: "read_result list \<Rightarrow> bytes" where
  "sent [] = []"
| "sent (Received d # cs) = d @ sent cs"
| "sent (ReadFailed m # cs) = []"

lemma header_end_append:
  assumes "header_end s = Some r"
  shows "header_end (s @ t) = Some r"
proof (cases "find_sub (crlf @ crlf) s")
  case (Some n)
  with assms find_sub_append [OF Some, of t] show ?thesis by (simp add: header_end_def)
next
  case None
  with assms have big: "length s > max_header_bytes" "r = Inl headers_too_large"
    by (auto simp: header_end_def split: if_splits)
  show ?thesis
  proof (cases "find_sub (crlf @ crlf) (s @ t)")
    case (Some n)
    have "\<not> n + 4 \<le> length s"
    proof
      assume "n + 4 \<le> length s"
      then have "n + length (crlf @ crlf) \<le> length s" by (simp add: crlf_def)
      from find_sub_inside [OF Some this] None show False by simp
    qed
    with Some big show ?thesis by (simp add: header_end_def)
  qed (use big in \<open>simp add: header_end_def\<close>)
qed

lemma header_end_fits: "header_end s = Some (Inr n) \<Longrightarrow> n \<le> length s \<and> n \<le> max_header_bytes"
  using find_sub_fits [of "crlf @ crlf" s]
  by (auto simp: header_end_def crlf_def split: option.splits if_splits)

lemma read_headers_Cons:
  "header_end bs = None \<Longrightarrow> d \<noteq> [] \<Longrightarrow> read_headers bs (Received d # cs) = read_headers (bs @ d) cs"
  by simp

lemma read_headers_spec:
  assumes "steady cs"
  shows "(case header_end (bs @ sent cs) of
      None \<Rightarrow> read_headers bs cs = Inl closed_in_headers
    | Some (Inl e) \<Rightarrow> read_headers bs cs = Inl e
    | Some (Inr n) \<Rightarrow> \<exists>bs' rest. read_headers bs cs = Inr (bs', n, rest) \<and> steady rest \<and>
        bs' @ sent rest = bs @ sent cs \<and> n \<le> length bs')"
  using assms
proof (induction bs cs rule: read_headers.induct)
  case (1 bs)
  then show ?case using header_end_fits [of bs] by (auto split: option.split sum.split)
next
  case (2 bs c cs)
  from 2(2) obtain d where c: "c = Received d" "d \<noteq> []" "steady cs" by (cases c) auto
  show ?case
  proof (cases "header_end bs")
    case None
    from 2(1) [OF None c(1,2,3)] show ?thesis
      unfolding c(1) read_headers_Cons [OF None c(2)] sent.simps append_assoc .
  next
    case (Some r)
    from header_end_append [OF Some, of "sent (c # cs)"] header_end_fits [of bs] Some 2(2)
    show ?thesis by (cases r) auto
  qed
qed

lemma read_rest_spec:
  assumes "steady cs"
  shows "if length (body @ sent cs) < n then read_rest n body cs = Inl closed_in_body
    else \<exists>b rest. read_rest n body cs = Inr (b, rest) \<and> b @ sent rest = body @ sent cs \<and> n \<le> length b"
  using assms
proof (induction n body cs rule: read_rest.induct)
  case (2 n body c cs)
  from 2(2) obtain d where c: "c = Received d" "d \<noteq> []" "steady cs" by (cases c) auto
  show ?case
  proof (cases "length body < n")
    case True
    then have step: "read_rest n body (Received d # cs) = read_rest n (body @ d) cs" using c(2) by simp
    from 2(1) [OF True c(1,2,3)] show ?thesis
      unfolding c(1) step sent.simps append_assoc .
  next
    case False
    then show ?thesis by simp
  qed
qed (auto simp: closed_in_body_def)

lemma parse_head_take:
  assumes "n \<le> length a"
  shows "parse_head (a @ b) n = map_sum id (\<lambda>h. h\<lparr>hd_received := hd_received h @ b\<rparr>) (parse_head a n)"
proof -
  have "take n (a @ b) = take n a" "drop n (a @ b) = drop n a @ b" using assms by simp_all
  then show ?thesis
    unfolding parse_head_def Let_def by (simp only:) (auto simp: bind_r_def split: sum.split)
qed

lemma read_request_whole:
  assumes "steady cs"
  shows "read_request cs = request_of (sent cs)"
proof (cases "header_end (sent cs)")
  case None
  with read_headers_spec [OF assms, of "[]"] show ?thesis
    by (simp add: read_request_def read_head_def request_of_def)
next
  case (Some r)
  show ?thesis
  proof (cases r)
    case (Inl e)
    with Some read_headers_spec [OF assms, of "[]"] show ?thesis
      by (simp add: read_request_def read_head_def request_of_def)
  next
    case (Inr n)
    with Some read_headers_spec [OF assms, of "[]"] obtain bs rest where
      rh: "read_headers [] cs = Inr (bs, n, rest)" and "steady rest"
      and whole: "sent cs = bs @ sent rest" and n: "n \<le> length bs" by auto
    note parse = parse_head_take [OF n, of "sent rest"]
    show ?thesis
    proof (cases "parse_head bs n")
      case (Inl e)
      with rh parse Some \<open>r = Inr n\<close> show ?thesis
        by (simp add: read_request_def read_head_def request_of_def whole)
    next
      case (Inr h)
      from read_rest_spec [OF \<open>steady rest\<close>, of "hd_received h" "hd_content_length h"] Inr rh parse Some \<open>r = Inr n\<close>
      show ?thesis
        by (auto simp: read_request_def read_head_def request_of_def whole read_body_def
            wants_continue_def split: if_splits)
           (metis append_eq_conv_conj take_append take_all_iff diff_is_0_eq take_0 append_Nil2 length_append)+
    qed
  qed
qed

section \<open>What an accepted head guarantees\<close>

text \<open>Text in which no line can end.\<close>

abbreviation one_line :: "string \<Rightarrow> bool" where
  "one_line s \<equiv> find_sub crlf s = None"

lemma crlf_nonempty [simp]: "crlf \<noteq> []"
  by (simp add: crlf_def)

definition safe_headers :: "(string \<times> string) list \<Rightarrow> bool" where
  "safe_headers hs \<longleftrightarrow> (\<forall>e \<in> set hs. one_line (snd e))"

lemma add_header_safe:
  assumes "one_line l" and "safe_headers hs"
  shows "safe_headers (add_header l hs)"
proof (cases "split_once CHR '':'' l")
  case None
  with assms show ?thesis by (simp add: add_header_def)
next
  case (Some nv)
  obtain n v where nv: "nv = (n, v)" by (cases nv)
  from Some have "l = (n @ [CHR '':'']) @ v" by (simp add: nv split_once_Some_iff)
  moreover obtain a b where "v = a @ trim v @ b" using trim_infix by blast
  ultimately have "l = ((n @ [CHR '':'']) @ a) @ trim v @ b" by (metis append.assoc)
  with assms(1) have "one_line (trim v)" using find_sub_infix by metis
  moreover have "safe_headers (map_remove k hs)" for k
    using assms(2) by (auto simp: safe_headers_def map_remove_def)
  ultimately have "safe_headers ((k, trim v) # map_remove k hs)" for k by (simp add: safe_headers_def)
  then show ?thesis using Some assms(2) by (simp add: add_header_def nv Let_def)
qed

lemma header_map_safe: "\<forall>l \<in> set ls. one_line l \<Longrightarrow> safe_headers (header_map ls)"
proof -
  have "\<forall>l \<in> set ls. one_line l \<Longrightarrow> safe_headers hs \<Longrightarrow> safe_headers (fold add_header ls hs)" for hs
    by (induction ls arbitrary: hs) (simp_all add: add_header_safe)
  moreover have "safe_headers []" by (simp add: safe_headers_def)
  ultimately show "\<forall>l \<in> set ls. one_line l \<Longrightarrow> safe_headers (header_map ls)"
    unfolding header_map_def by blast
qed

lemma parse_head_Inr:
  assumes "parse_head bs n = Inr h"
  shows "hd_method h \<noteq> [] \<and> CHR ''?'' \<notin> set (hd_path h) \<and> hd_received h = drop n bs \<and>
    body_length (hd_headers h) = Inr (hd_content_length h) \<and>
    safe_headers (hd_headers h)"
proof -
  let ?lines = "split_all crlf (from_utf8_lossy (take n bs))"
  let ?hs = "header_map (tl ?lines)"
  have lines: "\<forall>l \<in> set (tl ?lines). one_line l"
    using split_all_no_sep [OF crlf_nonempty] list.set_sel(2) [of ?lines]
    by (cases "?lines = []") auto
  have "safe_headers ?hs" by (rule header_map_safe [OF lines])
  moreover have "CHR ''?'' \<notin> set (hd (split_on CHR ''?'' t))" for t :: string
    using split_on_no_sep [of "hd (split_on CHR ''?'' t)" "CHR ''?''" t] by simp
  moreover obtain len where "body_length ?hs = Inr len"
    and "nth_or_empty (split_whitespace (hd ?lines)) 0 \<noteq> []"
    and "h = \<lparr>hd_method = nth_or_empty (split_whitespace (hd ?lines)) 0,
      hd_path = hd (split_on CHR ''?'' (nth_or_empty (split_whitespace (hd ?lines)) 1)), hd_headers = ?hs,
      hd_content_length = len, hd_received = drop n bs\<rparr>"
    using assms unfolding parse_head_def Let_def bind_r_Inr_iff
    by (simp add: bind_r_Inr_iff del: One_nat_def split: if_split_asm) blast
  ultimately show ?thesis by simp
qed

lemma body_length_Inr:
  "body_length hs = Inr n \<Longrightarrow> n \<le> max_body \<and> map_of hs ''transfer-encoding'' = None \<and>
   (case map_of hs ''content-length'' of None \<Rightarrow> n = 0 | Some v \<Rightarrow> parse_unsigned (2 ^ 64) v = Some n)"
  by (auto simp: body_length_def bind_r_Inr_iff split: if_splits option.splits)

lemma split_line:
  assumes "one_line w"
  shows "split_all crlf (w @ crlf @ rest) = w # split_all crlf rest"
proof -
  have "find_sub crlf (w @ crlf @ rest) = Some (length w)"
    using assms
  proof (induction w)
    case (Cons x w)
    have "\<not> prefix crlf (x # w)" using Cons.prems by (auto simp: starts_with_iff split: if_splits)
    then have "\<not> prefix crlf (x # w @ crlf @ rest)"
      by (cases w) (auto simp: crlf_def)
    moreover have "find_sub crlf w = None" using Cons.prems by (simp split: if_splits)
    ultimately show ?case using Cons.IH by (simp add: starts_with_iff)
  qed (simp add: crlf_def starts_with_def)
  then show ?thesis by (subst split_all.simps) (simp add: split_sub_def)
qed

lemma split_last: "one_line w \<Longrightarrow> split_all crlf w = [w]"
  by (subst split_all.simps) (simp add: split_sub_def)

lemma literal_line: "CHR 0x0D \<notin> set w \<Longrightarrow> one_line w"
  by (rule find_sub_absent) (simp_all add: crlf_def)

section \<open>How much is read\<close>

definition small :: "read_result list \<Rightarrow> bool" where
  "small cs \<longleftrightarrow> (\<forall>c \<in> set cs. case c of Received d \<Rightarrow> length d \<le> 8192 | ReadFailed _ \<Rightarrow> True)"

lemma header_end_None_length: "header_end bs = None \<Longrightarrow> length bs \<le> max_header_bytes"
  by (auto simp: header_end_def split: option.splits if_splits)

lemma read_headers_consumes:
  assumes "read_headers bs cs = Inr (bs', n, rest)" and "small cs"
    and "length bs \<le> max_header_bytes + 8192"
  shows "\<exists>used. cs = used @ rest \<and> bs' = bs @ sent used \<and> length bs' \<le> max_header_bytes + 8192 \<and>
    header_end bs' = Some (Inr n)"
  using assms
proof (induction bs cs rule: read_headers.induct)
  case (1 bs)
  then show ?case by (auto split: option.splits sum.splits)
next
  case (2 bs c cs)
  show ?case
  proof (cases "header_end bs")
    case None
    with 2(2) obtain d where c: "c = Received d" "d \<noteq> []" by (cases c) (auto split: if_splits)
    have len: "length (bs @ d) \<le> max_header_bytes + 8192"
      using header_end_None_length [OF None] 2(3) by (simp add: c small_def)
    have "read_headers (bs @ d) cs = Inr (bs', n, rest)" "small cs"
      using 2(2,3) None c by (auto simp: small_def)
    from 2(1) [OF None c(1,2) this len] obtain used where
      "cs = used @ rest" "bs' = (bs @ d) @ sent used" "length bs' \<le> max_header_bytes + 8192"
      "header_end bs' = Some (Inr n)" by blast
    then show ?thesis by (intro exI [of _ "c # used"]) (simp add: c)
  next
    case (Some r)
    with 2(2,4) show ?thesis by (cases r) auto
  qed
qed

lemma read_rest_consumes:
  assumes "read_rest n body cs = Inr (b, rest)" and "small cs"
  shows "\<exists>used. cs = used @ rest \<and> b = body @ sent used \<and> n \<le> length b \<and>
    length b \<le> max (length body) (n + 8192)"
  using assms
proof (induction n body cs rule: read_rest.induct)
  case (1 n body)
  then show ?case by (auto split: if_splits)
next
  case (2 n body c cs)
  show ?case
  proof (cases "length body < n")
    case True
    with 2(2) obtain d where c: "c = Received d" "d \<noteq> []" by (cases c) (auto split: if_splits)
    have "read_rest n (body @ d) cs = Inr (b, rest)" "small cs" "length d \<le> 8192"
      using 2(2,3) True c by (auto simp: small_def)
    with 2(1) [OF True c(1,2)] obtain used where
      "cs = used @ rest" "b = (body @ d) @ sent used" "n \<le> length b"
      "length b \<le> max (length (body @ d)) (n + 8192)" by blast
    with True \<open>length d \<le> 8192\<close> show ?thesis by (intro exI [of _ "c # used"]) (simp add: c)
  next
    case False
    with 2(2) show ?thesis by simp
  qed
qed

section \<open>Properties\<close>

text \<open>C18. How the network cuts a request into reads does not matter. For every sequence of non-empty
  reads the request read head first and body second is the one that the bytes themselves determine,
  and so is the error.\<close>

theorem request_chunking_irrelevant:
  assumes "steady cs"
  shows "read_request cs = request_of (sent cs)"
  using assms by (rule read_request_whole)

theorem request_chunking_irrelevant_witness:
  "read_request [Received ''GE'', Received ''T''] = request_of ''GET''"
  using request_chunking_irrelevant [of "[Received ''GE'', Received ''T'']"] by simp

text \<open>A request that is read was checked first and cost little memory. The headers take at most
  64 KiB and reading them buffers at most one read more; the body has exactly the announced length,
  at most 32 MiB, and reading it buffers at most one read more; a transfer encoding is never
  accepted, the length comes from a well-formed header alone, and method and path are never empty
  or followed by a query.\<close>

lemma request_reading_bounded:
  assumes "read_head t1 cs = Inr (h, rest)" and "read_body t2 w h rest = Inr (r, rest')" and "small cs"
  shows "\<exists>used used'. cs = used @ used' @ rest' \<and>
    length (sent used) \<le> 64 * 1024 + 8192 \<and>
    length (sent used) + length (sent used') \<le> 64 * 1024 + 8192 + 32 * 1024 * 1024 + 8192 \<and>
    length (rq_body r) = hd_content_length h \<and> length (rq_body r) \<le> 32 * 1024 * 1024 \<and>
    map_of (rq_headers r) ''transfer-encoding'' = None \<and>
    (case map_of (rq_headers r) ''content-length'' of
       None \<Rightarrow> rq_body r = [] | Some v \<Rightarrow> parse_unsigned (2 ^ 64) v = Some (length (rq_body r))) \<and>
    rq_method r \<noteq> [] \<and> CHR ''?'' \<notin> set (rq_path r)"
proof -
  from assms(1) obtain bs n where rh: "read_headers [] cs = Inr (bs, n, rest)"
    and ph: "parse_head bs n = Inr h"
    by (auto simp: read_head_def bind_r_Inr_iff split: if_splits)
  from read_headers_consumes [OF rh assms(3)] obtain used where
    cs: "cs = used @ rest" and bs: "bs = sent used" "length bs \<le> max_header_bytes + 8192" by auto
  from assms(2) obtain b where rr: "read_rest (hd_content_length h) (hd_received h) rest = Inr (b, rest')"
    and r: "r = \<lparr>rq_method = hd_method h, rq_path = hd_path h, rq_headers = hd_headers h,
      rq_body = take (hd_content_length h) b\<rparr>"
    by (auto simp: read_body_def bind_r_Inr_iff split: if_splits option.splits)
  from assms(3) cs have "small rest" by (simp add: small_def)
  from read_rest_consumes [OF rr this] obtain used' where
    rest: "rest = used' @ rest'" and b: "b = hd_received h @ sent used'" "hd_content_length h \<le> length b"
      "length b \<le> max (length (hd_received h)) (hd_content_length h + 8192)" by blast
  note head = parse_head_Inr [OF ph]
  note len = body_length_Inr [OF head [THEN conjunct2, THEN conjunct2, THEN conjunct2, THEN conjunct1]]
  have recv: "length (hd_received h) \<le> length bs" using head by simp
  have body: "length (rq_body r) = hd_content_length h" using b(2) by (simp add: r)
  have "length (sent used') \<le> hd_content_length h + 8192"
    using b(1,3) by simp
  with cs rest bs head len recv body show ?thesis
    by (intro exI [of _ used] exI [of _ used'])
       (auto simp: r max_body_def max_header_bytes_def split: option.splits)
qed

definition demo_request :: bytes where
  "demo_request = ''GET /v1'' @ crlf @ crlf"

lemma lossy_ascii: "list_all (\<lambda>c. code c < 128) s \<Longrightarrow> from_utf8_lossy s = s"
  by (induction s) (simp_all add: utf8_chunk_def)

lemma words_from_graphic: "graphic c \<Longrightarrow> words_from acc (c # cs) = words_from (c # acc) cs"
  using ws_chars_ends
  by (simp add: first_strip_graphic list_all_iff)

lemma words_from_blank: "words_from acc (CHR '' '' # cs) = rev acc # words_from [] cs"
proof -
  have "first_strip ws_chars (CHR '' '' # cs) = Some cs"
    by (simp add: ws_chars_def ws_encodings_def char_of_def bit_0)
  then show ?thesis by simp
qed

lemma demo_request_head:
  "read_head False [Received demo_request] =
     Inr (\<lparr>hd_method = ''GET'', hd_path = ''/v1'', hd_headers = [], hd_content_length = 0, hd_received = []\<rparr>, [])"
proof -
  have at: "header_end demo_request = Some (Inr 11)"
    by (simp add: header_end_def demo_request_def crlf_def starts_with_def max_header_bytes_def)
  have ascii: "from_utf8_lossy demo_request = demo_request"
    by (rule lossy_ascii) (simp add: demo_request_def crlf_def code_def)
  have lines: "split_all crlf demo_request = [''GET /v1'', [], []]"
  proof -
    have "split_all crlf demo_request = ''GET /v1'' # split_all crlf crlf"
      unfolding demo_request_def by (rule split_line [OF literal_line]) simp
    moreover have "split_all crlf crlf = [[], []]"
      using split_line [of "[]" "[]"] split_last [of "[]"] by (simp add: crlf_def)
    ultimately show ?thesis by simp
  qed
  have ws: "split_whitespace ''GET /v1'' = [''GET'', ''/v1'']"
    by (simp add: split_whitespace_def words_from_graphic words_from_blank graphic_def code_def del: words_from.simps(2))
  have "length demo_request = 11" by (simp add: demo_request_def crlf_def)
  then have "parse_head demo_request 11 =
      Inr \<lparr>hd_method = ''GET'', hd_path = ''/v1'', hd_headers = [], hd_content_length = 0, hd_received = []\<rparr>"
    by (simp add: parse_head_def ascii lines ws nth_or_empty_def header_map_def add_header_def body_length_def)
  moreover have "read_headers [] [Received demo_request] = Inr (demo_request, 11, [])"
    using at by (simp add: header_end_def [of "[]"] demo_request_def crlf_def)
  ultimately show ?thesis by (simp add: read_head_def)
qed

theorem request_reading_bounded_witness:
  "\<exists>r rest. read_body False None \<lparr>hd_method = ''GET'', hd_path = ''/v1'', hd_headers = [], hd_content_length = 0,
       hd_received = []\<rparr> [] = Inr (r, rest) \<and> length (rq_body r) \<le> 32 * 1024 * 1024"
proof -
  let ?h = "\<lparr>hd_method = ''GET'', hd_path = ''/v1'', hd_headers = [], hd_content_length = 0, hd_received = []\<rparr>"
  have body: "read_body False None ?h [] =
      Inr (\<lparr>rq_method = ''GET'', rq_path = ''/v1'', rq_headers = [], rq_body = []\<rparr>, [])"
    by (simp add: read_body_def wants_continue_def)
  have "small [Received demo_request]" by (simp add: small_def demo_request_def crlf_def)
  from request_reading_bounded [OF demo_request_head body this] body show ?thesis by auto
qed

text \<open>C38. A request that is refused is refused with one of four statuses, on the head alone when the
  head is at fault. A malformed request line or length, a transfer encoding, an oversized body and
  oversized headers are answered whatever body follows, and nothing of that body is waited for.\<close>

theorem refusal_needs_no_body:
  assumes "steady cs" and "steady cs'" and "header_end (sent cs) = Some r"
    and "case r of Inl _ \<Rightarrow> True | Inr n \<Rightarrow> parse_head (sent cs) n = Inl e"
    and "sent cs' = sent cs @ extra"
  shows "\<exists>err. read_head False cs = Inl err \<and> read_head False cs' = Inl err \<and>
    (ae_status err, ae_code err) \<in> {(400, ''invalid_request''), (411, ''length_required''),
      (413, ''request_too_large''), (431, ''headers_too_large'')} \<and>
    read_request cs' = Inl err"
proof -
  have codes: "(ae_status err, ae_code err) \<in> {(400, ''invalid_request''), (411, ''length_required''),
      (413, ''request_too_large''), (431, ''headers_too_large'')}"
    if "parse_head bs n = Inl err" for bs n err
    using that unfolding parse_head_def Let_def
    by (auto simp: bind_r_def body_length_def bad_request_def api_error_new_def length_required_def
        too_large_body_def ok_or_def split: if_split_asm sum.split_asm option.split_asm)
  show ?thesis
  proof (cases r)
    case (Inl err)
    then have "err = headers_too_large" using assms(3) by (auto simp: header_end_def split: option.splits if_splits)
    moreover have "read_headers [] cs = Inl err" "read_headers [] cs' = Inl err"
      using read_headers_spec [OF assms(1), of "[]"] read_headers_spec [OF assms(2), of "[]"]
        header_end_append [OF assms(3), of extra] assms(3,5) Inl by simp_all
    ultimately show ?thesis
      by (simp add: read_head_def read_request_def headers_too_large_def api_error_new_def)
  next
    case (Inr n)
    have fail: "read_head False ds = Inl e" if "steady ds" "sent ds = sent cs @ ds_tail" for ds ds_tail
    proof -
      have "header_end (sent ds) = Some (Inr n)"
        using header_end_append [OF assms(3), of ds_tail] that Inr by simp
      with read_headers_spec [OF that(1), of "[]"] obtain bs rest where
        rh: "read_headers [] ds = Inr (bs, n, rest)" and b: "bs @ sent rest = sent ds" "n \<le> length bs" by auto
      have "n \<le> length (sent cs)" using header_end_fits assms(3) Inr by blast
      then have "take n bs = take n (sent cs)" using b that(2) by (metis take_append diff_is_0_eq take_0 append_Nil2)
      then have "parse_head bs n = Inl e \<longleftrightarrow> parse_head (sent cs) n = Inl e"
        unfolding parse_head_def Let_def by (auto simp: bind_r_def split: sum.splits)
      with rh assms(4) Inr show ?thesis by (simp add: read_head_def)
    qed
    from fail [OF assms(1), of "[]"] fail [OF assms(2,5)] codes assms(4) Inr show ?thesis
      by (auto simp: read_request_def)
  qed
qed

theorem refusal_needs_no_body_witness:
  "read_head False [Received (crlf @ crlf)] = Inl (bad_request ''malformed request line'') \<and>
   read_request [Received (crlf @ crlf), Received ''body''] = Inl (bad_request ''malformed request line'')"
proof -
  let ?cs = "[Received (crlf @ crlf)]"
  let ?cs' = "[Received (crlf @ crlf), Received ''body'']"
  let ?e = "bad_request ''malformed request line''"
  have at: "header_end (sent ?cs) = Some (Inr 4)"
    by (simp add: header_end_def crlf_def max_header_bytes_def starts_with_def)
  have ascii: "from_utf8_lossy (crlf @ crlf) = crlf @ crlf"
    by (rule lossy_ascii) (simp add: crlf_def code_def)
  have "split_all crlf (crlf @ crlf) = [] # split_all crlf crlf"
    using split_line [of "[]" crlf] by (simp add: crlf_def)
  then have ph: "parse_head (sent ?cs) 4 = Inl ?e"
    using ascii by (simp add: parse_head_def Let_def split_whitespace_def nth_or_empty_def crlf_def)
  have "\<exists>err. read_head False ?cs = Inl err \<and> read_head False ?cs' = Inl err \<and>
    (ae_status err, ae_code err) \<in> {(400, ''invalid_request''), (411, ''length_required''),
      (413, ''request_too_large''), (431, ''headers_too_large'')} \<and> read_request ?cs' = Inl err"
    by (rule refusal_needs_no_body [of ?cs ?cs' "Inr 4" ?e "''body''"]) (simp_all add: at ph del: sent.simps, simp_all)
  moreover have "read_head False ?cs = Inl ?e"
  proof -
    have "read_headers [] ?cs = Inr (crlf @ crlf, 4, [])"
      using at by (simp add: header_end_def [of "[]"] crlf_def)
    then show ?thesis using ph by (simp add: read_head_def)
  qed
  ultimately show ?thesis by auto
qed

lemma allowed_origin_one_line: "allowed_origin hs = Some v \<Longrightarrow> one_line v"
  by (auto simp: allowed_origin_def is_allowed_origin_def intro!: literal_line split: option.splits if_splits)

lemma one_line_prefix:
  assumes "CHR 0x0D \<notin> set p" and "one_line v"
  shows "one_line (p @ v)"
  using assms by (induction p) (simp_all add: starts_with_def crlf_def)

text \<open>A preflight answer cannot be split by what the client sends. For every head that was read,
  the answer echoes the requested header names without any sanitising, and split at CRLF it is exactly its
  intended lines, each of them one line: a client cannot add a header or a body to it.\<close>

lemma preflight_not_split:
  assumes "read_head t cs = Inr (h, rest)"
  shows "split_all crlf (preflight_response (hd_headers h)) =
    [''HTTP/1.1 204 No Content''] @
    (case allowed_origin (hd_headers h) of None \<Rightarrow> []
     | Some v \<Rightarrow> [''Access-Control-Allow-Origin: '' @ v, ''Vary: Origin'',
         ''Access-Control-Allow-Methods: GET, POST, DELETE, OPTIONS'',
         ''Access-Control-Allow-Headers: '' @ requested_headers (hd_headers h),
         ''Access-Control-Max-Age: 600'']) @
    [''Content-Length: 0'', ''Connection: close'', [], []]"
proof -
  from assms obtain bs n where "parse_head bs n = Inr h"
    by (auto simp: read_head_def bind_r_Inr_iff split: if_splits)
  then have "safe_headers (hd_headers h)" using parse_head_Inr by blast
  then have held: "one_line v" if "map_of (hd_headers h) k = Some v" for k v
    using map_of_SomeD [OF that] by (auto simp: safe_headers_def)
  have "one_line ''authorization, content-type, x-api-key, anthropic-version''"
    by (rule literal_line) simp
  with held have "one_line (requested_headers (hd_headers h))"
    unfolding requested_headers_def by (cases "map_of (hd_headers h) ''access-control-request-headers''") simp_all
  then have asked: "one_line (''Access-Control-Allow-Headers: '' @ requested_headers (hd_headers h))"
    by (rule one_line_prefix [rotated]) simp
  have ends: "one_line ''Content-Length: 0''" "one_line ''Connection: close''"
    by (rule literal_line, simp)+
  have "split_all crlf crlf = [[], []]"
    using split_line [of "[]" "[]"] split_last [of "[]"] by (simp add: crlf_def)
  moreover have "split_all crlf (crlf @ crlf) = [] # split_all crlf crlf"
    using split_line [of "[]" crlf] by (simp add: crlf_def)
  ultimately have tail: "split_all crlf (''Content-Length: 0'' @ crlf @ ''Connection: close'' @ crlf @ crlf) =
      [''Content-Length: 0'', ''Connection: close'', [], []]"
    unfolding split_line [OF ends(1)] split_line [OF ends(2)] by simp
  show ?thesis
  proof (cases "allowed_origin (hd_headers h)")
    case None
    have "split_all crlf (preflight_response (hd_headers h)) =
        ''HTTP/1.1 204 No Content'' #
        split_all crlf (''Content-Length: 0'' @ crlf @ ''Connection: close'' @ crlf @ crlf)"
      unfolding preflight_response_def None option.case append_Nil
      by (rule split_line [OF literal_line]) simp
    with None tail show ?thesis by simp
  next
    case (Some v)
    have origin: "one_line (''Access-Control-Allow-Origin: '' @ v)"
      using allowed_origin_one_line [OF Some] by (rule one_line_prefix [rotated]) simp
    note lines = split_line [OF origin, unfolded append_assoc] split_line [OF asked, unfolded append_assoc]
    have fixed: "one_line ''HTTP/1.1 204 No Content''" "one_line ''Vary: Origin''"
      "one_line ''Access-Control-Allow-Methods: GET, POST, DELETE, OPTIONS''"
      "one_line ''Access-Control-Max-Age: 600''" by (rule literal_line, simp)+
    show ?thesis
      unfolding preflight_response_def Some option.case append_assoc
      unfolding split_line [OF fixed(1)] lines split_line [OF fixed(2)] split_line [OF fixed(3)]
        split_line [OF fixed(4)] tail by simp
  qed
qed

theorem preflight_not_split_witness:
  "last (split_all crlf (preflight_response [])) = []"
  using preflight_not_split [OF demo_request_head] by simp

end
