(* ===== verification/Multipart.thy ===== *)
theory Multipart
  imports Http
begin

text \<open>
  Audio forms, \<open>src-tauri/src/gateway/multipart.rs\<close>: parsing a \<open>multipart/form-data\<close> upload within
  fixed limits, and encoding the adapted form for the selected model process.

  The cursor into the upload is the list of the bytes that follow it. A \<open>Map\<close> of \<open>serde_json\<close> is
  ordered by key: an association list with increasing keys. The text of a JSON value that is not
  a string comes from \<open>serde_json\<close> and is a parameter of the encoder, as is the fresh boundary of
  a form made from converted audio. \<open>Panicked\<close> marks the two places where the code would panic.
\<close>

section \<open>Header parameters\<close>

datatype form_error = Refused string | Panicked

text \<open>The text since the last separator is collected in reverse.\<close>

fun scan_parameters :: "string \<Rightarrow> bool \<Rightarrow> bool \<Rightarrow> string \<Rightarrow> form_error + string list" where
  "scan_parameters acc quoted escaped [] =
     (if quoted \<or> escaped then Inl (Refused ''malformed multipart parameter'')
      else Inr [trim (rev acc)])"
| "scan_parameters acc quoted escaped (c # cs) =
     (if escaped then scan_parameters (c # acc) quoted False cs
      else if quoted \<and> c = CHR 0x5C then scan_parameters (c # acc) quoted True cs
      else if c = CHR 0x22 then scan_parameters (c # acc) (\<not> quoted) escaped cs
      else if c = CHR '';'' \<and> \<not> quoted
        then bind_r (scan_parameters [] quoted escaped cs) (\<lambda>ps. Inr (trim (rev acc) # ps))
      else scan_parameters (c # acc) quoted escaped cs)"

definition parameters :: "string \<Rightarrow> form_error + string list" where
  "parameters value = scan_parameters [] False False value"

fun unescape :: "string \<Rightarrow> form_error + string" where
  "unescape [] = Inr []"
| "unescape (c # cs) =
     (if c = CHR 0x5C then
        (case cs of
           [] \<Rightarrow> Inl (Refused ''malformed parameter escape'')
         | d # ds \<Rightarrow> bind_r (unescape ds) (\<lambda>r. Inr (d # r)))
      else bind_r (unescape cs) (\<lambda>r. Inr (c # r)))"

definition parameter_value :: "string \<Rightarrow> form_error + string" where
  "parameter_value v =
     (case strip_prefix [CHR 0x22] v of
        Some inner \<Rightarrow>
          bind_r (ok_or (Refused ''malformed quoted parameter'') (strip_suffix [CHR 0x22] inner)) unescape
      | None \<Rightarrow> Inr v)"

fun find_parameter :: "string \<Rightarrow> string option \<Rightarrow> string list \<Rightarrow> form_error + string option" where
  "find_parameter k found [] = Inr found"
| "find_parameter k found (p # ps) =
     (case split_once CHR ''='' p of
        None \<Rightarrow> Inl (Refused ''malformed multipart parameter'')
      | Some (n, v) \<Rightarrow>
          if \<not> eq_ignore_ascii_case (trim n) k then find_parameter k found ps
          else if found \<noteq> None then Inl (Refused (''duplicate multipart '' @ k))
          else bind_r (parameter_value (trim v)) (\<lambda>r. find_parameter k (Some r) ps))"

definition parameter :: "string list \<Rightarrow> string \<Rightarrow> form_error + string option" where
  "parameter parts k = find_parameter k None (drop 1 parts)"

text \<open>\<open>parts[0]\<close>.\<close>

definition first_part :: "string list \<Rightarrow> form_error + string" where
  "first_part parts = (case parts of [] \<Rightarrow> Inl Panicked | p # _ \<Rightarrow> Inr p)"

section \<open>The form\<close>

record audio_form =
  af_boundary :: string
  af_file_headers :: bytes
  af_file :: bytes
  af_fields :: "(string \<times> json) list"

definition max_parts :: nat where "max_parts = 32"
definition max_part_headers :: nat where "max_part_headers = 8192"
definition max_text_bytes :: nat where "max_text_bytes = 64 * 1024"

definition boundary_ok :: "string \<Rightarrow> bool" where
  "boundary_ok b \<longleftrightarrow> b \<noteq> [] \<and> length b \<le> 70 \<and>
     list_all (\<lambda>c. is_ascii_alphanumeric c \<or> c \<in> set (CHR 0x27 # ''()+_,-./:=?'')) b"

definition name_ok :: "string \<Rightarrow> bool" where
  "name_ok n \<longleftrightarrow> n \<noteq> [] \<and> length n \<le> 128 \<and>
     list_all (\<lambda>c. is_ascii_alphanumeric c \<or> c \<in> set ''_[]'') n"

definition first_line :: "string \<Rightarrow> bytes" where
  "first_line b = ''--'' @ b @ crlf"

definition marker :: "string \<Rightarrow> bytes" where
  "marker b = crlf @ ''--'' @ b"

section \<open>Parsing\<close>

fun find_disposition :: "string list option \<Rightarrow> string list \<Rightarrow> form_error + string list option" where
  "find_disposition found [] = Inr found"
| "find_disposition found (l # ls) =
     (case split_once CHR '':'' l of
        None \<Rightarrow> Inl (Refused ''malformed multipart part header'')
      | Some (k, v) \<Rightarrow>
          if eq_ignore_ascii_case k ''content-disposition'' then
            (if found \<noteq> None then Inl (Refused ''duplicate multipart disposition'')
             else bind_r (parameters (trim v)) (\<lambda>ps. find_disposition (Some ps) ls))
          else find_disposition found ls)"

definition disposition_of :: "bytes \<Rightarrow> form_error + string list" where
  "disposition_of headers =
     bind_r (ok_or (Refused ''multipart headers are not UTF-8'') (from_utf8 headers)) (\<lambda>text1.
     bind_r (find_disposition None (split_all crlf text1)) (\<lambda>found.
     bind_r (ok_or (Refused ''multipart disposition is missing'') found) (\<lambda>ps.
     bind_r (first_part ps) (\<lambda>p.
     if \<not> eq_ignore_ascii_case p ''form-data''
     then Inl (Refused ''multipart disposition must be form-data'')
     else Inr ps))))"

definition field_name :: "string list \<Rightarrow> form_error + string" where
  "field_name ps =
     bind_r (parameter ps ''name'') (\<lambda>found.
     bind_r (ok_or (Refused ''multipart field name is missing'') found) (\<lambda>n.
     if name_ok n then Inr n else Inl (Refused ''invalid multipart field name'')))"

abbreviation stamps :: string where "stamps \<equiv> ''timestamp_granularities''"
abbreviation stamps_field :: string where "stamps_field \<equiv> ''timestamp_granularities[]''"

text \<open>Where the value ends: at the first marker that a line break or the closing dashes follow.\<close>

function part_end :: "string \<Rightarrow> bytes \<Rightarrow> nat option" where
  "part_end b rest =
     (case find_sub (marker b) rest of
        None \<Rightarrow> None
      | Some n \<Rightarrow>
          (let s = drop (n + length (marker b)) rest
           in if starts_with crlf s \<or> starts_with ''--'' s then Some n
              else map_option (\<lambda>m. n + length (marker b) + m) (part_end b s)))"
  by pat_completeness auto
termination
proof (relation "measure (\<lambda>(b, rest). length rest)")
  fix b rest n s
  assume "find_sub (marker b) rest = Some n" and "s = drop (n + length (marker b)) rest"
  moreover from this(1) have "n + length (marker b) \<le> length rest" by (rule find_sub_fits)
  ultimately show "((b, s), (b, rest)) \<in> measure (\<lambda>(b, rest). length rest)"
    by (simp add: marker_def crlf_def)
qed simp

declare part_end.simps [simp del]

record part_state =
  ps_fields :: "(string \<times> json) list"
  ps_names :: "string list"
  ps_file :: "bytes option"
  ps_file_headers :: "bytes option"

definition push_stamp :: "string \<Rightarrow> (string \<times> json) list \<Rightarrow> form_error + (string \<times> json) list" where
  "push_stamp v flds =
     (case map_of flds stamps of
        None \<Rightarrow> Inr (map_insert stamps (JArr [JStr v]) flds)
      | Some (JArr vs) \<Rightarrow> Inr (map_insert stamps (JArr (vs @ [JStr v])) flds)
      | Some _ \<Rightarrow> Inl Panicked)"

definition add_text :: "string \<Rightarrow> string \<Rightarrow> (string \<times> json) list \<Rightarrow> form_error + (string \<times> json) list" where
  "add_text name v flds =
     (if name = stamps_field then push_stamp v flds
      else if name = stamps then Inl (Refused ''use timestamp_granularities[] for timestamp fields'')
      else Inr (map_insert name (JStr v) flds))"

definition store_part ::
  "string list \<Rightarrow> string \<Rightarrow> bytes \<Rightarrow> bytes \<Rightarrow> part_state \<Rightarrow> form_error + part_state" where
  "store_part disposition name headers value st =
     bind_r (parameter disposition ''filename'') (\<lambda>filename.
     if name = ''file'' then
       (if filename = None \<or> value = []
        then Inl (Refused ''audio file must have a filename and nonempty content'')
        else Inr (st\<lparr>ps_file := Some value, ps_file_headers := Some headers\<rparr>))
     else if filename \<noteq> None \<or> length value > max_text_bytes
       then Inl (Refused ''audio form text field is a file or exceeds its size limit'')
     else
       bind_r (ok_or (Refused ''audio form field is not UTF-8'') (from_utf8 value)) (\<lambda>v.
       bind_r (add_text name v (ps_fields st)) (\<lambda>flds. Inr (st\<lparr>ps_fields := flds\<rparr>))))"

definition header_length :: "bytes \<Rightarrow> nat option" where
  "header_length rest =
     (case find_sub (crlf @ crlf) rest of
        None \<Rightarrow> None | Some n \<Rightarrow> if n \<le> max_part_headers then Some n else None)"

text \<open>One part: the state after it and the bytes after its marker.\<close>

definition parse_part :: "string \<Rightarrow> part_state \<Rightarrow> bytes \<Rightarrow> form_error + (part_state \<times> bytes)" where
  "parse_part b st rest =
     bind_r (ok_or (Refused ''multipart part headers are missing or too large'') (header_length rest)) (\<lambda>n.
     bind_r (disposition_of (take n rest)) (\<lambda>disposition.
     bind_r (field_name disposition) (\<lambda>name.
     if name \<in> set (ps_names st) \<and> name \<noteq> stamps_field
     then Inl (Refused (''duplicate audio form field: '' @ name))
     else
       (let body = drop (n + 4) rest
        in bind_r (ok_or (Refused ''multipart closing boundary is missing'') (part_end b body)) (\<lambda>m.
           bind_r (store_part disposition name (take n rest) (take m body)
               (st\<lparr>ps_names := name # ps_names st\<rparr>)) (\<lambda>st'.
           Inr (st', drop (m + length (marker b)) body)))))))"

fun parse_parts :: "nat \<Rightarrow> string \<Rightarrow> part_state \<Rightarrow> bytes \<Rightarrow> form_error + part_state" where
  "parse_parts 0 b st rest = Inl (Refused ''audio form has too many parts'')"
| "parse_parts (Suc k) b st rest =
     bind_r (parse_part b st rest) (\<lambda>(st', after).
     if starts_with ''--'' after then
       (if drop 2 after \<noteq> [] \<and> drop 2 after \<noteq> crlf
        then Inl (Refused ''unexpected data after multipart closing boundary'')
        else Inr st')
     else parse_parts k b st' (drop 2 after))"

definition no_parts :: part_state where
  "no_parts = \<lparr>ps_fields = [], ps_names = [], ps_file = None, ps_file_headers = None\<rparr>"

definition audio_parse :: "string \<Rightarrow> bytes \<Rightarrow> form_error + audio_form" where
  "audio_parse content_type bs =
     bind_r (parameters content_type) (\<lambda>params.
     bind_r (first_part params) (\<lambda>p.
     if \<not> eq_ignore_ascii_case p ''multipart/form-data''
     then Inl (Refused ''audio requests require multipart/form-data'')
     else
       bind_r (parameter params ''boundary'') (\<lambda>found.
       bind_r (ok_or (Refused ''multipart boundary is missing'') found) (\<lambda>b.
       if \<not> boundary_ok b then Inl (Refused ''invalid multipart boundary'')
       else if \<not> starts_with (first_line b) bs
         then Inl (Refused ''multipart first_line boundary is missing'')
       else
         bind_r (parse_parts max_parts b no_parts (drop (length (first_line b)) bs)) (\<lambda>st.
         bind_r (ok_or (Refused ''audio form file is missing'') (ps_file st)) (\<lambda>file.
         bind_r (ok_or (Refused ''audio form file is missing'') (ps_file_headers st)) (\<lambda>headers.
         Inr \<lparr>af_boundary = b, af_file_headers = headers, af_file = file, af_fields = ps_fields st\<rparr>)))))))"

section \<open>Encoding\<close>

definition form_content_type :: "audio_form \<Rightarrow> string" where
  "form_content_type f = ''multipart/form-data; boundary='' @ af_boundary f"

definition from_audio :: "string \<Rightarrow> string \<Rightarrow> string \<Rightarrow> bytes \<Rightarrow> audio_form" where
  "from_audio uuid filename mime bs =
     \<lparr>af_boundary = ''aiolm'' @ uuid,
      af_file_headers = ''Content-Disposition: form-data; name='' @ [CHR 0x22] @ ''file'' @ [CHR 0x22]
        @ ''; filename='' @ [CHR 0x22] @ filename @ [CHR 0x22] @ crlf @ ''Content-Type: '' @ mime,
      af_file = bs, af_fields = []\<rparr>"

definition text_headers :: "string \<Rightarrow> bytes" where
  "text_headers field =
     ''Content-Disposition: form-data; name='' @ [CHR 0x22] @ field @ [CHR 0x22]"

definition field_values :: "string \<Rightarrow> json \<Rightarrow> form_error + json list" where
  "field_values name value =
     (case value of
        JArr vs \<Rightarrow> if name = stamps then Inr vs
          else Inl (Refused ''audio form contains an invalid adapted field'')
      | JObj _ \<Rightarrow> Inl (Refused ''audio form contains an invalid adapted field'')
      | JNull \<Rightarrow> Inl (Refused ''audio form contains an invalid adapted field'')
      | v \<Rightarrow> Inr [v])"

definition value_text :: "(json \<Rightarrow> string) \<Rightarrow> json \<Rightarrow> string" where
  "value_text render v = (case v of JStr s \<Rightarrow> s | _ \<Rightarrow> render v)"

definition encode_text :: "string \<Rightarrow> string \<Rightarrow> string \<Rightarrow> form_error + bytes" where
  "encode_text b field v =
     (if contains_sub b v then Inl (Refused ''audio text field contains its multipart boundary'')
      else Inr (''--'' @ b @ crlf @ text_headers field @ crlf @ crlf @ v @ crlf))"

definition encode_field :: "(json \<Rightarrow> string) \<Rightarrow> string \<Rightarrow> string \<times> json \<Rightarrow> form_error + bytes" where
  "encode_field render b e =
     bind_r (field_values (fst e) (snd e)) (\<lambda>vs.
     bind_r (traverse_r (\<lambda>v. encode_text b (if fst e = stamps then stamps_field else fst e)
         (value_text render v)) vs) (\<lambda>ps. Inr (concat ps)))"

definition audio_encode :: "(json \<Rightarrow> string) \<Rightarrow> audio_form \<Rightarrow> form_error + bytes" where
  "audio_encode render f =
     bind_r (traverse_r (encode_field render (af_boundary f)) (af_fields f)) (\<lambda>ps.
     Inr (concat ps @ ''--'' @ af_boundary f @ crlf @ af_file_headers f @ crlf @ crlf @ af_file f
          @ crlf @ ''--'' @ af_boundary f @ ''--'' @ crlf))"

section \<open>Where a value ends\<close>

lemma marker_length [simp]: "length (marker b) = 4 + length b"
  by (simp add: marker_def crlf_def)

definition follows :: "bytes \<Rightarrow> bool" where
  "follows s \<longleftrightarrow> starts_with crlf s \<or> starts_with ''--'' s"

lemma follows_append: "2 \<le> length a \<Longrightarrow> follows (a @ s) = follows a"
  by (cases a rule: list.exhaust; cases "tl a") (auto simp: follows_def starts_with_def crlf_def)

lemma part_end_step:
  "part_end b rest =
     (case find_sub (marker b) rest of
        None \<Rightarrow> None
      | Some n \<Rightarrow>
          (if follows (drop (n + length (marker b)) rest) then Some n
           else map_option (\<lambda>m. n + length (marker b) + m)
             (part_end b (drop (n + length (marker b)) rest))))"
  by (subst part_end.simps) (simp add: Let_def follows_def split: option.split)

text \<open>The boundary holds no carriage return, so two markers never overlap.\<close>

lemma marker_no_overlap:
  assumes "CHR 0x0D \<notin> set b" and "prefix (marker b) (drop n (v @ marker b @ s))" and "n < length v"
  shows "n + length (marker b) \<le> length v"
proof (rule ccontr)
  assume over: "\<not> n + length (marker b) \<le> length v"
  define i where "i = length v - n"
  from over assms(3) have i: "0 < i" "i < length (marker b)" by (auto simp: i_def)
  from assms(2) obtain z where z: "drop n (v @ marker b @ s) = marker b @ z" by (auto simp: prefix_def)
  have "marker b ! i = (marker b @ z) ! i" using i by (simp add: nth_append)
  also have "\<dots> = drop n (v @ marker b @ s) ! i" by (simp only: z)
  also have "\<dots> = (v @ marker b @ s) ! (n + i)" by (rule nth_drop) (use assms(3) in simp)
  also have "n + i = length v" using assms(3) by (simp add: i_def)
  also have "(v @ marker b @ s) ! length v = CHR 0x0D" by (simp add: nth_append marker_def crlf_def)
  finally have "CHR 0x0D = tl (marker b) ! (i - 1)"
    using i by (cases "marker b") (simp_all add: marker_def nth_Cons')
  moreover have "i - 1 < length (tl (marker b))" using i by simp
  ultimately have "CHR 0x0D \<in> set (tl (marker b))" by (metis nth_mem)
  then show False using assms(1) by (simp add: marker_def crlf_def)
qed

lemma find_sub_at_most: "prefix p (drop m s) \<Longrightarrow> m \<le> length s \<Longrightarrow> \<exists>n \<le> m. find_sub p s = Some n"
  using find_sub_first [of p s _ m] find_sub_None_iff [of p s]
  by (cases "find_sub p s") (auto simp: not_less [symmetric])

lemma find_marker:
  assumes "CHR 0x0D \<notin> set b"
  obtains (at_end) "find_sub (marker b) (v @ marker b @ s) = Some (length v)"
  | (inside) n where "find_sub (marker b) (v @ marker b @ s) = Some n" and "find_sub (marker b) v = Some n"
      and "n + length (marker b) \<le> length v"
proof -
  have "prefix (marker b) (drop (length v) (v @ marker b @ s))" by simp
  from find_sub_at_most [OF this] obtain n where n: "n \<le> length v"
    and f: "find_sub (marker b) (v @ marker b @ s) = Some n" by auto
  show thesis
  proof (cases "n = length v")
    case False
    with n have "n < length v" by simp
    with marker_no_overlap [OF assms] find_sub_Some [OF f] have le: "n + length (marker b) \<le> length v" by blast
    from find_sub_inside [OF f le] show thesis using inside [OF f _ le] by blast
  qed (use f at_end in simp)
qed

lemma part_end_whole:
  assumes "CHR 0x0D \<notin> set b" and "find_sub (marker b) v = None" and "follows s"
  shows "part_end b (v @ marker b @ s) = Some (length v)"
  using assms(1)
  by (rule find_marker [where v = v and s = s]) (use assms(2,3) in \<open>simp_all add: part_end_step [of b "v @ marker b @ s"]\<close>)

text \<open>What follows the closing marker decides nothing else about where the value ends.\<close>

lemma part_end_change:
  assumes "CHR 0x0D \<notin> set b" and "part_end b (v @ marker b @ s) = Some (length v)" and "follows s'"
  shows "part_end b (v @ marker b @ s') = Some (length v)"
  using assms(2)
proof (induction v rule: length_induct)
  case (1 v)
  show ?case
    using assms(1)
  proof (cases rule: find_marker [where v = v and s = s])
    case at_end
    from assms(1) show ?thesis
    proof (cases rule: find_marker [where v = v and s = s'])
      case at_end
      with assms(3) show ?thesis by (simp add: part_end_step [of b "v @ marker b @ s'"])
    next
      case (inside n)
      from find_sub_append [OF inside(2), of "marker b @ s"] at_end inside(3) show ?thesis by simp
    qed
  next
    case (inside n)
    let ?w = "drop (n + length (marker b)) v"
    have here: "drop (n + length (marker b)) (v @ t) = ?w @ t" for t using inside(3) by simp
    have same: "follows (?w @ marker b @ s') = follows (?w @ marker b @ s)"
      using follows_append [of "?w @ marker b"] by simp
    have len: "length v = n + length (marker b) + length ?w" using inside(3) by simp
    have no: "\<not> follows (?w @ marker b @ s)"
    proof
      assume "follows (?w @ marker b @ s)"
      with inside(1) 1(2) have "n = length v"
        by (simp add: part_end_step [of b "v @ marker b @ s"] here del: drop_append marker_length)
      with inside(3) show False by simp
    qed
    from no inside(1) 1(2) obtain m where m: "part_end b (?w @ marker b @ s) = Some m"
      and "n + length (marker b) + m = length v"
      by (auto simp: part_end_step [of b "v @ marker b @ s"] here simp del: drop_append marker_length)
    then have "m = length ?w" using len by linarith
    moreover have "length ?w < length v" using len by simp
    ultimately have tail: "part_end b (?w @ marker b @ s') = Some (length ?w)"
      using 1(1) [rule_format, of ?w] m by simp
    have find: "find_sub (marker b) (v @ marker b @ s') = Some n" using inside(2) by (rule find_sub_append)
    have "part_end b (v @ marker b @ s') = map_option (\<lambda>m. n + length (marker b) + m) (part_end b (?w @ marker b @ s'))"
      unfolding part_end_step [of b "v @ marker b @ s'"] find option.case here using no same by (simp only: if_False)
    then show ?thesis unfolding tail option.map by (simp only: len [symmetric])
  qed
qed

lemma no_boundary_no_marker:
  assumes "\<not> contains_sub b v"
  shows "find_sub (marker b) v = None"
proof (rule ccontr)
  assume "find_sub (marker b) v \<noteq> None"
  then obtain n where "find_sub (marker b) v = Some n" by auto
  from find_sub_Some [OF this] obtain z where "drop n v = marker b @ z" by (auto simp: prefix_def)
  then have "v = take n v @ marker b @ z" by (metis append_take_drop_id)
  then have "v = (take n v @ crlf @ ''--'') @ b @ z" by (simp add: marker_def)
  with assms have "find_sub b b = None" unfolding contains_sub_def by (metis find_sub_infix)
  moreover have "find_sub b b = Some 0" by (cases b) (simp_all add: starts_with_iff)
  ultimately show False by simp
qed

section \<open>Generated headers read back\<close>

lemma utf8_ok_ascii: "list_all (\<lambda>n. n < 128) ns \<Longrightarrow> utf8_ok ns"
  by (induction ns) auto

lemma trim_blank: "trim (CHR '' '' # s) = trim s"
proof -
  have "first_strip ws_chars (CHR '' '' # s) = Some s"
    by (simp add: ws_chars_def ws_encodings_def char_of_def bit_0)
  then have "strip_all ws_chars (CHR '' '' # s) = strip_all ws_chars s"
    by (subst strip_all.simps) (simp add: ws_chars_nonempty)
  then show ?thesis by (simp add: trim_def trim_start_def)
qed

text \<open>The characters of boundaries and field names.\<close>

definition plain :: "char \<Rightarrow> bool" where
  "plain c \<longleftrightarrow> graphic c \<and> c \<noteq> CHR 0x22 \<and> c \<noteq> CHR '';'' \<and> c \<noteq> CHR 0x5C"

lemma plain_alphanumeric: "is_ascii_alphanumeric c \<Longrightarrow> plain c"
  by (auto simp: plain_def graphic_def is_ascii_alphanumeric_def is_ascii_digit_def is_ascii_alphabetic_def code_def)

lemma plain_special: "c \<in> set (CHR 0x27 # ''()+_,-./:=?'') \<or> c \<in> set ''_[]'' \<Longrightarrow> plain c"
proof -
  have "list_all plain (CHR 0x27 # ''()+_,-./:=?'')" "list_all plain ''_[]''"
    by (simp_all add: plain_def graphic_def code_def)
  then show "c \<in> set (CHR 0x27 # ''()+_,-./:=?'') \<or> c \<in> set ''_[]'' \<Longrightarrow> plain c"
    unfolding list_all_iff by blast
qed

lemma boundary_plain: "boundary_ok b \<Longrightarrow> list_all plain b"
  using plain_special plain_alphanumeric unfolding boundary_ok_def list_all_iff by blast

lemma name_plain: "name_ok n \<Longrightarrow> list_all plain n"
  using plain_special plain_alphanumeric unfolding name_ok_def list_all_iff by blast

lemma plain_no_cr: "list_all plain s \<Longrightarrow> CHR 0x0D \<notin> set s"
proof -
  have "\<not> plain (CHR 0x0D)" by (simp add: plain_def graphic_def code_def)
  then show "list_all plain s \<Longrightarrow> CHR 0x0D \<notin> set s" unfolding list_all_iff by blast
qed

lemma plain_trim:
  assumes "list_all plain s"
  shows "trim s = s"
proof (cases "s = []")
  case False
  with assms have "graphic (hd s)" "graphic (last s)"
    by (simp_all add: list_all_iff plain_def)
  with False show ?thesis by (rule trim_graphic)
qed simp

lemma plain_ascii: "list_all plain s \<Longrightarrow> list_all (\<lambda>n. n < 128) (map code s)"
  by (induction s) (simp_all add: plain_def graphic_def)

lemma unescape_plain: "list_all plain s \<Longrightarrow> unescape s = Inr s"
  by (induction s rule: unescape.induct) (auto simp: plain_def)

definition unquoted :: "string \<Rightarrow> bool" where
  "unquoted s \<longleftrightarrow> CHR 0x22 \<notin> set s \<and> CHR '';'' \<notin> set s"

lemma plain_unquoted: "list_all plain s \<Longrightarrow> unquoted s"
  by (auto simp: list_all_iff plain_def unquoted_def)

lemma scan_unquoted:
  "unquoted s \<Longrightarrow> scan_parameters acc False False (s @ t) = scan_parameters (rev s @ acc) False False t"
  by (induction s arbitrary: acc) (auto simp: unquoted_def)

lemma scan_quoted:
  "list_all plain s \<Longrightarrow>
   scan_parameters acc True False (s @ CHR 0x22 # t) = scan_parameters (CHR 0x22 # rev s @ acc) False False t"
  by (induction s arbitrary: acc) (auto simp: plain_def)

lemma scan_separator:
  "scan_parameters acc False False (CHR '';'' # t) =
     bind_r (scan_parameters [] False False t) (\<lambda>ps. Inr (trim (rev acc) # ps))"
  by simp

lemma form_parameters:
  assumes "list_all plain b"
  shows "parameters (''multipart/form-data; boundary='' @ b) = Inr [''multipart/form-data'', ''boundary='' @ b]"
proof -
  have split: "''multipart/form-data; boundary='' @ b = ''multipart/form-data'' @ CHR '';'' # ('' boundary='' @ b) @ []"
    by simp
  have u: "unquoted ''multipart/form-data''" "unquoted ('' boundary='' @ b)"
    using plain_unquoted [OF assms] by (simp_all add: unquoted_def)
  have "list_all plain (''boundary='' @ b)" using assms by (simp add: plain_def graphic_def code_def)
  then have t2: "trim ('' boundary='' @ b) = ''boundary='' @ b" using plain_trim by (simp add: trim_blank)
  have "list_all plain ''multipart/form-data''" by (simp add: plain_def graphic_def code_def)
  then have t1: "trim ''multipart/form-data'' = ''multipart/form-data''" by (rule plain_trim)
  show ?thesis
    unfolding parameters_def split scan_unquoted [OF u(1)] scan_separator scan_unquoted [OF u(2)]
    using t1 t2 by simp
qed

lemma split_at: "d \<notin> set a \<Longrightarrow> split_once d (a @ d # b) = Some (a, b)"
  by (simp add: split_once_Some_iff)

lemma form_boundary:
  assumes "list_all plain b"
  shows "parameter [''multipart/form-data'', ''boundary='' @ b] ''boundary'' = Inr (Some b)"
proof -
  have "split_once CHR ''='' (''boundary='' @ b) = Some (''boundary'', b)"
    using split_at [of "CHR ''=''" "''boundary''" b] by simp
  moreover have "trim ''boundary'' = ''boundary''"
    by (rule plain_trim) (simp add: plain_def graphic_def code_def)
  moreover have "strip_prefix [CHR 0x22] b = None"
    using assms by (cases b) (auto simp: plain_def)
  ultimately show ?thesis
    by (simp add: parameter_def parameter_value_def plain_trim [OF assms] eq_ignore_ascii_case_def)
qed

definition name_parameter :: "string \<Rightarrow> string" where
  "name_parameter n = ''name='' @ [CHR 0x22] @ n @ [CHR 0x22]"

lemma name_parameter_split:
  assumes "list_all plain n"
  shows "split_once CHR ''='' (name_parameter n) = Some (''name'', CHR 0x22 # n @ [CHR 0x22])"
    and "trim (CHR 0x22 # n @ [CHR 0x22]) = CHR 0x22 # n @ [CHR 0x22]"
    and "trim ''name'' = ''name''"
    and "parameter_value (CHR 0x22 # n @ [CHR 0x22]) = Inr n"
proof -
  show "split_once CHR ''='' (name_parameter n) = Some (''name'', CHR 0x22 # n @ [CHR 0x22])"
    using split_at [of "CHR ''=''" "''name''" "CHR 0x22 # n @ [CHR 0x22]"] by (simp add: name_parameter_def)
  show "trim (CHR 0x22 # n @ [CHR 0x22]) = CHR 0x22 # n @ [CHR 0x22]"
    by (rule trim_graphic) (simp_all add: graphic_def code_def)
  show "trim ''name'' = ''name''" by (rule plain_trim) (simp add: plain_def graphic_def code_def)
  show "parameter_value (CHR 0x22 # n @ [CHR 0x22]) = Inr n"
    by (simp add: parameter_value_def strip_suffix_def unescape_plain [OF assms])
qed

lemma name_parameter_read:
  assumes "list_all plain n"
  shows "parameter [''form-data'', name_parameter n] ''name'' = Inr (Some n)"
    and "parameter [''form-data'', name_parameter n] ''filename'' = Inr None"
  by (simp_all add: parameter_def name_parameter_split [OF assms] eq_ignore_ascii_case_def)

lemma text_disposition:
  assumes "list_all plain n"
  shows "disposition_of (text_headers n) = Inr [''form-data'', name_parameter n]"
proof -
  let ?v = "''form-data; '' @ name_parameter n"
  have cr: "CHR 0x0D \<notin> set (text_headers n)"
    using plain_no_cr [OF assms] by (simp add: text_headers_def)
  have utf8: "utf8_ok (map code (text_headers n))"
    by (rule utf8_ok_ascii) (use plain_ascii [OF assms] in \<open>simp add: text_headers_def code_def\<close>)
  have lines: "split_all crlf (text_headers n) = [text_headers n]"
    by (rule split_last [OF literal_line [OF cr]])
  have split: "split_once CHR '':'' (text_headers n) = Some (''Content-Disposition'', CHR '' '' # ?v)"
    using split_at [of "CHR '':''" "''Content-Disposition''" "CHR '' '' # ?v"]
    by (simp add: text_headers_def name_parameter_def)
  have v: "trim (CHR '' '' # ?v) = ?v"
    unfolding trim_blank by (rule trim_graphic) (simp_all add: name_parameter_def graphic_def code_def)
  have np: "trim (CHR '' '' # name_parameter n) = name_parameter n"
    unfolding trim_blank by (rule trim_graphic) (simp_all add: name_parameter_def graphic_def code_def)
  have fd: "trim ''form-data'' = ''form-data''" by (rule plain_trim) (simp add: plain_def graphic_def code_def)
  have ps: "parameters ?v = Inr [''form-data'', name_parameter n]"
  proof -
    have shape: "?v = ''form-data'' @ CHR '';'' # '' name='' @ CHR 0x22 # n @ CHR 0x22 # []"
      by (simp add: name_parameter_def)
    have u: "unquoted ''form-data''" "unquoted '' name=''" by (simp_all add: unquoted_def)
    have start: "scan_parameters acc False False (CHR 0x22 # t) = scan_parameters (CHR 0x22 # acc) True False t" for acc t
      by simp
    have "trim (rev (CHR 0x22 # rev n @ CHR 0x22 # rev '' name='' @ [])) = name_parameter n"
      using np by (simp add: name_parameter_def)
    then show ?thesis
      unfolding parameters_def shape scan_unquoted [OF u(1)] scan_separator scan_unquoted [OF u(2)] start
        scan_quoted [OF assms] using fd by simp
  qed
  have "eq_ignore_ascii_case ''Content-Disposition'' ''content-disposition''"
    by (simp add: eq_ignore_ascii_case_def to_ascii_lowercase_def code_def char_of_def bit_0)
  then have "find_disposition None [text_headers n] = Inr (Some [''form-data'', name_parameter n])"
    unfolding find_disposition.simps split option.case prod.case v ps by simp
  then show ?thesis
    by (simp add: disposition_of_def from_utf8_def utf8 lines first_part_def eq_ignore_ascii_case_def)
qed

section \<open>Well-formed forms\<close>

text \<open>The parts that the fields of a form are sent as.\<close>

fun texts_of :: "string \<times> json \<Rightarrow> (string \<times> string) list" where
  "texts_of (k, JStr s) = [(k, s)]"
| "texts_of (k, JArr vs) = map (\<lambda>v. (stamps_field, case v of JStr s \<Rightarrow> s | _ \<Rightarrow> [])) vs"
| "texts_of (k, _) = []"

definition text_parts :: "(string \<times> json) list \<Rightarrow> (string \<times> string) list" where
  "text_parts fs = concat (map texts_of fs)"

definition text_ok :: "string \<Rightarrow> bool" where
  "text_ok s \<longleftrightarrow> length s \<le> max_text_bytes \<and> utf8_ok (map code s)"

fun field_ok :: "string \<times> json \<Rightarrow> bool" where
  "field_ok (k, JStr s) \<longleftrightarrow> name_ok k \<and> k \<notin> {''file'', stamps, stamps_field} \<and> text_ok s"
| "field_ok (k, JArr vs) \<longleftrightarrow> k = stamps \<and> vs \<noteq> [] \<and>
     list_all (\<lambda>v. case v of JStr s \<Rightarrow> text_ok s | _ \<Rightarrow> False) vs"
| "field_ok (k, _) \<longleftrightarrow> False"

definition file_ok :: "string \<Rightarrow> bytes \<Rightarrow> bytes \<Rightarrow> bool" where
  "file_ok b headers file \<longleftrightarrow>
     header_length (headers @ crlf @ crlf) = Some (length headers) \<and>
     (case disposition_of headers of
        Inl _ \<Rightarrow> False
      | Inr d \<Rightarrow> field_name d = Inr ''file'' \<and>
          (case parameter d ''filename'' of Inr (Some _) \<Rightarrow> True | _ \<Rightarrow> False)) \<and>
     file \<noteq> [] \<and> part_end b (file @ marker b @ ''--'') = Some (length file)"

definition form_ok :: "audio_form \<Rightarrow> bool" where
  "form_ok f \<longleftrightarrow>
     boundary_ok (af_boundary f) \<and> sorted_wrt (<) (map fst (af_fields f)) \<and>
     list_all field_ok (af_fields f) \<and> length (text_parts (af_fields f)) < max_parts \<and>
     file_ok (af_boundary f) (af_file_headers f) (af_file f)"

lemma text_parts_simps [simp]:
  "text_parts [] = []"
  "text_parts (e # fs) = texts_of e @ text_parts fs"
  "text_parts (fs @ gs) = text_parts fs @ text_parts gs"
  by (simp_all add: text_parts_def)

section \<open>The encoded form is a chain of parts\<close>

fun chain :: "string \<Rightarrow> (bytes \<times> bytes) list \<Rightarrow> bytes \<times> bytes \<Rightarrow> bytes" where
  "chain b [] (h, v) = h @ crlf @ crlf @ v @ marker b @ ''--'' @ crlf"
| "chain b ((h', v') # ps) (h, v) = h' @ crlf @ crlf @ v' @ marker b @ crlf @ chain b ps (h, v)"

abbreviation text_part :: "string \<times> string \<Rightarrow> bytes \<times> bytes" where
  "text_part \<equiv> \<lambda>(n, v). (text_headers n, v)"

definition sent_part :: "string \<Rightarrow> string \<times> string \<Rightarrow> bytes" where
  "sent_part b p = first_line b @ text_headers (fst p) @ crlf @ crlf @ snd p @ crlf"

lemma sent_parts_chain:
  "concat (map (sent_part b) ps) @ first_line b @ h @ crlf @ crlf @ v @ crlf @ ''--'' @ b @ ''--'' @ crlf =
   first_line b @ chain b (map text_part ps) (h, v)"
  by (induction ps) (simp_all add: sent_part_def first_line_def marker_def split_beta)

lemma encode_text_Inr:
  "encode_text b n v = Inr p \<longleftrightarrow> \<not> contains_sub b v \<and> p = sent_part b (n, v)"
  by (auto simp: encode_text_def sent_part_def first_line_def)

lemma encode_field_Inr:
  assumes "field_ok e" and "encode_field render b e = Inr p"
  shows "p = concat (map (sent_part b) (texts_of e)) \<and> list_all (\<lambda>q. \<not> contains_sub b (snd q)) (texts_of e)"
  using assms(1)
proof (cases e rule: field_ok.cases)
  case (1 k s)
  with assms show ?thesis
    by (auto simp: encode_field_def field_values_def value_text_def encode_text_Inr bind_r_Inr_iff)
next
  case (2 k vs)
  then have k: "k = stamps" and strings: "list_all (\<lambda>v. case v of JStr s \<Rightarrow> text_ok s | _ \<Rightarrow> False) vs"
    using assms(1) by simp_all
  from assms(2) obtain ps where ps: "p = concat ps"
    and "traverse_r (\<lambda>v. encode_text b stamps_field (value_text render v)) vs = Inr ps"
    by (auto simp: 2 k encode_field_def field_values_def bind_r_Inr_iff)
  from this(2) strings have "ps = map (sent_part b) (texts_of e) \<and>
      list_all (\<lambda>q. \<not> contains_sub b (snd q)) (texts_of e)"
    unfolding 2 texts_of.simps
    by (induction vs arbitrary: ps)
       (auto simp: bind_r_Inr_iff encode_text_Inr value_text_def split: json.split_asm)
  with ps show ?thesis by simp
qed simp_all

lemma encode_chain:
  assumes "list_all field_ok (af_fields f)" and "audio_encode render f = Inr out"
  shows "out = first_line (af_boundary f) @
      chain (af_boundary f) (map text_part (text_parts (af_fields f))) (af_file_headers f, af_file f)"
    and "list_all (\<lambda>q. \<not> contains_sub (af_boundary f) (snd q)) (text_parts (af_fields f))"
proof -
  let ?b = "af_boundary f"
  from assms(2) obtain ps where ps: "traverse_r (encode_field render ?b) (af_fields f) = Inr ps"
    and out: "out = concat ps @ first_line ?b @ af_file_headers f @ crlf @ crlf @ af_file f
      @ crlf @ ''--'' @ ?b @ ''--'' @ crlf"
    by (auto simp: audio_encode_def bind_r_Inr_iff first_line_def)
  have both: "concat ps = concat (map (sent_part ?b) (text_parts fs)) \<and>
      list_all (\<lambda>q. \<not> contains_sub ?b (snd q)) (text_parts fs)"
    if "traverse_r (encode_field render ?b) fs = Inr ps" "list_all field_ok fs" for fs ps
    using that
  proof (induction fs arbitrary: ps)
    case (Cons e fs)
    then obtain p qs where "encode_field render ?b e = Inr p" and qs: "ps = p # qs"
      "traverse_r (encode_field render ?b) fs = Inr qs" by (auto simp: bind_r_Inr_iff)
    from encode_field_Inr [OF _ this(1)] Cons(1) [OF this(3)] Cons(3) qs show ?case by simp
  qed simp
  note both = both [OF ps assms(1)]
  show "out = first_line ?b @ chain ?b (map text_part (text_parts (af_fields f))) (af_file_headers f, af_file f)"
    unfolding out conjunct1 [OF both] by (rule sent_parts_chain)
  show "list_all (\<lambda>q. \<not> contains_sub ?b (snd q)) (text_parts (af_fields f))"
    using both by blast
qed

section \<open>Parsing a chain\<close>

lemma header_length_append:
  assumes "header_length (h @ crlf @ crlf) = Some (length h)"
  shows "header_length (h @ crlf @ crlf @ r) = Some (length h)"
proof -
  from assms have "find_sub (crlf @ crlf) (h @ crlf @ crlf) = Some (length h)" "length h \<le> max_part_headers"
    by (auto simp: header_length_def split: option.splits if_splits)
  from find_sub_append [OF this(1), of r] this(2) show ?thesis by (simp add: header_length_def)
qed

lemma parse_part_shape:
  assumes "header_length (h @ crlf @ crlf) = Some (length h)" and "disposition_of h = Inr d"
    and "field_name d = Inr n" and "n \<in> set (ps_names st) \<Longrightarrow> n = stamps_field"
    and "part_end b (v @ marker b @ s) = Some (length v)"
    and "store_part d n h v (st\<lparr>ps_names := n # ps_names st\<rparr>) = Inr st'"
  shows "parse_part b st (h @ crlf @ crlf @ v @ marker b @ s) = Inr (st', s)"
proof -
  have "header_length (h @ crlf @ crlf @ v @ marker b @ s) = Some (length h)"
    using header_length_append [OF assms(1)] .
  moreover have "drop (length h + 4) (h @ crlf @ crlf @ v @ marker b @ s) = v @ marker b @ s"
    by (simp add: crlf_def)
  moreover have "drop (length v + length (marker b)) (v @ marker b @ s) = s" by simp
  ultimately show ?thesis
    using assms(2-6) by (simp add: parse_part_def Let_def del: marker_length)
qed

lemma text_headers_length:
  assumes "name_ok n"
  shows "header_length (text_headers n @ crlf @ crlf) = Some (length (text_headers n))"
proof -
  have "hd (crlf @ crlf) \<notin> set (text_headers n)"
    using plain_no_cr [OF name_plain [OF assms]] by (simp add: text_headers_def crlf_def)
  from find_sub_at [OF _ this, of "[]"] have "find_sub (crlf @ crlf) (text_headers n @ crlf @ crlf) = Some (length (text_headers n))"
    by (simp add: crlf_def)
  moreover have "length (text_headers n) \<le> max_part_headers"
    using assms by (simp add: text_headers_def name_ok_def max_part_headers_def)
  ultimately show ?thesis by (simp add: header_length_def)
qed

definition sendable :: "string \<Rightarrow> string \<times> string \<Rightarrow> bool" where
  "sendable b p \<longleftrightarrow> name_ok (fst p) \<and> fst p \<notin> {''file'', stamps} \<and> text_ok (snd p) \<and>
     \<not> contains_sub b (snd p)"

lemma parse_text_part:
  assumes "CHR 0x0D \<notin> set b" and "sendable b (n, v)" and "n \<in> set (ps_names st) \<Longrightarrow> n = stamps_field"
    and "add_text n v (ps_fields st) = Inr fs" and "follows s"
  shows "parse_part b st (text_headers n @ crlf @ crlf @ v @ marker b @ s) =
    Inr (st\<lparr>ps_fields := fs, ps_names := n # ps_names st\<rparr>, s)"
proof -
  from assms(2) have n: "name_ok n" and other: "n \<noteq> ''file''" and v: "text_ok v" "\<not> contains_sub b v"
    by (simp_all add: sendable_def)
  note plain = name_plain [OF n]
  show ?thesis
  proof (rule parse_part_shape)
    show "header_length (text_headers n @ crlf @ crlf) = Some (length (text_headers n))"
      by (rule text_headers_length [OF n])
    show "disposition_of (text_headers n) = Inr [''form-data'', name_parameter n]"
      by (rule text_disposition [OF plain])
    show "field_name [''form-data'', name_parameter n] = Inr n"
      using n by (simp add: field_name_def name_parameter_read [OF plain])
    show "part_end b (v @ marker b @ s) = Some (length v)"
      by (rule part_end_whole [OF assms(1) no_boundary_no_marker [OF v(2)] assms(5)])
    show "store_part [''form-data'', name_parameter n] n (text_headers n) v (st\<lparr>ps_names := n # ps_names st\<rparr>) =
        Inr (st\<lparr>ps_fields := fs, ps_names := n # ps_names st\<rparr>)"
      using v(1) other assms(4)
      by (simp add: store_part_def name_parameter_read [OF plain] text_ok_def from_utf8_def)
  qed (use assms(3) in simp)
qed

fun add_all :: "(string \<times> string) list \<Rightarrow> (string \<times> json) list \<Rightarrow> form_error + (string \<times> json) list" where
  "add_all [] fs = Inr fs"
| "add_all ((n, v) # ps) fs = bind_r (add_text n v fs) (add_all ps)"

lemma add_all_append: "add_all (ps @ qs) fs = bind_r (add_all ps fs) (add_all qs)"
  by (induction ps fs rule: add_all.induct) (auto simp: bind_r_def split: sum.split)

lemma follows_crlf: "follows (crlf @ s)"
  by (simp add: follows_def starts_with_def crlf_def)

lemma parse_chain:
  assumes "CHR 0x0D \<notin> set b" and "list_all (sendable b) ps"
    and "distinct (filter (\<lambda>n. n \<noteq> stamps_field) (map fst ps))"
    and "\<forall>p \<in> set ps. fst p \<in> set (ps_names st) \<longrightarrow> fst p = stamps_field"
    and "''file'' \<notin> set (ps_names st)"
    and "add_all ps (ps_fields st) = Inr fs" and "length ps < k" and "file_ok b h file"
  shows "\<exists>names. parse_parts k b st (chain b (map text_part ps) (h, file)) =
    Inr \<lparr>ps_fields = fs, ps_names = names, ps_file = Some file, ps_file_headers = Some h\<rparr>"
  using assms(2-7)
proof (induction ps arbitrary: st k)
  case Nil
  then obtain j where k: "k = Suc j" by (cases k) auto
  from assms(8) obtain d fname where d: "disposition_of h = Inr d" "field_name d = Inr ''file''"
    "parameter d ''filename'' = Inr (Some fname)" and "header_length (h @ crlf @ crlf) = Some (length h)"
    and "file \<noteq> []" and e: "part_end b (file @ marker b @ ''--'') = Some (length file)"
    by (auto simp: file_ok_def split: sum.splits option.splits)
  have "follows (''--'' @ crlf)" by (simp add: follows_def starts_with_def)
  from part_end_change [OF assms(1) e this]
  have "part_end b (file @ marker b @ ''--'' @ crlf) = Some (length file)" .
  from parse_part_shape [OF \<open>header_length _ = _\<close> d(1,2) _ this, of st
      "st\<lparr>ps_names := ''file'' # ps_names st, ps_file := Some file, ps_file_headers := Some h\<rparr>"]
  have "parse_part b st (h @ crlf @ crlf @ file @ marker b @ ''--'' @ crlf) =
      Inr (st\<lparr>ps_names := ''file'' # ps_names st, ps_file := Some file, ps_file_headers := Some h\<rparr>, ''--'' @ crlf)"
    using Nil(4) \<open>file \<noteq> []\<close> d(3) by (simp add: store_part_def)
  then have "parse_parts k b st (chain b [] (h, file)) =
      Inr (st\<lparr>ps_names := ''file'' # ps_names st, ps_file := Some file, ps_file_headers := Some h\<rparr>)"
    by (simp add: k starts_with_def)
  with Nil(5) show ?case by (cases st) simp
next
  case (Cons p ps)
  obtain n v where p: "p = (n, v)" by (cases p)
  from Cons(7) obtain j where k: "k = Suc j" "length ps < j" by (cases k) auto
  from Cons(6) obtain fs1 where f: "add_text n v (ps_fields st) = Inr fs1" "add_all ps fs1 = Inr fs"
    by (auto simp: p bind_r_Inr_iff)
  let ?st = "st\<lparr>ps_fields := fs1, ps_names := n # ps_names st\<rparr>"
  let ?rest = "chain b (map text_part ps) (h, file)"
  have "parse_part b st (text_headers n @ crlf @ crlf @ v @ marker b @ crlf @ ?rest) = Inr (?st, crlf @ ?rest)"
    by (rule parse_text_part [OF assms(1) _ _ f(1) follows_crlf]) (use Cons(2,4) p in auto)
  then have "parse_parts k b st (chain b (map text_part (p # ps)) (h, file)) = parse_parts j b ?st ?rest"
    by (simp add: k(1) p starts_with_def crlf_def)
  moreover have "\<exists>names. parse_parts j b ?st ?rest =
      Inr \<lparr>ps_fields = fs, ps_names = names, ps_file = Some file, ps_file_headers = Some h\<rparr>"
  proof (rule Cons(1))
    show "list_all (sendable b) ps" "distinct (filter (\<lambda>n. n \<noteq> stamps_field) (map fst ps))"
      using Cons(2,3) by (auto split: if_splits)
    show "\<forall>q \<in> set ps. fst q \<in> set (ps_names ?st) \<longrightarrow> fst q = stamps_field"
      using Cons(3,4) by (auto simp: p split: if_splits)
    show "''file'' \<notin> set (ps_names ?st)" using Cons(2,5) by (auto simp: p sendable_def)
    show "add_all ps (ps_fields ?st) = Inr fs" using f(2) by simp
    show "length ps < j" by (rule k(2))
  qed
  ultimately show ?case by simp
qed

section \<open>The fields come back\<close>

lemma map_of_new_key: "\<forall>k' \<in> fst ` set m. k' < (k :: string) \<Longrightarrow> map_of m k = None"
  by (auto simp: map_of_eq_None_iff)

lemma add_stamps:
  assumes "\<forall>k' \<in> fst ` set m. k' < stamps" and "list_all (\<lambda>v. case v of JStr s \<Rightarrow> text_ok s | _ \<Rightarrow> False) vs"
  shows "add_all (texts_of (k, JArr vs)) (m @ [(stamps, JArr us)]) = Inr (m @ [(stamps, JArr (us @ vs))])"
  using assms(2) unfolding texts_of.simps
proof (induction vs arbitrary: us)
  case (Cons v vs)
  then obtain s where v: "v = JStr s" by (cases v) auto
  have "map_of (m @ [(stamps, JArr us)]) stamps = Some (JArr us)"
    using map_of_new_key [OF assms(1)] by (simp add: map_add_def)
  then have "add_text stamps_field s (m @ [(stamps, JArr us)]) = Inr (m @ [(stamps, JArr (us @ [JStr s]))])"
    by (simp add: add_text_def push_stamp_def map_insert_again [OF assms(1)])
  with Cons v show ?case by simp
qed simp

lemma add_field:
  assumes "\<forall>k' \<in> fst ` set m. k' < fst e" and "field_ok e"
  shows "add_all (texts_of e) m = Inr (m @ [e])"
  using assms(2)
proof (cases e rule: field_ok.cases)
  case (1 k s)
  with assms show ?thesis by (auto simp: add_text_def map_insert_last)
next
  case (2 k vs)
  with assms(2) obtain v us where vs: "vs = JStr v # us" and k: "k = stamps"
    and ok: "list_all (\<lambda>v. case v of JStr s \<Rightarrow> text_ok s | _ \<Rightarrow> False) us"
    by (cases vs) (auto split: json.split_asm)
  have below: "\<forall>k' \<in> fst ` set m. k' < stamps" using assms(1) 2 k by simp
  have "add_text stamps_field v m = Inr (m @ [(stamps, JArr [JStr v])])"
    by (simp add: add_text_def push_stamp_def map_of_new_key [OF below] map_insert_last [OF below])
  with add_stamps [OF below ok, of stamps "[JStr v]"] show ?thesis by (simp add: 2 vs k)
qed simp_all

lemma add_fields:
  assumes "sorted_wrt (<) (map fst (m @ fs))" and "list_all field_ok fs"
  shows "add_all (text_parts fs) m = Inr (m @ fs)"
  using assms
proof (induction fs arbitrary: m)
  case (Cons e fs)
  have "add_all (texts_of e) m = Inr (m @ [e])"
    by (rule add_field) (use Cons(2,3) in \<open>auto simp: sorted_wrt_append\<close>)
  moreover have "add_all (text_parts fs) (m @ [e]) = Inr ((m @ [e]) @ fs)"
    by (rule Cons(1)) (use Cons(2,3) in simp_all)
  ultimately show ?case by (simp add: add_all_append)
qed simp

lemma text_names:
  assumes "list_all field_ok fs"
  shows "filter (\<lambda>n. n \<noteq> stamps_field) (map fst (text_parts fs)) = filter (\<lambda>n. n \<noteq> stamps) (map fst fs)"
  using assms
proof (induction fs)
  case (Cons e fs)
  then have "field_ok e" by simp
  then have "filter (\<lambda>n. n \<noteq> stamps_field) (map fst (texts_of e)) = filter (\<lambda>n. n \<noteq> stamps) [fst e]"
    by (cases e rule: field_ok.cases) (auto simp: filter_empty_conv)
  with Cons show ?case by (simp del: filter.simps(2)) (simp add: filter_append [of _ "[fst e]" "map fst fs", simplified])
qed simp

lemma text_parts_sendable:
  assumes "list_all field_ok fs" and "list_all (\<lambda>q. \<not> contains_sub b (snd q)) (text_parts fs)"
  shows "list_all (sendable b) (text_parts fs)"
  using assms
proof (induction fs)
  case (Cons e fs)
  have "name_ok stamps_field"
    by (simp add: name_ok_def is_ascii_alphanumeric_def is_ascii_alphabetic_def is_ascii_digit_def code_def)
  then have "list_all (sendable b) (texts_of e)"
    using Cons(2,3)
    by (cases e rule: field_ok.cases)
       (auto simp: sendable_def list_all_iff split: json.split json.split_asm)
  with Cons show ?case by simp
qed simp

lemma sorted_distinct: "sorted_wrt (<) (ks :: string list) \<Longrightarrow> distinct ks"
  by (induction ks) auto

text \<open>C19. Forms survive being sent on. Every well-formed form whose fields do not contain the boundary
  is encoded into an upload that parses, under the announced content type, back into the same form:
  the boundary, the fields, the headers of the file and every byte of the file.\<close>

theorem form_roundtrip:
  assumes "form_ok f" and "audio_encode render f = Inr out"
  shows "audio_parse (form_content_type f) out = Inr f"
proof -
  let ?b = "af_boundary f" and ?ps = "text_parts (af_fields f)"
  from assms(1) have b: "boundary_ok ?b" and sorted: "sorted_wrt (<) (map fst (af_fields f))"
    and fields: "list_all field_ok (af_fields f)" and len: "length ?ps < max_parts"
    and upload: "file_ok ?b (af_file_headers f) (af_file f)"
    by (simp_all add: form_ok_def)
  note plain = boundary_plain [OF b]
  note encoded = encode_chain [OF fields assms(2)]
  have dist: "distinct (filter (\<lambda>n. n \<noteq> stamps_field) (map fst ?ps))"
    unfolding text_names [OF fields] using sorted_distinct [OF sorted] by (rule distinct_filter)
  have added: "add_all ?ps (ps_fields no_parts) = Inr (af_fields f)"
    using add_fields [of "[]" "af_fields f"] sorted fields by (simp add: no_parts_def)
  obtain names where parts: "parse_parts max_parts ?b no_parts (chain ?b (map text_part ?ps) (af_file_headers f, af_file f)) =
      Inr \<lparr>ps_fields = af_fields f, ps_names = names, ps_file = Some (af_file f), ps_file_headers = Some (af_file_headers f)\<rparr>"
    using parse_chain [OF plain_no_cr [OF plain] text_parts_sendable [OF fields encoded(2)] dist _ _ added len upload]
    by (auto simp: no_parts_def)
  have "starts_with (first_line ?b) out" by (simp add: encoded(1) starts_with_iff)
  moreover have "drop (length (first_line ?b)) out = chain ?b (map text_part ?ps) (af_file_headers f, af_file f)"
    by (simp add: encoded(1))
  ultimately show ?thesis
    using b parts
    by (simp add: audio_parse_def form_content_type_def form_parameters [OF plain] form_boundary [OF plain]
        first_part_def eq_ignore_ascii_case_def del: append_Cons)
qed

section \<open>Every parsed form is well-formed\<close>

text \<open>A computation that does not panic and whose results satisfy a property.\<close>

definition sound :: "('a \<Rightarrow> bool) \<Rightarrow> form_error + 'a \<Rightarrow> bool" where
  "sound P r \<longleftrightarrow> (case r of Inl e \<Rightarrow> e \<noteq> Panicked | Inr a \<Rightarrow> P a)"

lemma sound_simps [simp]:
  "sound P (Inl (Refused m))" "\<not> sound P (Inl Panicked)" "sound P (Inr a) = P a"
  "sound P (ok_or (Refused m) x) = (\<forall>a. x = Some a \<longrightarrow> P a)"
  by (simp_all add: sound_def ok_or_def split: option.split)

lemma sound_bind: "sound P m \<Longrightarrow> (\<And>a. m = Inr a \<Longrightarrow> P a \<Longrightarrow> sound Q (f a)) \<Longrightarrow> sound Q (bind_r m f)"
  by (cases m) (auto simp: sound_def)

lemma sound_weaken: "sound P m \<Longrightarrow> (\<And>a. m = Inr a \<Longrightarrow> P a \<Longrightarrow> Q a) \<Longrightarrow> sound Q m"
  by (auto simp: sound_def split: sum.splits)

lemma sound_map: "sound Q (bind_r m (\<lambda>r. Inr (g r))) = sound (\<lambda>a. Q (g a)) m"
  by (simp add: sound_def bind_r_def split: sum.split)

abbreviation no_panic :: "form_error + 'a \<Rightarrow> bool" where
  "no_panic \<equiv> sound (\<lambda>_. True)"

lemma scan_parameters_sound: "sound (\<lambda>ps. ps \<noteq> []) (scan_parameters acc q e s)"
  by (induction acc q e s rule: scan_parameters.induct) (auto intro: sound_bind)

lemma parameters_sound: "sound (\<lambda>ps. ps \<noteq> []) (parameters s)"
  by (simp add: parameters_def scan_parameters_sound)

lemma unescape_sound: "no_panic (unescape s)"
  by (induction s rule: unescape.induct) (simp_all add: sound_map split: list.split)

lemma parameter_value_sound: "no_panic (parameter_value v)"
  by (auto simp: parameter_value_def intro!: sound_bind [where P = "\<lambda>_. True"] unescape_sound split: option.split)

lemma find_parameter_sound: "no_panic (find_parameter k found ps)"
proof (induction k found ps rule: find_parameter.induct)
  case (2 k found p ps)
  show ?case
  proof (cases "split_once CHR ''='' p")
    case (Some nv)
    obtain n v where nv: "nv = (n, v)" by (cases nv)
    have "no_panic (bind_r (parameter_value (trim v)) (\<lambda>r. find_parameter k (Some r) ps))"
      if "\<not> \<not> eq_ignore_ascii_case (trim n) k" "\<not> found \<noteq> None"
      by (rule sound_bind [OF parameter_value_sound]) (use 2(2) [OF Some nv [symmetric] that] in simp)
    with 2(1) Some nv show ?thesis by simp
  qed simp
qed simp

lemma parameter_sound: "no_panic (parameter ps k)"
  by (simp add: parameter_def find_parameter_sound)

lemma find_disposition_sound:
  "found \<noteq> Some [] \<Longrightarrow> sound (\<lambda>r. r \<noteq> Some []) (find_disposition found ls)"
proof (induction found ls rule: find_disposition.induct)
  case (2 found l ls)
  show ?case
  proof (cases "split_once CHR '':'' l")
    case (Some kv)
    obtain k v where kv: "kv = (k, v)" by (cases kv)
    have "sound (\<lambda>r. r \<noteq> Some []) (bind_r (parameters (trim v)) (\<lambda>ps. find_disposition (Some ps) ls))"
      if "eq_ignore_ascii_case k ''content-disposition''" "\<not> found \<noteq> None"
      by (rule sound_bind [OF parameters_sound]) (use 2(1) [OF Some kv [symmetric] that] in simp)
    with 2(2,3) Some kv show ?thesis by simp
  qed simp
qed simp

lemma disposition_sound: "no_panic (disposition_of h)"
proof -
  have first: "no_panic (first_part ps)" if "ps \<noteq> []" for ps
    using that by (cases ps) (simp_all add: first_part_def)
  have some: "sound (\<lambda>ps. ps \<noteq> []) (ok_or (Refused m) found)" if "found \<noteq> Some []" for m and found :: "string list option"
    using that by auto
  show ?thesis
    unfolding disposition_of_def
    by (rule sound_bind [where P = "\<lambda>_. True"], simp, rule sound_bind [OF find_disposition_sound], simp,
        rule sound_bind [OF some], assumption, rule sound_bind [OF first], assumption) simp
qed

lemma field_name_sound: "sound name_ok (field_name ps)"
  unfolding field_name_def
  by (rule sound_bind [OF parameter_sound], rule sound_bind [where P = "\<lambda>_. True"]) auto

lemma map_insert_fresh_parts:
  "k \<notin> fst ` set m \<Longrightarrow> length (text_parts (map_insert k v m)) = length (texts_of (k, v)) + length (text_parts m)"
  by (induction k v m rule: map_insert.induct) auto

lemma map_insert_known_parts:
  "map_of m k = Some w \<Longrightarrow> sorted_wrt (<) (map fst m) \<Longrightarrow>
   length (text_parts (map_insert k v m)) + length (texts_of (k, w)) = length (texts_of (k, v)) + length (text_parts m)"
proof (induction k v m rule: map_insert.induct)
  case (2 k v k' v' m)
  have "map_of m k = None" if "k < k'"
    using 2(3) that by (auto simp: map_of_eq_None_iff dest: less_trans)
  with 2 show ?case by (auto split: if_splits)
qed simp

lemma add_text_sound:
  assumes "sorted_wrt (<) (map fst m)" and "list_all field_ok m" and "name_ok n" and "n \<noteq> ''file''" and "text_ok v"
    and "n \<notin> fst ` set m \<or> n = stamps_field"
  shows "sound (\<lambda>m'. sorted_wrt (<) (map fst m') \<and> list_all field_ok m' \<and>
      length (text_parts m') = Suc (length (text_parts m)) \<and> fst ` set m' \<subseteq> insert n (insert stamps (fst ` set m)))
    (add_text n v m)"
proof (cases "n = stamps_field")
  case False
  with assms show ?thesis
    by (auto simp: add_text_def map_insert_sorted map_insert_all map_insert_fresh_parts map_insert_keys)
next
  case True
  show ?thesis
  proof (cases "map_of m stamps")
    case None
    then have "stamps \<notin> fst ` set m" by (simp add: map_of_eq_None_iff)
    with None True assms(1,2,5) show ?thesis
      by (auto simp: add_text_def push_stamp_def map_insert_sorted map_insert_all map_insert_fresh_parts map_insert_keys)
  next
    case (Some w)
    then have ok: "field_ok (stamps, w)" using assms(2) map_of_SomeD [OF Some] by (auto simp: list_all_iff)
    then obtain vs where w: "w = JArr vs" and vs: "list_all (\<lambda>v. case v of JStr s \<Rightarrow> text_ok s | _ \<Rightarrow> False) vs"
      by (cases w) auto
    have "field_ok (stamps, JArr (vs @ [JStr v]))" using vs assms(5) by simp
    then show ?thesis
      using True assms(1,2) map_insert_known_parts [OF Some [unfolded w] assms(1), of "JArr (vs @ [JStr v])"]
      by (auto simp: add_text_def push_stamp_def Some w map_insert_sorted map_insert_all map_insert_keys)
  qed
qed

definition parts_ok :: "string \<Rightarrow> nat \<Rightarrow> part_state \<Rightarrow> bool" where
  "parts_ok b k st \<longleftrightarrow>
     sorted_wrt (<) (map fst (ps_fields st)) \<and> list_all field_ok (ps_fields st) \<and>
     fst ` set (ps_fields st) \<subseteq> insert stamps (set (ps_names st)) \<and>
     length (text_parts (ps_fields st)) + (if ps_file st = None then 0 else 1) \<le> k \<and>
     (case ps_file st of
        None \<Rightarrow> ps_file_headers st = None
      | Some v \<Rightarrow> ''file'' \<in> set (ps_names st) \<and>
          (case ps_file_headers st of None \<Rightarrow> False | Some h \<Rightarrow> file_ok b h v))"

lemma take_eqI: "r = x @ y \<Longrightarrow> length x = n \<Longrightarrow> take n r = x"
  by simp

lemma part_end_Some:
  assumes "part_end b r = Some n"
  shows "\<exists>s. r = take n r @ marker b @ s \<and> follows s \<and> n \<le> length r"
  using assms
proof (induction b r arbitrary: n rule: part_end.induct)
  case (1 b r)
  from 1(2) obtain i where i: "find_sub (marker b) r = Some i"
    by (auto simp: part_end_step [of b r] split: option.splits)
  from find_sub_Some [OF i] obtain s where s: "drop i r = marker b @ s" and le: "i \<le> length r"
    by (auto simp: prefix_def)
  have after: "drop (i + length (marker b)) r = s"
    using arg_cong [OF s, of "drop (length (marker b))"] by (simp add: add.commute del: marker_length)
  have whole: "r = take i r @ marker b @ s" using s by (metis append_take_drop_id)
  show ?case
  proof (cases "follows s")
    case True
    with 1(2) i after have "n = i" by (simp add: part_end_step [of b r])
    with True whole le show ?thesis by blast
  next
    case False
    with 1(2) i after obtain m where m: "part_end b s = Some m" and n: "n = i + length (marker b) + m"
      by (auto simp: part_end_step [of b r] simp del: marker_length)
    from False have "\<not> (starts_with crlf s \<or> starts_with ''--'' s)" by (simp add: follows_def)
    with 1(1) [OF i refl] m obtain t where t: "s = take m s @ marker b @ t" "follows t" "m \<le> length s"
      unfolding after by blast
    let ?a = "take i r @ marker b"
    have r: "r = (?a @ take m s) @ marker b @ t" using whole t(1) by simp
    have len: "length (?a @ take m s) = n" using n le t(3) by simp
    have "take n r = ?a @ take m s" by (rule take_eqI [OF r len])
    moreover have "n \<le> length r" using arg_cong [OF r, of length] unfolding length_append [of "?a @ take m s"] len by linarith
    ultimately have "r = take n r @ marker b @ t" using r by (simp only: append_assoc)
    with t(2) \<open>n \<le> length r\<close> show ?thesis by blast
  qed
qed

text \<open>The pieces that the part parser cuts out of the upload.\<close>

lemma part_pieces:
  assumes "header_length rest = Some n" and "part_end b (drop (n + 4) rest) = Some m"
  obtains h v s where "take n rest = h" and "take m (drop (n + 4) rest) = v"
    and "header_length (h @ crlf @ crlf) = Some (length h)"
    and "part_end b (v @ marker b @ s) = Some (length v)" and "follows s"
    and "drop (m + length (marker b)) (drop (n + 4) rest) = s"
proof -
  let ?body = "drop (n + 4) rest"
  from assms(1) have f: "find_sub (crlf @ crlf) rest = Some n" and small: "n \<le> max_part_headers"
    by (auto simp: header_length_def split: option.splits if_splits)
  from find_sub_Some [OF f] obtain z where z: "drop n rest = crlf @ crlf @ z" and le: "n \<le> length rest"
    by (auto simp: prefix_def)
  have "rest = (take n rest @ crlf @ crlf) @ z" using z by (metis append_take_drop_id append.assoc)
  moreover have "n + length (crlf @ crlf) \<le> length (take n rest @ crlf @ crlf)" using le by simp
  ultimately have "find_sub (crlf @ crlf) (take n rest @ crlf @ crlf) = Some n" using f by (metis find_sub_inside)
  then have hl: "header_length (take n rest @ crlf @ crlf) = Some (length (take n rest))"
    using small le by (simp add: header_length_def)
  from part_end_Some [OF assms(2)] obtain s where s: "?body = take m ?body @ marker b @ s" "follows s" "m \<le> length ?body"
    by blast
  then have "length (take m ?body) = m" by simp
  moreover from this have "drop (m + length (marker b)) ?body = s" by (subst s(1)) simp
  ultimately show thesis using that hl s assms(2) by metis
qed

lemma part_kept:
  assumes "parts_ok b k st"
  shows "parts_ok b k (st\<lparr>ps_names := n # ps_names st\<rparr>)"
  using assms by (auto simp: parts_ok_def split: option.splits)

lemma store_part_sound:
  assumes "parts_ok b k st" and "CHR 0x0D \<notin> set b" and "name_ok n" and "n \<in> set (ps_names st) \<Longrightarrow> n = stamps_field"
    and "disposition_of h = Inr d" and "field_name d = Inr n"
    and "header_length (h @ crlf @ crlf) = Some (length h)"
    and "part_end b (v @ marker b @ s) = Some (length v)"
  shows "sound (parts_ok b (Suc k)) (store_part d n h v (st\<lparr>ps_names := n # ps_names st\<rparr>))"
  unfolding store_part_def
proof (rule sound_bind [OF parameter_sound])
  fix filename assume fname: "parameter d ''filename'' = Inr filename"
  let ?st = "st\<lparr>ps_names := n # ps_names st\<rparr>"
  have no_file: "ps_file st = None" if "n = ''file''"
    using assms(1,4) that by (auto simp: parts_ok_def split: option.splits)
  have upload: "file_ok b h v" if "n = ''file''" "filename \<noteq> None" "v \<noteq> []"
  proof -
    have "follows ''--''" by (simp add: follows_def starts_with_def)
    from part_end_change [OF assms(2,8) this] that fname assms(5-7) show ?thesis
      by (auto simp: file_ok_def)
  qed
  have add: "sound (\<lambda>m. parts_ok b (Suc k) (?st\<lparr>ps_fields := m\<rparr>)) (add_text n v (ps_fields st))"
    if "n \<noteq> ''file''" "text_ok v"
  proof (cases "n = stamps")
    case True
    then show ?thesis by (simp add: add_text_def)
  next
    case other: False
    have "n \<notin> fst ` set (ps_fields st) \<or> n = stamps_field"
      using assms(1,4) other by (auto simp: parts_ok_def)
    moreover have "sorted_wrt (<) (map fst (ps_fields st))" "list_all field_ok (ps_fields st)"
      using assms(1) by (simp_all add: parts_ok_def)
    ultimately have "sound (\<lambda>m'. sorted_wrt (<) (map fst m') \<and> list_all field_ok m' \<and>
        length (text_parts m') = Suc (length (text_parts (ps_fields st))) \<and>
        fst ` set m' \<subseteq> insert n (insert stamps (fst ` set (ps_fields st)))) (add_text n v (ps_fields st))"
      using add_text_sound assms(3) that by blast
    then show ?thesis
      by (rule sound_weaken) (use assms(1) in \<open>auto simp: parts_ok_def split: option.splits\<close>)
  qed
  show "sound (parts_ok b (Suc k))
    (if n = ''file'' then
       (if filename = None \<or> v = []
        then Inl (Refused ''audio file must have a filename and nonempty content'')
        else Inr (?st\<lparr>ps_file := Some v, ps_file_headers := Some h\<rparr>))
     else if filename \<noteq> None \<or> length v > max_text_bytes
       then Inl (Refused ''audio form text field is a file or exceeds its size limit'')
     else
       bind_r (ok_or (Refused ''audio form field is not UTF-8'') (from_utf8 v)) (\<lambda>v'.
       bind_r (add_text n v' (ps_fields ?st)) (\<lambda>flds. Inr (?st\<lparr>ps_fields := flds\<rparr>))))"
  proof (cases "n = ''file''")
    case True
    with no_file upload assms(1) show ?thesis by (auto simp: parts_ok_def)
  next
    case False
    with add show ?thesis by (auto simp: from_utf8_def sound_map text_ok_def)
  qed
qed

lemma parse_part_sound:
  assumes "parts_ok b k st" and "CHR 0x0D \<notin> set b"
  shows "sound (\<lambda>r. parts_ok b (Suc k) (fst r) \<and> follows (snd r)) (parse_part b st rest)"
  unfolding parse_part_def
proof (rule sound_bind [where P = "\<lambda>_. True"], simp, rule sound_bind [OF disposition_sound],
    rule sound_bind [OF field_name_sound])
  fix i d n
  assume "ok_or (Refused ''multipart part headers are missing or too large'') (header_length rest) = Inr i"
    and d: "disposition_of (take i rest) = Inr d" and n: "field_name d = Inr n" "name_ok n"
  then have i: "header_length rest = Some i" by simp
  let ?body = "drop (i + 4) rest" and ?st = "st\<lparr>ps_names := n # ps_names st\<rparr>"
  have kept: "sound (\<lambda>r. parts_ok b (Suc k) (fst r) \<and> follows (snd r))
      (bind_r (ok_or (Refused ''multipart closing boundary is missing'') (part_end b ?body)) (\<lambda>m.
       bind_r (store_part d n (take i rest) (take m ?body) ?st) (\<lambda>st'. Inr (st', drop (m + length (marker b)) ?body))))"
    if "n \<in> set (ps_names st) \<Longrightarrow> n = stamps_field"
  proof (rule sound_bind [where P = "\<lambda>_. True"], simp)
    fix m assume "ok_or (Refused ''multipart closing boundary is missing'') (part_end b ?body) = Inr m"
    then have m: "part_end b ?body = Some m" by simp
    from part_pieces [OF i m] obtain h v s where h: "take i rest = h" and v: "take m ?body = v"
      and hl: "header_length (h @ crlf @ crlf) = Some (length h)"
      and e: "part_end b (v @ marker b @ s) = Some (length v)" and s: "follows s"
      and "drop (m + length (marker b)) ?body = s" .
    from store_part_sound [OF assms n(2) that _ n(1) hl e] d s this(6)
    show "sound (\<lambda>r. parts_ok b (Suc k) (fst r) \<and> follows (snd r))
        (bind_r (store_part d n (take i rest) (take m ?body) ?st) (\<lambda>st'. Inr (st', drop (m + length (marker b)) ?body)))"
      by (simp add: sound_map h v del: marker_length)
  qed
  show "sound (\<lambda>r. parts_ok b (Suc k) (fst r) \<and> follows (snd r))
    (if n \<in> set (ps_names st) \<and> n \<noteq> stamps_field then Inl (Refused (''duplicate audio form field: '' @ n))
     else let body = ?body
       in bind_r (ok_or (Refused ''multipart closing boundary is missing'') (part_end b body)) (\<lambda>m.
          bind_r (store_part d n (take i rest) (take m body) ?st) (\<lambda>st'. Inr (st', drop (m + length (marker b)) body))))"
    using kept by (auto simp: Let_def simp del: marker_length)
qed

lemma parse_parts_sound:
  assumes "CHR 0x0D \<notin> set b"
  shows "parts_ok b n st \<Longrightarrow> sound (\<lambda>st'. parts_ok b (n + k) st') (parse_parts k b st rest)"
proof (induction k arbitrary: n st rest)
  case (Suc k)
  show ?case
    unfolding parse_parts.simps
  proof (rule sound_bind [OF parse_part_sound [OF Suc(2) assms]])
    fix r assume ok: "parts_ok b (Suc n) (fst r) \<and> follows (snd r)"
    obtain st' after where r: "r = (st', after)" by (cases r)
    have more1: "parts_ok b (n + Suc k) st'" using ok r by (auto simp: parts_ok_def split: option.splits)
    from Suc(1) [of "Suc n" st' "drop 2 after"] ok r
    have "sound (parts_ok b (n + Suc k)) (parse_parts k b st' (drop 2 after))" by simp
    with more1 show "sound (parts_ok b (n + Suc k)) (case r of (st', after) \<Rightarrow>
        if starts_with ''--'' after
        then if drop 2 after \<noteq> [] \<and> drop 2 after \<noteq> crlf
             then Inl (Refused ''unexpected data after multipart closing boundary'') else Inr st'
        else parse_parts k b st' (drop 2 after))"
      by (simp add: r)
  qed
qed simp


section \<open>Forms made from converted audio\<close>

definition filename_parameter :: "string \<Rightarrow> string" where
  "filename_parameter n = ''filename='' @ [CHR 0x22] @ n @ [CHR 0x22]"

lemma filename_parameter_read:
  assumes "list_all plain n"
  shows "parameter [''form-data'', name_parameter ''file'', filename_parameter n] ''name'' = Inr (Some ''file'')"
    and "parameter [''form-data'', name_parameter ''file'', filename_parameter n] ''filename'' = Inr (Some n)"
proof -
  have "list_all plain ''file''" by (simp add: plain_def graphic_def code_def)
  note name = name_parameter_split [OF this]
  have split: "split_once CHR ''='' (filename_parameter n) = Some (''filename'', CHR 0x22 # n @ [CHR 0x22])"
    using split_at [of "CHR ''=''" "''filename''" "CHR 0x22 # n @ [CHR 0x22]"] by (simp add: filename_parameter_def)
  have "trim ''filename'' = ''filename''" by (rule plain_trim) (simp add: plain_def graphic_def code_def)
  note simps = name split this name_parameter_split(2,4) [OF assms] parameter_def eq_ignore_ascii_case_def
  show "parameter [''form-data'', name_parameter ''file'', filename_parameter n] ''name'' = Inr (Some ''file'')"
    using simps(1-4) by (simp add: simps(5-))
  show "parameter [''form-data'', name_parameter ''file'', filename_parameter n] ''filename'' = Inr (Some n)"
    using simps(1-4) by (simp add: simps(5-))
qed

lemma upload_parameters:
  assumes "list_all plain n"
  shows "parameters (''form-data; '' @ name_parameter ''file'' @ ''; '' @ filename_parameter n) =
    Inr [''form-data'', name_parameter ''file'', filename_parameter n]"
proof -
  have shape: "''form-data; '' @ name_parameter ''file'' @ ''; '' @ filename_parameter n =
      ''form-data'' @ CHR '';'' # '' name='' @ CHR 0x22 # ''file'' @ CHR 0x22 # [] @ CHR '';'' #
      '' filename='' @ CHR 0x22 # n @ CHR 0x22 # []"
    by (simp add: name_parameter_def filename_parameter_def)
  have u: "unquoted ''form-data''" "unquoted '' name=''" "unquoted '' filename=''" by (simp_all add: unquoted_def)
  have q: "list_all plain ''file''" by (simp add: plain_def graphic_def code_def)
  have quote: "scan_parameters acc False False (CHR 0x22 # t) = scan_parameters (CHR 0x22 # acc) True False t" for acc t
    by simp
  have "list_all plain ''form-data''" by (simp add: plain_def graphic_def code_def)
  note t1 = plain_trim [OF this]
  have t2: "trim (CHR '' '' # name_parameter ''file'') = name_parameter ''file''"
    unfolding trim_blank by (rule trim_graphic) (simp_all add: name_parameter_def graphic_def code_def)
  have t3: "trim (CHR '' '' # filename_parameter n) = filename_parameter n"
    unfolding trim_blank by (rule trim_graphic) (simp_all add: filename_parameter_def graphic_def code_def)
  have r2: "rev (CHR 0x22 # rev ''file'' @ CHR 0x22 # rev '' name='' @ []) = CHR '' '' # name_parameter ''file''"
    by (simp add: name_parameter_def)
  have r3: "rev (CHR 0x22 # rev n @ CHR 0x22 # rev '' filename='' @ []) = CHR '' '' # filename_parameter n"
    by (simp add: filename_parameter_def)
  show ?thesis
    unfolding parameters_def shape scan_unquoted [OF u(1)] scan_separator scan_unquoted [OF u(2)] quote
      scan_quoted [OF q] append_Nil scan_unquoted [OF u(3)] scan_quoted [OF assms] scan_parameters.simps(1)
      r2 r3 t2 t3 bind_r_simps
    using t1 by simp
qed

lemma upload_disposition:
  assumes "list_all plain n" and "list_all plain m"
  shows "disposition_of (af_file_headers (from_audio uuid n m bs)) =
    Inr [''form-data'', name_parameter ''file'', filename_parameter n]"
proof -
  let ?v = "''form-data; '' @ name_parameter ''file'' @ ''; '' @ filename_parameter n"
  let ?l1 = "''Content-Disposition: '' @ ?v" and ?l2 = "''Content-Type: '' @ m"
  have h: "af_file_headers (from_audio uuid n m bs) = ?l1 @ crlf @ ?l2"
    by (simp add: from_audio_def name_parameter_def filename_parameter_def)
  have cr: "CHR 0x0D \<notin> set ?l1" "CHR 0x0D \<notin> set ?l2"
    using plain_no_cr assms by (simp_all add: name_parameter_def filename_parameter_def)
  have utf8: "utf8_ok (map code (?l1 @ crlf @ ?l2))"
    by (rule utf8_ok_ascii)
       (use plain_ascii [OF assms(1)] plain_ascii [OF assms(2)] in
         \<open>simp add: name_parameter_def filename_parameter_def crlf_def code_def\<close>)
  have lines: "split_all crlf (?l1 @ crlf @ ?l2) = [?l1, ?l2]"
    unfolding split_line [OF literal_line [OF cr(1)]] split_last [OF literal_line [OF cr(2)]] ..
  have s1: "split_once CHR '':'' ?l1 = Some (''Content-Disposition'', CHR '' '' # ?v)"
    using split_at [of "CHR '':''" "''Content-Disposition''" "CHR '' '' # ?v"] by simp
  have s2: "split_once CHR '':'' ?l2 = Some (''Content-Type'', CHR '' '' # m)"
    using split_at [of "CHR '':''" "''Content-Type''" "CHR '' '' # m"] by simp
  have v: "trim (CHR '' '' # ?v) = ?v"
    unfolding trim_blank by (rule trim_graphic) (simp_all add: filename_parameter_def graphic_def code_def)
  have k1: "eq_ignore_ascii_case ''Content-Disposition'' ''content-disposition''"
    by (simp add: eq_ignore_ascii_case_def to_ascii_lowercase_def code_def char_of_def bit_0)
  have k2: "\<not> eq_ignore_ascii_case ''Content-Type'' ''content-disposition''"
    by (simp add: eq_ignore_ascii_case_def)
  have "find_disposition None [?l1, ?l2] =
      Inr (Some [''form-data'', name_parameter ''file'', filename_parameter n])"
    unfolding find_disposition.simps s1 s2 option.case prod.case v upload_parameters [OF assms(1)]
    using k1 k2 by simp
  then show ?thesis
    unfolding disposition_of_def h from_utf8_def
    using utf8 by (simp only: if_True ok_or_simps bind_r_simps lines) (simp add: first_part_def eq_ignore_ascii_case_def)
qed

lemma two_lines_end:
  assumes "CHR 0x0D \<notin> set a" and "CHR 0x0D \<notin> set c" and "c \<noteq> []"
  shows "find_sub (crlf @ crlf) (a @ crlf @ c @ crlf @ crlf) = Some (length a + 2 + length c)"
proof -
  have h: "crlf @ crlf \<noteq> []" "hd (crlf @ crlf) = CHR 0x0D" by (simp_all add: crlf_def)
  obtain x r where c: "c = x # r" "x \<noteq> CHR 0x0D" using assms(2,3) by (cases c) auto
  have "find_sub (crlf @ crlf) (c @ crlf @ crlf) = Some (length c)"
    using find_sub_at [OF h(1), of c "[]"] assms(2) h(2) by simp
  then have "find_sub (crlf @ crlf) (crlf @ c @ crlf @ crlf) = Some (2 + length c)"
    using c by (simp add: crlf_def starts_with_def)
  then show ?thesis using find_sub_skip [OF h(1), of a "crlf @ c @ crlf @ crlf"] assms(1) h(2) by simp
qed

lemma from_audio_ok:
  assumes "list_all is_ascii_alphanumeric uuid" and "length uuid = 32" and "list_all plain n" and "length n \<le> 1000"
    and "list_all plain m" and "length m \<le> 1000" and "bs \<noteq> []" and "find_sub (marker (''aiolm'' @ uuid)) bs = None"
  shows "form_ok (from_audio uuid n m bs)"
proof -
  let ?f = "from_audio uuid n m bs"
  have b: "boundary_ok (af_boundary ?f)"
    using assms(1,2)
    by (auto simp: boundary_ok_def from_audio_def is_ascii_alphanumeric_def is_ascii_alphabetic_def is_ascii_digit_def
        code_def list_all_iff)
  have "find_sub (crlf @ crlf) (af_file_headers ?f @ crlf @ crlf) = Some (length (af_file_headers ?f))"
  proof -
    let ?l1 = "''Content-Disposition: form-data; '' @ name_parameter ''file'' @ ''; '' @ filename_parameter n"
    let ?l2 = "''Content-Type: '' @ m"
    have h: "af_file_headers ?f = ?l1 @ crlf @ ?l2"
      by (simp add: from_audio_def name_parameter_def filename_parameter_def)
    have "CHR 0x0D \<notin> set ?l1" "CHR 0x0D \<notin> set ?l2"
      using plain_no_cr assms(3,5) by (simp_all add: name_parameter_def filename_parameter_def)
    from two_lines_end [OF this] show ?thesis unfolding h append_assoc by (simp add: crlf_def)
  qed
  then have "header_length (af_file_headers ?f @ crlf @ crlf) = Some (length (af_file_headers ?f))"
    using assms(4,6) by (simp add: header_length_def max_part_headers_def from_audio_def crlf_def)
  moreover have "follows ''--''" by (simp add: follows_def starts_with_def)
  note part_end_whole [OF plain_no_cr [OF boundary_plain [OF b]] _ this, of bs]
  moreover have "name_ok ''file''"
    by (simp add: name_ok_def is_ascii_alphanumeric_def is_ascii_alphabetic_def is_ascii_digit_def code_def)
  ultimately show ?thesis
    using b upload_disposition [OF assms(3,5)] filename_parameter_read [OF assms(3)] assms(7,8)
    by (simp add: form_ok_def file_ok_def field_name_def from_audio_def max_parts_def)
qed

definition demo_form :: audio_form where
  "demo_form = from_audio (replicate 32 CHR ''0'') ''a.wav'' ''audio/wav'' ''RIFF''"

lemma demo_form_ok: "form_ok demo_form"
  unfolding demo_form_def
proof (rule from_audio_ok)
  show "list_all is_ascii_alphanumeric (replicate 32 CHR ''0'')"
    by (simp add: list_all_iff is_ascii_alphanumeric_def is_ascii_digit_def code_def)
  show "find_sub (marker (''aiolm'' @ replicate 32 CHR ''0'')) ''RIFF'' = None"
    by (rule find_sub_absent) (simp_all add: marker_def crlf_def)
qed (simp_all add: plain_def graphic_def code_def)

theorem form_roundtrip_witness:
  "\<exists>out. audio_encode (\<lambda>_. []) demo_form = Inr out \<and> audio_parse (form_content_type demo_form) out = Inr demo_form"
proof -
  have "\<exists>out. audio_encode (\<lambda>_. []) demo_form = Inr out"
    by (simp add: audio_encode_def demo_form_def from_audio_def)
  with form_roundtrip [OF demo_form_ok, of "\<lambda>_. []"] show ?thesis by blast
qed

end
