(* ===== verification/Config.thy ===== *)
theory Config
  imports Prelude "HOL-Library.Word"
begin

text \<open>
  Settings: \<open>src-tauri/src/config.rs\<close> (the data, GPU placements, the arguments the application
  owns), \<open>src-tauri/src/tuning_defaults.rs\<close> with its checked-in catalogue, and the engine identifiers
  of \<open>src-tauri/src/providers/mod.rs\<close>.

  \<open>app_config\<close> has the fields of \<open>AppConfig\<close> other than the JSON maps, the saved sessions and the
  settings profiles. An \<open>f32\<close> is its bit pattern.
\<close>

unbundle bit_operations_syntax

section \<open>Single-precision numbers\<close>

type_synonym f32 = "32 word"

definition f32_is_finite :: "f32 \<Rightarrow> bool" where
  "f32_is_finite v \<longleftrightarrow> drop_bit 23 v AND 0xFF \<noteq> 0xFF"

text \<open>\<open>v < 0.0\<close>: the sign bit is set, and the value is neither \<open>-0.0\<close> nor NaN.\<close>

definition f32_negative :: "f32 \<Rightarrow> bool" where
  "f32_negative v \<longleftrightarrow> 0x80000000 < v \<and> v \<le> 0xFF800000"

section \<open>The catalogue of tuning settings\<close>

record tuning_field =
  fd_key :: string
  fd_args :: "string list"
  fd_switch :: bool
  fd_app_default :: "nat option"

definition plain_field :: "string \<Rightarrow> string list \<Rightarrow> tuning_field" where
  "plain_field key args = \<lparr>fd_key = key, fd_args = args, fd_switch = False, fd_app_default = None\<rparr>"

definition tuning_fields :: "tuning_field list" where
  "tuning_fields =
     [(plain_field ''ngl'' [''--n-gpu-layers'', ''--gpu-layers'', ''-ngl''])\<lparr>fd_app_default := Some 99\<rparr>,
      (plain_field ''ctx_size'' [''--ctx-size'', ''-c''])\<lparr>fd_app_default := Some 4096\<rparr>,
      plain_field ''batch_size'' [''--batch-size'', ''-b''],
      plain_field ''ubatch_size'' [''--ubatch-size'', ''-ub''],
      plain_field ''keep'' [''--keep''],
      plain_field ''cache_type_k'' [''--cache-type-k'', ''-ctk''],
      plain_field ''cache_type_v'' [''--cache-type-v'', ''-ctv''],
      plain_field ''flash_attn'' [''--flash-attn'', ''-fa''],
      plain_field ''n_cpu_moe'' [''--n-cpu-moe'', ''-ncmoe''],
      plain_field ''threads'' [''--threads'', ''-t''],
      plain_field ''parallel'' [''--parallel'', ''-np''],
      plain_field ''request_timeout_seconds'' [''--timeout'', ''-to''],
      plain_field ''sleep_idle_seconds'' [''--sleep-idle-seconds''],
      plain_field ''spec_type'' [''--spec-type''],
      plain_field ''spec_draft_n_max'' [''--spec-draft-n-max'', ''--draft'', ''--draft-n'', ''--draft-max''],
      plain_field ''spec_draft_n_min'' [''--spec-draft-n-min'', ''--draft-min''],
      plain_field ''spec_draft_p_min'' [''--spec-draft-p-min'', ''--draft-p-min''],
      plain_field ''spec_draft_p_split'' [''--spec-draft-p-split'', ''--draft-p-split''],
      plain_field ''spec_draft_ngl''
        [''--spec-draft-ngl'', ''--gpu-layers-draft'', ''--n-gpu-layers-draft'', ''-ngld''],
      plain_field ''reasoning'' [''--reasoning'', ''-rea''],
      plain_field ''reasoning_format'' [''--reasoning-format''],
      plain_field ''reasoning_effort'' [''--reasoning-effort''],
      plain_field ''reasoning_budget'' [''--reasoning-budget''],
      plain_field ''reasoning_budget_message'' [''--reasoning-budget-message''],
      (plain_field ''reasoning_preserve'' [''--reasoning-preserve'', ''--no-reasoning-preserve''])
        \<lparr>fd_switch := True\<rparr>,
      plain_field ''temperature'' [''--temp'', ''--temperature''],
      plain_field ''top_p'' [''--top-p''],
      plain_field ''top_k'' [''--top-k'']]"

definition is_known_tuning :: "string \<Rightarrow> bool" where
  "is_known_tuning key \<longleftrightarrow> list_ex (\<lambda>f. fd_key f = key) tuning_fields"

definition tuning_keys :: "string list" where
  "tuning_keys = map fd_key tuning_fields"

text \<open>\<open>None\<close> is the panic of \<open>expect\<close>.\<close>

definition app_default_u32 :: "string \<Rightarrow> nat option" where
  "app_default_u32 key =
     (case find (\<lambda>f. fd_key f = key \<and> fd_app_default f \<noteq> None) tuning_fields of
        None \<Rightarrow> None | Some f \<Rightarrow> fd_app_default f)"

section \<open>GPU placements\<close>

datatype split_mode = SplitInherit | SplitSingle | SplitLayer | SplitRow | SplitTensor

fun split_flag_value :: "split_mode \<Rightarrow> string option" where
  "split_flag_value SplitInherit = None"
| "split_flag_value SplitSingle = Some ''none''"
| "split_flag_value SplitLayer = Some ''layer''"
| "split_flag_value SplitRow = Some ''row''"
| "split_flag_value SplitTensor = Some ''tensor''"

record gpu_placement =
  gp_gpu_ids :: "string list"
  gp_main_gpu :: "string option"
  gp_split_mode :: split_mode
  gp_tensor_split :: "f32 list"
  gp_draft_gpu_id :: "string option"

definition placement_default :: gpu_placement where
  "placement_default =
     \<lparr>gp_gpu_ids = [], gp_main_gpu = None, gp_split_mode = SplitInherit, gp_tensor_split = [],
      gp_draft_gpu_id = None\<rparr>"

definition placement_is_empty :: "gpu_placement \<Rightarrow> bool" where
  "placement_is_empty p \<longleftrightarrow>
     gp_gpu_ids p = [] \<and> gp_main_gpu p = None \<and> gp_split_mode p = SplitInherit \<and>
     gp_tensor_split p = [] \<and> gp_draft_gpu_id p = None"

definition max_gpu_ids :: nat where "max_gpu_ids = 32"

definition trimmed_id :: "string option \<Rightarrow> string option" where
  "trimmed_id i = (case i of None \<Rightarrow> None | Some s \<Rightarrow> if trim s = [] then None else Some (trim s))"

definition placement_normalize :: "gpu_placement \<Rightarrow> gpu_placement" where
  "placement_normalize p =
     p\<lparr>gp_gpu_ids := take max_gpu_ids (filter (\<lambda>i. i \<noteq> []) (map trim (gp_gpu_ids p))),
       gp_main_gpu := trimmed_id (gp_main_gpu p),
       gp_draft_gpu_id := trimmed_id (gp_draft_gpu_id p),
       gp_tensor_split :=
         map (\<lambda>v. if \<not> f32_is_finite v \<or> f32_negative v then 0 else v)
           (take max_gpu_ids (gp_tensor_split p))\<rparr>"

definition bad_gpu_id :: "string \<Rightarrow> bool" where
  "bad_gpu_id i \<longleftrightarrow> i = [] \<or> length i > 256 \<or> CHR 0x00 \<in> set i"

definition option_list :: "'a option \<Rightarrow> 'a list" where
  "option_list v = (case v of None \<Rightarrow> [] | Some x \<Rightarrow> [x])"

definition placement_validate :: "gpu_placement \<Rightarrow> string + unit" where
  "placement_validate p =
     (if list_ex bad_gpu_id
           (gp_gpu_ids p @ option_list (gp_main_gpu p) @ option_list (gp_draft_gpu_id p))
      then Inl ''GPU id is invalid or too long''
      else if length (gp_gpu_ids p) > max_gpu_ids then
        Inl ''too many GPU ids configured (max 32)''
      else if length (gp_tensor_split p) > max_gpu_ids then
        Inl ''too many tensor-split values configured (max 32)''
      else if list_ex (\<lambda>v. \<not> f32_is_finite v \<or> f32_negative v) (gp_tensor_split p) then
        Inl ''tensor-split values must be finite and non-negative''
      else case gp_main_gpu p of
        None \<Rightarrow> Inr ()
      | Some main \<Rightarrow>
          if gp_gpu_ids p \<noteq> [] \<and> main \<notin> set (gp_gpu_ids p) then
            Inl (''main_gpu '' @ [CHR 0x27] @ main @ [CHR 0x27] @ '' must be one of the selected gpu_ids'')
          else Inr ())"

section \<open>The configuration\<close>

record lora_adapter =
  la_path :: string
  la_scale :: f32
  la_enabled :: bool

record app_config =
  cf_runtime_defaults :: "string list"
  cf_config_version :: nat
  cf_models_dir :: string
  cf_port :: nat
  cf_ngl :: nat
  cf_ctx_size :: nat
  cf_batch_size :: nat
  cf_ubatch_size :: nat
  cf_keep :: int
  cf_cache_type_k :: string
  cf_cache_type_v :: string
  cf_flash_attn :: string
  cf_n_cpu_moe :: nat
  cf_threads :: nat
  cf_temperature :: f32
  cf_top_p :: f32
  cf_top_k :: nat
  cf_spec_type :: string
  cf_spec_draft_n_max :: nat
  cf_spec_draft_n_min :: nat
  cf_spec_draft_p_min :: f32
  cf_spec_draft_p_split :: f32
  cf_spec_draft_ngl :: string
  cf_spec_draft_device :: string
  cf_spec_draft_model :: string
  cf_reasoning :: string
  cf_reasoning_format :: string
  cf_reasoning_effort :: string
  cf_reasoning_budget :: int
  cf_reasoning_budget_message :: string
  cf_reasoning_preserve :: string
  cf_server_args :: "string list"
  cf_mmproj :: string
  cf_active_model :: string
  cf_active_backend :: string
  cf_active_build :: string
  cf_iters :: nat
  cf_parallel :: nat
  cf_request_timeout_seconds :: nat
  cf_sleep_idle_seconds :: int
  cf_lora_adapters :: "lora_adapter list"
  cf_stop_existing :: bool
  cf_close_to_tray :: bool
  cf_onboarding_completed :: bool
  cf_gpu :: gpu_placement
  cf_active_provider :: string
  cf_active_runtime :: string

definition current_config_version :: nat where "current_config_version = 14"

text \<open>\<open>Default for AppConfig\<close>; the folder for models is the caller's.\<close>

definition config_default :: "string \<Rightarrow> app_config" where
  "config_default models_dir =
     \<lparr>cf_runtime_defaults = [], cf_config_version = current_config_version,
      cf_models_dir = models_dir, cf_port = 8080,
      cf_ngl = the (app_default_u32 ''ngl''), cf_ctx_size = the (app_default_u32 ''ctx_size''),
      cf_batch_size = 2048, cf_ubatch_size = 512, cf_keep = 0, cf_cache_type_k = ''f16'',
      cf_cache_type_v = ''f16'', cf_flash_attn = ''auto'', cf_n_cpu_moe = 0, cf_threads = 0,
      cf_temperature = 0x3F4CCCCD, cf_top_p = 0x3F733333, cf_top_k = 40, cf_spec_type = ''none'',
      cf_spec_draft_n_max = 3, cf_spec_draft_n_min = 0, cf_spec_draft_p_min = 0,
      cf_spec_draft_p_split = 0x3DCCCCCD, cf_spec_draft_ngl = ''auto'', cf_spec_draft_device = [],
      cf_spec_draft_model = [], cf_reasoning = ''auto'', cf_reasoning_format = ''auto'',
      cf_reasoning_effort = ''default'', cf_reasoning_budget = - 1,
      cf_reasoning_budget_message = [], cf_reasoning_preserve = ''auto'', cf_server_args = [],
      cf_mmproj = [], cf_active_model = [], cf_active_backend = [], cf_active_build = [],
      cf_iters = 5, cf_parallel = 0, cf_request_timeout_seconds = 3600,
      cf_sleep_idle_seconds = - 1, cf_lora_adapters = [], cf_stop_existing = True,
      cf_close_to_tray = False, cf_onboarding_completed = False, cf_gpu = placement_default,
      cf_active_provider = ''llama.cpp'', cf_active_runtime = []\<rparr>"

definition app_managed_server_args :: "string list" where
  "app_managed_server_args =
     [''--model'', ''-m'', ''--host'', ''--port'', ''-p'', ''--api-key'', ''--api-key-file'',
      ''--no-api-key'', ''-mm'', ''--mmproj'', ''--mmproj-url'', ''-mmu'', ''--mmproj-auto'',
      ''--no-mmproj'', ''--no-mmproj-auto'', ''--n-gpu-layers'', ''--gpu-layers'', ''-ngl'',
      ''--ctx-size'', ''-c'', ''--batch-size'', ''-b'', ''--ubatch-size'', ''-ub'', ''--keep'',
      ''--cache-type-k'', ''-ctk'', ''--cache-type-v'', ''-ctv'', ''--flash-attn'', ''-fa'',
      ''--n-cpu-moe'', ''-ncmoe'', ''--threads'', ''-t'', ''--parallel'', ''-np'',
      ''--timeout'', ''-to'', ''--sleep-idle-seconds'', ''--lora'', ''--lora-scaled'',
      ''--spec-type'', ''--spec-draft-n-max'', ''--spec-draft-n-min'', ''--spec-draft-p-min'',
      ''--draft-p-min'', ''--spec-draft-p-split'', ''--draft-p-split'', ''--spec-draft-ngl'',
      ''--gpu-layers-draft'', ''--n-gpu-layers-draft'', ''-ngld'', ''--spec-draft-device'',
      ''-devd'', ''--device-draft'', ''--spec-draft-model'', ''-md'', ''--model-draft'',
      ''--reasoning'', ''-rea'', ''--reasoning-format'', ''--reasoning-effort'',
      ''--reasoning-budget'', ''--reasoning-budget-message'', ''--reasoning-preserve'',
      ''--no-reasoning-preserve'', ''--device'', ''-dev'', ''--main-gpu'', ''-mg'',
      ''--split-mode'', ''-sm'', ''--tensor-split'', ''-ts'']"

definition inherited :: "app_config \<Rightarrow> string \<Rightarrow> bool" where
  "inherited cfg key \<longleftrightarrow> list_ex (\<lambda>v. v = key) (cf_runtime_defaults cfg)"

definition speculative_enabled :: "app_config \<Rightarrow> bool" where
  "speculative_enabled cfg \<longleftrightarrow>
     \<not> inherited cfg ''spec_type'' \<and> trim (cf_spec_type cfg) \<noteq> [] \<and> cf_spec_type cfg \<noteq> ''none''"

definition app_idle_timeout :: "app_config \<Rightarrow> int" where
  "app_idle_timeout cfg =
     (if inherited cfg ''sleep_idle_seconds'' then - 1 else cf_sleep_idle_seconds cfg)"

section \<open>Arguments of inherited settings\<close>

definition show_int :: "int \<Rightarrow> string" where
  "show_int i = (if i < 0 then ''-'' @ digits_of_nat (nat (- i)) else digits_of_nat (nat i))"

definition argument_name :: "string \<Rightarrow> string" where
  "argument_name token = takeWhile (\<lambda>c. c \<noteq> CHR ''='') token"

definition inherited_field :: "app_config \<Rightarrow> string \<Rightarrow> tuning_field option" where
  "inherited_field cfg name =
     find (\<lambda>f. inherited cfg (fd_key f) \<and> name \<in> set (fd_args f)) tuning_fields"

fun filter_args :: "app_config \<Rightarrow> string list \<Rightarrow> string list" where
  "filter_args cfg [] = []"
| "filter_args cfg (token # tokens) =
     (case inherited_field cfg (argument_name token) of
        None \<Rightarrow> token # filter_args cfg tokens
      | Some f \<Rightarrow>
          (case fd_app_default f of
             None \<Rightarrow> [] | Some n \<Rightarrow> [argument_name token, digits_of_nat n])
          @ filter_args cfg
              (if \<not> fd_switch f \<and> CHR ''='' \<notin> set token then drop 1 tokens else tokens))"

section \<open>Engine identifiers\<close>

datatype provider_id = Llama | Vllm | MlxVlm | CustomProvider string

fun provider_as_str :: "provider_id \<Rightarrow> string" where
  "provider_as_str Llama = ''llama.cpp''"
| "provider_as_str Vllm = ''vllm''"
| "provider_as_str MlxVlm = ''mlx-vlm''"
| "provider_as_str (CustomProvider i) = i"

definition is_ascii_lowercase :: "char \<Rightarrow> bool" where
  "is_ascii_lowercase c \<longleftrightarrow> 97 \<le> code c \<and> code c \<le> 122"

definition custom_engine_id :: "string \<Rightarrow> bool" where
  "custom_engine_id i \<longleftrightarrow>
     starts_with ''custom.'' i \<and> length i > 7 \<and> length i \<le> 64 \<and> is_ascii_alphanumeric (i ! 7) \<and>
     list_all (\<lambda>b. is_ascii_lowercase b \<or> is_ascii_digit b \<or> b \<in> set ''._-'') i"

definition parse_provider :: "string \<Rightarrow> provider_id option" where
  "parse_provider value =
     (let i = trim value in
      if i = [] \<or> i = ''llama.cpp'' then Some Llama
      else if i = ''vllm'' then Some Vllm
      else if i = ''mlx-vlm'' then Some MlxVlm
      else if custom_engine_id i then Some (CustomProvider i)
      else None)"

definition provider_of :: "app_config \<Rightarrow> provider_id" where
  "provider_of cfg =
     (case parse_provider (cf_active_provider cfg) of None \<Rightarrow> Llama | Some p \<Rightarrow> p)"

section \<open>Lemmas\<close>

lemma argument_name_idem [simp]: "argument_name (argument_name t) = argument_name t"
  by (simp add: argument_name_def takeWhile_idem)

lemma no_equals_argument_name [simp]: "CHR ''='' \<notin> set (argument_name t)"
  by (auto simp: argument_name_def dest: set_takeWhileD)

lemma inherited_field_Some:
  assumes "inherited_field cfg name = Some f"
  shows "f \<in> set tuning_fields \<and> inherited cfg (fd_key f) \<and> name \<in> set (fd_args f)"
  using assms by (auto simp: inherited_field_def find_Some_iff)

lemma inherited_field_None:
  "inherited_field cfg name = None \<longleftrightarrow>
   (\<forall>f \<in> set tuning_fields. inherited cfg (fd_key f) \<longrightarrow> name \<notin> set (fd_args f))"
  by (auto simp: inherited_field_def find_None_iff)

text \<open>Facts about the checked-in catalogue, by evaluation.\<close>

lemma catalogue_facts:
  "list_all (\<lambda>f. list_all (\<lambda>a. take 1 a = ''-'') (fd_args f) \<and>
     (fd_app_default f = None \<or>
      \<not> fd_switch f)) tuning_fields"
  by code_simp

lemma app_defaults_take_values:
  assumes "f \<in> set tuning_fields" and "fd_app_default f = Some n"
  shows "\<not> fd_switch f"
  using catalogue_facts assms by (auto simp: list_all_iff)

lemma code_char_of [simp]: "n < 256 \<Longrightarrow> code (char_of n) = n"
  by (simp add: code_def)

lemma digits_of_nat_digits: "c \<in> set (digits_of_nat n) \<Longrightarrow> is_ascii_digit c"
proof (induction n rule: digits_of_nat.induct)
  case (1 n)
  have "n mod 10 < 10" by simp
  with 1 show ?case
    by (auto simp: digits_of_nat.simps [of n] is_ascii_digit_def split: if_splits)
qed

lemma digits_of_nat_nonempty [simp]: "digits_of_nat n \<noteq> []"
  by (subst digits_of_nat.simps) simp

lemma minus_no_digit: "\<not> is_ascii_digit CHR ''-''" "\<not> is_ascii_digit CHR ''=''"
  by (simp_all add: is_ascii_digit_def code_def)

lemma digits_not_alias:
  assumes "f \<in> set tuning_fields"
  shows "argument_name (digits_of_nat n) \<notin> set (fd_args f)"
proof -
  have "\<forall>a \<in> set (fd_args f). take 1 a = ''-''"
    using catalogue_facts assms by (auto simp: list_all_iff)
  moreover have "take 1 (argument_name (digits_of_nat n)) \<noteq> ''-''"
  proof
    assume "take 1 (argument_name (digits_of_nat n)) = ''-''"
    then have "CHR ''-'' \<in> set (argument_name (digits_of_nat n))" by (metis in_set_takeD list.set_intros(1))
    then show False
      using digits_of_nat_digits minus_no_digit by (auto simp: argument_name_def dest: set_takeWhileD)
  qed
  ultimately show ?thesis by blast
qed

lemma digits_not_inherited:
  assumes "f \<in> set tuning_fields" and "fd_app_default f = Some n"
  shows "inherited_field cfg (argument_name (digits_of_nat n)) = None"
  using digits_not_alias by (auto simp: inherited_field_None)

text \<open>What one replaced setting contributes.\<close>

definition app_default_args :: "string \<Rightarrow> tuning_field \<Rightarrow> string list" where
  "app_default_args name f =
     (case fd_app_default f of None \<Rightarrow> [] | Some n \<Rightarrow> [name, digits_of_nat n])"

lemma filter_args_default:
  assumes "inherited_field cfg (argument_name t) = Some f"
  shows "filter_args cfg (app_default_args (argument_name t) f @ args) =
    app_default_args (argument_name t) f @ filter_args cfg args"
proof (cases "fd_app_default f")
  case (Some n)
  from inherited_field_Some [OF assms] app_defaults_take_values Some have "\<not> fd_switch f" by blast
  with Some assms show ?thesis by (simp add: app_default_args_def)
qed (simp add: app_default_args_def)

lemma filter_args_Cons_Some:
  assumes "inherited_field cfg (argument_name t) = Some f"
  shows "filter_args cfg (t # args) = app_default_args (argument_name t) f @
    filter_args cfg (if \<not> fd_switch f \<and> CHR ''='' \<notin> set t then drop 1 args else args)"
  using assms by (simp add: app_default_args_def)

lemma filter_args_idem: "filter_args cfg (filter_args cfg args) = filter_args cfg args"
proof (induction cfg args rule: filter_args.induct)
  case (2 cfg t args)
  show ?case
  proof (cases "inherited_field cfg (argument_name t)")
    case (Some f)
    then show ?thesis
      using 2(2) [OF Some] by (simp only: filter_args_Cons_Some filter_args_default)
  qed (use 2 in simp)
qed simp

definition kept_argument :: "app_config \<Rightarrow> string set \<Rightarrow> string \<Rightarrow> bool" where
  "kept_argument cfg given t =
     (case inherited_field cfg (argument_name t) of
        Some f \<Rightarrow> fd_app_default f \<noteq> None \<and> argument_name t = t
      | None \<Rightarrow> t \<in> given \<or> (\<exists>f n. f \<in> set tuning_fields \<and> inherited cfg (fd_key f) \<and>
                    fd_app_default f = Some n \<and> t = digits_of_nat n))"

lemma kept_argument_mono: "kept_argument cfg g t \<Longrightarrow> g \<subseteq> h \<Longrightarrow> kept_argument cfg h t"
  by (auto simp: kept_argument_def split: option.splits)

lemma kept_argument_default:
  assumes "inherited_field cfg (argument_name t) = Some f" and "a \<in> set (app_default_args (argument_name t) f)"
  shows "kept_argument cfg g a"
proof -
  from assms(2) obtain n where n: "fd_app_default f = Some n" "a = argument_name t \<or> a = digits_of_nat n"
    by (cases "fd_app_default f") (auto simp: app_default_args_def)
  note f = inherited_field_Some [OF assms(1)]
  from n(2) show ?thesis
  proof
    assume "a = argument_name t"
    with n assms(1) show ?thesis by (simp add: kept_argument_def)
  next
    assume "a = digits_of_nat n"
    with n f digits_not_inherited [of f n cfg] show ?thesis by (auto simp: kept_argument_def)
  qed
qed

lemma filter_args_kept: "t \<in> set (filter_args cfg args) \<Longrightarrow> kept_argument cfg (set args) t"
proof (induction cfg args rule: filter_args.induct)
  case (2 cfg u args)
  show ?case
  proof (cases "inherited_field cfg (argument_name u)")
    case None
    with 2(3) consider "t = u" | "t \<in> set (filter_args cfg args)" by auto
    then show ?thesis
    proof cases
      case 1 with None show ?thesis by (simp add: kept_argument_def)
    next
      case 2
      from "2.IH"(1) [OF None 2] show ?thesis by (rule kept_argument_mono) auto
    qed
  next
    case (Some f)
    define r where "r = (if \<not> fd_switch f \<and> CHR ''='' \<notin> set u then drop 1 args else args)"
    from 2(3) Some consider "t \<in> set (app_default_args (argument_name u) f)"
      | "t \<in> set (filter_args cfg r)"
      by (auto simp only: filter_args_Cons_Some set_append Un_iff r_def)
    then show ?thesis
    proof cases
      case 1 with Some show ?thesis by (blast intro: kept_argument_default)
    next
      case 2
      from "2.IH"(2) [OF Some] 2 have "kept_argument cfg (set r) t" by (simp only: r_def)
      then show ?thesis by (rule kept_argument_mono) (auto simp: r_def dest: in_set_dropD)
    qed
  qed
qed simp

section \<open>Properties\<close>

text \<open>A setting left to the runtime reaches it only as the application's own default: after
  filtering, an argument that spells an inherited setting belongs to one the application insists
  on and carries no inline value; every other argument was given or is such a default's value;
  and filtering again changes nothing.\<close>

lemma filter_args_keeps_no_override:
  "filter_args cfg (filter_args cfg args) = filter_args cfg args \<and>
   list_all (kept_argument cfg (set args)) (filter_args cfg args)"
  by (simp add: filter_args_idem list_all_iff filter_args_kept)

end
