(* ===== verification/Server.thy ===== *)
theory Server
  imports Config OutputBuffers
begin

text \<open>
  One model process and its state: \<open>ServerState\<close>, \<open>ErrBuf\<close>, \<open>kill\<close> and \<open>reap_if_exited\<close> of
  \<open>src-tauri/src/server.rs\<close>.

  An \<open>Instant\<close> is a natural number of nanoseconds and every operation that reads the clock takes
  the current time as an argument. A child is its process id; \<open>kill\<close> returns the ids it
  terminated, so that the owner can account for every process. What \<open>try_wait\<close> answers is an
  argument of \<open>reap_if_exited\<close>. Of the engine description the model keeps the fields that
  readiness reads.
\<close>

section \<open>Lifecycle and server state\<close>

datatype lifecycle = Stopped | Starting | Ready | Stopping | Failed | Crashed

fun lifecycle_str :: "lifecycle \<Rightarrow> string" where
  "lifecycle_str Stopped = ''stopped''"
| "lifecycle_str Starting = ''starting''"
| "lifecycle_str Ready = ''running''"
| "lifecycle_str Stopping = ''stopping''"
| "lifecycle_str Failed = ''failed''"
| "lifecycle_str Crashed = ''crashed''"

fun blocks_resource_change :: "lifecycle \<Rightarrow> bool" where
  "blocks_resource_change Starting = True"
| "blocks_resource_change Ready = True"
| "blocks_resource_change Stopping = True"
| "blocks_resource_change _ = False"

text \<open>The fields of \<open>EngineInfo\<close> that decide about readiness (\<open>providers/protocol.rs\<close>).\<close>

record engine_info =
  ei_provider :: provider_id
  ei_upstream_model :: string
  ei_tasks :: "string list"
  ei_embedding_model :: "string option"

record server_state =
  sv_child :: "nat option"
  sv_url :: string
  sv_api_key :: string
  sv_redaction_secret :: string
  sv_model :: string
  sv_mmproj :: string
  sv_draft_model :: string
  sv_execution :: "app_config option"
  sv_engine :: "engine_info option"
  sv_lifecycle :: lifecycle
  sv_last_error :: "string option"
  sv_last_activity :: nat
  sv_active_requests :: nat
  sv_retired :: bool
  sv_generation :: "64 word"

definition server_new :: "nat \<Rightarrow> server_state" where
  "server_new now =
     \<lparr>sv_child = None, sv_url = [], sv_api_key = [], sv_redaction_secret = [], sv_model = [],
      sv_mmproj = [], sv_draft_model = [], sv_execution = None, sv_engine = None,
      sv_lifecycle = Stopped, sv_last_error = None, sv_last_activity = now,
      sv_active_requests = 0, sv_retired = False, sv_generation = 0\<rparr>"

definition begin_launch :: "server_state \<Rightarrow> server_state \<times> 64 word" where
  "begin_launch s =
     (let s = s\<lparr>sv_execution := None, sv_engine := None, sv_active_requests := 0,
                sv_generation := sv_generation s + 1, sv_lifecycle := Starting\<rparr>
      in (s, sv_generation s))"

definition cancel_launch :: "server_state \<Rightarrow> server_state" where
  "cancel_launch s =
     s\<lparr>sv_execution := None, sv_generation := sv_generation s + 1, sv_lifecycle := Stopped\<rparr>"

definition is_current_launch :: "64 word \<Rightarrow> server_state \<Rightarrow> bool" where
  "is_current_launch g s \<longleftrightarrow> sv_generation s = g"

definition attach_starting ::
  "nat \<Rightarrow> nat \<Rightarrow> string \<Rightarrow> string \<Rightarrow> string \<Rightarrow> string \<Rightarrow> string \<Rightarrow>
   server_state \<Rightarrow> server_state" where
  "attach_starting now child url key model mmproj draft s =
     s\<lparr>sv_child := Some child, sv_url := url, sv_redaction_secret := key, sv_api_key := key,
       sv_model := model, sv_mmproj := mmproj, sv_draft_model := draft,
       sv_lifecycle := Starting, sv_last_error := None, sv_last_activity := now,
       sv_active_requests := 0\<rparr>"

definition touch_activity :: "nat \<Rightarrow> server_state \<Rightarrow> server_state" where
  "touch_activity now s = s\<lparr>sv_last_activity := now\<rparr>"

definition u32_max :: nat where
  "u32_max = 4294967295"

definition begin_request :: "nat \<Rightarrow> server_state \<Rightarrow> server_state" where
  "begin_request now s =
     touch_activity now (s\<lparr>sv_active_requests := min (sv_active_requests s + 1) u32_max\<rparr>)"

definition end_request :: "nat \<Rightarrow> server_state \<Rightarrow> server_state" where
  "end_request now s = touch_activity now (s\<lparr>sv_active_requests := sv_active_requests s - 1\<rparr>)"

definition idle_seconds :: "nat \<Rightarrow> server_state \<Rightarrow> nat" where
  "idle_seconds now s = (now - sv_last_activity s) div 1000000000"

definition auto_unload_due :: "nat \<Rightarrow> int \<Rightarrow> server_state \<Rightarrow> bool" where
  "auto_unload_due now idle s \<longleftrightarrow>
     0 < idle \<and> sv_active_requests s = 0 \<and> nat idle \<le> idle_seconds now s"

section \<open>Diagnostics\<close>

text \<open>\<open>str::replace\<close> for a non-empty pattern: leftmost, non-overlapping occurrences.\<close>

function str_replace :: "string \<Rightarrow> string \<Rightarrow> string \<Rightarrow> string" where
  "str_replace p r [] = []"
| "str_replace p r (x # xs) =
     (if p = [] then x # xs
      else case strip_prefix p (x # xs) of
        Some rest \<Rightarrow> r @ str_replace p r rest
      | None \<Rightarrow> x # str_replace p r xs)"
  by pat_completeness auto
termination
  by (relation "measure (\<lambda>(p, r, s). length s)")
     (auto simp: neq_Nil_conv dest!: strip_prefix_length split: if_splits)

definition redact_text :: "string \<Rightarrow> string \<Rightarrow> string" where
  "redact_text t secret = (if secret = [] then t else str_replace secret ''[REDACTED]'' t)"

text \<open>
  The control characters are ASCII, so stripping the bytes of a UTF-8 text is stripping its
  characters.
\<close>

fun skip_csi :: "string \<Rightarrow> string" where
  "skip_csi [] = []"
| "skip_csi (c # cs) = (if is_ascii_alphabetic c then cs else skip_csi cs)"

fun skip_osc :: "string \<Rightarrow> string" where
  "skip_osc [] = []"
| "skip_osc (c # cs) =
     (if c = CHR 0x07 then cs
      else if c = CHR 0x1B \<and> cs \<noteq> [] \<and> hd cs = CHR 0x5C then tl cs
      else skip_osc cs)"

lemma skip_csi_length: "length (skip_csi s) \<le> length s"
  by (induction s) auto

lemma skip_osc_length: "length (skip_osc s) \<le> length s"
  by (induction s) auto

function strip_ansi :: "string \<Rightarrow> string" where
  "strip_ansi [] = []"
| "strip_ansi (c # cs) =
     (if c \<noteq> CHR 0x1B then c # strip_ansi cs
      else case cs of
        [] \<Rightarrow> []
      | e # rest \<Rightarrow>
          if e = CHR ''['' then strip_ansi (skip_csi rest)
          else if e = CHR '']'' then strip_ansi (skip_osc rest)
          else strip_ansi cs)"
  by pat_completeness auto
termination
  by (relation "measure length")
     (auto simp: less_Suc_eq_le le_Suc_eq skip_csi_length skip_osc_length)

record err_buf =
  eb_inner :: output_buffer
  eb_stdout :: output_buffer
  eb_secret :: string

definition eb_cap :: nat where
  "eb_cap = 4096"

definition eb_new :: err_buf where
  "eb_new = \<lparr>eb_inner = ob_new eb_cap Tail, eb_stdout = ob_new eb_cap Tail, eb_secret = []\<rparr>"

definition eb_set_secret :: "string \<Rightarrow> err_buf \<Rightarrow> err_buf" where
  "eb_set_secret s b = b\<lparr>eb_secret := s\<rparr>"

definition eb_clear_secret :: "err_buf \<Rightarrow> err_buf" where
  "eb_clear_secret b = b\<lparr>eb_secret := []\<rparr>"

text \<open>\<open>None\<close> is the panic of \<open>OutputBuffer::push\<close>, which \<open>ob_push_refines\<close> excludes.\<close>

definition eb_push :: "bytes \<Rightarrow> err_buf \<Rightarrow> err_buf option" where
  "eb_push chunk b = map_option (\<lambda>o'. b\<lparr>eb_inner := o'\<rparr>) (ob_push chunk (eb_inner b))"

definition eb_push_stdout :: "bytes \<Rightarrow> err_buf \<Rightarrow> err_buf option" where
  "eb_push_stdout chunk b = map_option (\<lambda>o'. b\<lparr>eb_stdout := o'\<rparr>) (ob_push chunk (eb_stdout b))"

definition eb_clear :: "err_buf \<Rightarrow> err_buf" where
  "eb_clear b = b\<lparr>eb_inner := ob_clear (eb_inner b), eb_stdout := ob_clear (eb_stdout b)\<rparr>"

definition newline :: string where
  "newline = [CHR 0x0A]"

definition eb_tail :: "err_buf \<Rightarrow> string" where
  "eb_tail b =
     (let bytes = ob_snapshot (eb_inner b);
          stdout = ob_snapshot (eb_stdout b);
          stderr = from_utf8_lossy bytes;
          t = (if stdout = [] then stderr
               else if bytes = [] then ''[stdout]'' @ newline @ from_utf8_lossy stdout
               else ''[stdout]'' @ newline @ from_utf8_lossy stdout @ newline
                      @ ''[stderr]'' @ newline @ stderr);
          secret = eb_secret b;
          t = strip_ansi (redact_text t secret)
      in redact_text t (strip_ansi secret))"

section \<open>Killing and reaping the process\<close>

text \<open>\<open>kill\<close> on the child slot and its diagnostics; the third result lists what it terminated.\<close>

definition kill_child ::
  "nat option \<Rightarrow> err_buf option \<Rightarrow> nat option \<times> err_buf option \<times> nat list" where
  "kill_child child err =
     (None, map_option (\<lambda>b. eb_clear_secret (eb_clear b)) err,
      case child of None \<Rightarrow> [] | Some pid \<Rightarrow> [pid])"

datatype probe = Running | Exited "int option" | InspectError string

definition mark_crashed :: "server_state \<Rightarrow> server_state" where
  "mark_crashed s =
     s\<lparr>sv_api_key := [], sv_redaction_secret := [], sv_mmproj := [], sv_lifecycle := Crashed,
       sv_active_requests := 0, sv_execution := None\<rparr>"

definition with_tail :: "string \<Rightarrow> string \<Rightarrow> string" where
  "with_tail message t = (if trim t = [] then message else message @ ''. '' @ trim t)"

text \<open>
  The last error of a reaped process. A child that is gone without a status counts as exited
  with code 0 (\<open>ExitStatus::default()\<close>). The third result is the processes the step disposed of:
  a terminated child, or a child whose exit has been observed.
\<close>

definition reap_if_exited ::
  "probe \<Rightarrow> server_state \<Rightarrow> err_buf \<Rightarrow> server_state \<times> err_buf \<times> nat list" where
  "reap_if_exited p s err =
     (if sv_lifecycle s \<noteq> Ready then (s, err, [])
      else
        let gone = (\<lambda>status.
              let s' = mark_crashed (s\<lparr>sv_child := None\<rparr>);
                  shown = (case status of None \<Rightarrow> ''signal'' | Some c \<Rightarrow> show_int c)
              in (s'\<lparr>sv_last_error :=
                       Some (with_tail (''inference server exited unexpectedly ('' @ shown @ '')'')
                               (eb_tail err))\<rparr>,
                  err, case sv_child s of None \<Rightarrow> [] | Some pid \<Rightarrow> [pid]))
        in case sv_child s of
             None \<Rightarrow> gone (Some 0)
           | Some pid \<Rightarrow>
               (case p of
                  Running \<Rightarrow> (s, err, [])
                | Exited status \<Rightarrow> gone status
                | InspectError e \<Rightarrow>
                    let t = eb_tail err;
                        (child, err', killed) = kill_child (sv_child s) (Some err);
                        s' = mark_crashed (s\<lparr>sv_child := child\<rparr>)
                    in (s'\<lparr>sv_last_error :=
                             Some (with_tail (''failed to inspect server process: '' @ e) t)\<rparr>,
                        the err', killed)))"

section \<open>Redaction\<close>

text \<open>
  A block that avoids the brackets of the marker occurs in the redacted text only where it
  already was, and the redacted block itself nowhere.
\<close>

lemma prefix_str_replace:
  assumes "prefix w (str_replace p (m # r) s)" and "m \<notin> set w"
  shows "prefix w s"
  using assms
proof (induction p "m # r" s arbitrary: w rule: str_replace.induct)
  case (2 p x xs)
  then show ?case
    by (cases w) (auto split: if_splits option.splits)
qed simp

lemma sublist_around:
  assumes "sublist p (a @ m # b)" and "m \<notin> set p"
  shows "sublist p a \<or> sublist p b"
proof -
  have *: "prefix q (m # b) \<Longrightarrow> m \<notin> set q \<Longrightarrow> q = []" for q
    by (cases q) auto
  from assms(1) consider "sublist p a" | "sublist p (m # b)"
    | p1 p2 where "p = p1 @ p2" "suffix p1 a" "prefix p2 (m # b)"
    by (auto simp: sublist_append)
  then show ?thesis
  proof cases
    case 2
    then show ?thesis
      using * assms(2) by (auto simp: sublist_Cons_right)
  next
    case 3
    then show ?thesis
      using * [OF 3(3)] assms(2) by auto
  qed simp
qed

lemma str_replace_removes:
  assumes "p \<noteq> []" and "m1 \<notin> set p" and "m2 \<notin> set p" and "\<not> sublist p mid"
  shows "\<not> sublist p (str_replace p (m1 # mid @ [m2]) s)"
  using assms
proof (induction p "m1 # mid @ [m2]" s rule: str_replace.induct)
  case (2 p x xs)
  show ?case
  proof (cases "strip_prefix p (x # xs)")
    case None
    have "\<not> prefix p (x # str_replace p (m1 # mid @ [m2]) xs)"
    proof
      assume "prefix p (x # str_replace p (m1 # mid @ [m2]) xs)"
      then obtain w where "p = x # w" "prefix w (str_replace p (m1 # mid @ [m2]) xs)"
        using 2(3) by (cases p) auto
      then have "prefix p (x # xs)"
        using prefix_str_replace [of w p m1 "mid @ [m2]" xs] 2(4) by simp
      with None show False by (simp add: strip_prefix_None_iff)
    qed
    with 2 None show ?thesis by (simp add: sublist_Cons_right)
  next
    case (Some rest)
    let ?out = "str_replace p (m1 # mid @ [m2]) rest"
    have "\<not> sublist p ?out" using 2 Some by simp
    then have "\<not> sublist p (mid @ m2 # ?out)"
      using sublist_around [of p mid m2 ?out] 2 by blast
    then have "\<not> sublist p ([] @ m1 # mid @ m2 # ?out)"
      using sublist_around [of p "[]" m1 "mid @ m2 # ?out"] 2 by auto
    with Some 2(3) show ?thesis by simp
  qed
qed simp

lemma strip_ansi_no_escape: "CHR 0x1B \<notin> set s \<Longrightarrow> strip_ansi s = s"
  by (induction s rule: strip_ansi.induct) auto

definition redactable :: "string \<Rightarrow> bool" where
  "redactable secret \<longleftrightarrow> secret \<noteq> [] \<and> CHR 0x1B \<notin> set secret \<and> CHR ''['' \<notin> set secret \<and>
     CHR '']'' \<notin> set secret \<and> \<not> sublist secret ''REDACTED''"

lemma redact_text_removes:
  assumes "redactable secret"
  shows "\<not> sublist secret (redact_text t secret)"
proof -
  have r: "redact_text t secret = str_replace secret (CHR ''['' # ''REDACTED'' @ [CHR '']'']) t"
    using assms by (simp add: redact_text_def redactable_def)
  show ?thesis
    unfolding r by (rule str_replace_removes) (use assms in \<open>auto simp only: redactable_def\<close>)
qed

text \<open>A log in which a colour sequence splits one of the two copies of the key.\<close>

definition split_key_log :: err_buf where
  "split_key_log =
     \<lparr>eb_inner = \<lparr>ob_bytes = ''key lb-'' @ [CHR 0x1B] @ ''[1mab7'', ob_cap = eb_cap,
                  ob_retain = Tail\<rparr>,
      eb_stdout = \<lparr>ob_bytes = ''use lb-ab7'', ob_cap = eb_cap, ob_retain = Tail\<rparr>,
      eb_secret = ''lb-ab7''\<rparr>"

section \<open>Properties\<close>

text \<open>C33. The diagnostics shown to the user never contain the private key of the model process,
  whatever the process wrote and however terminal control sequences split the key: the key has
  no bracket or escape character (the generated keys are \<open>lb-\<close> and 32 hexadecimal digits).\<close>

theorem tail_hides_secret:
  assumes "redactable (eb_secret b)"
  shows "\<not> sublist (eb_secret b) (eb_tail b)"
proof -
  from assms have "strip_ansi (eb_secret b) = eb_secret b"
    by (simp add: redactable_def strip_ansi_no_escape)
  with redact_text_removes [OF assms] show ?thesis
    by (simp add: eb_tail_def Let_def)
qed

theorem tail_hides_secret_witness:
  "redactable (eb_secret split_key_log) \<and> \<not> sublist (eb_secret split_key_log) (eb_tail split_key_log)"
proof -
  have "redactable (eb_secret split_key_log)"
    by (simp add: redactable_def split_key_log_def sublist_code)
  with tail_hides_secret [OF this] show ?thesis by (rule conjI [rotated])
qed

end
