(* ===== verification/Sessions.thy ===== *)
theory Sessions
  imports Server
begin

text \<open>
  The session registry of \<open>src-tauri/src/session.rs\<close> and the part of the application state
  (\<open>state.rs\<close>) the model processes live in.

  The \<open>Arc<Mutex<ServerState>>\<close> of a session is shared by the registry, by launches in flight and
  by API leases, and it outlives its registry entry. So states live in a store of cells and an
  entry, a launch or a lease holds an address; address 0 is the default session. A cell also
  holds its \<open>ErrBuf\<close> and whether its mutex is poisoned. The \<open>Arc<AtomicBool>\<close> of a pending start
  is an index into a store of flags. \<open>wd_spawned\<close> and \<open>wd_gone\<close> are the traces of the processes created, and of those terminated
  or reaped.
\<close>

record cell =
  cl_state :: "server_state"
  cl_poisoned :: bool
  cl_err :: err_buf

record session_entry =
  se_name :: string
  se_addr :: nat

record world =
  wd_cells :: "cell list"
  wd_extra :: "(string \<times> session_entry) list"
  wd_extra_poisoned :: bool
  wd_pending :: "(string \<times> nat list) list"
  wd_pending_poisoned :: bool
  wd_flags :: "bool list"
  wd_runtime_busy :: bool
  wd_exiting :: bool
  wd_now :: nat
  wd_spawned :: "nat list"
  wd_gone :: "nat list"

definition default_session_id :: string where
  "default_session_id = ''default''"

definition new_cell :: "nat \<Rightarrow> cell" where
  "new_cell now = \<lparr>cl_state = server_new now, cl_poisoned = False, cl_err = eb_new\<rparr>"

definition world_new :: "nat \<Rightarrow> world" where
  "world_new now =
     \<lparr>wd_cells = [new_cell now], wd_extra = [], wd_extra_poisoned = False, wd_pending = [],
      wd_pending_poisoned = False, wd_flags = [], wd_runtime_busy = False, wd_exiting = False,
      wd_now = now, wd_spawned = [], wd_gone = []\<rparr>"

text \<open>Reading and updating one cell under its lock.\<close>

definition cell_at :: "nat \<Rightarrow> world \<Rightarrow> cell" where
  "cell_at a w = wd_cells w ! a"

definition state_at :: "nat \<Rightarrow> world \<Rightarrow> server_state" where
  "state_at a w = cl_state (cell_at a w)"

definition put_cell :: "nat \<Rightarrow> server_state \<Rightarrow> err_buf \<Rightarrow> nat list \<Rightarrow> world \<Rightarrow> world" where
  "put_cell a s e killed w =
     w\<lparr>wd_cells := (wd_cells w)[a := (cell_at a w)\<lparr>cl_state := s, cl_err := e\<rparr>],
       wd_gone := wd_gone w @ killed\<rparr>"

definition put_state :: "nat \<Rightarrow> server_state \<Rightarrow> world \<Rightarrow> world" where
  "put_state a s w = put_cell a s (cl_err (cell_at a w)) [] w"

section \<open>The registry\<close>

definition reg_entries :: "world \<Rightarrow> (string \<times> nat) list" where
  "reg_entries w = map (\<lambda>(i, e). (i, se_addr e)) (wd_extra w)"

definition reg_ids :: "world \<Rightarrow> string list" where
  "reg_ids w = (if wd_extra_poisoned w then [] else map fst (wd_extra w))"

definition reg_get :: "string \<Rightarrow> world \<Rightarrow> session_entry option" where
  "reg_get i w = (if wd_extra_poisoned w then None else map_of (wd_extra w) i)"

record pending_guard =
  pg_id :: string
  pg_flag :: nat

definition begin_pending_start :: "string \<Rightarrow> world \<Rightarrow> string + (pending_guard \<times> world)" where
  "begin_pending_start i w =
     (if wd_pending_poisoned w then Inl ''pending session registry lock was poisoned''
      else
        let flag = length (wd_flags w);
            tokens = (case map_of (wd_pending w) i of None \<Rightarrow> [] | Some ts \<Rightarrow> ts)
        in Inr (\<lparr>pg_id = i, pg_flag = flag\<rparr>,
             w\<lparr>wd_flags := wd_flags w @ [False],
               wd_pending := (i, tokens @ [flag]) # map_remove i (wd_pending w)\<rparr>))"

definition pending_drop :: "pending_guard \<Rightarrow> world \<Rightarrow> world" where
  "pending_drop g w =
     (case map_of (wd_pending w) (pg_id g) of
        None \<Rightarrow> w
      | Some tokens \<Rightarrow>
          let tokens' = filter (\<lambda>t. t \<noteq> pg_flag g) tokens;
              rest = map_remove (pg_id g) (wd_pending w)
          in w\<lparr>wd_pending := (if tokens' = [] then rest else (pg_id g, tokens') # rest)\<rparr>)"

definition raise_flags :: "nat list \<Rightarrow> bool list \<Rightarrow> bool list" where
  "raise_flags ts fs = fold (\<lambda>t fs. fs[t := True]) ts fs"

definition cancel_pending_start :: "string \<Rightarrow> world \<Rightarrow> world" where
  "cancel_pending_start i w =
     (case map_of (wd_pending w) i of
        None \<Rightarrow> w
      | Some tokens \<Rightarrow> w\<lparr>wd_flags := raise_flags tokens (wd_flags w)\<rparr>)"

definition cancel_all_pending_starts :: "world \<Rightarrow> world" where
  "cancel_all_pending_starts w =
     w\<lparr>wd_flags := fold (\<lambda>(_, tokens). raise_flags tokens) (wd_pending w) (wd_flags w)\<rparr>"

definition get_or_create :: "string \<Rightarrow> string \<Rightarrow> world \<Rightarrow> string + (nat \<times> world)" where
  "get_or_create i name w =
     (if wd_extra_poisoned w then Inl ''session registry lock was poisoned''
      else case map_of (wd_extra w) i of
        Some e \<Rightarrow> Inr (se_addr e, w)
      | None \<Rightarrow>
          let a = length (wd_cells w) in
          Inr (a, w\<lparr>wd_cells := wd_cells w @ [new_cell (wd_now w)],
                    wd_extra := (i, \<lparr>se_name = name, se_addr = a\<rparr>) # wd_extra w\<rparr>))"

definition forget :: "string \<Rightarrow> world \<Rightarrow> nat option \<times> world" where
  "forget i w =
     (case map_of (wd_extra w) i of
        None \<Rightarrow> (None, w)
      | Some e \<Rightarrow>
          let a = se_addr e;
              w = w\<lparr>wd_extra := map_remove i (wd_extra w)\<rparr>;
              s = cancel_launch ((state_at a w)\<lparr>sv_retired := True\<rparr>);
              (child, err, killed) = kill_child (sv_child s) (Some (cl_err (cell_at a w)));
              w = put_cell a (s\<lparr>sv_child := child\<rparr>) (the err) killed w
          in (Some a, cancel_pending_start i w))"

text \<open>\<open>port_of\<close> is \<open>port_from_url\<close>, which calls a URL parser outside the repository.\<close>

definition claimed_ports_excluding ::
  "(string \<Rightarrow> nat option) \<Rightarrow> string \<Rightarrow> world \<Rightarrow> nat list" where
  "claimed_ports_excluding port_of excluded w =
     List.map_filter
       (\<lambda>(_, a). if cl_poisoned (cell_at a w) then None
                else if sv_lifecycle (state_at a w) \<noteq> Stopped
                then port_of (sv_url (state_at a w)) else None)
       (filter (\<lambda>(i, _). i \<noteq> excluded) (reg_entries w))"

definition claimed_ports :: "(string \<Rightarrow> nat option) \<Rightarrow> world \<Rightarrow> nat list" where
  "claimed_ports port_of w = claimed_ports_excluding port_of [] w"

definition ids_to_stop_for_policy :: "string list \<Rightarrow> string \<Rightarrow> string list" where
  "ids_to_stop_for_policy all_ids starting = filter (\<lambda>i. i \<noteq> starting) all_ids"

text \<open>
  \<open>os n\<close> is what the operating system answers when the n-th ephemeral port is reserved: a port,
  or the error message of the bind or of the address query.
\<close>

fun pick_port_loop :: "nat \<Rightarrow> (nat \<Rightarrow> string + nat) \<Rightarrow> nat list \<Rightarrow> string + nat" where
  "pick_port_loop 0 os excluded =
     Inl ''could not find a free port for this session after multiple attempts''"
| "pick_port_loop (Suc n) os excluded =
     (case os n of
        Inl e \<Rightarrow> Inl e
      | Inr port \<Rightarrow> if port \<notin> set excluded then Inr port else pick_port_loop n os excluded)"

definition pick_port :: "(nat \<Rightarrow> string + nat) \<Rightarrow> nat list \<Rightarrow> string + nat" where
  "pick_port os excluded = pick_port_loop 16 os excluded"

definition effective_port :: "(nat \<Rightarrow> string + nat) \<Rightarrow> nat \<Rightarrow> nat list \<Rightarrow> string + nat" where
  "effective_port os requested excluded =
     (if requested \<noteq> 0 \<and> requested \<notin> set excluded then Inr requested else pick_port os excluded)"

section \<open>Status\<close>

record summary =
  sm_id :: string
  sm_name :: string
  sm_state :: string
  sm_url :: "string option"
  sm_model :: "string option"
  sm_mmproj :: "string option"
  sm_draft_model :: "string option"
  sm_pid :: "nat option"
  sm_active_requests :: nat
  sm_idle_seconds :: nat

record status = summary +
  ss_engine :: "engine_info option"
  ss_api_key :: "string option"
  ss_log_tail :: "string option"
  ss_error :: "string option"
  ss_execution :: "string option"

definition if_set :: "string \<Rightarrow> string option" where
  "if_set s = (if s = [] then None else Some s)"

definition build_summary ::
  "probe \<Rightarrow> nat \<Rightarrow> string \<Rightarrow> string \<Rightarrow> server_state \<Rightarrow> err_buf \<Rightarrow>
   summary \<times> server_state \<times> err_buf \<times> nat list" where
  "build_summary p now i name s err =
     (let (s, err, killed) = reap_if_exited p s err
      in (\<lparr>sm_id = i, sm_name = name, sm_state = lifecycle_str (sv_lifecycle s),
           sm_url = if_set (sv_url s), sm_model = if_set (sv_model s),
           sm_mmproj = if_set (sv_mmproj s), sm_draft_model = if_set (sv_draft_model s),
           sm_pid = sv_child s, sm_active_requests = sv_active_requests s,
           sm_idle_seconds = idle_seconds now s\<rparr>, s, err, killed))"

text \<open>\<open>snap\<close> is \<open>config::execution::snapshot\<close>, the JSON projection of the configuration.\<close>

definition build_status ::
  "(app_config \<Rightarrow> string) \<Rightarrow> probe \<Rightarrow> nat \<Rightarrow> string \<Rightarrow> string \<Rightarrow> server_state \<Rightarrow> err_buf \<Rightarrow>
   status \<times> server_state \<times> err_buf \<times> nat list" where
  "build_status snap p now i name s err =
     (let (summary, s, err, killed) = build_summary p now i name s err;
          log_tail = eb_tail err
      in (summary.extend summary
            \<lparr>ss_engine = sv_engine s,
             ss_api_key = (if sv_lifecycle s = Ready \<and> sv_api_key s \<noteq> [] then Some (sv_api_key s)
                           else None),
             ss_log_tail = (if trim log_tail \<noteq> [] then Some log_tail else None),
             ss_error = map_option (\<lambda>e. redact_text e (sv_redaction_secret s)) (sv_last_error s),
             ss_execution = map_option snap (sv_execution s)\<rparr>, s, err, killed))"

end
