(* ===== verification/Launch.thy ===== *)
theory Launch
  imports Sessions
begin

text \<open>
  Starting, stopping and replacing models: \<open>src-tauri/src/commands/server.rs\<close> and \<open>wait_ready\<close> of
  \<open>src-tauri/src/server.rs\<close>.

  Every lock region of the code is one function on the \<open>world\<close>. \<open>start_on_target\<close> composes its
  regions in order and lets the rest of the application run in between: \<open>env i\<close> is an arbitrary
  change of the world at the i-th point where the code holds no lock. What the launched process,
  the network and the operating system answer is an argument (\<open>launch_io\<close>, \<open>poll\<close>).
\<close>

section \<open>Admission\<close>

definition flag_at :: "nat \<Rightarrow> world \<Rightarrow> bool" where
  "flag_at f w = wd_flags w ! f"

definition lock_poisoned_message :: string where
  "lock_poisoned_message = ''server state lock was poisoned''"

definition ensure_launch_allowed :: "nat \<Rightarrow> world \<Rightarrow> string + unit" where
  "ensure_launch_allowed f w =
     (if wd_runtime_busy w then
        Inl ''a runtime operation is in progress; wait for it to finish before starting the server''
      else if wd_exiting w then Inl ''application is exiting''
      else if flag_at f w then Inl ''server start cancelled''
      else Inr ())"

definition busy_target :: "server_state \<Rightarrow> bool" where
  "busy_target s \<longleftrightarrow> blocks_resource_change (sv_lifecycle s) \<and> 0 < sv_active_requests s"

definition finish_in_session :: "string \<Rightarrow> string" where
  "finish_in_session i =
     ''finish or stop the active response in session '' @ [CHR 0x27] @ i @ [CHR 0x27]
       @ '' before loading a model''"

fun check_idle :: "world \<Rightarrow> (string \<times> nat) list \<Rightarrow> string + unit" where
  "check_idle w [] = Inr ()"
| "check_idle w ((i, a) # rest) =
     (if cl_poisoned (cell_at a w) then Inl lock_poisoned_message
      else if busy_target (state_at a w) then Inl (finish_in_session i)
      else check_idle w rest)"

definition ensure_no_active_requests :: "string \<Rightarrow> bool \<Rightarrow> world \<Rightarrow> string + unit" where
  "ensure_no_active_requests target stop_existing w =
     check_idle w
       ((if target = default_session_id \<or> stop_existing then [(default_session_id, 0)] else [])
        @ filter (\<lambda>(i, _). stop_existing \<or> i = target) (reg_entries w))"

section \<open>Stopping\<close>

definition clear_identity :: "server_state \<Rightarrow> server_state" where
  "clear_identity s =
     s\<lparr>sv_url := [], sv_api_key := [], sv_redaction_secret := [], sv_model := [], sv_mmproj := [],
       sv_draft_model := []\<rparr>"

definition stop_target ::
  "nat \<Rightarrow> server_state \<Rightarrow> err_buf \<Rightarrow> server_state \<times> err_buf \<times> nat list" where
  "stop_target now s err =
     (let s = s\<lparr>sv_lifecycle := Stopping\<rparr>;
          (child, err', killed) = kill_child (sv_child s) (Some err);
          s = clear_identity (cancel_launch (s\<lparr>sv_child := child\<rparr>));
          s = s\<lparr>sv_last_error := None, sv_active_requests := 0\<rparr>
      in (touch_activity now s, the err', killed))"

definition stop_cell :: "nat \<Rightarrow> world \<Rightarrow> world" where
  "stop_cell a w =
     (let (s, err, killed) = stop_target (wd_now w) (state_at a w) (cl_err (cell_at a w))
      in put_cell a s err killed w)"

text \<open>
  All targets stay locked from the check to the teardown, so the whole operation is one step.
\<close>

fun check_replacement :: "world \<Rightarrow> (string \<times> nat) list \<Rightarrow> string + unit" where
  "check_replacement w [] = Inr ()"
| "check_replacement w ((i, a) # rest) =
     (if busy_target (state_at a w) then Inl (finish_in_session i) else check_replacement w rest)"

definition sorted_targets :: "world \<Rightarrow> (string \<times> nat) list" where
  "sorted_targets w = sort_key fst ((default_session_id, 0) # reg_entries w)"

definition stop_models_for_replacement :: "string \<Rightarrow> world \<Rightarrow> (string + unit) \<times> world" where
  "stop_models_for_replacement target w =
     (let targets = sorted_targets w in
      if list_ex (\<lambda>(_, a). cl_poisoned (cell_at a w)) targets then (Inl lock_poisoned_message, w)
      else case check_replacement w targets of
        Inl e \<Rightarrow> (Inl e, w)
      | Inr _ \<Rightarrow>
          (Inr (),
           fold (\<lambda>(i, a) w. stop_cell a (if i \<noteq> target then cancel_pending_start i w else w))
             targets w))"

definition ensure_can_unload :: "server_state \<Rightarrow> string + unit" where
  "ensure_can_unload s =
     (if busy_target s then Inl ''finish or stop the active response before unloading this model''
      else Inr ())"

definition stop_locked :: "nat \<Rightarrow> world \<Rightarrow> (string + unit) \<times> world" where
  "stop_locked a w =
     (if cl_poisoned (cell_at a w) then (Inl lock_poisoned_message, w)
      else case ensure_can_unload (state_at a w) of
        Inl e \<Rightarrow> (Inl e, w)
      | Inr _ \<Rightarrow> (Inr (), stop_cell a w))"

definition stop_session_by_id :: "string \<Rightarrow> world \<Rightarrow> (string + unit) \<times> world" where
  "stop_session_by_id i w =
     (let w = cancel_pending_start i w in
      if i = default_session_id then stop_locked 0 w
      else case reg_get i w of
        None \<Rightarrow> (Inr (), w)
      | Some e \<Rightarrow> stop_locked (se_addr e) w)"

definition stop_server :: "world \<Rightarrow> (string + unit) \<times> world" where
  "stop_server w = stop_session_by_id default_session_id (cancel_pending_start default_session_id w)"

section \<open>Activity and idle unloading\<close>

definition activity_target :: "string option \<Rightarrow> world \<Rightarrow> string + nat" where
  "activity_target session w =
     (case Option.bind session (\<lambda>s. if trim s \<noteq> [] then Some (trim s) else None) of
        None \<Rightarrow> Inr 0
      | Some i \<Rightarrow>
          if i = default_session_id then Inr 0
          else case reg_get i w of
            None \<Rightarrow> Inl (''session is not running: '' @ i)
          | Some e \<Rightarrow> Inr (se_addr e))"

definition server_activity :: "string \<Rightarrow> string option \<Rightarrow> world \<Rightarrow> (string + unit) \<times> world" where
  "server_activity phase session w =
     (case activity_target session w of
        Inl e \<Rightarrow> (Inl e, w)
      | Inr a \<Rightarrow>
          let s = state_at a w in
          if cl_poisoned (cell_at a w) then (Inl lock_poisoned_message, w)
          else if sv_lifecycle s \<noteq> Ready then
            (Inl ''server is not ready for activity tracking'', w)
          else if phase = ''start'' then (Inr (), put_state a (begin_request (wd_now w) s) w)
          else if phase = ''end'' then (Inr (), put_state a (end_request (wd_now w) s) w)
          else if phase = ''touch'' then (Inr (), put_state a (touch_activity (wd_now w) s) w)
          else (Inl ''server activity phase must be start, end, or touch'', w))"

definition idle_due :: "nat \<Rightarrow> server_state \<Rightarrow> bool" where
  "idle_due now s \<longleftrightarrow>
     sv_lifecycle s = Ready
     \<and> (case sv_execution s of None \<Rightarrow> False
        | Some cfg \<Rightarrow> auto_unload_due now (app_idle_timeout cfg) s)"

definition clear_err :: "nat \<Rightarrow> world \<Rightarrow> world" where
  "clear_err a w = put_cell a (state_at a w) (eb_clear (cl_err (cell_at a w))) [] w"

definition unload_idle_server :: "world \<Rightarrow> bool \<times> world" where
  "unload_idle_server w =
     (if cl_poisoned (cell_at 0 w) \<or> \<not> idle_due (wd_now w) (state_at 0 w) then (False, w)
      else (True, clear_err 0 (stop_cell 0 w)))"

definition unload_idle_named_sessions :: "world \<Rightarrow> world" where
  "unload_idle_named_sessions w =
     fold (\<lambda>(_, a) w.
         if \<not> cl_poisoned (cell_at a w) \<and> idle_due (wd_now w) (state_at a w)
         then clear_err a (stop_cell a w) else w)
       (reg_entries w) w"

text \<open>One round of the watchdog: \<open>None\<close> when it ends because the application exits.\<close>

definition idle_watchdog_round :: "world \<Rightarrow> world option" where
  "idle_watchdog_round w =
     (if wd_exiting w then None
      else Some (unload_idle_named_sessions (snd (unload_idle_server w))))"

section \<open>Waiting for readiness\<close>

text \<open>
  What one round of \<open>wait_ready\<close> observes, with the interference before each of its three lock
  regions. \<open>po_health\<close> is \<open>None\<close> unless the health request answered with a success status; its
  value is the body, as far as it is JSON: the loaded model and the loaded embedding model.
  \<open>po_models\<close> is \<open>None\<close> unless the model list answered with success; its value is the string ids of
  the \<open>data\<close> array, if there is one.
\<close>

record health_body =
  hb_loaded_model :: "string option"
  hb_embedding_model :: "string option"

record poll =
  po_env :: "nat \<Rightarrow> world \<Rightarrow> world"
  po_probe :: probe
  po_health :: "health_body option option"
  po_models :: "string list option option"
  po_owns_listener :: bool
  po_confirm :: "engine_info \<Rightarrow> string + engine_info"

record readiness =
  rd_expected_model :: string
  rd_aliases :: "string list"

definition health_ok :: "engine_info option \<Rightarrow> readiness \<Rightarrow> health_body option option \<Rightarrow> bool" where
  "health_ok engine rd h =
     (case h of
        None \<Rightarrow> False
      | Some body \<Rightarrow>
          (case engine of
             None \<Rightarrow> True
           | Some info \<Rightarrow>
               if ei_provider info \<noteq> MlxVlm then True
               else case body of
                 None \<Rightarrow> False
               | Some hb \<Rightarrow>
                   (\<not> list_ex (\<lambda>t. t = ''generate'') (ei_tasks info)
                      \<or> hb_loaded_model hb = Some (rd_expected_model rd))
                   \<and> (case ei_embedding_model info of
                        None \<Rightarrow> True
                      | Some m \<Rightarrow> hb_embedding_model hb = Some m)))"

definition confirmed_model :: "engine_info option \<Rightarrow> readiness \<Rightarrow> string list option \<Rightarrow> string option"
where
  "confirmed_model engine rd ids =
     (let listed = Option.bind ids
            (List.find (\<lambda>i. i = rd_expected_model rd \<or> list_ex (\<lambda>x. x = i) (rd_aliases rd)))
      in case (case listed of None \<Rightarrow> None | Some i \<Rightarrow> if trim i \<noteq> [] then Some i else None) of
           Some i \<Rightarrow> Some i
         | None \<Rightarrow>
             (case engine of
                None \<Rightarrow> None
              | Some info \<Rightarrow>
                  if ei_provider info = MlxVlm then Some (rd_expected_model rd) else None))"

text \<open>
  The only characters outside ASCII whose upper-case form is a letter of the pattern are the long
  s and the dotless i; no lower-case form outside ASCII is a letter of the other two patterns.
\<close>

definition to_ascii_uppercase :: "char \<Rightarrow> char" where
  "to_ascii_uppercase c = (if 97 \<le> code c \<and> code c \<le> 122 then char_of (code c - 32) else c)"

definition split_mode_upper :: "string \<Rightarrow> string" where
  "split_mode_upper t =
     map to_ascii_uppercase
       (str_replace [CHR 0xC4, CHR 0xB1] ''I'' (str_replace [CHR 0xC5, CHR 0xBF] ''S'' t))"

definition split_mode_hint :: "string \<Rightarrow> string" where
  "split_mode_hint t =
     (if find_sub ''SPLIT_MODE_TENSOR'' (split_mode_upper t) \<noteq> None
         \<or> find_sub ''tensor-split'' (map to_ascii_lowercase t) \<noteq> None
         \<or> find_sub ''tensor split'' (map to_ascii_lowercase t) \<noteq> None
      then '' This model does not support the Tensor split mode (experimental). Change GPU split mode to Automatic, layer, or row and try again.''
      else [])"

text \<open>\<open>if let Ok(mut state) = shared.lock() { kill(&mut state.child, None) }\<close>\<close>

definition kill_tracked :: "nat \<Rightarrow> world \<Rightarrow> world" where
  "kill_tracked a w =
     (if cl_poisoned (cell_at a w) then w
      else let s = state_at a w;
               (child, _, killed) = kill_child (sv_child s) None
           in put_cell a (s\<lparr>sv_child := child\<rparr>) (cl_err (cell_at a w)) killed w)"

definition launch_confirmed :: "engine_info \<Rightarrow> string \<Rightarrow> engine_info" where
  "launch_confirmed info model =
     (if ei_provider info = Llama then
        let info = info\<lparr>ei_upstream_model := model\<rparr> in
        if ei_embedding_model info \<noteq> None then info\<lparr>ei_embedding_model := Some model\<rparr> else info
      else info)"

text \<open>
  The end of a successful round: the listener belongs to process \<open>pid\<close>. The result is what the
  launch reports. A poisoned lock is passed over, as in the code.
\<close>

definition finish_ready ::
  "nat \<Rightarrow> poll \<Rightarrow> engine_info option \<Rightarrow> nat \<Rightarrow> string \<Rightarrow> world \<Rightarrow> (string + unit) \<times> world" where
  "finish_ready a p engine pid model w =
     (let confirmed = (case engine of
            None \<Rightarrow> Inr None
          | Some info \<Rightarrow>
              (case po_confirm p (launch_confirmed info model) of
                 Inl e \<Rightarrow> Inl e | Inr info' \<Rightarrow> Inr (Some info')));
          w = po_env p 2 w
      in case confirmed of
           Inl e \<Rightarrow>
             (Inl e, if sv_child (state_at a w) = Some pid then kill_tracked a w else w)
         | Inr info \<Rightarrow>
             if cl_poisoned (cell_at a w) then (Inr (), w)
             else let s = state_at a w in
               if sv_child s \<noteq> Some pid then (Inl ''server start cancelled'', w)
               else
                 let s = (case info of None \<Rightarrow> s | Some i \<Rightarrow> s\<lparr>sv_engine := Some i\<rparr>)
                 in (Inr (), put_state a (s\<lparr>sv_model := model\<rparr>) w))"

text \<open>One round: \<open>Inl\<close> ends the wait with its result, \<open>Inr\<close> says whether the listener was foreign.\<close>

definition wait_round ::
  "nat \<Rightarrow> readiness \<Rightarrow> engine_info option \<Rightarrow> poll \<Rightarrow> world \<Rightarrow>
   (((string + unit) \<times> world) + (bool \<times> world))" where
  "wait_round a rd engine p w =
     (let w = po_env p 0 w in
      if cl_poisoned (cell_at a w) then Inl (Inl lock_poisoned_message, w)
      else if sv_child (state_at a w) = None then
        Inl (Inl ''server process tracking was lost'', w)
      else case po_probe p of
        Exited status \<Rightarrow>
          let w = kill_tracked a w;
              trimmed = trim (eb_tail (cl_err (cell_at a w)));
              shown = (case status of None \<Rightarrow> ''signal'' | Some c \<Rightarrow> show_int c)
          in Inl (Inl (''server exited before ready ('' @ shown @ ''). '' @ trimmed
                         @ split_mode_hint trimmed), w)
      | InspectError e \<Rightarrow>
          Inl (Inl (''failed to inspect server process: '' @ e), kill_tracked a w)
      | Running \<Rightarrow>
          let w = po_env p 1 w in
          (if \<not> health_ok engine rd (po_health p) then Inr (False, w)
           else case po_models p of
             None \<Rightarrow> Inr (False, w)
           | Some ids \<Rightarrow>
               (case confirmed_model engine rd ids of
                  None \<Rightarrow> Inr (False, w)
                | Some model \<Rightarrow>
                    if cl_poisoned (cell_at a w) then Inl (Inl lock_poisoned_message, w)
                    else (case sv_child (state_at a w) of
                        None \<Rightarrow> Inl (Inl ''server process tracking was lost'', w)
                      | Some pid \<Rightarrow>
                          if po_owns_listener p then Inl (finish_ready a p engine pid model w)
                          else Inr (True, w)))))"

text \<open>
  The list holds the rounds that start before the deadline. The message of the timeout carries
  the deadline of the callers, \<open>SERVER_START_TIMEOUT_SECS\<close>.
\<close>

definition server_start_timeout_secs :: nat where
  "server_start_timeout_secs = 600"

fun wait_polls ::
  "nat \<Rightarrow> readiness \<Rightarrow> engine_info option \<Rightarrow> bool \<Rightarrow> poll list \<Rightarrow> world \<Rightarrow> (string + unit) \<times> world"
where
  "wait_polls a rd engine mismatch [] w =
     (let w = kill_tracked a w;
          t = eb_tail (cl_err (cell_at a w));
          ownership = (if mismatch
            then ''the configured port was not owned by the managed server process'' else [])
      in (Inl (''server start timed out after '' @ digits_of_nat server_start_timeout_secs
            @ ''s while waiting for model loading and warmup. '' @ ownership @ '' '' @ trim t), w))"
| "wait_polls a rd engine mismatch (p # ps) w =
     (case wait_round a rd engine p w of
        Inl result \<Rightarrow> result
      | Inr (foreign, w) \<Rightarrow> wait_polls a rd engine (mismatch \<or> foreign) ps w)"

definition wait_ready ::
  "(string \<Rightarrow> nat option) \<Rightarrow> nat \<Rightarrow> string \<Rightarrow> readiness \<Rightarrow> string + poll list \<Rightarrow> world \<Rightarrow>
   (string + unit) \<times> world" where
  "wait_ready port_of a url rd client w =
     (case client of
        Inl e \<Rightarrow> (Inl (''failed to create readiness client: '' @ e), kill_tracked a w)
      | Inr polls \<Rightarrow>
          if cl_poisoned (cell_at a w) then (Inl lock_poisoned_message, w)
          else (case port_of url of
              None \<Rightarrow> (Inl ''server URL has no valid port'', kill_tracked a w)
            | Some _ \<Rightarrow> wait_polls a rd (sv_engine (state_at a w)) False polls w))"

section \<open>Launching\<close>

datatype spawn_outcome =
    SpawnRefused string
  | SpawnFailed string
  | Spawned nat readiness

text \<open>
  \<open>SpawnRefused\<close> fails before \<open>spawn\<close> stores the key in the diagnostics, \<open>SpawnFailed\<close> after; a
  process that a failing \<open>spawn\<close> created is terminated inside it and never has an owner outside.
\<close>

record launch_io =
  io_env :: "nat \<Rightarrow> world \<Rightarrow> world"
  io_ports :: "nat \<Rightarrow> string + nat"
  io_port_of :: "string \<Rightarrow> nat option"
  io_key :: string
  io_probed :: "string + engine_info"
  io_spawn :: spawn_outcome
  io_client :: "string + poll list"

definition private_worker_config :: "(nat \<Rightarrow> string + nat) \<Rightarrow> app_config \<Rightarrow> string + app_config" where
  "private_worker_config os saved =
     (case effective_port os 0 [cf_port saved] of
        Inl e \<Rightarrow> Inl e
      | Inr port \<Rightarrow> Inr (saved\<lparr>cf_port := port\<rparr>))"

definition sot_admit ::
  "(nat \<Rightarrow> string + nat) \<Rightarrow> app_config \<Rightarrow> nat \<Rightarrow> nat \<Rightarrow> world \<Rightarrow>
   string + (64 word \<times> app_config \<times> world)" where
  "sot_admit os saved a f w =
     (let s = state_at a w in
      if cl_poisoned (cell_at a w) then Inl lock_poisoned_message
      else case ensure_launch_allowed f w of
        Inl e \<Rightarrow> Inl e
      | Inr _ \<Rightarrow>
          if sv_retired s then Inl ''session was unloaded''
          else if busy_target s then
            Inl ''finish or stop the active response before replacing this model''
          else case private_worker_config os saved of
            Inl e \<Rightarrow> Inl e
          | Inr worker \<Rightarrow>
              let (s, g) = begin_launch s;
                  s = clear_identity (s\<lparr>sv_last_error := None\<rparr>);
                  (child, err, killed) = kill_child (sv_child s) (Some (cl_err (cell_at a w)))
              in Inr (g, worker, put_cell a (s\<lparr>sv_child := child\<rparr>) (the err) killed w))"

definition launch_guard_drop :: "nat \<Rightarrow> 64 word \<Rightarrow> world \<Rightarrow> world" where
  "launch_guard_drop a g w =
     (let s = state_at a w in
      if is_current_launch g s \<and> sv_lifecycle s = Starting then
        let (child, _, killed) = kill_child (sv_child s) None
        in put_cell a (clear_identity (cancel_launch (s\<lparr>sv_child := child\<rparr>)))
             (cl_err (cell_at a w)) killed w
      else w)"

definition sot_spawn_failed :: "nat \<Rightarrow> 64 word \<Rightarrow> string \<Rightarrow> world \<Rightarrow> string \<times> world" where
  "sot_spawn_failed a g error w =
     (let s = state_at a w in
      if cl_poisoned (cell_at a w) then (lock_poisoned_message, w)
      else if \<not> is_current_launch g s then (''server start cancelled'', w)
      else (error, put_state a (s\<lparr>sv_lifecycle := (if wd_exiting w then Stopped else Failed),
                                 sv_last_error := Some error\<rparr>) w))"

definition cancelled_message :: "world \<Rightarrow> string" where
  "cancelled_message w =
     (if wd_exiting w then ''application is exiting'' else ''server start cancelled'')"

definition launch_obsolete :: "nat \<Rightarrow> 64 word \<Rightarrow> nat \<Rightarrow> world \<Rightarrow> bool" where
  "launch_obsolete a g f w \<longleftrightarrow>
     \<not> is_current_launch g (state_at a w) \<or> wd_exiting w \<or> flag_at f w"

text \<open>
  A child that is not stored is terminated: by \<open>kill\<close>, or by \<open>Drop for Child\<close> when the lock is
  poisoned or a tracked child is overwritten.
\<close>

definition sot_attach ::
  "nat \<Rightarrow> 64 word \<Rightarrow> nat \<Rightarrow> nat \<Rightarrow> string \<Rightarrow> string \<Rightarrow> app_config \<Rightarrow> engine_info \<Rightarrow> world \<Rightarrow>
   (string + unit) \<times> world" where
  "sot_attach a g f pid url key saved engine w =
     (let s = state_at a w; err = cl_err (cell_at a w) in
      if cl_poisoned (cell_at a w) then
        (Inl lock_poisoned_message, w\<lparr>wd_gone := wd_gone w @ [pid]\<rparr>)
      else if launch_obsolete a g f w then
        let (_, err', killed) = kill_child (Some pid) (Some err)
        in (Inl (cancelled_message w),
            put_cell a (clear_identity (s\<lparr>sv_lifecycle := Stopped\<rparr>)) (the err') killed w)
      else
        let draft = (if speculative_enabled saved then cf_spec_draft_model saved else []);
            replaced = (case sv_child s of None \<Rightarrow> [] | Some old \<Rightarrow> [old]);
            s = attach_starting (wd_now w) pid url key (cf_active_model saved) (cf_mmproj saved) draft s
        in (Inr (), put_cell a (s\<lparr>sv_engine := Some engine\<rparr>) err replaced w))"

definition sot_ready ::
  "nat \<Rightarrow> 64 word \<Rightarrow> nat \<Rightarrow> string \<Rightarrow> app_config \<Rightarrow> world \<Rightarrow> (string + string) \<times> world" where
  "sot_ready a g f url saved w =
     (let s = state_at a w in
      if cl_poisoned (cell_at a w) then (Inl lock_poisoned_message, w)
      else if launch_obsolete a g f w then
        let (child, err', killed) = kill_child (sv_child s) (Some (cl_err (cell_at a w)))
        in (Inl (cancelled_message w),
            put_cell a (s\<lparr>sv_child := child, sv_url := [], sv_api_key := [], sv_redaction_secret := [],
                          sv_mmproj := [], sv_draft_model := [], sv_lifecycle := Stopped\<rparr>)
              (the err') killed w)
      else
        (Inr url,
         put_state a (touch_activity (wd_now w)
           (s\<lparr>sv_lifecycle := Ready, sv_execution := Some saved, sv_last_error := None\<rparr>)) w))"

definition sot_not_ready :: "nat \<Rightarrow> 64 word \<Rightarrow> string \<Rightarrow> string \<Rightarrow> world \<Rightarrow> string \<times> world" where
  "sot_not_ready a g url error w =
     (let s = state_at a w in
      if cl_poisoned (cell_at a w) then (lock_poisoned_message, w)
      else if \<not> is_current_launch g s then (''server start cancelled'', w)
      else
        let (child, _, killed) = kill_child (sv_child s) None;
            s = s\<lparr>sv_child := child, sv_url := url, sv_api_key := [], sv_mmproj := [],
                  sv_draft_model := []\<rparr>;
            s = (if wd_exiting w then s\<lparr>sv_url := [], sv_lifecycle := Stopped\<rparr>
                 else s\<lparr>sv_lifecycle := Failed\<rparr>)
        in (error, put_cell a (s\<lparr>sv_last_error := Some error\<rparr>) (cl_err (cell_at a w)) killed w))"

definition set_cell_secret :: "nat \<Rightarrow> string \<Rightarrow> world \<Rightarrow> world" where
  "set_cell_secret a key w = put_cell a (state_at a w) (eb_set_secret key (cl_err (cell_at a w))) [] w"

definition worker_url :: "app_config \<Rightarrow> string" where
  "worker_url worker = ''http://127.0.0.1:'' @ digits_of_nat (cf_port worker) @ ''/v1''"

text \<open>What follows the admission, while the \<open>LaunchGuard\<close> is alive.\<close>

definition launch_admitted ::
  "launch_io \<Rightarrow> app_config \<Rightarrow> app_config \<Rightarrow> nat \<Rightarrow> nat \<Rightarrow> 64 word \<Rightarrow> world \<Rightarrow> (string + string) \<times> world"
where
  "launch_admitted io saved worker a f g w =
     (let w = io_env io 2 (clear_err a (io_env io 1 w)) in
      if cl_poisoned (cell_at a w) then (Inl lock_poisoned_message, w)
      else if \<not> is_current_launch g (state_at a w) \<or> flag_at f w then
        (Inl ''server start cancelled'', w)
      else
        let w = io_env io 3 w in
        case io_probed io of
          Inl e \<Rightarrow> (Inl e, w)
        | Inr engine \<Rightarrow>
            (case io_spawn io of
               SpawnRefused e \<Rightarrow> (let (e, w) = sot_spawn_failed a g e (io_env io 4 w) in (Inl e, w))
             | SpawnFailed e \<Rightarrow>
                 (let (e, w) = sot_spawn_failed a g e (io_env io 4 (set_cell_secret a (io_key io) w))
                  in (Inl e, w))
             | Spawned pid rd \<Rightarrow>
                 let url = worker_url worker;
                     w = set_cell_secret a (io_key io) (w\<lparr>wd_spawned := wd_spawned w @ [pid]\<rparr>);
                     w = io_env io 4 w
                 in case sot_attach a g f pid url (io_key io) saved engine w of
                      (Inl e, w) \<Rightarrow> (Inl e, w)
                    | (Inr _, w) \<Rightarrow>
                        (case wait_ready (io_port_of io) a url rd (io_client io) (io_env io 5 w) of
                           (Inr _, w) \<Rightarrow> sot_ready a g f url saved (io_env io 6 w)
                         | (Inl e, w) \<Rightarrow>
                             (let (e, w) = sot_not_ready a g url e (io_env io 6 w) in (Inl e, w)))))"

definition start_on_target ::
  "launch_io \<Rightarrow> app_config \<Rightarrow> nat \<Rightarrow> nat \<Rightarrow> world \<Rightarrow> (string + string) \<times> world" where
  "start_on_target io saved a f w =
     (case ensure_launch_allowed f w of
        Inl e \<Rightarrow> (Inl e, w)
      | Inr _ \<Rightarrow>
          let w = io_env io 0 w in
          case sot_admit (io_ports io) saved a f w of
            Inl e \<Rightarrow> (Inl e, w)
          | Inr (g, worker, w) \<Rightarrow>
              let (result, w) = launch_admitted io saved worker a f g w
              in (result, launch_guard_drop a g (io_env io 7 w)))"

section \<open>Accounting for processes\<close>

text \<open>
  A process is accounted for while some cell tracks it, or once it was terminated or reaped.
  \<open>grows\<close> is what every operation keeps: no accounted process is lost, no cell disappears, and a
  process created in between is accounted for.
\<close>

definition tracked :: "cell list \<Rightarrow> nat set" where
  "tracked cs = {pid. \<exists>c \<in> set cs. sv_child (cl_state c) = Some pid}"

definition accounted :: "world \<Rightarrow> nat set" where
  "accounted w = set (wd_gone w) \<union> tracked (wd_cells w)"

definition grows :: "world \<Rightarrow> world \<Rightarrow> bool" where
  "grows w w' \<longleftrightarrow> accounted w \<subseteq> accounted w' \<and> length (wd_cells w) \<le> length (wd_cells w') \<and>
     set (wd_spawned w') \<subseteq> set (wd_spawned w) \<union> accounted w'"

lemma grows_refl [simp]: "grows w w"
  by (auto simp: grows_def)

lemma grows_trans: "grows w w' \<Longrightarrow> grows w' w'' \<Longrightarrow> grows w w''"
  unfolding grows_def by fastforce

lemma cells_put_cell [simp]:
  "length (wd_cells (put_cell a s e k w)) = length (wd_cells w)"
  "wd_spawned (put_cell a s e k w) = wd_spawned w"
  "wd_flags (put_cell a s e k w) = wd_flags w"
  "wd_exiting (put_cell a s e k w) = wd_exiting w"
  "wd_gone (put_cell a s e k w) = wd_gone w @ k"
  "wd_extra (put_cell a s e k w) = wd_extra w"
  "wd_pending (put_cell a s e k w) = wd_pending w"
  by (simp_all add: put_cell_def)

lemma state_at_put_cell [simp]:
  "state_at b (put_cell a s e k w) =
     (if a = b \<and> a < length (wd_cells w) then s else state_at b w)"
  by (cases "a = b"; cases "a < length (wd_cells w)")
     (auto simp: state_at_def cell_at_def put_cell_def list_update_beyond)

lemma poisoned_put_cell [simp]:
  "cl_poisoned (cell_at b (put_cell a s e k w)) = cl_poisoned (cell_at b w)"
  by (cases "a = b"; cases "a < length (wd_cells w)")
     (auto simp: cell_at_def put_cell_def list_update_beyond)

lemma tracked_iff: "pid \<in> tracked cs \<longleftrightarrow> (\<exists>i < length cs. sv_child (cl_state (cs ! i)) = Some pid)"
  by (simp add: tracked_def) (metis in_set_conv_nth)

lemma accounted_put_cell:
  assumes "\<And>pid. sv_child (state_at a w) = Some pid \<Longrightarrow> sv_child s = Some pid \<or> pid \<in> set k"
  shows "accounted w \<subseteq> accounted (put_cell a s e k w)"
proof
  fix pid
  assume "pid \<in> accounted w"
  then consider "pid \<in> set (wd_gone w)"
    | i where "i < length (wd_cells w)" "sv_child (cl_state (wd_cells w ! i)) = Some pid"
    by (auto simp: accounted_def tracked_iff)
  then show "pid \<in> accounted (put_cell a s e k w)"
  proof cases
    case 2
    show ?thesis
    proof (cases "i = a \<and> sv_child s \<noteq> Some pid")
      case True
      with 2 assms [of pid] show ?thesis
        by (auto simp: accounted_def put_cell_def state_at_def cell_at_def)
    next
      case False
      with 2 have "sv_child (cl_state (wd_cells (put_cell a s e k w) ! i)) = Some pid"
        by (cases "i = a") (auto simp: put_cell_def)
      with 2 show ?thesis
        by (auto simp: accounted_def tracked_iff intro!: exI [of _ i])
    qed
  qed (simp add: accounted_def)
qed

lemma grows_put_cell:
  assumes "\<And>pid. sv_child (state_at a w) = Some pid \<Longrightarrow> sv_child s = Some pid \<or> pid \<in> set k"
  shows "grows w (put_cell a s e k w)"
  using accounted_put_cell [of a w s k e] assms by (auto simp: grows_def)

lemma grows_same_cells:
  "wd_cells w' = wd_cells w \<Longrightarrow> wd_gone w' = wd_gone w \<Longrightarrow> wd_spawned w' = wd_spawned w \<Longrightarrow> grows w w'"
  by (simp add: grows_def accounted_def)

lemmas child_step_defs = kill_child_def clear_identity_def cancel_launch_def touch_activity_def
  begin_launch_def attach_starting_def mark_crashed_def begin_request_def end_request_def

lemma cancel_pending_start_fields [simp]:
  "wd_cells (cancel_pending_start i w) = wd_cells w"
  "wd_gone (cancel_pending_start i w) = wd_gone w"
  "wd_spawned (cancel_pending_start i w) = wd_spawned w"
  "wd_now (cancel_pending_start i w) = wd_now w"
  "wd_extra (cancel_pending_start i w) = wd_extra w"
  by (auto simp: cancel_pending_start_def split: option.splits)

lemma state_at_cong: "wd_cells w' = wd_cells w \<Longrightarrow> state_at a w' = state_at a w"
  by (simp add: state_at_def cell_at_def)

lemma grows_stop_cell: "grows w (stop_cell a w)"
  unfolding stop_cell_def stop_target_def
  by (auto simp: child_step_defs Let_def intro!: grows_put_cell)

lemma grows_clear_err: "grows w (clear_err a w)"
  by (simp add: clear_err_def grows_put_cell)

lemma grows_set_cell_secret: "grows w (set_cell_secret a key w)"
  by (simp add: set_cell_secret_def grows_put_cell)

lemma grows_kill_tracked: "grows w (kill_tracked a w)"
  unfolding kill_tracked_def by (auto simp: child_step_defs Let_def intro!: grows_put_cell)

lemma grows_launch_guard_drop: "grows w (launch_guard_drop a g w)"
  unfolding launch_guard_drop_def
  by (auto simp: child_step_defs Let_def intro!: grows_put_cell)

lemma grows_sot_spawn_failed: "grows w (snd (sot_spawn_failed a g e w))"
  unfolding sot_spawn_failed_def put_state_def
  by (auto simp: child_step_defs Let_def intro!: grows_put_cell)

lemma grows_sot_ready: "grows w (snd (sot_ready a g f url saved w))"
  unfolding sot_ready_def put_state_def
  by (auto simp: child_step_defs Let_def intro!: grows_put_cell)

lemma grows_sot_not_ready: "grows w (snd (sot_not_ready a g url e w))"
  unfolding sot_not_ready_def put_state_def
  by (auto simp: child_step_defs Let_def intro!: grows_put_cell)

lemma grows_sot_admit: "sot_admit os saved a f w = Inr (g, worker, w') \<Longrightarrow> grows w w'"
  unfolding sot_admit_def
  by (auto simp: child_step_defs Let_def split: if_splits sum.splits intro!: grows_put_cell)

lemma accounted_attached:
  assumes "a < length (wd_cells w)" and "sv_child s = Some pid"
  shows "pid \<in> accounted (put_cell a s e k w)"
  using assms
  by (auto simp: accounted_def tracked_iff put_cell_def intro!: exI [of _ a])

lemma grows_sot_attach: "grows w (snd (sot_attach a g f pid url key saved engine w))"
proof -
  have "grows w (w\<lparr>wd_gone := wd_gone w @ [pid]\<rparr>)"
    by (auto simp: grows_def accounted_def)
  then show ?thesis
    unfolding sot_attach_def
    by (auto simp: child_step_defs Let_def split: option.splits intro!: grows_put_cell)
qed

lemma sot_attach_accounts:
  assumes "a < length (wd_cells w)"
  shows "pid \<in> accounted (snd (sot_attach a g f pid url key saved engine w))"
proof (cases "cl_poisoned (cell_at a w) \<or> launch_obsolete a g f w")
  case True
  then show ?thesis
    by (auto simp: sot_attach_def kill_child_def Let_def accounted_def)
next
  case False
  with assms show ?thesis
    by (auto simp: sot_attach_def child_step_defs Let_def intro!: accounted_attached)
qed

text \<open>The interference of the rest of the application while a launch is running.\<close>

definition poll_grows :: "poll \<Rightarrow> bool" where
  "poll_grows p \<longleftrightarrow> (\<forall>i w. grows w (po_env p i w))"

definition io_grows :: "launch_io \<Rightarrow> bool" where
  "io_grows io \<longleftrightarrow>
     (\<forall>i w. grows w (io_env io i w)) \<and>
     (\<forall>polls. io_client io = Inr polls \<longrightarrow> list_all poll_grows polls)"

lemma grows_finish_ready: "poll_grows p \<Longrightarrow> grows w (snd (finish_ready a p engine pid model w))"
  unfolding finish_ready_def poll_grows_def put_state_def
  by (auto simp: Let_def split: sum.splits option.splits
        intro: grows_trans [OF _ grows_kill_tracked] intro!: grows_trans [OF _ grows_put_cell])

lemma grows_wait_round:
  assumes "poll_grows p"
  shows "case wait_round a rd engine p w of Inl (_, w') \<Rightarrow> grows w w' | Inr (_, w') \<Rightarrow> grows w w'"
proof -
  let ?w0 = "po_env p 0 w" and ?w1 = "po_env p 1 (po_env p 0 w)"
  have 0: "grows w ?w0" and 1: "grows w ?w1"
    using assms by (auto simp: poll_grows_def intro: grows_trans)
  have 2: "grows w (snd (finish_ready a p engine pid model ?w1))" for pid model
    using 1 grows_finish_ready [OF assms] by (rule grows_trans)
  have 3: "grows w (kill_tracked a ?w0)"
    using 0 grows_kill_tracked by (rule grows_trans)
  show ?thesis
    unfolding wait_round_def Let_def
    using 0 1 2 3 by (simp add: case_prod_beta split: probe.split option.split)
qed

lemma grows_wait_polls:
  "list_all poll_grows ps \<Longrightarrow> grows w (snd (wait_polls a rd engine m ps w))"
proof (induction ps arbitrary: m w)
  case Nil
  show ?case by (simp add: Let_def grows_kill_tracked)
next
  case (Cons p ps)
  with grows_wait_round [of p w a rd engine] show ?case
    by (auto split: sum.splits intro: grows_trans)
qed

lemma grows_wait_ready:
  assumes "\<forall>polls. client = Inr polls \<longrightarrow> list_all poll_grows polls"
  shows "grows w (snd (wait_ready port_of a url rd client w))"
  using assms grows_kill_tracked grows_wait_polls
  by (auto simp: wait_ready_def split: sum.splits option.splits)

lemma grows_spawned:
  assumes "grows (w\<lparr>wd_spawned := wd_spawned w @ [pid]\<rparr>) w'" and "pid \<in> accounted w'"
  shows "grows w w'"
  using assms by (auto simp: grows_def accounted_def)

lemma grows_env: "io_grows io \<Longrightarrow> grows w w' \<Longrightarrow> grows w (io_env io i w')"
  unfolding io_grows_def by (blast intro: grows_trans)

lemma grows_launched:
  assumes io: "io_grows io" and spawned: "io_spawn io = Spawned pid rd"
    and probed: "io_probed io = Inr engine" and a: "a < length (wd_cells w)"
    and attach: "sot_attach a g f pid (worker_url worker) (io_key io) saved engine
      (io_env io 4 (set_cell_secret a (io_key io) (w\<lparr>wd_spawned := wd_spawned w @ [pid]\<rparr>))) = (r, w')"
  shows "grows w w'"
proof -
  let ?w1 = "w\<lparr>wd_spawned := wd_spawned w @ [pid]\<rparr>"
  let ?w2 = "io_env io 4 (set_cell_secret a (io_key io) ?w1)"
  have 2: "grows ?w1 ?w2"
    using grows_env [OF io grows_set_cell_secret] by simp
  then have a': "a < length (wd_cells ?w2)"
    using a by (simp add: grows_def)
  have "grows ?w1 w'"
    using grows_trans [OF 2 grows_sot_attach, of a g f pid "worker_url worker" "io_key io" saved engine]
      attach by simp
  moreover have "pid \<in> accounted w'"
    using sot_attach_accounts [OF a', of pid g f "worker_url worker" "io_key io" saved engine] attach
    by simp
  ultimately show ?thesis by (rule grows_spawned)
qed

lemma grows_launch_admitted:
  assumes io: "io_grows io" and a: "a < length (wd_cells w)"
  shows "grows w (snd (launch_admitted io saved worker a f g w))"
proof -
  let ?w2 = "io_env io 2 (clear_err a (io_env io 1 w))"
  let ?w3 = "io_env io 3 ?w2"
  have 2: "grows w ?w2"
    by (intro grows_env [OF io] grows_trans [OF _ grows_clear_err] grows_refl)
  then have 3: "grows w ?w3" by (rule grows_env [OF io])
  then have a3: "a < length (wd_cells ?w3)" using a by (simp add: grows_def)
  have failed: "grows w (snd (sot_spawn_failed a g e (io_env io 4 ?w3)))"
    "grows w (snd (sot_spawn_failed a g e (io_env io 4 (set_cell_secret a key ?w3))))" for e key
    by (intro grows_trans [OF _ grows_sot_spawn_failed] grows_env [OF io]
        grows_trans [OF _ grows_set_cell_secret] 3)+
  have later: "grows w (snd (sot_ready a g f url saved (io_env io 6 w5)))"
      "grows w (snd (sot_not_ready a g url e (io_env io 6 w5)))"
    if "grows w w5" for w5 url e
    by (intro grows_trans [OF _ grows_sot_ready] grows_trans [OF _ grows_sot_not_ready]
        grows_env [OF io] that)+
  have waited: "grows w w5"
    if "grows w w4" "wait_ready po a url rd (io_client io) (io_env io 5 w4) = (r, w5)"
    for w4 w5 po url rd r
  proof -
    have "grows w (snd (wait_ready po a url rd (io_client io) (io_env io 5 w4)))"
      by (rule grows_trans [OF grows_env [OF io that(1)] grows_wait_ready])
         (use io in \<open>simp add: io_grows_def\<close>)
    with that(2) show ?thesis by simp
  qed
  have attached: "grows w w4"
    if "io_spawn io = Spawned pid rd" "io_probed io = Inr engine"
      "sot_attach a g f pid (worker_url worker) (io_key io) saved engine
        (io_env io 4 (set_cell_secret a (io_key io) (?w3\<lparr>wd_spawned := wd_spawned ?w3 @ [pid]\<rparr>))) =
       (r, w4)" for pid rd engine r w4
    using grows_trans [OF 3 grows_launched [OF io that(1,2) a3 that(3)]] .
  show ?thesis
  proof (cases "cl_poisoned (cell_at a ?w2) \<or> \<not> is_current_launch g (state_at a ?w2) \<or> flag_at f ?w2")
    case True
    with 2 show ?thesis by (auto simp: launch_admitted_def Let_def)
  next
    case False
    show ?thesis
    proof (cases "io_probed io")
      case (Inl e)
      with False 3 show ?thesis by (simp add: launch_admitted_def Let_def)
    next
      case (Inr engine)
      show ?thesis
      proof (cases "io_spawn io")
        case (Spawned pid rd)
        let ?url = "worker_url worker"
        obtain r4 w4 where r4: "sot_attach a g f pid ?url (io_key io) saved engine
          (io_env io 4 (set_cell_secret a (io_key io) (?w3\<lparr>wd_spawned := wd_spawned ?w3 @ [pid]\<rparr>))) =
          (r4, w4)" by fastforce
        obtain r5 w5 where r5: "wait_ready (io_port_of io) a ?url rd (io_client io) (io_env io 5 w4) =
          (r5, w5)" by fastforce
        have 4: "grows w w4" by (rule attached [OF Spawned Inr r4])
        have 5: "grows w w5" by (rule waited [OF 4 r5])
        from later [OF 5] 4 5 show ?thesis
          by (cases r4; cases r5)
             (use False Inr Spawned r4 r5 in \<open>simp_all add: launch_admitted_def Let_def case_prod_beta\<close>)
      qed (use False Inr failed in \<open>simp_all add: launch_admitted_def Let_def case_prod_beta\<close>)
    qed
  qed
qed

lemma grows_start_on_target:
  assumes io: "io_grows io" and a: "a < length (wd_cells w)"
  shows "grows w (snd (start_on_target io saved a f w))"
proof -
  let ?w0 = "io_env io 0 w"
  have 0: "grows w ?w0" by (rule grows_env [OF io]) simp
  have "grows w (launch_guard_drop a g (io_env io 7 (snd (launch_admitted io saved worker a f g w1))))"
    if admit: "sot_admit (io_ports io) saved a f ?w0 = Inr (g, worker, w1)" for g worker w1
  proof -
    have 1: "grows w w1" using grows_trans [OF 0 grows_sot_admit [OF admit]] .
    then have "a < length (wd_cells w1)" using a by (simp add: grows_def)
    from grows_trans [OF 1 grows_launch_admitted [OF io this]]
    show ?thesis by (intro grows_trans [OF _ grows_launch_guard_drop] grows_env [OF io])
  qed
  with 0 show ?thesis
    by (auto simp: start_on_target_def Let_def case_prod_beta split: sum.split)
qed

section \<open>A stopped launch\<close>

text \<open>
  \<open>quiet a d\<close>: the generation of cell \<open>a\<close> moved on by \<open>d\<close>, and the model did not become ready.
  Stopping or forgetting a session moves the generation on by one.
\<close>

definition gen_at :: "nat \<Rightarrow> world \<Rightarrow> 64 word" where
  "gen_at a w = sv_generation (state_at a w)"

definition ready_at :: "nat \<Rightarrow> world \<Rightarrow> bool" where
  "ready_at a w \<longleftrightarrow> sv_lifecycle (state_at a w) = Ready"

definition quiet :: "nat \<Rightarrow> 64 word \<Rightarrow> world \<Rightarrow> world \<Rightarrow> bool" where
  "quiet a d w w' \<longleftrightarrow>
     (a < length (wd_cells w) \<longrightarrow>
        a < length (wd_cells w') \<and> gen_at a w' = gen_at a w + d \<and> (ready_at a w' \<longrightarrow> ready_at a w))"

definition io_quiet :: "nat \<Rightarrow> (nat \<Rightarrow> 64 word) \<Rightarrow> launch_io \<Rightarrow> bool" where
  "io_quiet a d io \<longleftrightarrow>
     (\<forall>i w. quiet a (d i) w (io_env io i w)) \<and>
     (\<forall>polls. io_client io = Inr polls \<longrightarrow> list_all (\<lambda>p. \<forall>i w. quiet a 0 w (po_env p i w)) polls)"

lemma quiet_refl: "quiet a 0 w w"
  by (simp add: quiet_def)

lemma quiet_trans: "quiet a d w w' \<Longrightarrow> quiet a d' w' w'' \<Longrightarrow> quiet a (d + d') w w''"
  by (auto simp: quiet_def)

lemma quiet_trans0: "quiet a 0 w w' \<Longrightarrow> quiet a 0 w' w'' \<Longrightarrow> quiet a 0 w w''"
  using quiet_trans by fastforce

lemma quiet_put_cell:
  assumes "sv_generation s = gen_at a w" and "sv_lifecycle s = Ready \<Longrightarrow> ready_at a w"
  shows "quiet a 0 w (put_cell a s e k w)"
  using assms by (auto simp: quiet_def gen_at_def ready_at_def)

lemmas quiet_step_defs = child_step_defs gen_at_def ready_at_def put_state_def

lemma quiet_clear_err: "quiet a 0 w (clear_err a w)"
  by (simp add: clear_err_def quiet_put_cell quiet_step_defs)

lemma quiet_set_cell_secret: "quiet a 0 w (set_cell_secret a key w)"
  by (simp add: set_cell_secret_def quiet_put_cell quiet_step_defs)

lemma quiet_spawned: "quiet a 0 w (w\<lparr>wd_spawned := x\<rparr>)"
  by (simp add: quiet_def gen_at_def ready_at_def state_at_def cell_at_def)

lemma quiet_kill_tracked: "quiet a 0 w (kill_tracked a w)"
  unfolding kill_tracked_def
  by (auto simp: quiet_step_defs Let_def quiet_refl intro!: quiet_put_cell)

lemma quiet_sot_spawn_failed: "quiet a 0 w (snd (sot_spawn_failed a g e w))"
  unfolding sot_spawn_failed_def
  by (auto simp: quiet_step_defs Let_def quiet_refl intro!: quiet_put_cell)

lemma quiet_sot_not_ready: "quiet a 0 w (snd (sot_not_ready a g url e w))"
  unfolding sot_not_ready_def
  by (auto simp: quiet_step_defs Let_def quiet_refl intro!: quiet_put_cell)

lemma quiet_sot_ready_failed:
  "fst (sot_ready a g f url saved w) = Inl e \<Longrightarrow> quiet a 0 w (snd (sot_ready a g f url saved w))"
  unfolding sot_ready_def
  by (auto simp: quiet_step_defs Let_def quiet_refl split: if_splits intro!: quiet_put_cell)

lemma sot_ready_current: "fst (sot_ready a g f url saved w) = Inr x \<Longrightarrow> gen_at a w = g"
  unfolding sot_ready_def
  by (auto simp: launch_obsolete_def is_current_launch_def gen_at_def kill_child_def Let_def
        split: if_splits)

lemma quiet_gone: "quiet a 0 w (w\<lparr>wd_gone := x\<rparr>)"
  by (simp add: quiet_def gen_at_def ready_at_def state_at_def cell_at_def)

lemma quiet_sot_attach: "quiet a 0 w (snd (sot_attach a g f pid url key saved engine w))"
  unfolding sot_attach_def
  by (auto simp: quiet_step_defs Let_def quiet_gone intro!: quiet_put_cell)

lemma quiet_finish_ready:
  assumes "\<forall>i w. quiet a 0 w (po_env p i w)"
  shows "quiet a 0 w (snd (finish_ready a p engine pid model w))"
  unfolding finish_ready_def
  using assms
  by (auto simp: quiet_step_defs Let_def split: sum.splits option.splits
        intro: quiet_trans0 [OF _ quiet_kill_tracked] intro!: quiet_trans0 [OF _ quiet_put_cell])

lemma quiet_wait_round:
  assumes "\<forall>i w. quiet a 0 w (po_env p i w)"
  shows "case wait_round a rd engine p w of
    Inl (_, w') \<Rightarrow> quiet a 0 w w' | Inr (_, w') \<Rightarrow> quiet a 0 w w'"
proof -
  let ?w0 = "po_env p 0 w" and ?w1 = "po_env p 1 (po_env p 0 w)"
  have 0: "quiet a 0 w ?w0" and 1: "quiet a 0 w ?w1"
    using assms by (auto intro: quiet_trans0)
  have 2: "quiet a 0 w (snd (finish_ready a p engine pid model ?w1))" for pid model
    using 1 quiet_finish_ready [OF assms] by (rule quiet_trans0)
  have 3: "quiet a 0 w (kill_tracked a ?w0)"
    using 0 quiet_kill_tracked by (rule quiet_trans0)
  show ?thesis
    unfolding wait_round_def Let_def
    using 0 1 2 3 by (simp add: case_prod_beta split: probe.split option.split)
qed

lemma quiet_wait_polls:
  "list_all (\<lambda>p. \<forall>i w. quiet a 0 w (po_env p i w)) ps \<Longrightarrow>
     quiet a 0 w (snd (wait_polls a rd engine m ps w))"
proof (induction ps arbitrary: m w)
  case Nil
  show ?case by (simp add: Let_def quiet_kill_tracked)
next
  case (Cons p ps)
  with quiet_wait_round [of a p w rd engine] show ?case
    by (auto split: sum.splits intro: quiet_trans0)
qed

lemma quiet_wait_ready:
  assumes "\<forall>polls. client = Inr polls \<longrightarrow> list_all (\<lambda>p. \<forall>i w. quiet a 0 w (po_env p i w)) polls"
  shows "quiet a 0 w (snd (wait_ready port_of a url rd client w))"
  using assms quiet_kill_tracked quiet_wait_polls quiet_refl
  by (auto simp: wait_ready_def split: sum.splits option.splits)

lemma quiet_env: "io_quiet a d io \<Longrightarrow> quiet a e w w' \<Longrightarrow> quiet a (e + d i) w (io_env io i w')"
  unfolding io_quiet_def by (blast intro: quiet_trans)

lemma quiet_readyD: "a < length (wd_cells w) \<Longrightarrow> quiet a d w w' \<Longrightarrow> ready_at a w' \<Longrightarrow> ready_at a w"
  by (simp add: quiet_def)

lemma launch_admitted_quiet:
  assumes a: "a < length (wd_cells w)" and io: "io_quiet a d io" and run: "launch_admitted io saved worker a f g w = (r, w')"
  shows "case r of
      Inl _ \<Rightarrow> \<exists>e. quiet a e w w'
    | Inr _ \<Rightarrow> g = gen_at a w + (d 1 + d 2 + d 3 + d 4 + d 5 + d 6)"
proof -
  let ?w2 = "io_env io 2 (clear_err a (io_env io 1 w))"
  let ?w3 = "io_env io 3 ?w2"
  have "quiet a (d 1) w (io_env io 1 w)"
    using quiet_env [OF io quiet_refl, where i = 1] by simp
  from quiet_env [OF io quiet_trans [OF this quiet_clear_err], where i = 2]
  have 2: "quiet a (d 1 + d 2) w ?w2" by simp
  from quiet_env [OF io this, where i = 3] have 3: "quiet a (d 1 + d 2 + d 3) w ?w3" .
  have 4: "quiet a (d 1 + d 2 + d 3 + d 4) w (io_env io 4 ?w3)"
    "quiet a (d 1 + d 2 + d 3 + d 4) w (io_env io 4 (set_cell_secret a key ?w3))"
    "quiet a (d 1 + d 2 + d 3 + d 4) w (io_env io 4 (set_cell_secret a key (?w3\<lparr>wd_spawned := x\<rparr>)))"
    for key x
    using quiet_env [OF io 3, where i = 4] quiet_env [OF io quiet_trans [OF 3 quiet_set_cell_secret], where i = 4]
      quiet_env [OF io quiet_trans [OF quiet_trans [OF 3 quiet_spawned] quiet_set_cell_secret], where i = 4]
    by simp_all
  show ?thesis
  proof (cases "cl_poisoned (cell_at a ?w2) \<or> \<not> is_current_launch g (state_at a ?w2) \<or> flag_at f ?w2")
    case True
    then have "\<exists>e. launch_admitted io saved worker a f g w = (Inl e, ?w2)"
      by (auto simp: launch_admitted_def Let_def)
    with run 2 show ?thesis by auto
  next
    case False
    show ?thesis
    proof (cases "io_probed io")
      case (Inl e)
      with False have "launch_admitted io saved worker a f g w = (Inl e, ?w3)"
        by (simp add: launch_admitted_def Let_def)
      with run 3 show ?thesis by auto
    next
      case (Inr engine)
      show ?thesis
      proof (cases "io_spawn io")
        case (Spawned pid rd)
        let ?url = "worker_url worker"
        let ?w4 = "io_env io 4 (set_cell_secret a (io_key io) (?w3\<lparr>wd_spawned := wd_spawned ?w3 @ [pid]\<rparr>))"
        obtain r4 w4 where r4: "sot_attach a g f pid ?url (io_key io) saved engine ?w4 = (r4, w4)"
          by fastforce
        obtain r5 w5 where r5: "wait_ready (io_port_of io) a ?url rd (io_client io) (io_env io 5 w4) =
          (r5, w5)" by fastforce
        have q4: "quiet a (d 1 + d 2 + d 3 + d 4) w w4"
          using quiet_trans [OF 4(3) quiet_sot_attach [of a ?w4 g f pid ?url "io_key io" saved engine]] r4
          by simp
        have "quiet a 0 (io_env io 5 w4) (snd (wait_ready (io_port_of io) a ?url rd (io_client io)
            (io_env io 5 w4)))"
          by (rule quiet_wait_ready) (use io in \<open>simp add: io_quiet_def\<close>)
        then have "quiet a 0 (io_env io 5 w4) w5" by (simp add: r5)
        from quiet_env [OF io quiet_trans [OF quiet_env [OF io q4, where i = 5] this], where i = 6]
        have 6: "quiet a (d 1 + d 2 + d 3 + d 4 + d 5 + d 6) w (io_env io 6 w5)" by simp
        have 7: "\<exists>e'. quiet a e' w (snd (sot_not_ready a g ?url e (io_env io 6 w5)))" for e
          using quiet_trans [OF 6 quiet_sot_not_ready] by blast
        have 8: "\<exists>e'. quiet a e' w (snd (sot_ready a g f ?url saved (io_env io 6 w5)))"
          if "fst (sot_ready a g f ?url saved (io_env io 6 w5)) = Inl e" for e
          using quiet_trans [OF 6 quiet_sot_ready_failed [OF that]] by blast
        have 9: "g = gen_at a w + (d 1 + d 2 + d 3 + d 4 + d 5 + d 6)"
          if "fst (sot_ready a g f ?url saved (io_env io 6 w5)) = Inr x" for x
          using sot_ready_current [OF that] 6 a by (simp add: quiet_def)
        have final: "launch_admitted io saved worker a f g w =
            (case r4 of Inl e \<Rightarrow> (Inl e, w4)
             | Inr _ \<Rightarrow> (case r5 of Inr _ \<Rightarrow> sot_ready a g f ?url saved (io_env io 6 w5)
                 | Inl e \<Rightarrow> (Inl (fst (sot_not_ready a g ?url e (io_env io 6 w5))),
                     snd (sot_not_ready a g ?url e (io_env io 6 w5)))))"
          by (cases r4; cases r5)
             (use False Inr Spawned r4 r5 in \<open>simp_all add: launch_admitted_def Let_def case_prod_beta\<close>)
        show ?thesis
        proof (cases r4)
          case (Inl e)
          with final run q4 show ?thesis by auto
        next
          case r4: (Inr u)
          show ?thesis
          proof (cases r5)
            case (Inl e)
            with final run r4 7 show ?thesis by auto
          next
            case (Inr u)
            then have rw: "sot_ready a g f ?url saved (io_env io 6 w5) = (r, w')"
              using final run r4 by simp
            with 8 9 show ?thesis by (cases r) auto
          qed
        qed
      next
        case (SpawnRefused e)
        have "launch_admitted io saved worker a f g w =
            (let (e, w) = sot_spawn_failed a g e (io_env io 4 ?w3) in (Inl e, w))"
          using False Inr SpawnRefused by (simp add: launch_admitted_def Let_def)
        with run have "r = Inl (fst (sot_spawn_failed a g e (io_env io 4 ?w3)))"
          "w' = snd (sot_spawn_failed a g e (io_env io 4 ?w3))" by (simp_all add: case_prod_beta)
        with quiet_trans [OF 4(1) quiet_sot_spawn_failed] show ?thesis
          by (simp only: sum.case) blast
      next
        case (SpawnFailed e)
        have "launch_admitted io saved worker a f g w =
            (let (e, w) = sot_spawn_failed a g e (io_env io 4 (set_cell_secret a (io_key io) ?w3))
             in (Inl e, w))"
          using False Inr SpawnFailed by (simp add: launch_admitted_def Let_def)
        with run have "r = Inl (fst (sot_spawn_failed a g e (io_env io 4 (set_cell_secret a (io_key io) ?w3))))"
          "w' = snd (sot_spawn_failed a g e (io_env io 4 (set_cell_secret a (io_key io) ?w3)))" by (simp_all add: case_prod_beta)
        with quiet_trans [OF 4(2) quiet_sot_spawn_failed] show ?thesis
          by (simp only: sum.case) blast
      qed
    qed
  qed
qed

lemma quiet_stop_cell: "quiet a 1 w (stop_cell a w)"
  by (auto simp: quiet_def stop_cell_def stop_target_def quiet_step_defs Let_def)

section \<open>Replacing and forgetting\<close>

definition in_store :: "world \<Rightarrow> bool" where
  "in_store w \<longleftrightarrow> 0 < length (wd_cells w) \<and> (\<forall>(i, e) \<in> set (wd_extra w). se_addr e < length (wd_cells w))"

definition stopped_clean :: "server_state \<Rightarrow> bool" where
  "stopped_clean s \<longleftrightarrow> sv_lifecycle s = Stopped \<and> sv_child s = None \<and> sv_api_key s = [] \<and>
     sv_active_requests s = 0"

lemma check_replacement_Inr:
  "check_replacement w ts = Inr () \<longleftrightarrow> (\<forall>(i, a) \<in> set ts. \<not> busy_target (state_at a w))"
  by (induction ts) (auto split: if_splits)

lemma set_sorted_targets: "set (sorted_targets w) = insert (default_session_id, 0) (set (reg_entries w))"
  by (simp add: sorted_targets_def set_insort_key)

lemma targets_in_store: "in_store w \<Longrightarrow> (i, a) \<in> set (sorted_targets w) \<Longrightarrow> a < length (wd_cells w)"
  by (fastforce simp: set_sorted_targets in_store_def reg_entries_def)

definition stop_one :: "string \<Rightarrow> string \<times> nat \<Rightarrow> world \<Rightarrow> world" where
  "stop_one target = (\<lambda>(i, a) w. stop_cell a (if i \<noteq> target then cancel_pending_start i w else w))"

lemma length_stop_one [simp]: "length (wd_cells (stop_one target p w)) = length (wd_cells w)"
  by (cases p) (simp add: stop_one_def stop_cell_def stop_target_def Let_def kill_child_def)

lemma stop_cell_state:
  "state_at b (stop_cell a w) =
     (if a = b \<and> a < length (wd_cells w)
      then fst (stop_target (wd_now w) (state_at a w) (cl_err (cell_at a w))) else state_at b w)"
  by (simp add: stop_cell_def case_prod_beta)

lemma stop_one_state:
  assumes "a < length (wd_cells w)"
  shows "state_at b (stop_one target (i, a) w) = (if b = a then state_at a (stop_cell a w) else state_at b w)"
proof -
  have "state_at c (cancel_pending_start i w) = state_at c w"
    "cell_at c (cancel_pending_start i w) = cell_at c w" for c
    by (simp_all add: state_at_def cell_at_def)
  with assms show ?thesis
    by (simp add: stop_one_def stop_cell_state)
qed

lemma stop_cell_clean: "a < length (wd_cells w) \<Longrightarrow> stopped_clean (state_at a (stop_cell a w))"
  by (simp add: stop_cell_state stop_target_def Let_def child_step_defs stopped_clean_def)

lemma stop_all_clean:
  assumes "\<forall>(i, a) \<in> set ts. a < length (wd_cells w)"
  shows "(\<forall>(i, a) \<in> set ts. stopped_clean (state_at a (fold (stop_one target) ts w))) \<and>
    (\<forall>b. stopped_clean (state_at b w) \<longrightarrow> stopped_clean (state_at b (fold (stop_one target) ts w))) \<and>
    grows w (fold (stop_one target) ts w)"
  using assms
proof (induction ts arbitrary: w)
  case (Cons p ts)
  obtain i a where p: "p = (i, a)" by fastforce
  let ?w = "stop_one target p w"
  have IH: "(\<forall>(i, a) \<in> set ts. stopped_clean (state_at a (fold (stop_one target) ts ?w))) \<and>
    (\<forall>b. stopped_clean (state_at b ?w) \<longrightarrow> stopped_clean (state_at b (fold (stop_one target) ts ?w))) \<and>
    grows ?w (fold (stop_one target) ts ?w)"
    by (rule Cons.IH) (use Cons.prems in auto)
  have a: "a < length (wd_cells w)" using Cons.prems p by simp
  have g: "grows w ?w"
    by (auto simp: p stop_one_def intro: grows_trans [OF grows_same_cells grows_stop_cell]
        grows_stop_cell)
  show ?case
    using IH stop_cell_clean [OF a] stop_one_state [OF a, of _ target i] grows_trans [OF g]
    by (auto simp: p)
qed simp

lemma forget_retires:
  assumes "in_store w" and "forget i w = (Some a, w')"
  shows "sv_retired (state_at a w') \<and> a < length (wd_cells w') \<and> reg_get i w' = None"
  using assms
  by (auto simp: forget_def Let_def kill_child_def cancel_launch_def in_store_def reg_get_def
      map_of_map_remove state_at_def cell_at_def put_cell_def
      split: option.splits dest!: map_of_SomeD)

lemma admit_retired:
  "sv_retired (state_at a w) \<Longrightarrow> \<exists>e. sot_admit os saved a f w = Inl e"
  by (auto simp: sot_admit_def Let_def split: sum.split)

section \<open>Properties\<close>

text \<open>An application with one pending start and the answers of a launch that succeeds.\<close>

definition demo_world :: world where
  "demo_world = (world_new 0)\<lparr>wd_flags := [False], wd_pending := [(''default'', [0])]\<rparr>"

definition demo_config :: app_config where
  "demo_config = (config_default ''models'')\<lparr>cf_active_model := ''m.gguf'',
     cf_sleep_idle_seconds := 60, cf_stop_existing := False\<rparr>"

definition demo_poll :: poll where
  "demo_poll =
     \<lparr>po_env = (\<lambda>_ w. w), po_probe = Running, po_health = Some None,
      po_models = Some (Some [''m.gguf'']), po_owns_listener = True, po_confirm = Inr\<rparr>"

definition demo_io :: launch_io where
  "demo_io =
     \<lparr>io_env = (\<lambda>_ w. w), io_ports = (\<lambda>_. Inr 4242), io_port_of = (\<lambda>_. Some 4242),
      io_key = ''lb-7'',
      io_probed = Inr \<lparr>ei_provider = Llama, ei_upstream_model = ''m.gguf'', ei_tasks = [],
                        ei_embedding_model = None\<rparr>,
      io_spawn = Spawned 77 \<lparr>rd_expected_model = ''m.gguf'', rd_aliases = []\<rparr>,
      io_client = Inr [demo_poll]\<rparr>"


lemma demo_io_grows: "io_grows (demo_io\<lparr>io_env := (\<lambda>_. stop_cell 0)\<rparr>)"
  by (auto simp: io_grows_def demo_io_def demo_poll_def poll_grows_def grows_stop_cell)



lemma io_quiet_demo:
  "io_quiet 0 (\<lambda>i. if i = 5 then 1 else 0) (demo_io\<lparr>io_env := (\<lambda>i. if i = 5 then stop_cell 0 else id)\<rparr>)"
  by (auto simp: io_quiet_def demo_io_def demo_poll_def quiet_stop_cell quiet_refl)


text \<open>C17. Replacing models is all or nothing. When one session serves a request (or its lock is
  poisoned), nothing at all is changed; otherwise no session was serving one, every session ends
  stopped with no process, key or request count, and no process is lost.\<close>

theorem replacement_all_or_nothing:
  assumes "in_store w"
  shows "case stop_models_for_replacement target w of
      (Inl e, w') \<Rightarrow> w' = w \<and>
        (\<exists>(i, a) \<in> set (sorted_targets w). cl_poisoned (cell_at a w) \<or> busy_target (state_at a w))
    | (Inr _, w') \<Rightarrow>
        (\<forall>(i, a) \<in> set (sorted_targets w).
           \<not> busy_target (state_at a w) \<and> stopped_clean (state_at a w')) \<and>
        accounted w \<subseteq> accounted w'"
proof -
  let ?ts = "sorted_targets w"
  have all: "\<forall>(i, a) \<in> set ?ts. a < length (wd_cells w)"
    using targets_in_store [OF assms] by blast
  note clean = stop_all_clean [OF all, of target]
  have fold: "fold (\<lambda>(i, a) w. stop_cell a (if i \<noteq> target then cancel_pending_start i w else w)) =
      fold (stop_one target)"
    by (simp add: stop_one_def)
  show ?thesis
  proof (cases "list_ex (\<lambda>(_, a). cl_poisoned (cell_at a w)) ?ts")
    case True
    then show ?thesis
      by (auto simp: stop_models_for_replacement_def list_ex_iff)
  next
    case unpoisoned: False
    show ?thesis
    proof (cases "check_replacement w ?ts")
      case (Inl e)
      then have "check_replacement w ?ts \<noteq> Inr ()" by simp
      then have "\<exists>(i, a) \<in> set ?ts. busy_target (state_at a w)"
        by (auto simp: check_replacement_Inr)
      with unpoisoned Inl show ?thesis
        by (auto simp: stop_models_for_replacement_def)
    next
      case (Inr u)
      then have "check_replacement w ?ts = Inr ()" by simp
      with unpoisoned clean show ?thesis
        by (simp add: stop_models_for_replacement_def fold check_replacement_Inr [symmetric])
           (auto simp: check_replacement_Inr grows_def)
    qed
  qed
qed

theorem replacement_all_or_nothing_witness:
  "in_store demo_world \<and>
   (case stop_models_for_replacement ''s1'' demo_world of
      (Inl e, w') \<Rightarrow> w' = demo_world \<and>
        (\<exists>(i, a) \<in> set (sorted_targets demo_world).
           cl_poisoned (cell_at a demo_world) \<or> busy_target (state_at a demo_world))
    | (Inr _, w') \<Rightarrow>
        (\<forall>(i, a) \<in> set (sorted_targets demo_world).
           \<not> busy_target (state_at a demo_world) \<and> stopped_clean (state_at a w')) \<and>
        accounted demo_world \<subseteq> accounted w')"
proof
  show "in_store demo_world"
    by (simp add: in_store_def demo_world_def world_new_def)
  then show "case stop_models_for_replacement ''s1'' demo_world of
      (Inl e, w') \<Rightarrow> w' = demo_world \<and>
        (\<exists>(i, a) \<in> set (sorted_targets demo_world).
           cl_poisoned (cell_at a demo_world) \<or> busy_target (state_at a demo_world))
    | (Inr _, w') \<Rightarrow>
        (\<forall>(i, a) \<in> set (sorted_targets demo_world).
           \<not> busy_target (state_at a demo_world) \<and> stopped_clean (state_at a w')) \<and>
        accounted demo_world \<subseteq> accounted w'"
    by (rule replacement_all_or_nothing)
qed

text \<open>Forgetting a session is final. A launch that still holds the forgotten session, even one
  registered after the forget cancelled the pending starts, is refused before it changes the
  session or creates a process, and the registry no longer finds the session.\<close>

lemma forget_is_final:
  assumes "in_store w" and "forget i w = (Some a, w1)"
    and "\<And>v. sv_retired (state_at a v) \<Longrightarrow> sv_retired (state_at a (io_env io 0 v))"
    and "start_on_target io saved a f w1 = (r, w2)"
  shows "(\<exists>e. r = Inl e) \<and> w2 \<in> {w1, io_env io 0 w1} \<and> reg_get i w1 = None"
proof -
  note 1 = forget_retires [OF assms(1,2)]
  then obtain e where "sot_admit (io_ports io) saved a f (io_env io 0 w1) = Inl e"
    using admit_retired assms(3) by blast
  with 1 assms(4) show ?thesis
    by (auto simp: start_on_target_def split: sum.splits)
qed

definition two_sessions :: world where
  "two_sessions = snd (the (case get_or_create ''s1'' ''Named'' demo_world of Inr x \<Rightarrow> Some x | Inl e \<Rightarrow> None))"

theorem forget_is_final_witness:
  "let w1 = snd (forget ''s1'' two_sessions); (r, w2) = start_on_target demo_io demo_config 1 0 w1
   in (\<exists>e. r = Inl e) \<and> w2 \<in> {w1, io_env demo_io 0 w1} \<and> reg_get ''s1'' w1 = None"
proof -
  have in_store: "in_store two_sessions"
    by (simp add: in_store_def two_sessions_def get_or_create_def demo_world_def world_new_def)
  have "forget ''s1'' two_sessions = (Some 1, snd (forget ''s1'' two_sessions))"
    by (simp add: forget_def two_sessions_def get_or_create_def demo_world_def world_new_def Let_def
        kill_child_def)
  from forget_is_final [OF in_store this _ surjective_pairing, of demo_io demo_config 0]
  show ?thesis
    by (simp add: demo_io_def Let_def case_prod_beta)
qed

end
