(* ===== verification/Routing.thy ===== *)
theory Routing
  imports Launch Http
begin

text \<open>
  Request-time model resolution of the external API: \<open>src-tauri/src/gateway/routing.rs\<close>.
  Errors are those of \<open>gateway/http.rs\<close>.

  A session is read under its own lock only, so \<open>snapshot\<close> threads the world through the sessions
  and \<open>acquire\<close> lets the rest of the application run (\<open>env\<close>) between the snapshot and the lease.
  A \<open>Lease\<close> holds the address of the state it counts on.
\<close>

section \<open>Errors\<close>

datatype route_error =
    NoModel bool
  | ModelRequired "string list"
  | ModelNotFound string "string list"
  | ModelAmbiguous string "string list"
  | ModelChanged

fun into_api_error :: "route_error \<Rightarrow> api_error" where
  "into_api_error (NoModel True) =
     api_error_new 503 ''model_loading'' ''a model is still loading; retry when it is ready''"
| "into_api_error (NoModel False) =
     api_error_new 503 ''model_not_loaded'' ''no model is loaded; load a model in AioLM and retry''"
| "into_api_error (ModelRequired available) =
     with_param ''model'' (api_error_new 400 ''model_required''
       (''several models are loaded, so `model` is required; available: '' @ join '', '' available))"
| "into_api_error (ModelNotFound requested available) =
     with_param ''model'' (api_error_new 404 ''model_not_found''
       (''the model `'' @ requested @ ''` is not loaded; available: '' @ join '', '' available))"
| "into_api_error (ModelAmbiguous requested candidates) =
     with_param ''model'' (api_error_new 400 ''ambiguous_model''
       (''the model `'' @ requested @ ''` matches several loaded sessions; use one of: ''
         @ join '', '' candidates))"
| "into_api_error ModelChanged =
     api_error_new 503 ''model_changed''
       ''the model changed while the request was being routed; retry''"

section \<open>The catalog\<close>

record candidate =
  ca_session_id :: string
  ca_model_id :: string
  ca_advertised :: string
  ca_target :: nat
  ca_url :: string
  ca_key :: string

record catalog =
  ct_ready :: "candidate list"
  ct_loading :: nat

definition path_separator :: "char \<Rightarrow> bool" where
  "path_separator c \<longleftrightarrow> c = CHR ''/'' \<or> c = CHR 0x5C"

text \<open>\<open>rsplit\<close> always yields a first piece.\<close>

definition file_name :: "string \<Rightarrow> string option" where
  "file_name path = Some (rev (takeWhile (\<lambda>c. \<not> path_separator c) (rev path)))"

definition reap_cell :: "probe \<Rightarrow> nat \<Rightarrow> world \<Rightarrow> world" where
  "reap_cell p a w =
     (let (s, err, killed) = reap_if_exited p (state_at a w) (cl_err (cell_at a w))
      in put_cell a s err killed w)"

definition candidate_of :: "string \<Rightarrow> nat \<Rightarrow> server_state \<Rightarrow> candidate" where
  "candidate_of i a s =
     (let model_id = (case file_name (sv_model s) of
            Some n \<Rightarrow> if n \<noteq> [] then n else i | None \<Rightarrow> i)
      in \<lparr>ca_session_id = i, ca_model_id = model_id, ca_advertised = model_id, ca_target = a,
          ca_url = sv_url s, ca_key = sv_api_key s\<rparr>)"

fun survey ::
  "(nat \<Rightarrow> probe) \<Rightarrow> (string \<times> nat) list \<Rightarrow> candidate list \<times> nat \<times> world \<Rightarrow>
   candidate list \<times> nat \<times> world" where
  "survey probes [] acc = acc"
| "survey probes ((i, a) # rest) (ready, loading, w) =
     (let w = (if sv_child (state_at a w) \<noteq> None then reap_cell (probes a) a w else w);
          s = state_at a w
      in survey probes rest
        (if sv_lifecycle s = Ready \<and> sv_url s \<noteq> [] \<and> sv_api_key s \<noteq> [] then
           (ready @ [candidate_of i a s], loading, w)
         else if sv_lifecycle s = Starting then (ready, loading + 1, w)
         else (ready, loading, w)))"

fun disambiguate :: "string option \<Rightarrow> candidate list \<Rightarrow> candidate list" where
  "disambiguate prev [] = []"
| "disambiguate prev (c # cs) =
     (let shared = (prev = Some (ca_model_id c)
                    \<or> (case cs of [] \<Rightarrow> False | next # _ \<Rightarrow> ca_model_id next = ca_model_id c))
      in (if shared then c\<lparr>ca_advertised := ca_model_id c @ ''@'' @ ca_session_id c\<rparr> else c)
         # disambiguate (Some (ca_model_id c)) cs)"

text \<open>
  The comparison of the pair, as an order of the two keys: sorting by the second key and then,
  stably, by the first is sorting by the pair.
\<close>

definition sort_candidates :: "candidate list \<Rightarrow> candidate list" where
  "sort_candidates cs = sort_key ca_model_id (sort_key ca_session_id cs)"

definition snapshot :: "(nat \<Rightarrow> probe) \<Rightarrow> world \<Rightarrow> catalog \<times> world" where
  "snapshot probes w =
     (let targets = (default_session_id, 0) # reg_entries w;
          (ready, loading, w) = survey probes targets ([], 0, w)
      in (\<lparr>ct_ready = disambiguate None (sort_candidates ready), ct_loading = loading\<rparr>, w))"

definition advertised :: "catalog \<Rightarrow> string list" where
  "advertised c = map ca_advertised (ct_ready c)"

text \<open>
  A name that matches several sessions is an error rather than a guess. A bare file name that
  several sessions share is advertised only in its disambiguated form, so it matches nothing
  exactly.
\<close>

definition select_named :: "string \<Rightarrow> catalog \<Rightarrow> route_error + candidate" where
  "select_named name c =
     (let exact = filter (\<lambda>x. ca_advertised x = name) (ct_ready c);
          candidates =
            (if exact = [] then filter (\<lambda>x. ca_model_id x = name) (ct_ready c) else exact);
          refused =
            (if length candidates > 1 then ModelAmbiguous name (map ca_advertised candidates)
             else ModelNotFound name (advertised c))
      in case exact of [only] \<Rightarrow> Inr only | _ \<Rightarrow> Inl refused)"

definition select_candidate :: "string option \<Rightarrow> catalog \<Rightarrow> route_error + candidate" where
  "select_candidate requested c =
     (if ct_ready c = [] then Inl (NoModel (ct_loading c > 0))
      else case Option.bind requested (\<lambda>r. if trim r \<noteq> [] then Some (trim r) else None) of
        None \<Rightarrow>
          (case List.find (\<lambda>x. ca_session_id x = default_session_id) (ct_ready c) of
             Some d \<Rightarrow> Inr d
           | None \<Rightarrow>
               (case ct_ready c of
                  [only] \<Rightarrow> Inr only
                | _ \<Rightarrow> Inl (ModelRequired (advertised c))))
      | Some name \<Rightarrow> select_named name c)"

section \<open>Leases\<close>

record lease =
  le_target :: nat
  le_upstream :: string
  le_key :: string
  le_engine :: "engine_info option"

definition lease_begin :: "candidate \<Rightarrow> world \<Rightarrow> (lease \<times> world) option" where
  "lease_begin c w =
     (let a = ca_target c; s = state_at a w in
      if sv_lifecycle s \<noteq> Ready \<or> sv_api_key s \<noteq> ca_key c then None
      else let s = begin_request (wd_now w) s in
        Some (\<lparr>le_target = a, le_upstream = ca_url c, le_key = ca_key c, le_engine = sv_engine s\<rparr>,
              put_state a s w))"

definition lease_drop :: "lease \<Rightarrow> world \<Rightarrow> world" where
  "lease_drop l w =
     (let a = le_target l; s = state_at a w in
      if sv_api_key s = le_key l then put_state a (end_request (wd_now w) s) w else w)"

text \<open>One request's view of the outside: the probes of each attempt and the interference.\<close>

record route_io =
  ri_probes :: "nat \<Rightarrow> nat \<Rightarrow> probe"
  ri_env :: "nat \<Rightarrow> world \<Rightarrow> world"

fun acquire_loop ::
  "route_io \<Rightarrow> string option \<Rightarrow> nat \<Rightarrow> nat \<Rightarrow> world \<Rightarrow> (route_error + lease) \<times> world" where
  "acquire_loop io requested n 0 w = (Inl ModelChanged, w)"
| "acquire_loop io requested n (Suc left) w =
     (let (c, w) = snapshot (ri_probes io n) w in
      case select_candidate requested c of
        Inl e \<Rightarrow> (Inl e, w)
      | Inr chosen \<Rightarrow>
          let w = ri_env io n w in
          (case lease_begin chosen w of
             Some (l, w) \<Rightarrow> (Inr l, w)
           | None \<Rightarrow> acquire_loop io requested (Suc n) left w))"

definition acquire :: "route_io \<Rightarrow> string option \<Rightarrow> world \<Rightarrow> (route_error + lease) \<times> world" where
  "acquire io requested w = acquire_loop io requested 0 4 w"

fun acquire_session_loop ::
  "route_io \<Rightarrow> string \<Rightarrow> nat \<Rightarrow> nat \<Rightarrow> world \<Rightarrow> (api_error + lease) \<times> world" where
  "acquire_session_loop io session n 0 w =
     (Inl (api_error_new 503 ''model_changed'' ''the transcription session changed; retry''), w)"
| "acquire_session_loop io session n (Suc left) w =
     (let (c, w) = snapshot (ri_probes io n) w in
      case List.find (\<lambda>x. ca_session_id x = session) (ct_ready c) of
        None \<Rightarrow>
          (Inl (api_error_new 400 ''transcription_session_unavailable''
                 ''the selected transcription session is not running''), w)
      | Some chosen \<Rightarrow>
          let w = ri_env io n w in
          (case lease_begin chosen w of
             Some (l, w) \<Rightarrow> (Inr l, w)
           | None \<Rightarrow> acquire_session_loop io session (Suc n) left w))"

definition acquire_session :: "route_io \<Rightarrow> string \<Rightarrow> world \<Rightarrow> (api_error + lease) \<times> world" where
  "acquire_session io session w = acquire_session_loop io session 0 4 w"

section \<open>Selection\<close>

lemma sorted_sort_candidates: "sorted (map ca_model_id (sort_candidates cs))"
  by (simp add: sort_candidates_def)

lemma disambiguate_model_ids [simp]:
  "map ca_model_id (disambiguate prev cs) = map ca_model_id cs"
  by (induction cs arbitrary: prev) (auto simp: Let_def)

text \<open>In a sorted list a model id that occurs once differs from both neighbours.\<close>

lemma disambiguate_single:
  assumes "sorted (map ca_model_id cs)"
    and "c \<in> set (disambiguate prev cs)" and "ca_advertised c \<noteq> ca_model_id c"
    and "\<forall>x \<in> set cs. ca_advertised x = ca_model_id x"
  shows "prev = Some (ca_model_id c) \<or> 2 \<le> length (filter (\<lambda>x. ca_model_id x = ca_model_id c) cs)"
  using assms
proof (induction cs arbitrary: prev)
  case (Cons x cs)
  from Cons.prems(2) consider
      (here) "c = (if prev = Some (ca_model_id x) \<or>
          (case cs of [] \<Rightarrow> False | next # _ \<Rightarrow> ca_model_id next = ca_model_id x)
        then x\<lparr>ca_advertised := ca_model_id x @ ''@'' @ ca_session_id x\<rparr> else x)"
    | (later) "c \<in> set (disambiguate (Some (ca_model_id x)) cs)"
    by (auto simp: Let_def)
  then show ?case
  proof cases
    case here
    with Cons.prems(3,4) show ?thesis
      by (cases cs) (auto split: if_splits)
  next
    case later
    have "Some (ca_model_id x) = Some (ca_model_id c) \<or>
        2 \<le> length (filter (\<lambda>y. ca_model_id y = ca_model_id c) cs)"
      using Cons.prems later by (intro Cons.IH) auto
    moreover have "\<exists>y \<in> set cs. ca_model_id y = ca_model_id c"
      using later disambiguate_model_ids [of "Some (ca_model_id x)" cs]
      by (metis (mono_tags, lifting) imageE image_eqI list.set_map)
    then have "1 \<le> length (filter (\<lambda>y. ca_model_id y = ca_model_id c) cs)"
      by (auto simp: Suc_le_eq filter_empty_conv)
    ultimately show ?thesis by auto
  qed
qed simp

lemma survey_plain:
  assumes "survey probes ts (ready, n, w) = (ready', n', w')"
    and "\<forall>x \<in> set ready. ca_advertised x = ca_model_id x \<and> ca_key x \<noteq> []"
  shows "\<forall>x \<in> set ready'. ca_advertised x = ca_model_id x \<and> ca_key x \<noteq> []"
  using assms
proof (induction ts arbitrary: ready n w)
  case (Cons t ts)
  obtain i a where t: "t = (i, a)" by fastforce
  let ?w = "if sv_child (state_at a w) \<noteq> None then reap_cell (probes a) a w else w"
  let ?s = "state_at a ?w"
  obtain r1 n1 w1 where acc: "(if sv_lifecycle ?s = Ready \<and> sv_url ?s \<noteq> [] \<and> sv_api_key ?s \<noteq> []
       then (ready @ [candidate_of i a ?s], n, ?w)
       else if sv_lifecycle ?s = Starting then (ready, n + 1, ?w) else (ready, n, ?w)) = (r1, n1, w1)"
    by (metis prod_cases3)
  have step: "survey probes ts (r1, n1, w1) = (ready', n', w')"
    using Cons.prems(1) by (simp only: t survey.simps Let_def acc)
  have "ca_advertised (candidate_of i a ?s) = ca_model_id (candidate_of i a ?s)"
    "ca_key (candidate_of i a ?s) = sv_api_key ?s"
    by (simp_all add: candidate_of_def Let_def)
  moreover have "r1 = ready \<or> r1 = ready @ [candidate_of i a ?s] \<and> sv_api_key ?s \<noteq> []"
    using acc by (metis prod.inject)
  ultimately have "\<forall>x \<in> set r1. ca_advertised x = ca_model_id x \<and> ca_key x \<noteq> []"
    using Cons.prems(2) by auto
  from Cons.IH [OF step this] show ?case .
qed simp

lemma length_filter_key: "length (filter (\<lambda>y. f y = m) xs) = length (filter (\<lambda>z. z = m) (map f xs))"
  by (simp add: filter_map comp_def)

lemma snapshot_single:
  assumes "snapshot probes w = (c, w')" and "x \<in> set (ct_ready c)"
    and "ca_advertised x \<noteq> ca_model_id x"
  shows "2 \<le> length (filter (\<lambda>y. ca_model_id y = ca_model_id x) (ct_ready c))"
proof -
  obtain ready n w1 where survey:
    "survey probes ((default_session_id, 0) # reg_entries w) ([], 0, w) = (ready, n, w1)"
    by (metis prod_cases3)
  then have c: "ct_ready c = disambiguate None (sort_candidates ready)"
    using assms(1) by (auto simp: snapshot_def Let_def)
  have "\<forall>y \<in> set (sort_candidates ready). ca_advertised y = ca_model_id y"
    using survey_plain [OF survey] by (simp add: sort_candidates_def)
  with disambiguate_single [OF sorted_sort_candidates, of x None ready] assms(2,3)
  have "2 \<le> length (filter (\<lambda>y. ca_model_id y = ca_model_id x) (sort_candidates ready))"
    by (simp add: c)
  also have "length (filter (\<lambda>y. ca_model_id y = m) (sort_candidates ready)) =
      length (filter (\<lambda>y. ca_model_id y = m) (ct_ready c))" for m
    by (simp only: c length_filter_key [of ca_model_id] disambiguate_model_ids)
  finally show ?thesis .
qed

section \<open>Leases and the request count\<close>

text \<open>
  What the rest of the application may do to a session that has leases: anything that clears the
  private key, or keeps both the key and the request count.
\<close>

definition lease_neutral :: "server_state \<Rightarrow> server_state \<Rightarrow> bool" where
  "lease_neutral s s' \<longleftrightarrow>
     sv_api_key s' = [] \<or> sv_api_key s' = sv_api_key s \<and> sv_active_requests s' = sv_active_requests s"

definition leases_at :: "nat \<Rightarrow> string \<Rightarrow> lease list \<Rightarrow> nat" where
  "leases_at a key ls = length (filter (\<lambda>l. le_target l = a \<and> le_key l = key) ls)"

definition counted :: "world \<times> lease list \<Rightarrow> bool" where
  "counted = (\<lambda>(w, ls). length ls \<le> u32_max \<and>
     (\<forall>a < length (wd_cells w). sv_api_key (state_at a w) \<noteq> [] \<longrightarrow>
        sv_active_requests (state_at a w) = leases_at a (sv_api_key (state_at a w)) ls))"

text \<open>
  The transitions: a request takes or drops a lease, and the lock regions of the launch, stop,
  forget and status operations, each with arbitrary arguments. A launch generates a fresh key.
  \<open>Elsewhere\<close> covers the operations that change no cell (flags, registry, exit, clock).
\<close>

inductive gateway_step :: "world \<times> lease list \<Rightarrow> world \<times> lease list \<Rightarrow> bool" where
  Begin: "lease_begin c w = Some (l, w') \<Longrightarrow> length ls < u32_max \<Longrightarrow> gateway_step (w, ls) (w', l # ls)"
| Drop: "l \<in> set ls \<Longrightarrow> gateway_step (w, ls) (lease_drop l w, remove1 l ls)"
| Reap: "gateway_step (w, ls) (reap_cell p a w, ls)"
| Stop: "gateway_step (w, ls) (stop_cell a w, ls)"
| Forget: "forget i w = (r, w') \<Longrightarrow> gateway_step (w, ls) (w', ls)"
| Create: "get_or_create i name w = Inr (a, w') \<Longrightarrow> gateway_step (w, ls) (w', ls)"
| Admit: "sot_admit os saved a f w = Inr (g, worker, w') \<Longrightarrow> gateway_step (w, ls) (w', ls)"
| Spawn_Failed: "sot_spawn_failed a g e w = (m, w') \<Longrightarrow> gateway_step (w, ls) (w', ls)"
| Attach: "sot_attach a g f pid url key saved engine w = (r, w') \<Longrightarrow>
    key \<notin> le_key ` set ls \<Longrightarrow> gateway_step (w, ls) (w', ls)"
| Kill: "gateway_step (w, ls) (kill_tracked a w, ls)"
| Commit: "sot_ready a g f url saved w = (r, w') \<Longrightarrow> gateway_step (w, ls) (w', ls)"
| Not_Ready: "sot_not_ready a g url e w = (m, w') \<Longrightarrow> gateway_step (w, ls) (w', ls)"
| Guard_Drop: "gateway_step (w, ls) (launch_guard_drop a g w, ls)"
| Touch: "server_activity ''touch'' session w = (r, w') \<Longrightarrow> gateway_step (w, ls) (w', ls)"
| Elsewhere: "wd_cells w' = wd_cells w \<Longrightarrow> gateway_step (w, ls) (w', ls)"

inductive_cases gateway_stepE: "gateway_step (w, ls) (w', ls')"

lemma counted_put_cell:
  assumes "counted (w, ls)" and "lease_neutral (state_at a w) s"
  shows "counted (put_cell a s e k w, ls)"
  using assms by (auto simp: counted_def lease_neutral_def)

lemma counted_cong: "wd_cells w' = wd_cells w \<Longrightarrow> counted (w', ls) = counted (w, ls)"
  by (simp add: counted_def state_at_def cell_at_def)

lemmas neutral_defs = lease_neutral_def child_step_defs put_state_def

lemma counted_stop_cell: "counted (w, ls) \<Longrightarrow> counted (stop_cell a w, ls)"
  unfolding stop_cell_def stop_target_def
  by (auto simp: neutral_defs Let_def intro!: counted_put_cell)

lemma counted_reap_cell: "counted (w, ls) \<Longrightarrow> counted (reap_cell p a w, ls)"
  unfolding reap_cell_def reap_if_exited_def
  by (auto simp: neutral_defs Let_def split: option.splits probe.splits intro!: counted_put_cell)

lemma counted_forget: "counted (w, ls) \<Longrightarrow> counted (snd (forget i w), ls)"
proof (cases "map_of (wd_extra w) i")
  case (Some e)
  let ?a = "se_addr e" and ?w = "w\<lparr>wd_extra := map_remove i (wd_extra w)\<rparr>"
  let ?s = "cancel_launch ((state_at ?a ?w)\<lparr>sv_retired := True\<rparr>)"
  let ?k = "kill_child (sv_child ?s) (Some (cl_err (cell_at ?a ?w)))"
  let ?w2 = "put_cell ?a (?s\<lparr>sv_child := fst ?k\<rparr>) (the (fst (snd ?k))) (snd (snd ?k)) ?w"
  assume "counted (w, ls)"
  then have "counted (?w, ls)"
    by (rule counted_cong [THEN iffD2, rotated]) simp
  then have "counted (?w2, ls)"
    by (rule counted_put_cell) (simp add: neutral_defs)
  then have "counted (cancel_pending_start i ?w2, ls)"
    by (rule counted_cong [THEN iffD2, rotated]) simp
  moreover have "snd (forget i w) = cancel_pending_start i ?w2"
    using Some by (simp add: forget_def Let_def case_prod_beta)
  ultimately show ?thesis by simp
qed (simp add: forget_def)

lemma counted_create:
  assumes "counted (w, ls)" and "get_or_create i name w = Inr (a, w')"
  shows "counted (w', ls)"
proof -
  have "state_at b (w\<lparr>wd_cells := wd_cells w @ [new_cell (wd_now w)], wd_extra := x\<rparr>) =
      (if b < length (wd_cells w) then state_at b w else server_new (wd_now w))"
    if "b < Suc (length (wd_cells w))" for b x
    using that by (auto simp: state_at_def cell_at_def nth_append new_cell_def)
  with assms show ?thesis
    by (auto simp: get_or_create_def Let_def counted_def server_new_def split: if_splits option.splits)
qed

lemma leases_at_Cons:
  "leases_at a key (l # ls) = (if le_target l = a \<and> le_key l = key then 1 else 0) + leases_at a key ls"
  by (simp add: leases_at_def)

lemma leases_at_le: "leases_at a key ls \<le> length ls"
  by (simp add: leases_at_def)

lemma counted_begin:
  assumes "counted (w, ls)" and "lease_begin c w = Some (l, w')" and "length ls < u32_max"
  shows "counted (w', l # ls)"
proof -
  let ?a = "ca_target c"
  have l: "le_target l = ?a" "le_key l = sv_api_key (state_at ?a w)"
    and w': "w' = put_state ?a (begin_request (wd_now w) (state_at ?a w)) w"
    using assms(2) by (auto simp: lease_begin_def Let_def split: if_splits)
  have small: "min (leases_at a key ls + 1) u32_max = leases_at a key ls + 1" for a key
    using leases_at_le [of a key ls] assms(3) by simp
  show ?thesis
    using assms(1,3) small
    by (auto simp: w' counted_def neutral_defs leases_at_Cons l)
qed

lemma leases_at_remove1:
  "l \<in> set ls \<Longrightarrow> leases_at a key (remove1 l ls) =
     leases_at a key ls - (if le_target l = a \<and> le_key l = key then 1 else 0)"
  by (auto simp: leases_at_def filter_remove1 length_remove1 remove1_idem)

lemma counted_drop:
  assumes "counted (w, ls)" and "l \<in> set ls"
  shows "counted (lease_drop l w, remove1 l ls)"
  using assms
  by (auto simp: lease_drop_def counted_def neutral_defs Let_def leases_at_remove1 length_remove1)

lemma counted_attach:
  assumes "counted (w, ls)" and "key \<notin> le_key ` set ls"
  shows "counted (snd (sot_attach a g f pid url key saved engine w), ls)"
proof -
  have "counted (w\<lparr>wd_gone := x\<rparr>, ls)" for x
    by (rule counted_cong [THEN iffD2, OF _ assms(1)]) simp
  moreover have none: "leases_at b key ls = 0" for b
    using assms(2) by (auto simp: leases_at_def filter_empty_conv)
  have "counted (put_cell a s e k w, ls)"
    if "sv_api_key s = key" "sv_active_requests s = 0" for s e k
    using assms(1) that none by (auto simp: counted_def)
  ultimately show ?thesis
    unfolding sot_attach_def
    using counted_put_cell [OF assms(1)]
    by (auto simp: neutral_defs Let_def)
qed

lemma counted_step:
  assumes "gateway_step x y" and "counted x"
  shows "counted y"
  using assms
proof (induction rule: gateway_step.induct)
  case (Begin c w l w' ls)
  then show ?case using counted_begin by blast
next
  case (Drop l ls w)
  then show ?case using counted_drop by blast
next
  case (Reap w ls p a)
  then show ?case using counted_reap_cell by blast
next
  case (Stop w ls a)
  then show ?case using counted_stop_cell by blast
next
  case (Forget i w r w' ls)
  then show ?case using counted_forget [of w ls i] by simp
next
  case (Create i name w a w' ls)
  then show ?case using counted_create by blast
next
  case (Admit os saved a f w g worker w' ls)
  then show ?case
    by (auto simp: sot_admit_def neutral_defs Let_def split: if_splits sum.splits
        intro!: counted_put_cell)
next
  case (Spawn_Failed a g e w m w' ls)
  then show ?case
    by (auto simp: sot_spawn_failed_def neutral_defs Let_def split: if_splits intro!: counted_put_cell)
next
  case (Attach a g f pid url key saved engine w r w' ls)
  then show ?case using counted_attach [of w ls key a g f pid url saved engine] by simp
next
  case (Kill w ls a)
  then show ?case
    by (auto simp: kill_tracked_def neutral_defs Let_def intro!: counted_put_cell)
next
  case (Commit a g f url saved w r w' ls)
  then show ?case
    by (auto simp: sot_ready_def neutral_defs Let_def split: if_splits intro!: counted_put_cell)
next
  case (Not_Ready a g url e w m w' ls)
  then show ?case
    by (auto simp: sot_not_ready_def neutral_defs Let_def split: if_splits intro!: counted_put_cell)
next
  case (Guard_Drop w ls a g)
  then show ?case
    by (auto simp: launch_guard_drop_def neutral_defs Let_def intro!: counted_put_cell)
next
  case (Touch session w r w' ls)
  then show ?case
    by (auto simp: server_activity_def neutral_defs Let_def split: if_splits sum.splits
        intro!: counted_put_cell)
next
  case (Elsewhere w' w ls)
  then show ?case using counted_cong by blast
qed

definition gateway_init :: "world \<times> lease list \<Rightarrow> bool" where
  "gateway_init s \<longleftrightarrow> (\<exists>now. s = (world_new now, []))"

interpretation gateway: invariant_system gateway_init gateway_step counted
proof
  show "gateway_init s \<Longrightarrow> counted s" for s
    by (auto simp: gateway_init_def counted_def world_new_def state_at_def cell_at_def new_cell_def
        server_new_def)
qed (rule counted_step)

text \<open>A session that serves a live lease: its request was counted on the launch that still runs.\<close>

definition serves :: "nat \<Rightarrow> world \<Rightarrow> lease list \<Rightarrow> bool" where
  "serves a w ls \<longleftrightarrow> a < length (wd_cells w) \<and> sv_lifecycle (state_at a w) = Ready \<and>
     (\<exists>l \<in> set ls. le_target l = a \<and> le_key l = sv_api_key (state_at a w) \<and> le_key l \<noteq> [])"

lemma serves_busy:
  assumes "counted (w, ls)" and "serves a w ls"
  shows "busy_target (state_at a w)"
proof -
  have "0 < leases_at a (sv_api_key (state_at a w)) ls"
    using assms(2) by (auto simp: serves_def leases_at_def filter_empty_conv)
  with assms show ?thesis
    by (auto simp: serves_def counted_def busy_target_def)
qed

lemma busy_not_stopped: "busy_target (state_at a w) \<Longrightarrow> \<exists>e. stop_locked a w = (Inl e, w)"
  by (simp add: stop_locked_def ensure_can_unload_def)

lemma busy_not_idle: "busy_target s \<Longrightarrow> \<not> idle_due now s"
  by (auto simp: busy_target_def idle_due_def auto_unload_due_def split: option.splits)

lemma disambiguate_keys: "set (map ca_key (disambiguate prev cs)) = set (map ca_key cs)"
  by (induction cs arbitrary: prev) (auto simp: Let_def)

lemma snapshot_keys:
  assumes "snapshot probes w = (c, w')" and "x \<in> set (ct_ready c)"
  shows "ca_key x \<noteq> []"
proof -
  obtain ready n w1 where survey:
    "survey probes ((default_session_id, 0) # reg_entries w) ([], 0, w) = (ready, n, w1)"
    by (metis prod_cases3)
  then have "ct_ready c = disambiguate None (sort_candidates ready)"
    using assms(1) by (auto simp: snapshot_def Let_def)
  with assms(2) have "ca_key x \<in> set (map ca_key (sort_candidates ready))"
    using disambiguate_keys [of None "sort_candidates ready"] by fastforce
  with survey_plain [OF survey] show ?thesis
    by (auto simp: sort_candidates_def)
qed

lemma select_named_Inr:
  "select_named name c = Inr x \<longleftrightarrow> filter (\<lambda>x. ca_advertised x = name) (ct_ready c) = [x]"
  unfolding select_named_def Let_def by (auto split: list.split)

lemma select_in_catalog: "select_candidate requested c = Inr x \<Longrightarrow> x \<in> set (ct_ready c)"
proof -
  assume sel: "select_candidate requested c = Inr x"
  have find: "List.find P xs = Some y \<Longrightarrow> y \<in> set xs" for P xs and y :: candidate
    by (auto simp: find_Some_iff)
  have only: "filter P xs = [y] \<Longrightarrow> y \<in> set xs" for P xs and y :: candidate
    by (metis filter_is_subset list.set_intros(1) subsetD)
  let ?name = "Option.bind requested (\<lambda>r. if trim r \<noteq> [] then Some (trim r) else None)"
  have ready: "ct_ready c \<noteq> []"
    using sel by (auto simp: select_candidate_def)
  show ?thesis
  proof (cases ?name)
    case None
    show ?thesis
    proof (cases "List.find (\<lambda>x. ca_session_id x = default_session_id) (ct_ready c)")
      case (Some d)
      with None sel ready find [OF Some] show ?thesis by (simp add: select_candidate_def)
    next
      case None2: None
      from sel ready have "(case ct_ready c of [only] \<Rightarrow> Inr only
          | _ \<Rightarrow> Inl (ModelRequired (advertised c))) = Inr x"
        by (simp only: select_candidate_def None None2 if_False option.case)
      then show ?thesis by (auto split: list.splits)
    qed
  next
    case (Some name)
    with sel ready have "select_named name c = Inr x"
      by (simp add: select_candidate_def)
    then show ?thesis
      using only by (simp add: select_named_Inr)
  qed
qed

lemma acquire_loop_serves:
  assumes "acquire_loop io requested n k w = (Inr l, w')" and "le_target l < length (wd_cells w')"
  shows "serves (le_target l) w' (l # ls)"
  using assms
proof (induction io requested n k w rule: acquire_loop.induct)
  case (2 io requested n left w)
  obtain c w1 where snap: "snapshot (ri_probes io n) w = (c, w1)" by fastforce
  show ?case
  proof (cases "select_candidate requested c")
    case (Inl e)
    with 2(2) snap show ?thesis by simp
  next
    case (Inr chosen)
    have key: "ca_key chosen \<noteq> []"
      using snapshot_keys [OF snap select_in_catalog [OF Inr]] .
    show ?thesis
    proof (cases "lease_begin chosen (ri_env io n w1)")
      case None
      with 2 snap Inr show ?thesis by simp
    next
      case (Some r)
      with 2(2) snap Inr have r: "r = (l, w')" by (cases r) simp
      with Some 2(3) key show ?thesis
        by (auto simp: lease_begin_def serves_def neutral_defs Let_def split: if_splits)
    qed
  qed
qed simp

lemma acquire_loop_counts:
  assumes "acquire_loop io requested n k w = (Inr l, w')" and "le_target l < length (wd_cells w')"
  shows "0 < sv_active_requests (state_at (le_target l) w')"
  using assms
proof (induction io requested n k w rule: acquire_loop.induct)
  case (2 io requested n left w)
  obtain c w1 where snap: "snapshot (ri_probes io n) w = (c, w1)" by fastforce
  show ?case
  proof (cases "select_candidate requested c")
    case (Inl e)
    with 2(2) snap show ?thesis by simp
  next
    case (Inr chosen)
    show ?thesis
    proof (cases "lease_begin chosen (ri_env io n w1)")
      case None
      with 2 snap Inr show ?thesis by simp
    next
      case (Some r)
      with 2(2) snap Inr have r: "r = (l, w')" by (cases r) simp
      with Some 2(3) show ?thesis
        by (auto simp: lease_begin_def neutral_defs u32_max_def Let_def split: if_splits)
    qed
  qed
qed simp

section \<open>Properties\<close>


definition leased_attach :: world where
  "leased_attach = snd (sot_attach 0 0 0 77 ''http://127.0.0.1:4242/v1'' ''lb-7'' demo_config
     \<lparr>ei_provider = Llama, ei_upstream_model = ''m.gguf'', ei_tasks = [], ei_embedding_model = None\<rparr>
     demo_world)"

definition leased_ready :: world where
  "leased_ready = snd (sot_ready 0 0 0 ''http://127.0.0.1:4242/v1'' demo_config leased_attach)"

definition leased_candidate :: candidate where
  "leased_candidate = candidate_of ''default'' 0 (state_at 0 leased_ready)"

lemma leased_ready_state:
  "length (wd_cells leased_ready) = 1" "sv_lifecycle (state_at 0 leased_ready) = Ready"
  "sv_api_key (state_at 0 leased_ready) = ''lb-7''" "sv_retired (state_at 0 leased_ready) = False"
  by (simp_all add: leased_ready_def leased_attach_def sot_ready_def sot_attach_def demo_world_def
      world_new_def state_at_def cell_at_def new_cell_def server_new_def launch_obsolete_def
      is_current_launch_def flag_at_def Let_def put_cell_def child_step_defs put_state_def)

lemma leased_reachable:
  assumes "lease_begin leased_candidate leased_ready = Some (l, w')"
  shows "gateway_step\<^sup>*\<^sup>* (world_new 0, []) (w', [l])"
proof -
  have "gateway_step (world_new 0, []) (demo_world, [])"
    by (rule Elsewhere) (simp add: demo_world_def)
  moreover have "gateway_step (demo_world, []) (leased_attach, [])"
    unfolding leased_attach_def by (rule Attach [OF surjective_pairing]) simp
  moreover have "gateway_step (leased_attach, []) (leased_ready, [])"
    unfolding leased_ready_def by (rule Commit [OF surjective_pairing])
  moreover have "gateway_step (leased_ready, []) (w', [l])"
    by (rule Begin [OF assms]) (simp add: u32_max_def)
  ultimately show ?thesis by (meson converse_rtranclp_into_rtranclp rtranclp.rtrancl_refl)
qed


text \<open>Selection by name is unambiguous and complete. The chosen session is the only ready one
  advertised under the name; the name is reported as not found only when no ready session serves
  a model of that name in any form; and it is reported as ambiguous only when two match.\<close>

lemma select_by_name:
  assumes "snapshot probes w = (c, w')" and "trim r = name" and "name \<noteq> []"
  shows "case select_candidate (Some r) c of
      Inr x \<Rightarrow> filter (\<lambda>y. ca_advertised y = name) (ct_ready c) = [x]
    | Inl e \<Rightarrow>
        e = NoModel (ct_loading c > 0) \<and> ct_ready c = [] \<or>
        e = ModelNotFound name (advertised c) \<and>
          (\<forall>x \<in> set (ct_ready c). ca_advertised x \<noteq> name \<and> ca_model_id x \<noteq> name) \<or>
        (\<exists>ids. e = ModelAmbiguous name ids \<and> length ids = length (filter
             (\<lambda>y. ca_advertised y = name) (ct_ready c)) \<and> 2 \<le> length ids) \<or>
        (\<exists>ids. e = ModelAmbiguous name ids \<and> length ids = length (filter
             (\<lambda>y. ca_model_id y = name) (ct_ready c)) \<and> 2 \<le> length ids)"
proof (cases "ct_ready c = []")
  case True
  then show ?thesis by (simp add: select_candidate_def)
next
  case ready: False
  then have sel: "select_candidate (Some r) c = select_named name c"
    using assms(2,3) by (simp add: select_candidate_def)
  let ?adv = "filter (\<lambda>y. ca_advertised y = name) (ct_ready c)"
  let ?ids = "filter (\<lambda>y. ca_model_id y = name) (ct_ready c)"
  show ?thesis
  proof (cases "select_named name c")
    case (Inr x)
    with sel show ?thesis by (simp add: select_named_Inr)
  next
    case (Inl e)
    consider "?adv = []" "?ids = []" | "?adv = []" "?ids \<noteq> []" | x where "?adv = [x]"
      | x y zs where "?adv = x # y # zs"
      by (metis list.exhaust)
    then show ?thesis
    proof cases
      case 1
      with sel show ?thesis
        by (simp add: select_named_def filter_empty_conv)
    next
      case 2
      then obtain x where x: "x \<in> set (ct_ready c)" "ca_model_id x = name"
        by (auto simp: filter_empty_conv)
      with 2(1) have "ca_advertised x \<noteq> ca_model_id x"
        by (auto simp: filter_empty_conv)
      from snapshot_single [OF assms(1) x(1) this] x(2) have "2 \<le> length ?ids" by simp
      with 2 sel show ?thesis by (simp add: select_named_def Let_def)
    next
      case 3
      with sel show ?thesis by (simp add: select_named_def)
    next
      case 4
      with sel show ?thesis by (simp add: select_named_def)
    qed
  qed
qed

text \<open>Two ready sessions and one that is loading.\<close>

definition demo_ready :: "string \<Rightarrow> string \<Rightarrow> server_state" where
  "demo_ready path key =
     (server_new 0)\<lparr>sv_lifecycle := Ready, sv_url := ''u'', sv_api_key := key, sv_model := path\<rparr>"

definition catalog_world :: world where
  "catalog_world = (world_new 0)\<lparr>
     wd_cells := map (\<lambda>s. \<lparr>cl_state = s, cl_poisoned = False, cl_err = eb_new\<rparr>)
       [demo_ready ''/m/a.gguf'' ''k0'', demo_ready ''/n/a.gguf'' ''k1''],
     wd_extra := [(''s1'', \<lparr>se_name = ''one'', se_addr = 1\<rparr>)]\<rparr>"

lemma catalog_world_snapshot:
  "map ca_advertised (ct_ready (fst (snapshot probes catalog_world))) =
     [''a.gguf@default'', ''a.gguf@s1'']"
  by (simp add: snapshot_def catalog_world_def world_new_def reg_entries_def default_session_id_def
      state_at_def cell_at_def demo_ready_def server_new_def candidate_of_def file_name_def
      path_separator_def sort_candidates_def Let_def)

lemma catalog_world_ready:
  "map (\<lambda>x. (ca_session_id x, ca_target x, ca_key x)) (ct_ready (fst (snapshot probes catalog_world))) =
     [(default_session_id, 0, ''k0''), (''s1'', 1, ''k1'')] \<and>
   snd (snapshot probes catalog_world) = catalog_world"
  by (simp add: snapshot_def catalog_world_def world_new_def reg_entries_def default_session_id_def
      state_at_def cell_at_def demo_ready_def server_new_def candidate_of_def file_name_def
      path_separator_def sort_candidates_def Let_def)

lemma trim_demo: "trim '' a.gguf'' = ''a.gguf''"
  by code_simp

theorem select_by_name_witness:
  "\<exists>e. select_candidate (Some '' a.gguf'') (fst (snapshot (\<lambda>_. Running) catalog_world)) = Inl e"
proof -
  let ?c = "fst (snapshot (\<lambda>_. Running) catalog_world)"
  have "''a.gguf'' \<notin> set (map ca_advertised (ct_ready ?c))"
    unfolding catalog_world_snapshot by simp
  then have "filter (\<lambda>y. ca_advertised y = ''a.gguf'') (ct_ready ?c) = []"
    by (simp add: filter_empty_conv) (metis image_eqI)
  with select_by_name [OF surjective_pairing trim_demo, of "\<lambda>_. Running" catalog_world]
  show ?thesis
    by (auto split: sum.splits)
qed

text \<open>An acquired lease is counted. When \<open>acquire\<close> succeeds, under any interference between its
  snapshots and its lease, the session the lease is on is ready under exactly the key the request
  will present, and the lease counts on it.\<close>

lemma acquired_lease_serves:
  assumes "acquire io requested w = (Inr l, w')" and "le_target l < length (wd_cells w')"
  shows "serves (le_target l) w' (l # ls) \<and> 0 < sv_active_requests (state_at (le_target l) w')"
  using acquire_loop_serves [of io requested 0 4 w l w' ls] acquire_loop_counts [of io requested 0 4 w l w']
    assms by (simp add: acquire_def)

theorem acquired_lease_serves_witness:
  "\<exists>l w'. acquire \<lparr>ri_probes = \<lambda>_ _. Running, ri_env = \<lambda>_ w. w\<rparr> None catalog_world = (Inr l, w') \<and>
     serves 0 w' [l] \<and> 0 < sv_active_requests (state_at 0 w')"
proof -
  let ?io = "\<lparr>ri_probes = \<lambda>_ _. Running, ri_env = \<lambda>_ w. w\<rparr>"
  let ?c = "fst (snapshot (\<lambda>_. Running) catalog_world)"
  obtain x y where ready: "ct_ready ?c = [x, y]" and x: "ca_session_id x = default_session_id"
      "ca_target x = 0" "ca_key x = ''k0''"
    using catalog_world_ready [of "\<lambda>_. Running"] by auto
  then have sel: "select_candidate None ?c = Inr x"
    by (simp add: select_candidate_def)
  have state: "sv_lifecycle (state_at 0 catalog_world) = Ready"
      "sv_api_key (state_at 0 catalog_world) = ''k0''" "length (wd_cells catalog_world) = 2"
    by (simp_all add: catalog_world_def state_at_def cell_at_def demo_ready_def)
  obtain l w' where b: "lease_begin x catalog_world = Some (l, w')"
    by (simp add: lease_begin_def Let_def x state)
  then have l: "le_target l = 0" "length (wd_cells w') = 2"
    using x state by (auto simp: lease_begin_def Let_def put_state_def)
  have "acquire_loop ?io None 0 (Suc 3) catalog_world = (Inr l, w')"
    using catalog_world_ready [of "\<lambda>_. Running"]
    by (simp only: acquire_loop.simps) (simp add: case_prod_beta Let_def sel b)
  then have "acquire ?io None catalog_world = (Inr l, w')"
    by (simp add: acquire_def numeral_eq_Suc)
  with acquired_lease_serves [of ?io None catalog_world l w' "[]"] l show ?thesis
    by auto
qed

section \<open>A name that two sessions advertise\<close>

text \<open>
  The advertised ids are not always distinct: a model file may itself be named like the
  disambiguated id of another session. Neither session can then be addressed by that name.
\<close>

lemma advertised_can_collide:
  defines "cs \<equiv> map (\<lambda>(i, m). \<lparr>ca_session_id = i, ca_model_id = m, ca_advertised = m, ca_target = 0,
      ca_url = ''u'', ca_key = ''k''\<rparr>) [(''s1'', ''a''), (''s2'', ''a''), (''s3'', ''a@s1'')]"
  shows "select_named ''a@s1'' \<lparr>ct_ready = disambiguate None (sort_candidates cs), ct_loading = 0\<rparr> =
    Inl (ModelAmbiguous ''a@s1'' [''a@s1'', ''a@s1''])"
  by (simp add: cs_def sort_candidates_def select_named_def Let_def)

section \<open>Activity reports without a launch\<close>

text \<open>
  Unlike a lease, an \<open>end\<close> report of the desktop client names a session but no launch. One that
  arrives after the session was relaunched subtracts the request of another client, and the
  session can be unloaded while that request is still running.
\<close>

lemma late_end_report_uncounts:
  assumes "sv_lifecycle (state_at 0 w) = Ready" and "\<not> cl_poisoned (cell_at 0 w)"
    and "sv_active_requests (state_at 0 w) = 1" and "0 < length (wd_cells w)"
  shows "\<exists>w1. server_activity ''end'' None w = (Inr (), w1) \<and> fst (stop_locked 0 w1) = Inr ()"
  using assms
  by (simp add: server_activity_def activity_target_def stop_locked_def ensure_can_unload_def
      busy_target_def put_state_def end_request_def touch_activity_def Let_def)

end
