(* ===== verification/GpuPlacement.thy ===== *)
theory GpuPlacement
  imports Config
begin

text \<open>
  From a saved GPU placement to the device names of a runtime: \<open>src-tauri/src/gpu.rs\<close>, the memory
  the selection offers (\<open>src-tauri/src/resource_estimate/capacity.rs\<close>), and the device data of
  \<open>src-tauri/src/hardware.rs\<close>.

  The detected cards and the lines of \<open>--list-devices\<close> are arguments. Errors carry the messages of
  the code.
\<close>

section \<open>Detected devices\<close>

datatype gpu_vendor = Nvidia | Amd | Intel | Apple | UnknownVendor

record gpu_device =
  gd_vendor :: gpu_vendor
  gd_name :: string
  gd_vram_mb :: "nat option"
  gd_driver :: "string option"
  gd_pci_id :: "string option"
  gd_integrated :: bool
  gd_stable_id :: string

definition vendor_from_pci :: "nat \<Rightarrow> gpu_vendor" where
  "vendor_from_pci v =
     (if v = 0x10de \<or> v = 0x12d2 then Nvidia
      else if v = 0x1002 \<or> v = 0x1022 then Amd
      else if v = 0x8086 \<or> v = 0x8087 then Intel
      else if v = 0x106b then Apple
      else UnknownVendor)"

text \<open>\<open>max_by_key\<close> keeps the last of several maxima.\<close>

fun max_by_key :: "('a \<Rightarrow> nat) \<Rightarrow> 'a list \<Rightarrow> 'a option" where
  "max_by_key k [] = None"
| "max_by_key k (x # xs) =
     (case max_by_key k xs of None \<Rightarrow> Some x | Some y \<Rightarrow> if k x > k y then Some x else Some y)"

definition vram_or_zero :: "gpu_device \<Rightarrow> nat" where
  "vram_or_zero g = (case gd_vram_mb g of None \<Rightarrow> 0 | Some mb \<Rightarrow> mb)"

definition primary_gpu :: "gpu_device list \<Rightarrow> gpu_device option" where
  "primary_gpu gpus =
     (case max_by_key vram_or_zero (filter (\<lambda>g. \<not> gd_integrated g) gpus) of
        Some g \<Rightarrow> Some g
      | None \<Rightarrow> (case gpus of [] \<Rightarrow> None | g # _ \<Rightarrow> Some g))"

definition has_vendor :: "gpu_vendor \<Rightarrow> gpu_device list \<Rightarrow> bool" where
  "has_vendor v gpus \<longleftrightarrow> list_ex (\<lambda>g. gd_vendor g = v) gpus"

definition has_discrete :: "gpu_vendor \<Rightarrow> gpu_device list \<Rightarrow> bool" where
  "has_discrete v gpus \<longleftrightarrow> list_ex (\<lambda>g. gd_vendor g = v \<and> \<not> gd_integrated g) gpus"

section \<open>Backends\<close>

definition device_prefix :: "string \<Rightarrow> string option" where
  "device_prefix backend =
     map_of [(''cuda'', ''CUDA''), (''rocm'', ''ROCm''), (''vulkan'', ''Vulkan''), (''sycl'', ''SYCL''),
             (''metal'', ''MTL'')] backend"

definition vendor_for_backend :: "string \<Rightarrow> gpu_vendor option" where
  "vendor_for_backend backend =
     map_of [(''cuda'', Nvidia), (''rocm'', Amd), (''sycl'', Intel)] backend"

definition device_pool :: "gpu_device list \<Rightarrow> string \<Rightarrow> gpu_device list" where
  "device_pool gpus backend =
     (case vendor_for_backend backend of
        Some v \<Rightarrow> filter (\<lambda>g. gd_vendor g = v) gpus | None \<Rightarrow> gpus)"

record resolved_gpu =
  rg_device_flag :: "string option"
  rg_main_gpu_index :: "nat option"
  rg_split_mode :: "string option"
  rg_tensor_split :: "f32 list"
  rg_draft_device :: "string option"

definition resolved_none :: resolved_gpu where
  "resolved_none =
     \<lparr>rg_device_flag = None, rg_main_gpu_index = None, rg_split_mode = None, rg_tensor_split = [],
      rg_draft_device = None\<rparr>"

definition resolved_is_empty :: "resolved_gpu \<Rightarrow> bool" where
  "resolved_is_empty r \<longleftrightarrow>
     rg_device_flag r = None \<and> rg_main_gpu_index r = None \<and> rg_split_mode r = None \<and>
     rg_tensor_split r = [] \<and> rg_draft_device r = None"

fun index_where :: "('a \<Rightarrow> bool) \<Rightarrow> 'a list \<Rightarrow> nat option" where
  "index_where P [] = None"
| "index_where P (x # xs) = (if P x then Some 0 else map_option Suc (index_where P xs))"

definition quoted :: "string \<Rightarrow> string" where
  "quoted s = CHR 0x27 # s @ [CHR 0x27]"

text \<open>\<open>--main-gpu\<close> indexes the selected \<open>--device\<close> list, not the list of the runtime.\<close>

definition main_device_index :: "gpu_placement \<Rightarrow> string \<Rightarrow> nat \<Rightarrow> string + nat" where
  "main_device_index p i runtime_index =
     (if gp_gpu_ids p = [] then Inr runtime_index
      else ok_or (''main GPU '' @ quoted i @ '' is not in the selected device list'')
             (index_where (\<lambda>x. x = i) (gp_gpu_ids p)))"

section \<open>Resolution against the detected order\<close>

definition resolve_devices ::
  "(string \<Rightarrow> string + string) \<Rightarrow> (string \<Rightarrow> string + nat) \<Rightarrow> gpu_placement \<Rightarrow> string + resolved_gpu"
where
  "resolve_devices name_of index_of p =
     bind_r
       (if gp_gpu_ids p = [] then Inr None
        else bind_r (traverse_r name_of (gp_gpu_ids p)) (\<lambda>names. Inr (Some (join '','' names))))
       (\<lambda>device_flag.
     bind_r
       (case gp_main_gpu p of
          None \<Rightarrow> Inr None
        | Some main \<Rightarrow>
            bind_r (index_of main) (\<lambda>i. bind_r (main_device_index p main i) (\<lambda>i. Inr (Some i))))
       (\<lambda>main_index.
     bind_r
       (case gp_draft_gpu_id p of
          None \<Rightarrow> Inr None | Some draft \<Rightarrow> bind_r (name_of draft) (\<lambda>n. Inr (Some n)))
       (\<lambda>draft_device.
     Inr \<lparr>rg_device_flag = device_flag, rg_main_gpu_index = main_index,
          rg_split_mode = split_flag_value (gp_split_mode p),
          rg_tensor_split = gp_tensor_split p, rg_draft_device = draft_device\<rparr>)))"

definition no_backend_message :: "string \<Rightarrow> string" where
  "no_backend_message backend =
     ''GPU placement is configured but backend '' @ quoted (if backend = [] then ''(none selected)'' else backend)
     @ '' does not support pinning devices by id; select cuda, rocm, vulkan, sycl, or metal, or clear the GPU assignment''"

definition resolve :: "gpu_placement \<Rightarrow> string \<Rightarrow> gpu_device list \<Rightarrow> string + resolved_gpu" where
  "resolve p backend gpus =
     (if placement_is_empty p then Inr resolved_none
      else case device_prefix backend of
        None \<Rightarrow> Inl (no_backend_message backend)
      | Some dprefix \<Rightarrow>
          let pool = device_pool gpus backend;
              index_of = (\<lambda>i. ok_or
                (''configured GPU '' @ quoted i @ '' was not found on this machine for backend ''
                 @ quoted backend @ ''; reselect a detected GPU rather than starting without one'')
                (index_where (\<lambda>g. gd_stable_id g = i) pool))
          in resolve_devices (\<lambda>i. bind_r (index_of i) (\<lambda>n. Inr (dprefix @ digits_of_nat n)))
               index_of p)"

section \<open>The runtime's own device list\<close>

record runtime_device =
  rd_name :: string
  rd_index :: nat
  rd_searchable :: string
  rd_identity :: string

definition searchable :: "string \<Rightarrow> string" where
  "searchable s = map to_ascii_lowercase (filter is_ascii_alphanumeric s)"

definition all_digits :: "string \<Rightarrow> bool" where
  "all_digits s \<longleftrightarrow> s \<noteq> [] \<and> list_all is_ascii_digit s"

definition runtime_identity :: "string \<Rightarrow> string" where
  "runtime_identity description =
     (let description = trim_end description in
      case rsplit_sub '', '' description of
        None \<Rightarrow> searchable description
      | Some (identity, free) \<Rightarrow>
          let total_mib = (case rsplit_once CHR ''('' identity of
                  None \<Rightarrow> None | Some (_, memory) \<Rightarrow> strip_suffix '' MiB'' memory)
          in (case (total_mib, strip_suffix '' MiB free)'' free) of
                (Some t, Some f) \<Rightarrow>
                  if all_digits t \<and> all_digits f then searchable identity else searchable description
              | _ \<Rightarrow> searchable description))"

definition device_suffix :: "string \<Rightarrow> string \<Rightarrow> string option" where
  "device_suffix dprefix name =
     (case strip_prefix dprefix name of
        Some s \<Rightarrow> Some s
      | None \<Rightarrow> if dprefix = ''MTL'' then strip_prefix ''Metal'' name else None)"

definition parse_runtime_device :: "string \<Rightarrow> string \<Rightarrow> runtime_device option" where
  "parse_runtime_device dprefix line =
     (case split_once CHR '':'' (trim line) of
        None \<Rightarrow> None
      | Some (name, description) \<Rightarrow>
          (case device_suffix dprefix (trim name) of
             None \<Rightarrow> None
           | Some s \<Rightarrow>
               map_option (\<lambda>index. \<lparr>rd_name = trim name, rd_index = index,
                   rd_searchable = searchable (name @ '' '' @ description),
                   rd_identity = runtime_identity description\<rparr>)
                 (parse_unsigned (2 ^ 64) s)))"

definition parse_runtime_devices :: "string list \<Rightarrow> string \<Rightarrow> runtime_device list" where
  "parse_runtime_devices lines dprefix = List.map_filter (parse_runtime_device dprefix) lines"

definition runtime_scope :: "string \<Rightarrow> string" where
  "runtime_scope backend = ''runtime:'' @ backend @ '':''"

definition matches_card :: "gpu_device \<Rightarrow> runtime_device \<Rightarrow> bool" where
  "matches_card g d \<longleftrightarrow>
     (let name = searchable (gd_name g); stable = searchable (gd_stable_id g) in
      name \<noteq> [] \<and> (contains_sub name (rd_searchable d) \<or> contains_sub (rd_searchable d) name)
      \<or> (case gd_pci_id g of
           None \<Rightarrow> False
         | Some pci \<Rightarrow> searchable pci \<noteq> [] \<and> contains_sub (searchable pci) (rd_searchable d))
      \<or> stable \<noteq> [] \<and> contains_sub stable (rd_searchable d))"

definition only_match :: "string \<Rightarrow> gpu_device \<Rightarrow> runtime_device list \<Rightarrow> string + runtime_device" where
  "only_match dprefix g candidates =
     (case candidates of
        [] \<Rightarrow> Inl (''GPU '' @ quoted (gd_name g) @ '' ('' @ gd_stable_id g
                 @ '') could not be matched to the devices reported by the selected runtime'')
      | [d] \<Rightarrow> Inr d
      | _ \<Rightarrow> Inl (''GPU '' @ quoted (gd_name g) @ '' ('' @ gd_stable_id g
                @ '') is ambiguous in the runtime device list; refresh GPU choices and select an explicit ''
                @ dprefix @ '' runtime device instead of guessing physical GPU order''))"

definition resolve_id ::
  "string \<Rightarrow> string \<Rightarrow> runtime_device list \<Rightarrow> gpu_device list \<Rightarrow> string \<Rightarrow> string + runtime_device" where
  "resolve_id backend dprefix devices pool i =
     (if starts_with ''runtime:'' i then
        ok_or (''runtime GPU '' @ quoted i @ '' is unavailable for '' @ backend
               @ ''; probe and reselect a runtime device'')
          (case strip_prefix (runtime_scope backend) i of
             None \<Rightarrow> None | Some name \<Rightarrow> find (\<lambda>d. rd_name d = name) devices)
      else bind_r
        (ok_or (''configured GPU '' @ quoted i @ '' was not found on this machine for backend ''
                @ quoted backend)
           (find (\<lambda>g. gd_stable_id g = i) pool))
        (\<lambda>g. only_match dprefix g (filter (matches_card g) devices)))"

definition resolve_with_runtime_devices ::
  "gpu_placement \<Rightarrow> string \<Rightarrow> gpu_device list \<Rightarrow> string list \<Rightarrow> string + resolved_gpu" where
  "resolve_with_runtime_devices p backend gpus lines =
     (if placement_is_empty p then Inr resolved_none
      else case device_prefix backend of
        None \<Rightarrow> resolve p backend gpus
      | Some dprefix \<Rightarrow>
          let devices = parse_runtime_devices lines dprefix in
          if devices = [] then
            Inl (''the selected '' @ backend @ '' runtime did not report any '' @ dprefix
                 @ '' devices; refresh the runtime probe or clear the GPU assignment'')
          else
            let resolved = resolve_id backend dprefix devices (device_pool gpus backend)
            in resolve_devices (\<lambda>i. bind_r (resolved i) (\<lambda>d. Inr (rd_name d)))
                 (\<lambda>i. bind_r (resolved i) (\<lambda>d. Inr (rd_index d))) p)"

definition select_all_runtime_devices :: "string \<Rightarrow> string list \<Rightarrow> string list" where
  "select_all_runtime_devices backend lines =
     (case device_prefix backend of
        None \<Rightarrow> []
      | Some dprefix \<Rightarrow>
          map (\<lambda>d. runtime_scope backend @ rd_name d) (parse_runtime_devices lines dprefix))"

section \<open>Another backend's devices\<close>

record remapped =
  rm_placement :: gpu_placement
  rm_dropped :: "string list"

text \<open>A card is its description and its position among the cards described alike.\<close>

definition device_identity :: "runtime_device list \<Rightarrow> string \<Rightarrow> (string \<times> nat) option" where
  "device_identity devices name =
     (case find (\<lambda>d. rd_name d = name) devices of
        None \<Rightarrow> None
      | Some d \<Rightarrow>
          map_option (\<lambda>pos. (rd_identity d, pos))
            (index_where (\<lambda>x. rd_name x = name)
              (filter (\<lambda>x. rd_identity x = rd_identity d) devices)))"

definition device_named :: "runtime_device list \<Rightarrow> string \<Rightarrow> nat \<Rightarrow> string option" where
  "device_named devices ident pos =
     (let alike = filter (\<lambda>x. rd_identity x = ident) devices in
      if pos < length alike then Some (rd_name (alike ! pos)) else None)"

definition convert_id ::
  "string \<Rightarrow> string \<Rightarrow> runtime_device list option \<Rightarrow> runtime_device list option \<Rightarrow> string \<Rightarrow> string option"
where
  "convert_id from_backend to_backend old new i =
     (case strip_prefix (runtime_scope from_backend) i of
        None \<Rightarrow> Some i
      | Some name \<Rightarrow>
          (case (old, new) of
             (Some old, Some new) \<Rightarrow>
               (case device_identity old name of
                  None \<Rightarrow> None
                | Some (ident, pos) \<Rightarrow>
                    map_option (\<lambda>mapped. runtime_scope to_backend @ mapped)
                      (device_named new ident pos))
           | _ \<Rightarrow> None))"

definition remap_with :: "(string \<Rightarrow> string option) \<Rightarrow> gpu_placement \<Rightarrow> remapped" where
  "remap_with convert p =
     (let ids = List.map_filter convert (gp_gpu_ids p);
          main = Option.bind (gp_main_gpu p) convert;
          draft = Option.bind (gp_draft_gpu_id p) convert;
          dropped = filter (\<lambda>i. convert i = None) (gp_gpu_ids p)
            @ (if main = None then option_list (gp_main_gpu p) else [])
            @ (if draft = None then option_list (gp_draft_gpu_id p) else []);
          next_main = (case main of
              None \<Rightarrow> None
            | Some m \<Rightarrow> if ids \<noteq> [] \<and> m \<notin> set ids then None else Some m)
      in \<lparr>rm_placement =
            p\<lparr>gp_gpu_ids := ids, gp_main_gpu := next_main, gp_draft_gpu_id := draft,
              gp_tensor_split :=
                (if length ids \<noteq> length (gp_gpu_ids p) then [] else gp_tensor_split p)\<rparr>,
          rm_dropped = dropped\<rparr>)"

definition runtime_list :: "string \<Rightarrow> string list \<Rightarrow> runtime_device list option" where
  "runtime_list backend lines = map_option (parse_runtime_devices lines) (device_prefix backend)"

definition remap_runtime_devices ::
  "gpu_placement \<Rightarrow> string \<Rightarrow> string list \<Rightarrow> string \<Rightarrow> string list \<Rightarrow> remapped" where
  "remap_runtime_devices p from_backend from_devices to_backend to_devices =
     (if from_backend = to_backend \<or> placement_is_empty p then
        \<lparr>rm_placement = p, rm_dropped = []\<rparr>
      else remap_with (convert_id from_backend to_backend (runtime_list from_backend from_devices)
                         (runtime_list to_backend to_devices)) p)"

fun has_duplicate_identity :: "runtime_device list \<Rightarrow> bool" where
  "has_duplicate_identity [] = False"
| "has_duplicate_identity (d # ds) \<longleftrightarrow>
     list_ex (\<lambda>x. rd_identity d = rd_identity x) ds \<or> has_duplicate_identity ds"

definition validate_safe_auto_placement ::
  "gpu_placement \<Rightarrow> string \<Rightarrow> string list \<Rightarrow> string + unit" where
  "validate_safe_auto_placement p backend lines =
     (if backend \<noteq> ''vulkan'' \<or> \<not> placement_is_empty p then Inr ()
      else if has_duplicate_identity (parse_runtime_devices lines ''Vulkan'') then
        Inl ''the Vulkan runtime reports multiple identical GPUs; select one or more GPUs explicitly before starting the server to avoid unstable automatic placement''
      else Inr ())"

section \<open>The memory of the selected devices\<close>

definition mib :: nat where "mib = 1024 * 1024"

record gpu_capacity =
  gc_dedicated_bytes :: nat
  gc_devices :: nat
  gc_shared :: bool

record selected_gpu =
  sg_integrated :: bool
  sg_total_bytes :: "nat option"

record listed_gpu =
  lg_name :: string
  lg_identity :: string
  lg_total_bytes :: "nat option"

definition backend_devices :: "string \<Rightarrow> (string \<times> gpu_vendor option) option" where
  "backend_devices backend =
     map_of [(''cuda'', (''CUDA'', Some Nvidia)), (''rocm'', (''ROCm'', Some Amd)),
             (''vulkan'', (''Vulkan'', None)), (''sycl'', (''SYCL'', Some Intel)),
             (''metal'', (''MTL'', None))] backend"

definition listed_memory :: "string \<Rightarrow> (string \<times> nat) option" where
  "listed_memory description =
     (case rsplit_once CHR ''('' description of
        None \<Rightarrow> None
      | Some (head, memory) \<Rightarrow>
          (case split_sub '' MiB'' memory of
             None \<Rightarrow> None
           | Some (m, _) \<Rightarrow>
               (case parse_unsigned (2 ^ 64) (trim m) of
                  None \<Rightarrow> None
                | Some n \<Rightarrow> map_option (\<lambda>b. (head, b)) (checked_mul n mib))))"

definition list_device :: "string \<Rightarrow> string \<Rightarrow> listed_gpu list \<Rightarrow> listed_gpu list" where
  "list_device dprefix line devices =
     (case split_once CHR '':'' (trim line) of
        None \<Rightarrow> devices
      | Some (name, description) \<Rightarrow>
          let name = trim name;
              index = (case device_suffix dprefix name of None \<Rightarrow> [] | Some s \<Rightarrow> s)
          in if \<not> all_digits index \<or> list_ex (\<lambda>d. lg_name d = name) devices then devices
             else
               let (description, total_bytes) = (case listed_memory description of
                     Some (head, b) \<Rightarrow> (head, Some b) | None \<Rightarrow> (description, None))
               in devices @ [\<lparr>lg_name = name, lg_identity = searchable description,
                              lg_total_bytes = total_bytes\<rparr>])"

definition listed_devices :: "string list \<Rightarrow> string \<Rightarrow> listed_gpu list" where
  "listed_devices lines dprefix = fold (list_device dprefix) lines []"

definition same_model :: "string \<Rightarrow> string \<Rightarrow> bool" where
  "same_model given identity \<longleftrightarrow>
     (let given = searchable given in
      given \<noteq> [] \<and> identity \<noteq> [] \<and> (contains_sub given identity \<or> contains_sub identity given))"

definition classify_device :: "gpu_device list \<Rightarrow> listed_gpu \<Rightarrow> selected_gpu option" where
  "classify_device pool d =
     (case filter (\<lambda>g. same_model (gd_name g) (lg_identity d)) pool of
        [] \<Rightarrow> None
      | g # others \<Rightarrow>
          if list_ex (\<lambda>x. gd_integrated x \<noteq> gd_integrated g) others then None
          else Some \<lparr>sg_integrated = gd_integrated g, sg_total_bytes = lg_total_bytes d\<rparr>)"

definition resolve_capacity ::
  "string \<Rightarrow> listed_gpu list \<Rightarrow> gpu_device list \<Rightarrow> string \<Rightarrow> selected_gpu option" where
  "resolve_capacity backend listed pool i =
     (if starts_with ''runtime:'' i then
        (case strip_prefix (runtime_scope backend) i of
           None \<Rightarrow> None
         | Some name \<Rightarrow>
             Option.bind (find (\<lambda>d. lg_name d = name) listed) (classify_device pool))
      else
        map_option (\<lambda>g. \<lparr>sg_integrated = gd_integrated g,
            sg_total_bytes = Option.bind (gd_vram_mb g) (\<lambda>mb. checked_mul mb mib)\<rparr>)
          (find (\<lambda>g. gd_stable_id g = i) pool))"

fun dedicated_total :: "selected_gpu list \<Rightarrow> nat \<Rightarrow> nat option" where
  "dedicated_total [] n = Some n"
| "dedicated_total (d # ds) n =
     (if sg_integrated d then dedicated_total ds n
      else Option.bind (sg_total_bytes d) (\<lambda>b. Option.bind (checked_add n b) (dedicated_total ds)))"

fun add_once :: "string list \<Rightarrow> string list \<Rightarrow> string list" where
  "add_once [] ids = ids"
| "add_once (i # is) ids = add_once is (if i \<in> set ids then ids else ids @ [i])"

definition default_devices :: "bool \<Rightarrow> selected_gpu list \<Rightarrow> selected_gpu list" where
  "default_devices single listed =
     (let dedicated = filter (\<lambda>d. \<not> sg_integrated d) listed;
          defaults = (if dedicated = [] then listed else dedicated)
      in if single then take 1 defaults else defaults)"

definition select_capacity ::
  "gpu_placement \<Rightarrow> (string \<Rightarrow> selected_gpu option) \<Rightarrow> selected_gpu list option \<Rightarrow>
   selected_gpu list option" where
  "select_capacity p resolved listed =
     (let ids = add_once (gp_gpu_ids p) []; single = (gp_split_mode p = SplitSingle) in
      case (gp_main_gpu p, single) of
        (Some main, True) \<Rightarrow> traverse_o resolved [main]
      | _ \<Rightarrow>
          if ids \<noteq> [] then traverse_o resolved (if single then take 1 ids else ids)
          else map_option (default_devices single) listed)"

definition gpu_capacity_of ::
  "gpu_placement \<Rightarrow> string \<Rightarrow> gpu_device list \<Rightarrow> string list \<Rightarrow> gpu_capacity option" where
  "gpu_capacity_of p backend gpus lines =
     (case backend_devices backend of
        None \<Rightarrow> None
      | Some (dprefix, vendor) \<Rightarrow>
          let listed = listed_devices lines dprefix;
              pool = filter (\<lambda>g. case vendor of None \<Rightarrow> True | Some v \<Rightarrow> gd_vendor g = v) gpus;
              ids = add_once (gp_gpu_ids p) []
          in if ids \<noteq> [] \<and> (case gp_main_gpu p of None \<Rightarrow> False | Some m \<Rightarrow> m \<notin> set ids) then None
             else case select_capacity p (resolve_capacity backend listed pool)
                      (traverse_o (classify_device pool) listed) of
               None \<Rightarrow> None
             | Some devices \<Rightarrow>
                 if devices = [] then None
                 else map_option (\<lambda>total. \<lparr>gc_dedicated_bytes = total, gc_devices = length devices,
                          gc_shared = list_ex sg_integrated devices\<rparr>)
                        (dedicated_total devices 0))"

section \<open>Lemmas\<close>

lemma index_where_Some_iff:
  "index_where P xs = Some i \<longleftrightarrow> i < length xs \<and> P (xs ! i) \<and> (\<forall>j < i. \<not> P (xs ! j))"
proof (induction xs arbitrary: i)
  case (Cons x xs)
  show ?case
    by (cases i) (auto simp: Cons.IH All_less_Suc2)
qed simp

lemma find_first:
  assumes "find P xs = Some x"
  shows "x \<in> set xs \<and> P x"
  using assms by (auto simp: find_Some_iff)

lemma find_unique:
  assumes "distinct (map f xs)" and "x \<in> set xs"
  shows "find (\<lambda>y. f y = f x) xs = Some x"
  using assms by (induction xs) auto

lemma device_identity_named:
  "device_identity ds name = Some (ident, pos) \<Longrightarrow> device_named ds ident pos = Some name"
  by (auto simp: device_identity_def device_named_def Let_def index_where_Some_iff split: option.splits)

lemma device_named_identity:
  assumes "distinct (map rd_name ds)" and "device_named ds ident pos = Some name"
  shows "device_identity ds name = Some (ident, pos)"
proof -
  define alike where "alike = filter (\<lambda>x. rd_identity x = ident) ds"
  from assms(2) have pos: "pos < length alike" "rd_name (alike ! pos) = name"
    by (auto simp: device_named_def alike_def Let_def split: if_splits)
  define d where "d = alike ! pos"
  have "d \<in> set alike" using pos by (simp add: d_def)
  then have d: "d \<in> set ds" "rd_identity d = ident" by (auto simp: alike_def)
  have nm: "rd_name d = name" using pos by (simp add: d_def)
  have f: "find (\<lambda>x. rd_name x = name) ds = Some d"
    using find_unique [OF assms(1) d(1)] by (simp add: nm)
  have dist: "distinct (map rd_name alike)"
    using assms(1) by (simp add: alike_def distinct_map_filter)
  have "rd_name (alike ! j) \<noteq> name" if "j < pos" for j
  proof
    assume "rd_name (alike ! j) = name"
    then have "map rd_name alike ! j = map rd_name alike ! pos" using that pos by simp
    with that pos show False using nth_eq_iff_index_eq [OF dist, of j pos] by simp
  qed
  with pos have "index_where (\<lambda>x. rd_name x = name) alike = Some pos"
    by (simp add: index_where_Some_iff)
  with f d show ?thesis by (simp add: device_identity_def alike_def)
qed

lemma filter_shorter: "length (filter P xs) \<noteq> length xs \<longleftrightarrow> (\<exists>x \<in> set xs. \<not> P x)"
  by (metis filter_True filter_id_conv length_filter_less less_irrefl)

lemma map_filter_list_all2:
  "list_all2 (\<lambda>x y. f x = Some y) (filter (\<lambda>x. f x \<noteq> None) xs) (List.map_filter f xs)"
  by (induction xs) (auto simp: List.map_filter_def)

lemma set_map_filter: "set (List.map_filter f xs) = {y. \<exists>x \<in> set xs. f x = Some y}"
  by (induction xs) (auto simp: List.map_filter_def split: option.splits)

section \<open>What a remapped selection means\<close>

definition placement_ids :: "gpu_placement \<Rightarrow> string list" where
  "placement_ids p = gp_gpu_ids p @ option_list (gp_main_gpu p) @ option_list (gp_draft_gpu_id p)"

text \<open>
  \<open>i'\<close> names, for the new backend, the card that \<open>i\<close> named for the old one: the same description at
  the same position among cards described alike. An id that is not scoped to the old backend stays.
\<close>

definition same_card ::
  "string \<Rightarrow> string \<Rightarrow> runtime_device list \<Rightarrow> runtime_device list \<Rightarrow> string \<Rightarrow> string \<Rightarrow> bool" where
  "same_card from_backend to_backend old new i i' \<longleftrightarrow>
     (case strip_prefix (runtime_scope from_backend) i of
        None \<Rightarrow> i' = i
      | Some name \<Rightarrow>
          (\<exists>name'. i' = runtime_scope to_backend @ name' \<and> device_identity old name \<noteq> None \<and>
                   device_identity new name' = device_identity old name))"

lemma convert_id_same_card:
  assumes "distinct (map rd_name new)" and "convert_id f t (Some old) (Some new) i = Some i'"
  shows "same_card f t old new i i'"
proof (cases "strip_prefix (runtime_scope f) i")
  case None
  with assms(2) show ?thesis by (simp add: convert_id_def same_card_def)
next
  case (Some name)
  with assms(2) obtain ident pos mapped where "device_identity old name = Some (ident, pos)"
    and "device_named new ident pos = Some mapped" and "i' = runtime_scope t @ mapped"
    by (auto simp: convert_id_def split: option.splits)
  with Some device_named_identity [OF assms(1)] show ?thesis by (auto simp: same_card_def)
qed

lemma same_card_injective:
  assumes "same_card f t old new i k" and "same_card f t old new j k"
    and "starts_with (runtime_scope f) i" and "starts_with (runtime_scope f) j"
  shows "i = j"
proof -
  obtain m n where m: "strip_prefix (runtime_scope f) i = Some m"
    and n: "strip_prefix (runtime_scope f) j = Some n"
    using assms(3,4) by (auto simp: starts_with_def)
  with assms(1,2) obtain c where "device_identity old m = Some c" "device_identity old n = Some c"
    by (auto simp: same_card_def)
  then have "m = n" by (cases c) (auto dest!: device_identity_named)
  with m n show ?thesis by (simp add: strip_prefix_Some_iff)
qed

lemma remap_with_dropped:
  "i \<in> set (placement_ids p) \<Longrightarrow> i \<in> set (rm_dropped (remap_with convert p)) \<longleftrightarrow> convert i = None"
  by (cases "gp_main_gpu p"; cases "gp_draft_gpu_id p")
     (auto simp: placement_ids_def remap_with_def Let_def option_list_def)

lemma remap_with_main:
  assumes "placement_validate p = Inr ()" and "gp_main_gpu p = Some m" and "convert m = Some m'"
  shows "gp_main_gpu (rm_placement (remap_with convert p)) = Some m'"
proof -
  have "gp_gpu_ids p \<noteq> [] \<longrightarrow> m \<in> set (gp_gpu_ids p)"
    using assms(1,2) by (auto simp: placement_validate_def split: if_splits)
  then have "m' \<in> set (List.map_filter convert (gp_gpu_ids p)) \<or> List.map_filter convert (gp_gpu_ids p) = []"
    using assms(3) by (auto simp: set_map_filter)
  with assms(2,3) show ?thesis by (auto simp: remap_with_def Let_def)
qed

lemma remap_with_carries:
  assumes "placement_validate p = Inr ()" and "i \<in> set (placement_ids p)" and "convert i = Some i'"
  shows "i' \<in> set (placement_ids (rm_placement (remap_with convert p)))"
proof -
  let ?q = "rm_placement (remap_with convert p)"
  from assms(2) consider "i \<in> set (gp_gpu_ids p)" | "gp_main_gpu p = Some i"
    | "gp_draft_gpu_id p = Some i"
    by (auto simp: placement_ids_def option_list_def split: option.splits)
  then show ?thesis
  proof cases
    case 1
    with assms(3) have "i' \<in> set (gp_gpu_ids ?q)" by (auto simp: remap_with_def Let_def set_map_filter)
    then show ?thesis by (simp add: placement_ids_def)
  next
    case 2
    from remap_with_main [OF assms(1) 2, of convert, OF assms(3)] show ?thesis
      by (simp add: placement_ids_def option_list_def)
  next
    case 3
    with assms(3) have "gp_draft_gpu_id ?q = Some i'" by (simp add: remap_with_def Let_def)
    then show ?thesis by (simp add: placement_ids_def option_list_def)
  qed
qed

section \<open>What a resolved placement means\<close>

text \<open>
  \<open>d\<close> is reported by the runtime, and it is the one that \<open>i\<close> names, or the only one that matches the
  detected card of that id.
\<close>

definition exact_device ::
  "string \<Rightarrow> runtime_device list \<Rightarrow> gpu_device list \<Rightarrow> string \<Rightarrow> runtime_device \<Rightarrow> bool" where
  "exact_device backend devices pool i d \<longleftrightarrow>
     d \<in> set devices \<and>
     (if starts_with ''runtime:'' i then i = runtime_scope backend @ rd_name d
      else \<exists>g \<in> set pool. gd_stable_id g = i \<and> filter (matches_card g) devices = [d])"

lemma single_filter: "filter P xs = [x] \<Longrightarrow> x \<in> set xs"
  by (metis filter_is_subset list.set_intros(1) subsetD)

lemma only_match_Inr: "only_match dprefix g ds = Inr d \<longleftrightarrow> ds = [d]"
  by (auto simp: only_match_def split: list.splits)

lemma resolve_id_exact:
  assumes "resolve_id backend dprefix devices pool i = Inr d"
  shows "exact_device backend devices pool i d"
proof (cases "starts_with ''runtime:'' i")
  case True
  with assms show ?thesis
    by (auto simp: resolve_id_def exact_device_def strip_prefix_Some_iff split: option.splits
        dest!: find_first)
next
  case False
  with assms obtain g where g: "find (\<lambda>g. gd_stable_id g = i) pool = Some g"
    and "filter (matches_card g) devices = [d]"
    by (auto simp: resolve_id_def bind_r_Inr_iff only_match_Inr)
  with False g show ?thesis
    by (auto simp: exact_device_def dest!: find_first dest: single_filter)
qed

lemma main_device_index_selected:
  assumes "main_device_index p m n = Inr i" and "gp_gpu_ids p \<noteq> []"
  shows "i < length (gp_gpu_ids p) \<and> gp_gpu_ids p ! i = m"
  using assms by (auto simp: main_device_index_def index_where_Some_iff)

section \<open>A concrete selection\<close>

lemmas device_eval = parse_runtime_device_def trim_graphic graphic_def code_def device_suffix_def
  parse_unsigned_def digits_value_def is_ascii_digit_def searchable_def is_ascii_alphanumeric_def
  is_ascii_alphabetic_def to_ascii_lowercase_def runtime_identity_def rsplit_sub_def split_sub_def
  starts_with_def char_of_def bit_0

definition demo_rocm :: "runtime_device list" where
  "demo_rocm =
     [\<lparr>rd_name = ''ROCm0'', rd_index = 0, rd_searchable = ''rocm07'', rd_identity = ''7''\<rparr>,
      \<lparr>rd_name = ''ROCm1'', rd_index = 1, rd_searchable = ''rocm19'', rd_identity = ''9''\<rparr>]"

definition demo_vulkan :: "runtime_device list" where
  "demo_vulkan =
     [\<lparr>rd_name = ''Vulkan0'', rd_index = 0, rd_searchable = ''vulkan09'', rd_identity = ''9''\<rparr>]"

definition demo_placement :: gpu_placement where
  "demo_placement =
     placement_default\<lparr>gp_gpu_ids := [''runtime:rocm:ROCm0'', ''runtime:rocm:ROCm1''],
                       gp_main_gpu := Some ''runtime:rocm:ROCm1''\<rparr>"

lemma demo_lists:
  "runtime_list ''rocm'' [''ROCm0:7'', ''ROCm1:9''] = Some demo_rocm"
  "runtime_list ''vulkan'' [''Vulkan0:9''] = Some demo_vulkan"
  by (simp_all add: runtime_list_def parse_runtime_devices_def List.map_filter_def device_prefix_def
      demo_rocm_def demo_vulkan_def device_eval)

lemma demo_placement_valid:
  "placement_validate demo_placement = Inr ()" "\<not> placement_is_empty demo_placement"
  by (simp_all add: demo_placement_def placement_default_def placement_validate_def bad_gpu_id_def
      max_gpu_ids_def option_list_def placement_is_empty_def)

section \<open>Properties\<close>

text \<open>C23. A backend switch never guesses a card. The remapped selection consists, in order, of the
  ids that were not reported as dropped; each carried id names the card it named before, so two
  different runtime devices never become one; every id of a valid placement is carried or reported;
  and the split ratios survive only when no selected device was lost.\<close>

theorem remap_keeps_cards:
  assumes "f \<noteq> t" and "\<not> placement_is_empty p" and "placement_validate p = Inr ()"
    and "runtime_list f old_lines = Some old" and "runtime_list t new_lines = Some new"
    and "distinct (map rd_name new)" and "remap_runtime_devices p f old_lines t new_lines = r"
  shows "list_all2 (same_card f t old new)
      (filter (\<lambda>i. i \<notin> set (rm_dropped r)) (gp_gpu_ids p)) (gp_gpu_ids (rm_placement r)) \<and>
    (\<forall>i \<in> set (placement_ids p). i \<in> set (rm_dropped r) \<or>
       (\<exists>i' \<in> set (placement_ids (rm_placement r)). same_card f t old new i i')) \<and>
    (\<forall>i j k. same_card f t old new i k \<and> same_card f t old new j k \<and>
       starts_with (runtime_scope f) i \<and> starts_with (runtime_scope f) j \<longrightarrow> i = j) \<and>
    gp_tensor_split (rm_placement r) =
      (if \<exists>i \<in> set (gp_gpu_ids p). i \<in> set (rm_dropped r) then [] else gp_tensor_split p)"
proof -
  define convert where "convert = convert_id f t (Some old) (Some new)"
  have r: "r = remap_with convert p"
    using assms(1,2,4,5,7) by (simp add: remap_runtime_devices_def convert_def)
  have card: "same_card f t old new i i'" if "convert i = Some i'" for i i'
    using that convert_id_same_card [OF assms(6)] by (simp add: convert_def)
  have dropped: "i \<in> set (rm_dropped r) \<longleftrightarrow> convert i = None" if "i \<in> set (placement_ids p)" for i
    using remap_with_dropped [OF that] by (simp add: r)
  then have kept: "filter (\<lambda>i. i \<notin> set (rm_dropped r)) (gp_gpu_ids p) =
      filter (\<lambda>i. convert i \<noteq> None) (gp_gpu_ids p)"
    by (intro filter_cong) (auto simp: placement_ids_def)
  have ids: "gp_gpu_ids (rm_placement r) = List.map_filter convert (gp_gpu_ids p)"
    by (simp add: r remap_with_def Let_def)
  have all2: "list_all2 (\<lambda>x y. convert x = Some y)
      (filter (\<lambda>i. i \<notin> set (rm_dropped r)) (gp_gpu_ids p)) (gp_gpu_ids (rm_placement r))"
    unfolding kept ids by (rule map_filter_list_all2)
  have a: "list_all2 (same_card f t old new)
      (filter (\<lambda>i. i \<notin> set (rm_dropped r)) (gp_gpu_ids p)) (gp_gpu_ids (rm_placement r))"
    using all2 by (rule list_all2_mono) (rule card)
  have b: "\<exists>i' \<in> set (placement_ids (rm_placement r)). same_card f t old new i i'"
    if "i \<in> set (placement_ids p)" and "i \<notin> set (rm_dropped r)" for i
  proof -
    from that dropped obtain i' where "convert i = Some i'" by auto
    with remap_with_carries [OF assms(3) that(1), of convert, OF this] card show ?thesis by (auto simp: r)
  qed
  have len: "length (List.map_filter convert (gp_gpu_ids p)) =
      length (filter (\<lambda>i. i \<notin> set (rm_dropped r)) (gp_gpu_ids p))"
    using all2 by (simp add: list_all2_lengthD ids)
  have c: "length (List.map_filter convert (gp_gpu_ids p)) \<noteq> length (gp_gpu_ids p) \<longleftrightarrow>
      (\<exists>i \<in> set (gp_gpu_ids p). i \<in> set (rm_dropped r))"
    unfolding len filter_shorter by simp
  have d: "gp_tensor_split (rm_placement r) =
      (if \<exists>i \<in> set (gp_gpu_ids p). i \<in> set (rm_dropped r) then [] else gp_tensor_split p)"
    unfolding c [symmetric] by (simp add: r remap_with_def Let_def)
  show ?thesis using a b d same_card_injective by blast
qed

theorem remap_keeps_cards_witness:
  "let r = remap_runtime_devices demo_placement ''rocm'' [''ROCm0:7'', ''ROCm1:9''] ''vulkan'' [''Vulkan0:9'']
   in rm_dropped r = [''runtime:rocm:ROCm0''] \<and>
      (\<exists>i' \<in> set (placement_ids (rm_placement r)).
         same_card ''rocm'' ''vulkan'' demo_rocm demo_vulkan ''runtime:rocm:ROCm1'' i')"
proof -
  let ?r = "remap_runtime_devices demo_placement ''rocm'' [''ROCm0:7'', ''ROCm1:9''] ''vulkan'' [''Vulkan0:9'']"
  have "rm_dropped ?r = [''runtime:rocm:ROCm0'']"
    using demo_placement_valid(2)
    by (simp add: remap_runtime_devices_def demo_lists remap_with_def Let_def demo_placement_def placement_default_def convert_id_def runtime_scope_def demo_rocm_def
        demo_vulkan_def device_identity_def device_named_def option_list_def)
  moreover have "distinct (map rd_name demo_vulkan)" by (simp add: demo_vulkan_def)
  moreover have "''runtime:rocm:ROCm1'' \<in> set (placement_ids demo_placement)"
    by (simp add: placement_ids_def demo_placement_def)
  ultimately show ?thesis
    using remap_keeps_cards [OF _ demo_placement_valid(2,1) demo_lists _ refl] by (auto simp: Let_def)
qed

text \<open>What a launch is told about devices is exact. When a placement resolves, every name of the
  device list is one the runtime reported, in the order of the selection, and belongs to the selected
  id without ambiguity; the index of the main GPU points at it inside the selected list; the split
  ratios and the split mode are passed on unchanged; and so is the device of the draft model.\<close>

lemma resolved_devices_exact:
  assumes "resolve_with_runtime_devices p backend gpus lines = Inr r"
    and "\<not> placement_is_empty p" and "device_prefix backend = Some dprefix"
    and "parse_runtime_devices lines dprefix = devices" and "device_pool gpus backend = pool"
  shows "(\<exists>ds. list_all2 (exact_device backend devices pool) (gp_gpu_ids p) ds \<and>
       rg_device_flag r = (if ds = [] then None else Some (join '','' (map rd_name ds)))) \<and>
    (case gp_main_gpu p of
       None \<Rightarrow> rg_main_gpu_index r = None
     | Some m \<Rightarrow> \<exists>i. rg_main_gpu_index r = Some i \<and>
         (if gp_gpu_ids p \<noteq> [] then i < length (gp_gpu_ids p) \<and> gp_gpu_ids p ! i = m
          else \<exists>d. exact_device backend devices pool m d \<and> i = rd_index d)) \<and>
    rel_option (\<lambda>i n. \<exists>d. exact_device backend devices pool i d \<and> n = rd_name d)
      (gp_draft_gpu_id p) (rg_draft_device r) \<and>
    rg_split_mode r = split_flag_value (gp_split_mode p) \<and> rg_tensor_split r = gp_tensor_split p"
proof -
  define resolved where "resolved = resolve_id backend dprefix devices pool"
  have exact: "exact_device backend devices pool i d" if "resolved i = Inr d" for i d
    using that resolve_id_exact by (simp add: resolved_def)
  from assms have "resolve_devices (\<lambda>i. bind_r (resolved i) (\<lambda>d. Inr (rd_name d)))
      (\<lambda>i. bind_r (resolved i) (\<lambda>d. Inr (rd_index d))) p = Inr r"
    by (simp add: resolve_with_runtime_devices_def resolved_def Let_def split: if_splits)
  then obtain flag main draft where
    flag: "(if gp_gpu_ids p = [] then Inr None
        else bind_r (traverse_r (\<lambda>i. bind_r (resolved i) (\<lambda>d. Inr (rd_name d))) (gp_gpu_ids p))
               (\<lambda>names. Inr (Some (join '','' names)))) = Inr flag"
    and main: "(case gp_main_gpu p of None \<Rightarrow> Inr None
        | Some m \<Rightarrow> bind_r (bind_r (resolved m) (\<lambda>d. Inr (rd_index d)))
            (\<lambda>i. bind_r (main_device_index p m i) (\<lambda>i. Inr (Some i)))) = Inr main"
    and draft: "(case gp_draft_gpu_id p of None \<Rightarrow> Inr None
        | Some i \<Rightarrow> bind_r (bind_r (resolved i) (\<lambda>d. Inr (rd_name d))) (\<lambda>n. Inr (Some n))) = Inr draft"
    and r: "r = \<lparr>rg_device_flag = flag, rg_main_gpu_index = main,
        rg_split_mode = split_flag_value (gp_split_mode p), rg_tensor_split = gp_tensor_split p,
        rg_draft_device = draft\<rparr>"
    by (auto simp: resolve_devices_def bind_r_Inr_iff simp del: bind_r_simps)
  have "\<exists>ds. list_all2 (exact_device backend devices pool) (gp_gpu_ids p) ds \<and>
      flag = (if ds = [] then None else Some (join '','' (map rd_name ds)))"
  proof (cases "gp_gpu_ids p = []")
    case False
    with flag obtain names where names: "list_all2 (\<lambda>i n. \<exists>d. resolved i = Inr d \<and> rd_name d = n)
        (gp_gpu_ids p) names" and f: "flag = Some (join '','' names)"
      by (auto simp: bind_r_Inr_iff traverse_r_Inr_iff)
    from names have "\<exists>ds. list_all2 (exact_device backend devices pool) (gp_gpu_ids p) ds \<and>
        names = map rd_name ds"
    proof (induction rule: list_all2_induct)
      case (Cons i js n ns)
      then obtain d ds where "resolved i = Inr d" "rd_name d = n" "ns = map rd_name ds"
        and "list_all2 (exact_device backend devices pool) js ds" by auto
      then have "list_all2 (exact_device backend devices pool) (i # js) (d # ds) \<and>
          n # ns = map rd_name (d # ds)" by (simp add: exact)
      then show ?case by (rule exI [of _ "d # ds"])
    qed simp
    then obtain ds where ds: "list_all2 (exact_device backend devices pool) (gp_gpu_ids p) ds"
      and "names = map rd_name ds" by blast
    moreover from ds False have "ds \<noteq> []" by auto
    ultimately have "list_all2 (exact_device backend devices pool) (gp_gpu_ids p) ds \<and>
      flag = (if ds = [] then None else Some (join '','' (map rd_name ds)))" by (simp add: f)
    then show ?thesis by blast
  qed (use flag in simp)
  moreover have "case gp_main_gpu p of None \<Rightarrow> main = None
     | Some m \<Rightarrow> \<exists>i. main = Some i \<and>
         (if gp_gpu_ids p \<noteq> [] then i < length (gp_gpu_ids p) \<and> gp_gpu_ids p ! i = m
          else \<exists>d. exact_device backend devices pool m d \<and> i = rd_index d)"
  proof (cases "gp_main_gpu p")
    case (Some m)
    with main obtain d i where d: "resolved m = Inr d" and i: "main_device_index p m (rd_index d) = Inr i"
      and "main = Some i"
      by (auto simp: bind_r_Inr_iff)
    with Some exact [OF d] show ?thesis
      using main_device_index_selected [OF i] by (auto simp: main_device_index_def)
  qed (use main in simp)
  moreover have "rel_option (\<lambda>i n. \<exists>d. exact_device backend devices pool i d \<and> n = rd_name d)
      (gp_draft_gpu_id p) draft"
  proof (cases "gp_draft_gpu_id p")
    case (Some i)
    with draft obtain d where d: "resolved i = Inr d" and "draft = Some (rd_name d)"
      by (auto simp: bind_r_Inr_iff)
    with Some exact [OF d] show ?thesis by auto
  qed (use draft in simp)
  moreover have "rg_device_flag r = flag" "rg_main_gpu_index r = main"
    "rg_draft_device r = draft" "rg_split_mode r = split_flag_value (gp_split_mode p)"
    "rg_tensor_split r = gp_tensor_split p"
    by (simp_all add: r)
  ultimately show ?thesis by (simp only: simp_thms)
qed

theorem resolved_devices_exact_witness:
  "\<exists>r. resolve_with_runtime_devices demo_placement ''rocm'' [] [''ROCm0:7'', ''ROCm1:9''] = Inr r \<and>
     rg_main_gpu_index r = Some 1 \<and> rg_tensor_split r = []"
proof -
  have rocm: "parse_runtime_devices [''ROCm0:7'', ''ROCm1:9''] ''ROCm'' = demo_rocm"
    and dprefix: "device_prefix ''rocm'' = Some ''ROCm''"
    using demo_lists(1) by (simp_all add: runtime_list_def device_prefix_def)
  have "\<exists>r. resolve_with_runtime_devices demo_placement ''rocm'' [] [''ROCm0:7'', ''ROCm1:9''] = Inr r
      \<and> rg_main_gpu_index r = Some 1"
    using demo_placement_valid(2)
    by (simp add: resolve_with_runtime_devices_def dprefix rocm Let_def resolve_devices_def
        demo_placement_def placement_default_def resolve_id_def runtime_scope_def demo_rocm_def
        main_device_index_def starts_with_def)
  then obtain r where r: "resolve_with_runtime_devices demo_placement ''rocm'' []
      [''ROCm0:7'', ''ROCm1:9''] = Inr r" and "rg_main_gpu_index r = Some 1" by blast
  with resolved_devices_exact [OF r demo_placement_valid(2) dprefix rocm refl] show ?thesis
    by (auto simp: demo_placement_def placement_default_def)
qed

end
