(* ===== verification/GgufReader.thy ===== *)
theory GgufReader
  imports RuntimeElf Server
begin

text \<open>
  The bounded GGUF header reader of \<open>src-tauri/src/gguf.rs\<close>: the accounting reader, value skipping
  and the readers of metadata, projector modalities and descriptors.

  A model file is its bytes; \<open>gr_pos\<close> is the position of the buffered file, which a relative seek
  may move past the end. A reading operation is a function from the reader to an error message or
  a value and the reader after it. The optional budget that \<open>scan_model\<close> passes by reference, and
  the error it remembers, are part of the state; \<open>use\<close> says whether a call passes them.
\<close>

section \<open>Limits\<close>

definition max_keys :: nat where "max_keys = 4096"
definition max_key_bytes :: nat where "max_key_bytes = 1024"
definition max_array_len :: nat where "max_array_len = 16777216"
definition max_header_span :: nat where "max_header_span = 134217728"
definition max_string_budget :: nat where "max_string_budget = 2000000"
definition max_string_entries :: nat where "max_string_entries = 2000000"
definition max_base_models :: nat where "max_base_models = 64"

lemmas gguf_limits = max_keys_def max_key_bytes_def max_array_len_def max_header_span_def
  max_string_budget_def max_string_entries_def

section \<open>The reader\<close>

record string_budget =
  sb_strings :: nat
  sb_entries :: nat

record gguf =
  gr_file :: bytes
  gr_pos :: nat
  gr_consumed :: nat
  gr_strings :: nat
  gr_entries :: nat
  gr_budget :: "string_budget option"
  gr_type_error :: "string option"

type_synonym 'a rd = "gguf \<Rightarrow> string + ('a \<times> gguf)"

definition rret :: "'a \<Rightarrow> 'a rd" where
  "rret x = (\<lambda>r. Inr (x, r))"

definition rfail :: "string \<Rightarrow> 'a rd" where
  "rfail e = (\<lambda>r. Inl e)"

definition rbind :: "'a rd \<Rightarrow> ('a \<Rightarrow> 'b rd) \<Rightarrow> 'b rd" where
  "rbind m f = (\<lambda>r. case m r of Inl e \<Rightarrow> Inl e | Inr (x, r') \<Rightarrow> f x r')"

lemma rbind_Inr_iff:
  "rbind m f r = Inr (y, r') \<longleftrightarrow> (\<exists>x r1. m r = Inr (x, r1) \<and> f x r1 = Inr (y, r'))"
  by (auto simp: rbind_def split: sum.splits)

definition rthen :: "'a rd \<Rightarrow> 'b rd \<Rightarrow> 'b rd" where
  "rthen m k = rbind m (\<lambda>_. k)"

fun rloop :: "nat \<Rightarrow> ('s \<Rightarrow> 's rd) \<Rightarrow> 's \<Rightarrow> 's rd" where
  "rloop 0 f s = rret s"
| "rloop (Suc n) f s = rbind (f s) (rloop n f)"

definition entry_budget_message :: string where
  "entry_budget_message = ''GGUF header exceeds its string entry budget''"

definition string_data_message :: string where
  "string_data_message = ''GGUF header declares implausible string data''"

definition span_message :: string where
  "span_message = ''GGUF header exceeds its bounded metadata span''"

definition unreadable_message :: string where
  "unreadable_message = ''unreadable GGUF header: failed to fill whole buffer''"

definition account_strings :: "nat \<Rightarrow> unit rd" where
  "account_strings count = (\<lambda>r.
     case checked_add (gr_entries r) count of
       None \<Rightarrow> Inl entry_budget_message
     | Some n \<Rightarrow>
         if n \<le> max_string_entries then Inr ((), r\<lparr>gr_entries := n\<rparr>) else Inl entry_budget_message)"

definition account :: "nat \<Rightarrow> unit rd" where
  "account n = (\<lambda>r.
     case checked_add (gr_consumed r) n of
       None \<Rightarrow> Inl span_message
     | Some c \<Rightarrow>
         if c > max_header_span then Inl span_message else Inr ((), r\<lparr>gr_consumed := c\<rparr>))"

text \<open>An empty read succeeds even past the end of the file.\<close>

definition read_exact :: "nat \<Rightarrow> bytes rd" where
  "read_exact n = (\<lambda>r.
     if n = 0 \<or> gr_pos r + n \<le> length (gr_file r)
     then Inr (take n (drop (gr_pos r) (gr_file r)), r\<lparr>gr_pos := gr_pos r + n\<rparr>)
     else Inl unreadable_message)"

definition rbytes :: "nat \<Rightarrow> bytes rd" where
  "rbytes n = rthen (account n) (read_exact n)"

definition ru32 :: "nat rd" where
  "ru32 = rbind (rbytes 4) (\<lambda>bs. rret (le_value bs))"

definition ru64 :: "nat rd" where
  "ru64 = rbind (rbytes 8) (\<lambda>bs. rret (le_value bs))"

definition seek_relative :: "nat \<Rightarrow> unit rd" where
  "seek_relative n = (\<lambda>r. Inr ((), r\<lparr>gr_pos := gr_pos r + n\<rparr>))"

definition rskip :: "nat \<Rightarrow> unit rd" where
  "rskip count =
     (if count < 2 ^ 63 then rthen (account count) (seek_relative count)
      else rfail ''GGUF header declares an implausible field length'')"

section \<open>The separate budget of the tensor types\<close>

definition account_entries :: "nat \<Rightarrow> string_budget \<Rightarrow> string + string_budget" where
  "account_entries count b =
     (case checked_add (sb_entries b) count of
        None \<Rightarrow> Inl entry_budget_message
      | Some n \<Rightarrow>
          if n \<le> max_string_entries then Inr (b\<lparr>sb_entries := n\<rparr>) else Inl entry_budget_message)"

definition account_payload :: "nat \<Rightarrow> string_budget \<Rightarrow> string + string_budget" where
  "account_payload count b =
     (case checked_add (sb_strings b) count of
        None \<Rightarrow> Inl string_data_message
      | Some n \<Rightarrow>
          if n \<le> max_string_budget then Inr (b\<lparr>sb_strings := n\<rparr>) else Inl string_data_message)"

definition remember_error :: "string \<Rightarrow> string option \<Rightarrow> string option" where
  "remember_error e old = (case old of None \<Rightarrow> Some e | Some _ \<Rightarrow> old)"

text \<open>\<open>remember_budget_error(type_error, budget.account(..))\<close> when a budget was passed.\<close>

definition charge :: "bool \<Rightarrow> (string_budget \<Rightarrow> string + string_budget) \<Rightarrow> unit rd" where
  "charge use f = (\<lambda>r.
     case (if use then gr_budget r else None) of
       None \<Rightarrow> Inr ((), r)
     | Some b \<Rightarrow>
         (case f b of
            Inl e \<Rightarrow> Inr ((), r\<lparr>gr_type_error := remember_error e (gr_type_error r)\<rparr>)
          | Inr b' \<Rightarrow> Inr ((), r\<lparr>gr_budget := Some b'\<rparr>)))"

section \<open>Strings and values\<close>

definition account_string_data :: "nat \<Rightarrow> unit rd" where
  "account_string_data n = (\<lambda>r.
     case checked_add (gr_strings r) n of
       None \<Rightarrow> Inl string_data_message
     | Some s \<Rightarrow>
         if s > max_string_budget then Inl string_data_message
         else Inr ((), r\<lparr>gr_strings := s\<rparr>))"

text \<open>\<open>from_utf8\<close> and its lossy fallback agree on well-formed text.\<close>

definition decode_text :: "bytes \<Rightarrow> string" where
  "decode_text bs = (case from_utf8 bs of Some s \<Rightarrow> s | None \<Rightarrow> from_utf8_lossy bs)"

definition string_with_budget :: "bool \<Rightarrow> string rd" where
  "string_with_budget use =
     rthen (account_strings 1)
     (rbind ru64 (\<lambda>n.
      rthen (charge use (account_entries 1))
      (if n > max_key_bytes then rthen (rskip n) (rret [])
       else
         rthen (account_string_data n)
         (rthen (charge use (account_payload n))
         (rthen (account n)
         (rbind (read_exact n) (\<lambda>bs. rret (decode_text bs))))))))"

definition rstring :: "string rd" where
  "rstring = string_with_budget False"

fun scalar_width :: "nat \<Rightarrow> nat option" where
  "scalar_width kind =
     (if kind = 0 \<or> kind = 1 \<or> kind = 7 then Some 1
      else if kind = 2 \<or> kind = 3 then Some 2
      else if 4 \<le> kind \<and> kind \<le> 6 then Some 4
      else if 10 \<le> kind \<and> kind \<le> 12 then Some 8
      else None)"

declare scalar_width.simps [simp del]

definition implausible_array :: string where
  "implausible_array = ''GGUF header declares an implausible array''"

definition skip_array_body :: "bool \<Rightarrow> nat \<Rightarrow> nat \<Rightarrow> unit rd" where
  "skip_array_body use element count =
     (if count > max_array_len then rfail implausible_array
      else case scalar_width element of
        Some width \<Rightarrow>
          (case checked_mul width count of
             None \<Rightarrow> rfail implausible_array | Some n \<Rightarrow> rskip n)
      | None \<Rightarrow>
          if element \<noteq> 8 then
            rfail (''unsupported GGUF array element type '' @ digits_of_nat element)
          else
            rthen (account_strings count)
            (rthen (charge use (account_entries count))
              (rloop count (\<lambda>_. rbind ru64 rskip) ())))"

definition skip_value_with_budget :: "bool \<Rightarrow> nat \<Rightarrow> unit rd" where
  "skip_value_with_budget use kind =
     (case scalar_width kind of
        Some width \<Rightarrow> rskip width
      | None \<Rightarrow>
          if kind = 8 then rbind ru64 rskip
          else if kind = 9 then
            rbind ru32 (\<lambda>element. rbind ru64 (\<lambda>count. skip_array_body use element count))
          else rfail (''unsupported GGUF value type '' @ digits_of_nat kind))"

definition rskip_value :: "nat \<Rightarrow> unit rd" where
  "rskip_value kind = skip_value_with_budget False kind"

text \<open>\<open>u64::try_from\<close> of a signed value of \<open>n\<close> little-endian bytes.\<close>

definition non_negative :: "bytes \<Rightarrow> nat option" where
  "non_negative bs =
     (if 2 * le_value bs < 256 ^ length bs then Some (le_value bs) else None)"

definition read_unsigned :: "nat \<Rightarrow> nat option rd" where
  "read_unsigned kind =
     (if kind = 4 then rbind ru32 (\<lambda>v. rret (Some v))
      else if kind = 10 then rbind ru64 (\<lambda>v. rret (Some v))
      else if kind = 5 then rbind (rbytes 4) (\<lambda>bs. rret (non_negative bs))
      else if kind = 11 then rbind (rbytes 8) (\<lambda>bs. rret (non_negative bs))
      else rthen (rskip_value kind) (rret None))"

section \<open>The header\<close>

definition reader_new :: "bytes \<Rightarrow> gguf" where
  "reader_new file =
     \<lparr>gr_file = file, gr_pos = 0, gr_consumed = 0, gr_strings = 0, gr_entries = 0,
      gr_budget = None, gr_type_error = None\<rparr>"

definition read_header :: "(nat \<times> nat) rd" where
  "read_header =
     rbind (rbytes 4) (\<lambda>magic.
      if magic \<noteq> ''GGUF'' then rfail ''not a GGUF file''
      else rbind ru32 (\<lambda>version.
        if \<not> (2 \<le> version \<and> version \<le> 3) then
          rfail (''unsupported GGUF version '' @ digits_of_nat version)
        else rbind ru64 (\<lambda>tensors. rbind ru64 (\<lambda>keys.
          if keys > max_keys then rfail ''GGUF header declares an implausible key count''
          else rret (tensors, keys)))))"

definition read_string_array :: "nat \<Rightarrow> string list rd" where
  "read_string_array kind =
     (if kind \<noteq> 9 then rthen (rskip_value kind) (rret [])
      else rbind ru32 (\<lambda>element. rbind ru64 (\<lambda>count.
        if count > max_array_len then rfail implausible_array
        else case scalar_width element of
          Some width \<Rightarrow>
            (case checked_mul count width of
               None \<Rightarrow> rfail ''GGUF array size overflow''
             | Some n \<Rightarrow> rthen (rskip n) (rret []))
        | None \<Rightarrow>
            if element = 9 then rfail ''unsupported GGUF nested array''
            else rloop count (\<lambda>values.
              if element = 8 then
                rbind rstring (\<lambda>v. rret (if trim v = [] then values else values @ [v]))
              else rthen (rskip_value element) (rret values)) [])))"

section \<open>Metadata\<close>

record metadata =
  md_texts :: "(string \<times> string) list"
  md_quantization :: "string option"
  md_tags :: "string list"
  md_languages :: "string list"
  md_architecture_values :: "(string \<times> nat) list"

text \<open>
  \<open>md_texts\<close> holds the nine optional text fields of \<open>ModelMetadata\<close> under the key that fills them;
  a later occurrence of a key replaces an earlier one.
\<close>

definition text_keys :: "string list" where
  "text_keys =
     [''general.architecture'', ''general.size_label'', ''general.type'', ''general.finetune'',
      ''general.license'', ''general.author'', ''general.organization'', ''general.quantized_by'',
      ''general.repo_url'']"

definition metadata_new :: metadata where
  "metadata_new =
     \<lparr>md_texts = [], md_quantization = None, md_tags = [], md_languages = [],
      md_architecture_values = []\<rparr>"

definition ends_with :: "string \<Rightarrow> string \<Rightarrow> bool" where
  "ends_with p s \<longleftrightarrow> strip_suffix p s \<noteq> None"

definition file_type_labels :: "(nat \<times> string) list" where
  "file_type_labels =
     [(0, ''F32''), (1, ''F16''), (2, ''Q4_0''), (3, ''Q4_1''), (7, ''Q8_0''), (8, ''Q5_0''),
      (9, ''Q5_1''), (10, ''Q2_K''), (11, ''Q3_K_S''), (12, ''Q3_K_M''), (13, ''Q3_K_L''),
      (14, ''Q4_K_S''), (15, ''Q4_K_M''), (16, ''Q5_K_S''), (17, ''Q5_K_M''), (18, ''Q6_K''),
      (19, ''IQ2_XXS''), (20, ''IQ2_XS''), (21, ''Q2_K_S''), (22, ''IQ3_XS''), (23, ''IQ3_XXS''),
      (24, ''IQ1_S''), (25, ''IQ4_NL''), (26, ''IQ3_S''), (27, ''IQ3_M''), (28, ''IQ2_S''),
      (29, ''IQ2_M''), (30, ''IQ4_XS''), (31, ''IQ1_M''), (32, ''BF16''), (36, ''TQ1_0''),
      (37, ''TQ2_0''), (38, ''MXFP4_MOE''), (39, ''NVFP4''), (40, ''Q1_0''), (41, ''Q2_0'')]"

definition file_type_label :: "nat \<Rightarrow> string option" where
  "file_type_label value = map_of file_type_labels value"

definition quantization_of :: "nat option \<Rightarrow> string option" where
  "quantization_of v =
     (case v of None \<Rightarrow> None | Some n \<Rightarrow> if n < 2 ^ 32 then file_type_label n else None)"

definition architecture_key :: "string \<Rightarrow> bool" where
  "architecture_key key \<longleftrightarrow>
     ends_with ''.context_length'' key \<or> ends_with ''.expert_count'' key
     \<or> ends_with ''.expert_used_count'' key"

definition metadata_entry :: "string \<Rightarrow> nat \<Rightarrow> metadata \<Rightarrow> metadata rd" where
  "metadata_entry key kind m =
     (if key \<in> set text_keys then
        if kind = 8 then rbind rstring (\<lambda>v. rret (m\<lparr>md_texts := (key, v) # md_texts m\<rparr>))
        else rthen (rskip_value kind) (rret m)
      else if key = ''general.file_type'' then
        rbind (read_unsigned kind) (\<lambda>v. rret (m\<lparr>md_quantization := quantization_of v\<rparr>))
      else if key = ''general.tags'' then
        rbind (read_string_array kind) (\<lambda>vs. rret (m\<lparr>md_tags := vs\<rparr>))
      else if key = ''general.languages'' then
        rbind (read_string_array kind) (\<lambda>vs. rret (m\<lparr>md_languages := vs\<rparr>))
      else if architecture_key key then
        rbind (read_unsigned kind) (\<lambda>v. rret (case v of
            None \<Rightarrow> m
          | Some n \<Rightarrow> m\<lparr>md_architecture_values := (key, n) # md_architecture_values m\<rparr>))
      else rthen (rskip_value kind) (rret m))"

record model_metadata =
  mm_texts :: "string \<Rightarrow> string option"
  mm_quantization :: "string option"
  mm_tags :: "string list"
  mm_languages :: "string list"
  mm_context_length :: "nat option"
  mm_expert_count :: "nat option"
  mm_expert_used_count :: "nat option"

definition metadata_finish :: "metadata \<Rightarrow> model_metadata" where
  "metadata_finish m =
     (let texts = map_of (md_texts m);
          value = (\<lambda>suffix. case texts ''general.architecture'' of
              None \<Rightarrow> None
            | Some arch \<Rightarrow> map_of (md_architecture_values m) (arch @ suffix))
      in \<lparr>mm_texts = texts, mm_quantization = md_quantization m, mm_tags = md_tags m,
          mm_languages = md_languages m,
          mm_context_length =
            (case value ''.context_length'' of
               None \<Rightarrow> None | Some n \<Rightarrow> if 0 < n then Some n else None),
          mm_expert_count = value ''.expert_count'',
          mm_expert_used_count = value ''.expert_used_count''\<rparr>)"

definition read_metadata_from :: "model_metadata rd" where
  "read_metadata_from =
     rbind read_header (\<lambda>(_, keys).
      rbind (rloop keys (\<lambda>m. rbind rstring (\<lambda>key. rbind ru32 (\<lambda>kind. metadata_entry key kind m)))
               metadata_new)
        (\<lambda>m. rret (metadata_finish m)))"

definition read_metadata :: "bytes \<Rightarrow> string + model_metadata" where
  "read_metadata file = map_sum id fst (read_metadata_from (reader_new file))"

section \<open>Projector modalities\<close>

record modalities =
  pm_vision :: "bool option"
  pm_audio :: "bool option"

definition modality_entry :: "string \<Rightarrow> nat \<Rightarrow> modalities \<Rightarrow> modalities rd" where
  "modality_entry key kind m =
     (if key = ''clip.has_vision_encoder'' \<and> kind = 7 then
        rbind (rbytes 1) (\<lambda>bs. rret (m\<lparr>pm_vision := Some (le_value bs \<noteq> 0)\<rparr>))
      else if key = ''clip.has_audio_encoder'' \<and> kind = 7 then
        rbind (rbytes 1) (\<lambda>bs. rret (m\<lparr>pm_audio := Some (le_value bs \<noteq> 0)\<rparr>))
      else rthen (rskip_value kind) (rret m))"

fun modality_loop :: "nat \<Rightarrow> modalities \<Rightarrow> modalities rd" where
  "modality_loop 0 m = rret m"
| "modality_loop (Suc n) m =
     rbind rstring (\<lambda>key. rbind ru32 (\<lambda>kind. rbind (modality_entry key kind m) (\<lambda>m.
       if pm_vision m \<noteq> None \<and> pm_audio m \<noteq> None then rret m else modality_loop n m)))"

definition read_projector_modalities :: "bytes \<Rightarrow> string + modalities" where
  "read_projector_modalities file =
     map_sum id fst
       (rbind read_header
          (\<lambda>(_, keys). modality_loop keys \<lparr>pm_vision = None, pm_audio = None\<rparr>) (reader_new file))"

section \<open>Descriptors\<close>

definition base_model_index :: "string \<Rightarrow> nat option" where
  "base_model_index key =
     (case strip_prefix ''general.base_model.'' key of
        None \<Rightarrow> None
      | Some rest \<Rightarrow>
          (case strip_suffix ''.repo_url'' rest of
             None \<Rightarrow> None | Some digits \<Rightarrow> parse_unsigned (2 ^ 32) digits))"

record descriptor =
  ds_name :: "string option"
  ds_architecture :: "string option"
  ds_size_label :: "string option"
  ds_file_type :: "nat option"
  ds_quantized_by :: "string option"
  ds_repo_url :: "string option"
  ds_base_model_repo_urls :: "string list"

record descriptor_scan = descriptor +
  dn_base_models :: "(nat \<times> string) list"
  dn_declared :: "nat option"

definition text_value :: "nat \<Rightarrow> string option rd" where
  "text_value kind =
     (if kind = 8 then rbind rstring (\<lambda>v. rret (Some v)) else rthen (rskip_value kind) (rret None))"

definition descriptor_entry :: "string \<Rightarrow> nat \<Rightarrow> descriptor_scan \<Rightarrow> descriptor_scan rd" where
  "descriptor_entry key kind d =
     (if key = ''general.name'' then rbind (text_value kind) (\<lambda>v. rret (d\<lparr>ds_name := v\<rparr>))
      else if key = ''general.architecture'' then
        rbind (text_value kind) (\<lambda>v. rret (d\<lparr>ds_architecture := v\<rparr>))
      else if key = ''general.size_label'' then
        rbind (text_value kind) (\<lambda>v. rret (d\<lparr>ds_size_label := v\<rparr>))
      else if key = ''general.quantized_by'' then
        rbind (text_value kind) (\<lambda>v. rret (d\<lparr>ds_quantized_by := v\<rparr>))
      else if key = ''general.repo_url'' then
        rbind (text_value kind) (\<lambda>v. rret (d\<lparr>ds_repo_url := v\<rparr>))
      else if key = ''general.file_type'' then
        rbind (read_unsigned kind) (\<lambda>v. rret (d\<lparr>ds_file_type := v\<rparr>))
      else if key = ''general.base_model.count'' then
        rbind (read_unsigned kind) (\<lambda>v. rret (d\<lparr>dn_declared := v\<rparr>))
      else case base_model_index key of
        Some index \<Rightarrow>
          if length (dn_base_models d) < max_base_models then
            rbind (text_value kind) (\<lambda>v. rret (case v of
                None \<Rightarrow> d | Some url \<Rightarrow> d\<lparr>dn_base_models := dn_base_models d @ [(index, url)]\<rparr>))
          else rthen (rskip_value kind) (rret d)
      | None \<Rightarrow> rthen (rskip_value kind) (rret d))"

definition descriptor_finish :: "descriptor_scan \<Rightarrow> descriptor" where
  "descriptor_finish d =
     (let sorted = sort_key fst (dn_base_models d);
          kept = (case dn_declared d of
              None \<Rightarrow> sorted
            | Some count \<Rightarrow> take max_base_models (filter (\<lambda>(index, _). index < count) sorted))
      in descriptor.truncate (d\<lparr>ds_base_model_repo_urls := map snd kept\<rparr>))"

definition descriptor_new :: descriptor_scan where
  "descriptor_new =
     \<lparr>ds_name = None, ds_architecture = None, ds_size_label = None, ds_file_type = None,
      ds_quantized_by = None, ds_repo_url = None, ds_base_model_repo_urls = [],
      dn_base_models = [], dn_declared = None\<rparr>"

definition read_descriptor :: "bytes \<Rightarrow> string + descriptor" where
  "read_descriptor file =
     map_sum id (descriptor_finish \<circ> fst)
       (rbind read_header (\<lambda>(_, keys).
          rloop keys (\<lambda>d. rbind rstring (\<lambda>key. rbind ru32 (\<lambda>kind. descriptor_entry key kind d)))
            descriptor_new) (reader_new file))"

section \<open>Every read stays inside the budgets\<close>

text \<open>
  The position never leaves the accounted span and every budget holds. \<open>keeps\<close>: an operation that
  succeeds keeps this, on the same file, and never moves backwards.
\<close>

definition within_budget :: "string_budget \<Rightarrow> bool" where
  "within_budget b \<longleftrightarrow> sb_strings b \<le> max_string_budget \<and> sb_entries b \<le> max_string_entries"

definition reader_ok :: "gguf \<Rightarrow> bool" where
  "reader_ok r \<longleftrightarrow> gr_pos r = gr_consumed r \<and> gr_consumed r \<le> max_header_span \<and>
     gr_strings r \<le> max_string_budget \<and> gr_entries r \<le> max_string_entries \<and>
     (\<forall>b. gr_budget r = Some b \<longrightarrow> within_budget b)"

definition keeps :: "'a rd \<Rightarrow> bool" where
  "keeps m \<longleftrightarrow> (\<forall>r x r'. reader_ok r \<longrightarrow> m r = Inr (x, r') \<longrightarrow>
     reader_ok r' \<and> gr_file r' = gr_file r \<and> gr_consumed r \<le> gr_consumed r')"

named_theorems keeps_rules \<open>operations that stay inside the budgets\<close>

lemma keepsI:
  assumes "\<And>r x r'. reader_ok r \<Longrightarrow> m r = Inr (x, r') \<Longrightarrow>
    reader_ok r' \<and> gr_file r' = gr_file r \<and> gr_consumed r \<le> gr_consumed r'"
  shows "keeps m"
  using assms unfolding keeps_def by blast

lemma keeps_rret [keeps_rules]: "keeps (rret x)"
  by (simp add: keeps_def rret_def)

lemma keeps_rfail [keeps_rules]: "keeps (rfail e)"
  by (simp add: keeps_def rfail_def)

lemma keeps_rbind [keeps_rules]:
  assumes "keeps m" and "\<And>x. keeps (f x)"
  shows "keeps (rbind m f)"
proof (rule keepsI)
  fix r y r'
  assume r: "reader_ok r" and run: "rbind m f r = Inr (y, r')"
  then obtain x r1 where 1: "m r = Inr (x, r1)" and 2: "f x r1 = Inr (y, r')"
    by (auto simp: rbind_def split: sum.splits)
  from assms(1) r 1 have "reader_ok r1 \<and> gr_file r1 = gr_file r \<and> gr_consumed r \<le> gr_consumed r1"
    unfolding keeps_def by blast
  moreover from this assms(2) 2
  have "reader_ok r' \<and> gr_file r' = gr_file r1 \<and> gr_consumed r1 \<le> gr_consumed r'"
    unfolding keeps_def by blast
  ultimately show "reader_ok r' \<and> gr_file r' = gr_file r \<and> gr_consumed r \<le> gr_consumed r'"
    by simp
qed

lemma keeps_rthen [keeps_rules]: "keeps m \<Longrightarrow> keeps k \<Longrightarrow> keeps (rthen m k)"
  by (simp add: rthen_def keeps_rbind)

lemma keeps_rloop [keeps_rules]: "(\<And>s. keeps (f s)) \<Longrightarrow> keeps (rloop n f s)"
  by (induction n arbitrary: s) (auto intro: keeps_rules)

lemma keeps_if [keeps_rules]: "(c \<Longrightarrow> keeps m) \<Longrightarrow> (\<not> c \<Longrightarrow> keeps k) \<Longrightarrow> keeps (if c then m else k)"
  by simp

lemma keeps_option [keeps_rules]:
  "(x = None \<Longrightarrow> keeps m) \<Longrightarrow> (\<And>y. x = Some y \<Longrightarrow> keeps (k y)) \<Longrightarrow>
     keeps (case x of None \<Rightarrow> m | Some y \<Rightarrow> k y)"
  by (cases x) auto

lemma keeps_prod [keeps_rules]: "(\<And>a b. keeps (k a b)) \<Longrightarrow> keeps (case x of (a, b) \<Rightarrow> k a b)"
  by (cases x) auto

lemma keeps_account_read: "keeps (rthen (account n) (read_exact n))"
  by (rule keepsI)
     (auto simp: rthen_def rbind_def account_def read_exact_def reader_ok_def checked_add_def
       split: if_splits option.splits)

lemma keeps_account_seek: "keeps (rthen (account n) (seek_relative n))"
  by (rule keepsI)
     (auto simp: rthen_def rbind_def account_def seek_relative_def reader_ok_def checked_add_def
       split: if_splits option.splits)

lemma keeps_rbytes [keeps_rules]: "keeps (rbytes n)"
  by (simp add: rbytes_def keeps_account_read)

lemma keeps_account_read_then:
  assumes "\<And>x. keeps (f x)"
  shows "keeps (rthen (account n) (rbind (read_exact n) f))"
proof -
  have "rthen (account n) (rbind (read_exact n) f) = rbind (rthen (account n) (read_exact n)) f"
    by (auto simp: rthen_def rbind_def fun_eq_iff split: sum.splits)
  with keeps_rbind [OF keeps_account_read assms] show ?thesis by simp
qed

lemma keeps_rskip [keeps_rules]: "keeps (rskip n)"
  by (auto simp: rskip_def intro: keeps_rules keeps_account_seek)

lemma keeps_ru32 [keeps_rules]: "keeps ru32"
  and keeps_ru64 [keeps_rules]: "keeps ru64"
  by (auto simp: ru32_def ru64_def intro: keeps_rules)

lemma keeps_account_strings [keeps_rules]: "keeps (account_strings n)"
  by (rule keepsI)
     (auto simp: account_strings_def reader_ok_def checked_add_def split: if_splits option.splits)

lemma keeps_account_string_data [keeps_rules]: "keeps (account_string_data n)"
  by (rule keepsI)
     (auto simp: account_string_data_def reader_ok_def checked_add_def split: if_splits option.splits)

lemma keeps_charge:
  assumes "\<And>b b'. within_budget b \<Longrightarrow> f b = Inr b' \<Longrightarrow> within_budget b'"
  shows "keeps (charge use f)"
  by (rule keepsI)
     (use assms in \<open>auto simp: charge_def reader_ok_def split: if_splits option.splits sum.splits\<close>)

lemma keeps_charge_entries [keeps_rules]: "keeps (charge use (account_entries n))"
  by (rule keeps_charge)
     (auto simp: account_entries_def within_budget_def split: option.splits if_splits)

lemma keeps_charge_payload [keeps_rules]: "keeps (charge use (account_payload n))"
  by (rule keeps_charge)
     (auto simp: account_payload_def within_budget_def split: option.splits if_splits)

lemma keeps_string_with_budget [keeps_rules]: "keeps (string_with_budget use)"
  unfolding string_with_budget_def by (intro keeps_rules keeps_account_read_then)

lemma keeps_rstring [keeps_rules]: "keeps rstring"
  by (simp add: rstring_def keeps_string_with_budget)

lemma keeps_skip_array_body [keeps_rules]: "keeps (skip_array_body use element count)"
  unfolding skip_array_body_def by (intro keeps_rules)

lemma keeps_skip_value [keeps_rules]:
  "keeps (skip_value_with_budget use kind)" "keeps (rskip_value kind)"
  unfolding rskip_value_def skip_value_with_budget_def by (intro keeps_rules)+

lemma keeps_read_unsigned [keeps_rules]: "keeps (read_unsigned kind)"
  unfolding read_unsigned_def by (intro keeps_rules)

lemma keeps_read_header [keeps_rules]: "keeps read_header"
  unfolding read_header_def by (intro keeps_rules)

lemma keeps_read_string_array [keeps_rules]: "keeps (read_string_array kind)"
  unfolding read_string_array_def by (intro keeps_rules)

lemma keeps_metadata_entry [keeps_rules]: "keeps (metadata_entry key kind m)"
  unfolding metadata_entry_def by (intro keeps_rules)

lemma keeps_read_metadata: "keeps read_metadata_from"
  unfolding read_metadata_from_def by (intro keeps_rules)

lemma reader_ok_new: "reader_ok (reader_new file)"
  by (simp add: reader_ok_def reader_new_def)

section \<open>Headers as written\<close>

text \<open>
  The writer's view of a header: the typed values of the GGUF specification and their encoding.
  \<open>GFixed\<close> is a scalar of a fixed-width kind, \<open>GFixedArray\<close> an array of them with its element kind
  and count.
\<close>

datatype gval =
    GFixed nat bytes
  | GText string
  | GFixedArray nat nat bytes
  | GTextArray "string list"

fun le_bytes :: "nat \<Rightarrow> nat \<Rightarrow> bytes" where
  "le_bytes 0 n = []"
| "le_bytes (Suc k) n = char_of (n mod 256) # le_bytes k (n div 256)"

definition enc_text :: "string \<Rightarrow> bytes" where
  "enc_text s = le_bytes 8 (length s) @ s"

fun gval_kind :: "gval \<Rightarrow> nat" where
  "gval_kind (GFixed k bs) = k"
| "gval_kind (GText s) = 8"
| "gval_kind (GFixedArray e n bs) = 9"
| "gval_kind (GTextArray ss) = 9"

fun enc_val :: "gval \<Rightarrow> bytes" where
  "enc_val (GFixed k bs) = bs"
| "enc_val (GText s) = enc_text s"
| "enc_val (GFixedArray e n bs) = le_bytes 4 e @ le_bytes 8 n @ bs"
| "enc_val (GTextArray ss) = le_bytes 4 8 @ le_bytes 8 (length ss) @ concat (map enc_text ss)"

definition enc_entry :: "string \<times> gval \<Rightarrow> bytes" where
  "enc_entry = (\<lambda>(key, v). enc_text key @ le_bytes 4 (gval_kind v) @ enc_val v)"

definition enc_header :: "nat \<Rightarrow> (string \<times> gval) list \<Rightarrow> bytes" where
  "enc_header tensors kvs =
     ''GGUF'' @ le_bytes 4 3 @ le_bytes 8 tensors @ le_bytes 8 (length kvs)
       @ concat (map enc_entry kvs)"

definition valid_text :: "string \<Rightarrow> bool" where
  "valid_text s \<longleftrightarrow> utf8_ok (map code s)"

fun valid_val :: "gval \<Rightarrow> bool" where
  "valid_val (GFixed k bs) \<longleftrightarrow> scalar_width k = Some (length bs)"
| "valid_val (GText s) \<longleftrightarrow> valid_text s"
| "valid_val (GFixedArray e n bs) \<longleftrightarrow>
     n \<le> max_array_len \<and> (\<exists>w. scalar_width e = Some w \<and> length bs = w * n)"
| "valid_val (GTextArray ss) \<longleftrightarrow> length ss \<le> max_array_len \<and> list_all valid_text ss"

definition valid_entry :: "string \<times> gval \<Rightarrow> bool" where
  "valid_entry = (\<lambda>(key, v). valid_text key \<and> length key \<le> max_key_bytes \<and> valid_val v)"

text \<open>What the entries say: the specification the reader is checked against.\<close>

definition shown :: "string \<Rightarrow> string" where
  "shown s = (if length s > max_key_bytes then [] else s)"

fun unsigned_of :: "gval \<Rightarrow> nat option" where
  "unsigned_of (GFixed k bs) =
     (if k = 4 \<or> k = 10 then Some (le_value bs)
      else if k = 5 \<or> k = 11 then non_negative bs else None)"
| "unsigned_of _ = None"

fun strings_of :: "gval \<Rightarrow> string list" where
  "strings_of (GTextArray ss) = filter (\<lambda>s. trim s \<noteq> []) (map shown ss)"
| "strings_of _ = []"

definition entry_spec :: "string \<times> gval \<Rightarrow> metadata \<Rightarrow> metadata" where
  "entry_spec = (\<lambda>(key, v) m.
     if key \<in> set text_keys then
       (case v of GText s \<Rightarrow> m\<lparr>md_texts := (key, shown s) # md_texts m\<rparr> | _ \<Rightarrow> m)
     else if key = ''general.file_type'' then m\<lparr>md_quantization := quantization_of (unsigned_of v)\<rparr>
     else if key = ''general.tags'' then m\<lparr>md_tags := strings_of v\<rparr>
     else if key = ''general.languages'' then m\<lparr>md_languages := strings_of v\<rparr>
     else if architecture_key key then
       (case unsigned_of v of
          None \<Rightarrow> m
        | Some n \<Rightarrow> m\<lparr>md_architecture_values := (key, n) # md_architecture_values m\<rparr>)
     else m)"

section \<open>Reading what was written\<close>

lemma le_value_le_bytes: "le_value (le_bytes k n) = n mod 256 ^ k"
proof (induction k arbitrary: n)
  case (Suc k)
  have "code (char_of (n mod 256)) = n mod 256" by (simp add: code_def)
  then show ?case
    using Suc mod_mult2_eq [of n 256 "256 ^ k"] by simp
qed simp

lemma length_le_bytes [simp]: "length (le_bytes k n) = k"
  by (induction k arbitrary: n) auto

text \<open>The headers considered are shorter than every budget.\<close>

definition small :: nat where
  "small = 2000000"

definition adv :: "nat \<Rightarrow> gguf \<Rightarrow> gguf" where
  "adv n r = r\<lparr>gr_consumed := gr_consumed r + n, gr_pos := gr_pos r + n\<rparr>"

definition ahead :: "gguf \<Rightarrow> bytes" where
  "ahead r = drop (gr_pos r) (gr_file r)"

definition good :: "gguf \<Rightarrow> bool" where
  "good r \<longleftrightarrow> gr_strings r \<le> gr_consumed r \<and> gr_entries r \<le> gr_consumed r"

definition reads :: "'a rd \<Rightarrow> bytes \<Rightarrow> 'a \<Rightarrow> bool" where
  "reads m bs x \<longleftrightarrow> (\<forall>r rest. good r \<longrightarrow> ahead r = bs @ rest \<longrightarrow>
     gr_consumed r + length bs \<le> small \<longrightarrow>
     (\<exists>r'. m r = Inr (x, r') \<and> good r' \<and> ahead r' = rest \<and>
       gr_consumed r' = gr_consumed r + length bs))"

lemma ahead_adv: "ahead r = bs @ rest \<Longrightarrow> length bs = n \<Longrightarrow> ahead (adv n r) = rest"
  by (simp add: ahead_def adv_def) (metis add.commute append_eq_conv_conj drop_drop)

lemma good_adv: "good r \<Longrightarrow> good (adv n r)"
  by (simp add: good_def adv_def)

lemma adv_consumed [simp]:
  "gr_consumed (adv n r) = gr_consumed r + n" "gr_strings (adv n r) = gr_strings r"
  "gr_entries (adv n r) = gr_entries r"
  by (simp_all add: adv_def)

lemma account_small:
  "gr_consumed r + n \<le> small \<Longrightarrow> account n r = Inr ((), r\<lparr>gr_consumed := gr_consumed r + n\<rparr>)"
  by (simp add: account_def checked_add_def u64_bound_eval small_def max_header_span_def)

lemma read_exact_ahead:
  assumes "ahead r = bs @ rest" and "length bs = n"
  shows "read_exact n r = Inr (bs, r\<lparr>gr_pos := gr_pos r + n\<rparr>)"
proof -
  have "length (gr_file r) - gr_pos r = n + length rest"
    using arg_cong [OF assms(1), of length] assms(2) by (simp add: ahead_def)
  moreover have "take n (drop (gr_pos r) (gr_file r)) = bs"
    using assms by (simp add: ahead_def)
  ultimately show ?thesis
    by (cases "n = 0") (auto simp: read_exact_def)
qed

lemma reads_rret: "reads (rret x) [] x"
  by (simp add: reads_def rret_def)

lemma reads_bind:
  assumes "reads m bs x" and "reads (f x) cs y"
  shows "reads (rbind m f) (bs @ cs) y"
  unfolding reads_def
proof (intro allI impI)
  fix r rest
  assume r: "good r" "ahead r = (bs @ cs) @ rest" "gr_consumed r + length (bs @ cs) \<le> small"
  then obtain r1 where 1: "m r = Inr (x, r1)" "good r1" "ahead r1 = cs @ rest"
      "gr_consumed r1 = gr_consumed r + length bs"
    using assms(1) [unfolded reads_def, rule_format, of r "cs @ rest"] by auto
  with r obtain r2 where "f x r1 = Inr (y, r2)" "good r2" "ahead r2 = rest"
      "gr_consumed r2 = gr_consumed r1 + length cs"
    using assms(2) [unfolded reads_def, rule_format, of r1 rest] by auto
  with 1 show "\<exists>r'. rbind m f r = Inr (y, r') \<and> good r' \<and> ahead r' = rest \<and>
      gr_consumed r' = gr_consumed r + length (bs @ cs)"
    by (simp add: rbind_def)
qed

lemma reads_then: "reads m bs x \<Longrightarrow> reads k cs y \<Longrightarrow> reads (rthen m k) (bs @ cs) y"
  by (simp add: rthen_def reads_bind)

lemma reads_bind_ret: "reads m bs x \<Longrightarrow> reads (rbind m (\<lambda>v. rret (f v))) bs (f x)"
  using reads_bind [where f = "\<lambda>v. rret (f v)", OF _ reads_rret] by simp

lemma reads_then_ret: "reads m bs x \<Longrightarrow> reads (rthen m (rret y)) bs y"
  using reads_then [OF _ reads_rret, of m bs x y] by simp

lemma rbytes_ahead:
  assumes "ahead r = bs @ rest" and "length bs = n" and "gr_consumed r + n \<le> small"
  shows "rbytes n r = Inr (bs, adv n r)"
proof -
  let ?r = "r\<lparr>gr_consumed := gr_consumed r + n\<rparr>"
  have "ahead ?r = bs @ rest" using assms(1) by (simp add: ahead_def)
  from read_exact_ahead [OF this assms(2)] show ?thesis
    using assms(3) by (simp add: rbytes_def rthen_def rbind_def account_small adv_def)
qed

lemma rbind_assoc: "rbind (rbind m f) g = rbind m (\<lambda>x. rbind (f x) g)"
  by (auto simp: rbind_def fun_eq_iff split: sum.splits)

lemma rbind_rret [simp]: "rbind (rret x) f = f x"
  by (simp add: rbind_def rret_def)

lemma reads_rbytes: "length bs = n \<Longrightarrow> reads (rbytes n) bs bs"
  by (auto simp: reads_def rbytes_ahead intro: good_adv ahead_adv)

lemma reads_ru32: "n < 2 ^ 32 \<Longrightarrow> reads ru32 (le_bytes 4 n) n"
  unfolding ru32_def
  using reads_bind_ret [OF reads_rbytes [of "le_bytes 4 n" 4], of le_value]
  by (simp add: le_value_le_bytes)

lemma reads_ru64: "n < 2 ^ 64 \<Longrightarrow> reads ru64 (le_bytes 8 n) n"
  unfolding ru64_def
  using reads_bind_ret [OF reads_rbytes [of "le_bytes 8 n" 8], of le_value]
  by (simp add: le_value_le_bytes)

lemma reads_rskip:
  assumes "length bs = n"
  shows "reads (rskip n) bs ()"
  unfolding reads_def
proof (intro allI impI)
  fix r rest
  assume r: "good r" "ahead r = bs @ rest" "gr_consumed r + length bs \<le> small"
  then have "n < 2 ^ 63" using assms by (simp add: small_def)
  then have "rskip n r = Inr ((), adv n r)"
    using r assms
    by (simp add: rskip_def rthen_def rbind_def account_small seek_relative_def adv_def)
  with r assms show "\<exists>r'. rskip n r = Inr ((), r') \<and> good r' \<and> ahead r' = rest \<and>
      gr_consumed r' = gr_consumed r + length bs"
    by (auto intro: good_adv ahead_adv)
qed

lemma ru64_ahead:
  assumes "ahead r = le_bytes 8 n @ rest" and "n < 2 ^ 64" and "gr_consumed r + 8 \<le> small"
  shows "ru64 r = Inr (n, adv 8 r)"
  using rbytes_ahead [OF assms(1) _ assms(3)] assms(2)
  by (simp add: ru64_def rbind_def rret_def le_value_le_bytes)

lemma reads_rstring:
  assumes "valid_text s"
  shows "reads rstring (enc_text s) (shown s)"
  unfolding reads_def
proof (intro allI impI)
  fix r rest
  assume r: "good r" "ahead r = enc_text s @ rest" "gr_consumed r + length (enc_text s) \<le> small"
  let ?r1 = "r\<lparr>gr_entries := gr_entries r + 1\<rparr>"
  let ?r2 = "adv 8 ?r1"
  let ?n = "length s"
  have n: "?n < 2 ^ 63" "?n < 2 ^ 64" using r(3) by (simp_all add: enc_text_def small_def)
  have 1: "account_strings 1 r = Inr ((), ?r1)"
    using r by (simp add: good_def account_strings_def checked_add_def u64_bound_eval small_def
        max_string_entries_def enc_text_def)
  have a1: "ahead ?r1 = le_bytes 8 ?n @ s @ rest"
    using r(2) by (simp add: ahead_def enc_text_def)
  have 2: "ru64 ?r1 = Inr (?n, ?r2)"
    by (rule ru64_ahead [OF a1]) (use r n in \<open>simp_all add: enc_text_def\<close>)
  have a2: "ahead ?r2 = s @ rest" using ahead_adv [OF a1] by simp
  have charge: "charge False f q = Inr ((), q)" for f q by (simp add: charge_def)
  have c2: "gr_consumed ?r2 + ?n \<le> small" using r(3) by (simp add: enc_text_def)
  have g2: "good (?r2\<lparr>gr_strings := k\<rparr>)" if "k \<le> gr_consumed ?r2" for k
    using r(1) that by (simp add: good_def)
  show "\<exists>r'. rstring r = Inr (shown s, r') \<and> good r' \<and> ahead r' = rest \<and>
      gr_consumed r' = gr_consumed r + length (enc_text s)"
  proof (cases "?n > max_key_bytes")
    case True
    have "rskip ?n ?r2 = Inr ((), adv ?n ?r2)"
      using c2 n by (simp add: rskip_def rthen_def rbind_def account_small seek_relative_def adv_def)
    then have "rstring r = Inr ([], adv ?n ?r2)"
      using True by (simp add: rstring_def string_with_budget_def rthen_def rbind_def 1 2 charge rret_def
          del: One_nat_def)
    moreover have "good (adv ?n ?r2)"
      using r(1) by (simp add: good_def)
    ultimately show ?thesis
      using True ahead_adv [OF a2] by (simp add: shown_def enc_text_def)
  next
    case False
    let ?r3 = "?r2\<lparr>gr_strings := gr_strings r + ?n\<rparr>"
    have 3: "account_string_data ?n ?r2 = Inr ((), ?r3)"
      using r n by (simp add: account_string_data_def checked_add_def u64_bound_eval small_def
          max_string_budget_def good_def enc_text_def)
    define r4 where "r4 = ?r3\<lparr>gr_consumed := gr_consumed ?r3 + ?n\<rparr>"
    have 4: "account ?n ?r3 = Inr ((), r4)"
      unfolding r4_def by (rule account_small) (use c2 in simp)
    have "ahead r4 = s @ rest"
      using a2 by (simp add: ahead_def r4_def)
    note 5 = read_exact_ahead [OF this refl]
    have "rstring r = Inr (s, r4\<lparr>gr_pos := gr_pos r4 + ?n\<rparr>)"
      using False assms
      by (simp add: rstring_def string_with_budget_def rthen_def rbind_def 1 2 3 4 5 charge
          rret_def decode_text_def from_utf8_def valid_text_def del: One_nat_def)
    also have "r4\<lparr>gr_pos := gr_pos r4 + ?n\<rparr> = adv ?n ?r3"
      by (simp add: r4_def adv_def)
    finally have "rstring r = Inr (s, adv ?n ?r3)" .
    moreover have "good (adv ?n ?r3)" using r(1) by (simp add: good_def)
    moreover have "ahead (adv ?n ?r3) = rest"
      using ahead_adv [of ?r3 s rest] a2 by (simp add: ahead_def)
    ultimately show ?thesis
      using False by (simp add: shown_def enc_text_def)
  qed
qed

lemma reads_skip_text: "length s < 2 ^ 64 \<Longrightarrow> reads (rbind ru64 rskip) (enc_text s) ()"
  unfolding enc_text_def by (rule reads_bind [OF reads_ru64 reads_rskip]) auto

lemma reads_cong_length:
  assumes "length bs \<le> small \<Longrightarrow> reads m bs x"
  shows "reads m bs x"
  using assms unfolding reads_def by (meson le_trans le_add2)

lemma reads_rloop:
  assumes "\<And>v acc. v \<in> set vs \<Longrightarrow> reads (f acc) (enc v) (g v acc)"
  shows "reads (rloop (length vs) f acc) (concat (map enc vs)) (fold g vs acc)"
  using assms by (induction vs arbitrary: acc) (auto intro!: reads_rret reads_bind)

lemma length_concat_text: "s \<in> set ss \<Longrightarrow> length s \<le> length (concat (map enc_text ss))"
  by (induction ss) (auto simp: enc_text_def)

lemma length_texts: "8 * length ss \<le> length (concat (map enc_text ss))"
  by (induction ss) (auto simp: enc_text_def)

lemma length_enc_text [simp]: "length (enc_text s) = 8 + length s"
  by (simp add: enc_text_def)

lemma rthen_run: "m r = Inr (x, r1) \<Longrightarrow> rthen m k r = k r1"
  by (simp add: rthen_def rbind_def)

lemma adv_adv: "adv m (adv n r) = adv (n + m) r"
  by (simp add: adv_def)

lemma rskip_run: "gr_consumed r + n \<le> small \<Longrightarrow> rskip n r = Inr ((), adv n r)"
  by (simp add: rskip_def rthen_def rbind_def account_small seek_relative_def adv_def small_def)

lemma skip_texts_run:
  assumes "ahead r = concat (map enc_text ss) @ rest"
    and "gr_consumed r + length (concat (map enc_text ss)) \<le> small"
  shows "rloop (length ss) (\<lambda>_. rbind ru64 rskip) () r =
    Inr ((), adv (length (concat (map enc_text ss))) r)"
  using assms
proof (induction ss arbitrary: r)
  case (Cons s ss)
  have a: "ahead r = le_bytes 8 (length s) @ s @ concat (map enc_text ss) @ rest"
    using Cons.prems(1) by (simp add: enc_text_def [of s])
  have n: "length s < 2 ^ 64" using Cons.prems(2) by (simp add: enc_text_def small_def)
  have 1: "ru64 r = Inr (length s, adv 8 r)"
    by (rule ru64_ahead [OF a n]) (use Cons.prems(2) in \<open>simp add: enc_text_def\<close>)
  have 2: "rskip (length s) (adv 8 r) = Inr ((), adv (8 + length s) r)"
    by (subst rskip_run) (use Cons.prems(2) in \<open>simp_all add: enc_text_def adv_adv\<close>)
  have a2: "ahead (adv (8 + length s) r) = concat (map enc_text ss) @ rest"
    by (rule ahead_adv [of r "le_bytes 8 (length s) @ s"]) (use a in simp_all)
  have "rloop (length ss) (\<lambda>_. rbind ru64 rskip) () (adv (8 + length s) r) =
      Inr ((), adv (length (concat (map enc_text ss))) (adv (8 + length s) r))"
    by (rule Cons.IH [OF a2]) (use Cons.prems(2) in \<open>simp add: enc_text_def\<close>)
  with 1 2 show ?case
    by (simp add: rbind_def adv_adv add.assoc)
qed (simp add: rret_def adv_def)

lemma reads_skip_texts:
  "reads (rthen (account_strings (length ss)) (rthen (charge False f)
     (rloop (length ss) (\<lambda>_. rbind ru64 rskip) ()))) (concat (map enc_text ss)) ()"
  unfolding reads_def
proof (intro allI impI)
  fix r rest
  let ?bs = "concat (map enc_text ss)" and ?n = "length ss"
  assume r: "good r" "ahead r = ?bs @ rest" "gr_consumed r + length ?bs \<le> small"
  let ?r1 = "r\<lparr>gr_entries := gr_entries r + ?n\<rparr>"
  note len = length_texts [of ss]
  have 1: "account_strings ?n r = Inr ((), ?r1)"
    using r len by (simp add: good_def account_strings_def checked_add_def u64_bound_eval
        small_def max_string_entries_def)
  have 2: "rloop ?n (\<lambda>_. rbind ru64 rskip) () ?r1 = Inr ((), adv (length ?bs) ?r1)"
    by (rule skip_texts_run [of _ _ rest]) (use r in \<open>simp_all add: ahead_def\<close>)
  have 3: "charge False f q = Inr ((), q)" for q by (simp add: charge_def)
  have "ahead (adv (length ?bs) ?r1) = rest"
    by (rule ahead_adv [of _ ?bs]) (use r in \<open>simp_all add: ahead_def\<close>)
  moreover have "good (adv (length ?bs) ?r1)"
    using r(1) len by (simp add: good_def)
  ultimately show "\<exists>r'. rthen (account_strings ?n) (rthen (charge False f)
      (rloop ?n (\<lambda>_. rbind ru64 rskip) ())) r = Inr ((), r') \<and> good r' \<and> ahead r' = rest \<and>
      gr_consumed r' = gr_consumed r + length ?bs"
    by (simp add: rthen_run [where m = "account_strings (length ss)" and r = r, OF 1]
        rthen_run [where m = "charge False f" and r = ?r1, OF 3] 2)
qed

lemma scalar_width_bounds: "scalar_width k = Some w \<Longrightarrow> k \<le> 12 \<and> 1 \<le> w \<and> w \<le> 8 \<and> k \<noteq> 8 \<and> k \<noteq> 9"
  by (auto simp: scalar_width.simps split: if_splits)

lemma reads_skip_value:
  assumes "valid_val v"
  shows "reads (rskip_value (gval_kind v)) (enc_val v) ()"
proof (cases v)
  case (GFixed k bs)
  with assms show ?thesis
    by (auto simp: rskip_value_def skip_value_with_budget_def intro: reads_rskip)
next
  case (GText s)
  show ?thesis
    by (rule reads_cong_length)
       (auto simp: GText rskip_value_def skip_value_with_budget_def scalar_width.simps enc_text_def
         small_def intro!: reads_bind [OF reads_ru64 reads_rskip])
next
  case (GFixedArray e n bs)
  with assms obtain w where w: "scalar_width e = Some w" "length bs = w * n" "n \<le> max_array_len"
    by auto
  note b = scalar_width_bounds [OF w(1)]
  have "w * n \<le> 8 * max_array_len"
    using b w(3) by (intro mult_le_mono) auto
  then have "checked_mul w n = Some (w * n)"
    by (simp add: checked_mul_def u64_bound_eval max_array_len_def)
  then have "reads (skip_array_body False e n) bs ()"
    using w by (simp add: skip_array_body_def reads_rskip)
  moreover have "e < 2 ^ 32" "n < 2 ^ 64" using b w(3) by (simp_all add: max_array_len_def)
  ultimately show ?thesis
    by (auto simp: GFixedArray rskip_value_def skip_value_with_budget_def scalar_width.simps
        intro!: reads_bind reads_ru32 reads_ru64)
next
  case (GTextArray ss)
  with assms have n: "length ss \<le> max_array_len" by simp
  have "reads (skip_array_body False 8 (length ss)) (concat (map enc_text ss)) ()"
    using n reads_skip_texts by (simp add: skip_array_body_def scalar_width.simps)
  moreover have "length ss < 2 ^ 64" using n by (simp add: max_array_len_def)
  ultimately show ?thesis
    by (auto simp: GTextArray rskip_value_def skip_value_with_budget_def scalar_width.simps
        intro!: reads_bind reads_ru32 reads_ru64)
qed

lemma reads_read_unsigned:
  assumes "valid_val v"
  shows "reads (read_unsigned (gval_kind v)) (enc_val v) (unsigned_of v)"
proof (cases "\<exists>k bs. v = GFixed k bs \<and> k \<in> {4, 5, 10, 11}")
  case True
  then obtain k bs where v: "v = GFixed k bs" "k \<in> {4, 5, 10, 11}" by blast
  with assms have len: "length bs = (if k = 4 \<or> k = 5 then 4 else 8)"
    by (auto simp: scalar_width.simps split: if_splits)
  with v show ?thesis
    by (auto simp: read_unsigned_def ru32_def ru64_def rbind_assoc intro!: reads_bind_ret reads_rbytes)
next
  case False
  then have "unsigned_of v = None" "gval_kind v \<notin> {4, 5, 10, 11}"
    by (cases v; auto)+
  then show ?thesis
    using reads_then_ret [OF reads_skip_value [OF assms]] by (simp add: read_unsigned_def)
qed

lemma reads_read_string_array:
  assumes "valid_val v"
  shows "reads (read_string_array (gval_kind v)) (enc_val v) (strings_of v)"
proof (cases v)
  case (GFixedArray e n bs)
  with assms obtain w where w: "scalar_width e = Some w" "length bs = w * n" "n \<le> max_array_len"
    by auto
  note b = scalar_width_bounds [OF w(1)]
  have "w * n \<le> 8 * max_array_len" using b w(3) by (intro mult_le_mono) auto
  then have m: "checked_mul n w = Some (n * w)"
    by (simp add: checked_mul_def u64_bound_eval max_array_len_def mult.commute)
  have "reads (rthen (rskip (n * w)) (rret [])) bs []"
    by (rule reads_then_ret [OF reads_rskip]) (simp add: w(2) mult.commute)
  moreover have "e < 2 ^ 32" "n < 2 ^ 64" using b w(3) by (simp_all add: max_array_len_def)
  ultimately show ?thesis
    using w m by (auto simp: GFixedArray read_string_array_def intro!: reads_bind reads_ru32 reads_ru64)
next
  case (GTextArray ss)
  with assms have n: "length ss \<le> max_array_len" and valid: "\<forall>s \<in> set ss. valid_text s"
    by (auto simp: list_all_iff)
  let ?f = "\<lambda>values. if (8::nat) = 8 then
      rbind rstring (\<lambda>v. rret (if trim v = [] then values else values @ [v]))
      else rthen (rskip_value 8) (rret values)"
  let ?g = "\<lambda>s values. if trim (shown s) = [] then values else values @ [shown s]"
  have "reads (?f acc) (enc_text s) (?g s acc)" if "s \<in> set ss" for s acc
    using reads_bind_ret [OF reads_rstring, of s "\<lambda>v. if trim v = [] then acc else acc @ [v]"] that valid
    by simp
  then have "reads (rloop (length ss) ?f []) (concat (map enc_text ss)) (fold ?g ss [])"
    by (rule reads_rloop)
  moreover have "fold ?g ss acc = acc @ filter (\<lambda>s. trim s \<noteq> []) (map shown ss)" for acc
    by (induction ss arbitrary: acc) auto
  moreover have "length ss < 2 ^ 64" using n by (simp add: max_array_len_def)
  ultimately show ?thesis
    using n by (auto simp: GTextArray read_string_array_def scalar_width.simps
        intro!: reads_bind reads_ru32 reads_ru64)
next
  case (GFixed k bs)
  with assms have "k \<noteq> 9" using scalar_width_bounds by auto
  with reads_then_ret [OF reads_skip_value [OF assms]] GFixed show ?thesis
    by (simp add: read_string_array_def)
next
  case (GText s)
  with reads_then_ret [OF reads_skip_value [OF assms]] show ?thesis
    by (simp add: read_string_array_def)
qed

lemma reads_if:
  "(c \<Longrightarrow> reads m bs x) \<Longrightarrow> (\<not> c \<Longrightarrow> reads k bs y) \<Longrightarrow>
     reads (if c then m else k) bs (if c then x else y)"
  by simp

lemma reads_metadata_entry:
  assumes "valid_val v"
  shows "reads (metadata_entry key (gval_kind v) m) (enc_val v) (entry_spec (key, v) m)"
proof -
  note skip = reads_then_ret [OF reads_skip_value [OF assms], of m]
  have plain: "reads (if gval_kind v = 8 then rbind rstring (\<lambda>x. rret (m\<lparr>md_texts := (key, x) # md_texts m\<rparr>))
      else rthen (rskip_value (gval_kind v)) (rret m)) (enc_val v)
      (case v of GText s \<Rightarrow> m\<lparr>md_texts := (key, shown s) # md_texts m\<rparr> | _ \<Rightarrow> m)"
  proof (cases v)
    case (GText s)
    with assms show ?thesis
      using reads_bind_ret [OF reads_rstring, of s "\<lambda>x. m\<lparr>md_texts := (key, x) # md_texts m\<rparr>"] by simp
  next
    case (GFixed k bs)
    with assms have "k \<noteq> 8" using scalar_width_bounds by auto
    with skip GFixed show ?thesis by simp
  qed (use skip in auto)
  show ?thesis
    unfolding metadata_entry_def entry_spec_def prod.case
    by (intro reads_if plain skip
      reads_bind_ret [OF reads_read_unsigned [OF assms], where f = "\<lambda>x. m\<lparr>md_quantization := quantization_of x\<rparr>"]
      reads_bind_ret [OF reads_read_string_array [OF assms], where f = "\<lambda>x. m\<lparr>md_tags := x\<rparr>"]
      reads_bind_ret [OF reads_read_string_array [OF assms], where f = "\<lambda>x. m\<lparr>md_languages := x\<rparr>"]
      reads_bind_ret [OF reads_read_unsigned [OF assms], where f = "\<lambda>x. case x of None \<Rightarrow> m
        | Some n \<Rightarrow> m\<lparr>md_architecture_values := (key, n) # md_architecture_values m\<rparr>"])
qed

lemma reads_metadata_step:
  assumes "valid_entry e"
  shows "reads (rbind rstring (\<lambda>key. rbind ru32 (\<lambda>kind. metadata_entry key kind m)))
    (enc_entry e) (entry_spec e m)"
proof -
  obtain key v where e: "e = (key, v)" by fastforce
  with assms have key: "valid_text key" "length key \<le> max_key_bytes" "valid_val v"
    by (simp_all add: valid_entry_def)
  have kind: "gval_kind v < 2 ^ 32"
    using key(3) scalar_width_bounds by (cases v) fastforce+
  have 2: "reads (rbind ru32 (\<lambda>kind. metadata_entry key kind m))
      (le_bytes 4 (gval_kind v) @ enc_val v) (entry_spec (key, v) m)"
    by (rule reads_bind [where x = "gval_kind v"])
       (rule reads_ru32 [OF kind], rule reads_metadata_entry [OF key(3)])
  have "reads (rbind rstring (\<lambda>key. rbind ru32 (\<lambda>kind. metadata_entry key kind m)))
      (enc_text key @ le_bytes 4 (gval_kind v) @ enc_val v) (entry_spec (key, v) m)"
    by (rule reads_bind [where x = key])
       (use reads_rstring [OF key(1)] key(2) 2 in \<open>simp_all add: shown_def\<close>)
  with e show ?thesis by (simp add: enc_entry_def)
qed

lemma reads_read_header:
  assumes "tensors < 2 ^ 64" and "n \<le> max_keys"
  shows "reads read_header (''GGUF'' @ le_bytes 4 3 @ le_bytes 8 tensors @ le_bytes 8 n) (tensors, n)"
proof -
  have n: "n < 2 ^ 64" using assms(2) by (simp add: max_keys_def)
  have "reads (rbind ru64 (\<lambda>keys. if keys > max_keys
      then rfail ''GGUF header declares an implausible key count'' else rret (tensors, keys)))
      (le_bytes 8 n @ []) (tensors, n)"
    by (rule reads_bind [where x = n])
       (use reads_ru64 [OF n] assms(2) in \<open>simp_all add: reads_rret\<close>)
  then have 0: "reads (rbind ru64 (\<lambda>keys. if keys > max_keys
      then rfail ''GGUF header declares an implausible key count'' else rret (tensors, keys)))
      (le_bytes 8 n) (tensors, n)" by simp
  have 1: "reads (rbind ru64 (\<lambda>tensors. rbind ru64 (\<lambda>keys. if keys > max_keys
      then rfail ''GGUF header declares an implausible key count'' else rret (tensors, keys))))
      (le_bytes 8 tensors @ le_bytes 8 n) (tensors, n)"
    by (rule reads_bind [where x = tensors]) (use reads_ru64 [OF assms(1)] 0 in simp_all)
  have 2: "reads (rbind ru32 (\<lambda>version. if \<not> (2 \<le> version \<and> version \<le> 3)
      then rfail (''unsupported GGUF version '' @ digits_of_nat version)
      else rbind ru64 (\<lambda>tensors. rbind ru64 (\<lambda>keys. if keys > max_keys
        then rfail ''GGUF header declares an implausible key count'' else rret (tensors, keys)))))
      (le_bytes 4 3 @ le_bytes 8 tensors @ le_bytes 8 n) (tensors, n)"
    by (rule reads_bind [where x = 3]) (use 1 reads_ru32 [of 3] in simp_all)
  show ?thesis
    unfolding read_header_def
    by (rule reads_bind [where x = "''GGUF''"]) (use 2 reads_rbytes [of "''GGUF''" 4] in simp_all)
qed

lemma reads_run:
  assumes "reads m bs x" and "length bs \<le> small"
  shows "\<exists>r. m (reader_new (bs @ rest)) = Inr (x, r)"
  using assms(1) [unfolded reads_def, rule_format, of "reader_new (bs @ rest)" rest] assms(2)
  by (auto simp: good_def reader_new_def ahead_def)

lemma reads_read_metadata:
  assumes "list_all valid_entry kvs" and "length kvs \<le> max_keys" and "tensors < 2 ^ 64"
  shows "reads read_metadata_from (enc_header tensors kvs)
    (metadata_finish (fold entry_spec kvs metadata_new))"
proof -
  let ?step = "\<lambda>m. rbind rstring (\<lambda>key. rbind ru32 (\<lambda>kind. metadata_entry key kind m))"
  have "reads (?step m) (enc_entry e) (entry_spec e m)" if "e \<in> set kvs" for e m
    using reads_metadata_step assms(1) that by (auto simp: list_all_iff)
  then have loop: "reads (rloop (length kvs) ?step metadata_new) (concat (map enc_entry kvs))
      (fold entry_spec kvs metadata_new)"
    by (rule reads_rloop)
  have "reads read_metadata_from ((''GGUF'' @ le_bytes 4 3 @ le_bytes 8 tensors @ le_bytes 8 (length kvs))
      @ concat (map enc_entry kvs)) (metadata_finish (fold entry_spec kvs metadata_new))"
    unfolding read_metadata_from_def
    by (rule reads_bind [where x = "(tensors, length kvs)"])
       (use reads_read_header assms(2,3) loop in \<open>auto intro: reads_bind_ret\<close>)
  then show ?thesis
    by (simp add: enc_header_def)
qed

section \<open>Properties\<close>

text \<open>Reading the metadata of any file, however malformed or hostile, that succeeds has moved
  over at most 128 MiB of it, reads and skips alike, held at most 2,000,000 bytes of strings and
  2,000,000 string entries, and its position is exactly the accounted span.\<close>

lemma metadata_scan_bounded:
  assumes "read_metadata_from (reader_new file) = Inr (m, r)"
  shows "gr_pos r = gr_consumed r \<and> gr_consumed r \<le> 128 * 1024 * 1024 \<and>
    gr_strings r \<le> 2000000 \<and> gr_entries r \<le> 2000000 \<and> gr_file r = file"
proof -
  have "reader_ok r \<and> gr_file r = gr_file (reader_new file)"
    using keeps_read_metadata assms reader_ok_new [of "file"] unfolding keeps_def by blast
  then show ?thesis
    by (simp add: reader_ok_def gguf_limits reader_new_def)
qed

text \<open>C3. The metadata reader is exact on every well-formed header: for any typed entries in any
  order, the result is what the entries say, wherever they stand between values that are skipped
  (scalars, arrays, vocabularies), and whatever tensor data follows.\<close>

theorem metadata_roundtrip:
  assumes "list_all valid_entry kvs" and "length kvs \<le> 4096" and "tensors < 2 ^ 64"
    and "length (enc_header tensors kvs) \<le> 2000000"
  shows "read_metadata (enc_header tensors kvs @ rest) =
    Inr (metadata_finish (fold entry_spec kvs metadata_new))"
proof -
  have "reads read_metadata_from (enc_header tensors kvs)
      (metadata_finish (fold entry_spec kvs metadata_new))"
    using assms(1-3) by (intro reads_read_metadata) (simp_all add: max_keys_def)
  from reads_run [OF this, of rest] assms(4) show ?thesis
    by (auto simp: read_metadata_def small_def)
qed

text \<open>A header with a vocabulary between the architecture and the value it qualifies.\<close>

definition demo_entries :: "(string \<times> gval) list" where
  "demo_entries =
     [(''general.architecture'', GText ''llama''),
      (''tokenizer.ggml.tokens'', GTextArray [''a'', ''b'']),
      (''llama.context_length'', GFixed 4 [CHR 0x00, CHR 0x20, CHR 0x00, CHR 0x00])]"

lemma demo_entries_valid:
  "list_all valid_entry demo_entries" "length demo_entries \<le> 4096"
  "length (enc_header 0 demo_entries) \<le> 2000000"
  by (simp_all add: demo_entries_def valid_entry_def valid_text_def scalar_width.simps code_def
      max_key_bytes_def max_array_len_def enc_header_def enc_entry_def enc_text_def)

theorem metadata_roundtrip_witness:
  "\<exists>m. read_metadata (enc_header 0 demo_entries @ ''data'') = Inr m \<and> mm_context_length m = Some 8192"
proof -
  have "mm_context_length (metadata_finish (fold entry_spec demo_entries metadata_new)) = Some 8192"
    by (simp add: demo_entries_def entry_spec_def text_keys_def shown_def max_key_bytes_def
        metadata_new_def metadata_finish_def architecture_key_def ends_with_def strip_suffix_def
        code_def Let_def)
  with metadata_roundtrip [OF demo_entries_valid(1,2) _ demo_entries_valid(3), of "''data''"]
  show ?thesis by simp
qed

theorem metadata_scan_bounded_witness:
  "\<exists>m r. read_metadata_from (reader_new (enc_header 0 demo_entries)) = Inr (m, r) \<and>
     gr_pos r = gr_consumed r \<and> gr_consumed r \<le> 128 * 1024 * 1024"
proof -
  have "reads read_metadata_from (enc_header 0 demo_entries)
      (metadata_finish (fold entry_spec demo_entries metadata_new))"
    using demo_entries_valid by (intro reads_read_metadata) (simp_all add: max_keys_def)
  from reads_run [OF this, of "[]"] demo_entries_valid(3)
  obtain r where "read_metadata_from (reader_new (enc_header 0 demo_entries)) =
      Inr (metadata_finish (fold entry_spec demo_entries metadata_new), r)"
    by (auto simp: small_def)
  with metadata_scan_bounded [OF this] show ?thesis by blast
qed

end
