(* ===== verification/GgufScan.thy ===== *)
theory GgufScan
  imports GgufReader
begin

text \<open>
  The model scan of \<open>src-tauri/src/gguf.rs\<close>: hyperparameters, the tensor table and the tensor
  types, read in one bounded pass (\<open>scan_model\<close>, \<open>read_tensor_bytes\<close>).

  \<open>TensorBytes\<close> and its parts are records; the tensor table is the list of (offset, class, is the
  per-layer embedding) the code sorts and sizes. A deferred tensor-type error is \<open>gr_type_error\<close> of
  the reader. \<open>None\<close> of \<open>ts_types\<close> is the value the code calls \<open>expect\<close> on, so its panic is visible.
\<close>

section \<open>Per-layer values and tensor sizes\<close>

definition max_tensors :: nat where "max_tensors = 1048576"
definition max_tensor_name_bytes :: nat where "max_tensor_name_bytes = 256"
definition max_tensor_dims :: nat where "max_tensor_dims = 4"
definition max_model_layers :: nat where "max_model_layers = 4096"
definition default_alignment :: nat where "default_alignment = 32"

datatype per_layer = Uniform nat | Layers "nat list"

fun per_layer_at :: "nat \<Rightarrow> per_layer \<Rightarrow> nat option" where
  "per_layer_at il (Uniform v) = Some v"
| "per_layer_at il (Layers vs) = (if il < length vs then Some (vs ! il) else None)"

fun per_layer_max :: "per_layer \<Rightarrow> nat" where
  "per_layer_max (Uniform v) = v"
| "per_layer_max (Layers vs) = fold max vs 0"

record layer_bytes =
  lb_experts :: nat
  lb_dense_ffn :: nat
  lb_other :: nat

definition layer_none :: layer_bytes where
  "layer_none = \<lparr>lb_experts = 0, lb_dense_ffn = 0, lb_other = 0\<rparr>"

definition layer_total :: "layer_bytes \<Rightarrow> nat" where
  "layer_total l = saturating_add (saturating_add (lb_experts l) (lb_dense_ffn l)) (lb_other l)"

record tensor_bytes =
  tb_input :: nat
  tb_per_layer_token_embd :: nat
  tb_token_embd :: nat
  tb_output :: nat
  tb_layers :: "layer_bytes list"
  tb_has_output_weight :: bool
  tb_vocab :: "nat option"

definition tensor_bytes_none :: tensor_bytes where
  "tensor_bytes_none =
     \<lparr>tb_input = 0, tb_per_layer_token_embd = 0, tb_token_embd = 0, tb_output = 0, tb_layers = [],
      tb_has_output_weight = False, tb_vocab = None\<rparr>"

definition tensor_total :: "tensor_bytes \<Rightarrow> nat" where
  "tensor_total t =
     saturating_add
       (fold (\<lambda>layer sum. saturating_add sum (layer_total layer)) (tb_layers t)
         (saturating_add (tb_input t) (tb_token_embd t)))
       (tb_output t)"

definition resize :: "nat \<Rightarrow> 'a \<Rightarrow> 'a list \<Rightarrow> 'a list" where
  "resize n x xs = take n xs @ replicate (n - length xs) x"

definition layer_absorb :: "layer_bytes \<Rightarrow> layer_bytes \<Rightarrow> layer_bytes" where
  "layer_absorb mine theirs =
     \<lparr>lb_experts = saturating_add (lb_experts mine) (lb_experts theirs),
      lb_dense_ffn = saturating_add (lb_dense_ffn mine) (lb_dense_ffn theirs),
      lb_other = saturating_add (lb_other mine) (lb_other theirs)\<rparr>"

fun zip_absorb :: "layer_bytes list \<Rightarrow> layer_bytes list \<Rightarrow> layer_bytes list" where
  "zip_absorb (m # ms) (t # ts) = layer_absorb m t # zip_absorb ms ts"
| "zip_absorb ms _ = ms"

definition absorb :: "tensor_bytes \<Rightarrow> tensor_bytes \<Rightarrow> tensor_bytes" where
  "absorb mine other =
     \<lparr>tb_input = saturating_add (tb_input mine) (tb_input other),
      tb_per_layer_token_embd =
        saturating_add (tb_per_layer_token_embd mine) (tb_per_layer_token_embd other),
      tb_token_embd = saturating_add (tb_token_embd mine) (tb_token_embd other),
      tb_output = saturating_add (tb_output mine) (tb_output other),
      tb_layers =
        zip_absorb
          (if length (tb_layers mine) < length (tb_layers other)
           then resize (length (tb_layers other)) layer_none (tb_layers mine) else tb_layers mine)
          (tb_layers other),
      tb_has_output_weight = (tb_has_output_weight mine \<or> tb_has_output_weight other),
      tb_vocab = (case tb_vocab mine of None \<Rightarrow> tb_vocab other | Some v \<Rightarrow> Some v)\<rparr>"

section \<open>Integers and raw values\<close>

definition read_integer_with_budget :: "bool \<Rightarrow> nat \<Rightarrow> nat option rd" where
  "read_integer_with_budget use kind =
     (if kind = 0 then rbind (rbytes 1) (\<lambda>bs. rret (Some (le_value bs)))
      else if kind = 1 then rbind (rbytes 1) (\<lambda>bs. rret (non_negative bs))
      else if kind = 2 then rbind (rbytes 2) (\<lambda>bs. rret (Some (le_value bs)))
      else if kind = 3 then rbind (rbytes 2) (\<lambda>bs. rret (non_negative bs))
      else if kind = 4 then rbind ru32 (\<lambda>v. rret (Some v))
      else if kind = 5 then rbind (rbytes 4) (\<lambda>bs. rret (non_negative bs))
      else if kind = 7 then rbind (rbytes 1) (\<lambda>bs. rret (Some (if le_value bs \<noteq> 0 then 1 else 0)))
      else if kind = 10 then rbind ru64 (\<lambda>v. rret (Some v))
      else if kind = 11 then rbind (rbytes 8) (\<lambda>bs. rret (non_negative bs))
      else rthen (skip_value_with_budget use kind) (rret None))"

definition read_integer :: "nat \<Rightarrow> nat option rd" where
  "read_integer kind = read_integer_with_budget False kind"

datatype raw_value = RawInt nat | RawInts "nat list"

fun collect_some :: "'a option list \<Rightarrow> 'a list option" where
  "collect_some [] = Some []"
| "collect_some (None # xs) = None"
| "collect_some (Some x # xs) = map_option ((#) x) (collect_some xs)"

definition integer_kind :: "nat \<Rightarrow> bool" where
  "integer_kind element \<longleftrightarrow> element \<le> 5 \<or> element = 7 \<or> element = 10 \<or> element = 11"

definition read_raw_with_budget :: "bool \<Rightarrow> nat \<Rightarrow> raw_value option rd" where
  "read_raw_with_budget use kind =
     (if kind \<noteq> 9 then
        rbind (read_integer_with_budget use kind) (\<lambda>v. rret (map_option RawInt v))
      else rbind ru32 (\<lambda>element. rbind ru64 (\<lambda>count.
        if \<not> integer_kind element \<or> count > max_model_layers then
          rthen (skip_array_body use element count) (rret None)
        else rbind (rloop count (\<lambda>vs. rbind (read_integer element) (\<lambda>v. rret (vs @ [v]))) [])
          (\<lambda>vs. rret (map_option RawInts (collect_some vs))))))"

section \<open>The tensor table\<close>

datatype layer_part = Experts | DenseFfn | Other

datatype tensor_class = ClassInput | ClassTokenEmbd | ClassOutput | ClassLayer nat layer_part

definition expert_parts :: "string list" where
  "expert_parts =
     [''.ffn_up_exps'', ''.ffn_down_exps'', ''.ffn_gate_exps'', ''.ffn_gate_up_exps'',
      ''.ffn_up_chexps'', ''.ffn_down_chexps'', ''.ffn_gate_chexps'', ''.ffn_gate_up_chexps'']"

definition dense_parts :: "string list" where
  "dense_parts = [''.ffn_up.'', ''.ffn_down.'', ''.ffn_gate.'']"

definition input_bases :: "string list" where
  "input_bases =
     [''token_embd'', ''position_embd'', ''token_types'', ''per_layer_token_embd'',
      ''masked_embd_centroids'', ''masked_embd_ordering'']"

definition layer_part_of :: "string \<Rightarrow> layer_part" where
  "layer_part_of following =
     (if list_ex (\<lambda>p. starts_with p following) expert_parts then Experts
      else if list_ex (\<lambda>p. starts_with p following) dense_parts then DenseFfn
      else Other)"

text \<open>The layer number and what follows it; \<open>None\<close> falls through to the non-repeating tensors.\<close>

definition layer_of :: "string \<Rightarrow> tensor_class option" where
  "layer_of name =
     (case strip_prefix ''blk.'' name of
        None \<Rightarrow> None
      | Some rest \<Rightarrow>
          let digits = takeWhile (\<lambda>c. c \<noteq> CHR ''.'') rest in
          (case parse_unsigned (2 ^ 64) digits of
             None \<Rightarrow> None
           | Some il \<Rightarrow>
               if il < max_model_layers then
                 Some (ClassLayer il (layer_part_of (drop (length digits) rest)))
               else None))"

definition classify_tensor :: "string \<Rightarrow> tensor_class" where
  "classify_tensor name =
     (case layer_of name of
        Some c \<Rightarrow> c
      | None \<Rightarrow>
          if name = ''token_embd.weight'' then ClassTokenEmbd
          else if takeWhile (\<lambda>c. c \<noteq> CHR ''.'') name \<in> set input_bases
                  \<or> starts_with ''hrm.z_l_init'' name
          then ClassInput else ClassOutput)"

record tensor_table =
  tt_has_output_weight :: bool
  tt_vocab :: "nat option"
  tt_entries :: "(nat \<times> tensor_class \<times> bool) list"
  tt_types :: "(string \<times> nat) list option"

record tensor_scan =
  ts_bytes :: "tensor_bytes option"
  ts_types :: "(string + (string \<times> nat) list) option"

definition get_type_error :: "string option rd" where
  "get_type_error = (\<lambda>r. Inr (gr_type_error r, r))"

definition set_type_error :: "string option \<Rightarrow> unit rd" where
  "set_type_error e = (\<lambda>r. Inr ((), r\<lparr>gr_type_error := e\<rparr>))"

text \<open>The dimensions: at most four; the missing ones are 1.\<close>

definition read_shape :: "nat \<Rightarrow> nat list rd" where
  "read_shape dims = rloop dims (\<lambda>ds. rbind ru64 (\<lambda>d. rret (ds @ [d]))) []"

definition shape_error :: "string \<Rightarrow> nat \<Rightarrow> nat list \<Rightarrow> string option" where
  "shape_error name dims shape =
     (if name = [] \<or> length name > max_tensor_name_bytes then
        Some ''GGUF tensor name is empty or implausibly long''
      else if dims = 0 then Some ''GGUF tensor declares invalid dimensions''
      else if 0 \<in> set shape then Some ''GGUF tensor declares an empty dimension''
      else None)"

definition note_tensor ::
  "string \<Rightarrow> nat \<Rightarrow> nat list \<Rightarrow> nat \<Rightarrow> nat \<Rightarrow> string option \<Rightarrow> tensor_table \<Rightarrow>
   string option \<times> tensor_table" where
  "note_tensor name dims shape kind offset err t =
     (let t = (if err \<noteq> None then t\<lparr>tt_types := None\<rparr> else t);
          err = (if tt_types t \<noteq> None \<and> err = None then shape_error name dims shape else err);
          t = (if err \<noteq> None then t\<lparr>tt_types := None\<rparr> else t);
          t = (if name = ''output.weight'' then t\<lparr>tt_has_output_weight := True\<rparr> else t);
          t = (if (name = ''token_embd.weight'' \<or> name = ''output.weight'') \<and> dims \<ge> 2 \<and> tt_vocab t = None
               then t\<lparr>tt_vocab := Some (shape ! 1)\<rparr> else t);
          t = t\<lparr>tt_entries := tt_entries t
                 @ [(offset, classify_tensor name, name = ''per_layer_token_embd.weight'')]\<rparr>;
          t = (case tt_types t of
                 Some types \<Rightarrow>
                   if err = None then t\<lparr>tt_types := Some (types @ [(name, kind)])\<rparr> else t
               | None \<Rightarrow> t)
      in (err, t))"

definition note_info ::
  "string \<Rightarrow> nat \<Rightarrow> nat list \<Rightarrow> nat \<Rightarrow> nat \<Rightarrow> tensor_table \<Rightarrow> tensor_table rd" where
  "note_info name dims shape kind offset t =
     rbind get_type_error (\<lambda>err.
       let (err, t) = note_tensor name dims shape kind offset err t
       in rthen (set_type_error err) (rret t))"

definition read_tensor_info :: "bool \<Rightarrow> tensor_table \<Rightarrow> tensor_table rd" where
  "read_tensor_info use t =
     rbind ru64 (\<lambda>n.
      if n > max_tensor_name_bytes then rfail ''GGUF tensor name is implausibly long''
      else rthen (account n)
      (rbind (read_exact n) (\<lambda>bs.
       rthen (charge use (account_entries 1))
       (rthen (if n \<le> max_key_bytes then charge use (account_payload n) else rret ())
       (rbind ru32 (\<lambda>dims.
        if dims > max_tensor_dims then rfail ''GGUF tensor declares too many dimensions''
        else rbind (read_shape dims) (\<lambda>shape.
        rbind ru32 (\<lambda>kind. rbind ru64 (\<lambda>offset.
          note_info (from_utf8_lossy bs) dims shape kind offset t)))))))))"

definition add_tensor :: "tensor_class \<Rightarrow> nat \<Rightarrow> tensor_bytes \<Rightarrow> tensor_bytes" where
  "add_tensor c n s =
     (case c of
        ClassInput \<Rightarrow> s\<lparr>tb_input := saturating_add (tb_input s) n\<rparr>
      | ClassTokenEmbd \<Rightarrow> s\<lparr>tb_token_embd := saturating_add (tb_token_embd s) n\<rparr>
      | ClassOutput \<Rightarrow> s\<lparr>tb_output := saturating_add (tb_output s) n\<rparr>
      | ClassLayer il part \<Rightarrow>
          let layers = (if length (tb_layers s) \<le> il then resize (il + 1) layer_none (tb_layers s)
                        else tb_layers s);
              layer = layers ! il;
              layer = (case part of
                  Experts \<Rightarrow> layer\<lparr>lb_experts := saturating_add (lb_experts layer) n\<rparr>
                | DenseFfn \<Rightarrow> layer\<lparr>lb_dense_ffn := saturating_add (lb_dense_ffn layer) n\<rparr>
                | Other \<Rightarrow> layer\<lparr>lb_other := saturating_add (lb_other layer) n\<rparr>)
          in s\<lparr>tb_layers := layers[il := layer]\<rparr>)"

text \<open>Sizes from the gaps between offsets; \<open>None\<close> when the offsets do not describe the file.\<close>

fun size_tensors ::
  "nat \<Rightarrow> (nat \<times> tensor_class \<times> bool) list \<Rightarrow> tensor_bytes \<Rightarrow> tensor_bytes option" where
  "size_tensors data_len [] s = Some s"
| "size_tensors data_len ((offset, c, per_layer) # rest) s =
     (let stop = (case rest of [] \<Rightarrow> data_len | (next, _, _) # _ \<Rightarrow> next) in
      if offset \<ge> data_len \<or> stop \<le> offset then None
      else
        let n = stop - offset;
            s = (if per_layer
                 then s\<lparr>tb_per_layer_token_embd := saturating_add (tb_per_layer_token_embd s) n\<rparr>
                 else s)
        in size_tensors data_len rest (add_tensor c n s))"

definition bad_offsets_message :: string where
  "bad_offsets_message = ''GGUF tensor table extends beyond the file or has invalid offsets''"

definition div_ceil :: "nat \<Rightarrow> nat \<Rightarrow> nat" where
  "div_ceil a b = (a + b - 1) div b"

text \<open>
  The sizes of a table that was read up to \<open>consumed\<close>. The inner \<open>None\<close> of the type result is the
  panic of \<open>expect\<close>.
\<close>

definition finish_tensors ::
  "bool \<Rightarrow> nat \<Rightarrow> nat \<Rightarrow> tensor_table \<Rightarrow> string option \<Rightarrow> nat \<Rightarrow> string + tensor_scan option" where
  "finish_tensors want alignment file_len t err consumed =
     (case checked_mul (div_ceil consumed alignment) alignment of
        None \<Rightarrow> Inl ''GGUF header declares an implausible data offset''
      | Some data_start \<Rightarrow>
          (case checked_sub file_len data_start of
             None \<Rightarrow>
               Inr (Some \<lparr>ts_bytes = None,
                          ts_types = (if want then Some (Inl bad_offsets_message) else None)\<rparr>)
           | Some data_len \<Rightarrow>
               let summary = tensor_bytes_none
                     \<lparr>tb_has_output_weight := tt_has_output_weight t, tb_vocab := tt_vocab t\<rparr>
               in (case size_tensors data_len (sort_key fst (tt_entries t)) summary of
                     None \<Rightarrow>
                       Inr (Some \<lparr>ts_bytes = None,
                                  ts_types = (if want then Some (Inl bad_offsets_message) else None)\<rparr>)
                   | Some bytes \<Rightarrow>
                       if \<not> want then Inr (Some \<lparr>ts_bytes = Some bytes, ts_types = None\<rparr>)
                       else (case err of
                           Some e \<Rightarrow> Inr (Some \<lparr>ts_bytes = Some bytes, ts_types = Some (Inl e)\<rparr>)
                         | None \<Rightarrow>
                             Inr (map_option
                               (\<lambda>types. \<lparr>ts_bytes = Some bytes, ts_types = Some (Inr types)\<rparr>)
                               (tt_types t))))))"

definition start_table :: "bool \<Rightarrow> nat \<Rightarrow> string option \<Rightarrow> string option \<times> tensor_table" where
  "start_table want count err =
     (let types = (if want \<and> err = None then Some [] else None);
          empty = (want \<and> count = 0);
          err = (if empty \<and> err = None then Some ''GGUF has an empty or implausible tensor table''
                 else err)
      in (err, \<lparr>tt_has_output_weight = False, tt_vocab = None, tt_entries = [],
                tt_types = (if empty then None else types)\<rparr>))"

definition get_consumed :: "nat rd" where
  "get_consumed = (\<lambda>r. Inr (gr_consumed r, r))"

definition lift_rd :: "string + 'a \<Rightarrow> 'a rd" where
  "lift_rd x = (case x of Inl e \<Rightarrow> rfail e | Inr v \<Rightarrow> rret v)"

definition read_tensor_bytes :: "nat \<Rightarrow> nat \<Rightarrow> nat \<Rightarrow> bool \<Rightarrow> tensor_scan option rd" where
  "read_tensor_bytes count alignment file_len want =
     rbind get_type_error (\<lambda>err.
      let (err, t) = start_table want count err in
      rthen (set_type_error err)
      (rbind (rloop count (read_tensor_info want) t) (\<lambda>t.
       rbind get_type_error (\<lambda>err. rbind get_consumed (\<lambda>consumed.
        lift_rd (finish_tensors want alignment file_len t err consumed))))))"

section \<open>The model scan\<close>

definition fact_suffixes :: "string list" where
  "fact_suffixes =
     [''block_count'', ''nextn_predict_layers'', ''context_length'', ''embedding_length'',
      ''vocab_size'', ''feed_forward_length'', ''expert_feed_forward_length'',
      ''expert_shared_feed_forward_length'', ''expert_used_count'', ''attention.head_count'',
      ''attention.head_count_kv'', ''attention.key_length'', ''attention.value_length'',
      ''attention.sliding_window'', ''attention.kv_lora_rank'', ''attention.recurrent_layers'',
      ''full_attention_interval'', ''ssm.conv_kernel'', ''ssm.inner_size'', ''ssm.state_size'',
      ''ssm.group_count'', ''attention.indexer.key_length'', ''hyper_connection.count'',
      ''ple.layers'', ''ple.conv_kernel'', ''ple.ngram_size'']"

definition recurrent_keys :: "string list" where
  "recurrent_keys = [''ssm.'', ''wkv.'', ''shortconv.'', ''time_mix_extra_dim'', ''time_decay_extra_dim'']"

record model_facts =
  mf_architecture :: "string option"
  mf_block_count :: "nat option"
  mf_nextn_layers :: "nat option"
  mf_context_length :: "nat option"
  mf_embedding_length :: "nat option"
  mf_vocab_size :: "nat option"
  mf_feed_forward_length :: "per_layer option"
  mf_expert_feed_forward_length :: "per_layer option"
  mf_expert_shared_feed_forward_length :: "nat option"
  mf_expert_used_count :: "per_layer option"
  mf_head_count :: "per_layer option"
  mf_head_count_kv :: "per_layer option"
  mf_key_length :: "nat option"
  mf_value_length :: "nat option"
  mf_sliding_window :: "nat option"
  mf_kv_lora_rank :: "nat option"
  mf_recurrent_state :: bool
  mf_recurrent_layers :: "per_layer option"
  mf_full_attention_interval :: "nat option"
  mf_ssm_conv_kernel :: "nat option"
  mf_ssm_inner_size :: "nat option"
  mf_ssm_state_size :: "nat option"
  mf_ssm_group_count :: "nat option"
  mf_indexer_key_length :: "nat option"
  mf_hyper_connections :: "nat option"
  mf_ple_layers :: "nat list"
  mf_ple_conv_kernel :: "nat option"
  mf_ple_ngram_size :: "nat option"
  mf_split_count :: "nat option"
  mf_tensors :: "tensor_bytes option"

text \<open>What the key loop collects.\<close>

record scan_keys =
  sk_architecture :: "string option"
  sk_alignment :: nat
  sk_split_count :: "nat option"
  sk_values :: "(string \<times> raw_value) list"
  sk_recurrent_prefixes :: "string list"

definition scan_keys_new :: scan_keys where
  "scan_keys_new =
     \<lparr>sk_architecture = None, sk_alignment = default_alignment, sk_split_count = None,
      sk_values = [], sk_recurrent_prefixes = []\<rparr>"

definition scan_entry :: "bool \<Rightarrow> string \<Rightarrow> nat \<Rightarrow> scan_keys \<Rightarrow> scan_keys rd" where
  "scan_entry use key kind k =
     (if key = ''general.architecture'' \<and> kind = 8 then
        rbind rstring (\<lambda>v. rret (k\<lparr>sk_architecture := Some v\<rparr>))
      else if key = ''general.alignment'' then
        rbind (read_integer_with_budget use kind) (\<lambda>v. rret (case v of
            None \<Rightarrow> k | Some a \<Rightarrow> k\<lparr>sk_alignment := a\<rparr>))
      else if key = ''split.count'' then
        rbind (read_integer_with_budget use kind) (\<lambda>v. rret (k\<lparr>sk_split_count := v\<rparr>))
      else
        let (pre, rest) = (case split_once CHR ''.'' key of
                None \<Rightarrow> (key, []) | Some (a, b) \<Rightarrow> (a, b));
            k = (if list_ex (\<lambda>m. starts_with m rest) recurrent_keys
                 then k\<lparr>sk_recurrent_prefixes := pre # sk_recurrent_prefixes k\<rparr> else k)
        in if rest \<in> set fact_suffixes then
             rbind (read_raw_with_budget use kind) (\<lambda>v. rret (case v of
                 None \<Rightarrow> k | Some x \<Rightarrow> k\<lparr>sk_values := (key, x) # sk_values k\<rparr>))
           else rthen (skip_value_with_budget use kind) (rret k))"

definition is_power_of_two :: "nat \<Rightarrow> bool" where
  "is_power_of_two n \<longleftrightarrow> list_ex (\<lambda>i. n = 2 ^ i) [0..<64]"

definition raw_int :: "raw_value option \<Rightarrow> nat option" where
  "raw_int v = (case v of Some (RawInt n) \<Rightarrow> Some n | _ \<Rightarrow> None)"

definition raw_per_layer :: "raw_value option \<Rightarrow> per_layer option" where
  "raw_per_layer v =
     (case v of Some (RawInt n) \<Rightarrow> Some (Uniform n) | Some (RawInts ns) \<Rightarrow> Some (Layers ns)
      | None \<Rightarrow> None)"

text \<open>
  The values are looked up under the architecture; a value moved out of the map is not looked up
  again, so reading it is the same.
\<close>

definition facts_of :: "scan_keys \<Rightarrow> tensor_bytes option \<Rightarrow> model_facts" where
  "facts_of k tensors =
     (let value = (\<lambda>suffix. case sk_architecture k of
              None \<Rightarrow> None
            | Some arch \<Rightarrow> map_of (sk_values k) (arch @ ''.'' @ suffix));
          int_value = (\<lambda>suffix. raw_int (value suffix));
          per_layer = (\<lambda>suffix. raw_per_layer (value suffix))
      in \<lparr>mf_architecture = sk_architecture k,
          mf_block_count = int_value ''block_count'',
          mf_nextn_layers = int_value ''nextn_predict_layers'',
          mf_context_length = int_value ''context_length'',
          mf_embedding_length = int_value ''embedding_length'',
          mf_vocab_size = int_value ''vocab_size'',
          mf_feed_forward_length = per_layer ''feed_forward_length'',
          mf_expert_feed_forward_length = per_layer ''expert_feed_forward_length'',
          mf_expert_shared_feed_forward_length = int_value ''expert_shared_feed_forward_length'',
          mf_expert_used_count = per_layer ''expert_used_count'',
          mf_head_count = per_layer ''attention.head_count'',
          mf_head_count_kv = per_layer ''attention.head_count_kv'',
          mf_key_length = int_value ''attention.key_length'',
          mf_value_length = int_value ''attention.value_length'',
          mf_sliding_window = int_value ''attention.sliding_window'',
          mf_kv_lora_rank = int_value ''attention.kv_lora_rank'',
          mf_recurrent_state = (case sk_architecture k of
              None \<Rightarrow> False | Some arch \<Rightarrow> arch \<in> set (sk_recurrent_prefixes k)),
          mf_recurrent_layers = per_layer ''attention.recurrent_layers'',
          mf_full_attention_interval = int_value ''full_attention_interval'',
          mf_ssm_conv_kernel = int_value ''ssm.conv_kernel'',
          mf_ssm_inner_size = int_value ''ssm.inner_size'',
          mf_ssm_state_size = int_value ''ssm.state_size'',
          mf_ssm_group_count = int_value ''ssm.group_count'',
          mf_indexer_key_length = int_value ''attention.indexer.key_length'',
          mf_hyper_connections = int_value ''hyper_connection.count'',
          mf_ple_layers = (case value ''ple.layers'' of Some (RawInts ns) \<Rightarrow> ns | _ \<Rightarrow> []),
          mf_ple_conv_kernel = int_value ''ple.conv_kernel'',
          mf_ple_ngram_size = int_value ''ple.ngram_size'',
          mf_split_count = sk_split_count k,
          mf_tensors = tensors\<rparr>)"

definition give_budget :: "bool \<Rightarrow> unit rd" where
  "give_budget want = (\<lambda>r. Inr ((), r\<lparr>gr_budget :=
     (if want then Some \<lparr>sb_strings = 0, sb_entries = 0\<rparr> else None)\<rparr>))"

definition scan_model_from ::
  "bool \<Rightarrow> nat \<Rightarrow> (model_facts \<times> (string + (string \<times> nat) list) option) option rd" where
  "scan_model_from want file_len =
     rbind read_header (\<lambda>(tensors, keys).
      if tensors > max_tensors then rfail ''GGUF header declares an implausible tensor count''
      else rthen (give_budget want)
      (rbind (rloop keys (\<lambda>k. rbind (string_with_budget want) (\<lambda>key.
                rbind ru32 (\<lambda>kind. scan_entry want key kind k))) scan_keys_new) (\<lambda>k.
       if \<not> is_power_of_two (sk_alignment k) then
         rfail ''GGUF header declares an invalid alignment''
       else rbind (read_tensor_bytes tensors (sk_alignment k) file_len want) (\<lambda>scan.
         rret (map_option (\<lambda>scan. (facts_of k (ts_bytes scan), ts_types scan)) scan)))))"

text \<open>\<open>None\<close> is a panic (\<open>expect\<close>, \<open>unreachable!\<close>) of the code.\<close>

definition read_model_facts :: "bytes \<Rightarrow> (string + model_facts) option" where
  "read_model_facts file =
     (case scan_model_from False (length file) (reader_new file) of
        Inl e \<Rightarrow> Some (Inl e)
      | Inr (None, _) \<Rightarrow> None
      | Inr (Some (facts, _), _) \<Rightarrow> Some (Inr facts))"

definition read_model_facts_and_tensor_types ::
  "bytes \<Rightarrow> (string + (model_facts \<times> (string + (string \<times> nat) list))) option" where
  "read_model_facts_and_tensor_types file =
     (case scan_model_from True (length file) (reader_new file) of
        Inl e \<Rightarrow> Some (Inl e)
      | Inr (None, _) \<Rightarrow> None
      | Inr (Some (facts, None), _) \<Rightarrow> None
      | Inr (Some (facts, Some types), _) \<Rightarrow> Some (Inr (facts, types)))"

definition read_tensor_types :: "bytes \<Rightarrow> (string + (string \<times> nat) list) option" where
  "read_tensor_types file =
     (case read_model_facts_and_tensor_types file of
        None \<Rightarrow> None
      | Some (Inl e) \<Rightarrow> Some (Inl e)
      | Some (Inr (facts, types)) \<Rightarrow>
          Some (if mf_tensors facts = None then Inl bad_offsets_message else types))"

section \<open>The scan stays inside the budgets\<close>

lemma keeps_get_type_error [keeps_rules]: "keeps get_type_error"
  by (simp add: keeps_def get_type_error_def)

lemma keeps_get_consumed [keeps_rules]: "keeps get_consumed"
  by (simp add: keeps_def get_consumed_def)

lemma keeps_set_type_error [keeps_rules]: "keeps (set_type_error e)"
  by (auto simp: keeps_def set_type_error_def reader_ok_def)

lemma keeps_give_budget [keeps_rules]: "keeps (give_budget c)"
  by (auto simp: keeps_def give_budget_def reader_ok_def within_budget_def)

lemma keeps_lift_rd [keeps_rules]: "keeps (lift_rd x)"
  by (auto simp: lift_rd_def intro: keeps_rules split: sum.split)

lemma keeps_read_integer [keeps_rules]:
  "keeps (read_integer_with_budget use kind)" "keeps (read_integer kind)"
  unfolding read_integer_def read_integer_with_budget_def by (intro keeps_rules)+

lemma keeps_read_raw [keeps_rules]: "keeps (read_raw_with_budget use kind)"
  unfolding read_raw_with_budget_def by (intro keeps_rules)

lemma keeps_read_shape [keeps_rules]: "keeps (read_shape dims)"
  unfolding read_shape_def by (intro keeps_rules)

lemma keeps_note_info [keeps_rules]: "keeps (note_info name dims shape kind offset t)"
  unfolding note_info_def Let_def by (intro keeps_rules)

lemma keeps_read_tensor_info [keeps_rules]: "keeps (read_tensor_info use t)"
  unfolding read_tensor_info_def Let_def by (intro keeps_rules keeps_account_read_then)

lemma keeps_read_tensor_bytes [keeps_rules]: "keeps (read_tensor_bytes count alignment len want)"
  unfolding read_tensor_bytes_def Let_def by (intro keeps_rules)

lemma keeps_scan_entry [keeps_rules]: "keeps (scan_entry use key kind k)"
  unfolding scan_entry_def Let_def by (intro keeps_rules)

lemma keeps_scan_model: "keeps (scan_model_from want len)"
  unfolding scan_model_from_def by (intro keeps_rules)

section \<open>Tensor types are there when no error was deferred\<close>

definition types_ready :: "bool \<Rightarrow> string option \<Rightarrow> tensor_table \<Rightarrow> bool" where
  "types_ready want err t \<longleftrightarrow> (want \<and> err = None \<longrightarrow> tt_types t \<noteq> None)"

lemma note_tensor_ready:
  assumes "types_ready want err0 t" and "err0 = None \<or> err \<noteq> None"
    and "note_tensor name dims shape kind offset err t = (err', t')"
  shows "types_ready want err' t'"
  using assms
  by (auto simp: note_tensor_def types_ready_def Let_def split: if_splits option.splits)

lemma start_table_ready:
  "start_table want count err = (err', t) \<Longrightarrow> types_ready want err' t"
  by (auto simp: start_table_def types_ready_def Let_def split: if_splits)

text \<open>A deferred error is never forgotten.\<close>

definition error_grows :: "'a rd \<Rightarrow> bool" where
  "error_grows m \<longleftrightarrow> (\<forall>r x r'. m r = Inr (x, r') \<longrightarrow> gr_type_error r \<noteq> None \<longrightarrow> gr_type_error r' \<noteq> None)"

named_theorems sticky_rules \<open>operations that never forget a deferred error\<close>

lemma sticky_rbind [sticky_rules]:
  assumes "error_grows m" and "\<And>x. error_grows (f x)"
  shows "error_grows (rbind m f)"
  using assms unfolding error_grows_def rbind_def by (fastforce split: sum.splits)

lemma sticky_rthen [sticky_rules]: "error_grows m \<Longrightarrow> error_grows k \<Longrightarrow> error_grows (rthen m k)"
  by (simp add: rthen_def sticky_rbind)

lemma sticky_basic [sticky_rules]:
  "error_grows (rret x)" "error_grows (rfail e)" "error_grows (account_strings n)"
  "error_grows (account n)" "error_grows (read_exact n)" "error_grows (seek_relative n)"
  "error_grows (account_string_data n)" "error_grows get_type_error" "error_grows get_consumed"
  "error_grows (charge use f)"
  unfolding error_grows_def rret_def rfail_def account_strings_def account_def read_exact_def
    seek_relative_def account_string_data_def get_type_error_def get_consumed_def charge_def
    remember_error_def
  by (auto split: option.splits if_splits sum.splits)

lemma sticky_if [sticky_rules]:
  "(c \<Longrightarrow> error_grows m) \<Longrightarrow> (\<not> c \<Longrightarrow> error_grows k) \<Longrightarrow> error_grows (if c then m else k)"
  by simp

lemma sticky_rloop [sticky_rules]: "(\<And>s. error_grows (f s)) \<Longrightarrow> error_grows (rloop n f s)"
  by (induction n arbitrary: s) (auto intro: sticky_rules)

lemma sticky_reads [sticky_rules]: "error_grows (rbytes n)" "error_grows ru32" "error_grows ru64"
  "error_grows (read_shape dims)"
  unfolding rbytes_def ru32_def ru64_def read_shape_def by (intro sticky_rules)+

text \<open>The table keeps its types, as long as no error is deferred, through an operation.\<close>

definition stays_ready :: "bool \<Rightarrow> tensor_table \<Rightarrow> tensor_table rd \<Rightarrow> bool" where
  "stays_ready want t m \<longleftrightarrow> (\<forall>r t' r'. types_ready want (gr_type_error r) t \<longrightarrow>
     m r = Inr (t', r') \<longrightarrow> types_ready want (gr_type_error r') t')"

lemma stays_ready_bind:
  assumes "error_grows m" and "\<And>x. stays_ready want t (f x)"
  shows "stays_ready want t (rbind m f)"
  unfolding stays_ready_def
proof (intro allI impI)
  fix r t' r'
  assume ready: "types_ready want (gr_type_error r) t" and run: "rbind m f r = Inr (t', r')"
  then obtain x r1 where 1: "m r = Inr (x, r1)" "f x r1 = Inr (t', r')"
    by (auto simp: rbind_Inr_iff)
  have "gr_type_error r \<noteq> None \<Longrightarrow> gr_type_error r1 \<noteq> None"
    using assms(1) 1(1) unfolding error_grows_def by blast
  with ready have "types_ready want (gr_type_error r1) t"
    by (auto simp: types_ready_def)
  with assms(2) 1(2) show "types_ready want (gr_type_error r') t'"
    unfolding stays_ready_def by blast
qed

lemma stays_ready_then: "error_grows m \<Longrightarrow> stays_ready want t k \<Longrightarrow> stays_ready want t (rthen m k)"
  by (simp add: rthen_def stays_ready_bind)

lemma stays_ready_fail: "stays_ready want t (rfail e)"
  by (simp add: stays_ready_def rfail_def)

lemma stays_ready_if:
  "(c \<Longrightarrow> stays_ready want t m) \<Longrightarrow> (\<not> c \<Longrightarrow> stays_ready want t k) \<Longrightarrow>
     stays_ready want t (if c then m else k)"
  by simp

lemma stays_ready_note: "stays_ready want t (note_info name dims shape kind offset t)"
  unfolding stays_ready_def
proof (intro allI impI)
  fix r t' r'
  assume "types_ready want (gr_type_error r) t"
    and "note_info name dims shape kind offset t r = Inr (t', r')"
  then show "types_ready want (gr_type_error r') t'"
    using note_tensor_ready [of want "gr_type_error r" t "gr_type_error r" name dims shape kind offset]
    by (cases "note_tensor name dims shape kind offset (gr_type_error r) t"; cases "gr_type_error r")
       (auto simp: note_info_def rbind_def rthen_def get_type_error_def set_type_error_def rret_def)
qed

lemma stays_ready_info: "stays_ready want t (read_tensor_info use t)"
  unfolding read_tensor_info_def
  by (intro stays_ready_bind stays_ready_then stays_ready_note stays_ready_if stays_ready_fail
      sticky_rules)

lemma stays_ready_loop:
  "types_ready want (gr_type_error r) t \<Longrightarrow> rloop n (read_tensor_info use) t r = Inr (t', r') \<Longrightarrow>
     types_ready want (gr_type_error r') t'"
proof (induction n arbitrary: t r)
  case 0
  then show ?case by (simp add: rret_def)
next
  case (Suc n)
  then obtain t1 r1 where 1: "read_tensor_info use t r = Inr (t1, r1)"
      "rloop n (read_tensor_info use) t1 r1 = Inr (t', r')"
    by (auto simp: rbind_def split: sum.splits)
  from stays_ready_info Suc.prems(1) 1(1) have "types_ready want (gr_type_error r1) t1"
    unfolding stays_ready_def by blast
  from Suc.IH [OF this 1(2)] show ?case .
qed

lemma finish_tensors_ready:
  assumes "types_ready want err t" and "finish_tensors want alignment len t err consumed = Inr x"
  shows "\<exists>scan. x = Some scan \<and> (want \<longrightarrow> ts_types scan \<noteq> None)"
  using assms
  by (auto simp: finish_tensors_def types_ready_def Let_def split: option.splits if_splits)

lemma read_tensor_bytes_ready:
  assumes "read_tensor_bytes count alignment len want r = Inr (x, r')"
  shows "\<exists>scan. x = Some scan \<and> (want \<longrightarrow> ts_types scan \<noteq> None)"
proof -
  obtain err t where start: "start_table want count (gr_type_error r) = (err, t)" by fastforce
  let ?r = "r\<lparr>gr_type_error := err\<rparr>"
  have "rbind (rloop count (read_tensor_info want) t) (\<lambda>t. rbind get_type_error (\<lambda>err.
      rbind get_consumed (\<lambda>consumed. lift_rd (finish_tensors want alignment len t err consumed)))) ?r =
    Inr (x, r')"
    using assms start
    by (simp add: read_tensor_bytes_def rbind_Inr_iff get_type_error_def set_type_error_def rthen_def)
  then obtain t1 r1 where loop: "rloop count (read_tensor_info want) t ?r = Inr (t1, r1)"
    and "lift_rd (finish_tensors want alignment len t1 (gr_type_error r1) (gr_consumed r1)) r1 =
      Inr (x, r')"
    by (auto simp: rbind_Inr_iff get_type_error_def get_consumed_def)
  then have fin: "finish_tensors want alignment len t1 (gr_type_error r1) (gr_consumed r1) = Inr x"
    by (auto simp: lift_rd_def rfail_def rret_def split: sum.splits)
  have "types_ready want (gr_type_error r1) t1"
    using stays_ready_loop [OF _ loop] start_table_ready [OF start] by simp
  from finish_tensors_ready [OF this fin] show ?thesis .
qed

lemma scan_model_ready:
  assumes "scan_model_from want len r = Inr (x, r')"
  shows "\<exists>facts types. x = Some (facts, types) \<and> (want \<longrightarrow> types \<noteq> None)"
proof -
  from assms [unfolded scan_model_from_def] obtain tensors keys r0 where
    "(if tensors > max_tensors then rfail ''GGUF header declares an implausible tensor count''
      else rthen (give_budget want)
      (rbind (rloop keys (\<lambda>k. rbind (string_with_budget want) (\<lambda>key.
                rbind ru32 (\<lambda>kind. scan_entry want key kind k))) scan_keys_new) (\<lambda>k.
       if \<not> is_power_of_two (sk_alignment k) then
         rfail ''GGUF header declares an invalid alignment''
       else rbind (read_tensor_bytes tensors (sk_alignment k) len want) (\<lambda>scan.
         rret (map_option (\<lambda>scan. (facts_of k (ts_bytes scan), ts_types scan)) scan))))) r0 =
     Inr (x, r')"
    by (auto simp only: rbind_Inr_iff prod.case)
  then obtain k r1 where "(if \<not> is_power_of_two (sk_alignment k) then
         rfail ''GGUF header declares an invalid alignment''
       else rbind (read_tensor_bytes tensors (sk_alignment k) len want) (\<lambda>scan.
         rret (map_option (\<lambda>scan. (facts_of k (ts_bytes scan), ts_types scan)) scan))) r1 =
     Inr (x, r')"
    by (cases "tensors > max_tensors") (auto simp only: rthen_def rbind_Inr_iff rfail_def if_True if_False sum.distinct)
  then obtain y r2 where "read_tensor_bytes tensors (sk_alignment k) len want r1 = Inr (y, r2)"
    "x = map_option (\<lambda>scan. (facts_of k (ts_bytes scan), ts_types scan)) y"
    by (auto simp: rbind_Inr_iff rfail_def rret_def split: if_splits)
  with read_tensor_bytes_ready show ?thesis by fastforce
qed

section \<open>Sizes\<close>

text \<open>The sum of the parts with no saturation, and the part a class belongs to.\<close>

definition layer_sum :: "layer_bytes \<Rightarrow> nat" where
  "layer_sum l = lb_experts l + lb_dense_ffn l + lb_other l"

definition exact_total :: "tensor_bytes \<Rightarrow> nat" where
  "exact_total t = tb_input t + tb_token_embd t + sum_list (map layer_sum (tb_layers t)) + tb_output t"

lemma sat_exact: "a + b < u64_bound \<Longrightarrow> saturating_add a b = a + b"
  by (simp add: saturating_add_def)

lemma layer_sum_none [simp]: "layer_sum layer_none = 0"
  by (simp add: layer_sum_def layer_none_def)

lemma sum_resize:
  "length xs \<le> n \<Longrightarrow> sum_list (map layer_sum (resize n layer_none xs)) = sum_list (map layer_sum xs)"
  by (simp add: resize_def sum_list_replicate)

lemma length_resize [simp]: "length xs \<le> n \<Longrightarrow> length (resize n x xs) = n"
  by (simp add: resize_def)

lemma sum_list_set_layer:
  "i < length xs \<Longrightarrow> sum_list (map layer_sum (xs[i := y])) + layer_sum (xs ! i) =
     sum_list (map layer_sum xs) + layer_sum y"
  by (induction xs arbitrary: i) (auto split: nat.splits)

lemma layer_sum_le: "i < length xs \<Longrightarrow> layer_sum (xs ! i) \<le> sum_list (map layer_sum xs)"
  by (induction xs arbitrary: i) (auto split: nat.splits intro: trans_le_add2 simp: nth_Cons)

lemma add_tensor_total:
  assumes "exact_total s + n < u64_bound"
  shows "exact_total (add_tensor c n s) = exact_total s + n"
proof (cases c)
  case (ClassLayer il part)
  let ?ls = "if length (tb_layers s) \<le> il then resize (il + 1) layer_none (tb_layers s) else tb_layers s"
  have sum: "sum_list (map layer_sum ?ls) = sum_list (map layer_sum (tb_layers s))"
    by (simp add: sum_resize)
  have il: "il < length ?ls" by simp
  let ?l = "?ls ! il"
  have l: "layer_sum ?l + n < u64_bound"
    using layer_sum_le [OF il] sum assms by (simp add: exact_total_def)
  let ?l' = "case part of Experts \<Rightarrow> ?l\<lparr>lb_experts := saturating_add (lb_experts ?l) n\<rparr>
      | DenseFfn \<Rightarrow> ?l\<lparr>lb_dense_ffn := saturating_add (lb_dense_ffn ?l) n\<rparr>
      | Other \<Rightarrow> ?l\<lparr>lb_other := saturating_add (lb_other ?l) n\<rparr>"
  have "layer_sum ?l' = layer_sum ?l + n"
    using l by (cases part) (auto simp: layer_sum_def sat_exact)
  with sum_list_set_layer [OF il, of ?l'] sum
  have "sum_list (map layer_sum (?ls[il := ?l'])) = sum_list (map layer_sum (tb_layers s)) + n"
    by linarith
  then show ?thesis
    by (simp add: ClassLayer add_tensor_def exact_total_def Let_def)
qed (use assms in \<open>auto simp: add_tensor_def exact_total_def sat_exact\<close>)

lemma exact_total_per_layer [simp]: "exact_total (s\<lparr>tb_per_layer_token_embd := x\<rparr>) = exact_total s"
  by (simp add: exact_total_def)

lemma size_tensors_total:
  assumes "size_tensors data_len es s = Some s'" and "es \<noteq> []"
    and "exact_total s + data_len < u64_bound + fst (hd es)"
  shows "exact_total s' + fst (hd es) = exact_total s + data_len \<and> fst (hd es) < data_len"
  using assms
proof (induction es arbitrary: s)
  case (Cons e es)
  obtain offset c p where e: "e = (offset, c, p)" by (cases e) auto
  let ?stop = "case es of [] \<Rightarrow> data_len | (next, _, _) # _ \<Rightarrow> next"
  let ?n = "?stop - offset"
  let ?s = "if p then s\<lparr>tb_per_layer_token_embd := saturating_add (tb_per_layer_token_embd s) ?n\<rparr> else s"
  from Cons.prems(1) have ok: "offset < data_len" "offset < ?stop"
    and rest: "size_tensors data_len es (add_tensor c ?n ?s) = Some s'"
    by (auto simp: e Let_def split: if_splits)
  show ?case
  proof (cases es)
    case Nil
    with Cons.prems(3) ok have "exact_total ?s + ?n < u64_bound" by (simp add: e)
    from add_tensor_total [OF this, of c] rest ok Nil show ?thesis by (simp add: e)
  next
    case (Cons e2 es2)
    have stop: "?stop = fst (hd es)" using Cons by (cases e2) simp
    have before_end: "fst (hd es) < data_len"
      using rest Cons by (cases e2) (simp add: Let_def split: if_splits)
    have small: "exact_total ?s + ?n < u64_bound"
      using Cons.prems(3) ok before_end stop by (simp add: e)
    note add = add_tensor_total [OF this, of c]
    have "exact_total (add_tensor c ?n ?s) + data_len < u64_bound + fst (hd es)"
      using add Cons.prems(3) ok stop by (simp add: e)
    moreover have "es \<noteq> []" using Cons by simp
    ultimately have "exact_total s' + fst (hd es) = exact_total (add_tensor c ?n ?s) + data_len"
      using Cons.IH [OF rest] by blast
    moreover have "exact_total ?s = exact_total s" by simp
    ultimately show ?thesis
      using add ok stop by (simp only: e list.sel fst_conv simp_thms)
  qed
qed simp

lemma fold_layer_total:
  assumes "acc + sum_list (map layer_sum ls) < u64_bound"
  shows "fold (\<lambda>l sum. saturating_add sum (layer_total l)) ls acc = acc + sum_list (map layer_sum ls)"
  using assms
proof (induction ls arbitrary: acc)
  case (Cons l ls)
  then have "layer_total l = layer_sum l"
    by (simp add: layer_total_def layer_sum_def sat_exact)
  with Cons show ?case by (simp add: sat_exact add.assoc)
qed simp

lemma tensor_total_exact:
  assumes "exact_total t < u64_bound"
  shows "tensor_total t = exact_total t"
proof -
  let ?S = "sum_list (map layer_sum (tb_layers t))"
  have 1: "saturating_add (tb_input t) (tb_token_embd t) = tb_input t + tb_token_embd t"
    using assms by (simp add: exact_total_def sat_exact)
  have "tb_input t + tb_token_embd t + ?S < u64_bound"
    using assms by (simp add: exact_total_def)
  note 2 = fold_layer_total [OF this]
  show ?thesis
    unfolding tensor_total_def 1 2 using assms by (simp add: exact_total_def sat_exact)
qed

lemma zip_absorb_total:
  assumes "length b \<le> length a"
    and "sum_list (map layer_sum a) + sum_list (map layer_sum b) < u64_bound"
  shows "sum_list (map layer_sum (zip_absorb a b)) =
    sum_list (map layer_sum a) + sum_list (map layer_sum b)"
  using assms
proof (induction a b rule: zip_absorb.induct)
  case (1 m ms t ts)
  then have "layer_sum (layer_absorb m t) = layer_sum m + layer_sum t"
    by (simp add: layer_absorb_def layer_sum_def sat_exact)
  with 1 show ?case by simp
qed auto

lemma absorb_exact:
  assumes "exact_total a + exact_total b < u64_bound"
  shows "exact_total (absorb a b) = exact_total a + exact_total b"
proof -
  let ?la = "if length (tb_layers a) < length (tb_layers b)
    then resize (length (tb_layers b)) layer_none (tb_layers a) else tb_layers a"
  have sum: "sum_list (map layer_sum ?la) = sum_list (map layer_sum (tb_layers a))"
    by (simp add: sum_resize)
  have "sum_list (map layer_sum (zip_absorb ?la (tb_layers b))) =
      sum_list (map layer_sum ?la) + sum_list (map layer_sum (tb_layers b))"
    by (rule zip_absorb_total) (use assms sum in \<open>simp_all add: exact_total_def\<close>)
  with sum assms show ?thesis
    by (simp add: absorb_def exact_total_def sat_exact)
qed

lemma read_model_facts_total: "read_model_facts bytes \<noteq> None"
proof (cases "scan_model_from False (length bytes) (reader_new bytes)")
  case (Inr p)
  with scan_model_ready [of False "length bytes" "reader_new bytes" "fst p" "snd p"] show ?thesis
    by (cases p) (auto simp: read_model_facts_def)
qed (simp add: read_model_facts_def)

section \<open>Properties\<close>

text \<open>The scan never panics: for every file, the \<open>expect\<close> on the collected tensor types and the
  \<open>unreachable!\<close> behind the type scan cannot be reached; the result is always facts or an error.\<close>

lemma tensor_type_scan_total:
  "read_model_facts_and_tensor_types bytes \<noteq> None \<and> read_model_facts bytes \<noteq> None \<and>
   read_tensor_types bytes \<noteq> None"
proof -
  have "read_model_facts_and_tensor_types bytes \<noteq> None"
  proof (cases "scan_model_from True (length bytes) (reader_new bytes)")
    case (Inr p)
    with scan_model_ready [of True "length bytes" "reader_new bytes" "fst p" "snd p"] show ?thesis
      by (cases p) (auto simp: read_model_facts_and_tensor_types_def)
  qed (simp add: read_model_facts_and_tensor_types_def)
  with read_model_facts_total [of bytes] show ?thesis
    by (auto simp: read_tensor_types_def split: sum.splits)
qed

text \<open>C20. The tensor sizes partition the data region. When the table is accepted, the parts the
  tensors were grouped into add up, with no saturation, to exactly the bytes from the first
  tensor to the end of the file: no byte is lost and none is counted twice.\<close>

theorem tensor_sizes_partition:
  assumes "finish_tensors want alignment file_len t err consumed = Inr (Some scan)"
    and "ts_bytes scan = Some b" and "tt_entries t \<noteq> []" and "file_len < 2 ^ 64"
  shows "\<exists>first. first = Min (fst ` set (tt_entries t)) \<and>
    first < file_len - div_ceil consumed alignment * alignment \<and>
    tensor_total b = file_len - div_ceil consumed alignment * alignment - first"
proof -
  let ?es = "sort_key fst (tt_entries t)"
  let ?s = "tensor_bytes_none\<lparr>tb_has_output_weight := tt_has_output_weight t, tb_vocab := tt_vocab t\<rparr>"
  from assms(1,2) obtain start dl where
      start: "checked_mul (div_ceil consumed alignment) alignment = Some start"
    and dl: "checked_sub file_len start = Some dl" and size: "size_tensors dl ?es ?s = Some b"
    by (auto simp: finish_tensors_def Let_def split: option.splits if_splits)
  then have dl': "dl = file_len - div_ceil consumed alignment * alignment" "dl < u64_bound"
    using assms(4) by (auto simp: checked_mul_def checked_sub_def u64_bound_def split: if_splits)
  have ne: "?es \<noteq> []"
    using assms(3) by (metis length_0_conv length_sort)
  have zero: "exact_total ?s = 0"
    by (simp add: exact_total_def tensor_bytes_none_def)
  note total = size_tensors_total [OF size ne] 
  have t: "exact_total b + fst (hd ?es) = dl" "fst (hd ?es) < dl"
    using total zero dl'(2) by auto
  have "fst (hd ?es) = Min (fst ` set (tt_entries t))"
  proof -
    have "sorted (map fst ?es)" by simp
    with ne have "\<forall>e \<in> set ?es. fst (hd ?es) \<le> fst e"
      by (cases ?es) auto
    moreover have "hd ?es \<in> set (tt_entries t)"
      using hd_in_set [OF ne] by simp
    ultimately show ?thesis
      by (intro Min_eqI [symmetric]) auto
  qed
  moreover have "tensor_total b = exact_total b"
    by (rule tensor_total_exact) (use t dl'(2) in linarith)
  ultimately show ?thesis using t dl'(1) by auto
qed

text \<open>Shards add up: absorbing another shard of a model makes the total the sum of the totals,
  layer by layer, whichever shard has more layers.\<close>

lemma absorb_adds_totals:
  assumes "exact_total a + exact_total b < 2 ^ 64"
  shows "tensor_total (absorb a b) = tensor_total a + tensor_total b \<and>
    length (tb_layers (absorb a b)) = max (length (tb_layers a)) (length (tb_layers b))"
proof -
  have bound: "exact_total a + exact_total b < u64_bound" using assms by (simp add: u64_bound_def)
  have zip_length: "length (zip_absorb xs ys) = length xs" for xs ys
    by (induction xs ys rule: zip_absorb.induct) auto
  have "tensor_total (absorb a b) = tensor_total a + tensor_total b"
    using absorb_exact [OF bound] tensor_total_exact [of a] tensor_total_exact [of b]
      tensor_total_exact [of "absorb a b"] bound by simp
  then show ?thesis
    by (simp add: absorb_def zip_length max_def)
qed

theorem absorb_adds_totals_witness:
  "tensor_total (absorb (tensor_bytes_none\<lparr>tb_input := 3\<rparr>)
     (tensor_bytes_none\<lparr>tb_layers := [\<lparr>lb_experts = 1, lb_dense_ffn = 2, lb_other = 4\<rparr>]\<rparr>)) = 10"
proof -
  let ?a = "tensor_bytes_none\<lparr>tb_input := 3\<rparr>"
  let ?b = "tensor_bytes_none\<lparr>tb_layers := [\<lparr>lb_experts = 1, lb_dense_ffn = 2, lb_other = 4\<rparr>]\<rparr>"
  have "exact_total ?a + exact_total ?b < 2 ^ 64"
    by (simp add: exact_total_def layer_sum_def tensor_bytes_none_def)
  from absorb_adds_totals [OF this] show ?thesis
    by (simp add: tensor_total_def layer_total_def saturating_add_def u64_bound_eval
        tensor_bytes_none_def)
qed

definition demo_table :: tensor_table where
  "demo_table =
     \<lparr>tt_has_output_weight = True, tt_vocab = None,
      tt_entries = [(32, ClassLayer 1 Experts, False), (0, ClassOutput, False)], tt_types = None\<rparr>"

theorem tensor_sizes_partition_witness:
  "\<exists>scan b. finish_tensors False 32 128 demo_table None 20 = Inr (Some scan) \<and>
     ts_bytes scan = Some b \<and> tensor_total b = 96"
proof -
  obtain scan b where r: "finish_tensors False 32 128 demo_table None 20 = Inr (Some scan)"
    and b: "ts_bytes scan = Some b"
    by (simp add: finish_tensors_def demo_table_def div_ceil_def checked_mul_def checked_sub_def
        u64_bound_eval Let_def)
  from tensor_sizes_partition [OF r b] b r show ?thesis
    by (auto simp: demo_table_def div_ceil_def)
qed

end
