(* ===== verification/EstimateArgs.thy ===== *)
theory EstimateArgs
  imports GpuPlacement InferenceArgs GgufScan
begin

text \<open>
  The inputs of the memory estimate, \<open>src-tauri/src/resource_estimate.rs\<close>: byte ranges, the machine,
  cache types, the advanced server arguments and the settings a launch resolves to.

  A \<open>u64\<close> is a natural number with saturating operations, as in the code.
\<close>

section \<open>Ranges\<close>

record resource_range =
  rr_min :: nat
  rr_max :: nat

definition range_new :: "nat \<Rightarrow> nat \<Rightarrow> resource_range" where
  "range_new lo hi = \<lparr>rr_min = lo, rr_max = hi\<rparr>"

definition range_exact :: "nat \<Rightarrow> resource_range" where
  "range_exact n = range_new n n"

definition range_zero :: resource_range where
  "range_zero = range_exact 0"

definition range_add :: "resource_range \<Rightarrow> resource_range \<Rightarrow> resource_range" where
  "range_add a b =
     range_new (saturating_add (rr_min a) (rr_min b)) (saturating_add (rr_max a) (rr_max b))"

text \<open>Subtraction of natural numbers is the saturating one.\<close>

definition range_planned :: "resource_range \<Rightarrow> nat" where
  "range_planned r = saturating_add (rr_min r) ((rr_max r - rr_min r) div 2)"

definition range_sub :: "nat \<Rightarrow> resource_range \<Rightarrow> resource_range" where
  "range_sub n r = range_new (rr_min r - n) (rr_max r - n)"

definition ram_base :: resource_range where
  "ram_base = range_new (160 * mib) (640 * mib)"
definition gpu_host_runtime :: resource_range where
  "gpu_host_runtime = range_new (64 * mib) (512 * mib)"
definition gpu_device_runtime :: resource_range where
  "gpu_device_runtime = range_new (128 * mib) (640 * mib)"
definition projector_compute :: resource_range where
  "projector_compute = range_new (32 * mib) (1024 * mib)"
definition upstream_batch :: nat where "upstream_batch = 2048"
definition upstream_ubatch :: nat where "upstream_ubatch = 512"
definition auto_slots :: nat where "auto_slots = 4"
definition vocab_low :: nat where "vocab_low = 32000"
definition vocab_high :: nat where "vocab_high = 262144"
definition max_adapters :: nat where "max_adapters = 32"
definition max_server_args :: nat where "max_server_args = 512"
definition max_shards :: nat where "max_shards = 1024"
definition max_cached_facts :: nat where "max_cached_facts = 64"

datatype estimate_note =
  Approximate | Automatic | MissingMetadata | UnsupportedArchitecture | MissingFiles | Auxiliary
  | SharedMemory | AdvancedOptions | CapacityUnknown | PlacementAdjustment | DiskOffload | LazyOffload

section \<open>The machine\<close>

datatype accelerator = CpuOnly | GpuDevices nat | UnknownDevices nat

record environment =
  en_ram_capacity :: "nat option"
  en_vram_capacity :: "nat option"
  en_accelerator :: accelerator
  en_shared_memory :: bool

definition device_count :: "app_config \<Rightarrow> nat \<Rightarrow> nat" where
  "device_count cfg n = (if gp_split_mode (cf_gpu cfg) = SplitSingle then 1 else max n 1)"

definition estimate_vendor :: "string \<Rightarrow> gpu_vendor option option" where
  "estimate_vendor backend =
     map_of [(''cuda'', Some Nvidia), (''rocm'', Some Amd), (''sycl'', Some Intel),
             (''openvino'', Some Intel), (''vulkan'', None)] backend"

definition eligible_gpus :: "gpu_vendor option \<Rightarrow> gpu_device list \<Rightarrow> gpu_device list" where
  "eligible_gpus vendor gpus =
     filter (\<lambda>g. gd_vendor g \<noteq> UnknownVendor \<and> (case vendor of None \<Rightarrow> True | Some v \<Rightarrow> gd_vendor g = v))
       gpus"

definition scoped_selection :: "app_config \<Rightarrow> bool" where
  "scoped_selection cfg \<longleftrightarrow>
     gp_gpu_ids (cf_gpu cfg) \<noteq> [] \<and>
     list_all (\<lambda>i. case strip_prefix (runtime_scope (cf_active_backend cfg)) i of
                 None \<Rightarrow> False | Some n \<Rightarrow> n \<noteq> []) (gp_gpu_ids (cf_gpu cfg))"

definition environment_from_gpus ::
  "app_config \<Rightarrow> nat option \<Rightarrow> gpu_device list \<Rightarrow> environment" where
  "environment_from_gpus cfg ram gpus =
     (let ids = gp_gpu_ids (cf_gpu cfg);
          selected = device_count cfg (length ids);
          backend = map to_ascii_lowercase (trim (cf_active_backend cfg));
          env = (\<lambda>vram acc shared. \<lparr>en_ram_capacity = ram, en_vram_capacity = vram,
                   en_accelerator = acc, en_shared_memory = shared\<rparr>)
      in if backend = ''cpu'' then env (Some 0) CpuOnly False
         else case estimate_vendor backend of
           None \<Rightarrow> env None (UnknownDevices selected) False
         | Some vendor \<Rightarrow>
             let eligible = eligible_gpus vendor gpus in
             if scoped_selection cfg then
               env None (GpuDevices selected) (eligible = [] \<or> list_ex gd_integrated eligible)
             else
               let chosen = filter (\<lambda>g. ids = [] \<or> gd_stable_id g \<in> set ids) eligible
               in env None
                    (if chosen = [] then UnknownDevices selected
                     else GpuDevices (device_count cfg (length chosen)))
                    (list_ex gd_integrated chosen))"

text \<open>The memory of the system and the detected cards are arguments.\<close>

definition environment_detect ::
  "app_config \<Rightarrow> nat option \<Rightarrow> gpu_device list \<Rightarrow> string list \<Rightarrow> environment" where
  "environment_detect cfg ram detected runtime_devices =
     (let gpus = (if cf_active_backend cfg \<noteq> ''cpu'' then detected else []);
          env = (environment_from_gpus cfg ram gpus)\<lparr>en_shared_memory := False\<rparr>
      in case gpu_capacity_of (cf_gpu cfg) (cf_active_backend cfg) gpus runtime_devices of
           None \<Rightarrow> env
         | Some c \<Rightarrow>
             env\<lparr>en_vram_capacity := Some (gc_dedicated_bytes c), en_shared_memory := gc_shared c,
                 en_accelerator := GpuDevices (gc_devices c)\<rparr>)"

section \<open>Cache types\<close>

datatype kv_type = KvF32 | KvF16 | KvBf16 | KvQ8_0 | KvQ5_0 | KvQ5_1 | KvQ4_0 | KvQ4_1 | KvIq4Nl

definition kv_parse :: "string \<Rightarrow> kv_type option" where
  "kv_parse value =
     map_of [(''f32'', KvF32), (''f16'', KvF16), (''bf16'', KvBf16), (''q8_0'', KvQ8_0),
             (''q5_0'', KvQ5_0), (''q5_1'', KvQ5_1), (''q4_0'', KvQ4_0), (''q4_1'', KvQ4_1),
             (''iq4_nl'', KvIq4Nl)] (trim value)"

fun kv_block :: "kv_type \<Rightarrow> nat \<times> nat" where
  "kv_block KvF32 = (1, 4)"
| "kv_block KvF16 = (1, 2)"
| "kv_block KvBf16 = (1, 2)"
| "kv_block KvQ8_0 = (32, 34)"
| "kv_block KvQ5_0 = (32, 22)"
| "kv_block KvQ5_1 = (32, 24)"
| "kv_block KvQ4_0 = (32, 18)"
| "kv_block KvIq4Nl = (32, 18)"
| "kv_block KvQ4_1 = (32, 20)"

definition row_bytes :: "kv_type \<Rightarrow> nat \<Rightarrow> nat" where
  "row_bytes t elements =
     (let (block, bytes) = kv_block t in saturating_mul (div_ceil elements block) bytes)"

definition kv_quantized :: "kv_type \<Rightarrow> bool" where
  "kv_quantized t \<longleftrightarrow> fst (kv_block t) > 1"

definition pad256 :: "nat \<Rightarrow> nat" where
  "pad256 n = saturating_mul (div_ceil n 256) 256"

section \<open>Advanced server arguments\<close>

datatype lazy_mode = LazyOff | LazyAuto | LazyOn

fun lazy_disk_bytes :: "lazy_mode \<Rightarrow> tensor_bytes \<Rightarrow> nat" where
  "lazy_disk_bytes LazyOn t = tb_per_layer_token_embd t"
| "lazy_disk_bytes LazyAuto t =
     (if tb_per_layer_token_embd t > 4 * 1024 * mib then tb_per_layer_token_embd t else 0)"
| "lazy_disk_bytes LazyOff t = 0"

record server_args =
  sa_cpu_moe :: bool
  sa_n_cpu_ffn :: nat
  sa_kv_offload :: bool
  sa_kv_unified :: "bool option"
  sa_fit :: bool
  sa_fit_ctx :: "nat option"
  sa_mmproj_offload :: bool
  sa_op_offload :: bool
  sa_lazy_mode :: lazy_mode
  sa_draft_type_k :: "kv_type option"
  sa_draft_type_v :: "kv_type option"
  sa_draft_cpu_moe :: bool
  sa_draft_n_cpu_moe :: nat
  sa_unmodeled :: bool
  sa_unknown :: bool

definition server_args_default :: server_args where
  "server_args_default =
     \<lparr>sa_cpu_moe = False, sa_n_cpu_ffn = 0, sa_kv_offload = True, sa_kv_unified = None,
      sa_fit = True, sa_fit_ctx = None, sa_mmproj_offload = True, sa_op_offload = True,
      sa_lazy_mode = LazyAuto, sa_draft_type_k = None, sa_draft_type_v = None,
      sa_draft_cpu_moe = False, sa_draft_n_cpu_moe = 0, sa_unmodeled = False, sa_unknown = False\<rparr>"

definition neutral_args :: "string list" where
  "neutral_args =
     [''-tb'', ''--threads-batch'', ''-C'', ''-Cr'', ''-Cb'', ''-Crb'', ''-n'', ''--predict'',
      ''--n-predict'', ''--swa-full'', ''-cms'', ''--checkpoint-min-step'', ''--context-shift'',
      ''--perf'', ''--show-timings'', ''-sp'', ''--special'', ''--warmup'', ''--spm-infill'',
      ''--samplers'', ''-s'', ''--seed'', ''--sampler-seq'', ''--sampling-seq'',
      ''--ignore-eos'', ''--temp'', ''--temperature'', ''--top-k'', ''--top-p'', ''--min-p'',
      ''--top-nsigma'', ''--top-n-sigma'', ''--typical'', ''--typical-p'', ''--repeat-last-n'',
      ''--repeat-penalty'', ''--presence-penalty'', ''--frequency-penalty'',
      ''--adaptive-target'', ''--adaptive-decay'', ''--dynatemp-range'', ''--dynatemp-exp'',
      ''-l'', ''--logit-bias'', ''--grammar'', ''--grammar-file'', ''-j'', ''--json-schema'',
      ''-jf'', ''--json-schema-file'', ''-bs'', ''--backend-sampling'', ''--attention'',
      ''-gan'', ''--grp-attn-n'', ''-gaw'', ''--grp-attn-w'', ''-dt'', ''--defrag-thold'',
      ''-cb'', ''--cont-batching'', ''-nocb'', ''--numa'', ''--check-tensors'',
      ''--lora-init-without-apply'', ''-a'', ''--alias'', ''--tags'', ''--reuse-port'',
      ''--path'', ''--api-prefix'', ''--tools'', ''--tools-runtime'', ''-ag'', ''--agent'',
      ''--ui'', ''--webui'', ''--threads-http'', ''--cache-prompt'', ''--cache-reuse'',
      ''--metrics'', ''--props'', ''--slots'', ''--slot-save-path'', ''--media-path'',
      ''--jinja'', ''--skip-chat-parsing'', ''--prefill-assistant'', ''-sps'',
      ''--slot-prompt-similarity'', ''--sse-ping-interval'', ''-v'', ''--verbose'', ''-lv'',
      ''--verbosity'', ''--offline'', ''-co'', ''--color'', ''-e'', ''--escape'', ''-fitt'',
      ''--fit-target'', ''-fitp'', ''--fit-print'', ''--models-dir'', ''--models-max'',
      ''--models-autoload'', ''-td'', ''-tbd'', ''-Cd'', ''-Crd'', ''-Cbd'', ''-Crbd'',
      ''--draft'', ''--draft-n'', ''--draft-max'', ''--draft-min'', ''--draft-n-min'']"

definition neutral_prefixes :: "string list" where
  "neutral_prefixes =
     [''--cpu-'', ''--prio'', ''--poll'', ''--dry-'', ''--xtc-'', ''--mirostat'', ''--rope-'',
      ''--yarn-'', ''--log-'', ''--cors-'', ''--ssl-'', ''--chat-template'', ''--ui-'',
      ''--webui-'', ''--mcp-'', ''--video-'', ''--spec-ngram-'', ''--spec-synth-'',
      ''--spec-draft-threads'', ''--spec-draft-cpu-'', ''--spec-draft-prio'',
      ''--spec-draft-poll'', ''--spec-draft-backend-sampling'', ''--spec-draft-n-max'',
      ''--spec-draft-n-min'', ''--spec-draft-p-'', ''--draft-p-'']"

definition unmodeled_args :: "string list" where
  "unmodeled_args =
     [''--cache-ram'', ''-cram'', ''--cache-idle-slots'', ''--ctx-checkpoints'', ''-ctxcp'',
      ''--swa-checkpoints'', ''--load-mode'', ''-lm'', ''--lazy-mode'', ''-lzm'', ''--mmap'',
      ''--mlock'', ''--direct-io'', ''-dio'', ''--no-host'', ''--repack'', ''-nr'',
      ''--image-min-tokens'', ''--image-max-tokens'', ''--mtmd-batch-max-tokens'', ''-ot'',
      ''--override-tensor'', ''-otd'', ''--override-tensor-draft'',
      ''--spec-draft-override-tensor'', ''--override-kv'', ''-mu'', ''--model-url'', ''-hf'',
      ''-hfr'', ''--hf-repo'', ''-hff'', ''--hf-file'', ''--spec-draft-hf'', ''-hfd'',
      ''-hfrd'', ''--hf-repo-draft'', ''--rpc'', ''--kv-unified-per-slot'', ''--embedding'',
      ''--embeddings'', ''--rerank'', ''--reranking'', ''--pooling'', ''--mtp'', ''--dflash'',
      ''--eagle3'', ''--spec-default'', ''--models-preset'']"

definition neutral_name :: "string \<Rightarrow> bool" where
  "neutral_name name \<longleftrightarrow>
     name \<in> set neutral_args \<or> list_ex (\<lambda>p. starts_with p name) neutral_prefixes"

definition is_neutral :: "string \<Rightarrow> bool" where
  "is_neutral name \<longleftrightarrow>
     neutral_name name \<or>
     (case strip_prefix ''--no-'' name of None \<Rightarrow> False | Some rest \<Rightarrow> neutral_name (''--'' @ rest))"

definition is_unmodeled :: "string \<Rightarrow> bool" where
  "is_unmodeled name \<longleftrightarrow>
     name \<in> set unmodeled_args \<or>
     (case strip_prefix ''--no-'' name of
        None \<Rightarrow> False | Some rest \<Rightarrow> ''--'' @ rest \<in> set unmodeled_args) \<or>
     (ends_with ''-default'' name \<or> ends_with ''-spec'' name) \<and>
     list_ex (\<lambda>p. starts_with p name) [''--fim-'', ''--gpt-oss-'', ''--vision-'', ''--embd-'']"

text \<open>Overrides of tensors that are on the CPU anyway.\<close>

definition cpu_override :: "string \<Rightarrow> bool" where
  "cpu_override entry \<longleftrightarrow>
     trim entry \<in> {''per_layer_token_embd=CPU'', ''per_layer_token_embd.weight=CPU'',
                   ''token_embd=CPU'', ''token_embd.weight=CPU''}"

definition arg_count :: "string option \<Rightarrow> nat option" where
  "arg_count v = Option.bind v (parse_unsigned (2 ^ 64))"

text \<open>
  One argument: the settings it leaves and whether it asks for a value; \<open>v\<close> is the value it gets
  when it does.
\<close>

definition apply_arg :: "string \<Rightarrow> string option \<Rightarrow> server_args \<Rightarrow> server_args \<times> bool" where
  "apply_arg name v a =
     (if name \<in> {''-cmoe'', ''--cpu-moe''} then (a\<lparr>sa_cpu_moe := True\<rparr>, False)
      else if name \<in> {''-ncffn'', ''--n-cpu-ffn''} then
        (a\<lparr>sa_n_cpu_ffn := (case arg_count v of None \<Rightarrow> 0 | Some n \<Rightarrow> n)\<rparr>, True)
      else if name \<in> {''-kvo'', ''--kv-offload''} then (a\<lparr>sa_kv_offload := True\<rparr>, False)
      else if name \<in> {''-nkvo'', ''--no-kv-offload''} then (a\<lparr>sa_kv_offload := False\<rparr>, False)
      else if name \<in> {''-kvu'', ''--kv-unified''} then (a\<lparr>sa_kv_unified := Some True\<rparr>, False)
      else if name \<in> {''-no-kvu'', ''--no-kv-unified''} then (a\<lparr>sa_kv_unified := Some False\<rparr>, False)
      else if name \<in> {''-fit'', ''--fit''} then (a\<lparr>sa_fit := (v \<noteq> Some ''off'')\<rparr>, True)
      else if name \<in> {''-fitc'', ''--fit-ctx''} then (a\<lparr>sa_fit_ctx := arg_count v\<rparr>, True)
      else if name = ''--mmproj-offload'' then (a\<lparr>sa_mmproj_offload := True\<rparr>, False)
      else if name = ''--no-mmproj-offload'' then (a\<lparr>sa_mmproj_offload := False\<rparr>, False)
      else if name \<in> {''-mmdev'', ''--mmproj-device''} then
        (a\<lparr>sa_mmproj_offload := (v \<noteq> Some ''none'')\<rparr>, True)
      else if name = ''--op-offload'' then (a\<lparr>sa_op_offload := True\<rparr>, False)
      else if name = ''--no-op-offload'' then (a\<lparr>sa_op_offload := False\<rparr>, False)
      else if name \<in> {''-lzm'', ''--lazy-mode''} then
        (if v = Some ''off'' then a\<lparr>sa_lazy_mode := LazyOff\<rparr>
         else if v = Some ''auto'' then a\<lparr>sa_lazy_mode := LazyAuto\<rparr>
         else if v = Some ''on'' then a\<lparr>sa_lazy_mode := LazyOn\<rparr>
         else a\<lparr>sa_unmodeled := True\<rparr>, True)
      else if name \<in> {''-lm'', ''--load-mode''} then
        (a\<lparr>sa_unmodeled := (sa_unmodeled a \<or>
             v \<notin> {Some ''none'', Some ''auto'', Some ''mmap''})\<rparr>, True)
      else if name \<in> {''-ot'', ''--override-tensor''} then
        (a\<lparr>sa_unmodeled := (sa_unmodeled a \<or>
             (case v of None \<Rightarrow> True
              | Some s \<Rightarrow> list_ex (\<lambda>e. \<not> cpu_override e) (split_on CHR '','' s)))\<rparr>, True)
      else if name \<in> {''--spec-draft-type-k'', ''-ctkd'', ''--cache-type-k-draft''} then
        (a\<lparr>sa_draft_type_k := Option.bind v kv_parse\<rparr>, True)
      else if name \<in> {''--spec-draft-type-v'', ''-ctvd'', ''--cache-type-v-draft''} then
        (a\<lparr>sa_draft_type_v := Option.bind v kv_parse\<rparr>, True)
      else if name \<in> {''--spec-draft-cpu-moe'', ''-cmoed'', ''--cpu-moe-draft''} then
        (a\<lparr>sa_draft_cpu_moe := True\<rparr>, False)
      else if name \<in> {''--spec-draft-n-cpu-moe'', ''--spec-draft-ncmoe'', ''-ncmoed'',
                      ''--n-cpu-moe-draft''} then
        (a\<lparr>sa_draft_n_cpu_moe := (case arg_count v of None \<Rightarrow> 0 | Some n \<Rightarrow> n)\<rparr>, True)
      else if name \<in> set app_managed_server_args then (a, True)
      else if is_unmodeled name then (a\<lparr>sa_unmodeled := True\<rparr>, True)
      else if \<not> is_neutral name then (a\<lparr>sa_unknown := True\<rparr>, True)
      else (a, True))"

definition following_value :: "string list \<Rightarrow> string option" where
  "following_value rest =
     (case rest of
        [] \<Rightarrow> None
      | t # _ \<Rightarrow>
          if \<not> starts_with ''-'' (trim t) \<or> parses_f64 (trim t) then Some (trim t) else None)"

fun parse_args :: "string list \<Rightarrow> server_args \<Rightarrow> server_args" where
  "parse_args [] a = a"
| "parse_args (t # rest) a =
     (let token = trim t;
          (name, given) = (case split_once CHR ''='' token of
              Some (n, v) \<Rightarrow> (trim n, Some (trim v)) | None \<Rightarrow> (token, None));
          follows = following_value rest;
          (a', asked) = apply_arg name (if given = None then follows else given) a
      in parse_args (if asked \<and> given = None \<and> follows \<noteq> None then drop 1 rest else rest) a')"

definition parse_server_args :: "string list \<Rightarrow> server_args" where
  "parse_server_args raw = parse_args (take max_server_args raw) server_args_default"

section \<open>The settings of a launch\<close>

record launch_plan =
  lp_ngl :: nat
  lp_ctx :: nat
  lp_ubatch :: nat
  lp_pipeline_backend :: bool
  lp_type_k :: "kv_type option"
  lp_type_v :: "kv_type option"
  lp_flash_attn :: "bool option"
  lp_n_cpu_moe :: nat
  lp_parallel :: "nat option"
  lp_args :: server_args
  lp_automatic :: bool

definition cache_type :: "app_config \<Rightarrow> string \<Rightarrow> string \<Rightarrow> kv_type option" where
  "cache_type cfg key value = (if inherited cfg key then None else kv_parse value)"

definition launch_args :: "app_config \<Rightarrow> server_args" where
  "launch_args cfg =
     (if cf_active_backend cfg = ''cpu'' then
        (parse_server_args (force_cpu (cf_server_args cfg)))
          \<lparr>sa_kv_offload := False, sa_op_offload := False, sa_mmproj_offload := False\<rparr>
      else parse_server_args (cf_server_args cfg))"

definition launch_settings :: "app_config \<Rightarrow> launch_plan" where
  "launch_settings cfg =
     (let batch = (if inherited cfg ''batch_size'' then upstream_batch else cf_batch_size cfg);
          ubatch = (if inherited cfg ''ubatch_size'' then upstream_ubatch else cf_ubatch_size cfg);
          type_k = cache_type cfg ''cache_type_k'' (cf_cache_type_k cfg);
          type_v = cache_type cfg ''cache_type_v'' (cf_cache_type_v cfg)
      in \<lparr>lp_ngl =
            (if cf_active_backend cfg = ''cpu'' then 0
             else if inherited cfg ''ngl'' then the (app_default_u32 ''ngl'') else cf_ngl cfg),
          lp_ctx =
            (if inherited cfg ''ctx_size'' then the (app_default_u32 ''ctx_size'')
             else cf_ctx_size cfg),
          lp_ubatch = min (max ubatch 1) (max batch 1),
          lp_pipeline_backend =
            (cf_active_backend cfg \<in> {''cuda'', ''rocm''} \<and>
             gp_split_mode (cf_gpu cfg) \<in> {SplitInherit, SplitLayer}),
          lp_type_k = type_k, lp_type_v = type_v,
          lp_flash_attn =
            (if inherited cfg ''flash_attn'' then None
             else if cf_flash_attn cfg = ''on'' then Some True
             else if cf_flash_attn cfg = ''off'' then Some False else None),
          lp_n_cpu_moe = (if inherited cfg ''n_cpu_moe'' then 0 else cf_n_cpu_moe cfg),
          lp_parallel =
            (if \<not> inherited cfg ''parallel'' \<and> cf_parallel cfg > 0 then Some (cf_parallel cfg)
             else None),
          lp_args = launch_args cfg,
          lp_automatic =
            (inherited cfg ''batch_size'' \<or> inherited cfg ''ubatch_size'' \<or> type_k = None \<or>
             type_v = None \<or> inherited cfg ''flash_attn'')\<rparr>)"

end
