(* ===== verification/EstimateModel.thy ===== *)
theory EstimateModel
  imports EstimateArgs
begin

text \<open>
  The memory of one model with its context, \<open>src-tauri/src/resource_estimate.rs\<close>: the dimensions
  taken from a header (\<open>shape\<close>), the placement of the weights (\<open>place\<close>), the caches
  (\<open>kv_bytes\<close>), the working buffers (\<open>compute_buffer\<close>) and their sum (\<open>context_memory\<close>).

  Where the code indexes a vector, the model looks it up with \<open>nth_opt\<close>; \<open>None\<close> is the panic of an
  index out of range.
\<close>

definition nth_opt :: "'a list \<Rightarrow> nat \<Rightarrow> 'a option" where
  "nth_opt xs i = (if i < length xs then Some (xs ! i) else None)"

lemma nth_opt_Some [simp]: "i < length xs \<Longrightarrow> nth_opt xs i = Some (xs ! i)"
  by (simp add: nth_opt_def)

section \<open>Dimensions\<close>

definition unsupported_architectures :: "string list" where
  "unsupported_architectures =
     [''mamba'', ''mamba2'', ''rwkv6'', ''rwkv6qwen2'', ''rwkv7'', ''arwkv7'', ''jamba'',
      ''falcon-h1'', ''plamo2'', ''granitehybrid'', ''lfm2'', ''lfm2moe'', ''nemotron_h'',
      ''nemotron_h_moe'', ''kimi-linear'', ''bailingmoe3'', ''kimi-k3'', ''deepseek4'',
      ''minimax-01'', ''minimax-m3'', ''glm-dsa'', ''deepseek32'', ''hy_v4'', ''dots3note'',
      ''dflash'', ''gemma3n'', ''gemma4'', ''gemma4-assistant'', ''t5'', ''t5encoder'',
      ''bert'', ''jina-bert-v2'', ''jina-bert-v3'', ''nomic-bert'', ''nomic-bert-moe'',
      ''neo-bert'', ''eurobert'', ''wavtokenizer-dec'', ''modern-bert'', ''gemma-embedding'',
      ''dream'', ''llada'', ''llada-moe'', ''rnd1'', ''clip'']"

definition hybrid_architectures :: "string list" where
  "hybrid_architectures = [''qwen3next'', ''qwen35'', ''qwen35moe'', ''qwen4exp'']"

definition max_dim :: nat where "max_dim = 2 ^ 24"

record shape =
  sh_n_layer :: nat
  sh_kv_layers :: nat
  sh_n_embd :: nat
  sh_n_vocab :: "nat option"
  sh_n_head :: nat
  sh_head_v :: nat
  sh_k_dims :: "nat list"
  sh_v_dims :: "nat list"
  sh_recurrent_bytes :: "nat list"
  sh_indexer_dim :: nat
  sh_activation_width :: nat
  sh_n_ff :: nat
  sh_n_ctx_train :: "nat option"
  sh_tensors :: tensor_bytes

definition dim_of :: "nat option \<Rightarrow> estimate_note + nat" where
  "dim_of v =
     (case v of
        None \<Rightarrow> Inl MissingMetadata
      | Some n \<Rightarrow> if 1 \<le> n \<and> n \<le> max_dim then Inr n else Inl MissingMetadata)"

text \<open>The recurrent state of one layer of a hybrid model.\<close>

definition hybrid_layer ::
  "model_facts \<Rightarrow> nat \<Rightarrow> nat \<Rightarrow> nat \<Rightarrow> nat \<Rightarrow> nat \<Rightarrow> estimate_note + nat" where
  "hybrid_layer facts trunk interval base ple il =
     bind_r
       (case mf_recurrent_layers facts of
          Some layers \<Rightarrow>
            (case per_layer_at il layers of
               Some n \<Rightarrow>
                 if n = 0 then Inr False else if n = 1 then Inr True else Inl MissingMetadata
             | None \<Rightarrow> Inl MissingMetadata)
        | None \<Rightarrow> Inr (il < trunk \<and> (il + 1) mod interval \<noteq> 0))
       (\<lambda>recurrent.
        let has_ple = (il \<in> set (mf_ple_layers facts)) in
        if has_ple \<and> (\<not> recurrent \<or> il \<ge> trunk) then Inl MissingMetadata
        else Inr (if recurrent then saturating_add base (if has_ple then ple else 0) else 0))"

definition hybrid_base :: "nat \<Rightarrow> nat \<Rightarrow> nat \<Rightarrow> nat \<Rightarrow> nat" where
  "hybrid_base conv inner_dim st groups =
     saturating_mul
       (saturating_add
         (saturating_mul (conv - 1) (saturating_add inner_dim (saturating_mul (saturating_mul 2 groups) st)))
         (saturating_mul st inner_dim))
       4"

definition hybrid_ple :: "model_facts \<Rightarrow> nat \<Rightarrow> nat \<Rightarrow> estimate_note + nat" where
  "hybrid_ple facts hc n_embd =
     (if mf_ple_layers facts = [] then Inr 0
      else bind_r (dim_of (mf_ple_conv_kernel facts)) (\<lambda>k.
           bind_r (dim_of (mf_ple_ngram_size facts)) (\<lambda>n.
           Inr (saturating_mul (saturating_mul (saturating_mul (saturating_mul (k - 1) n) hc) n_embd) 4))))"

definition hybrid_dimensions ::
  "model_facts \<Rightarrow> nat \<Rightarrow> nat \<Rightarrow> nat \<Rightarrow> bool \<Rightarrow> estimate_note + (nat list \<times> nat \<times> nat)" where
  "hybrid_dimensions facts n_layer trunk n_embd hybrid =
     (if \<not> hybrid then Inr (replicate n_layer 0, 0, n_embd)
      else
        bind_r (dim_of (mf_ssm_conv_kernel facts)) (\<lambda>conv.
        bind_r (dim_of (mf_ssm_inner_size facts)) (\<lambda>inner_dim.
        bind_r (dim_of (mf_ssm_state_size facts)) (\<lambda>st.
        bind_r (dim_of (mf_ssm_group_count facts)) (\<lambda>groups.
        bind_r (dim_of (Some (case mf_full_attention_interval facts of None \<Rightarrow> 4 | Some n \<Rightarrow> n)))
          (\<lambda>interval.
        let qwen4 = (mf_architecture facts = Some ''qwen4exp'') in
        bind_r (if qwen4 then dim_of (mf_hyper_connections facts) else Inr 1) (\<lambda>hc.
        bind_r (if qwen4 then dim_of (mf_indexer_key_length facts) else Inr 0) (\<lambda>indexer.
        bind_r (hybrid_ple facts hc n_embd) (\<lambda>ple.
        bind_r (traverse_r (hybrid_layer facts trunk interval (hybrid_base conv inner_dim st groups) ple)
                  [0..<n_layer]) (\<lambda>bytes.
        if list_ex (\<lambda>il. il \<ge> trunk) (mf_ple_layers facts) then Inl MissingMetadata
        else Inr (bytes, indexer, saturating_mul n_embd hc)))))))))))"

definition or_else :: "'a option \<Rightarrow> 'a option \<Rightarrow> 'a option" where
  "or_else a b = (case a of None \<Rightarrow> b | Some x \<Rightarrow> Some x)"

definition known_dim :: "nat option \<Rightarrow> estimate_note + nat" where
  "known_dim v = ok_or MissingMetadata v"

text \<open>A head count that the layer may not have; a layer with recurrent state may have none.\<close>

definition bad_heads :: "per_layer \<Rightarrow> nat list \<Rightarrow> nat \<Rightarrow> bool" where
  "bad_heads heads recurrent n_layer \<longleftrightarrow>
     list_ex (\<lambda>il. case per_layer_at il heads of
                None \<Rightarrow> True
              | Some n \<Rightarrow> n = 0 \<and> recurrent ! il = 0 \<or> n > max_dim) [0..<n_layer]"

definition positive :: "nat option \<Rightarrow> nat option" where
  "positive v = (case v of None \<Rightarrow> None | Some n \<Rightarrow> if n > 0 then Some n else None)"

definition unsupported :: "model_facts \<Rightarrow> bool" where
  "unsupported facts \<longleftrightarrow>
     (let architecture = (case mf_architecture facts of None \<Rightarrow> [] | Some a \<Rightarrow> a) in
      architecture \<in> set unsupported_architectures \<or>
      (mf_recurrent_state facts \<or> mf_recurrent_layers facts \<noteq> None) \<and>
        architecture \<notin> set hybrid_architectures \<or>
      mf_kv_lora_rank facts \<noteq> None \<or>
      (case mf_sliding_window facts of None \<Rightarrow> False | Some w \<Rightarrow> w > 0))"

definition implausible :: "model_facts \<Rightarrow> nat \<Rightarrow> nat \<Rightarrow> nat list \<Rightarrow> per_layer \<Rightarrow> tensor_bytes \<Rightarrow> bool" where
  "implausible facts n_layer n_embd recurrent heads tensors \<longleftrightarrow>
     n_embd > max_dim \<or> length (tb_layers tensors) \<noteq> n_layer \<or>
     list_ex (\<lambda>l. layer_total l = 0) (tb_layers tensors) \<or> bad_heads heads recurrent n_layer \<or>
     (case mf_head_count_kv facts of None \<Rightarrow> False | Some kv \<Rightarrow> bad_heads kv recurrent n_layer) \<or>
     (case or_else (tb_vocab tensors) (mf_vocab_size facts) of
        None \<Rightarrow> False | Some n \<Rightarrow> n = 0 \<or> n > max_dim)"

definition option_max :: "per_layer option \<Rightarrow> nat" where
  "option_max v = (case v of None \<Rightarrow> 0 | Some p \<Rightarrow> per_layer_max p)"

definition ffn_width :: "model_facts \<Rightarrow> nat \<Rightarrow> nat" where
  "ffn_width facts n_embd =
     (let routed = saturating_add
            (saturating_mul (option_max (mf_expert_feed_forward_length facts))
              (option_max (mf_expert_used_count facts)))
            (case mf_expert_shared_feed_forward_length facts of None \<Rightarrow> 0 | Some n \<Rightarrow> n);
          width = max (option_max (mf_feed_forward_length facts)) routed
      in if width = 0 then saturating_mul n_embd 4 else width)"

definition kv_heads :: "model_facts \<Rightarrow> per_layer \<Rightarrow> nat \<Rightarrow> nat" where
  "kv_heads facts heads il =
     (case or_else (Option.bind (mf_head_count_kv facts) (per_layer_at il)) (per_layer_at il heads) of
        None \<Rightarrow> 0 | Some n \<Rightarrow> n)"

definition shape_of :: "model_facts \<Rightarrow> tensor_bytes option \<Rightarrow> estimate_note + shape" where
  "shape_of facts scanned =
     (let hybrid = (case mf_architecture facts of None \<Rightarrow> False | Some a \<Rightarrow> a \<in> set hybrid_architectures)
      in if unsupported facts then Inl UnsupportedArchitecture
      else
        bind_r (known_dim (case mf_block_count facts of None \<Rightarrow> None
            | Some n \<Rightarrow> if 1 \<le> n \<and> n \<le> max_model_layers then Some n else None)) (\<lambda>n_layer.
        bind_r (known_dim (positive (mf_embedding_length facts))) (\<lambda>n_embd.
        let nextn = (case mf_nextn_layers facts of None \<Rightarrow> 0 | Some n \<Rightarrow> n) in
        if nextn \<ge> n_layer then Inl MissingMetadata
        else
          let kv_layers = n_layer - nextn in
          bind_r (hybrid_dimensions facts n_layer kv_layers n_embd hybrid)
            (\<lambda>(recurrent, indexer, activation).
          bind_r (ok_or MissingMetadata (mf_head_count facts)) (\<lambda>heads.
          bind_r (ok_or MissingMetadata scanned) (\<lambda>tensors.
          if implausible facts n_layer n_embd recurrent heads tensors then Inl MissingMetadata
          else
            let default_head = map_option (\<lambda>h. n_embd div h) (positive (per_layer_at 0 heads)) in
            bind_r (known_dim (or_else (mf_key_length facts) default_head)) (\<lambda>head_k.
            bind_r (known_dim (or_else (mf_value_length facts) default_head)) (\<lambda>head_v.
            if head_k = 0 \<or> head_v = 0 \<or> head_k > max_dim \<or> head_v > max_dim then Inl MissingMetadata
            else Inr
              \<lparr>sh_n_layer = n_layer, sh_kv_layers = kv_layers, sh_n_embd = n_embd,
               sh_n_vocab = or_else (tb_vocab tensors) (mf_vocab_size facts),
               sh_n_head = max (per_layer_max heads) 1, sh_head_v = head_v,
               sh_k_dims = map (\<lambda>il. saturating_mul head_k (kv_heads facts heads il)) [0..<n_layer],
               sh_v_dims = map (\<lambda>il. saturating_mul head_v (kv_heads facts heads il)) [0..<n_layer],
               sh_recurrent_bytes = recurrent, sh_indexer_dim = indexer,
               sh_activation_width = activation, sh_n_ff = ffn_width facts n_embd,
               sh_n_ctx_train = positive (mf_context_length facts), sh_tensors = tensors\<rparr>))))))))"

section \<open>Placing the weights\<close>

record overrides =
  ov_cpu_moe :: bool
  ov_n_cpu_moe :: nat
  ov_n_cpu_ffn :: nat

record weight_placement =
  wp_cpu :: nat
  wp_gpu :: nat
  wp_layer_gpu :: "bool list"
  wp_output_gpu :: bool
  wp_largest_cpu_layer :: nat

text \<open>The bytes of one layer that stay on the CPU; \<open>on_gpu\<close> says where the layer goes.\<close>

definition layer_cpu_bytes :: "overrides \<Rightarrow> bool \<Rightarrow> nat \<Rightarrow> layer_bytes \<Rightarrow> nat" where
  "layer_cpu_bytes ov on_gpu il l =
     (if on_gpu then
        saturating_add (if ov_cpu_moe ov \<or> il < ov_n_cpu_moe ov then lb_experts l else 0)
          (if il < ov_n_cpu_ffn ov then lb_dense_ffn l else 0)
      else layer_total l)"

definition layer_gpu_bytes :: "overrides \<Rightarrow> bool \<Rightarrow> nat \<Rightarrow> layer_bytes \<Rightarrow> nat" where
  "layer_gpu_bytes ov on_gpu il l =
     (if on_gpu then layer_total l - layer_cpu_bytes ov on_gpu il l else 0)"

fun place_layers ::
  "overrides \<Rightarrow> bool list \<Rightarrow> nat \<Rightarrow> layer_bytes list \<Rightarrow> weight_placement \<Rightarrow> weight_placement" where
  "place_layers ov on il [] p = p"
| "place_layers ov on il (l # ls) p =
     (let on_gpu = (il < length on \<and> on ! il);
          cpu = layer_cpu_bytes ov on_gpu il l
      in place_layers ov on (il + 1) ls
           (p\<lparr>wp_gpu := saturating_add (wp_gpu p) (layer_gpu_bytes ov on_gpu il l),
              wp_cpu := saturating_add (wp_cpu p) cpu,
              wp_largest_cpu_layer := max (wp_largest_cpu_layer p) cpu\<rparr>))"

text \<open>
  The production offload order (\<open>Offload::OutputFirst\<close>); the other one exists in tests only.
  \<open>layers + 1\<close> cannot wrap: a model has at most 4096 layers.
\<close>

definition first_gpu_layer :: "nat \<Rightarrow> bool \<Rightarrow> nat \<Rightarrow> nat \<times> bool" where
  "first_gpu_layer layers gpu ngl =
     (if gpu then let offloaded = min ngl (layers + 1) in (layers + 1 - offloaded, offloaded > 0)
      else (layers, False))"

definition place ::
  "tensor_bytes \<Rightarrow> nat \<Rightarrow> bool \<Rightarrow> nat \<Rightarrow> overrides \<Rightarrow> bool \<Rightarrow> weight_placement" where
  "place t n_layer gpu ngl ov duplicate_tied_output =
     (let (first, output_gpu) = first_gpu_layer n_layer gpu ngl;
          on = map (\<lambda>il. il \<ge> first) [0..<n_layer];
          out = (if duplicate_tied_output \<and> \<not> tb_has_output_weight t \<and> output_gpu
                 then saturating_add (tb_output t) (tb_token_embd t) else tb_output t);
          host = saturating_add (tb_input t) (tb_token_embd t)
      in place_layers ov on 0 (tb_layers t)
           \<lparr>wp_cpu = (if output_gpu then host else saturating_add host out),
            wp_gpu = (if output_gpu then out else 0), wp_layer_gpu = on,
            wp_output_gpu = output_gpu, wp_largest_cpu_layer = 0\<rparr>)"

section \<open>Caches\<close>

record scenario =
  sc_gpu :: bool
  sc_flash_attn :: bool
  sc_n_seq :: nat
  sc_unified :: bool
  sc_n_ctx :: nat

definition kv_cells :: "nat \<Rightarrow> nat \<Rightarrow> bool \<Rightarrow> nat \<times> nat" where
  "kv_cells n_ctx n_seq unified =
     (let n_ctx = pad256 n_ctx in
      if unified \<or> n_seq \<le> 1 then (n_ctx, 1) else (max (pad256 (n_ctx div n_seq)) 256, n_seq))"

definition widest :: "nat list \<Rightarrow> nat" where
  "widest xs = fold max xs 0"

definition on_device :: "weight_placement \<Rightarrow> bool \<Rightarrow> nat \<Rightarrow> bool" where
  "on_device p offload il \<longleftrightarrow> offload \<and> il < length (wp_layer_gpu p) \<and> wp_layer_gpu p ! il"

definition kv_layer_bytes ::
  "shape \<Rightarrow> nat \<Rightarrow> kv_type \<Rightarrow> kv_type \<Rightarrow> bool \<Rightarrow> nat \<Rightarrow> nat option" where
  "kv_layer_bytes sh cells type_k type_v flash il =
     Option.bind (nth_opt (sh_k_dims sh) il) (\<lambda>k_dim.
     Option.bind (if flash then nth_opt (sh_v_dims sh) il else Some (widest (sh_v_dims sh))) (\<lambda>v_dim.
     Some (saturating_mul
       (saturating_add (saturating_add (row_bytes type_k k_dim) (row_bytes type_v v_dim))
         (row_bytes type_k (sh_indexer_dim sh)))
       cells)))"

fun kv_loop ::
  "shape \<Rightarrow> nat \<Rightarrow> kv_type \<Rightarrow> kv_type \<Rightarrow> bool \<Rightarrow> weight_placement \<Rightarrow> bool \<Rightarrow> nat list \<Rightarrow>
   nat \<times> nat \<Rightarrow> (nat \<times> nat) option" where
  "kv_loop sh cells type_k type_v flash p offload [] (cpu, gpu) = Some (cpu, gpu)"
| "kv_loop sh cells type_k type_v flash p offload (il # ils) (cpu, gpu) =
     Option.bind (nth_opt (sh_recurrent_bytes sh) il) (\<lambda>r.
      if r > 0 then kv_loop sh cells type_k type_v flash p offload ils (cpu, gpu)
      else Option.bind (kv_layer_bytes sh cells type_k type_v flash il) (\<lambda>bytes.
        kv_loop sh cells type_k type_v flash p offload ils
          (if on_device p offload il then (cpu, saturating_add gpu bytes)
           else (saturating_add cpu bytes, gpu))))"

definition kv_bytes ::
  "shape \<Rightarrow> nat list \<Rightarrow> nat \<Rightarrow> kv_type \<Rightarrow> kv_type \<Rightarrow> bool \<Rightarrow> weight_placement \<Rightarrow> bool \<Rightarrow>
   (nat \<times> nat) option" where
  "kv_bytes sh layers cells type_k type_v flash p offload =
     kv_loop sh cells type_k type_v flash p offload layers (0, 0)"

section \<open>Working buffers\<close>

definition f32s :: "nat \<Rightarrow> nat" where "f32s n = saturating_mul n 4"

definition vocab_or :: "shape \<Rightarrow> nat \<Rightarrow> nat" where
  "vocab_or sh n = (case sh_n_vocab sh of None \<Rightarrow> n | Some v \<Rightarrow> v)"

definition attention_range :: "shape \<Rightarrow> nat \<Rightarrow> nat \<Rightarrow> bool \<Rightarrow> bool \<Rightarrow> resource_range" where
  "attention_range sh ubatch kv_per_stream flash quantized =
     (if flash then
        let lo = f32s (saturating_mul (saturating_mul (saturating_mul ubatch (sh_n_head sh)) (sh_head_v sh)) 2);
            conversion = (if quantized then
                saturating_mul (saturating_mul kv_per_stream
                  (saturating_add (widest (sh_k_dims sh)) (widest (sh_v_dims sh)))) 2
              else 0)
        in range_new lo (saturating_add lo conversion)
      else
        let scores = f32s (saturating_mul (saturating_mul kv_per_stream ubatch) (sh_n_head sh))
        in range_new scores (saturating_mul scores 2))"

definition compute_buffer ::
  "shape \<Rightarrow> nat \<Rightarrow> nat \<Rightarrow> nat \<Rightarrow> bool \<Rightarrow> bool \<Rightarrow> bool \<Rightarrow> bool \<Rightarrow> resource_range" where
  "compute_buffer sh ubatch n_seq kv_per_stream flash quantized layers has_output =
     (let act = f32s (saturating_mul (saturating_mul ubatch (sh_activation_width sh)) 4);
          ffn = f32s (saturating_mul (saturating_mul ubatch (sh_n_ff sh)) 3);
          attention = attention_range sh ubatch kv_per_stream flash quantized;
          recurrent = saturating_mul
            (saturating_mul (widest (sh_recurrent_bytes sh)) (saturating_add (div_ceil ubatch 64) n_seq)) 2;
          layer = range_new (saturating_add act (max ffn (rr_min attention)))
            (saturating_add act (max (max ffn (rr_max attention)) recurrent));
          logits = range_new (f32s (saturating_mul (vocab_or sh vocab_low) (min n_seq ubatch)))
            (f32s (saturating_mul (vocab_or sh vocab_high) ubatch));
          out = range_add (range_exact act) logits;
          peak = (if layers then layer else range_zero)
      in if has_output then range_new (max (rr_min peak) (rr_min out)) (max (rr_max peak) (rr_max out))
         else peak)"

definition attention_mask_bytes :: "nat \<Rightarrow> nat \<Rightarrow> bool \<Rightarrow> nat" where
  "attention_mask_bytes kv_per_stream tokens flash =
     saturating_mul (saturating_mul kv_per_stream tokens) (if flash then 2 else 4)"

section \<open>One model and its context\<close>

record context_plan =
  cp_shape :: shape
  cp_ngl :: nat
  cp_on_gpu :: bool
  cp_overrides :: overrides
  cp_type_k :: "kv_type option"
  cp_type_v :: "kv_type option"
  cp_recurrent_copies :: "nat option"

record context_cost =
  cm_ram :: resource_range
  cm_vram :: resource_range
  cm_kv :: nat
  cm_placement :: weight_placement
  cm_cpu_cache :: nat

definition kv_pick :: "kv_type option \<Rightarrow> kv_type" where
  "kv_pick t = (case t of None \<Rightarrow> KvF16 | Some t \<Rightarrow> t)"

text \<open>The recurrent state of the cached layers, by device; the layer flags are indexed.\<close>

fun state_loop ::
  "bool \<Rightarrow> bool list \<Rightarrow> nat \<Rightarrow> nat \<Rightarrow> nat \<Rightarrow> nat list \<Rightarrow> nat \<times> nat \<Rightarrow> (nat \<times> nat) option" where
  "state_loop offload on n_seq copies il [] (cpu, gpu) = Some (cpu, gpu)"
| "state_loop offload on n_seq copies il (b # bs) (cpu, gpu) =
     Option.bind (if offload then nth_opt on il else Some False) (\<lambda>dev.
      let bytes = saturating_mul (saturating_mul b n_seq) copies in
      state_loop offload on n_seq copies (il + 1) bs
        (if dev then (cpu, saturating_add gpu bytes) else (saturating_add cpu bytes, gpu)))"

fun attention_layers :: "shape \<Rightarrow> nat list \<Rightarrow> nat list option" where
  "attention_layers sh [] = Some []"
| "attention_layers sh (il # ils) =
     Option.bind (nth_opt (sh_k_dims sh) il) (\<lambda>k.
     Option.bind (if k > 0 then nth_opt (sh_recurrent_bytes sh) il else Some 1) (\<lambda>r.
     map_option (\<lambda>rest. if k > 0 \<and> r = 0 then il # rest else rest) (attention_layers sh ils)))"

definition input_copies :: "context_plan \<Rightarrow> bool \<Rightarrow> launch_plan \<Rightarrow> nat \<Rightarrow> nat" where
  "input_copies plan gpu launch gpu_devices =
     (if gpu \<and> lp_pipeline_backend launch \<and> gpu_devices > 1 \<and> cp_ngl plan > sh_n_layer (cp_shape plan)
         \<and> sa_kv_offload (lp_args launch) \<and> \<not> ov_cpu_moe (cp_overrides plan)
         \<and> ov_n_cpu_moe (cp_overrides plan) = 0 \<and> ov_n_cpu_ffn (cp_overrides plan) = 0
      then 4 else 1)"

definition host_outputs :: "shape \<Rightarrow> nat \<Rightarrow> nat \<Rightarrow> resource_range" where
  "host_outputs sh n_seq ubatch =
     range_new (saturating_mul (saturating_mul (vocab_or sh vocab_low) n_seq) 4)
       (saturating_mul (saturating_mul (vocab_or sh vocab_high) ubatch) 4)"

text \<open>The memory on the devices; \<open>weights\<close> are the weights, caches and states placed there.\<close>

definition device_memory ::
  "launch_plan \<Rightarrow> weight_placement \<Rightarrow> nat \<Rightarrow> nat \<Rightarrow> nat \<Rightarrow> resource_range \<Rightarrow> resource_range" where
  "device_memory launch p weights gpu_devices masks device =
     (let compute = range_add (range_new (rr_min device) (saturating_mul (rr_max device) gpu_devices))
            (range_exact masks);
          compute = (if sa_op_offload (lp_args launch) \<and> wp_largest_cpu_layer p > 0
              then compute\<lparr>rr_max := saturating_add (rr_max compute) (wp_largest_cpu_layer p)\<rparr>
              else compute)
      in range_add (range_exact weights) compute)"

definition context_memory ::
  "context_plan \<Rightarrow> scenario \<Rightarrow> launch_plan \<Rightarrow> nat \<Rightarrow> context_cost option" where
  "context_memory plan sc launch gpu_devices =
     (let sh = cp_shape plan;
          offload = sa_kv_offload (lp_args launch);
          gpu = (sc_gpu sc \<and> cp_on_gpu plan);
          p = place (sh_tensors sh) (sh_n_layer sh) gpu (cp_ngl plan) (cp_overrides plan) True;
          type_k = kv_pick (cp_type_k plan);
          type_v = kv_pick (cp_type_v plan);
          (per_stream, streams) = kv_cells (sc_n_ctx sc) (sc_n_seq sc) (sc_unified sc);
          cached = [0..<sh_kv_layers sh];
          copies = (case cp_recurrent_copies plan of None \<Rightarrow> 4 | Some n \<Rightarrow> n)
      in Option.bind (kv_bytes sh cached (saturating_mul per_stream streams) type_k type_v
             (sc_flash_attn sc) p offload) (\<lambda>(kv_cpu, kv_gpu).
         Option.bind (state_loop offload (wp_layer_gpu p) (sc_n_seq sc) copies 0
             (take (sh_kv_layers sh) (sh_recurrent_bytes sh)) (0, 0)) (\<lambda>(state_cpu, state_gpu).
         Option.bind (attention_layers sh cached) (\<lambda>attention.
         Option.bind (if offload then traverse_o (nth_opt (wp_layer_gpu p)) attention else Some [])
           (\<lambda>attention_gpu.
         let quantized = (kv_quantized type_k \<or> kv_quantized type_v);
             any_gpu_layer = list_ex id (wp_layer_gpu p);
             any_cpu_layer = (list_ex Not (wp_layer_gpu p) \<or> wp_largest_cpu_layer p > 0);
             mask = (if attention = [] then 0
               else saturating_mul
                 (attention_mask_bytes per_stream (min (lp_ubatch launch) (sc_n_ctx sc)) (sc_flash_attn sc))
                 (input_copies plan gpu launch gpu_devices));
             mask_devices = min gpu_devices (length (filter id attention_gpu));
             buffer = compute_buffer sh (lp_ubatch launch) (sc_n_seq sc) per_stream
               (sc_flash_attn sc) quantized;
             staging = saturating_mul (saturating_mul (lp_ubatch launch) (sh_n_embd sh)) 4;
             cpu_compute = range_add (buffer any_cpu_layer (\<not> wp_output_gpu p))
               (range_exact (saturating_add staging mask));
             ram = range_add
               (range_exact (saturating_add (saturating_add (wp_cpu p) kv_cpu) state_cpu)) cpu_compute;
             vram = (if gpu then
                 device_memory launch p
                   (saturating_add (saturating_add (wp_gpu p) kv_gpu) state_gpu) gpu_devices
                   (saturating_mul mask mask_devices) (buffer any_gpu_layer (wp_output_gpu p))
               else range_zero)
         in Some \<lparr>cm_ram = range_add ram (host_outputs sh (sc_n_seq sc) (lp_ubatch launch)),
                  cm_vram = vram, cm_kv = saturating_add kv_cpu kv_gpu, cm_placement = p,
                  cm_cpu_cache = saturating_add kv_cpu state_cpu\<rparr>)))))"

definition scenario_of :: "launch_plan \<Rightarrow> shape \<Rightarrow> accelerator \<Rightarrow> scenario option" where
  "scenario_of launch main acc =
     (let n_seq = (case lp_parallel launch of None \<Rightarrow> auto_slots | Some n \<Rightarrow> n) in
      map_option (\<lambda>n_ctx. \<lparr>sc_gpu = (acc \<noteq> CpuOnly),
          sc_flash_attn = (case lp_flash_attn launch of None \<Rightarrow> True | Some b \<Rightarrow> b), sc_n_seq = n_seq,
          sc_unified = (case sa_kv_unified (lp_args launch) of
              None \<Rightarrow> lp_parallel launch = None | Some b \<Rightarrow> b),
          sc_n_ctx = n_ctx\<rparr>)
        (if lp_ctx launch > 0 then Some (lp_ctx launch)
         else map_option (\<lambda>n. saturating_mul n n_seq) (sh_n_ctx_train main)))"

section \<open>No index is out of range\<close>

definition shape_wf :: "shape \<Rightarrow> bool" where
  "shape_wf sh \<longleftrightarrow>
     length (sh_k_dims sh) = sh_n_layer sh \<and> length (sh_v_dims sh) = sh_n_layer sh \<and>
     length (sh_recurrent_bytes sh) = sh_n_layer sh \<and> sh_kv_layers sh \<le> sh_n_layer sh \<and>
     length (tb_layers (sh_tensors sh)) = sh_n_layer sh"

lemma hybrid_dimensions_length:
  "hybrid_dimensions facts n trunk e hybrid = Inr (bs, i, a) \<Longrightarrow> length bs = n"
  by (auto simp: hybrid_dimensions_def Let_def bind_r_Inr_iff traverse_r_Inr_iff
      split: if_splits dest: list_all2_lengthD)

lemma shape_of_wf: "shape_of facts scanned = Inr sh \<Longrightarrow> shape_wf sh"
  by (auto simp: shape_of_def Let_def bind_r_Inr_iff shape_wf_def implausible_def
      split: if_splits dest: hybrid_dimensions_length)

lemma place_layers_flags [simp]: "wp_layer_gpu (place_layers ov on il ls p) = wp_layer_gpu p"
  by (induction ov on il ls p rule: place_layers.induct) (simp_all add: Let_def)

lemma place_flags:
  "wp_layer_gpu (place t n gpu ngl ov dup) = map (\<lambda>il. il \<ge> fst (first_gpu_layer n gpu ngl)) [0..<n]"
  by (simp add: place_def Let_def split: prod.split)

lemma place_flags_length [simp]: "length (wp_layer_gpu (place t n gpu ngl ov dup)) = n"
  by (simp add: place_flags)

lemma kv_loop_total:
  assumes "shape_wf sh" and "\<forall>il \<in> set ils. il < sh_n_layer sh"
  shows "\<exists>r. kv_loop sh cells k v flash p offload ils acc = Some r"
  using assms(2)
proof (induction ils arbitrary: acc)
  case (Cons il ils)
  obtain cpu gpu where acc: "acc = (cpu, gpu)" by (cases acc)
  have "\<exists>b. kv_layer_bytes sh cells k v flash il = Some b"
    using Cons.prems assms(1) by (simp add: kv_layer_bytes_def shape_wf_def)
  then show ?case
    using Cons assms(1) by (auto simp: acc shape_wf_def)
next
  case Nil
  show ?case by (cases acc) simp
qed

lemma kv_bytes_total:
  "shape_wf sh \<Longrightarrow> \<forall>il \<in> set ils. il < sh_n_layer sh \<Longrightarrow>
   \<exists>r. kv_bytes sh ils cells k v flash p offload = Some r"
  unfolding kv_bytes_def by (rule kv_loop_total)

lemma state_loop_total:
  "(offload \<longrightarrow> il + length bs \<le> length on) \<Longrightarrow> \<exists>r. state_loop offload on n c il bs acc = Some r"
proof (induction bs arbitrary: il acc)
  case (Cons b bs)
  then show ?case by (cases acc) (auto simp: Let_def)
next
  case Nil
  show ?case by (cases acc) simp
qed

lemma attention_layers_total:
  assumes "shape_wf sh" and "\<forall>il \<in> set ils. il < sh_n_layer sh"
  shows "\<exists>r. attention_layers sh ils = Some r \<and> set r \<subseteq> set ils"
  using assms(2)
proof (induction ils)
  case (Cons il ils)
  then obtain r where "attention_layers sh ils = Some r" "set r \<subseteq> set ils" by auto
  with Cons.prems assms(1) show ?case by (auto simp: shape_wf_def)
qed simp

lemma traverse_o_nth_total:
  "\<forall>i \<in> set is. i < length xs \<Longrightarrow> \<exists>r. traverse_o (nth_opt xs) is = Some r"
  by (induction "is") auto

lemma context_memory_total:
  assumes "shape_wf (cp_shape plan)"
  shows "\<exists>m. context_memory plan sc launch devices = Some m"
proof -
  let ?sh = "cp_shape plan" and ?off = "sa_kv_offload (lp_args launch)"
  let ?p = "place (sh_tensors ?sh) (sh_n_layer ?sh) (sc_gpu sc \<and> cp_on_gpu plan) (cp_ngl plan)
    (cp_overrides plan) True"
  let ?copies = "case cp_recurrent_copies plan of None \<Rightarrow> 4 | Some n \<Rightarrow> n"
  have cached: "\<forall>il \<in> set [0..<sh_kv_layers ?sh]. il < sh_n_layer ?sh"
    using assms by (auto simp: shape_wf_def)
  obtain a b where cells: "kv_cells (sc_n_ctx sc) (sc_n_seq sc) (sc_unified sc) = (a, b)" by fastforce
  obtain kc kg where kv: "kv_bytes ?sh [0..<sh_kv_layers ?sh] (saturating_mul a b)
      (kv_pick (cp_type_k plan)) (kv_pick (cp_type_v plan)) (sc_flash_attn sc) ?p ?off = Some (kc, kg)"
    using kv_bytes_total [OF assms cached] by (metis surj_pair)
  obtain rc rg where st: "state_loop ?off (wp_layer_gpu ?p) (sc_n_seq sc) ?copies 0
      (take (sh_kv_layers ?sh) (sh_recurrent_bytes ?sh)) (0, 0) = Some (rc, rg)"
  proof -
    have "?off \<longrightarrow> 0 + length (take (sh_kv_layers ?sh) (sh_recurrent_bytes ?sh)) \<le> length (wp_layer_gpu ?p)"
      using assms by (simp add: shape_wf_def)
    from state_loop_total [OF this] that show ?thesis by (metis surj_pair)
  qed
  obtain at where at: "attention_layers ?sh [0..<sh_kv_layers ?sh] = Some at"
    and sub: "set at \<subseteq> set [0..<sh_kv_layers ?sh]"
    using attention_layers_total [OF assms cached] by blast
  obtain ag where ag: "(if ?off then traverse_o (nth_opt (wp_layer_gpu ?p)) at else Some []) = Some ag"
  proof (cases ?off)
    case True
    have "\<forall>i \<in> set at. i < length (wp_layer_gpu ?p)" using sub cached by auto
    from traverse_o_nth_total [OF this] True that show ?thesis by auto
  qed (use that in simp)
  show ?thesis
    unfolding context_memory_def Let_def cells prod.case kv st at ag bind.bind_lunit by blast
qed

section \<open>Where the weights go\<close>

lemma layer_split:
  assumes "layer_sum l < u64_bound"
  shows "layer_cpu_bytes ov on_gpu il l + layer_gpu_bytes ov on_gpu il l = layer_sum l"
  using assms by (auto simp: layer_cpu_bytes_def layer_gpu_bytes_def layer_total_def layer_sum_def sat_exact)

lemma place_layers_total:
  assumes "wp_cpu p + wp_gpu p + sum_list (map layer_sum ls) < u64_bound"
  shows "wp_cpu (place_layers ov on il ls p) + wp_gpu (place_layers ov on il ls p) =
    wp_cpu p + wp_gpu p + sum_list (map layer_sum ls)"
  using assms
proof (induction ov on il ls p rule: place_layers.induct)
  case (2 ov on il l ls p)
  let ?g = "il < length on \<and> on ! il"
  have split: "layer_cpu_bytes ov ?g il l + layer_gpu_bytes ov ?g il l = layer_sum l"
    using 2(2) by (intro layer_split) simp
  have cpu: "saturating_add (wp_cpu p) (layer_cpu_bytes ov ?g il l) = wp_cpu p + layer_cpu_bytes ov ?g il l"
    and gpu: "saturating_add (wp_gpu p) (layer_gpu_bytes ov ?g il l) = wp_gpu p + layer_gpu_bytes ov ?g il l"
    using 2(2) split by (auto intro!: sat_exact)
  show ?case
    using 2(1) [OF refl refl] 2(2) split by (simp add: Let_def cpu gpu)
qed simp

lemma place_layers_no_gpu:
  "\<forall>i < length on. \<not> on ! i \<Longrightarrow> wp_gpu p = 0 \<Longrightarrow> wp_gpu (place_layers ov on il ls p) = 0"
proof (induction ov on il ls p rule: place_layers.induct)
  case (2 ov on il l ls p)
  have none: "layer_gpu_bytes ov (il < length on \<and> on ! il) il l = 0"
  proof -
    have "(il < length on \<and> on ! il) = False" using 2(2) by blast
    then show ?thesis by (simp only: layer_gpu_bytes_def if_False)
  qed
  show ?case
    using 2(1) [OF refl refl 2(2)] 2(3) by (simp add: Let_def none)
qed simp

lemma place_layers_all_gpu:
  assumes "\<forall>i < length on. on ! i" and "il + length ls \<le> length on"
    and "\<not> ov_cpu_moe ov" and "ov_n_cpu_moe ov = 0" and "ov_n_cpu_ffn ov = 0" and "wp_cpu p < u64_bound"
  shows "wp_cpu (place_layers ov on il ls p) = wp_cpu p"
  using assms
proof (induction ov on il ls p rule: place_layers.induct)
  case (2 ov on il l ls p)
  have none: "layer_cpu_bytes ov (il < length on \<and> on ! il) il l = 0"
    using 2(2-6) by (simp add: layer_cpu_bytes_def)
  have "il + 1 + length ls \<le> length on" using 2(3) by simp
  from 2(1) [OF refl refl 2(2) this 2(4-6)] 2(7) show ?case
    by (simp add: Let_def none sat_exact)
qed simp

lemma place_no_gpu: "wp_gpu (place t n False ngl ov dup) = 0"
  unfolding place_def first_gpu_layer_def Let_def
  by (simp del: place_layers.simps) (rule place_layers_no_gpu, auto)

text \<open>The second copy of the embedding that a model without an output matrix loads on the device.\<close>

definition tied_copy :: "tensor_bytes \<Rightarrow> bool \<Rightarrow> bool \<Rightarrow> nat" where
  "tied_copy t dup output_gpu = (if dup \<and> \<not> tb_has_output_weight t \<and> output_gpu then tb_token_embd t else 0)"

lemma place_output_gpu [simp]:
  "wp_output_gpu (place t n gpu ngl ov dup) \<longleftrightarrow> gpu \<and> ngl > 0"
proof -
  have "wp_output_gpu (place_layers ov on il ls p) = wp_output_gpu p" for ov on il ls p
    by (induction ov on il ls p rule: place_layers.induct) (simp_all add: Let_def)
  then show ?thesis by (simp add: place_def first_gpu_layer_def Let_def)
qed

lemma place_total:
  assumes "exact_total t + tb_token_embd t < u64_bound"
  shows "wp_cpu (place t n gpu ngl ov dup) + wp_gpu (place t n gpu ngl ov dup) =
    exact_total t + tied_copy t dup (gpu \<and> ngl > 0)"
proof -
  obtain first out where fg: "first_gpu_layer n gpu ngl = (first, out)" by fastforce
  then have out: "out \<longleftrightarrow> gpu \<and> ngl > 0"
    by (auto simp: first_gpu_layer_def Let_def split: if_splits)
  define w where "w = (if dup \<and> \<not> tb_has_output_weight t \<and> out
    then saturating_add (tb_output t) (tb_token_embd t) else tb_output t)"
  define host where "host = saturating_add (tb_input t) (tb_token_embd t)"
  have w: "w = tb_output t + tied_copy t dup out"
    using assms by (simp add: w_def tied_copy_def exact_total_def sat_exact)
  have h: "host = tb_input t + tb_token_embd t"
    using assms by (simp add: host_def exact_total_def sat_exact)
  have le: "tied_copy t dup out \<le> tb_token_embd t" by (simp add: tied_copy_def)
  have hw: "\<not> out \<Longrightarrow> saturating_add host w = host + w"
    using assms by (intro sat_exact) (auto simp: w h exact_total_def tied_copy_def)
  let ?p = "\<lparr>wp_cpu = (if out then host else saturating_add host w),
      wp_gpu = (if out then w else 0), wp_layer_gpu = map (\<lambda>il. il \<ge> first) [0..<n],
      wp_output_gpu = out, wp_largest_cpu_layer = 0\<rparr>"
  have start: "wp_cpu ?p + wp_gpu ?p = host + w" using hw by simp
  have place: "place t n gpu ngl ov dup =
      place_layers ov (map (\<lambda>il. il \<ge> first) [0..<n]) 0 (tb_layers t) ?p"
    by (simp add: place_def fg Let_def w_def host_def)
  have "wp_cpu ?p + wp_gpu ?p + sum_list (map layer_sum (tb_layers t)) < u64_bound"
    unfolding start using assms le by (simp add: w h exact_total_def)
  from place_layers_total [OF this] show ?thesis
    unfolding place start by (simp add: w h exact_total_def out)
qed

lemma length_filter_ge: "length (filter (\<lambda>i. first \<le> i) [0..<n]) = n - first"
  by (induction n) auto

lemma place_gpu_count:
  "length (filter id (wp_layer_gpu (place t n gpu ngl ov dup))) = (if gpu then min n (ngl - 1) else 0)"
  by (auto simp: place_flags filter_map comp_def length_filter_ge first_gpu_layer_def Let_def min_def)

lemma place_all_gpu:
  assumes "gpu" and "ngl > n" and "length (tb_layers t) \<le> n" and "exact_total t < u64_bound"
    and "\<not> ov_cpu_moe ov" and "ov_n_cpu_moe ov = 0" and "ov_n_cpu_ffn ov = 0"
  shows "wp_cpu (place t n gpu ngl ov dup) = tb_input t + tb_token_embd t"
proof -
  have "first_gpu_layer n gpu ngl = (0, True)"
    using assms(1,2) by (simp add: first_gpu_layer_def)
  then show ?thesis
    using assms
    by (simp add: place_def Let_def place_layers_all_gpu sat_exact exact_total_def)
qed

section \<open>Lower and upper bounds\<close>

definition ordered_range :: "resource_range \<Rightarrow> bool" where
  "ordered_range r \<longleftrightarrow> rr_min r \<le> rr_max r"

lemma sat_add_mono: "a \<le> a' \<Longrightarrow> b \<le> b' \<Longrightarrow> saturating_add a b \<le> saturating_add a' b'"
  by (auto simp: saturating_add_def)

lemma sat_mul_mono: "a \<le> a' \<Longrightarrow> b \<le> b' \<Longrightarrow> saturating_mul a b \<le> saturating_mul a' b'"
  by (auto simp: saturating_mul_def intro: min.coboundedI1 mult_le_mono)

lemma sat_le: "a < u64_bound \<Longrightarrow> a \<le> saturating_add a b"
  by (auto simp: saturating_add_def)

lemma ordered_exact [simp]: "ordered_range (range_exact n)" "ordered_range range_zero"
  by (simp_all add: ordered_range_def range_exact_def range_new_def range_zero_def)

lemma ordered_new: "ordered_range (range_new a b) \<longleftrightarrow> a \<le> b"
  by (simp add: ordered_range_def range_new_def)

lemma ordered_add [intro]: "ordered_range a \<Longrightarrow> ordered_range b \<Longrightarrow> ordered_range (range_add a b)"
  by (simp add: ordered_range_def range_add_def range_new_def sat_add_mono)

lemma ordered_max:
  "ordered_range a \<Longrightarrow> ordered_range b \<Longrightarrow>
   ordered_range (range_new (max (rr_min a) (rr_min b)) (max (rr_max a) (rr_max b)))"
  by (auto simp: ordered_range_def range_new_def)

lemma ordered_sub [intro]: "ordered_range r \<Longrightarrow> ordered_range (range_sub n r)"
  by (simp add: ordered_range_def range_sub_def range_new_def)

lemma sat_mul_bounded [simp]: "saturating_mul a b < u64_bound"
  by (simp add: saturating_mul_def u64_bound_def)

lemma sat_mul_ge: "a < u64_bound \<Longrightarrow> b \<ge> 1 \<Longrightarrow> a \<le> saturating_mul a b"
  by (simp add: saturating_mul_def)

lemma ordered_attention: "ordered_range (attention_range sh u kv flash q)"
  by (auto simp: attention_range_def Let_def ordered_new f32s_def intro: sat_le sat_mul_ge)

lemma vocab_or_mono: "m \<le> n \<Longrightarrow> vocab_or sh m \<le> vocab_or sh n"
  by (simp add: vocab_or_def split: option.split)

lemma vocab_bounds: "vocab_or sh vocab_low \<le> vocab_or sh vocab_high"
  by (rule vocab_or_mono) (simp add: vocab_low_def vocab_high_def)

lemma ordered_compute_buffer: "ordered_range (compute_buffer sh u n kv flash q layers has_out)"
proof -
  let ?act = "f32s (saturating_mul (saturating_mul u (sh_activation_width sh)) 4)"
  let ?ffn = "f32s (saturating_mul (saturating_mul u (sh_n_ff sh)) 3)"
  let ?att = "attention_range sh u kv flash q"
  let ?rec = "saturating_mul (saturating_mul (widest (sh_recurrent_bytes sh))
      (saturating_add (div_ceil u 64) n)) 2"
  let ?layer = "range_new (saturating_add ?act (max ?ffn (rr_min ?att)))
      (saturating_add ?act (max (max ?ffn (rr_max ?att)) ?rec))"
  let ?out = "range_add (range_exact ?act)
      (range_new (f32s (saturating_mul (vocab_or sh vocab_low) (min n u)))
        (f32s (saturating_mul (vocab_or sh vocab_high) u)))"
  have "rr_min ?att \<le> rr_max ?att" using ordered_attention [of sh u kv flash q]
    by (simp add: ordered_range_def)
  then have layer: "ordered_range ?layer"
    by (auto simp: ordered_new intro!: sat_add_mono)
  have out: "ordered_range ?out"
    by (rule ordered_add, simp)
       (auto simp: ordered_new f32s_def intro!: sat_mul_mono vocab_bounds)
  have peak: "ordered_range (if layers then ?layer else range_zero)" using layer by simp
  show ?thesis
    unfolding compute_buffer_def Let_def
    using peak ordered_max [OF peak out] by (cases has_out) simp_all
qed

lemma ordered_host_outputs:
  "n \<le> u \<Longrightarrow> ordered_range (host_outputs sh n u)"
  by (auto simp: host_outputs_def ordered_new intro!: sat_mul_mono vocab_bounds)

lemma compute_buffer_max_bounded: "rr_max (compute_buffer sh u n kv flash q layers out) < u64_bound"
  by (auto simp: compute_buffer_def Let_def range_new_def range_add_def range_exact_def range_zero_def
      saturating_add_def u64_bound_def)

lemma ordered_device_memory:
  assumes "ordered_range device" and "rr_max device < u64_bound" and "devices \<ge> 1"
  shows "ordered_range (device_memory launch p weights devices masks device)"
proof -
  have "rr_min device \<le> saturating_mul (rr_max device) devices"
    using assms sat_mul_ge [OF assms(2,3)] by (simp add: ordered_range_def)
  then have c: "ordered_range (range_add (range_new (rr_min device) (saturating_mul (rr_max device) devices))
      (range_exact masks))"
    by (intro ordered_add) (simp_all add: ordered_new)
  have grow: "ordered_range r \<Longrightarrow> rr_max r < u64_bound \<Longrightarrow>
      ordered_range (r\<lparr>rr_max := saturating_add (rr_max r) k\<rparr>)" for r k
    using sat_le [of "rr_max r" k] by (simp add: ordered_range_def)
  have b: "rr_max (range_add a b) < u64_bound" for a b
    by (simp add: range_add_def range_new_def saturating_add_def u64_bound_def)
  show ?thesis
    unfolding device_memory_def Let_def using c grow [OF c b]
    by (intro ordered_add) simp_all
qed

lemma context_memory_ordered:
  assumes "context_memory plan sc launch devices = Some m" and "devices \<ge> 1"
  shows "ordered_range (cm_vram m) \<and>
    (sc_n_seq sc \<le> lp_ubatch launch \<longrightarrow> ordered_range (cm_ram m))"
  using assms(1)
  unfolding context_memory_def Let_def
  by (auto split: prod.splits if_splits bind_splits
      intro!: ordered_add ordered_device_memory ordered_compute_buffer compute_buffer_max_bounded
        ordered_host_outputs assms(2))

section \<open>Properties\<close>

text \<open>C35. Every weight is placed exactly once. The bytes on the host and on the devices add up to the
  tensors of the model, plus the one embedding that a model without an output matrix loads twice;
  without a device everything is on the host; \<open>N\<close> offloaded layers put the output and the last
  \<open>N - 1\<close> layers on the device; and offloading more than all layers, with nothing kept back, leaves
  only the input tensors on the host.\<close>

theorem weights_placed_once:
  assumes "exact_total t + tb_token_embd t < u64_bound"
    and "p = place t n gpu ngl ov dup"
  shows "wp_cpu p + wp_gpu p = exact_total t + tied_copy t dup (wp_output_gpu p) \<and>
    (\<not> gpu \<longrightarrow> wp_gpu p = 0) \<and>
    (wp_output_gpu p \<longleftrightarrow> gpu \<and> ngl > 0) \<and>
    length (filter id (wp_layer_gpu p)) = (if gpu then min n (ngl - 1) else 0) \<and>
    (\<forall>i j. i \<le> j \<and> j < n \<and> wp_layer_gpu p ! i \<longrightarrow> wp_layer_gpu p ! j) \<and>
    (gpu \<and> ngl > n \<and> length (tb_layers t) \<le> n \<and> \<not> ov_cpu_moe ov \<and> ov_n_cpu_moe ov = 0 \<and>
       ov_n_cpu_ffn ov = 0 \<longrightarrow> wp_cpu p = tb_input t + tb_token_embd t)"
  using assms(1) place_total [OF assms(1)] place_no_gpu place_all_gpu place_gpu_count
  by (auto simp: assms(2)) (auto simp: place_flags)

definition demo_tensors :: tensor_bytes where
  "demo_tensors =
     \<lparr>tb_input = 1, tb_per_layer_token_embd = 0, tb_token_embd = 10, tb_output = 2,
      tb_layers = [\<lparr>lb_experts = 0, lb_dense_ffn = 5, lb_other = 7\<rparr>,
                   \<lparr>lb_experts = 3, lb_dense_ffn = 5, lb_other = 7\<rparr>],
      tb_has_output_weight = False, tb_vocab = Some 100\<rparr>"

theorem weights_placed_once_witness:
  "let p = place demo_tensors 2 True 2 \<lparr>ov_cpu_moe = True, ov_n_cpu_moe = 0, ov_n_cpu_ffn = 0\<rparr> True
   in wp_cpu p + wp_gpu p = 50 \<and> length (filter id (wp_layer_gpu p)) = 1"
proof -
  have "exact_total demo_tensors + tb_token_embd demo_tensors < u64_bound"
    by (simp add: exact_total_def demo_tensors_def layer_sum_def u64_bound_def)
  from weights_placed_once [OF this refl] show ?thesis
    by (simp add: Let_def tied_copy_def) (simp add: demo_tensors_def exact_total_def layer_sum_def)
qed

end

