(* ===== verification/EstimateFiles.thy ===== *)
theory EstimateFiles
  imports EstimateModel
begin

text \<open>
  The files behind an estimate: the shards of a model (\<open>src-tauri/src/models.rs\<close>), the size on disk
  counted once per file, the cache of header facts, and \<open>load_model\<close>
  (\<open>src-tauri/src/resource_estimate.rs\<close>).

  The file system is a \<open>file_view\<close>: what \<open>canonicalize\<close>, \<open>metadata\<close> and reading a file answer, with
  Unix paths. The cache is explicit state. \<open>None\<close> of a loaded model is a panic of the header scan.
\<close>

section \<open>Paths and shards\<close>

text \<open>\<open>Path::file_name\<close>, \<open>Path::parent\<close>, \<open>Path::extension\<close> and \<open>Path::join\<close> on Unix paths.\<close>

definition path_components :: "string \<Rightarrow> string list" where
  "path_components p = filter (\<lambda>c. c \<noteq> [] \<and> c \<noteq> ''.'') (split_on CHR ''/'' p)"

definition path_file_name :: "string \<Rightarrow> string option" where
  "path_file_name p =
     (let cs = path_components p in
      if cs = [] \<or> last cs = ''..'' then None else Some (last cs))"

text \<open>Drops trailing separators and \<open>/.\<close> of a reversed path; the root stays.\<close>

fun drop_trailing :: "string \<Rightarrow> string" where
  "drop_trailing (c # d # s) =
     (if c = CHR ''/'' then drop_trailing (d # s)
      else if c = CHR ''.'' \<and> d = CHR ''/'' \<and> s \<noteq> [] then drop_trailing s
      else c # d # s)"
| "drop_trailing s = s"

definition path_parent :: "string \<Rightarrow> string" where
  "path_parent p =
     (case path_file_name p of
        None \<Rightarrow> []
      | Some name \<Rightarrow> rev (drop_trailing (drop (length name) (drop_trailing (rev p)))))"

definition path_join :: "string \<Rightarrow> string \<Rightarrow> string" where
  "path_join parent name =
     (if parent = [] \<or> last parent = CHR ''/'' then parent @ name else parent @ ''/'' @ name)"

definition path_extension :: "string \<Rightarrow> string option" where
  "path_extension p =
     (case path_file_name p of
        None \<Rightarrow> None
      | Some name \<Rightarrow>
          (case rsplit_once CHR ''.'' name of
             None \<Rightarrow> None | Some (before, ext) \<Rightarrow> if before = [] then None else Some ext))"

definition five_digits :: "string \<Rightarrow> bool" where
  "five_digits s \<longleftrightarrow> length s = 5 \<and> list_all is_ascii_digit s"

definition shard_name :: "string \<Rightarrow> (string \<times> nat \<times> nat) option" where
  "shard_name name =
     Option.bind (rsplit_once CHR ''.'' name) (\<lambda>(stem, extension).
      if \<not> eq_ignore_ascii_case extension ''gguf'' then None
      else Option.bind (rsplit_sub ''-of-'' stem) (\<lambda>(pre, total_text).
      Option.bind (rsplit_once CHR ''-'' pre) (\<lambda>(base, index_text).
      if base = [] \<or> \<not> five_digits index_text \<or> \<not> five_digits total_text then None
      else Option.bind (parse_unsigned (2 ^ 64) index_text) (\<lambda>index.
      Option.bind (parse_unsigned (2 ^ 64) total_text) (\<lambda>count.
      if count > 1 \<and> index > 0 \<and> index \<le> count then Some (base, index, count) else None)))))"

definition pad5 :: "nat \<Rightarrow> string" where
  "pad5 n = (let d = digits_of_nat n in replicate (5 - length d) CHR ''0'' @ d)"

definition shard_file :: "string \<Rightarrow> nat \<Rightarrow> nat \<Rightarrow> string \<Rightarrow> string" where
  "shard_file base index count extension =
     base @ ''-'' @ pad5 index @ ''-of-'' @ pad5 count @ ''.'' @ extension"

definition model_files :: "string \<Rightarrow> string list option" where
  "model_files path =
     (case Option.bind (path_file_name path) shard_name of
        None \<Rightarrow> Some [path]
      | Some (base, _, count) \<Rightarrow>
          if count > max_shards then None
          else
            let extension = (case path_extension path of None \<Rightarrow> ''gguf'' | Some e \<Rightarrow> e)
            in Some (map (\<lambda>i. path_join (path_parent path) (shard_file base i count extension))
                 [1..<count + 1]))"

section \<open>Disk use\<close>

record file_view =
  fv_canonical :: "string \<Rightarrow> string option"
  fv_metadata :: "string \<Rightarrow> (bool \<times> nat \<times> nat option) option"
  fv_content :: "string \<Rightarrow> bytes option"

record disk_use =
  du_seen :: "string list"
  du_model :: nat
  du_auxiliary :: nat
  du_complete :: bool

definition disk_new :: disk_use where
  "disk_new = \<lparr>du_seen = [], du_model = 0, du_auxiliary = 0, du_complete = True\<rparr>"

definition found_file :: "file_view \<Rightarrow> string \<Rightarrow> (string \<times> nat \<times> nat option) option" where
  "found_file fs path =
     Option.bind (fv_canonical fs path) (\<lambda>canonical.
     Option.bind (fv_metadata fs canonical) (\<lambda>(is_file, len, modified).
     if is_file then Some (canonical, len, modified) else None))"

definition disk_add :: "bool \<Rightarrow> string \<Rightarrow> nat \<Rightarrow> disk_use \<Rightarrow> disk_use" where
  "disk_add auxiliary canonical len d =
     (if canonical \<in> set (du_seen d) then d
      else
        let d = d\<lparr>du_seen := canonical # du_seen d\<rparr> in
        if auxiliary then d\<lparr>du_auxiliary := saturating_add (du_auxiliary d) len\<rparr>
        else d\<lparr>du_model := saturating_add (du_model d) len\<rparr>)"

definition disk_count ::
  "file_view \<Rightarrow> string \<Rightarrow> bool \<Rightarrow> disk_use \<Rightarrow> (string \<times> nat \<times> nat option) option \<times> disk_use" where
  "disk_count fs path auxiliary d =
     (case found_file fs path of
        None \<Rightarrow> (None, d\<lparr>du_complete := False\<rparr>)
      | Some (canonical, len, modified) \<Rightarrow>
          (Some (canonical, len, modified), disk_add auxiliary canonical len d))"

section \<open>The cache of header facts\<close>

record cached_facts =
  ch_len :: nat
  ch_modified :: "nat option"
  ch_facts :: "string + model_facts"

record facts_cache =
  fc_entries :: "(string \<times> cached_facts) list"
  fc_order :: "string list"

definition touch_facts :: "string \<Rightarrow> facts_cache \<Rightarrow> facts_cache" where
  "touch_facts canonical c =
     (if fc_order c \<noteq> [] \<and> last (fc_order c) = canonical then c
      else c\<lparr>fc_order := remove1 canonical (fc_order c) @ [canonical]\<rparr>)"

definition cache_hit ::
  "string \<Rightarrow> nat \<Rightarrow> nat option \<Rightarrow> facts_cache \<Rightarrow> (string + model_facts) option \<times> facts_cache" where
  "cache_hit canonical len modified c =
     (case map_of (fc_entries c) canonical of
        None \<Rightarrow> (None, c)
      | Some e \<Rightarrow>
          if ch_len e = len \<and> ch_modified e = modified then (Some (ch_facts e), touch_facts canonical c)
          else (None, c))"

definition cache_evict :: "string \<Rightarrow> facts_cache \<Rightarrow> facts_cache" where
  "cache_evict canonical c =
     (if length (fc_entries c) \<ge> max_cached_facts \<and> map_of (fc_entries c) canonical = None then
        (case fc_order c of
           [] \<Rightarrow> c
         | oldest # order \<Rightarrow>
             c\<lparr>fc_order := order, fc_entries := map_remove oldest (fc_entries c)\<rparr>)
      else c)"

definition cache_insert ::
  "string \<Rightarrow> nat \<Rightarrow> nat option \<Rightarrow> string + model_facts \<Rightarrow> facts_cache \<Rightarrow> facts_cache" where
  "cache_insert canonical len modified facts c =
     (let c = cache_evict canonical c;
          e = \<lparr>ch_len = len, ch_modified = modified, ch_facts = facts\<rparr>
      in touch_facts canonical
           (c\<lparr>fc_entries := (canonical, e) # map_remove canonical (fc_entries c)\<rparr>))"

text \<open>A file that cannot be opened is the error of the scan.\<close>

definition scan_facts :: "file_view \<Rightarrow> string \<Rightarrow> (string + model_facts) option" where
  "scan_facts fs canonical =
     (case fv_content fs canonical of
        None \<Rightarrow> Some (Inl unreadable_message) | Some bytes \<Rightarrow> read_model_facts bytes)"

definition cached_facts_in ::
  "file_view \<Rightarrow> string \<Rightarrow> nat \<Rightarrow> nat option \<Rightarrow> facts_cache \<Rightarrow>
   ((string + model_facts) \<times> facts_cache) option" where
  "cached_facts_in fs canonical len modified c =
     (case cache_hit canonical len modified c of
        (Some facts, c) \<Rightarrow> Some (facts, c)
      | (None, c) \<Rightarrow>
          map_option (\<lambda>facts. (facts, cache_insert canonical len modified facts c))
            (scan_facts fs canonical))"

section \<open>Loading a model\<close>

record found_model =
  fm_facts :: model_facts
  fm_tensors :: "tensor_bytes option"

datatype loaded = LoadedReady found_model | LoadedMissing | LoadedUnreadable

definition facts_none :: model_facts where
  "facts_none = facts_of scan_keys_new None"

record shards =
  sd_first :: "model_facts option"
  sd_tensors :: "tensor_bytes option"
  sd_missing :: bool

definition add_shard :: "string + model_facts \<Rightarrow> shards \<Rightarrow> shards" where
  "add_shard r s =
     (case r of
        Inr facts \<Rightarrow>
          s\<lparr>sd_tensors := (case (sd_tensors s, mf_tensors facts) of
                 (Some t, Some shard) \<Rightarrow> Some (absorb t shard) | _ \<Rightarrow> None),
            sd_first := or_else (sd_first s) (Some facts)\<rparr>
      | Inl _ \<Rightarrow> s\<lparr>sd_tensors := None, sd_first := or_else (sd_first s) (Some facts_none)\<rparr>)"

fun load_shards ::
  "file_view \<Rightarrow> bool \<Rightarrow> string list \<Rightarrow> shards \<times> disk_use \<times> facts_cache \<Rightarrow>
   (shards \<times> disk_use \<times> facts_cache) option" where
  "load_shards fs auxiliary [] x = Some x"
| "load_shards fs auxiliary (f # rest) (s, d, c) =
     (case disk_count fs f auxiliary d of
        (None, d) \<Rightarrow> load_shards fs auxiliary rest (s\<lparr>sd_missing := True\<rparr>, d, c)
      | (Some (canonical, len, modified), d) \<Rightarrow>
          Option.bind (cached_facts_in fs canonical len modified c) (\<lambda>(r, c).
            load_shards fs auxiliary rest (add_shard r s, d, c)))"

definition load_model ::
  "file_view \<Rightarrow> string \<Rightarrow> bool \<Rightarrow> disk_use \<Rightarrow> facts_cache \<Rightarrow> (loaded \<times> disk_use \<times> facts_cache) option"
where
  "load_model fs path auxiliary d c =
     (case model_files (trim path) of
        None \<Rightarrow> Some (LoadedMissing, d\<lparr>du_complete := False\<rparr>, c)
      | Some files \<Rightarrow>
          map_option (\<lambda>(s, d, c).
            let short = (case Option.bind (sd_first s) mf_split_count of
                    None \<Rightarrow> False | Some count \<Rightarrow> count > 1 \<and> count \<noteq> length files);
                d = (if short then d\<lparr>du_complete := False\<rparr> else d);
                result = (if sd_missing s \<or> short then LoadedMissing
                  else case sd_first s of
                    None \<Rightarrow> LoadedUnreadable
                  | Some facts \<Rightarrow>
                      if mf_architecture facts \<noteq> None
                      then LoadedReady \<lparr>fm_facts = facts, fm_tensors = sd_tensors s\<rparr>
                      else LoadedUnreadable)
            in (result, d, c))
          (load_shards fs auxiliary files
             (\<lparr>sd_first = None, sd_tensors = Some tensor_bytes_none, sd_missing = False\<rparr>, d, c)))"

section \<open>The cache stays bounded and honest\<close>

definition cache_ok :: "facts_cache \<Rightarrow> bool" where
  "cache_ok c \<longleftrightarrow>
     distinct (map fst (fc_entries c)) \<and> distinct (fc_order c) \<and>
     set (fc_order c) = set (map fst (fc_entries c)) \<and> length (fc_entries c) \<le> max_cached_facts"

text \<open>An entry that matches the file on disk holds what scanning the file would give.\<close>

definition cache_honest :: "file_view \<Rightarrow> facts_cache \<Rightarrow> bool" where
  "cache_honest fs c \<longleftrightarrow>
     (\<forall>p e. map_of (fc_entries c) p = Some e \<and> fv_metadata fs p = Some (True, ch_len e, ch_modified e) \<longrightarrow>
            scan_facts fs p = Some (ch_facts e))"

lemma touch_facts_entries [simp]: "fc_entries (touch_facts p c) = fc_entries c"
  by (simp add: touch_facts_def)

lemma touch_facts_order:
  assumes "distinct (fc_order c)"
  shows "distinct (fc_order (touch_facts p c)) \<and> set (fc_order (touch_facts p c)) = insert p (set (fc_order c))"
  using assms by (auto simp: touch_facts_def set_remove1_eq)

lemma cache_hit_ok: "cache_ok c \<Longrightarrow> cache_ok (snd (cache_hit p len m c))"
proof -
  assume ok: "cache_ok c"
  have "p \<in> set (fc_order c)" if "map_of (fc_entries c) p = Some e" for e
    using ok that by (auto simp: cache_ok_def dest: map_of_SomeD) (metis fst_conv image_eqI map_of_SomeD)
  with ok touch_facts_order [of c p] show ?thesis
    by (auto simp: cache_hit_def cache_ok_def insert_absorb split: option.splits)
qed

lemma length_map_remove_less:
  "k \<in> set (map fst m) \<Longrightarrow> length (map_remove k m) < length m"
  unfolding map_remove_def by (auto intro: length_filter_less)

lemma cache_evict_ok:
  assumes "cache_ok c"
  shows "cache_ok (cache_evict p c) \<and>
    (map_of (fc_entries (cache_evict p c)) p = None \<longrightarrow>
       length (fc_entries (cache_evict p c)) < max_cached_facts)"
proof (cases "length (fc_entries c) \<ge> max_cached_facts \<and> map_of (fc_entries c) p = None")
  case True
  then have "fc_entries c \<noteq> []" by (auto simp: max_cached_facts_def)
  with assms obtain oldest order where order: "fc_order c = oldest # order"
    by (cases "fc_order c") (auto simp: cache_ok_def)
  with assms have k: "oldest \<in> set (map fst (fc_entries c))" by (auto simp: cache_ok_def)
  from True assms have len: "length (fc_entries c) = max_cached_facts" by (simp add: cache_ok_def)
  have keys: "set order = set (map fst (map_remove oldest (fc_entries c)))"
    using assms order by (auto simp: cache_ok_def simp del: set_map)
  with True assms order len length_map_remove_less [OF k] show ?thesis
    by (auto simp: cache_evict_def cache_ok_def map_remove_distinct simp del: set_map)
next
  case False
  then show ?thesis using assms by (auto simp: cache_evict_def cache_ok_def)
qed

lemma cache_insert_ok:
  assumes "cache_ok c"
  shows "cache_ok (cache_insert p len m f c)"
proof -
  let ?c = "cache_evict p c" and ?e = "\<lparr>ch_len = len, ch_modified = m, ch_facts = f\<rparr>"
  note ok = cache_evict_ok [OF assms, of p]
  let ?c' = "?c\<lparr>fc_entries := (p, ?e) # map_remove p (fc_entries ?c)\<rparr>"
  have dist: "distinct (map fst (fc_entries ?c'))"
    using ok by (auto simp: cache_ok_def map_remove_distinct simp del: set_map)
  have len: "length (fc_entries ?c') \<le> max_cached_facts"
  proof (cases "map_of (fc_entries ?c) p")
    case None
    with ok map_remove_length [of p "fc_entries ?c"] show ?thesis by simp
  next
    case (Some e)
    then have "p \<in> set (map fst (fc_entries ?c))" by (metis map_of_None_iff option.distinct(1))
    from length_map_remove_less [OF this] ok show ?thesis by (simp add: cache_ok_def)
  qed
  have keys: "set (map fst (fc_entries ?c')) = insert p (set (fc_order ?c))"
    using ok by (auto simp: cache_ok_def simp del: set_map)
  have "distinct (fc_order ?c')" using ok by (simp add: cache_ok_def)
  from touch_facts_order [OF this, of p] dist len keys show ?thesis
    by (simp add: cache_insert_def Let_def cache_ok_def)
qed

text \<open>What any number of launches, in any order, do to the shared cache.\<close>

inductive cache_step :: "facts_cache \<Rightarrow> facts_cache \<Rightarrow> bool" where
  hit: "cache_step c (snd (cache_hit p len m c))"
| insertion: "cache_step c (cache_insert p len m f c)"

definition cache_init :: "facts_cache \<Rightarrow> bool" where
  "cache_init c \<longleftrightarrow> c = \<lparr>fc_entries = [], fc_order = []\<rparr>"

interpretation facts_cache: invariant_system cache_init cache_step cache_ok
proof
  show "cache_init c \<Longrightarrow> cache_ok c" for c by (simp add: cache_init_def cache_ok_def)
  show "cache_step c d \<Longrightarrow> cache_ok c \<Longrightarrow> cache_ok d" for c d
    by (induction rule: cache_step.induct) (simp_all add: cache_hit_ok cache_insert_ok)
qed

lemma scan_facts_total: "\<exists>r. scan_facts fs p = Some r"
  using read_model_facts_total by (auto simp: scan_facts_def split: option.split)

lemma map_of_cache_evict:
  "map_of (fc_entries (cache_evict p c)) q = Some e \<Longrightarrow> map_of (fc_entries c) q = Some e"
  by (auto simp: cache_evict_def map_of_map_remove split: if_splits list.splits)

lemma cached_facts_in_spec:
  assumes "cache_honest fs c" and "fv_metadata fs p = Some (True, len, m)"
  shows "\<exists>r d. cached_facts_in fs p len m c = Some (r, d) \<and> scan_facts fs p = Some r \<and> cache_honest fs d"
proof (cases "cache_hit p len m c")
  case (Pair hit d)
  show ?thesis
  proof (cases hit)
    case None
    with Pair have "d = c" by (auto simp: cache_hit_def split: option.splits if_splits)
    moreover obtain r where r: "scan_facts fs p = Some r" using scan_facts_total by blast
    moreover have "cache_honest fs (cache_insert p len m r c)"
      using assms r
      by (auto simp: cache_honest_def cache_insert_def Let_def map_of_map_remove
          dest!: map_of_cache_evict split: if_splits)
    ultimately show ?thesis using Pair None by (simp add: cached_facts_in_def)
  next
    case (Some r)
    with Pair assms have "scan_facts fs p = Some r" "cache_honest fs d"
      by (auto simp: cache_hit_def cache_honest_def split: option.splits if_splits)
    with Pair Some show ?thesis by (simp add: cached_facts_in_def)
  qed
qed

lemma cached_facts_in_ok:
  "cached_facts_in fs p len m c = Some (r, d) \<Longrightarrow> cache_ok c \<Longrightarrow> cache_ok d"
  using cache_hit_ok [of c p len m] cache_insert_ok
  by (auto simp: cached_facts_in_def split: prod.splits option.splits)

lemma disk_count_metadata:
  "disk_count fs f aux d = (Some (p, len, m), d') \<Longrightarrow> fv_metadata fs p = Some (True, len, m)"
  by (auto simp: disk_count_def found_file_def split: option.splits bind_splits if_splits)

definition cache_good :: "file_view \<Rightarrow> facts_cache \<Rightarrow> bool" where
  "cache_good fs c \<longleftrightarrow> cache_ok c \<and> cache_honest fs c"

lemma cached_facts_in_good:
  assumes "cache_good fs c" and "cache_good fs k" and "fv_metadata fs p = Some (True, len, m)"
  shows "\<exists>r c' k'. cached_facts_in fs p len m c = Some (r, c') \<and> cached_facts_in fs p len m k = Some (r, k') \<and>
    cache_good fs c' \<and> cache_good fs k'"
proof -
  have "\<exists>c'. cached_facts_in fs p len m c = Some (r, c') \<and> cache_good fs c'"
    if "cache_good fs c" "scan_facts fs p = Some r" for c r
    using cached_facts_in_spec [of fs c p len m] cached_facts_in_ok [of fs p len m c] that assms(3)
    by (auto simp: cache_good_def)
  with assms(1,2) scan_facts_total [of fs p] show ?thesis by metis
qed

lemma load_shards_good:
  assumes "cache_good fs c" and "cache_good fs k"
  shows "\<exists>s' d' c' k'. load_shards fs aux files (s, d, c) = Some (s', d', c') \<and>
    load_shards fs aux files (s, d, k) = Some (s', d', k') \<and> cache_good fs c' \<and> cache_good fs k'"
  using assms
proof (induction files arbitrary: s d c k)
  case (Cons f files)
  obtain x d1 where count: "disk_count fs f aux d = (x, d1)" by fastforce
  show ?case
  proof (cases x)
    case None
    with Cons count show ?thesis by simp
  next
    case (Some y)
    obtain p len m where y: "y = (p, len, m)" by (cases y) auto
    have "fv_metadata fs p = Some (True, len, m)"
      using disk_count_metadata count Some y by auto
    from cached_facts_in_good [OF Cons.prems this] Cons.IH count Some y show ?thesis by fastforce
  qed
qed simp

lemma load_model_good:
  assumes "cache_good fs c" and "cache_good fs k"
  shows "\<exists>r d' c' k'. load_model fs path aux d c = Some (r, d', c') \<and>
    load_model fs path aux d k = Some (r, d', k') \<and> cache_good fs c' \<and> cache_good fs k'"
proof (cases "model_files (trim path)")
  case None
  with assms show ?thesis by (simp add: load_model_def)
next
  case (Some files)
  let ?s = "\<lparr>sd_first = None, sd_tensors = Some tensor_bytes_none, sd_missing = False\<rparr>"
  obtain s' d' c' k' where "load_shards fs aux files (?s, d, c) = Some (s', d', c')"
    "load_shards fs aux files (?s, d, k) = Some (s', d', k')" "cache_good fs c'" "cache_good fs k'"
    using load_shards_good [OF assms] by blast
  with Some show ?thesis by (simp add: load_model_def Let_def)
qed

end

