(* ===== verification/Estimate.thy ===== *)
theory Estimate
  imports EstimateFiles
begin

text \<open>
  The memory estimate of a launch configuration, \<open>estimate_memory\<close> and \<open>estimate\<close> of
  \<open>src-tauri/src/resource_estimate.rs\<close>.

  Notes are a set, as the \<open>BTreeSet\<close> of the code; \<open>sorted_notes\<close> is its order. \<open>None\<close> is a panic. For
  another engine than llama.cpp the size of the inspected artifact and whether its files are ready
  are arguments.
\<close>

section \<open>Gathering the files\<close>

definition all_notes :: "estimate_note list" where
  "all_notes =
     [Approximate, Automatic, MissingMetadata, UnsupportedArchitecture, MissingFiles, Auxiliary,
      SharedMemory, AdvancedOptions, CapacityUnknown, PlacementAdjustment, DiskOffload, LazyOffload]"

definition sorted_notes :: "estimate_note set \<Rightarrow> estimate_note list" where
  "sorted_notes notes = filter (\<lambda>n. n \<in> notes) all_notes"

record memory_estimate =
  me_ram :: "resource_range option"
  me_vram :: "resource_range option"
  me_disk_bytes :: nat
  me_disk_complete :: bool
  me_model_bytes :: nat
  me_auxiliary_bytes :: nat
  me_kv_bytes :: "nat option"
  me_ram_capacity_bytes :: "nat option"
  me_notes :: "estimate_note list"
  me_cpu_offload_bytes :: "nat option"
  me_lazy_offload_bytes :: nat

text \<open>What the loading phase carries along.\<close>

record load_state =
  ls_disk :: disk_use
  ls_cache :: facts_cache
  ls_notes :: "estimate_note set"
  ls_blocked :: bool

definition add_note :: "estimate_note \<Rightarrow> load_state \<Rightarrow> load_state" where
  "add_note n st = st\<lparr>ls_notes := insert n (ls_notes st)\<rparr>"

definition note_blocking :: "estimate_note \<Rightarrow> load_state \<Rightarrow> load_state" where
  "note_blocking n st = (add_note n st)\<lparr>ls_blocked := True\<rparr>"

definition mark_incomplete :: "load_state \<Rightarrow> load_state" where
  "mark_incomplete st = st\<lparr>ls_disk := (ls_disk st)\<lparr>du_complete := False\<rparr>\<rparr>"

definition load_in ::
  "file_view \<Rightarrow> string \<Rightarrow> bool \<Rightarrow> load_state \<Rightarrow> (loaded \<times> load_state) option" where
  "load_in fs path auxiliary st =
     map_option (\<lambda>(r, d, c). (r, st\<lparr>ls_disk := d, ls_cache := c\<rparr>))
       (load_model fs path auxiliary (ls_disk st) (ls_cache st))"

definition load_main :: "file_view \<Rightarrow> app_config \<Rightarrow> load_state \<Rightarrow> (found_model option \<times> load_state) option"
where
  "load_main fs cfg st =
     (if trim (cf_active_model cfg) = [] then Some (None, mark_incomplete st)
      else map_option (\<lambda>(r, st). case r of
          LoadedReady m \<Rightarrow> (Some m, st)
        | LoadedMissing \<Rightarrow> (None, st)
        | LoadedUnreadable \<Rightarrow> (None, add_note MissingMetadata st))
        (load_in fs (cf_active_model cfg) False st))"

fun load_projector_files ::
  "file_view \<Rightarrow> nat \<Rightarrow> string list \<Rightarrow> nat \<Rightarrow> load_state \<Rightarrow> (nat \<times> load_state) option" where
  "load_projector_files fs count [] bytes st = Some (bytes, st)"
| "load_projector_files fs count (f # rest) bytes st =
     (case disk_count fs f True (ls_disk st) of
        (None, d) \<Rightarrow> load_projector_files fs count rest bytes (st\<lparr>ls_disk := d\<rparr>)
      | (Some (canonical, len, modified), d) \<Rightarrow>
          Option.bind (cached_facts_in fs canonical len modified (ls_cache st)) (\<lambda>(r, c).
            let st = st\<lparr>ls_disk := d, ls_cache := c\<rparr>;
                wrong = (case r of Inl _ \<Rightarrow> False
                  | Inr facts \<Rightarrow> (case mf_split_count facts of None \<Rightarrow> False | Some n \<Rightarrow> n \<noteq> count))
            in load_projector_files fs count rest (saturating_add bytes len)
                 (if wrong then mark_incomplete st else st)))"

definition load_projector ::
  "file_view \<Rightarrow> app_config \<Rightarrow> load_state \<Rightarrow> (nat option \<times> load_state) option" where
  "load_projector fs cfg st =
     (if trim (cf_mmproj cfg) = [] then Some (None, st)
      else
        let st = add_note Auxiliary st in
        case model_files (trim (cf_mmproj cfg)) of
          None \<Rightarrow> Some (None, mark_incomplete st)
        | Some files \<Rightarrow>
            map_option (\<lambda>(bytes, st). (Some bytes, st))
              (load_projector_files fs (length files) files 0 st))"

fun load_adapters ::
  "file_view \<Rightarrow> lora_adapter list \<Rightarrow> load_state \<Rightarrow> (tensor_bytes list \<times> load_state) option" where
  "load_adapters fs [] st = Some ([], st)"
| "load_adapters fs (a # as) st =
     Option.bind (load_in fs (la_path a) True (add_note Auxiliary st)) (\<lambda>(r, st).
       let (own, st) = (case r of
             LoadedReady m \<Rightarrow>
               (case fm_tensors m of
                  Some t \<Rightarrow> ([t], st) | None \<Rightarrow> ([], note_blocking MissingMetadata st))
           | LoadedMissing \<Rightarrow> ([], st)
           | LoadedUnreadable \<Rightarrow> ([], note_blocking MissingMetadata st))
       in map_option (\<lambda>(ts, st). (own @ ts, st)) (load_adapters fs as st))"

definition load_enabled_adapters ::
  "file_view \<Rightarrow> app_config \<Rightarrow> load_state \<Rightarrow> (tensor_bytes list \<times> load_state) option" where
  "load_enabled_adapters fs cfg st =
     (let enabled = filter la_enabled (cf_lora_adapters cfg) in
      load_adapters fs (take max_adapters enabled)
        (if length enabled > max_adapters then mark_incomplete st else st))"

definition load_draft ::
  "file_view \<Rightarrow> app_config \<Rightarrow> load_state \<Rightarrow> (shape option \<times> load_state) option" where
  "load_draft fs cfg st =
     (if \<not> (speculative_enabled cfg \<and> trim (cf_spec_draft_model cfg) \<noteq> []) then Some (None, st)
      else map_option (\<lambda>(r, st). case r of
          LoadedReady m \<Rightarrow>
            (case shape_of (fm_facts m) (fm_tensors m) of
               Inr sh \<Rightarrow> (Some sh, st) | Inl n \<Rightarrow> (None, note_blocking n st))
        | LoadedMissing \<Rightarrow> (None, st)
        | LoadedUnreadable \<Rightarrow> (None, note_blocking MissingMetadata st))
        (load_in fs (cf_spec_draft_model cfg) True (add_note Auxiliary st)))"

section \<open>Planning\<close>

definition mtp_draft :: "app_config \<Rightarrow> bool" where
  "mtp_draft cfg \<longleftrightarrow>
     speculative_enabled cfg \<and> contains_sub ''mtp'' (cf_spec_type cfg) \<and>
     trim (cf_spec_draft_model cfg) = []"

definition recurrent_copies_of :: "app_config \<Rightarrow> nat option" where
  "recurrent_copies_of cfg =
     (if \<not> (speculative_enabled cfg \<and>
            list_ex (\<lambda>kind. contains_sub kind (cf_spec_type cfg)) [''mtp'', ''eagle'', ''dflash'', ''dspark''])
      then Some 1
      else if inherited cfg ''spec_draft_n_max'' then None
      else Some (1 + cf_spec_draft_n_max cfg))"

definition u64_max :: nat where "u64_max = u64_bound - 1"

definition draft_layers :: "app_config \<Rightarrow> nat" where
  "draft_layers cfg =
     (if cf_active_backend cfg = ''cpu'' then 0
      else if inherited cfg ''spec_draft_ngl'' then u64_max
      else case parse_unsigned (2 ^ 64) (trim (cf_spec_draft_ngl cfg)) of
        None \<Rightarrow> u64_max | Some n \<Rightarrow> n)"

definition accelerator_devices :: "accelerator \<Rightarrow> nat" where
  "accelerator_devices acc =
     (case acc of CpuOnly \<Rightarrow> 1 | GpuDevices n \<Rightarrow> max n 1 | UnknownDevices n \<Rightarrow> max n 1)"

definition main_plan :: "launch_plan \<Rightarrow> app_config \<Rightarrow> shape \<Rightarrow> context_plan" where
  "main_plan launch cfg sh =
     \<lparr>cp_shape = sh, cp_ngl = lp_ngl launch, cp_on_gpu = True,
      cp_overrides = \<lparr>ov_cpu_moe = sa_cpu_moe (lp_args launch), ov_n_cpu_moe = lp_n_cpu_moe launch,
                      ov_n_cpu_ffn = sa_n_cpu_ffn (lp_args launch)\<rparr>,
      cp_type_k = lp_type_k launch, cp_type_v = lp_type_v launch,
      cp_recurrent_copies = recurrent_copies_of cfg\<rparr>"

definition draft_plan :: "launch_plan \<Rightarrow> app_config \<Rightarrow> shape \<Rightarrow> context_plan" where
  "draft_plan launch cfg sh =
     \<lparr>cp_shape = sh, cp_ngl = draft_layers cfg,
      cp_on_gpu = (cf_active_backend cfg \<noteq> ''cpu'' \<and> trim (cf_spec_draft_device cfg) \<noteq> ''none''),
      cp_overrides = \<lparr>ov_cpu_moe = sa_draft_cpu_moe (lp_args launch),
                      ov_n_cpu_moe = sa_draft_n_cpu_moe (lp_args launch), ov_n_cpu_ffn = 0\<rparr>,
      cp_type_k = sa_draft_type_k (lp_args launch), cp_type_v = sa_draft_type_v (lp_args launch),
      cp_recurrent_copies = Some 1\<rparr>"

text \<open>The running totals of a placement.\<close>

record totals =
  to_ram :: resource_range
  to_vram :: resource_range
  to_kv :: nat
  to_offload :: nat
  to_lazy :: nat

definition add_ram :: "resource_range \<Rightarrow> totals \<Rightarrow> totals" where
  "add_ram r t = t\<lparr>to_ram := range_add (to_ram t) r\<rparr>"

definition add_vram :: "resource_range \<Rightarrow> totals \<Rightarrow> totals" where
  "add_vram r t = t\<lparr>to_vram := range_add (to_vram t) r\<rparr>"

definition add_offload :: "nat \<Rightarrow> totals \<Rightarrow> totals" where
  "add_offload n t = t\<lparr>to_offload := saturating_add (to_offload t) n\<rparr>"

text \<open>Weights read on demand leave the working set.\<close>

definition sub_lazy :: "lazy_mode \<Rightarrow> tensor_bytes \<Rightarrow> totals \<Rightarrow> totals" where
  "sub_lazy mode tensors t =
     (let lazy = lazy_disk_bytes mode tensors in
      t\<lparr>to_lazy := saturating_add (to_lazy t) lazy, to_offload := to_offload t - lazy,
        to_ram := range_sub lazy (to_ram t)\<rparr>)"

definition host_embedding :: "bool \<Rightarrow> tensor_bytes \<Rightarrow> nat" where
  "host_embedding gpu t = (if gpu then tb_token_embd t else 0)"

definition main_totals :: "launch_plan \<Rightarrow> scenario \<Rightarrow> nat \<Rightarrow> shape \<Rightarrow> context_cost \<Rightarrow> totals" where
  "main_totals launch sc devices sh m =
     (let t = \<lparr>to_ram = cm_ram m, to_vram = cm_vram m, to_kv = cm_kv m,
               to_offload = saturating_add
                 (wp_cpu (cm_placement m) - host_embedding (sc_gpu sc) (sh_tensors sh)) (cm_cpu_cache m),
               to_lazy = 0\<rparr>;
          t = add_ram ram_base (sub_lazy (sa_lazy_mode (lp_args launch)) (sh_tensors sh) t)
      in if sc_gpu sc then
           add_vram (range_new (rr_min gpu_device_runtime)
               (saturating_mul (rr_max gpu_device_runtime) devices))
             (add_ram gpu_host_runtime t)
         else t)"

definition add_projector :: "launch_plan \<Rightarrow> scenario \<Rightarrow> nat option \<Rightarrow> totals \<Rightarrow> totals" where
  "add_projector launch sc projector t =
     (case projector of
        None \<Rightarrow> t
      | Some bytes \<Rightarrow>
          let r = range_add (range_exact bytes) projector_compute in
          if sc_gpu sc \<and> sa_mmproj_offload (lp_args launch) then add_vram r t
          else add_offload bytes (add_ram r t))"

definition add_adapter ::
  "launch_plan \<Rightarrow> scenario \<Rightarrow> context_plan \<Rightarrow> tensor_bytes \<Rightarrow> totals \<Rightarrow> totals" where
  "add_adapter launch sc plan adapter t =
     (let p = place adapter (sh_n_layer (cp_shape plan)) (sc_gpu sc) (lp_ngl launch)
            (cp_overrides plan) False
      in add_offload (wp_cpu p)
           (add_vram (range_exact (wp_gpu p)) (add_ram (range_exact (wp_cpu p)) t)))"

definition add_draft ::
  "launch_plan \<Rightarrow> scenario \<Rightarrow> nat \<Rightarrow> context_plan option \<Rightarrow> totals \<Rightarrow> totals option" where
  "add_draft launch sc devices plan t =
     (case plan of
        None \<Rightarrow> Some t
      | Some plan \<Rightarrow>
          map_option (\<lambda>m.
            let t = add_vram (cm_vram m) (add_ram (cm_ram m) t);
                t = t\<lparr>to_kv := saturating_add (to_kv t) (cm_kv m)\<rparr>;
                embedding = host_embedding (sc_gpu sc \<and> cp_on_gpu plan) (sh_tensors (cp_shape plan));
                t = add_offload (cm_cpu_cache m) (add_offload (wp_cpu (cm_placement m) - embedding) t)
            in sub_lazy (sa_lazy_mode (lp_args launch)) (sh_tensors (cp_shape plan)) t)
          (context_memory plan sc launch devices))"

definition add_mtp ::
  "app_config \<Rightarrow> launch_plan \<Rightarrow> scenario \<Rightarrow> shape \<Rightarrow> weight_placement \<Rightarrow> totals \<Rightarrow> totals option" where
  "add_mtp cfg launch sc sh p t =
     (if mtp_draft cfg \<and> sh_kv_layers sh < sh_n_layer sh then
        let (per_stream, streams) = kv_cells (sc_n_ctx sc) (sc_n_seq sc) (sc_unified sc) in
        map_option (\<lambda>(cpu, gpu).
          let t = add_vram (range_exact gpu) (add_ram (range_exact cpu) t)
          in add_offload cpu (t\<lparr>to_kv := saturating_add (saturating_add (to_kv t) cpu) gpu\<rparr>))
        (kv_bytes sh [sh_kv_layers sh..<sh_n_layer sh] (saturating_mul per_stream streams)
          (kv_pick (sa_draft_type_k (lp_args launch))) (kv_pick (sa_draft_type_v (lp_args launch)))
          (sc_flash_attn sc) p (sa_kv_offload (lp_args launch)))
      else Some t)"

definition placement_totals ::
  "app_config \<Rightarrow> launch_plan \<Rightarrow> scenario \<Rightarrow> nat \<Rightarrow> shape \<Rightarrow> nat option \<Rightarrow> tensor_bytes list \<Rightarrow>
   shape option \<Rightarrow> totals option" where
  "placement_totals cfg launch sc devices sh projector adapters draft =
     (let plan = main_plan launch cfg sh in
      Option.bind (context_memory plan sc launch devices) (\<lambda>m.
      let t = add_projector launch sc projector (main_totals launch sc devices sh m);
          t = fold (add_adapter launch sc plan) adapters t
      in Option.bind (add_draft launch sc devices (map_option (draft_plan launch cfg) draft) t)
           (add_mtp cfg launch sc sh (cm_placement m))))"

definition advanced_options :: "app_config \<Rightarrow> launch_plan \<Rightarrow> bool" where
  "advanced_options cfg launch \<longleftrightarrow>
     sa_unmodeled (lp_args launch) \<or> sa_unknown (lp_args launch) \<or>
     \<not> inherited cfg ''cache_type_k'' \<and> lp_type_k launch = None \<or>
     \<not> inherited cfg ''cache_type_v'' \<and> lp_type_v launch = None \<or>
     gp_split_mode (cf_gpu cfg) \<in> {SplitRow, SplitTensor}"

definition open_draft_types :: "app_config \<Rightarrow> launch_plan \<Rightarrow> shape option \<Rightarrow> bool" where
  "open_draft_types cfg launch draft \<longleftrightarrow>
     (draft \<noteq> None \<or> mtp_draft cfg) \<and>
     (sa_draft_type_k (lp_args launch) = None \<or> sa_draft_type_v (lp_args launch) = None)"

definition is_unknown_devices :: "accelerator \<Rightarrow> bool" where
  "is_unknown_devices acc = (case acc of UnknownDevices _ \<Rightarrow> True | _ \<Rightarrow> False)"

definition automatic_choice ::
  "app_config \<Rightarrow> launch_plan \<Rightarrow> accelerator \<Rightarrow> shape option \<Rightarrow> bool" where
  "automatic_choice cfg launch acc draft \<longleftrightarrow>
     lp_automatic launch \<or> open_draft_types cfg launch draft \<or> recurrent_copies_of cfg = None \<or>
     lp_flash_attn launch = None \<or> lp_parallel launch = None \<or> lp_ctx launch = 0 \<or>
     is_unknown_devices acc \<or> draft \<noteq> None \<and> draft_layers cfg = u64_max"

text \<open>The notes of a planned placement.\<close>

definition plan_notes ::
  "app_config \<Rightarrow> environment \<Rightarrow> launch_plan \<Rightarrow> scenario \<Rightarrow> shape \<Rightarrow> shape option \<Rightarrow> bool \<Rightarrow> totals \<Rightarrow>
   estimate_note set" where
  "plan_notes cfg env launch sc sh draft blocked t =
     (if mtp_draft cfg \<and> sh_kv_layers sh < sh_n_layer sh then {Auxiliary} else {})
     \<union> (if \<not> blocked then
          {Approximate} \<union> (if to_lazy t > 0 then {LazyOffload} else {})
          \<union> (if en_shared_memory env \<and> sc_gpu sc then {SharedMemory} else {})
        else {})
     \<union> (if automatic_choice cfg launch (en_accelerator env) draft then {Automatic} else {})"

record files_loaded =
  fl_main :: "found_model option"
  fl_projector :: "nat option"
  fl_adapters :: "tensor_bytes list"
  fl_draft :: "shape option"
  fl_state :: load_state

definition load_files :: "file_view \<Rightarrow> app_config \<Rightarrow> facts_cache \<Rightarrow> files_loaded option" where
  "load_files fs cfg c =
     Option.bind (load_main fs cfg \<lparr>ls_disk = disk_new, ls_cache = c, ls_notes = {}, ls_blocked = False\<rparr>)
       (\<lambda>(main, st).
     Option.bind (load_projector fs cfg st) (\<lambda>(projector, st).
     Option.bind (load_enabled_adapters fs cfg st) (\<lambda>(adapters, st).
     Option.bind (load_draft fs cfg st) (\<lambda>(draft, st).
     Some \<lparr>fl_main = main, fl_projector = projector, fl_adapters = adapters, fl_draft = draft,
           fl_state = st\<rparr>))))"

text \<open>What the configuration itself rules out.\<close>

definition check_loaded :: "app_config \<Rightarrow> launch_plan \<Rightarrow> load_state \<Rightarrow> load_state" where
  "check_loaded cfg launch st =
     (let st = (if \<not> du_complete (ls_disk st) then note_blocking MissingFiles st else st)
      in if advanced_options cfg launch then note_blocking AdvancedOptions st else st)"

definition finish_memory ::
  "environment \<Rightarrow> load_state \<Rightarrow> bool \<Rightarrow> estimate_note set \<Rightarrow> totals option \<Rightarrow> memory_estimate" where
  "finish_memory env st shaped notes t =
     (let d = ls_disk st; hidden = (ls_blocked st \<or> \<not> shaped) in
      \<lparr>me_ram = (if hidden then None else map_option to_ram t),
       me_vram = (if hidden then None else map_option to_vram t),
       me_disk_bytes = saturating_add (du_model d) (du_auxiliary d),
       me_disk_complete = du_complete d, me_model_bytes = du_model d,
       me_auxiliary_bytes = du_auxiliary d,
       me_kv_bytes = (if ls_blocked st then None else map_option to_kv t),
       me_ram_capacity_bytes = en_ram_capacity env,
       me_notes = sorted_notes (ls_notes st \<union> notes),
       me_cpu_offload_bytes = (if hidden then None else map_option to_offload t),
       me_lazy_offload_bytes = (case t of None \<Rightarrow> 0 | Some t \<Rightarrow> to_lazy t)\<rparr>)"

definition plan_memory ::
  "app_config \<Rightarrow> environment \<Rightarrow> launch_plan \<Rightarrow> files_loaded \<Rightarrow> memory_estimate option" where
  "plan_memory cfg env launch fl =
     (let st = check_loaded cfg launch (fl_state fl) in
      case map_option (\<lambda>m. shape_of (fm_facts m) (fm_tensors m)) (fl_main fl) of
        None \<Rightarrow> Some (finish_memory env st False {} None)
      | Some (Inl n) \<Rightarrow> Some (finish_memory env st False {n} None)
      | Some (Inr sh) \<Rightarrow>
          (case scenario_of launch sh (en_accelerator env) of
             None \<Rightarrow> Some (finish_memory env st True {MissingMetadata} None)
           | Some sc \<Rightarrow>
               map_option (\<lambda>t. finish_memory env st True
                   (plan_notes cfg env launch sc sh (fl_draft fl) (ls_blocked st) t) (Some t))
                 (placement_totals cfg launch sc (accelerator_devices (en_accelerator env)) sh
                   (fl_projector fl) (fl_adapters fl) (fl_draft fl))))"

definition estimate_memory ::
  "file_view \<Rightarrow> app_config \<Rightarrow> environment \<Rightarrow> facts_cache \<Rightarrow> (memory_estimate \<times> facts_cache) option" where
  "estimate_memory fs cfg env c =
     Option.bind (load_files fs cfg c) (\<lambda>fl.
     map_option (\<lambda>m. (m, ls_cache (fl_state fl))) (plan_memory cfg env (launch_settings cfg) fl))"

section \<open>Fitting the plan into the machine\<close>

record resource_estimate =
  re_vram_bytes :: "nat option"
  re_ram_offload_bytes :: "nat option"
  re_ssd_offload_bytes :: "nat option"
  re_required_vram_bytes :: "nat option"
  re_host_memory_bytes :: "nat option"
  re_vram_capacity_bytes :: "nat option"
  re_ram_capacity_bytes :: "nat option"
  re_disk_bytes :: nat
  re_disk_complete :: bool
  re_model_bytes :: nat
  re_auxiliary_bytes :: nat
  re_kv_bytes :: "nat option"
  re_notes :: "estimate_note list"

definition or_zero :: "nat option \<Rightarrow> nat" where
  "or_zero v = (case v of None \<Rightarrow> 0 | Some n \<Rightarrow> n)"

definition gpu_budget :: "environment \<Rightarrow> nat \<Rightarrow> nat option" where
  "gpu_budget env host =
     (if en_accelerator env = CpuOnly then Some 0
      else if en_shared_memory env then
        map_option (\<lambda>ram. saturating_add (ram - host) (or_zero (en_vram_capacity env)))
          (en_ram_capacity env)
      else en_vram_capacity env)"

text \<open>Where the working set goes.\<close>

record fitted =
  fi_vram :: "nat option"
  fi_ram :: "nat option"
  fi_ssd :: "nat option"
  fi_notes :: "estimate_note set"

definition note_if :: "bool \<Rightarrow> estimate_note \<Rightarrow> estimate_note set" where
  "note_if b n = (if b then {n} else {})"

definition fit_offload ::
  "nat option \<Rightarrow> nat \<Rightarrow> nat \<Rightarrow> nat option \<times> nat option \<times> estimate_note set" where
  "fit_offload ram_budget offload lazy =
     (if offload = 0 then (Some 0, Some lazy, {})
      else case ram_budget of
        Some budget \<Rightarrow>
          let in_ram = min offload budget; on_disk = offload - in_ram
          in (Some in_ram, Some (saturating_add on_disk lazy), note_if (on_disk > 0) DiskOffload)
      | None \<Rightarrow> (None, None, {CapacityUnknown}))"

definition fit_capacity :: "environment \<Rightarrow> nat \<Rightarrow> nat \<Rightarrow> nat \<Rightarrow> nat \<Rightarrow> fitted" where
  "fit_capacity env required cpu host lazy =
     (let budget = gpu_budget env host;
          on_gpu = (case budget of None \<Rightarrow> required | Some b \<Rightarrow> min required b);
          overflow = required - on_gpu;
          offload = saturating_add cpu overflow;
          shared_gpu = (if en_shared_memory env then on_gpu - or_zero (en_vram_capacity env) else 0);
          ram_budget = map_option (\<lambda>ram. ram - host - shared_gpu) (en_ram_capacity env);
          (ram, ssd, notes) = fit_offload ram_budget offload lazy
      in \<lparr>fi_vram = Some on_gpu, fi_ram = ram, fi_ssd = ssd,
          fi_notes = note_if (overflow > 0) PlacementAdjustment
            \<union> note_if (budget = None \<and> required > 0) CapacityUnknown \<union> notes\<rparr>)"

definition fit_memory :: "environment \<Rightarrow> memory_estimate \<Rightarrow> fitted" where
  "fit_memory env m =
     (case (me_vram m, me_cpu_offload_bytes m, me_ram m) of
        (Some vram, Some cpu, Some ram) \<Rightarrow>
          fit_capacity env (range_planned vram) cpu (range_planned ram - cpu) (me_lazy_offload_bytes m)
      | _ \<Rightarrow> \<lparr>fi_vram = map_option range_planned (me_vram m), fi_ram = me_cpu_offload_bytes m,
               fi_ssd = None, fi_notes = {}\<rparr>)"

definition estimate_llama :: "environment \<Rightarrow> memory_estimate \<Rightarrow> resource_estimate" where
  "estimate_llama env m =
     (let f = fit_memory env m in
      \<lparr>re_vram_bytes = fi_vram f, re_ram_offload_bytes = fi_ram f, re_ssd_offload_bytes = fi_ssd f,
       re_required_vram_bytes = map_option range_planned (me_vram m),
       re_host_memory_bytes =
         (case (me_ram m, me_cpu_offload_bytes m) of
            (Some ram, Some cpu) \<Rightarrow> Some (range_planned ram - cpu) | _ \<Rightarrow> None),
       re_vram_capacity_bytes =
         (if en_shared_memory env then
            map_option (\<lambda>ram. saturating_add ram (or_zero (en_vram_capacity env))) (en_ram_capacity env)
          else en_vram_capacity env),
       re_ram_capacity_bytes = en_ram_capacity env, re_disk_bytes = me_disk_bytes m,
       re_disk_complete = me_disk_complete m, re_model_bytes = me_model_bytes m,
       re_auxiliary_bytes = me_auxiliary_bytes m, re_kv_bytes = me_kv_bytes m,
       re_notes = sorted_notes (set (me_notes m) \<union> fi_notes f)\<rparr>)"

definition estimate_artifact :: "environment \<Rightarrow> nat \<times> bool \<Rightarrow> resource_estimate" where
  "estimate_artifact env artifact =
     \<lparr>re_vram_bytes = None, re_ram_offload_bytes = None, re_ssd_offload_bytes = None,
      re_required_vram_bytes = None, re_host_memory_bytes = None,
      re_vram_capacity_bytes = en_vram_capacity env, re_ram_capacity_bytes = en_ram_capacity env,
      re_disk_bytes = fst artifact, re_disk_complete = snd artifact, re_model_bytes = fst artifact,
      re_auxiliary_bytes = 0, re_kv_bytes = None, re_notes = [UnsupportedArchitecture, Automatic]\<rparr>"

definition estimate ::
  "file_view \<Rightarrow> (string \<Rightarrow> nat \<times> bool) \<Rightarrow> app_config \<Rightarrow> environment \<Rightarrow> facts_cache \<Rightarrow>
   (resource_estimate \<times> facts_cache) option" where
  "estimate fs inspected cfg env c =
     (if provider_of cfg \<noteq> Llama then
        Some (estimate_artifact env (inspected (cf_active_model cfg)), c)
      else map_option (\<lambda>(m, c). (estimate_llama env m, c)) (estimate_memory fs cfg env c))"

section \<open>Loading never fails, and does not depend on the cache\<close>

definition same_but_cache :: "file_view \<Rightarrow> load_state \<Rightarrow> load_state \<Rightarrow> bool" where
  "same_but_cache fs st u \<longleftrightarrow>
     cache_good fs (ls_cache st) \<and> cache_good fs (ls_cache u) \<and> u = st\<lparr>ls_cache := ls_cache u\<rparr>"

definition cache_blind :: "file_view \<Rightarrow> (load_state \<Rightarrow> ('a \<times> load_state) option) \<Rightarrow> bool" where
  "cache_blind fs f \<longleftrightarrow>
     (\<forall>st u. same_but_cache fs st u \<longrightarrow>
       (\<exists>x st' u'. f st = Some (x, st') \<and> f u = Some (x, u') \<and> same_but_cache fs st' u'))"

named_theorems blind_rules \<open>loaders that do not depend on the cache\<close>

lemma same_but_cacheE:
  assumes "same_but_cache fs st u"
  obtains d n b c k where "st = \<lparr>ls_disk = d, ls_cache = c, ls_notes = n, ls_blocked = b\<rparr>"
    "u = \<lparr>ls_disk = d, ls_cache = k, ls_notes = n, ls_blocked = b\<rparr>"
    "cache_good fs c" "cache_good fs k"
  using assms by (cases st; cases u) (auto simp: same_but_cache_def)

lemma same_but_cacheI:
  "cache_good fs c \<Longrightarrow> cache_good fs k \<Longrightarrow>
   same_but_cache fs \<lparr>ls_disk = d, ls_cache = c, ls_notes = n, ls_blocked = b\<rparr>
     \<lparr>ls_disk = d, ls_cache = k, ls_notes = n, ls_blocked = b\<rparr>"
  by (simp add: same_but_cache_def)

lemma same_add_note: "same_but_cache fs st u \<Longrightarrow> same_but_cache fs (add_note n st) (add_note n u)"
  by (erule same_but_cacheE) (simp add: add_note_def same_but_cacheI)

lemma same_note_blocking:
  "same_but_cache fs st u \<Longrightarrow> same_but_cache fs (note_blocking n st) (note_blocking n u)"
  by (erule same_but_cacheE) (simp add: add_note_def note_blocking_def same_but_cacheI)

lemma same_mark_incomplete:
  "same_but_cache fs st u \<Longrightarrow> same_but_cache fs (mark_incomplete st) (mark_incomplete u)"
  by (erule same_but_cacheE) (simp add: mark_incomplete_def same_but_cacheI)

lemmas same_rules = same_add_note same_note_blocking same_mark_incomplete

lemma load_in_blind: "cache_blind fs (load_in fs path aux)"
  unfolding cache_blind_def
proof (intro allI impI)
  fix st u assume "same_but_cache fs st u"
  then obtain d n b c k where st: "st = \<lparr>ls_disk = d, ls_cache = c, ls_notes = n, ls_blocked = b\<rparr>"
    and u: "u = \<lparr>ls_disk = d, ls_cache = k, ls_notes = n, ls_blocked = b\<rparr>"
    and good: "cache_good fs c" "cache_good fs k" by (rule same_but_cacheE)
  from load_model_good [OF good] show "\<exists>x st' u'. load_in fs path aux st = Some (x, st') \<and>
      load_in fs path aux u = Some (x, u') \<and> same_but_cache fs st' u'"
    by (fastforce simp: st u load_in_def intro: same_but_cacheI)
qed

lemma blindD:
  assumes "cache_blind fs f" and "same_but_cache fs st u"
  obtains x st' u' where "f st = Some (x, st')" and "f u = Some (x, u')" and "same_but_cache fs st' u'"
  using assms unfolding cache_blind_def by blast

lemma blind_map:
  assumes "cache_blind fs f"
    and "\<And>x st u. same_but_cache fs st u \<Longrightarrow>
      fst (g (x, st)) = fst (g (x, u)) \<and> same_but_cache fs (snd (g (x, st))) (snd (g (x, u)))"
  shows "cache_blind fs (\<lambda>st. map_option g (f st))"
  unfolding cache_blind_def
proof (intro allI impI)
  fix st u assume "same_but_cache fs st u"
  with assms(1) obtain x st' u' where "f st = Some (x, st')" "f u = Some (x, u')"
    and s: "same_but_cache fs st' u'" by (rule blindD)
  with assms(2) [OF s, of x] show "\<exists>y st' u'. map_option g (f st) = Some (y, st') \<and>
      map_option g (f u) = Some (y, u') \<and> same_but_cache fs st' u'"
    by (metis option.simps(9) prod.collapse)
qed

lemma load_main_blind [blind_rules]: "cache_blind fs (load_main fs cfg)"
proof (cases "trim (cf_active_model cfg) = []")
  case True
  then show ?thesis by (auto simp: cache_blind_def load_main_def intro: same_rules)
next
  case False
  have "cache_blind fs (\<lambda>st. map_option (\<lambda>(r, st). case r of
          LoadedReady m \<Rightarrow> (Some m, st)
        | LoadedMissing \<Rightarrow> (None, st)
        | LoadedUnreadable \<Rightarrow> (None, add_note MissingMetadata st))
        (load_in fs (cf_active_model cfg) False st))"
    by (rule blind_map [OF load_in_blind]) (auto split: loaded.split intro: same_rules)
  moreover have "load_main fs cfg = \<dots>" by (rule ext) (simp add: load_main_def False)
  ultimately show ?thesis by simp
qed

lemma load_projector_files_blind:
  "cache_blind fs (\<lambda>st. load_projector_files fs count files bytes st)"
proof (induction files arbitrary: bytes)
  case Nil
  then show ?case by (simp add: cache_blind_def)
next
  case (Cons f files)
  show ?case
    unfolding cache_blind_def
  proof (intro allI impI)
    fix st u assume same: "same_but_cache fs st u"
    then obtain d n b c k where st: "st = \<lparr>ls_disk = d, ls_cache = c, ls_notes = n, ls_blocked = b\<rparr>"
      and u: "u = \<lparr>ls_disk = d, ls_cache = k, ls_notes = n, ls_blocked = b\<rparr>"
      and good: "cache_good fs c" "cache_good fs k" by (rule same_but_cacheE)
    obtain x d1 where cnt: "disk_count fs f True d = (x, d1)" by fastforce
    show "\<exists>y st' u'. load_projector_files fs count (f # files) bytes st = Some (y, st') \<and>
        load_projector_files fs count (f # files) bytes u = Some (y, u') \<and> same_but_cache fs st' u'"
    proof (cases x)
      case None
      from good have s: "same_but_cache fs (st\<lparr>ls_disk := d1\<rparr>) (u\<lparr>ls_disk := d1\<rparr>)"
        by (simp add: st u same_but_cacheI)
      from blindD [OF Cons.IH s] show ?thesis
        using cnt None by (simp add: st u) metis
    next
      case (Some y)
      obtain p len m where y: "y = (p, len, m)" by (cases y) auto
      have "fv_metadata fs p = Some (True, len, m)"
        using disk_count_metadata cnt Some y by auto
      from cached_facts_in_good [OF good this] obtain r c' k' where
        r: "cached_facts_in fs p len m c = Some (r, c')" "cached_facts_in fs p len m k = Some (r, k')"
        and good': "cache_good fs c'" "cache_good fs k'" by blast
      define wrong where "wrong = (case r of Inl _ \<Rightarrow> False
          | Inr facts \<Rightarrow> (case mf_split_count facts of None \<Rightarrow> False | Some n \<Rightarrow> n \<noteq> count))"
      define v where "v = (\<lambda>c. if wrong
          then mark_incomplete \<lparr>ls_disk = d1, ls_cache = c, ls_notes = n, ls_blocked = b\<rparr>
          else \<lparr>ls_disk = d1, ls_cache = c, ls_notes = n, ls_blocked = b\<rparr>)"
      have s: "same_but_cache fs (v c') (v k')"
        using good' by (auto simp: v_def intro: same_mark_incomplete same_but_cacheI)
      have "load_projector_files fs count (f # files) bytes st =
          load_projector_files fs count files (saturating_add bytes len) (v c')"
        "load_projector_files fs count (f # files) bytes u =
          load_projector_files fs count files (saturating_add bytes len) (v k')"
        using r cnt Some y by (simp_all add: st u v_def wrong_def Let_def)
      with blindD [OF Cons.IH s] show ?thesis by metis
    qed
  qed
qed

lemma load_projector_blind [blind_rules]: "cache_blind fs (load_projector fs cfg)"
  unfolding cache_blind_def
proof (intro allI impI)
  fix st u assume same: "same_but_cache fs st u"
  note aux = same_add_note [OF same, of Auxiliary]
  show "\<exists>x st' u'. load_projector fs cfg st = Some (x, st') \<and> load_projector fs cfg u = Some (x, u') \<and>
      same_but_cache fs st' u'"
  proof (cases "trim (cf_mmproj cfg) = []")
    case True
    with same show ?thesis by (simp add: load_projector_def)
  next
    case False
    show ?thesis
    proof (cases "model_files (trim (cf_mmproj cfg))")
      case None
      with False same_mark_incomplete [OF aux] show ?thesis by (simp add: load_projector_def Let_def)
    next
      case (Some files)
      from blindD [OF load_projector_files_blind aux] obtain x st' u' where
        "load_projector_files fs (length files) files 0 (add_note Auxiliary st) = Some (x, st')"
        "load_projector_files fs (length files) files 0 (add_note Auxiliary u) = Some (x, u')"
        "same_but_cache fs st' u'" by metis
      with False Some show ?thesis by (simp add: load_projector_def Let_def)
    qed
  qed
qed

definition adapter_outcome :: "loaded \<Rightarrow> load_state \<Rightarrow> tensor_bytes list \<times> load_state" where
  "adapter_outcome r st =
     (case r of
        LoadedReady m \<Rightarrow>
          (case fm_tensors m of Some t \<Rightarrow> ([t], st) | None \<Rightarrow> ([], note_blocking MissingMetadata st))
      | LoadedMissing \<Rightarrow> ([], st)
      | LoadedUnreadable \<Rightarrow> ([], note_blocking MissingMetadata st))"

lemma adapter_outcome_same:
  "same_but_cache fs st u \<Longrightarrow>
   fst (adapter_outcome r st) = fst (adapter_outcome r u) \<and>
   same_but_cache fs (snd (adapter_outcome r st)) (snd (adapter_outcome r u))"
  by (auto simp: adapter_outcome_def split: loaded.split option.split intro: same_rules)

lemma load_adapters_Cons:
  "load_adapters fs (a # as) st =
     Option.bind (load_in fs (la_path a) True (add_note Auxiliary st)) (\<lambda>(r, st).
       map_option (\<lambda>(ts, st'). (fst (adapter_outcome r st) @ ts, st'))
         (load_adapters fs as (snd (adapter_outcome r st))))"
  by (simp add: adapter_outcome_def Let_def case_prod_beta)

lemma load_adapters_blind: "cache_blind fs (load_adapters fs as)"
proof (induction as)
  case Nil
  then show ?case by (simp add: cache_blind_def)
next
  case (Cons a as)
  show ?case
    unfolding cache_blind_def
  proof (intro allI impI)
    fix st u assume same: "same_but_cache fs st u"
    from load_in_blind same_add_note [OF same, of Auxiliary]
    obtain r st1 u1 where l: "load_in fs (la_path a) True (add_note Auxiliary st) = Some (r, st1)"
        "load_in fs (la_path a) True (add_note Auxiliary u) = Some (r, u1)"
      and s1: "same_but_cache fs st1 u1" by (rule blindD)
    note out = adapter_outcome_same [OF s1, of r]
    from Cons.IH conjunct2 [OF out] obtain ts st2 u2 where
      "load_adapters fs as (snd (adapter_outcome r st1)) = Some (ts, st2)"
      "load_adapters fs as (snd (adapter_outcome r u1)) = Some (ts, u2)"
      "same_but_cache fs st2 u2" by (rule blindD)
    with l out show "\<exists>x st' u'. load_adapters fs (a # as) st = Some (x, st') \<and>
        load_adapters fs (a # as) u = Some (x, u') \<and> same_but_cache fs st' u'"
      by (simp add: load_adapters_Cons del: load_adapters.simps)
  qed
qed

lemma load_enabled_adapters_blind [blind_rules]: "cache_blind fs (load_enabled_adapters fs cfg)"
  unfolding cache_blind_def load_enabled_adapters_def Let_def
proof (intro allI impI)
  fix st u assume same: "same_but_cache fs st u"
  let ?big = "length (filter la_enabled (cf_lora_adapters cfg)) > max_adapters"
  have "same_but_cache fs (if ?big then mark_incomplete st else st) (if ?big then mark_incomplete u else u)"
    using same by (simp add: same_mark_incomplete)
  from blindD [OF load_adapters_blind this]
  show "\<exists>x st' u'.
      load_adapters fs (take max_adapters (filter la_enabled (cf_lora_adapters cfg)))
        (if ?big then mark_incomplete st else st) = Some (x, st') \<and>
      load_adapters fs (take max_adapters (filter la_enabled (cf_lora_adapters cfg)))
        (if ?big then mark_incomplete u else u) = Some (x, u') \<and> same_but_cache fs st' u'" by metis
qed

end

