(* ===== verification/EstimateProps.thy ===== *)
theory EstimateProps
  imports Estimate
begin

text \<open>
  What the estimate promises: it never panics and does not depend on what the shared cache holds,
  its bounds are in order, and the working set it splits between video memory, system memory and
  disk adds up.
\<close>

section \<open>The whole loading phase\<close>

lemma load_draft_blind [blind_rules]: "cache_blind fs (load_draft fs cfg)"
proof (cases "speculative_enabled cfg \<and> trim (cf_spec_draft_model cfg) \<noteq> []")
  case False
  then show ?thesis by (auto simp: cache_blind_def load_draft_def)
next
  case True
  have load: "cache_blind fs (\<lambda>st. load_in fs (cf_spec_draft_model cfg) True (add_note Auxiliary st))"
    unfolding cache_blind_def
  proof (intro allI impI)
    fix st u assume "same_but_cache fs st u"
    from load_in_blind same_add_note [OF this] show "\<exists>x st' u'.
        load_in fs (cf_spec_draft_model cfg) True (add_note Auxiliary st) = Some (x, st') \<and>
        load_in fs (cf_spec_draft_model cfg) True (add_note Auxiliary u) = Some (x, u') \<and>
        same_but_cache fs st' u'" by (rule blindD) blast
  qed
  have "cache_blind fs (\<lambda>st. map_option (\<lambda>(r, st). case r of
          LoadedReady m \<Rightarrow>
            (case shape_of (fm_facts m) (fm_tensors m) of
               Inr sh \<Rightarrow> (Some sh, st) | Inl n \<Rightarrow> (None, note_blocking n st))
        | LoadedMissing \<Rightarrow> (None, st)
        | LoadedUnreadable \<Rightarrow> (None, note_blocking MissingMetadata st))
        (load_in fs (cf_spec_draft_model cfg) True (add_note Auxiliary st)))"
    by (rule blind_map [OF load]) (auto split: loaded.split sum.split intro: same_rules)
  moreover have "load_draft fs cfg = \<dots>" by (rule ext) (simp add: load_draft_def True)
  ultimately show ?thesis by simp
qed

lemma load_draft_wf:
  assumes "load_draft fs cfg st = Some (Some sh, st')"
  shows "shape_wf sh"
proof -
  from assms obtain r u where
    "(case r of
        LoadedReady m \<Rightarrow>
          (case shape_of (fm_facts m) (fm_tensors m) of
             Inr sh \<Rightarrow> (Some sh, u) | Inl n \<Rightarrow> (None, note_blocking n u))
      | LoadedMissing \<Rightarrow> (None, u)
      | LoadedUnreadable \<Rightarrow> (None, note_blocking MissingMetadata u)) = (Some sh, st')"
    unfolding load_draft_def by (simp split: if_split_asm) blast
  then show ?thesis by (cases r) (auto split: sum.split_asm intro: shape_of_wf)
qed

definition draft_wf :: "files_loaded \<Rightarrow> bool" where
  "draft_wf fl \<longleftrightarrow> (\<forall>sh. fl_draft fl = Some sh \<longrightarrow> shape_wf sh)"

lemma load_files_good:
  assumes "cache_good fs c" and "cache_good fs k"
  shows "\<exists>fl st. load_files fs cfg c = Some fl \<and> load_files fs cfg k = Some (fl\<lparr>fl_state := st\<rparr>) \<and>
    same_but_cache fs (fl_state fl) st \<and> draft_wf fl"
proof -
  let ?st = "\<lambda>c. \<lparr>ls_disk = disk_new, ls_cache = c, ls_notes = {}, ls_blocked = False\<rparr>"
  have "same_but_cache fs (?st c) (?st k)" using assms by (rule same_but_cacheI)
  from load_main_blind this obtain main s1 u1 where
    1: "load_main fs cfg (?st c) = Some (main, s1)" "load_main fs cfg (?st k) = Some (main, u1)"
    and same1: "same_but_cache fs s1 u1" by (rule blindD)
  from load_projector_blind same1 obtain proj s2 u2 where
    2: "load_projector fs cfg s1 = Some (proj, s2)" "load_projector fs cfg u1 = Some (proj, u2)"
    and same2: "same_but_cache fs s2 u2" by (rule blindD)
  from load_enabled_adapters_blind same2 obtain ads s3 u3 where
    3: "load_enabled_adapters fs cfg s2 = Some (ads, s3)" "load_enabled_adapters fs cfg u2 = Some (ads, u3)"
    and same3: "same_but_cache fs s3 u3" by (rule blindD)
  from load_draft_blind same3 obtain dr s4 u4 where
    4: "load_draft fs cfg s3 = Some (dr, s4)" "load_draft fs cfg u3 = Some (dr, u4)"
    and same4: "same_but_cache fs s4 u4" by (rule blindD)
  let ?fl = "\<lparr>fl_main = main, fl_projector = proj, fl_adapters = ads, fl_draft = dr, fl_state = s4\<rparr>"
  have "load_files fs cfg c = Some ?fl" "load_files fs cfg k = Some (?fl\<lparr>fl_state := u4\<rparr>)"
    using 1 2 3 4 by (simp_all add: load_files_def)
  moreover have "draft_wf ?fl" using 4 by (auto simp: draft_wf_def dest: load_draft_wf)
  ultimately show ?thesis using same4 by fastforce
qed

section \<open>Planning is total and sees no cache\<close>

lemma finish_memory_cache: "finish_memory env (st\<lparr>ls_cache := k\<rparr>) = finish_memory env st"
  by (intro ext) (simp add: finish_memory_def)

lemma check_loaded_cache:
  "check_loaded cfg launch (st\<lparr>ls_cache := k\<rparr>) = (check_loaded cfg launch st)\<lparr>ls_cache := k\<rparr>"
  by (cases st) (simp add: check_loaded_def note_blocking_def add_note_def Let_def)

lemma plan_memory_cache:
  assumes "same_but_cache fs (fl_state fl) st"
  shows "plan_memory cfg env launch (fl\<lparr>fl_state := st\<rparr>) = plan_memory cfg env launch fl"
proof -
  from assms have st: "st = (fl_state fl)\<lparr>ls_cache := ls_cache st\<rparr>" by (simp add: same_but_cache_def)
  have "ls_blocked (check_loaded cfg launch st) = ls_blocked (check_loaded cfg launch (fl_state fl))"
    by (subst st) (simp add: check_loaded_cache)
  moreover have "finish_memory env (check_loaded cfg launch st) =
      finish_memory env (check_loaded cfg launch (fl_state fl))"
    by (subst st) (simp add: check_loaded_cache finish_memory_cache)
  ultimately show ?thesis
    by (auto simp: plan_memory_def Let_def split: option.split sum.split)
qed

lemma add_draft_total:
  "(\<forall>sh. draft = Some sh \<longrightarrow> shape_wf sh) \<Longrightarrow>
   \<exists>t'. add_draft launch sc devices (map_option (draft_plan launch cfg) draft) t = Some t'"
  using context_memory_total [of "draft_plan launch cfg (the draft)" sc launch devices]
  by (cases draft) (auto simp: add_draft_def draft_plan_def)

lemma add_mtp_total:
  assumes "shape_wf sh"
  shows "\<exists>t'. add_mtp cfg launch sc sh p t = Some t'"
proof (cases "mtp_draft cfg \<and> sh_kv_layers sh < sh_n_layer sh")
  case True
  obtain a b where cells: "kv_cells (sc_n_ctx sc) (sc_n_seq sc) (sc_unified sc) = (a, b)" by fastforce
  have "\<forall>il \<in> set [sh_kv_layers sh..<sh_n_layer sh]. il < sh_n_layer sh" by simp
  from kv_bytes_total [OF assms this] True show ?thesis
    unfolding add_mtp_def cells by (simp split: prod.split)
next
  case False
  then show ?thesis by (simp only: add_mtp_def if_False) blast
qed

lemma placement_totals_total:
  assumes "shape_wf sh" and "\<forall>d. draft = Some d \<longrightarrow> shape_wf d"
  shows "\<exists>t. placement_totals cfg launch sc devices sh projector adapters draft = Some t"
proof -
  have "shape_wf (cp_shape (main_plan launch cfg sh))" using assms(1) by (simp add: main_plan_def)
  from context_memory_total [OF this] obtain m where
    m: "context_memory (main_plan launch cfg sh) sc launch devices = Some m" by blast
  let ?t = "fold (add_adapter launch sc (main_plan launch cfg sh)) adapters
      (add_projector launch sc projector (main_totals launch sc devices sh m))"
  from add_draft_total [OF assms(2)] obtain t where
    "add_draft launch sc devices (map_option (draft_plan launch cfg) draft) ?t = Some t" by blast
  with m add_mtp_total [OF assms(1)] show ?thesis
    by (simp add: placement_totals_def Let_def)
qed

lemma plan_memory_shaped:
  assumes "fl_main fl = Some m" and "shape_of (fm_facts m) (fm_tensors m) = Inr sh"
  shows "plan_memory cfg env launch fl =
    (let st = check_loaded cfg launch (fl_state fl) in
     case scenario_of launch sh (en_accelerator env) of
       None \<Rightarrow> Some (finish_memory env st True {MissingMetadata} None)
     | Some sc \<Rightarrow>
         map_option (\<lambda>t. finish_memory env st True
             (plan_notes cfg env launch sc sh (fl_draft fl) (ls_blocked st) t) (Some t))
           (placement_totals cfg launch sc (accelerator_devices (en_accelerator env)) sh
             (fl_projector fl) (fl_adapters fl) (fl_draft fl)))"
  using assms by (simp add: plan_memory_def)

lemma plan_memory_total:
  assumes "draft_wf fl"
  shows "\<exists>m. plan_memory cfg env launch fl = Some m"
proof (cases "fl_main fl")
  case None
  then show ?thesis by (simp add: plan_memory_def)
next
  case (Some m)
  show ?thesis
  proof (cases "shape_of (fm_facts m) (fm_tensors m)")
    case (Inl n)
    with Some show ?thesis by (simp add: plan_memory_def)
  next
    case (Inr sh)
    then have "shape_wf sh" by (rule shape_of_wf)
    with assms have total: "\<exists>t. placement_totals cfg launch sc devices sh (fl_projector fl) (fl_adapters fl)
        (fl_draft fl) = Some t" for sc devices
      by (intro placement_totals_total) (simp_all add: draft_wf_def)
    show ?thesis
    proof (cases "scenario_of launch sh (en_accelerator env)")
      case None
      then show ?thesis by (simp add: plan_memory_shaped [OF Some Inr])
    next
      case (Some sc)
      with total [of sc "accelerator_devices (en_accelerator env)"] show ?thesis
        by (auto simp: plan_memory_shaped [OF \<open>fl_main fl = Some m\<close> Inr] Let_def)
    qed
  qed
qed

lemma estimate_memory_good:
  assumes "cache_good fs c" and "cache_good fs k"
  shows "\<exists>m c' k'. estimate_memory fs cfg env c = Some (m, c') \<and> estimate_memory fs cfg env k = Some (m, k') \<and>
    cache_good fs c' \<and> cache_good fs k'"
proof -
  from load_files_good [OF assms] obtain fl st where
    fl: "load_files fs cfg c = Some fl" "load_files fs cfg k = Some (fl\<lparr>fl_state := st\<rparr>)"
    and same: "same_but_cache fs (fl_state fl) st" and good: "draft_wf fl" by blast
  from plan_memory_total [OF good] obtain m where
    "plan_memory cfg env (launch_settings cfg) fl = Some m" by blast
  with fl plan_memory_cache [OF same] same show ?thesis
    by (auto simp: estimate_memory_def same_but_cache_def)
qed

section \<open>Every loader returns, whatever the cache holds\<close>

text \<open>A loader that returns in every state and changes the cache by lookups and insertions only.\<close>

definition returns :: "(load_state \<Rightarrow> ('a \<times> load_state) option) \<Rightarrow> bool" where
  "returns f \<longleftrightarrow>
     (\<forall>st. \<exists>x st'. f st = Some (x, st') \<and> cache_step\<^sup>*\<^sup>* (ls_cache st) (ls_cache st'))"

lemma returnsD:
  assumes "returns f"
  obtains x st' where "f st = Some (x, st')" and "cache_step\<^sup>*\<^sup>* (ls_cache st) (ls_cache st')"
  using assms unfolding returns_def by blast

lemma same_cache [simp]:
  "ls_cache (add_note n st) = ls_cache st" "ls_cache (note_blocking n st) = ls_cache st"
  "ls_cache (mark_incomplete st) = ls_cache st"
  by (simp_all add: add_note_def note_blocking_def mark_incomplete_def)

lemma cached_facts_in_returns:
  "\<exists>r d. cached_facts_in fs p len m c = Some (r, d) \<and> cache_step\<^sup>*\<^sup>* c d"
proof (cases "cache_hit p len m c")
  case (Pair hit d)
  show ?thesis
  proof (cases hit)
    case None
    with Pair have "d = c" by (auto simp: cache_hit_def split: option.splits if_splits)
    moreover obtain r where "scan_facts fs p = Some r" using scan_facts_total by blast
    ultimately show ?thesis
      using Pair None cache_step.insertion by (auto simp: cached_facts_in_def)
  next
    case (Some r)
    from cache_step.hit [of c p len m] Pair Some show ?thesis by (auto simp: cached_facts_in_def)
  qed
qed

lemma load_shards_returns:
  "\<exists>s' d' c'. load_shards fs aux files (s, d, c) = Some (s', d', c') \<and> cache_step\<^sup>*\<^sup>* c c'"
proof (induction files arbitrary: s d c)
  case (Cons f files)
  obtain x d1 where count: "disk_count fs f aux d = (x, d1)" by fastforce
  show ?case
  proof (cases x)
    case None
    with Cons count show ?thesis by simp
  next
    case (Some y)
    obtain p len m where y: "y = (p, len, m)" by (cases y) auto
    obtain r c1 where "cached_facts_in fs p len m c = Some (r, c1)" and step: "cache_step\<^sup>*\<^sup>* c c1"
      using cached_facts_in_returns by blast
    with Cons.IH [of "add_shard r s" d1 c1] count Some y show ?thesis
      by (auto intro: rtranclp_trans)
  qed
qed simp

lemma load_in_returns: "returns (load_in fs path aux)"
  unfolding returns_def
proof
  fix st :: load_state
  have "\<exists>r d' c'. load_model fs path aux (ls_disk st) (ls_cache st) = Some (r, d', c') \<and>
      cache_step\<^sup>*\<^sup>* (ls_cache st) c'"
  proof (cases "model_files (trim path)")
    case None
    then show ?thesis by (simp add: load_model_def)
  next
    case (Some files)
    let ?s = "\<lparr>sd_first = None, sd_tensors = Some tensor_bytes_none, sd_missing = False\<rparr>"
    obtain s' d' c' where "load_shards fs aux files (?s, ls_disk st, ls_cache st) = Some (s', d', c')"
      "cache_step\<^sup>*\<^sup>* (ls_cache st) c'"
      using load_shards_returns by blast
    with Some show ?thesis by (simp add: load_model_def Let_def)
  qed
  then show "\<exists>x st'. load_in fs path aux st = Some (x, st') \<and> cache_step\<^sup>*\<^sup>* (ls_cache st) (ls_cache st')"
    by (auto simp: load_in_def)
qed

lemma returns_map:
  assumes "returns f" and "\<And>x st. ls_cache (snd (g (x, st))) = ls_cache st"
  shows "returns (\<lambda>st. map_option g (f st))"
  unfolding returns_def
proof
  fix st :: load_state
  from assms(1) obtain x st' where "f st = Some (x, st')" "cache_step\<^sup>*\<^sup>* (ls_cache st) (ls_cache st')"
    by (rule returnsD)
  with assms(2) [of x st'] show "\<exists>y st'. map_option g (f st) = Some (y, st') \<and>
      cache_step\<^sup>*\<^sup>* (ls_cache st) (ls_cache st')" by (metis option.simps(9) prod.collapse)
qed

lemma load_main_returns: "returns (load_main fs cfg)"
proof (cases "trim (cf_active_model cfg) = []")
  case True
  then show ?thesis by (simp add: returns_def load_main_def)
next
  case False
  have "returns (\<lambda>st. map_option (\<lambda>(r, st). case r of
          LoadedReady m \<Rightarrow> (Some m, st)
        | LoadedMissing \<Rightarrow> (None, st)
        | LoadedUnreadable \<Rightarrow> (None, add_note MissingMetadata st))
        (load_in fs (cf_active_model cfg) False st))"
    by (rule returns_map [OF load_in_returns]) (auto split: loaded.split)
  moreover have "load_main fs cfg = \<dots>" by (rule ext) (simp add: load_main_def False)
  ultimately show ?thesis by simp
qed

lemma load_projector_files_returns: "returns (load_projector_files fs count files bytes)"
  unfolding returns_def
proof (induction files arbitrary: bytes)
  case (Cons f files)
  show ?case
  proof
    fix st :: load_state
    obtain x d1 where cnt: "disk_count fs f True (ls_disk st) = (x, d1)" by fastforce
    show "\<exists>x st'. load_projector_files fs count (f # files) bytes st = Some (x, st') \<and>
        cache_step\<^sup>*\<^sup>* (ls_cache st) (ls_cache st')"
    proof (cases x)
      case None
      with cnt Cons.IH [of bytes] show ?thesis by (auto dest: spec [of _ "st\<lparr>ls_disk := d1\<rparr>"])
    next
      case (Some y)
      obtain p len m where y: "y = (p, len, m)" by (cases y) auto
      obtain r c1 where r: "cached_facts_in fs p len m (ls_cache st) = Some (r, c1)"
        and step: "cache_step\<^sup>*\<^sup>* (ls_cache st) c1" using cached_facts_in_returns by blast
      define wrong where "wrong = (case r of Inl _ \<Rightarrow> False
          | Inr facts \<Rightarrow> (case mf_split_count facts of None \<Rightarrow> False | Some n \<Rightarrow> n \<noteq> count))"
      define st1 where "st1 = (let st = st\<lparr>ls_disk := d1, ls_cache := c1\<rparr>
          in if wrong then mark_incomplete st else st)"
      have c1: "ls_cache st1 = c1" by (simp add: st1_def Let_def)
      have eq: "load_projector_files fs count (f # files) bytes st =
          load_projector_files fs count files (saturating_add bytes len) st1"
        using cnt Some y r by (simp add: st1_def wrong_def Let_def)
      from Cons.IH obtain b st' where
        "load_projector_files fs count files (saturating_add bytes len) st1 = Some (b, st')"
        "cache_step\<^sup>*\<^sup>* (ls_cache st1) (ls_cache st')" by blast
      with step show ?thesis unfolding eq c1 by (meson rtranclp_trans)
    qed
  qed
qed simp

lemma load_projector_returns: "returns (load_projector fs cfg)"
  unfolding returns_def
proof
  fix st :: load_state
  show "\<exists>x st'. load_projector fs cfg st = Some (x, st') \<and> cache_step\<^sup>*\<^sup>* (ls_cache st) (ls_cache st')"
  proof (cases "trim (cf_mmproj cfg) = []")
    case False
    show ?thesis
    proof (cases "model_files (trim (cf_mmproj cfg))")
      case (Some files)
      from load_projector_files_returns obtain x st' where
        "load_projector_files fs (length files) files 0 (add_note Auxiliary st) = Some (x, st')"
        "cache_step\<^sup>*\<^sup>* (ls_cache (add_note Auxiliary st)) (ls_cache st')" by (rule returnsD)
      with False Some show ?thesis by (simp add: load_projector_def Let_def)
    qed (use False in \<open>simp add: load_projector_def Let_def\<close>)
  qed (simp add: load_projector_def)
qed

lemma adapter_outcome_cache: "ls_cache (snd (adapter_outcome r st)) = ls_cache st"
  by (auto simp: adapter_outcome_def split: loaded.split option.split)

lemma load_adapters_returns: "returns (load_adapters fs as)"
  unfolding returns_def
proof (induction as)
  case (Cons a as)
  show ?case
  proof
    fix st :: load_state
    from load_in_returns obtain r st1 where
      l: "load_in fs (la_path a) True (add_note Auxiliary st) = Some (r, st1)"
      and s1: "cache_step\<^sup>*\<^sup>* (ls_cache (add_note Auxiliary st)) (ls_cache st1)" by (rule returnsD)
    from Cons.IH obtain ts st2 where
      "load_adapters fs as (snd (adapter_outcome r st1)) = Some (ts, st2)"
      and "cache_step\<^sup>*\<^sup>* (ls_cache (snd (adapter_outcome r st1))) (ls_cache st2)" by blast
    with l s1 show "\<exists>x st'. load_adapters fs (a # as) st = Some (x, st') \<and>
        cache_step\<^sup>*\<^sup>* (ls_cache st) (ls_cache st')"
      by (simp add: load_adapters_Cons adapter_outcome_cache del: load_adapters.simps)
  qed
qed simp

lemma load_enabled_adapters_returns: "returns (load_enabled_adapters fs cfg)"
  unfolding returns_def load_enabled_adapters_def Let_def
proof
  fix st :: load_state
  let ?big = "length (filter la_enabled (cf_lora_adapters cfg)) > max_adapters"
  from load_adapters_returns obtain x st' where
    "load_adapters fs (take max_adapters (filter la_enabled (cf_lora_adapters cfg)))
        (if ?big then mark_incomplete st else st) = Some (x, st')"
    "cache_step\<^sup>*\<^sup>* (ls_cache (if ?big then mark_incomplete st else st)) (ls_cache st')" by (rule returnsD)
  then show "\<exists>x st'. load_adapters fs (take max_adapters (filter la_enabled (cf_lora_adapters cfg)))
        (if ?big then mark_incomplete st else st) = Some (x, st') \<and>
      cache_step\<^sup>*\<^sup>* (ls_cache st) (ls_cache st')" by (auto split: if_splits)
qed

lemma load_draft_returns: "returns (load_draft fs cfg)"
proof (cases "speculative_enabled cfg \<and> trim (cf_spec_draft_model cfg) \<noteq> []")
  case False
  then show ?thesis by (auto simp: returns_def load_draft_def)
next
  case True
  have load: "returns (\<lambda>st. load_in fs (cf_spec_draft_model cfg) True (add_note Auxiliary st))"
    unfolding returns_def
  proof
    fix st :: load_state
    from load_in_returns obtain x st' where
      "load_in fs (cf_spec_draft_model cfg) True (add_note Auxiliary st) = Some (x, st')"
      "cache_step\<^sup>*\<^sup>* (ls_cache (add_note Auxiliary st)) (ls_cache st')" by (rule returnsD)
    then show "\<exists>x st'. load_in fs (cf_spec_draft_model cfg) True (add_note Auxiliary st) = Some (x, st') \<and>
        cache_step\<^sup>*\<^sup>* (ls_cache st) (ls_cache st')" by simp
  qed
  have "returns (\<lambda>st. map_option (\<lambda>(r, st). case r of
          LoadedReady m \<Rightarrow>
            (case shape_of (fm_facts m) (fm_tensors m) of
               Inr sh \<Rightarrow> (Some sh, st) | Inl n \<Rightarrow> (None, note_blocking n st))
        | LoadedMissing \<Rightarrow> (None, st)
        | LoadedUnreadable \<Rightarrow> (None, note_blocking MissingMetadata st))
        (load_in fs (cf_spec_draft_model cfg) True (add_note Auxiliary st)))"
    by (rule returns_map [OF load]) (auto split: loaded.split sum.split)
  moreover have "load_draft fs cfg = \<dots>" by (rule ext) (simp add: load_draft_def True)
  ultimately show ?thesis by simp
qed

lemma load_files_returns:
  "\<exists>fl. load_files fs cfg c = Some fl \<and> cache_step\<^sup>*\<^sup>* c (ls_cache (fl_state fl)) \<and> draft_wf fl"
proof -
  let ?st = "\<lparr>ls_disk = disk_new, ls_cache = c, ls_notes = {}, ls_blocked = False\<rparr>"
  from load_main_returns obtain main s1 where
    1: "load_main fs cfg ?st = Some (main, s1)" "cache_step\<^sup>*\<^sup>* (ls_cache ?st) (ls_cache s1)"
    by (rule returnsD)
  from load_projector_returns obtain proj s2 where
    2: "load_projector fs cfg s1 = Some (proj, s2)" "cache_step\<^sup>*\<^sup>* (ls_cache s1) (ls_cache s2)"
    by (rule returnsD)
  from load_enabled_adapters_returns obtain ads s3 where
    3: "load_enabled_adapters fs cfg s2 = Some (ads, s3)" "cache_step\<^sup>*\<^sup>* (ls_cache s2) (ls_cache s3)"
    by (rule returnsD)
  from load_draft_returns obtain dr s4 where
    4: "load_draft fs cfg s3 = Some (dr, s4)" "cache_step\<^sup>*\<^sup>* (ls_cache s3) (ls_cache s4)"
    by (rule returnsD)
  let ?fl = "\<lparr>fl_main = main, fl_projector = proj, fl_adapters = ads, fl_draft = dr, fl_state = s4\<rparr>"
  have "load_files fs cfg c = Some ?fl" using 1 2 3 4 by (simp add: load_files_def)
  moreover have "cache_step\<^sup>*\<^sup>* c (ls_cache s4)"
    using 1(2) 2(2) 3(2) 4(2) by (auto intro: rtranclp_trans)
  moreover have "draft_wf ?fl" using 4 by (auto simp: draft_wf_def dest: load_draft_wf)
  ultimately show ?thesis by fastforce
qed

section \<open>Totals keep their bounds in order\<close>

definition ordered_totals :: "bool \<Rightarrow> totals \<Rightarrow> bool" where
  "ordered_totals ram t \<longleftrightarrow> ordered_range (to_vram t) \<and> (ram \<longrightarrow> ordered_range (to_ram t))"

lemma ordered_const: "ordered_range ram_base" "ordered_range gpu_host_runtime"
  "ordered_range gpu_device_runtime" "ordered_range projector_compute"
  by (simp_all add: ordered_range_def range_new_def ram_base_def gpu_host_runtime_def
      gpu_device_runtime_def projector_compute_def mib_def)

lemma add_ram_ordered [intro]:
  "ordered_totals ram t \<Longrightarrow> ordered_range r \<Longrightarrow> ordered_totals ram (add_ram r t)"
  by (auto simp: ordered_totals_def add_ram_def)

lemma add_vram_ordered [intro]:
  "ordered_totals ram t \<Longrightarrow> ordered_range r \<Longrightarrow> ordered_totals ram (add_vram r t)"
  by (auto simp: ordered_totals_def add_vram_def)

lemma add_offload_ordered [intro]: "ordered_totals ram t \<Longrightarrow> ordered_totals ram (add_offload n t)"
  by (simp add: ordered_totals_def add_offload_def)

lemma sub_lazy_ordered [intro]: "ordered_totals ram t \<Longrightarrow> ordered_totals ram (sub_lazy mode x t)"
  by (auto simp: ordered_totals_def sub_lazy_def Let_def)

lemma to_kv_ordered [simp]: "ordered_totals ram (t\<lparr>to_kv := k\<rparr>) = ordered_totals ram t"
  by (simp add: ordered_totals_def)

lemmas totals_ordered = add_ram_ordered add_vram_ordered add_offload_ordered sub_lazy_ordered
  ordered_add ordered_const ordered_exact

lemma add_ram_implied:
  "ordered_totals ram t \<Longrightarrow> (ram \<longrightarrow> ordered_range r) \<Longrightarrow> ordered_totals ram (add_ram r t)"
  by (auto simp: ordered_totals_def add_ram_def)

lemma main_totals_ordered:
  assumes "ordered_range (cm_vram m)" and "ram \<longrightarrow> ordered_range (cm_ram m)" and "devices \<ge> 1"
  shows "ordered_totals ram (main_totals launch sc devices sh m)"
proof -
  have dev: "ordered_range (range_new (rr_min gpu_device_runtime)
      (saturating_mul (rr_max gpu_device_runtime) devices))"
    unfolding ordered_new
    by (rule order_trans [OF _ sat_mul_ge [OF _ assms(3)]])
       (simp_all add: gpu_device_runtime_def range_new_def mib_def u64_bound_def)
  have start: "ordered_totals ram \<lparr>to_ram = cm_ram m, to_vram = cm_vram m, to_kv = k, to_offload = o1, to_lazy = l\<rparr>"
    for k o1 l using assms(1,2) by (simp add: ordered_totals_def)
  show ?thesis
    unfolding main_totals_def Let_def
    by (auto intro!: start dev ordered_const)
qed

lemma add_projector_ordered:
  "ordered_totals ram t \<Longrightarrow> ordered_totals ram (add_projector launch sc projector t)"
  by (auto simp: add_projector_def Let_def split: option.split intro!: totals_ordered)

lemma add_adapter_ordered:
  "ordered_totals ram t \<Longrightarrow> ordered_totals ram (add_adapter launch sc plan a t)"
  unfolding add_adapter_def Let_def by (intro totals_ordered)

lemma add_adapters_ordered:
  "ordered_totals ram t \<Longrightarrow> ordered_totals ram (fold (add_adapter launch sc plan) adapters t)"
  by (induction adapters arbitrary: t) (simp_all add: add_adapter_ordered)

lemma add_draft_ordered:
  assumes "add_draft launch sc devices plan t = Some t'" and "ordered_totals ram t" and "devices \<ge> 1"
    and "ram \<longrightarrow> sc_n_seq sc \<le> lp_ubatch launch"
  shows "ordered_totals ram t'"
proof (cases plan)
  case None
  with assms show ?thesis by (simp add: add_draft_def)
next
  case (Some p)
  with assms(1) obtain m where m: "context_memory p sc launch devices = Some m"
    by (auto simp: add_draft_def)
  from context_memory_ordered [OF m assms(3)] assms(4)
  have "ordered_range (cm_vram m)" "ram \<longrightarrow> ordered_range (cm_ram m)" by auto
  with assms(1,2) m Some show ?thesis
    by (auto simp: add_draft_def Let_def
        intro!: add_ram_implied add_vram_ordered add_offload_ordered sub_lazy_ordered)
qed

lemma add_mtp_ordered:
  "add_mtp cfg launch sc sh p t = Some t' \<Longrightarrow> ordered_totals ram t \<Longrightarrow> ordered_totals ram t'"
  by (auto simp: add_mtp_def Let_def split: if_splits prod.splits intro!: totals_ordered)

lemma placement_totals_ordered:
  assumes "placement_totals cfg launch sc devices sh projector adapters draft = Some t" and "devices \<ge> 1"
    and "ram \<longrightarrow> sc_n_seq sc \<le> lp_ubatch launch"
  shows "ordered_totals ram t"
proof -
  let ?plan = "main_plan launch cfg sh"
  from assms(1) obtain m u where m: "context_memory ?plan sc launch devices = Some m"
    and u: "add_draft launch sc devices (map_option (draft_plan launch cfg) draft)
      (fold (add_adapter launch sc ?plan) adapters
        (add_projector launch sc projector (main_totals launch sc devices sh m))) = Some u"
    and t: "add_mtp cfg launch sc sh (cm_placement m) u = Some t"
    by (auto simp: placement_totals_def Let_def split: bind_splits)
  from context_memory_ordered [OF m assms(2)] assms(3)
  have "ordered_range (cm_vram m)" "ram \<longrightarrow> ordered_range (cm_ram m)" by auto
  from main_totals_ordered [OF this assms(2)]
  have "ordered_totals ram (main_totals launch sc devices sh m)" .
  from add_draft_ordered [OF u add_adapters_ordered [OF add_projector_ordered [OF this]] assms(2,3)]
  show ?thesis by (rule add_mtp_ordered [OF t])
qed

section \<open>Without an accelerator nothing is on a device\<close>

lemma kv_loop_no_device:
  "\<forall>il. \<not> on_device p offload il \<Longrightarrow> kv_loop sh cells k v flash p offload ils (cpu, 0) = Some (a, b) \<Longrightarrow>
   b = 0"
proof (induction ils arbitrary: cpu)
  case (Cons il ils)
  then have "on_device p offload il = False" by blast
  with Cons show ?case by (auto split: bind_splits if_splits)
qed simp

lemma placement_no_device:
  "\<not> on_device (place t n False ngl ov dup) offload il"
  by (auto simp: on_device_def place_flags first_gpu_layer_def)

lemma range_add_zero [simp]: "range_add range_zero range_zero = range_zero"
  "range_add range_zero (range_exact 0) = range_zero"
  by (simp_all add: range_add_def range_zero_def range_exact_def range_new_def saturating_add_def u64_bound_def)

lemma add_rest_vram [simp]:
  "to_vram (add_ram r t) = to_vram t" "to_vram (add_offload n t) = to_vram t"
  "to_vram (sub_lazy mode x t) = to_vram t"
  by (simp_all add: add_ram_def add_offload_def sub_lazy_def Let_def)

lemma to_vram_add: "to_vram (add_vram r t) = range_add (to_vram t) r"
  by (simp add: add_vram_def)

lemma context_memory_no_device:
  assumes "context_memory plan sc launch devices = Some m" and "\<not> sc_gpu sc"
  shows "cm_vram m = range_zero" and
    "cm_placement m = place (sh_tensors (cp_shape plan)) (sh_n_layer (cp_shape plan)) False (cp_ngl plan)
       (cp_overrides plan) True"
  using assms unfolding context_memory_def Let_def by (auto split: bind_splits prod.splits)

lemma placement_totals_no_device:
  assumes "placement_totals cfg launch sc devices sh projector adapters draft = Some t" and cpu: "\<not> sc_gpu sc"
  shows "to_vram t = range_zero"
proof -
  let ?plan = "main_plan launch cfg sh"
  from assms(1) obtain m u where m: "context_memory ?plan sc launch devices = Some m"
    and u: "add_draft launch sc devices (map_option (draft_plan launch cfg) draft)
      (fold (add_adapter launch sc ?plan) adapters
        (add_projector launch sc projector (main_totals launch sc devices sh m))) = Some u"
    and t: "add_mtp cfg launch sc sh (cm_placement m) u = Some t"
    by (auto simp: placement_totals_def Let_def split: bind_splits)
  have "to_vram (add_projector launch sc projector (main_totals launch sc devices sh m)) = range_zero"
    using context_memory_no_device(1) [OF m cpu] cpu
    by (auto simp: main_totals_def add_projector_def Let_def split: option.split)
  moreover have "to_vram v = range_zero \<Longrightarrow>
      to_vram (fold (add_adapter launch sc ?plan) adapters v) = range_zero" for v
    using cpu by (induction adapters arbitrary: v) (simp_all add: add_adapter_def Let_def to_vram_add place_no_gpu)
  ultimately have "to_vram u = range_zero"
    using u by (auto simp: add_draft_def Let_def to_vram_add context_memory_no_device(1) [OF _ cpu]
        split: option.split_asm)
  moreover have "b = 0" if "kv_loop sh cells k v flash (cm_placement m) offload ils (0, 0) = Some (a, b)"
    for cells k v flash offload ils a b
    using kv_loop_no_device that placement_no_device
    unfolding context_memory_no_device(2) [OF m cpu] by blast
  ultimately show ?thesis
    using t unfolding add_mtp_def kv_bytes_def Let_def
    by (fastforce simp: to_vram_add split: if_splits prod.splits)
qed

text \<open>
  The lower bound of the logits copied to the host counts every slot, the upper bound every token of
  a physical batch: with more slots than tokens they cross.
\<close>

lemma host_outputs_bounds_cross:
  assumes "sh_n_vocab sh = Some v" and "0 < v" and "ubatch < n_seq" and "v * n_seq * 4 < u64_bound"
  shows "rr_max (host_outputs sh n_seq ubatch) < rr_min (host_outputs sh n_seq ubatch)"
proof -
  have lt: "v * ubatch < v * n_seq" using assms(2,3) by simp
  have exact: "a * b < u64_bound \<Longrightarrow> saturating_mul a b = a * b" for a b
    unfolding saturating_mul_def by (rule min_absorb1) linarith
  have b: "v * ubatch < u64_bound" "v * n_seq < u64_bound" "v * ubatch * 4 < u64_bound"
    using lt assms(4) by linarith+
  show ?thesis
    using lt assms(1,4) b by (simp add: host_outputs_def vocab_or_def range_new_def exact)
qed

lemma finish_memory_None [simp]:
  "me_vram (finish_memory env st shaped ns None) = None" "me_ram (finish_memory env st shaped ns None) = None"
  by (simp_all add: finish_memory_def Let_def)

section \<open>Fitting adds up\<close>

lemma note_if_in [simp]: "n \<in> note_if b m \<longleftrightarrow> b \<and> n = m"
  by (simp add: note_if_def)

lemma fit_vram:
  "fi_vram (fit_capacity env required cpu host lazy) =
     Some (case gpu_budget env host of None \<Rightarrow> required | Some b \<Rightarrow> min required b)"
  by (simp add: fit_capacity_def Let_def split: prod.split)

lemma fit_offload_adds_up:
  assumes "fit_offload budget offload lazy = (Some r, Some d, notes)" and "offload + lazy < u64_bound"
  shows "r + d = offload + lazy \<and> (DiskOffload \<in> notes \<longleftrightarrow> lazy < d) \<and> CapacityUnknown \<notin> notes \<and>
    PlacementAdjustment \<notin> notes \<and> (\<forall>b. budget = Some b \<longrightarrow> r \<le> b)"
  using assms by (auto simp: fit_offload_def Let_def sat_exact split: if_splits option.splits)

lemma fit_offload_unknown:
  "fit_offload budget offload lazy = (r, d, notes) \<Longrightarrow>
   (r = None \<longleftrightarrow> offload > 0 \<and> budget = None) \<and> (d = None \<longleftrightarrow> r = None) \<and>
   PlacementAdjustment \<notin> notes \<and> (r = None \<longrightarrow> notes = {CapacityUnknown})"
  by (auto simp: fit_offload_def Let_def split: if_splits option.splits)

section \<open>Properties\<close>


text \<open>C40. The estimate does not depend on what the cache holds: from any two caches that hold, for
  each file whose size and time they match, what scanning it would give, the estimate is the same,
  and both caches stay so and within their bound.\<close>

theorem estimate_ignores_cache:
  assumes "cache_good fs c" and "cache_good fs k"
  shows "\<exists>r c' k'. estimate fs inspected cfg env c = Some (r, c') \<and>
    estimate fs inspected cfg env k = Some (r, k') \<and> cache_good fs c' \<and> cache_good fs k'"
  using estimate_memory_good [OF assms, of cfg env] assms
  by (auto simp: estimate_def)

definition demo_files :: file_view where
  "demo_files =
     \<lparr>fv_canonical = (\<lambda>p. if p = ''m.gguf'' then Some ''/m.gguf'' else None),
      fv_metadata = (\<lambda>p. if p = ''/m.gguf'' then Some (True, 3, Some 7) else None),
      fv_content = (\<lambda>p. None)\<rparr>"

definition demo_cache :: facts_cache where
  "demo_cache =
     \<lparr>fc_entries = [(''/m.gguf'', \<lparr>ch_len = 3, ch_modified = Some 7, ch_facts = Inl unreadable_message\<rparr>)],
      fc_order = [''/m.gguf'']\<rparr>"

definition demo_machine :: environment where
  "demo_machine =
     \<lparr>en_ram_capacity = Some 20, en_vram_capacity = Some 8, en_accelerator = GpuDevices 1,
      en_shared_memory = False\<rparr>"

theorem estimate_ignores_cache_witness:
  "map_option fst (estimate demo_files (\<lambda>_. (0, False)) ((config_default ''models'')\<lparr>cf_active_model := ''m.gguf''\<rparr>) demo_machine demo_cache) =
     map_option fst (estimate demo_files (\<lambda>_. (0, False)) ((config_default ''models'')\<lparr>cf_active_model := ''m.gguf''\<rparr>) demo_machine \<lparr>fc_entries = [], fc_order = []\<rparr>)"
proof -
  have "cache_good demo_files demo_cache"
    by (simp add: cache_good_def cache_ok_def cache_honest_def demo_files_def demo_cache_def scan_facts_def
        max_cached_facts_def)
  moreover have "cache_good demo_files \<lparr>fc_entries = [], fc_order = []\<rparr>"
    by (simp add: cache_good_def cache_ok_def cache_honest_def)
  ultimately show ?thesis
    using estimate_ignores_cache [of demo_files demo_cache "\<lparr>fc_entries = [], fc_order = []\<rparr>" "\<lambda>_. (0, False)"
        "(config_default ''models'')\<lparr>cf_active_model := ''m.gguf''\<rparr>" demo_machine] by auto
qed

text \<open>C22. Fitting a plan into the machine loses nothing and overcommits nothing. What is kept in video
  memory, in system memory and on disk adds up to what was asked for; video memory stays within the
  budget, system memory within what the host process and a shared GPU leave; and the notes report a
  moved placement, a disk offload or an unknown capacity exactly when there is one.\<close>

theorem fit_adds_up:
  assumes "required + cpu + lazy < u64_bound" and "f = fit_capacity env required cpu host lazy"
  shows "\<exists>v. fi_vram f = Some v \<and> v \<le> required \<and>
    (\<forall>b. gpu_budget env host = Some b \<longrightarrow> v = min required b) \<and>
    (PlacementAdjustment \<in> fi_notes f \<longleftrightarrow> v < required) \<and>
    (\<forall>r d. fi_ram f = Some r \<and> fi_ssd f = Some d \<longrightarrow>
       v + r + d = required + cpu + lazy \<and> (DiskOffload \<in> fi_notes f \<longleftrightarrow> lazy < d) \<and>
       (\<forall>ram. en_ram_capacity env = Some ram \<longrightarrow>
          r \<le> ram - host \<and>
          (en_shared_memory env \<longrightarrow> r \<le> ram - host - (v - or_zero (en_vram_capacity env))))) \<and>
    (fi_ram f = None \<longleftrightarrow> fi_ssd f = None) \<and>
    (fi_ram f = None \<longrightarrow> en_ram_capacity env = None \<and> CapacityUnknown \<in> fi_notes f)"
proof -
  define v where "v = (case gpu_budget env host of None \<Rightarrow> required | Some b \<Rightarrow> min required b)"
  define shared where "shared = (if en_shared_memory env then v - or_zero (en_vram_capacity env) else 0)"
  define budget where "budget = map_option (\<lambda>ram. ram - host - shared) (en_ram_capacity env)"
  have v: "v \<le> required" by (simp add: v_def split: option.split)
  have offload: "saturating_add cpu (required - v) = cpu + (required - v)"
    using assms(1) v by (intro sat_exact) simp
  obtain r d ns where fit: "fit_offload budget (cpu + (required - v)) lazy = (r, d, ns)"
    by (cases "fit_offload budget (cpu + (required - v)) lazy") auto
  have f: "f = \<lparr>fi_vram = Some v, fi_ram = r, fi_ssd = d,
      fi_notes = note_if (required - v > 0) PlacementAdjustment
        \<union> note_if (gpu_budget env host = None \<and> required > 0) CapacityUnknown \<union> ns\<rparr>"
    unfolding assms(2) fit_capacity_def Let_def v_def [symmetric] shared_def [symmetric]
      budget_def [symmetric] offload fit prod.case ..
  note unknown = fit_offload_unknown [OF fit]
  have b: "gpu_budget env host = Some b \<Longrightarrow> v = min required b" for b by (simp add: v_def)
  have sums: "v + r' + d' = required + cpu + lazy \<and> (DiskOffload \<in> fi_notes f \<longleftrightarrow> lazy < d') \<and>
      (\<forall>ram. en_ram_capacity env = Some ram \<longrightarrow> r' \<le> ram - host - shared)"
    if "r = Some r'" "d = Some d'" for r' d'
  proof -
    have "cpu + (required - v) + lazy < u64_bound" using assms(1) by simp
    from fit_offload_adds_up [OF fit [unfolded that] this] v show ?thesis
      by (auto simp: f budget_def)
  qed
  show ?thesis
    using v b unknown sums by (fastforce simp: f budget_def shared_def)
qed

theorem fit_adds_up_witness:
  "let f = fit_capacity demo_machine 30 5 6 2
   in fi_vram f = Some 8 \<and> fi_ram f = Some 14 \<and> fi_ssd f = Some 15 \<and> 8 + 14 + 15 = (30 + 5 + 2 :: nat)"
  using fit_adds_up [of 30 5 2 _ demo_machine 6]
  by (simp add: demo_machine_def fit_capacity_def gpu_budget_def fit_offload_def saturating_add_def u64_bound_def)

text \<open>The bounds of the working set are in order: always for video memory, and for system memory
  when there are no more slots than tokens in a physical batch. On a machine without an accelerator
  nothing is planned in video memory.\<close>

lemma estimate_bounds_ordered:
  assumes "plan_memory cfg env launch fl = Some m"
  shows "(\<forall>r. me_vram m = Some r \<longrightarrow>
       rr_min r \<le> rr_max r \<and> (en_accelerator env = CpuOnly \<longrightarrow> r = range_exact 0)) \<and>
    ((case lp_parallel launch of None \<Rightarrow> auto_slots | Some n \<Rightarrow> n) \<le> lp_ubatch launch \<longrightarrow>
       (\<forall>r. me_ram m = Some r \<longrightarrow> rr_min r \<le> rr_max r))"
proof (cases "me_vram m = None \<and> me_ram m = None")
  case False
  let ?st = "check_loaded cfg launch (fl_state fl)"
  from assms False obtain f sh where f: "fl_main fl = Some f"
    and sh: "shape_of (fm_facts f) (fm_tensors f) = Inr sh"
    by (auto simp: plan_memory_def Let_def split: option.split_asm sum.split_asm)
  from assms False obtain sc where sc: "scenario_of launch sh (en_accelerator env) = Some sc"
    by (auto simp: plan_memory_shaped [OF f sh] Let_def split: option.split_asm)
  from assms obtain t where
    t: "placement_totals cfg launch sc (accelerator_devices (en_accelerator env)) sh
        (fl_projector fl) (fl_adapters fl) (fl_draft fl) = Some t"
    and m: "m = finish_memory env ?st True
        (plan_notes cfg env launch sc sh (fl_draft fl) (ls_blocked ?st) t) (Some t)"
    by (auto simp: plan_memory_shaped [OF f sh] sc Let_def)
  have dev: "accelerator_devices acc \<ge> 1" for acc by (simp add: accelerator_devices_def split: accelerator.split)
  from sc have seq: "sc_n_seq sc = (case lp_parallel launch of None \<Rightarrow> auto_slots | Some n \<Rightarrow> n)"
    and gpu: "sc_gpu sc \<longleftrightarrow> en_accelerator env \<noteq> CpuOnly"
    unfolding scenario_of_def Let_def by auto
  from placement_totals_ordered [OF t dev, of "sc_n_seq sc \<le> lp_ubatch launch"]
    placement_totals_no_device [OF t]
  show ?thesis
    by (auto simp: m finish_memory_def Let_def ordered_totals_def ordered_range_def gpu range_zero_def
        seq [symmetric] split: if_splits)
qed auto

definition demo_model :: found_model where
  "demo_model =
     \<lparr>fm_facts = (facts_of scan_keys_new None)\<lparr>mf_architecture := Some ''llama'', mf_block_count := Some 2,
        mf_embedding_length := Some 8, mf_head_count := Some (Uniform 2)\<rparr>,
      fm_tensors = Some demo_tensors\<rparr>"

definition demo_launch :: launch_plan where
  "demo_launch =
     \<lparr>lp_ngl = 2, lp_ctx = 64, lp_ubatch = 4, lp_pipeline_backend = False, lp_type_k = Some KvF16,
      lp_type_v = Some KvF16, lp_flash_attn = Some True, lp_n_cpu_moe = 0, lp_parallel = Some 1,
      lp_args = server_args_default, lp_automatic = False\<rparr>"

definition demo_loaded :: files_loaded where
  "demo_loaded =
     \<lparr>fl_main = Some demo_model, fl_projector = None, fl_adapters = [demo_tensors], fl_draft = None,
      fl_state = \<lparr>ls_disk = disk_new, ls_cache = demo_cache, ls_notes = {}, ls_blocked = False\<rparr>\<rparr>"

lemma demo_shape: "\<exists>sh. shape_of (fm_facts demo_model) (fm_tensors demo_model) = Inr sh"
  by (simp add: demo_model_def facts_of_def scan_keys_new_def Let_def shape_of_def unsupported_def
      unsupported_architectures_def hybrid_architectures_def known_dim_def max_model_layers_def
      positive_def hybrid_dimensions_def implausible_def demo_tensors_def layer_total_def
      bad_heads_def or_else_def saturating_add_def u64_bound_def max_dim_def raw_int_def raw_per_layer_def
      upt_rec ok_or_def)

theorem estimate_bounds_ordered_witness:
  "\<exists>m v r. plan_memory (config_default ''models'') demo_machine demo_launch demo_loaded = Some m \<and>
     me_vram m = Some v \<and> rr_min v \<le> rr_max v \<and> me_ram m = Some r \<and> rr_min r \<le> rr_max r"
proof -
  obtain sh where sh: "shape_of (fm_facts demo_model) (fm_tensors demo_model) = Inr sh"
    using demo_shape by blast
  have "draft_wf demo_loaded" by (simp add: draft_wf_def demo_loaded_def)
  from plan_memory_total [OF this] obtain m where
    m: "plan_memory (config_default ''models'') demo_machine demo_launch demo_loaded = Some m" by blast
  have main: "fl_main demo_loaded = Some demo_model" by (simp add: demo_loaded_def)
  have open_ctx: "\<exists>sc. scenario_of demo_launch sh (en_accelerator demo_machine) = Some sc"
    by (simp add: scenario_of_def demo_launch_def Let_def)
  have free: "\<not> ls_blocked (check_loaded (config_default ''models'') demo_launch (fl_state demo_loaded))"
    by (simp add: check_loaded_def demo_loaded_def disk_new_def advanced_options_def demo_launch_def
        server_args_default_def config_default_def placement_default_def Let_def)
  from m open_ctx free have "\<exists>v r. me_vram m = Some v \<and> me_ram m = Some r"
    by (auto simp: plan_memory_shaped [OF main sh] Let_def finish_memory_def)
  with estimate_bounds_ordered [OF m] m show ?thesis
    by (auto simp: demo_launch_def)
qed

end
