(* ===== verification/Permits.thy ===== *)
theory Permits
  imports Prelude "HOL-Library.Multiset"
begin

text \<open>
  Upload permits and request tracking of benchmark sharing,
  \<open>src-tauri/src/benchmark/sharing/permits.rs\<close>.

  An \<open>AbortHandle\<close> is the number of the request it aborts; \<open>ep_aborted\<close> records the handles on
  which \<open>abort()\<close> was called, in order. An \<open>Instant\<close> is a number of milliseconds. Operations run
  under one mutex, so a run is a sequence of operations.
\<close>

section \<open>State\<close>

definition permit_ttl :: nat where "permit_ttl = 5 * 60 * 1000"
definition max_permit_len :: nat where "max_permit_len = 4096"
definition max_tracked_per_submission :: nat where "max_tracked_per_submission = 8"
definition max_tracked_submissions :: nat where "max_tracked_submissions = 128"

record stored_permit =
  sp_permit :: string
  sp_session_id :: string
  sp_received_at :: nat

record tracked_request =
  tq_id :: nat
  tq_abort :: nat

record ephemeral =
  ep_permits :: "(string \<times> stored_permit) list"
  ep_generations :: "(string \<times> nat) list"
  ep_requests :: "(string \<times> tracked_request list) list"
  ep_order :: "(string \<times> nat) list"
  ep_next_request_id :: nat
  ep_epoch :: nat
  ep_aborted :: "nat list"

definition ephemeral_new :: ephemeral where
  "ephemeral_new =
     \<lparr>ep_permits = [], ep_generations = [], ep_requests = [], ep_order = [], ep_next_request_id = 1,
      ep_epoch = 0, ep_aborted = []\<rparr>"

definition put :: "'k \<Rightarrow> 'v \<Rightarrow> ('k \<times> 'v) list \<Rightarrow> ('k \<times> 'v) list" where
  "put k v m = (k, v) # map_remove k m"

definition wrapping_inc :: "nat \<Rightarrow> nat" where
  "wrapping_inc n = (n + 1) mod u64_bound"

section \<open>Operations\<close>

definition abort_all :: "tracked_request list \<Rightarrow> ephemeral \<Rightarrow> ephemeral" where
  "abort_all ts st = st\<lparr>ep_aborted := ep_aborted st @ map tq_abort ts\<rparr>"

definition generation :: "string \<Rightarrow> ephemeral \<Rightarrow> nat" where
  "generation sub st = (case map_of (ep_generations st) sub of None \<Rightarrow> 0 | Some g \<Rightarrow> g)"

definition note_measurement_start :: "ephemeral \<Rightarrow> ephemeral" where
  "note_measurement_start st =
     abort_all (concat (map snd (ep_requests st)))
       (st\<lparr>ep_permits := [], ep_requests := [], ep_order := [], ep_epoch := wrapping_inc (ep_epoch st)\<rparr>)"

definition store_permit :: "string \<Rightarrow> string \<Rightarrow> string \<Rightarrow> nat \<Rightarrow> ephemeral \<Rightarrow> ephemeral" where
  "store_permit sub session permit now st =
     (if permit = [] \<or> length permit > max_permit_len then st
      else st\<lparr>ep_permits := put sub
        \<lparr>sp_permit = permit, sp_session_id = session, sp_received_at = now\<rparr> (ep_permits st)\<rparr>)"

text \<open>\<open>elapsed\<close> saturates at zero.\<close>

definition live_permit :: "string \<Rightarrow> nat \<Rightarrow> ephemeral \<Rightarrow> (string \<times> string) option \<times> ephemeral" where
  "live_permit sub now st =
     (case map_of (ep_permits st) sub of
        None \<Rightarrow> (None, st)
      | Some p \<Rightarrow>
          if now - sp_received_at p > permit_ttl
          then (None, st\<lparr>ep_permits := map_remove sub (ep_permits st)\<rparr>)
          else (Some (sp_permit p, sp_session_id p), st))"

definition clear_permit :: "string \<Rightarrow> ephemeral \<Rightarrow> ephemeral" where
  "clear_permit sub st = st\<lparr>ep_permits := map_remove sub (ep_permits st)\<rparr>"

definition tracked_of :: "string \<Rightarrow> ephemeral \<Rightarrow> tracked_request list" where
  "tracked_of sub st = (case map_of (ep_requests st) sub of None \<Rightarrow> [] | Some ts \<Rightarrow> ts)"

definition cancel_submission :: "string \<Rightarrow> ephemeral \<Rightarrow> ephemeral" where
  "cancel_submission sub st =
     (let st = st\<lparr>ep_permits := map_remove sub (ep_permits st)\<rparr>;
          st = abort_all (tracked_of sub st) (st\<lparr>ep_requests := map_remove sub (ep_requests st)\<rparr>)
      in st\<lparr>ep_generations := put sub
             (case map_of (ep_generations st) sub of None \<Rightarrow> 1 | Some g \<Rightarrow> wrapping_inc g)
             (ep_generations st)\<rparr>)"

text \<open>The oldest requests over the limit of a submission, and those that stay.\<close>

fun cap_tracked :: "tracked_request list \<Rightarrow> tracked_request list \<times> tracked_request list" where
  "cap_tracked [] = ([], [])"
| "cap_tracked (t # ts) =
     (if length (t # ts) > max_tracked_per_submission
      then (let (old, kept) = cap_tracked ts in (t # old, kept)) else ([], t # ts))"

definition drop_tracked :: "string \<Rightarrow> nat \<Rightarrow> ephemeral \<Rightarrow> ephemeral" where
  "drop_tracked sub i st =
     (case map_of (ep_requests st) sub of
        None \<Rightarrow> st
      | Some ts \<Rightarrow>
          (case find (\<lambda>t. tq_id t = i) ts of
             None \<Rightarrow> st
           | Some t \<Rightarrow> abort_all [t] (st\<lparr>ep_requests := put sub (remove1 t ts) (ep_requests st)\<rparr>)))"

fun trim_order :: "(string \<times> nat) list \<Rightarrow> ephemeral \<Rightarrow> ephemeral" where
  "trim_order [] st = st\<lparr>ep_order := []\<rparr>"
| "trim_order (e # rest) st =
     (if length (e # rest) > max_tracked_submissions * max_tracked_per_submission
      then trim_order rest (drop_tracked (fst e) (snd e) st) else st\<lparr>ep_order := e # rest\<rparr>)"

definition track_request_if_live ::
  "string \<Rightarrow> nat \<Rightarrow> nat \<Rightarrow> nat \<Rightarrow> ephemeral \<Rightarrow> nat option \<times> ephemeral" where
  "track_request_if_live sub epoch gen handle st =
     (if ep_epoch st \<noteq> epoch \<or> generation sub st \<noteq> gen then (None, st)
      else
        let i = ep_next_request_id st;
            (old, kept) = cap_tracked (tracked_of sub st @ [\<lparr>tq_id = i, tq_abort = handle\<rparr>]);
            st = abort_all old
              (st\<lparr>ep_next_request_id := max (wrapping_inc i) 1,
                 ep_requests := put sub kept (ep_requests st)\<rparr>)
        in (Some i, trim_order (ep_order st @ [(sub, i)]) st))"

definition untrack_request :: "string \<Rightarrow> nat \<Rightarrow> ephemeral \<Rightarrow> ephemeral" where
  "untrack_request sub i st =
     (case map_of (ep_requests st) sub of
        None \<Rightarrow> st
      | Some ts \<Rightarrow>
          let kept = filter (\<lambda>t. tq_id t \<noteq> i) ts in
          st\<lparr>ep_requests := (if kept = [] then map_remove sub (ep_requests st)
                             else put sub kept (ep_requests st))\<rparr>)"

section \<open>Runs\<close>

datatype sharing_op =
  MeasurementStart
| StorePermit string string string nat
| LivePermit string nat
| ClearPermit string
| CancelSubmission string
| Track string nat nat nat
| Untrack string nat

fun apply_op :: "sharing_op \<Rightarrow> ephemeral \<Rightarrow> ephemeral" where
  "apply_op MeasurementStart st = note_measurement_start st"
| "apply_op (StorePermit sub session permit now) st = store_permit sub session permit now st"
| "apply_op (LivePermit sub now) st = snd (live_permit sub now st)"
| "apply_op (ClearPermit sub) st = clear_permit sub st"
| "apply_op (CancelSubmission sub) st = cancel_submission sub st"
| "apply_op (Track sub epoch gen handle) st = snd (track_request_if_live sub epoch gen handle st)"
| "apply_op (Untrack sub i) st = untrack_request sub i st"

text \<open>The handles an operation starts to track, and those it lets go because their request ended.\<close>

fun accepted :: "sharing_op \<Rightarrow> ephemeral \<Rightarrow> nat multiset" where
  "accepted (Track sub epoch gen handle) st =
     (if fst (track_request_if_live sub epoch gen handle st) = None then {#} else {#handle#})"
| "accepted _ st = {#}"

fun finished :: "sharing_op \<Rightarrow> ephemeral \<Rightarrow> nat multiset" where
  "finished (Untrack sub i) st =
     mset (map tq_abort (filter (\<lambda>t. tq_id t = i) (tracked_of sub st)))"
| "finished _ st = {#}"

fun run_ops :: "sharing_op list \<Rightarrow> ephemeral \<Rightarrow> ephemeral" where
  "run_ops [] st = st"
| "run_ops (a # as) st = run_ops as (apply_op a st)"

fun accepted_in :: "sharing_op list \<Rightarrow> ephemeral \<Rightarrow> nat multiset" where
  "accepted_in [] st = {#}"
| "accepted_in (a # as) st = accepted a st + accepted_in as (apply_op a st)"

fun finished_in :: "sharing_op list \<Rightarrow> ephemeral \<Rightarrow> nat multiset" where
  "finished_in [] st = {#}"
| "finished_in (a # as) st = finished a st + finished_in as (apply_op a st)"

definition tracked :: "ephemeral \<Rightarrow> nat multiset" where
  "tracked st = (\<Sum>(sub, ts) \<in># mset (ep_requests st). mset (map tq_abort ts))"

section \<open>Bookkeeping lemmas\<close>

lemma abort_all_sel [simp]:
  "ep_requests (abort_all ts st) = ep_requests st" "ep_order (abort_all ts st) = ep_order st"
  "ep_next_request_id (abort_all ts st) = ep_next_request_id st"
  "ep_epoch (abort_all ts st) = ep_epoch st" "ep_permits (abort_all ts st) = ep_permits st"
  "ep_generations (abort_all ts st) = ep_generations st"
  "ep_aborted (abort_all ts st) = ep_aborted st @ map tq_abort ts"
  by (simp_all add: abort_all_def)

lemma map_of_put [simp]: "map_of (put k v m) = (map_of m)(k \<mapsto> v)"
  by (auto simp: put_def map_of_map_remove fun_eq_iff)

lemma put_keys [simp]: "set (map fst (put k v m)) = insert k (set (map fst m))"
  by (simp add: put_def del: set_map)

lemma put_distinct: "distinct (map fst m) \<Longrightarrow> distinct (map fst (put k v m))"
  by (auto simp: put_def map_remove_distinct simp del: set_map)

lemma cap_tracked_split:
  "cap_tracked ts = (old, kept) \<Longrightarrow> ts = old @ kept \<and> length kept \<le> max_tracked_per_submission"
  by (induction ts arbitrary: old kept) (auto simp: max_tracked_per_submission_def split: if_splits prod.splits)

lemma handles_map_remove:
  assumes "distinct (map fst m)"
  shows "(\<Sum>(k, v) \<in># mset m. f v) =
    (case map_of m k of None \<Rightarrow> {#} | Some v \<Rightarrow> f v) + (\<Sum>(k, v) \<in># mset (map_remove k m). f v)"
  using assms
proof (induction m)
  case (Cons e m)
  obtain k' v where e: "e = (k', v)" by (cases e)
  show ?case
  proof (cases "k' = k")
    case True
    with Cons.prems e have "k \<notin> set (map fst m)" by simp
    then have "map_remove k m = m" unfolding map_remove_def by (intro filter_True) force
    with True e show ?thesis by (simp add: map_remove_def)
  next
    case False
    with Cons e show ?thesis by (simp add: map_remove_def add_ac)
  qed
qed (simp add: map_remove_def)

section \<open>No handle is lost\<close>

definition keys_distinct :: "ephemeral \<Rightarrow> bool" where
  "keys_distinct st \<longleftrightarrow> distinct (map fst (ep_requests st))"

definition others :: "string \<Rightarrow> ephemeral \<Rightarrow> nat multiset" where
  "others sub st = (\<Sum>(k, ts) \<in># mset (map_remove sub (ep_requests st)). mset (map tq_abort ts))"

definition held :: "ephemeral \<Rightarrow> nat multiset" where
  "held st = tracked st + mset (ep_aborted st)"

lemma tracked_split:
  "keys_distinct st \<Longrightarrow> tracked st = mset (map tq_abort (tracked_of sub st)) + others sub st"
  unfolding tracked_def others_def keys_distinct_def tracked_of_def
  using handles_map_remove [of "ep_requests st" "\<lambda>ts. mset (map tq_abort ts)" sub]
  by (auto split: option.split)

lemma map_remove_twice [simp]: "map_remove k (map_remove k m) = map_remove k m"
  by (auto simp: map_remove_def)

lemma tracked_put:
  "tracked (st\<lparr>ep_requests := put sub ts (ep_requests st)\<rparr>) = mset (map tq_abort ts) + others sub st"
  by (simp add: tracked_def others_def put_def)

lemma tracked_remove:
  "tracked (st\<lparr>ep_requests := map_remove sub (ep_requests st)\<rparr>) = others sub st"
  by (simp add: tracked_def others_def)

lemma tracked_cong: "ep_requests st = ep_requests st' \<Longrightarrow> tracked st = tracked st'"
  by (simp add: tracked_def)

lemma tracked_abort_all [simp]: "tracked (abort_all ts st) = tracked st"
  by (simp add: tracked_def)

lemma tracked_concat: "tracked st = mset (map tq_abort (concat (map snd (ep_requests st))))"
proof -
  have "(\<Sum>(k, ts) \<in># mset m. mset (map tq_abort ts)) = mset (map tq_abort (concat (map snd m)))"
    for m :: "(string \<times> tracked_request list) list"
    by (induction m) auto
  then show ?thesis by (simp add: tracked_def)
qed

lemma abort_all_held: "held (abort_all ts st) = held st + mset (map tq_abort ts)"
  by (simp add: held_def tracked_def abort_all_def add_ac)

lemma held_fields [simp]:
  "held (st\<lparr>ep_order := x\<rparr>) = held st" "held (st\<lparr>ep_permits := y\<rparr>) = held st"
  "held (st\<lparr>ep_generations := z\<rparr>) = held st" "held (st\<lparr>ep_next_request_id := n\<rparr>) = held st"
  "held (st\<lparr>ep_epoch := e\<rparr>) = held st"
  by (simp_all add: held_def tracked_def)

lemma keys_put [simp]:
  "keys_distinct st \<Longrightarrow> keys_distinct (st\<lparr>ep_requests := put sub ts (ep_requests st)\<rparr>)"
  "keys_distinct st \<Longrightarrow> keys_distinct (st\<lparr>ep_requests := map_remove sub (ep_requests st)\<rparr>)"
  by (simp_all add: keys_distinct_def put_distinct map_remove_distinct)

lemma keys_fields [simp]:
  "keys_distinct (st\<lparr>ep_order := x\<rparr>) = keys_distinct st"
  "keys_distinct (abort_all ts st) = keys_distinct st"
  "keys_distinct (st\<lparr>ep_next_request_id := n\<rparr>) = keys_distinct st"
  by (simp_all add: keys_distinct_def)

lemma drop_tracked_held:
  assumes "keys_distinct st"
  shows "held (drop_tracked sub i st) = held st \<and> keys_distinct (drop_tracked sub i st)"
proof (cases "find (\<lambda>t. tq_id t = i) (tracked_of sub st)")
  case None
  with assms show ?thesis by (auto simp: drop_tracked_def tracked_of_def split: option.splits)
next
  case (Some t)
  then have mem: "t \<in> set (tracked_of sub st)" by (auto simp: find_Some_iff)
  then obtain ts where ts: "map_of (ep_requests st) sub = Some ts" "tracked_of sub st = ts"
    by (cases "map_of (ep_requests st) sub") (auto simp: tracked_of_def)
  have "mset (map tq_abort ts) = add_mset (tq_abort t) (mset (map tq_abort (remove1 t ts)))"
    using mem ts by (simp add: image_mset_add_mset [symmetric] del: image_mset_add_mset)
  with Some ts assms tracked_split [OF assms, of sub] show ?thesis
    by (simp add: drop_tracked_def abort_all_held held_def tracked_put)
qed

lemma trim_order_held:
  "keys_distinct st \<Longrightarrow> held (trim_order es st) = held st \<and> keys_distinct (trim_order es st)"
  by (induction es st rule: trim_order.induct) (auto simp: drop_tracked_held)

lemma track_held:
  assumes "keys_distinct st" and "track_request_if_live sub epoch gen handle st = (r, st')"
  shows "held st' = held st + (if r = None then {#} else {#handle#}) \<and> keys_distinct st'"
proof (cases "ep_epoch st \<noteq> epoch \<or> generation sub st \<noteq> gen")
  case True
  with assms show ?thesis by (auto simp: track_request_if_live_def)
next
  case False
  let ?i = "ep_next_request_id st"
  obtain old kept where cap: "cap_tracked (tracked_of sub st @ [\<lparr>tq_id = ?i, tq_abort = handle\<rparr>]) = (old, kept)"
    by fastforce
  let ?st = "st\<lparr>ep_next_request_id := max (wrapping_inc ?i) 1, ep_requests := put sub kept (ep_requests st)\<rparr>"
  have keys: "keys_distinct ?st" using assms(1) by (simp add: keys_distinct_def put_distinct)
  have "tracked ?st = mset (map tq_abort kept) + others sub st"
    by (simp add: tracked_def others_def put_def)
  moreover have "mset (map tq_abort (tracked_of sub st)) + {#handle#} = mset (map tq_abort old) + mset (map tq_abort kept)"
    using arg_cong [OF conjunct1 [OF cap_tracked_split [OF cap]], of "\<lambda>ts. mset (map tq_abort ts)"] by simp
  ultimately have "held (abort_all old ?st) = held st + {#handle#}"
    using tracked_split [OF assms(1), of sub] by (simp add: abort_all_held held_def add_ac)
  with trim_order_held [of "abort_all old ?st" "ep_order st @ [(sub, ?i)]"] keys False assms(2) cap
  show ?thesis by (auto simp: track_request_if_live_def Let_def)
qed

lemma finished_filter:
  "mset (map f (filter (\<lambda>t. tq_id t = i) ts)) + mset (map f (filter (\<lambda>t. tq_id t \<noteq> i) ts)) = mset (map f ts)"
  by (induction ts) auto

lemma apply_op_held:
  assumes "keys_distinct st"
  shows "held (apply_op a st) + finished a st = held st + accepted a st \<and> keys_distinct (apply_op a st)"
proof (cases a)
  case MeasurementStart
  with tracked_concat [of st] show ?thesis
    by (simp add: note_measurement_start_def abort_all_held keys_distinct_def) (simp add: held_def tracked_def)
next
  case (CancelSubmission sub)
  have "held (cancel_submission sub st) = held st"
    using tracked_split [OF assms, of sub]
    by (simp add: cancel_submission_def Let_def abort_all_held held_def tracked_of_def)
      (simp add: tracked_def others_def)
  with CancelSubmission assms show ?thesis
    by (simp add: cancel_submission_def Let_def keys_distinct_def map_remove_distinct)
next
  case (Track sub epoch gen handle)
  with track_held [OF assms, of sub epoch gen handle] show ?thesis
    by (cases "track_request_if_live sub epoch gen handle st") auto
next
  case (Untrack sub i)
  show ?thesis
  proof (cases "map_of (ep_requests st) sub")
    case None
    with Untrack assms show ?thesis by (simp add: untrack_request_def tracked_of_def)
  next
    case (Some ts)
    then have ts: "tracked_of sub st = ts" by (simp add: tracked_of_def)
    let ?kept = "filter (\<lambda>t. tq_id t \<noteq> i) ts"
    have "tracked (untrack_request sub i st) = mset (map tq_abort ?kept) + others sub st"
    proof (cases "?kept = []")
      case True
      then show ?thesis using Some by (simp add: untrack_request_def tracked_remove)
    next
      case False
      then show ?thesis using Some by (simp only: untrack_request_def Let_def option.case if_False tracked_put)
    qed
    moreover have "ep_aborted (untrack_request sub i st) = ep_aborted st" "keys_distinct (untrack_request sub i st)"
      using Some assms by (simp_all add: untrack_request_def Let_def keys_distinct_def put_distinct map_remove_distinct)
    ultimately show ?thesis
      using tracked_split [OF assms, of sub] finished_filter [of tq_abort i ts] Untrack
      by (simp add: held_def ts add_ac)
  qed
qed (use assms in \<open>auto simp: store_permit_def live_permit_def clear_permit_def keys_distinct_def split: option.split\<close>)

lemma run_ops_held:
  assumes "keys_distinct st"
  shows "held (run_ops as st) + finished_in as st = held st + accepted_in as st \<and>
    keys_distinct (run_ops as st)"
  using assms
proof (induction as arbitrary: st)
  case (Cons a as)
  from apply_op_held [OF Cons.prems, of a]
  have a: "held (apply_op a st) + finished a st = held st + accepted a st"
    and k: "keys_distinct (apply_op a st)" by auto
  from Cons.IH [OF k] have "held (run_ops as (apply_op a st)) + finished_in as (apply_op a st) =
      held (apply_op a st) + accepted_in as (apply_op a st)" by simp
  with a have "held (run_ops as (apply_op a st)) + finished_in as (apply_op a st) + finished a st =
      held st + accepted a st + accepted_in as (apply_op a st)" by (metis add.assoc add.commute)
  with Cons.IH [OF k] show ?case by (simp add: add_ac)
qed simp

section \<open>The table stays small\<close>

definition max_order :: nat where
  "max_order = max_tracked_submissions * max_tracked_per_submission"

text \<open>Every tracked request of every submission has its entry in the queue of ids.\<close>

definition listed :: "(string \<times> nat) list \<Rightarrow> ephemeral \<Rightarrow> bool" where
  "listed es st \<longleftrightarrow>
     (\<forall>sub ts. map_of (ep_requests st) sub = Some ts \<longrightarrow>
        length ts \<le> max_tracked_per_submission \<and> distinct (map tq_id ts) \<and>
        (\<forall>t \<in> set ts. (sub, tq_id t) \<in> set es))"

definition permits_ok :: "ephemeral \<Rightarrow> bool" where
  "permits_ok st \<longleftrightarrow>
     keys_distinct st \<and> listed (ep_order st) st \<and> length (ep_order st) \<le> max_order \<and>
     distinct (map snd (ep_order st)) \<and> (\<forall>e \<in> set (ep_order st). snd e < ep_next_request_id st)"

lemma listed_fields [simp]:
  "listed es (st\<lparr>ep_order := x\<rparr>) = listed es st" "listed es (abort_all ts st) = listed es st"
  by (simp_all add: listed_def)

lemma listed_put:
  "listed es st \<Longrightarrow> length ts \<le> max_tracked_per_submission \<Longrightarrow> distinct (map tq_id ts) \<Longrightarrow>
   \<forall>t \<in> set ts. (sub, tq_id t) \<in> set es \<Longrightarrow>
   listed es (st\<lparr>ep_requests := put sub ts (ep_requests st)\<rparr>)"
  by (auto simp: listed_def)

lemma listed_remove: "listed es st \<Longrightarrow> listed es (st\<lparr>ep_requests := map_remove sub (ep_requests st)\<rparr>)"
  by (auto simp: listed_def map_of_map_remove)

lemma remove1_ids:
  assumes "distinct (map tq_id ts)" and "t \<in> set ts"
  shows "distinct (map tq_id (remove1 t ts))" "u \<in> set (remove1 t ts) \<Longrightarrow> tq_id u \<noteq> tq_id t"
proof -
  from assms(1) show "distinct (map tq_id (remove1 t ts))"
    by (auto simp: distinct_map inj_on_def dest: notin_set_remove1)
  assume "u \<in> set (remove1 t ts)"
  with assms show "tq_id u \<noteq> tq_id t" by (auto simp: distinct_map inj_on_def)
qed

lemma drop_tracked_lookup:
  assumes "listed es st" and "map_of (ep_requests (drop_tracked sub i st)) k = Some ts'"
  obtains ts where "map_of (ep_requests st) k = Some ts" and "set ts' \<subseteq> set ts"
    and "length ts' \<le> length ts" and "distinct (map tq_id ts')"
    and "k = sub \<Longrightarrow> i \<notin> tq_id ` set ts'"
proof (cases "map_of (ep_requests st) sub")
  case None
  with assms(2) have "k \<noteq> sub" "map_of (ep_requests st) k = Some ts'" by (auto simp: drop_tracked_def)
  with assms(1) that [of ts'] show ?thesis by (auto simp: listed_def)
next
  case (Some old)
  with assms(1) have dist: "distinct (map tq_id old)" by (auto simp: listed_def)
  show ?thesis
  proof (cases "find (\<lambda>t. tq_id t = i) old")
    case None
    then have "i \<notin> tq_id ` set old" by (auto simp: find_None_iff)
    moreover from None Some assms(2) have "map_of (ep_requests st) k = Some ts'" by (simp add: drop_tracked_def)
    ultimately show ?thesis using Some assms(1) that [of ts'] by (cases "k = sub") (auto simp: listed_def)
  next
    case found: (Some t)
    then have t: "t \<in> set old" "tq_id t = i" by (auto simp: find_Some_iff)
    have eq: "ep_requests (drop_tracked sub i st) = put sub (remove1 t old) (ep_requests st)"
      using Some found by (simp add: drop_tracked_def)
    show ?thesis
    proof (cases "k = sub")
      case True
      with assms(2) eq have ts': "ts' = remove1 t old" by simp
      have "length ts' \<le> length old" using t by (simp add: ts' length_remove1)
      moreover have "i \<notin> tq_id ` set ts'"
      proof
        assume "i \<in> tq_id ` set ts'"
        then obtain u where "u \<in> set (remove1 t old)" "tq_id u = i" by (auto simp: ts')
        with remove1_ids(2) [OF dist t(1), of u] t(2) show False by simp
      qed
      ultimately show ?thesis
        using that [of old] Some True remove1_ids(1) [OF dist t(1)] set_remove1_subset [of t old]
        by (simp add: ts')
    next
      case False
      with assms eq that [of ts'] show ?thesis by (auto simp: listed_def)
    qed
  qed
qed

lemma drop_tracked_listed:
  assumes "listed (e # es) st" and "distinct (map snd (e # es))"
  shows "listed es (drop_tracked (fst e) (snd e) st)"
  unfolding listed_def
proof (intro allI impI)
  fix k ts' assume "map_of (ep_requests (drop_tracked (fst e) (snd e) st)) k = Some ts'"
  from drop_tracked_lookup [OF assms(1) this] obtain ts where
    ts: "map_of (ep_requests st) k = Some ts" "set ts' \<subseteq> set ts" "length ts' \<le> length ts"
      "distinct (map tq_id ts')" and gone: "k = fst e \<Longrightarrow> snd e \<notin> tq_id ` set ts'" by metis
  have "(k, tq_id t) \<in> set es" if "t \<in> set ts'" for t
  proof -
    have "(k, tq_id t) \<in> set (e # es)" using that ts assms(1) by (auto simp: listed_def)
    moreover have "(k, tq_id t) \<noteq> e" using gone that by auto
    ultimately show ?thesis by simp
  qed
  with ts assms(1) show "length ts' \<le> max_tracked_per_submission \<and> distinct (map tq_id ts') \<and>
      (\<forall>t \<in> set ts'. (k, tq_id t) \<in> set es)"
    by (auto simp: listed_def intro: order_trans)
qed

lemma trim_order_listed:
  assumes "listed es st" and "distinct (map snd es)"
  shows "listed (ep_order (trim_order es st)) (trim_order es st) \<and>
    length (ep_order (trim_order es st)) \<le> max_order \<and> suffix (ep_order (trim_order es st)) es \<and>
    ep_next_request_id (trim_order es st) = ep_next_request_id st"
  using assms
proof (induction es st rule: trim_order.induct)
  case (2 e rest st)
  show ?case
  proof (cases "length (e # rest) > max_tracked_submissions * max_tracked_per_submission")
    case True
    have "ep_next_request_id (drop_tracked (fst e) (snd e) st) = ep_next_request_id st"
      by (simp add: drop_tracked_def split: option.split)
    with 2(1) [OF True drop_tracked_listed [OF 2(2,3)]] 2(3) True show ?thesis
      by (auto intro: suffix_ConsI)
  next
    case False
    with 2(2) show ?thesis by (simp add: max_order_def)
  qed
qed (simp add: max_order_def)

lemma permits_ok_new: "permits_ok ephemeral_new"
  by (simp add: permits_ok_def ephemeral_new_def keys_distinct_def listed_def)

lemma tracked_of_listed:
  "listed es st \<Longrightarrow> length (tracked_of sub st) \<le> max_tracked_per_submission \<and>
   distinct (map tq_id (tracked_of sub st)) \<and> (\<forall>t \<in> set (tracked_of sub st). (sub, tq_id t) \<in> set es)"
  by (auto simp: listed_def tracked_of_def split: option.split)

lemma cap_tracked_nonempty: "cap_tracked ts = (old, kept) \<Longrightarrow> ts \<noteq> [] \<Longrightarrow> kept \<noteq> []"
proof (induction ts arbitrary: old kept)
  case (Cons t ts)
  then show ?case
    by (cases "ts = []") (auto simp: max_tracked_per_submission_def split: if_splits prod.splits)
qed simp

lemma track_listed:
  assumes ok: "permits_ok st"
    and ts: "tracked_of sub st @ [\<lparr>tq_id = ep_next_request_id st, tq_abort = handle\<rparr>] = old @ kept"
    and len: "length kept \<le> max_tracked_per_submission"
  shows "listed (ep_order st @ [(sub, ep_next_request_id st)])
      (abort_all old (st\<lparr>ep_next_request_id := n, ep_requests := put sub kept (ep_requests st)\<rparr>))"
    and "distinct (map snd (ep_order st @ [(sub, ep_next_request_id st)]))"
proof -
  let ?i = "ep_next_request_id st" and ?es = "ep_order st @ [(sub, ep_next_request_id st)]"
  have ok: "listed (ep_order st) st" "distinct (map snd (ep_order st))"
      "\<forall>e \<in> set (ep_order st). snd e < ?i"
    using ok by (auto simp: permits_ok_def)
  show "distinct (map snd ?es)" using ok(2,3) by auto
  note own = tracked_of_listed [OF ok(1), of sub]
  have ids: "distinct (map tq_id (tracked_of sub st @ [\<lparr>tq_id = ?i, tq_abort = handle\<rparr>]))"
    using own ok(3) by force
  then have kept_ids: "distinct (map tq_id kept)" unfolding ts by simp
  have kept_in: "\<forall>t \<in> set kept. (sub, tq_id t) \<in> set ?es"
  proof
    fix t assume "t \<in> set kept"
    then have "t \<in> set (tracked_of sub st @ [\<lparr>tq_id = ?i, tq_abort = handle\<rparr>])" unfolding ts by simp
    with own show "(sub, tq_id t) \<in> set ?es" by auto
  qed
  have "listed ?es st" using ok(1) by (auto simp: listed_def)
  from listed_put [OF this len kept_ids kept_in]
  show "listed ?es (abort_all old (st\<lparr>ep_next_request_id := n, ep_requests := put sub kept (ep_requests st)\<rparr>))"
    by (simp add: listed_def)
qed

lemma track_ok:
  assumes "permits_ok st" and "ep_next_request_id st + 1 < u64_bound"
    and "track_request_if_live sub epoch gen handle st = (r, st')"
  shows "permits_ok st' \<and> ep_next_request_id st' \<le> ep_next_request_id st + 1"
proof (cases "ep_epoch st \<noteq> epoch \<or> generation sub st \<noteq> gen")
  case True
  with assms show ?thesis by (auto simp: track_request_if_live_def)
next
  case False
  let ?i = "ep_next_request_id st" and ?es = "ep_order st @ [(sub, ep_next_request_id st)]"
  obtain old kept where cap: "cap_tracked (tracked_of sub st @ [\<lparr>tq_id = ?i, tq_abort = handle\<rparr>]) = (old, kept)"
    by fastforce
  from cap_tracked_split [OF cap] have ts: "tracked_of sub st @ [\<lparr>tq_id = ?i, tq_abort = handle\<rparr>] = old @ kept"
    and len: "length kept \<le> max_tracked_per_submission" by auto
  have ok: "keys_distinct st" "\<forall>e \<in> set (ep_order st). snd e < ?i"
    using assms(1) by (auto simp: permits_ok_def)
  let ?st = "st\<lparr>ep_next_request_id := max (wrapping_inc ?i) 1, ep_requests := put sub kept (ep_requests st)\<rparr>"
  note listed = track_listed [OF assms(1) ts len]
  have keys: "keys_distinct (abort_all old ?st)" using ok(1) by (simp add: keys_distinct_def put_distinct)
  have inc: "max (wrapping_inc ?i) 1 = ?i + 1" using assms(2) by (simp add: wrapping_inc_def)
  have st': "st' = trim_order ?es (abort_all old ?st)"
    using assms(3) False cap by (auto simp: track_request_if_live_def Let_def)
  from trim_order_listed [OF listed] trim_order_held [OF keys, of ?es]
  have t: "listed (ep_order st') st'" "length (ep_order st') \<le> max_order" "suffix (ep_order st') ?es"
      "ep_next_request_id st' = ?i + 1" "keys_distinct st'"
    unfolding st' by (simp_all add: inc del: One_nat_def)
  from t(3) obtain zs where "?es = zs @ ep_order st'" by (auto simp: suffix_def)
  with listed(2) have "distinct (map snd (ep_order st'))" by (metis distinct_append map_append)
  moreover have "\<forall>e \<in> set (ep_order st'). snd e < ?i + 1"
    using ok(2) set_mono_suffix [OF t(3)] by force
  ultimately show ?thesis using t by (simp add: permits_ok_def)
qed

lemma apply_op_ok:
  assumes "permits_ok st" and "ep_next_request_id st + 1 < u64_bound"
  shows "permits_ok (apply_op a st) \<and> ep_next_request_id (apply_op a st) \<le> ep_next_request_id st + 1"
proof (cases a)
  case MeasurementStart
  then show ?thesis
    by (simp add: note_measurement_start_def permits_ok_def keys_distinct_def listed_def)
next
  case (CancelSubmission sub)
  with assms(1) show ?thesis
    by (auto simp: cancel_submission_def Let_def permits_ok_def keys_distinct_def listed_def
        map_of_map_remove map_remove_distinct)
next
  case (Track sub epoch gen handle)
  with track_ok [OF assms, of sub epoch gen handle] show ?thesis
    by (cases "track_request_if_live sub epoch gen handle st") simp
next
  case (Untrack sub i)
  show ?thesis
  proof (cases "map_of (ep_requests st) sub")
    case None
    with Untrack assms(1) show ?thesis by (simp add: untrack_request_def)
  next
    case (Some ts)
    let ?kept = "filter (\<lambda>t. tq_id t \<noteq> i) ts"
    have ok: "listed (ep_order st) st" using assms(1) by (simp add: permits_ok_def)
    have "length ?kept \<le> max_tracked_per_submission" "distinct (map tq_id ?kept)"
      "\<forall>t \<in> set ?kept. (sub, tq_id t) \<in> set (ep_order st)"
      using ok Some order_trans [OF length_filter_le [of "\<lambda>t. tq_id t \<noteq> i" ts]]
      by (auto simp: listed_def distinct_map_filter)
    from listed_put [OF ok this] listed_remove [OF ok, of sub] Untrack Some assms(1) show ?thesis
      by (auto simp: untrack_request_def Let_def permits_ok_def)
  qed
qed (use assms(1) in \<open>auto simp: store_permit_def live_permit_def clear_permit_def permits_ok_def
    keys_distinct_def listed_def split: option.split\<close>)

lemma run_ops_ok:
  assumes "permits_ok st" and "ep_next_request_id st + length as < u64_bound"
  shows "permits_ok (run_ops as st)"
  using assms
proof (induction as arbitrary: st)
  case (Cons a as)
  then have "ep_next_request_id st + 1 < u64_bound \<or> as = []" by (cases as) auto
  with Cons show ?case
    using apply_op_ok [OF Cons.prems(1), of a] by (cases "as = []") auto
qed simp

lemma entries_keys:
  "p \<in> set (concat (map (\<lambda>(k, ts). map (\<lambda>t. (k, tq_id t)) ts) m)) \<Longrightarrow> fst p \<in> set (map fst m)"
  by (induction m) auto

lemma distinct_entries:
  assumes "distinct (map fst m)" and "\<forall>(k, ts) \<in> set m. distinct (map tq_id ts)"
  shows "distinct (concat (map (\<lambda>(k, ts). map (\<lambda>t. (k, tq_id t)) ts) m))"
  using assms
proof (induction m)
  case (Cons e m)
  obtain k ts where e: "e = (k, ts)" by (cases e)
  from Cons.prems have "distinct (map (\<lambda>t. (k, tq_id t)) ts)"
    by (auto simp: e distinct_map inj_on_def)
  moreover have "set (map (\<lambda>t. (k, tq_id t)) ts) \<inter>
      set (concat (map (\<lambda>(k, ts). map (\<lambda>t. (k, tq_id t)) ts) m)) = {}"
  proof (rule ccontr)
    assume "\<not> ?thesis"
    then obtain p where p: "p \<in> set (map (\<lambda>t. (k, tq_id t)) ts)"
      "p \<in> set (concat (map (\<lambda>(k, ts). map (\<lambda>t. (k, tq_id t)) ts) m))" by blast
    from p(1) have "fst p = k" by auto
    with entries_keys [OF p(2)] Cons.prems(1) show False by (simp add: e)
  qed
  ultimately show ?case using Cons by (simp add: e del: set_concat set_map)
qed simp

lemma tracked_size:
  assumes "permits_ok st"
  shows "size (tracked st) \<le> max_order"
proof -
  let ?es = "concat (map (\<lambda>(k, ts). map (\<lambda>t. (k, tq_id t)) ts) (ep_requests st))"
  have look: "map_of (ep_requests st) k = Some ts" if "(k, ts) \<in> set (ep_requests st)" for k ts
    using assms that by (auto simp: permits_ok_def keys_distinct_def)
  with assms have "distinct ?es"
    by (intro distinct_entries) (auto simp: permits_ok_def keys_distinct_def listed_def)
  moreover have "set ?es \<subseteq> set (ep_order st)"
  proof
    fix p assume "p \<in> set ?es"
    then obtain k ts t where "(k, ts) \<in> set (ep_requests st)" "t \<in> set ts" "p = (k, tq_id t)" by auto
    with assms look show "p \<in> set (ep_order st)" by (auto simp: permits_ok_def listed_def)
  qed
  ultimately have "length ?es \<le> length (ep_order st)"
    using card_mono [of "set (ep_order st)" "set ?es"] card_length [of "ep_order st"]
    by (simp add: distinct_card del: set_concat)
  moreover have "size (tracked st) = length ?es"
    by (simp add: tracked_concat length_concat comp_def case_prod_beta)
  ultimately show ?thesis using assms by (simp add: permits_ok_def)
qed

section \<open>Stale attempts\<close>

fun starts_in :: "sharing_op list \<Rightarrow> nat" where
  "starts_in [] = 0"
| "starts_in (MeasurementStart # as) = Suc (starts_in as)"
| "starts_in (_ # as) = starts_in as"

fun cancels_of :: "string \<Rightarrow> sharing_op list \<Rightarrow> nat" where
  "cancels_of sub [] = 0"
| "cancels_of sub (CancelSubmission s # as) = (if s = sub then 1 else 0) + cancels_of sub as"
| "cancels_of sub (_ # as) = cancels_of sub as"

lemma starts_in_Cons: "starts_in (a # as) = (if a = MeasurementStart then 1 else 0) + starts_in as"
  by (cases a) simp_all

lemma cancels_of_Cons:
  "cancels_of sub (a # as) = (if a = CancelSubmission sub then 1 else 0) + cancels_of sub as"
  by (cases a) simp_all

lemma drop_tracked_rest [simp]:
  "ep_epoch (drop_tracked sub i st) = ep_epoch st"
  "ep_generations (drop_tracked sub i st) = ep_generations st"
  by (simp_all add: drop_tracked_def split: option.split)

lemma trim_order_rest [simp]:
  "ep_epoch (trim_order es st) = ep_epoch st" "ep_generations (trim_order es st) = ep_generations st"
  by (induction es st rule: trim_order.induct) auto

lemma track_rest [simp]:
  "ep_epoch (snd (track_request_if_live sub epoch gen handle st)) = ep_epoch st"
  "ep_generations (snd (track_request_if_live sub epoch gen handle st)) = ep_generations st"
  by (auto simp: track_request_if_live_def Let_def split: prod.split)

lemma apply_op_epoch:
  "ep_epoch (apply_op a st) = (if a = MeasurementStart then wrapping_inc (ep_epoch st) else ep_epoch st)"
  by (cases a) (auto simp: note_measurement_start_def store_permit_def live_permit_def clear_permit_def
      cancel_submission_def untrack_request_def Let_def split: option.split)

lemma apply_op_generation:
  "generation sub (apply_op a st) =
     (if a = CancelSubmission sub then wrapping_inc (generation sub st) else generation sub st)"
  by (cases a) (auto simp: generation_def note_measurement_start_def store_permit_def live_permit_def
      clear_permit_def cancel_submission_def untrack_request_def wrapping_inc_def u64_bound_def Let_def
      split: option.split)

lemma run_ops_epoch:
  "ep_epoch st < u64_bound \<Longrightarrow> ep_epoch (run_ops as st) = (ep_epoch st + starts_in as) mod u64_bound"
proof (induction as arbitrary: st)
  case (Cons a as)
  have "ep_epoch (apply_op a st) < u64_bound"
    using Cons.prems by (simp add: apply_op_epoch wrapping_inc_def u64_bound_def)
  from Cons.IH [OF this] show ?case
    using starts_in_Cons [of a as] by (auto simp: apply_op_epoch wrapping_inc_def mod_simps)
qed simp

lemma run_ops_generation:
  "generation sub st < u64_bound \<Longrightarrow>
   generation sub (run_ops as st) = (generation sub st + cancels_of sub as) mod u64_bound"
proof (induction as arbitrary: st)
  case (Cons a as)
  have "generation sub (apply_op a st) < u64_bound"
    using Cons.prems by (simp add: apply_op_generation wrapping_inc_def u64_bound_def)
  from Cons.IH [OF this] show ?case
    using cancels_of_Cons [of sub a as] by (auto simp: apply_op_generation wrapping_inc_def mod_simps)
qed simp

lemma mod_shift_neq:
  assumes "(e :: nat) < n" and "0 < k" and "k < n"
  shows "(e + k) mod n \<noteq> e"
proof
  assume "(e + k) mod n = e"
  then have "(e + k) mod n = e mod n" using assms(1) by simp
  then have "n dvd (e + k) - e" by (metis le_add1 mod_eq_dvd_iff_nat)
  with assms(2,3) show False by (auto dest: dvd_imp_le)
qed

section \<open>A fresh attempt is tracked\<close>

lemma trim_order_keeps:
  assumes "t \<in> set (tracked_of sub st)" and "listed es st" and "distinct (map snd es)"
    and "es = front @ [(sub, tq_id t)]"
  shows "t \<in> set (tracked_of sub (trim_order es st))"
  using assms
proof (induction es st arbitrary: front rule: trim_order.induct)
  case (2 e rest st)
  show ?case
  proof (cases "length (e # rest) > max_tracked_submissions * max_tracked_per_submission")
    case True
    then have "rest \<noteq> []" by (auto simp: max_tracked_submissions_def max_tracked_per_submission_def)
    with "2.prems"(4) obtain front' where front: "rest = front' @ [(sub, tq_id t)]" "front = e # front'"
      by (cases front) auto
    with "2.prems"(3) have ne: "snd e \<noteq> tq_id t" by auto
    have "t \<in> set (remove1 u ts)" if "t \<in> set ts" "find (\<lambda>t. tq_id t = snd e) ts = Some u" for u ts
      using that ne by (auto simp: find_Some_iff intro: in_set_remove1 [THEN iffD2, rotated])
    then have "t \<in> set (tracked_of sub (drop_tracked (fst e) (snd e) st))"
      using "2.prems"(1)
      by (auto simp: tracked_of_def drop_tracked_def split: option.split)
    from "2.IH" [OF True this drop_tracked_listed [OF "2.prems"(2,3)] _ front(1)] "2.prems"(3) True
    show ?thesis by simp
  next
    case False
    with "2.prems"(1) show ?thesis by (simp add: tracked_of_def)
  qed
qed simp

section \<open>Properties\<close>

text \<open>C6. No tracked request is ever lost. After any sequence of operations every request that was
  accepted is still tracked, was aborted, or was reported finished, counted exactly; at most 8
  requests of a submission and 1024 in all are tracked, and the queue of ids has at most 1024
  entries.\<close>

theorem sharing_requests_accounted:
  assumes "length as < u64_bound - 1" and "st = run_ops as ephemeral_new"
  shows "accepted_in as ephemeral_new = tracked st + mset (ep_aborted st) + finished_in as ephemeral_new \<and>
    size (tracked st) \<le> 1024 \<and> (\<forall>sub. length (tracked_of sub st) \<le> 8) \<and> length (ep_order st) \<le> 1024"
proof -
  have "permits_ok st"
    unfolding assms(2) using assms(1) permits_ok_new
    by (intro run_ops_ok) (simp_all add: ephemeral_new_def)
  moreover have "keys_distinct ephemeral_new" "held ephemeral_new = {#}"
    by (simp_all add: keys_distinct_def ephemeral_new_def held_def tracked_def)
  ultimately show ?thesis
    using run_ops_held [of ephemeral_new as] tracked_size [of st]
      tracked_of_listed [of "ep_order st" st]
    by (simp add: assms(2) [symmetric] held_def permits_ok_def max_order_def max_tracked_submissions_def
        max_tracked_per_submission_def)
qed

theorem sharing_requests_accounted_witness:
  "accepted_in [Track ''s'' 0 0 7, MeasurementStart] ephemeral_new = {#7#}"
proof -
  let ?as = "[Track ''s'' 0 0 7, MeasurementStart]"
  have "length ?as < u64_bound - 1" by (simp add: u64_bound_def)
  from sharing_requests_accounted [OF this refl]
  have "accepted_in ?as ephemeral_new = tracked (run_ops ?as ephemeral_new) +
      mset (ep_aborted (run_ops ?as ephemeral_new)) + finished_in ?as ephemeral_new" by simp
  also have "\<dots> = {#7#}"
    by (simp add: ephemeral_new_def track_request_if_live_def generation_def tracked_of_def put_def
        max_tracked_per_submission_def max_tracked_submissions_def note_measurement_start_def
        abort_all_def tracked_def map_remove_def)
  finally show ?thesis .
qed

text \<open>Starting a measurement stops all sharing. Every tracked request is aborted, no permit
  survives, and no operation that looked at the state before the start can register a request
  afterwards, however many other operations come between, until the epoch counter has wrapped.\<close>

lemma measurement_start_isolates:
  assumes "ep_epoch st < u64_bound" and "st' = note_measurement_start st"
  shows "(\<forall>sub. \<forall>t \<in> set (tracked_of sub st). tq_abort t \<in> set (ep_aborted st')) \<and>
    (\<forall>sub now. tracked_of sub st' = [] \<and> fst (live_permit sub now st') = None) \<and>
    (\<forall>as sub gen handle. starts_in as < u64_bound - 1 \<longrightarrow>
       fst (track_request_if_live sub (ep_epoch st) gen handle (run_ops as st')) = None)"
proof (intro conjI allI impI)
  show "\<forall>t \<in> set (tracked_of sub st). tq_abort t \<in> set (ep_aborted st')" for sub
  proof (cases "map_of (ep_requests st) sub")
    case (Some ts)
    from map_of_SomeD [OF this] have "set ts \<subseteq> set (concat (map snd (ep_requests st)))" by force
    with Some show ?thesis by (auto simp: assms(2) note_measurement_start_def tracked_of_def)
  qed (simp add: tracked_of_def)
  show "tracked_of sub st' = []" and "fst (live_permit sub now st') = None" for sub now
    by (simp_all add: assms(2) note_measurement_start_def tracked_of_def live_permit_def)
  fix as sub gen handle assume "starts_in as < u64_bound - 1"
  moreover have "ep_epoch (run_ops as st') = (ep_epoch st + (1 + starts_in as)) mod u64_bound"
    using run_ops_epoch [of st' as] assms(1)
    by (simp add: assms(2) note_measurement_start_def wrapping_inc_def u64_bound_def mod_simps)
  ultimately have "ep_epoch (run_ops as st') \<noteq> ep_epoch st"
    using mod_shift_neq [OF assms(1), of "1 + starts_in as"] by simp
  then show "fst (track_request_if_live sub (ep_epoch st) gen handle (run_ops as st')) = None"
    by (simp add: track_request_if_live_def)
qed

theorem measurement_start_isolates_witness:
  "fst (track_request_if_live ''s'' 0 0 7 (run_ops [ClearPermit ''s''] (note_measurement_start ephemeral_new))) = None"
  using measurement_start_isolates [of ephemeral_new _]
  by (simp add: ephemeral_new_def u64_bound_def del: run_ops.simps)

text \<open>C31. Cancelling a submission stops its sharing work and nothing else. Its tracked requests are
  aborted, its permit is gone and attempts begun before the cancel are refused, until its generation
  has wrapped; requests, permits and generations of every other submission stay as they are.\<close>

theorem cancel_submission_scoped:
  assumes "generation sub st < u64_bound" and "st' = cancel_submission sub st"
  shows "(\<forall>t \<in> set (tracked_of sub st). tq_abort t \<in> set (ep_aborted st')) \<and>
    tracked_of sub st' = [] \<and> (\<forall>now. fst (live_permit sub now st') = None) \<and>
    (\<forall>as epoch handle. cancels_of sub as < u64_bound - 1 \<longrightarrow>
       fst (track_request_if_live sub epoch (generation sub st) handle (run_ops as st')) = None) \<and>
    (\<forall>s. s \<noteq> sub \<longrightarrow> tracked_of s st' = tracked_of s st \<and> generation s st' = generation s st \<and>
       map_of (ep_permits st') s = map_of (ep_permits st) s)"
proof (intro conjI allI impI)
  show "\<forall>t \<in> set (tracked_of sub st). tq_abort t \<in> set (ep_aborted st')"
    by (auto simp: assms(2) cancel_submission_def Let_def tracked_of_def)
  show "tracked_of sub st' = []" and "fst (live_permit sub now st') = None" for now
    by (simp_all add: assms(2) cancel_submission_def Let_def tracked_of_def live_permit_def map_of_map_remove)
  fix as epoch handle assume "cancels_of sub as < u64_bound - 1"
  moreover have inc: "generation sub st' = wrapping_inc (generation sub st)"
    using apply_op_generation [of sub "CancelSubmission sub" st] by (simp add: assms(2))
  then have "generation sub (run_ops as st') = (generation sub st + (1 + cancels_of sub as)) mod u64_bound"
    using run_ops_generation [of sub st' as] by (simp add: wrapping_inc_def u64_bound_def mod_simps)
  ultimately have "generation sub (run_ops as st') \<noteq> generation sub st"
    using mod_shift_neq [OF assms(1), of "1 + cancels_of sub as"] by simp
  then show "fst (track_request_if_live sub epoch (generation sub st) handle (run_ops as st')) = None"
    by (simp add: track_request_if_live_def)
next
  fix s assume "s \<noteq> sub"
  then show "tracked_of s st' = tracked_of s st" "generation s st' = generation s st"
    "map_of (ep_permits st') s = map_of (ep_permits st) s"
    by (simp_all add: assms(2) cancel_submission_def Let_def tracked_of_def generation_def map_of_map_remove)
qed

theorem cancel_submission_scoped_witness:
  "fst (track_request_if_live ''s'' 0 0 7 (run_ops [MeasurementStart] (cancel_submission ''s'' ephemeral_new))) = None"
  using cancel_submission_scoped [of "''s''" ephemeral_new _]
  by (simp add: ephemeral_new_def generation_def u64_bound_def del: run_ops.simps)

text \<open>C37. A fresh attempt is never blocked. In every state the operations lead to, an attempt that
  presents the current epoch and generation is accepted, and its request is tracked when the call
  returns: the limits evict older requests only. No earlier cancel or measurement start stands in
  its way.\<close>

theorem fresh_attempt_is_tracked:
  assumes "length as < u64_bound - 2" and "st = run_ops as ephemeral_new"
  shows "\<exists>i st'. track_request_if_live sub (ep_epoch st) (generation sub st) handle st = (Some i, st') \<and>
    \<lparr>tq_id = i, tq_abort = handle\<rparr> \<in> set (tracked_of sub st')"
proof -
  have ok: "permits_ok st"
    unfolding assms(2) using assms(1) permits_ok_new by (intro run_ops_ok) (simp_all add: ephemeral_new_def)
  let ?i = "ep_next_request_id st" and ?t = "\<lparr>tq_id = ep_next_request_id st, tq_abort = handle\<rparr>"
  let ?es = "ep_order st @ [(sub, ?i)]"
  obtain old kept where cap: "cap_tracked (tracked_of sub st @ [?t]) = (old, kept)" by fastforce
  from cap_tracked_split [OF cap] have ts: "tracked_of sub st @ [?t] = old @ kept"
    and len: "length kept \<le> max_tracked_per_submission" by auto
  have "kept \<noteq> []" using cap by (rule cap_tracked_nonempty) simp
  then have mem: "?t \<in> set kept" using ts by (metis last_appendR last_in_set last_snoc)
  let ?st = "abort_all old
    (st\<lparr>ep_next_request_id := max (wrapping_inc ?i) 1, ep_requests := put sub kept (ep_requests st)\<rparr>)"
  from track_listed [OF ok ts len] have "listed ?es ?st" "distinct (map snd ?es)" by simp_all
  moreover have "?t \<in> set (tracked_of sub ?st)" using mem by (simp add: tracked_of_def)
  ultimately have "?t \<in> set (tracked_of sub (trim_order ?es ?st))"
    by (intro trim_order_keeps [where front = "ep_order st"]) simp_all
  then show ?thesis using cap by (simp add: track_request_if_live_def Let_def)
qed

theorem fresh_attempt_is_tracked_witness:
  "\<exists>i st'. track_request_if_live ''s'' 0 0 7 ephemeral_new = (Some i, st') \<and>
    \<lparr>tq_id = i, tq_abort = 7\<rparr> \<in> set (tracked_of ''s'' st')"
  using fresh_attempt_is_tracked [of "[]" ephemeral_new "''s''" 7]
  by (simp add: ephemeral_new_def generation_def u64_bound_def)

end
