(* ===== verification/ConfigCheck.thy ===== *)
theory ConfigCheck
  imports GpuPlacement Http
begin

text \<open>
  Normalisation and validation of the settings, \<open>src-tauri/src/config.rs\<close>, with the boundary between
  the saved preferences and one execution target of \<open>src-tauri/src/config/execution.rs\<close>.

  \<open>saved_config\<close> adds the JSON maps and the saved sessions to \<open>app_config\<close>; the library of settings
  profiles is left out. What \<open>serde_json\<close> contributes is a \<open>codec\<close>: overwriting fields of a
  configuration with JSON values, the JSON fields of a configuration, and encoded sizes.
\<close>

section \<open>Single-precision comparisons\<close>

definition f32_is_nan :: "f32 \<Rightarrow> bool" where
  "f32_is_nan v \<longleftrightarrow> 0x7F800000 < v AND 0x7FFFFFFF"

text \<open>Sign and magnitude as an integer: monotone on the numbers, with both zeros at 0.\<close>

definition f32_key :: "f32 \<Rightarrow> int" where
  "f32_key v = (if bit v 31 then - uint (v AND 0x7FFFFFFF) else uint (v AND 0x7FFFFFFF))"

definition f32_less :: "f32 \<Rightarrow> f32 \<Rightarrow> bool" where
  "f32_less a b \<longleftrightarrow> \<not> f32_is_nan a \<and> \<not> f32_is_nan b \<and> f32_key a < f32_key b"

definition f32_clamp :: "f32 \<Rightarrow> f32 \<Rightarrow> f32 \<Rightarrow> f32" where
  "f32_clamp lo hi v = (let w = (if f32_less v lo then lo else v) in if f32_less hi w then hi else w)"

definition f32_between :: "f32 \<Rightarrow> f32 \<Rightarrow> f32 \<Rightarrow> bool" where
  "f32_between lo hi v \<longleftrightarrow> \<not> f32_is_nan v \<and> \<not> f32_less v lo \<and> \<not> f32_less hi v"

text \<open>\<open>if v.is_finite() { v.clamp(lo, hi) } else { fallback }\<close>.\<close>

definition finite_clamp :: "f32 \<Rightarrow> f32 \<Rightarrow> f32 \<Rightarrow> f32 \<Rightarrow> f32" where
  "finite_clamp fallback lo hi v = (if f32_is_finite v then f32_clamp lo hi v else fallback)"

definition clamp :: "'a::linorder \<Rightarrow> 'a \<Rightarrow> 'a \<Rightarrow> 'a" where
  "clamp lo hi v = (if v < lo then lo else if hi < v then hi else v)"

section \<open>Saved sessions\<close>

record session_models =
  sm_primary_model :: string
  sm_mmproj :: string
  sm_draft_model :: string

record session_definition =
  sd_id :: string
  sd_name :: string
  sd_models :: session_models
  sd_gpu :: gpu_placement
  sd_enabled :: bool
  sd_execution :: "(string \<times> json) list option"
  sd_model_profile_id :: "string option"

record saved_config = app_config +
  sc_chat_options :: "(string \<times> json) list"
  sc_provider_options :: "(string \<times> (string \<times> json) list) list"
  sc_recent_runtimes :: "(string \<times> string) list"
  sc_sessions :: "session_definition list"

record codec =
  cd_merge :: "saved_config \<Rightarrow> (string \<times> json) list \<Rightarrow> string + saved_config"
  cd_snapshot :: "saved_config \<Rightarrow> (string \<times> json) list"
  cd_options_size :: "(string \<times> json) list \<Rightarrow> nat"
  cd_providers_size :: "(string \<times> (string \<times> json) list) list \<Rightarrow> nat"

definition session_normalize :: "session_definition \<Rightarrow> session_definition" where
  "session_normalize s =
     s\<lparr>sd_id := trim (sd_id s), sd_name := trim (sd_name s),
       sd_models := \<lparr>sm_primary_model = trim (sm_primary_model (sd_models s)),
                     sm_mmproj = trim (sm_mmproj (sd_models s)),
                     sm_draft_model = trim (sm_draft_model (sd_models s))\<rparr>,
       sd_gpu := placement_normalize (sd_gpu s),
       sd_model_profile_id := trimmed_id (sd_model_profile_id s)\<rparr>"

definition valid_session_id :: "string \<Rightarrow> bool" where
  "valid_session_id i \<longleftrightarrow> i \<noteq> [] \<and> length i \<le> 128 \<and> \<not> has_control (map code i)"

definition bad_path :: "string \<Rightarrow> bool" where
  "bad_path p \<longleftrightarrow> length p > 32768 \<or> CHR 0x00 \<in> set p"

text \<open>The first failure of a sequence of checks.\<close>

fun first_error :: "('e + unit) list \<Rightarrow> 'e + unit" where
  "first_error [] = Inr ()"
| "first_error (c # cs) = (case c of Inl e \<Rightarrow> Inl e | Inr _ \<Rightarrow> first_error cs)"

definition refuse_if :: "bool \<Rightarrow> 'e \<Rightarrow> 'e + unit" where
  "refuse_if bad e = (if bad then Inl e else Inr ())"

definition prefix_error :: "string \<Rightarrow> string + 'a \<Rightarrow> string + 'a" where
  "prefix_error p r = map_sum (\<lambda>e. p @ e) id r"

definition session_label :: "session_definition \<Rightarrow> string" where
  "session_label s = ''session '' @ quoted (sd_id s)"

definition session_validate :: "session_definition \<Rightarrow> string + unit" where
  "session_validate s = first_error
     ([refuse_if (\<not> valid_session_id (sd_id s)) ''session id must be a non-empty string up to 128 characters'',
       refuse_if (length (sd_name s) > 200) (session_label s @ '' name is too long''),
       refuse_if (case sd_model_profile_id s of
           None \<Rightarrow> False | Some i \<Rightarrow> length i > 200 \<or> has_control (map code i))
         (session_label s @ '' model profile id is invalid or too long'')]
      @ map (\<lambda>(label, value). refuse_if (bad_path value)
            (session_label s @ '' '' @ label @ '' path is invalid or too long''))
          [(''primary model'', sm_primary_model (sd_models s)), (''mmproj'', sm_mmproj (sd_models s)),
           (''draft model'', sm_draft_model (sd_models s))]
      @ [prefix_error (session_label s @ '': '') (placement_validate (sd_gpu s))])"

section \<open>Execution settings\<close>

definition execution_fields :: "string list" where
  "execution_fields =
     [''active_provider'', ''active_runtime'', ''provider_options'', ''runtime_defaults'', ''ngl'',
      ''ctx_size'', ''batch_size'', ''ubatch_size'', ''keep'', ''cache_type_k'', ''cache_type_v'',
      ''flash_attn'', ''n_cpu_moe'', ''threads'', ''temperature'', ''top_p'', ''top_k'', ''spec_type'',
      ''spec_draft_n_max'', ''spec_draft_n_min'', ''spec_draft_p_min'', ''spec_draft_p_split'',
      ''spec_draft_ngl'', ''spec_draft_device'', ''spec_draft_model'', ''reasoning'',
      ''reasoning_format'', ''reasoning_effort'', ''reasoning_budget'', ''reasoning_budget_message'',
      ''reasoning_preserve'', ''server_args'', ''chat_options'', ''mmproj'', ''active_model'',
      ''active_backend'', ''active_build'', ''parallel'', ''request_timeout_seconds'',
      ''sleep_idle_seconds'', ''lora_adapters'', ''gpu'']"

definition session_bindings :: "string list" where
  "session_bindings = [''active_model'', ''mmproj'', ''spec_draft_model'', ''gpu'']"

definition merge_fields :: "codec \<Rightarrow> saved_config \<Rightarrow> (string \<times> json) list \<Rightarrow> string + saved_config" where
  "merge_fields cd base patch =
     (case find (\<lambda>k. k \<notin> set execution_fields) (map fst patch) of
        Some k \<Rightarrow> Inl (''unsupported execution setting: '' @ k)
      | None \<Rightarrow> prefix_error ''invalid execution settings: '' (cd_merge cd base patch))"

definition merge_launch :: "codec \<Rightarrow> saved_config \<Rightarrow> saved_config \<Rightarrow> string + saved_config" where
  "merge_launch cd base launch =
     merge_fields cd base (filter (\<lambda>e. fst e \<in> set execution_fields) (cd_snapshot cd launch))"

definition session_config :: "codec \<Rightarrow> saved_config \<Rightarrow> session_definition \<Rightarrow> string + saved_config" where
  "session_config cd base s =
     (let cfg = base\<lparr>sc_sessions := []\<rparr>
      in bind_r (case sd_execution s of
             None \<Rightarrow> Inr cfg
           | Some patch \<Rightarrow>
               (case find (\<lambda>k. k \<in> set session_bindings) (map fst patch) of
                  Some k \<Rightarrow> Inl (''session execution setting '' @ k @ '' must use its dedicated binding'')
                | None \<Rightarrow> merge_fields cd cfg patch))
           (\<lambda>c. Inr (c\<lparr>cf_active_model := sm_primary_model (sd_models s), cf_mmproj := sm_mmproj (sd_models s),
                      cf_spec_draft_model := sm_draft_model (sd_models s), cf_gpu := sd_gpu s\<rparr>)))"

section \<open>Normalisation\<close>

definition cache_types :: "string list" where
  "cache_types = [''f16'', ''f32'', ''bf16'', ''q8_0'', ''q5_0'', ''q5_1'', ''q4_0'', ''q4_1'', ''iq4_nl'']"

definition max_context :: nat where "max_context = 4194304"
definition max_gpu_layers :: nat where "max_gpu_layers = 999"
definition max_sessions :: nat where "max_sessions = 64"

definition on_off :: "string list" where "on_off = [''auto'', ''on'', ''off'']"

definition reasoning_formats :: "string list" where
  "reasoning_formats = [''auto'', ''none'', ''deepseek'', ''deepseek-legacy'']"

definition reasoning_efforts :: "string list" where
  "reasoning_efforts =
     [''default'', ''none'', ''minimal'', ''low'', ''medium'', ''high'', ''xhigh'', ''max'']"

definition one_of :: "string list \<Rightarrow> string \<Rightarrow> string \<Rightarrow> string" where
  "one_of allowed fallback v = (if v \<in> set allowed then v else fallback)"

definition trimmed_or :: "string \<Rightarrow> string \<Rightarrow> string" where
  "trimmed_or fallback v = (if trim v = [] then fallback else trim v)"

definition adapter_normalize :: "lora_adapter \<Rightarrow> lora_adapter" where
  "adapter_normalize a =
     a\<lparr>la_path := trim (la_path a), la_scale := finite_clamp 0x3F800000 0 0x40800000 (la_scale a)\<rparr>"

definition ubatch_max :: "saved_config \<Rightarrow> nat \<Rightarrow> nat" where
  "ubatch_max c batch =
     (if list_ex (\<lambda>k. k = ''batch_size'' \<or> k = ''ubatch_size'') (cf_runtime_defaults c) then 131072 else batch)"

text \<open>Everything before the sessions.\<close>

definition normalize_fields :: "saved_config \<Rightarrow> saved_config" where
  "normalize_fields c =
     (let batch = clamp 1 131072 (cf_batch_size c) in
      c\<lparr>cf_port := (if cf_port c = 0 then 8080 else cf_port c),
        cf_ngl := min (cf_ngl c) max_gpu_layers,
        cf_ctx_size := (if cf_ctx_size c \<noteq> 0 then clamp 512 max_context (cf_ctx_size c) else 0),
        cf_batch_size := batch,
        cf_ubatch_size := clamp 1 (ubatch_max c batch) (cf_ubatch_size c),
        cf_keep := clamp (- 1) 131072 (cf_keep c),
        cf_cache_type_k := one_of cache_types ''f16'' (cf_cache_type_k c),
        cf_cache_type_v := one_of cache_types ''f16'' (cf_cache_type_v c),
        cf_n_cpu_moe := min (cf_n_cpu_moe c) 64, cf_threads := min (cf_threads c) 64,
        cf_temperature := finite_clamp 0x3F800000 0 0x40000000 (cf_temperature c),
        cf_top_p := finite_clamp 0x3F733333 0x3C23D70A 0x3F800000 (cf_top_p c),
        cf_top_k := min (cf_top_k c) 200,
        cf_spec_type := trimmed_or ''none'' (cf_spec_type c),
        cf_spec_draft_n_max := min (cf_spec_draft_n_max c) 64,
        cf_spec_draft_n_min := min (cf_spec_draft_n_min c) 64,
        cf_spec_draft_p_min := finite_clamp 0 0 0x3F800000 (cf_spec_draft_p_min c),
        cf_spec_draft_p_split := finite_clamp 0 0 0x3F800000 (cf_spec_draft_p_split c),
        cf_spec_draft_ngl := trimmed_or ''auto'' (cf_spec_draft_ngl c),
        cf_spec_draft_device := trim (cf_spec_draft_device c),
        cf_spec_draft_model := trim (cf_spec_draft_model c),
        cf_reasoning := one_of on_off ''auto'' (cf_reasoning c),
        cf_reasoning_format := one_of reasoning_formats ''auto'' (cf_reasoning_format c),
        cf_reasoning_effort := one_of reasoning_efforts ''default'' (cf_reasoning_effort c),
        cf_reasoning_budget := clamp (- 1) 1048576 (cf_reasoning_budget c),
        cf_reasoning_preserve := one_of on_off ''auto'' (cf_reasoning_preserve c),
        cf_iters := clamp 1 100 (cf_iters c), cf_parallel := min (cf_parallel c) 128,
        cf_request_timeout_seconds := clamp 1 86400 (cf_request_timeout_seconds c),
        cf_sleep_idle_seconds := clamp (- 1) 604800 (cf_sleep_idle_seconds c),
        cf_lora_adapters :=
          take 32 (filter (\<lambda>a. la_path a \<noteq> []) (map adapter_normalize (cf_lora_adapters c))),
        cf_flash_attn := one_of on_off ''auto'' (cf_flash_attn c),
        cf_active_provider := trimmed_or ''llama.cpp'' (cf_active_provider c),
        cf_active_runtime := trim (cf_active_runtime c),
        sc_provider_options := filter (\<lambda>e. snd e \<noteq> []) (sc_provider_options c)\<rparr>)"

text \<open>Normalising the configuration of one execution target, which has no sessions.\<close>

definition normalize_target :: "saved_config \<Rightarrow> saved_config" where
  "normalize_target c = (let d = normalize_fields c in d\<lparr>cf_gpu := placement_normalize (cf_gpu d)\<rparr>)"

definition normalize_execution ::
  "codec \<Rightarrow> saved_config \<Rightarrow> session_definition \<Rightarrow> session_definition" where
  "normalize_execution cd base s =
     (case sd_execution s of
        None \<Rightarrow> s
      | Some patch \<Rightarrow>
          (case session_config cd base s of
             Inl _ \<Rightarrow> s
           | Inr effective \<Rightarrow>
               (let fs = filter (\<lambda>e. fst e \<in> set execution_fields) (cd_snapshot cd (normalize_target effective))
                in s\<lparr>sd_execution := Some (map (\<lambda>(k, v). (k, case map_of fs k of None \<Rightarrow> v | Some w \<Rightarrow> w)) patch)\<rparr>)))"

text \<open>The first session of each id is kept.\<close>

fun unique_sessions :: "string list \<Rightarrow> session_definition list \<Rightarrow> session_definition list" where
  "unique_sessions seen [] = []"
| "unique_sessions seen (s # ss) =
     (if sd_id s \<in> set seen then unique_sessions seen ss else s # unique_sessions (sd_id s # seen) ss)"

definition config_normalize :: "codec \<Rightarrow> saved_config \<Rightarrow> saved_config" where
  "config_normalize cd c =
     (let d = normalize_fields c;
          base = d\<lparr>sc_sessions := []\<rparr>;
          adapt = (if list_ex (\<lambda>s. sd_execution s \<noteq> None) (sc_sessions d)
                   then normalize_execution cd base else id)
      in d\<lparr>sc_sessions := take max_sessions
             (unique_sessions [] (map (\<lambda>s. adapt (session_normalize s)) (sc_sessions d))),
           cf_gpu := placement_normalize (cf_gpu d)\<rparr>)"

section \<open>Validation\<close>

definition max_server_args :: nat where "max_server_args = 512"
definition max_server_arg_length :: nat where "max_server_arg_length = 32768"
definition max_server_args_bytes :: nat where "max_server_args_bytes = 131072"
definition max_chat_options_bytes :: nat where "max_chat_options_bytes = 262144"
definition max_provider_options_bytes :: nat where "max_provider_options_bytes = 262144"
definition max_id_len :: nat where "max_id_len = 64"

definition validate_id :: "string \<Rightarrow> string + unit" where
  "validate_id i = refuse_if
     (i = [] \<or> length i > max_id_len \<or>
      \<not> list_all (\<lambda>c. is_ascii_lowercase c \<or> is_ascii_digit c \<or> c = CHR ''-'') i \<or> starts_with ''-'' i)
     (''invalid runtime id: '' @ i)"

definition check_provider_key :: "string \<Rightarrow> string + unit" where
  "check_provider_key k =
     (case parse_provider k of
        None \<Rightarrow> Inl (''provider options cannot be saved for '' @ quoted k)
      | Some i \<Rightarrow> refuse_if (provider_as_str i \<noteq> k)
          (''provider options require a canonical engine name: '' @ quoted k))"

definition validate_provider_selection ::
  "codec \<Rightarrow> string \<Rightarrow> string \<Rightarrow> (string \<times> (string \<times> json) list) list \<Rightarrow> string + unit" where
  "validate_provider_selection cd provider runtime options =
     bind_r (ok_or (''unknown inference provider: '' @ provider) (parse_provider provider)) (\<lambda>selected.
     first_error
       ([if runtime = [] then Inr ()
         else if selected = Llama then Inl ''llama.cpp runtimes are selected by backend and build''
         else validate_id runtime]
        @ map (\<lambda>e. check_provider_key (fst e)) options
        @ [refuse_if (cd_providers_size cd options > max_provider_options_bytes)
             ''provider options are too large'']))"

text \<open>The name that an argument of the llama.cpp server is checked under.\<close>

definition server_arg_name :: "string \<Rightarrow> string" where
  "server_arg_name a =
     (case split_once CHR ''='' (trim a) of None \<Rightarrow> trim a | Some (n, _) \<Rightarrow> trim n)"

definition nth_argument :: "nat \<Rightarrow> string" where
  "nth_argument i = ''advanced llama-server argument '' @ digits_of_nat (i + 1)"

fun check_server_args :: "nat \<Rightarrow> nat \<Rightarrow> string list \<Rightarrow> string + unit" where
  "check_server_args i bytes [] = Inr ()"
| "check_server_args i bytes (a # as) =
     (if trim a = [] then Inl (nth_argument i @ '' is empty'')
      else if length a > max_server_arg_length then Inl (nth_argument i @ '' is too long (max 32768 bytes)'')
      else
        (let b = saturating_add bytes (length a) in
         if b > max_server_args_bytes
         then Inl ''advanced llama-server arguments are too large (max 131072 bytes)''
         else if server_arg_name a \<in> set app_managed_server_args
         then Inl (''advanced llama-server argument '' @ server_arg_name a
                   @ '' is app-managed and cannot be overridden'')
         else check_server_args (i + 1) b as))"

definition check_adapter :: "lora_adapter \<Rightarrow> string + unit" where
  "check_adapter a = first_error
     [refuse_if (bad_path (la_path a)) ''LoRA adapter path is invalid or too long'',
      refuse_if (\<not> suffix ''.gguf'' (map to_ascii_lowercase (la_path a)))
        (''LoRA adapter must be a .gguf file: '' @ la_path a),
      refuse_if (\<not> f32_is_finite (la_scale a) \<or> \<not> f32_between 0 0x40800000 (la_scale a))
        (''LoRA adapter scale is invalid: '' @ la_path a)]"

definition check_recent :: "string \<times> string \<Rightarrow> string + unit" where
  "check_recent e = refuse_if
     ((case parse_provider (fst e) of None \<Rightarrow> True | Some i \<Rightarrow> provider_as_str i \<noteq> fst e) \<or>
      length (snd e) > 128 \<or> CHR 0x00 \<in> set (snd e))
     ''invalid recent runtime selection''"

text \<open>The checks before the sessions, in order, and those after them.\<close>

definition validate_fields :: "codec \<Rightarrow> saved_config \<Rightarrow> string + unit" where
  "validate_fields cd c = first_error
     ([refuse_if (length (cf_runtime_defaults c) > 128 \<or>
           list_ex (\<lambda>k. \<not> is_known_tuning k) (cf_runtime_defaults c)) ''invalid runtime_defaults tuning keys'',
       refuse_if (cf_config_version c > current_config_version)
         (''config schema '' @ digits_of_nat (cf_config_version c)
          @ '' is newer than this app supports (current 14)''),
       refuse_if ((cf_active_backend c = []) \<noteq> (cf_active_build c = []))
         ''active runtime backend and build must be selected together'',
       validate_provider_selection cd (cf_active_provider c) (cf_active_runtime c) (sc_provider_options c)]
      @ map check_recent (sc_recent_runtimes c)
      @ [refuse_if (length (cf_models_dir c) > 32768 \<or> length (cf_active_model c) > 32768)
           ''model paths are too long'']
      @ map check_adapter (cf_lora_adapters c)
      @ map (\<lambda>(n, v). refuse_if (bad_path v) (n @ '' is invalid or too long''))
          [(''spec_type'', cf_spec_type c), (''spec_draft_ngl'', cf_spec_draft_ngl c),
           (''spec_draft_device'', cf_spec_draft_device c), (''spec_draft_model'', cf_spec_draft_model c),
           (''reasoning_budget_message'', cf_reasoning_budget_message c), (''mmproj'', cf_mmproj c)]
      @ [refuse_if (length (cf_server_args c) > max_server_args)
           ''too many advanced llama-server arguments (max 512)'',
         check_server_args 0 0 (cf_server_args c)]
      @ map (\<lambda>k. refuse_if (map_of (sc_chat_options c) k \<noteq> None)
            (''chat option '' @ k @ '' is reserved by the app'')) [''model'', ''messages'', ''stream'']
      @ [refuse_if (cd_options_size cd (sc_chat_options c) > max_chat_options_bytes)
           ''advanced chat options are too large (max 262144 bytes)''])"

definition validate_target :: "codec \<Rightarrow> saved_config \<Rightarrow> string + unit" where
  "validate_target cd c = first_error [validate_fields cd c, placement_validate (cf_gpu c)]"

fun check_sessions ::
  "codec \<Rightarrow> saved_config option \<Rightarrow> string list \<Rightarrow> session_definition list \<Rightarrow> string + unit" where
  "check_sessions cd base seen [] = Inr ()"
| "check_sessions cd base seen (s # ss) =
     first_error
       [session_validate s,
        (case (base, sd_execution s) of
           (Some b, Some _) \<Rightarrow>
             bind_r (session_config cd b s) (\<lambda>c.
             prefix_error (session_label s @ '': '') (validate_target cd c))
         | _ \<Rightarrow> Inr ()),
        refuse_if (sd_id s \<in> set seen) (''duplicate session id: '' @ sd_id s),
        check_sessions cd base (sd_id s # seen) ss]"

definition config_validate :: "codec \<Rightarrow> saved_config \<Rightarrow> string + unit" where
  "config_validate cd c =
     (let base = (if list_ex (\<lambda>s. sd_execution s \<noteq> None) (sc_sessions c)
                  then Some (c\<lparr>sc_sessions := []\<rparr>) else None)
      in first_error
        [validate_fields cd c,
         refuse_if (length (sc_sessions c) > max_sessions) ''too many saved sessions (max 64)'',
         check_sessions cd base [] (sc_sessions c),
         placement_validate (cf_gpu c)])"

section \<open>Trimming\<close>

lemma first_strip_None: "first_strip ps s = None \<longleftrightarrow> (\<forall>p \<in> set ps. \<not> prefix p s)"
  by (induction ps) (auto simp: strip_prefix_None_iff [symmetric] split: option.split)

lemma strip_all_fixed: "first_strip ps s = None \<Longrightarrow> strip_all ps s = s"
  by (subst strip_all.simps) simp

lemma strip_all_done: "[] \<notin> set ps \<Longrightarrow> first_strip ps (strip_all ps s) = None"
proof (induction ps s rule: strip_all.induct)
  case (1 ps s)
  show ?case
  proof (cases "first_strip ps s")
    case None
    then show ?thesis by (simp add: strip_all_fixed)
  next
    case (Some r)
    with 1(2) have "strip_all ps s = strip_all ps r" by (subst strip_all.simps) simp
    with 1 Some show ?thesis by simp
  qed
qed

lemma trim_end_prefix: "prefix (trim_end s) s"
proof -
  obtain a where "rev s = a @ strip_all (map rev ws_chars) (rev s)" using strip_all_suffix by blast
  then have "s = trim_end s @ rev a" by (metis trim_end_def rev_append rev_rev_ident)
  then show ?thesis by (metis prefixI)
qed

lemma trim_fixed:
  shows "trim_start (trim s) = trim s" and "trim_end (trim s) = trim s"
proof -
  have "first_strip ws_chars (trim_start s) = None"
    by (simp add: trim_start_def strip_all_done ws_chars_nonempty)
  then have "first_strip ws_chars (trim s) = None"
    using trim_end_prefix [of "trim_start s"] unfolding trim_def first_strip_None by (meson prefix_order.trans)
  then show "trim_start (trim s) = trim s" by (simp add: trim_start_def strip_all_fixed)
  have "first_strip (map rev ws_chars) (rev (trim s)) = None"
    by (simp add: trim_def trim_end_def strip_all_done [OF ws_chars_nonempty(2)])
  then show "trim_end (trim s) = trim s" by (simp add: trim_end_def strip_all_fixed)
qed

lemma trim_idem [simp]: "trim (trim s) = trim s"
  by (subst trim_def) (simp add: trim_fixed)

section \<open>Normalised values\<close>

lemma clamp_bounds: "lo \<le> hi \<Longrightarrow> lo \<le> clamp lo hi v \<and> clamp lo hi v \<le> (hi :: 'a :: linorder)"
  by (auto simp: clamp_def)

lemma clamp_idem: "lo \<le> hi \<Longrightarrow> clamp lo hi (clamp lo hi v) = clamp lo (hi :: 'a :: linorder) v"
  by (auto simp: clamp_def)

lemma f32_less_irrefl [simp]: "\<not> f32_less a a"
  by (simp add: f32_less_def)

text \<open>A fallback and bounds that clamping accepts.\<close>

definition f32_range :: "f32 \<Rightarrow> f32 \<Rightarrow> f32 \<Rightarrow> bool" where
  "f32_range fallback lo hi \<longleftrightarrow> f32_is_finite lo \<and> f32_is_finite hi \<and> \<not> f32_less hi lo \<and>
     f32_is_finite fallback \<and> \<not> f32_less fallback lo \<and> \<not> f32_less hi fallback"

lemma finite_clamp_settled:
  assumes "f32_range fallback lo hi" and "w = finite_clamp fallback lo hi v"
  shows "f32_is_finite w \<and> \<not> f32_less w lo \<and> \<not> f32_less hi w \<and> finite_clamp fallback lo hi w = w"
  using assms by (auto simp: f32_range_def finite_clamp_def f32_clamp_def Let_def split: if_splits)

lemma f32_finite_not_nan: "f32_is_finite v \<Longrightarrow> \<not> f32_is_nan v"
proof (rule notI)
  assume fin: "f32_is_finite v" and nan: "f32_is_nan v"
  have low: "v AND 0x7FFFFFFF = take_bit 31 v" by (simp add: take_bit_eq_mask mask_eq_exp_minus_1)
  have field: "drop_bit 23 v AND 0xFF = drop_bit 23 (take_bit 31 v)"
    by (simp add: drop_bit_take_bit take_bit_eq_mask mask_eq_exp_minus_1)
  have "0x7F800000 < uint (take_bit 31 v)"
    using nan by (simp add: f32_is_nan_def low word_less_def)
  moreover have "uint (take_bit 31 v) < 2 ^ 31" unfolding unsigned_take_bit_eq by (rule take_bit_int_less_exp)
  ultimately have "uint (take_bit 31 v) div 2 ^ 23 = 255" by auto
  then have "uint (drop_bit 23 (take_bit 31 v)) = 255" by (simp add: drop_bit_eq_div uint_div del: div_eq_dividend_iff)
  then have "drop_bit 23 v AND 0xFF = 0xFF" unfolding field by (simp add: word_uint_eq_iff)
  with fin show False by (simp add: f32_is_finite_def)
qed

lemma f32_ranges:
  "f32_range 0x3F800000 0 0x40800000" "f32_range 0x3F800000 0 0x40000000"
  "f32_range 0x3F733333 0x3C23D70A 0x3F800000" "f32_range 0 0 0x3F800000"
  by code_simp+

lemma one_of_settled: "f \<in> set xs \<Longrightarrow> one_of xs f v \<in> set xs \<and> one_of xs f (one_of xs f v) = one_of xs f v"
  by (simp add: one_of_def)

lemma trimmed_or_settled: "f \<noteq> [] \<Longrightarrow> trim f = f \<Longrightarrow> trimmed_or f v \<noteq> [] \<and> trimmed_or f (trimmed_or f v) = trimmed_or f v"
  by (simp add: trimmed_or_def)

lemma trimmed_id_idem: "trimmed_id (trimmed_id i) = trimmed_id i"
  by (auto simp: trimmed_id_def split: option.splits)

lemma fallbacks_trimmed: "trim ''none'' = ''none''" "trim ''auto'' = ''auto''" "trim ''llama.cpp'' = ''llama.cpp''"
  by (rule trim_graphic, simp_all add: graphic_def code_def)+

lemma adapter_settled:
  "0 \<le> length (la_path a) \<and> f32_is_finite (la_scale (adapter_normalize a)) \<and>
   f32_between 0 0x40800000 (la_scale (adapter_normalize a)) \<and>
   adapter_normalize (adapter_normalize a) = adapter_normalize a"
  using finite_clamp_settled [OF f32_ranges(1) refl, of "la_scale a"] f32_finite_not_nan
  by (simp add: adapter_normalize_def f32_between_def)

lemma map_fixed: "(\<And>x. x \<in> set xs \<Longrightarrow> f x = x) \<Longrightarrow> map f xs = xs"
  by (induction xs) simp_all

lemma adapters_settled:
  "take n (filter P (map adapter_normalize (take n (filter P (map adapter_normalize xs))))) =
   take n (filter P (map adapter_normalize xs))"
proof -
  let ?ys = "take n (filter P (map adapter_normalize xs))"
  have fixed: "map adapter_normalize ?ys = ?ys"
    using adapter_settled by (intro map_fixed) (auto dest!: in_set_takeD)
  have "filter P ?ys = ?ys" by (auto intro!: filter_True dest!: in_set_takeD)
  with fixed show ?thesis by simp
qed

lemma placement_settled: "placement_normalize (placement_normalize p) = placement_normalize p"
proof -
  let ?ids = "take max_gpu_ids (filter (\<lambda>i. i \<noteq> []) (map trim (gp_gpu_ids p)))"
  have ids: "map trim ?ids = ?ids" by (rule map_fixed) (auto dest!: in_set_takeD)
  have "filter (\<lambda>i. i \<noteq> []) ?ids = ?ids" by (auto intro!: filter_True dest!: in_set_takeD)
  moreover have "f32_is_finite 0" "\<not> f32_negative 0" by (simp_all add: f32_is_finite_def f32_negative_def)
  ultimately show ?thesis using ids by (simp add: placement_normalize_def trimmed_id_idem take_map)
qed

lemma session_settled: "session_normalize (session_normalize s) = session_normalize s"
  by (simp add: session_normalize_def placement_settled trimmed_id_idem)

lemma unique_sessions_subset: "set (unique_sessions seen ss) \<subseteq> set ss"
  by (induction seen ss rule: unique_sessions.induct) (simp_all add: subset_insertI2)

lemma unique_sessions_distinct:
  "distinct (map sd_id (unique_sessions seen ss)) \<and> set (map sd_id (unique_sessions seen ss)) \<inter> set seen = {}"
proof (induction seen ss rule: unique_sessions.induct)
  case (2 seen s ss)
  then show ?case by (cases "sd_id s \<in> set seen") simp_all
qed simp

lemma unique_sessions_fixed:
  "distinct (map sd_id ss) \<Longrightarrow> set (map sd_id ss) \<inter> set seen = {} \<Longrightarrow> unique_sessions seen ss = ss"
  by (induction seen ss rule: unique_sessions.induct) simp_all

text \<open>The values a normalised configuration can hold.\<close>

definition fields_in_range :: "saved_config \<Rightarrow> bool" where
  "fields_in_range c \<longleftrightarrow>
     cf_port c \<noteq> 0 \<and> cf_ngl c \<le> 999 \<and> (cf_ctx_size c = 0 \<or> 512 \<le> cf_ctx_size c \<and> cf_ctx_size c \<le> max_context) \<and>
     1 \<le> cf_batch_size c \<and> cf_batch_size c \<le> 131072 \<and> 1 \<le> cf_ubatch_size c \<and>
     cf_ubatch_size c \<le> ubatch_max c (cf_batch_size c) \<and> - 1 \<le> cf_keep c \<and> cf_keep c \<le> 131072 \<and>
     cf_cache_type_k c \<in> set cache_types \<and> cf_cache_type_v c \<in> set cache_types \<and>
     cf_flash_attn c \<in> set on_off \<and> cf_reasoning c \<in> set on_off \<and> cf_reasoning_preserve c \<in> set on_off \<and>
     cf_reasoning_format c \<in> set reasoning_formats \<and> cf_reasoning_effort c \<in> set reasoning_efforts \<and>
     cf_n_cpu_moe c \<le> 64 \<and> cf_threads c \<le> 64 \<and> cf_top_k c \<le> 200 \<and> cf_parallel c \<le> 128 \<and>
     f32_is_finite (cf_temperature c) \<and> f32_is_finite (cf_top_p c) \<and>
     f32_is_finite (cf_spec_draft_p_min c) \<and> f32_is_finite (cf_spec_draft_p_split c) \<and>
     cf_spec_type c \<noteq> [] \<and> cf_spec_draft_ngl c \<noteq> [] \<and> cf_active_provider c \<noteq> [] \<and>
     - 1 \<le> cf_reasoning_budget c \<and> cf_reasoning_budget c \<le> 1048576 \<and>
     1 \<le> cf_iters c \<and> cf_iters c \<le> 100 \<and> 1 \<le> cf_request_timeout_seconds c \<and>
     cf_request_timeout_seconds c \<le> 86400 \<and> - 1 \<le> cf_sleep_idle_seconds c \<and> cf_sleep_idle_seconds c \<le> 604800 \<and>
     length (cf_lora_adapters c) \<le> 32 \<and>
     list_all (\<lambda>a. la_path a \<noteq> [] \<and> f32_is_finite (la_scale a) \<and> f32_between 0 0x40800000 (la_scale a))
       (cf_lora_adapters c)"

lemma adapters_range:
  "length (take 32 (filter (\<lambda>a. la_path a \<noteq> []) (map adapter_normalize xs))) \<le> 32"
  "list_all (\<lambda>a. la_path a \<noteq> [] \<and> f32_is_finite (la_scale a) \<and> f32_between 0 0x40800000 (la_scale a))
     (take 32 (filter (\<lambda>a. la_path a \<noteq> []) (map adapter_normalize xs)))"
  using adapter_settled by (auto simp: list_all_iff dest!: in_set_takeD)

lemmas settled_floats =
  finite_clamp_settled [OF f32_ranges(2) refl] finite_clamp_settled [OF f32_ranges(3) refl]
  finite_clamp_settled [OF f32_ranges(4) refl]

lemma one_of_range: "one_of cache_types ''f16'' v \<in> set cache_types" "one_of on_off ''auto'' v \<in> set on_off"
  "one_of reasoning_formats ''auto'' v \<in> set reasoning_formats"
  "one_of reasoning_efforts ''default'' v \<in> set reasoning_efforts"
  by (simp_all add: one_of_def cache_types_def on_off_def reasoning_formats_def reasoning_efforts_def)

lemma trimmed_or_range: "f \<noteq> [] \<Longrightarrow> trimmed_or f v \<noteq> []"
  by (simp add: trimmed_or_def)

lemma ubatch_max_positive: "1 \<le> b \<Longrightarrow> b \<le> 131072 \<Longrightarrow> 1 \<le> ubatch_max c b \<and> ubatch_max c b \<le> 131072"
  by (simp add: ubatch_max_def)

lemma normalize_sel:
  "cf_port (normalize_fields c) = (if cf_port c = 0 then 8080 else cf_port c)"
  "cf_ngl (normalize_fields c) = min (cf_ngl c) max_gpu_layers"
  "cf_ctx_size (normalize_fields c) = (if cf_ctx_size c \<noteq> 0 then clamp 512 max_context (cf_ctx_size c) else 0)"
  "cf_batch_size (normalize_fields c) = clamp 1 131072 (cf_batch_size c)"
  "cf_ubatch_size (normalize_fields c) = clamp 1 (ubatch_max c (clamp 1 131072 (cf_batch_size c))) (cf_ubatch_size c)"
  "cf_keep (normalize_fields c) = clamp (- 1) 131072 (cf_keep c)"
  "cf_cache_type_k (normalize_fields c) = one_of cache_types ''f16'' (cf_cache_type_k c)"
  "cf_cache_type_v (normalize_fields c) = one_of cache_types ''f16'' (cf_cache_type_v c)"
  "cf_n_cpu_moe (normalize_fields c) = min (cf_n_cpu_moe c) 64"
  "cf_threads (normalize_fields c) = min (cf_threads c) 64"
  "cf_temperature (normalize_fields c) = finite_clamp 0x3F800000 0 0x40000000 (cf_temperature c)"
  "cf_top_p (normalize_fields c) = finite_clamp 0x3F733333 0x3C23D70A 0x3F800000 (cf_top_p c)"
  "cf_top_k (normalize_fields c) = min (cf_top_k c) 200"
  "cf_spec_type (normalize_fields c) = trimmed_or ''none'' (cf_spec_type c)"
  "cf_spec_draft_n_max (normalize_fields c) = min (cf_spec_draft_n_max c) 64"
  "cf_spec_draft_n_min (normalize_fields c) = min (cf_spec_draft_n_min c) 64"
  "cf_spec_draft_p_min (normalize_fields c) = finite_clamp 0 0 0x3F800000 (cf_spec_draft_p_min c)"
  "cf_spec_draft_p_split (normalize_fields c) = finite_clamp 0 0 0x3F800000 (cf_spec_draft_p_split c)"
  "cf_spec_draft_ngl (normalize_fields c) = trimmed_or ''auto'' (cf_spec_draft_ngl c)"
  "cf_spec_draft_device (normalize_fields c) = trim (cf_spec_draft_device c)"
  "cf_spec_draft_model (normalize_fields c) = trim (cf_spec_draft_model c)"
  "cf_reasoning (normalize_fields c) = one_of on_off ''auto'' (cf_reasoning c)"
  "cf_reasoning_format (normalize_fields c) = one_of reasoning_formats ''auto'' (cf_reasoning_format c)"
  "cf_reasoning_effort (normalize_fields c) = one_of reasoning_efforts ''default'' (cf_reasoning_effort c)"
  "cf_reasoning_budget (normalize_fields c) = clamp (- 1) 1048576 (cf_reasoning_budget c)"
  "cf_reasoning_preserve (normalize_fields c) = one_of on_off ''auto'' (cf_reasoning_preserve c)"
  "cf_iters (normalize_fields c) = clamp 1 100 (cf_iters c)"
  "cf_parallel (normalize_fields c) = min (cf_parallel c) 128"
  "cf_request_timeout_seconds (normalize_fields c) = clamp 1 86400 (cf_request_timeout_seconds c)"
  "cf_sleep_idle_seconds (normalize_fields c) = clamp (- 1) 604800 (cf_sleep_idle_seconds c)"
  "cf_lora_adapters (normalize_fields c) = take 32 (filter (\<lambda>a. la_path a \<noteq> []) (map adapter_normalize (cf_lora_adapters c)))"
  "cf_flash_attn (normalize_fields c) = one_of on_off ''auto'' (cf_flash_attn c)"
  "cf_active_provider (normalize_fields c) = trimmed_or ''llama.cpp'' (cf_active_provider c)"
  "cf_active_runtime (normalize_fields c) = trim (cf_active_runtime c)"
  "sc_provider_options (normalize_fields c) = filter (\<lambda>e. snd e \<noteq> []) (sc_provider_options c)"
  "cf_runtime_defaults (normalize_fields c) = cf_runtime_defaults c"
  "cf_config_version (normalize_fields c) = cf_config_version c"
  "cf_models_dir (normalize_fields c) = cf_models_dir c"
  "cf_reasoning_budget_message (normalize_fields c) = cf_reasoning_budget_message c"
  "cf_server_args (normalize_fields c) = cf_server_args c"
  "cf_mmproj (normalize_fields c) = cf_mmproj c"
  "cf_active_model (normalize_fields c) = cf_active_model c"
  "cf_active_backend (normalize_fields c) = cf_active_backend c"
  "cf_active_build (normalize_fields c) = cf_active_build c"
  "cf_stop_existing (normalize_fields c) = cf_stop_existing c"
  "cf_close_to_tray (normalize_fields c) = cf_close_to_tray c"
  "cf_onboarding_completed (normalize_fields c) = cf_onboarding_completed c"
  "cf_gpu (normalize_fields c) = cf_gpu c"
  "sc_chat_options (normalize_fields c) = sc_chat_options c"
  "sc_recent_runtimes (normalize_fields c) = sc_recent_runtimes c"
  "saved_config.more (normalize_fields c) = ()"
  "sc_sessions (normalize_fields c) = sc_sessions c"
  by (simp_all add: normalize_fields_def Let_def del: One_nat_def)

lemma ubatch_max_normalized: "ubatch_max (normalize_fields c) b = ubatch_max c b"
  by (simp add: ubatch_max_def normalize_sel)

lemma normalize_fields_range: "fields_in_range (normalize_fields c)"
proof -
  let ?b = "clamp 1 131072 (cf_batch_size c)"
  have b: "1 \<le> ?b \<and> ?b \<le> 131072" by (rule clamp_bounds) simp
  then have u: "1 \<le> ubatch_max c ?b" using ubatch_max_positive by blast
  have ub: "1 \<le> clamp 1 (ubatch_max c ?b) (cf_ubatch_size c) \<and> clamp 1 (ubatch_max c ?b) (cf_ubatch_size c) \<le> ubatch_max c ?b"
    by (rule clamp_bounds [OF u])
  have ctx: "512 \<le> clamp 512 max_context v \<and> clamp 512 max_context v \<le> max_context" for v
    by (rule clamp_bounds) (simp add: max_context_def)
  have k: "- 1 \<le> clamp (- 1) 131072 v \<and> clamp (- 1) 131072 v \<le> 131072" for v :: int by (rule clamp_bounds) simp
  have r: "- 1 \<le> clamp (- 1) 1048576 v \<and> clamp (- 1) 1048576 v \<le> 1048576" for v :: int by (rule clamp_bounds) simp
  have i: "1 \<le> clamp 1 100 v \<and> clamp 1 100 v \<le> 100" for v :: nat by (rule clamp_bounds) simp
  have t: "1 \<le> clamp 1 86400 v \<and> clamp 1 86400 v \<le> 86400" for v :: nat by (rule clamp_bounds) simp
  have z: "- 1 \<le> clamp (- 1) 604800 v \<and> clamp (- 1) 604800 v \<le> 604800" for v :: int by (rule clamp_bounds) simp
  show ?thesis
    unfolding fields_in_range_def normalize_sel ubatch_max_normalized max_gpu_layers_def
    by (intro conjI)
       (simp_all add: b ub ctx k r i t z one_of_range settled_floats trimmed_or_range adapters_range del: One_nat_def)
qed

lemma one_of_idem: "one_of xs f (one_of xs f v) = one_of xs f v"
  by (simp add: one_of_def)

lemmas trimmed_or_idem =
  trimmed_or_settled [OF _ fallbacks_trimmed(1)] trimmed_or_settled [OF _ fallbacks_trimmed(2)]
  trimmed_or_settled [OF _ fallbacks_trimmed(3)]

lemma normalize_fields_idem: "normalize_fields (normalize_fields c) = normalize_fields c"
proof -
  let ?b = "clamp 1 131072 (cf_batch_size c)"
  have b: "1 \<le> ?b \<and> ?b \<le> 131072" by (rule clamp_bounds) simp
  then have u: "1 \<le> ubatch_max c ?b" using ubatch_max_positive by blast
  have mc: "clamp 512 max_context (clamp 512 max_context v) = clamp 512 max_context v" for v
    by (rule clamp_idem) (simp add: max_context_def)
  show ?thesis
    by (rule saved_config.equality)
       (simp_all only: normalize_sel ubatch_max_normalized, simp_all add: clamp_idem mc u one_of_idem settled_floats
         trimmed_or_idem adapters_settled del: One_nat_def)
qed

lemma normalize_fields_other:
  "normalize_fields (c\<lparr>sc_sessions := ss, cf_gpu := p\<rparr>) = (normalize_fields c)\<lparr>sc_sessions := ss, cf_gpu := p\<rparr>"
  by (simp add: normalize_fields_def Let_def ubatch_max_def)


end
