(* ===== verification/CommandLine.thy ===== *)
theory CommandLine
  imports ConfigCheck InferenceArgs Complex_Main
begin

text \<open>
  The command line of the llama.cpp server, \<open>build_args_with_gpu\<close> of \<open>src-tauri/src/server.rs\<close>: the
  options of the dedicated settings, without those left to the runtime, then the user's raw
  arguments without a second copy of an option the application owns.

  The decimal text of a single-precision number is a parameter; its value is exact.
\<close>

section \<open>Pieces\<close>

text \<open>The value of a finite number.\<close>

definition f32_rat :: "f32 \<Rightarrow> rat" where
  "f32_rat v =
     (let e = unat (drop_bit 23 v AND 0xFF);
          m = unat (v AND 0x7FFFFF);
          x = (if e = 0 then of_nat m / 2 ^ 149 else of_nat (2 ^ 23 + m) * 2 ^ e / 2 ^ 150)
      in if bit v 31 then - x else x)"

text \<open>
  \<open>(scale - 1.0).abs() < f32::EPSILON\<close>. The subtraction is exact from 0.5 to 2, and its result is
  at least 0.5 elsewhere. A NaN is neither less nor at least.
\<close>

definition unit_scale :: "f32 \<Rightarrow> bool" where
  "unit_scale v \<longleftrightarrow> f32_is_finite v \<and> \<bar>f32_rat v - 1\<bar> < 1 / 2 ^ 23"

definition other_scale :: "f32 \<Rightarrow> bool" where
  "other_scale v \<longleftrightarrow> \<not> f32_is_nan v \<and> \<not> unit_scale v"

definition f32_zero :: "f32 \<Rightarrow> bool" where
  "f32_zero v \<longleftrightarrow> v = 0 \<or> v = 0x80000000"

definition has_flag :: "string list \<Rightarrow> string list \<Rightarrow> bool" where
  "has_flag args names \<longleftrightarrow> list_ex (\<lambda>a. argument_name a \<in> set names) args"

text \<open>The name that a raw argument is compared under.\<close>

definition raw_name :: "string \<Rightarrow> string" where
  "raw_name a = trim (argument_name a)"

definition managed_switches :: "string list" where
  "managed_switches =
     [''--no-api-key'', ''--mmproj-auto'', ''--no-mmproj'', ''--no-mmproj-auto'', ''--no-reasoning-preserve'']"

definition consumes_next :: "string \<Rightarrow> string list \<Rightarrow> bool" where
  "consumes_next a rest \<longleftrightarrow>
     CHR ''='' \<notin> set a \<and> raw_name a \<notin> set managed_switches \<and>
     (case rest of [] \<Rightarrow> False | v # _ \<Rightarrow> \<not> starts_with ''-'' (trim v) \<or> parses_f64 (trim v))"

fun unmanaged_args :: "string list \<Rightarrow> string list" where
  "unmanaged_args [] = []"
| "unmanaged_args (a # rest) =
     (if raw_name a \<in> set app_managed_server_args
      then unmanaged_args (if consumes_next a rest then drop 1 rest else rest)
      else a # unmanaged_args rest)"

section \<open>The command line\<close>

definition args_if :: "bool \<Rightarrow> 'a list \<Rightarrow> 'a list" where
  "args_if b xs = (if b then xs else [])"

definition lora_plain :: "app_config \<Rightarrow> string list" where
  "lora_plain cfg = map la_path (filter (\<lambda>a. la_enabled a \<and> unit_scale (la_scale a)) (cf_lora_adapters cfg))"

definition lora_scaled :: "(f32 \<Rightarrow> string) \<Rightarrow> app_config \<Rightarrow> string list" where
  "lora_scaled show_f32 cfg = map (\<lambda>a. la_path a @ '':'' @ show_f32 (la_scale a))
     (filter (\<lambda>a. la_enabled a \<and> other_scale (la_scale a)) (cf_lora_adapters cfg))"

definition draft_args :: "(f32 \<Rightarrow> string) \<Rightarrow> app_config \<Rightarrow> resolved_gpu \<Rightarrow> string list" where
  "draft_args show_f32 cfg gpu =
     [''--spec-type'', cf_spec_type cfg]
     @ args_if (cf_spec_draft_n_max cfg \<noteq> 3) [''--spec-draft-n-max'', digits_of_nat (cf_spec_draft_n_max cfg)]
     @ args_if (cf_spec_draft_n_min cfg \<noteq> 0) [''--spec-draft-n-min'', digits_of_nat (cf_spec_draft_n_min cfg)]
     @ args_if (\<not> f32_zero (cf_spec_draft_p_min cfg)) [''--spec-draft-p-min'', show_f32 (cf_spec_draft_p_min cfg)]
     @ args_if (cf_spec_draft_p_split cfg \<noteq> 0x3DCCCCCD)
         [''--spec-draft-p-split'', show_f32 (cf_spec_draft_p_split cfg)]
     @ args_if (cf_spec_draft_ngl cfg \<noteq> ''auto'' \<and> trim (cf_spec_draft_ngl cfg) \<noteq> [])
         [''--spec-draft-ngl'', cf_spec_draft_ngl cfg]
     @ (if trim (cf_spec_draft_device cfg) \<noteq> [] then [''--spec-draft-device'', cf_spec_draft_device cfg]
        else case rg_draft_device gpu of None \<Rightarrow> [] | Some d \<Rightarrow> [''--spec-draft-device'', d])
     @ args_if (trim (cf_spec_draft_model cfg) \<noteq> []) [''--spec-draft-model'', cf_spec_draft_model cfg]"

definition option_args :: "string \<Rightarrow> string option \<Rightarrow> string list" where
  "option_args flag v = (case v of None \<Rightarrow> [] | Some x \<Rightarrow> [flag, x])"

definition settings_args :: "(f32 \<Rightarrow> string) \<Rightarrow> app_config \<Rightarrow> resolved_gpu \<Rightarrow> string list" where
  "settings_args show_f32 cfg gpu =
     [''--model'', cf_active_model cfg, ''--host'', ''127.0.0.1'', ''--port'', digits_of_nat (cf_port cfg),
      ''--n-gpu-layers'', digits_of_nat (cf_ngl cfg), ''--ctx-size'', digits_of_nat (cf_ctx_size cfg),
      ''--batch-size'', digits_of_nat (cf_batch_size cfg), ''--ubatch-size'', digits_of_nat (cf_ubatch_size cfg),
      ''--keep'', show_int (cf_keep cfg), ''--cache-type-k'', cf_cache_type_k cfg,
      ''--cache-type-v'', cf_cache_type_v cfg, ''--flash-attn'', cf_flash_attn cfg]
     @ option_args ''--device'' (rg_device_flag gpu)
     @ option_args ''--main-gpu'' (map_option digits_of_nat (rg_main_gpu_index gpu))
     @ option_args ''--split-mode'' (rg_split_mode gpu)
     @ args_if (rg_tensor_split gpu \<noteq> []) [''--tensor-split'', join '','' (map show_f32 (rg_tensor_split gpu))]
     @ args_if (trim (cf_mmproj cfg) \<noteq> []) [''--mmproj'', cf_mmproj cfg]
     @ args_if (cf_parallel cfg > 0) [''--parallel'', digits_of_nat (cf_parallel cfg)]
     @ args_if (cf_request_timeout_seconds cfg \<noteq> 3600)
         [''--timeout'', digits_of_nat (cf_request_timeout_seconds cfg)]
     @ args_if (cf_sleep_idle_seconds cfg \<ge> 0) [''--sleep-idle-seconds'', show_int (cf_sleep_idle_seconds cfg)]
     @ args_if (lora_plain cfg \<noteq> []) [''--lora'', join '','' (lora_plain cfg)]
     @ args_if (lora_scaled show_f32 cfg \<noteq> []) [''--lora-scaled'', join '','' (lora_scaled show_f32 cfg)]
     @ args_if (cf_n_cpu_moe cfg > 0) [''--n-cpu-moe'', digits_of_nat (cf_n_cpu_moe cfg)]
     @ args_if (cf_threads cfg > 0) [''--threads'', digits_of_nat (cf_threads cfg)]
     @ args_if (speculative_enabled cfg) (draft_args show_f32 cfg gpu)
     @ args_if (cf_reasoning cfg \<noteq> ''auto'') [''--reasoning'', cf_reasoning cfg]
     @ args_if (cf_reasoning_format cfg \<noteq> ''auto'') [''--reasoning-format'', cf_reasoning_format cfg]
     @ args_if (cf_reasoning_effort cfg \<noteq> ''default'' \<and> cf_reasoning_effort cfg \<noteq> ''none'')
         [''--reasoning-effort'', cf_reasoning_effort cfg]
     @ args_if (cf_reasoning_budget cfg \<noteq> - 1) [''--reasoning-budget'', show_int (cf_reasoning_budget cfg)]
     @ args_if (trim (cf_reasoning_budget_message cfg) \<noteq> [])
         [''--reasoning-budget-message'', cf_reasoning_budget_message cfg]
     @ (if cf_reasoning_preserve cfg = ''on'' then [''--reasoning-preserve'']
        else if cf_reasoning_preserve cfg = ''off'' then [''--no-reasoning-preserve''] else [])
     @ args_if (\<not> has_flag (cf_server_args cfg) [''--cont-batching'', ''-cb'', ''--no-cont-batching'', ''-nocb''])
         [''--cont-batching'']
     @ args_if (\<not> has_flag (cf_server_args cfg) [''--webui'', ''--ui'', ''--no-webui'', ''--no-ui''])
         [''--no-webui'']"

definition build_args_with_gpu :: "(f32 \<Rightarrow> string) \<Rightarrow> app_config \<Rightarrow> resolved_gpu \<Rightarrow> string list" where
  "build_args_with_gpu show_f32 cfg gpu =
     (let args = filter_args cfg (settings_args show_f32 cfg gpu) @ unmanaged_args (cf_server_args cfg)
      in if cf_active_backend cfg = ''cpu'' then force_cpu_server (speculative_enabled cfg) args else args)"

definition build_args :: "(f32 \<Rightarrow> string) \<Rightarrow> app_config \<Rightarrow> string list" where
  "build_args show_f32 cfg = build_args_with_gpu show_f32 cfg resolved_none"

section \<open>Raw arguments\<close>

lemma unmanaged_none: "a \<in> set (unmanaged_args raw) \<Longrightarrow> raw_name a \<notin> set app_managed_server_args"
  by (induction raw rule: unmanaged_args.induct) (auto split: if_splits)

lemma unmanaged_all: "\<forall>a \<in> set raw. raw_name a \<notin> set app_managed_server_args \<Longrightarrow> unmanaged_args raw = raw"
  by (induction raw) simp_all

text \<open>An equals sign is part of no whitespace character, so trimming stops at it.\<close>

lemma ws_no_equals: "list_all (\<lambda>w. CHR ''='' \<notin> set w) ws_chars"
  by (simp add: ws_chars_def ws_encodings_def char_of_def bit_0)

lemma strip_prefix_stop:
  "d \<notin> set w \<Longrightarrow> strip_prefix w (p @ d # q) = map_option (\<lambda>r. r @ d # q) (strip_prefix w p)"
proof (induction w arbitrary: p)
  case (Cons x w)
  then show ?case by (cases p) auto
qed simp

lemma first_strip_stop:
  "list_all (\<lambda>w. d \<notin> set w) ps \<Longrightarrow> first_strip ps (p @ d # q) = map_option (\<lambda>r. r @ d # q) (first_strip ps p)"
  by (induction ps) (auto simp: strip_prefix_stop split: option.split)

lemma strip_all_stop:
  assumes "list_all (\<lambda>w. d \<notin> set w) ps"
  shows "strip_all ps (p @ d # q) = strip_all ps p @ d # q"
  using assms
proof (induction ps p rule: strip_all.induct)
  case (1 ps p)
  show ?case
  proof (cases "[] \<in> set ps \<or> first_strip ps p = None")
    case True
    then show ?thesis using first_strip_stop [OF 1(2), of p q]
      by (subst (1 2) strip_all.simps) auto
  next
    case False
    then obtain r where r: "first_strip ps p = Some r" by auto
    have "strip_all ps (p @ d # q) = strip_all ps (r @ d # q)" and "strip_all ps p = strip_all ps r"
      using False r first_strip_stop [OF 1(2), of p q] by (subst strip_all.simps, simp)+
    with 1(1) [OF _ r] False 1(2) show ?thesis by simp
  qed
qed

lemma trim_at_equals: "trim (p @ CHR ''='' # q) = trim_start p @ CHR ''='' # trim_end q"
proof -
  have r: "list_all (\<lambda>w. CHR ''='' \<notin> set w) (map rev ws_chars)"
    using ws_no_equals by (simp add: list_all_iff)
  have start: "trim_start (p @ CHR ''='' # q) = trim_start p @ CHR ''='' # q" for p q
    using strip_all_stop [OF ws_no_equals] by (simp add: trim_start_def)
  have "trim_end (p @ CHR ''='' # q) = p @ CHR ''='' # trim_end q" for p q
    using strip_all_stop [OF r, of "rev q" "rev p"] by (simp add: trim_end_def)
  with start show ?thesis by (simp add: trim_def)
qed

lemma trim_start_idem: "trim_start (trim_start s) = trim_start s"
  by (simp add: trim_start_def strip_all_fixed strip_all_done ws_chars_nonempty)

lemma trim_start_trim: "trim (trim_start s) = trim s"
  by (simp add: trim_def trim_start_idem)

lemma server_arg_name_raw: "server_arg_name a = raw_name a"
proof (cases "CHR ''='' \<in> set a")
  case True
  then obtain p q where a: "a = p @ CHR ''='' # q" "CHR ''='' \<notin> set p" by (metis split_list_first)
  obtain b where "p = b @ trim_start p" using strip_all_suffix unfolding trim_start_def by blast
  then have "CHR ''='' \<notin> set (trim_start p)" using a(2) by (metis UnCI set_append)
  then have "split_once CHR ''='' (trim a) = Some (trim_start p, trim_end q)"
    by (simp add: a(1) trim_at_equals split_once_Some_iff)
  moreover have "argument_name a = p" using a by (simp add: argument_name_def takeWhile_append)
  ultimately show ?thesis by (simp add: server_arg_name_def raw_name_def trim_start_trim)
next
  case False
  obtain x y where "a = x @ trim a @ y" using trim_infix by blast
  then have "CHR ''='' \<notin> set (trim a)" using False by (metis UnCI set_append)
  then have "split_once CHR ''='' (trim a) = None" by (simp add: split_once_None_iff)
  moreover have "argument_name a = a" using False by (simp add: argument_name_def takeWhile_eq_all_conv) blast
  ultimately show ?thesis by (simp add: server_arg_name_def raw_name_def)
qed

lemma checked_args_unmanaged:
  "check_server_args i bytes raw = Inr () \<Longrightarrow> \<forall>a \<in> set raw. raw_name a \<notin> set app_managed_server_args"
  by (induction i bytes raw rule: check_server_args.induct)
     (auto simp: Let_def server_arg_name_raw split: if_splits)

section \<open>Options and their values\<close>

fun flatten :: "(string \<times> string option) list \<Rightarrow> string list" where
  "flatten [] = []"
| "flatten ((f, None) # es) = f # flatten es"
| "flatten ((f, Some v) # es) = f # v # flatten es"

lemma flatten_append [simp]: "flatten (es @ fs) = flatten es @ flatten fs"
  by (induction es rule: flatten.induct) simp_all

definition opt :: "string \<Rightarrow> string \<Rightarrow> (string \<times> string option) list" where
  "opt f v = [(f, Some v)]"

definition switch :: "string \<Rightarrow> (string \<times> string option) list" where
  "switch f = [(f, None)]"

lemma flatten_pieces [simp]: "flatten (opt f v) = [f, v]" "flatten (switch f) = [f]"
  by (simp_all add: opt_def switch_def)

lemma flatten_if [simp]: "flatten (args_if b es) = args_if b (flatten es)"
  by (simp add: args_if_def)

definition option_entry :: "string \<Rightarrow> string option \<Rightarrow> (string \<times> string option) list" where
  "option_entry f v = (case v of None \<Rightarrow> [] | Some x \<Rightarrow> opt f x)"

lemma flatten_option_entry [simp]: "flatten (option_entry f v) = option_args f v"
  by (simp add: option_entry_def option_args_def split: option.split)

definition draft_entries :: "(f32 \<Rightarrow> string) \<Rightarrow> app_config \<Rightarrow> resolved_gpu \<Rightarrow> (string \<times> string option) list" where
  "draft_entries show_f32 cfg gpu =
     opt ''--spec-type'' (cf_spec_type cfg)
     @ args_if (cf_spec_draft_n_max cfg \<noteq> 3) (opt ''--spec-draft-n-max'' (digits_of_nat (cf_spec_draft_n_max cfg)))
     @ args_if (cf_spec_draft_n_min cfg \<noteq> 0) (opt ''--spec-draft-n-min'' (digits_of_nat (cf_spec_draft_n_min cfg)))
     @ args_if (\<not> f32_zero (cf_spec_draft_p_min cfg)) (opt ''--spec-draft-p-min'' (show_f32 (cf_spec_draft_p_min cfg)))
     @ args_if (cf_spec_draft_p_split cfg \<noteq> 0x3DCCCCCD)
         (opt ''--spec-draft-p-split'' (show_f32 (cf_spec_draft_p_split cfg)))
     @ args_if (cf_spec_draft_ngl cfg \<noteq> ''auto'' \<and> trim (cf_spec_draft_ngl cfg) \<noteq> [])
         (opt ''--spec-draft-ngl'' (cf_spec_draft_ngl cfg))
     @ option_entry ''--spec-draft-device''
         (if trim (cf_spec_draft_device cfg) \<noteq> [] then Some (cf_spec_draft_device cfg) else rg_draft_device gpu)
     @ args_if (trim (cf_spec_draft_model cfg) \<noteq> []) (opt ''--spec-draft-model'' (cf_spec_draft_model cfg))"

definition settings_entries :: "(f32 \<Rightarrow> string) \<Rightarrow> app_config \<Rightarrow> resolved_gpu \<Rightarrow> (string \<times> string option) list" where
  "settings_entries show_f32 cfg gpu =
     opt ''--model'' (cf_active_model cfg) @ opt ''--host'' ''127.0.0.1'' @ opt ''--port'' (digits_of_nat (cf_port cfg))
     @ opt ''--n-gpu-layers'' (digits_of_nat (cf_ngl cfg)) @ opt ''--ctx-size'' (digits_of_nat (cf_ctx_size cfg))
     @ opt ''--batch-size'' (digits_of_nat (cf_batch_size cfg)) @ opt ''--ubatch-size'' (digits_of_nat (cf_ubatch_size cfg))
     @ opt ''--keep'' (show_int (cf_keep cfg)) @ opt ''--cache-type-k'' (cf_cache_type_k cfg)
     @ opt ''--cache-type-v'' (cf_cache_type_v cfg) @ opt ''--flash-attn'' (cf_flash_attn cfg)
     @ option_entry ''--device'' (rg_device_flag gpu)
     @ option_entry ''--main-gpu'' (map_option digits_of_nat (rg_main_gpu_index gpu))
     @ option_entry ''--split-mode'' (rg_split_mode gpu)
     @ args_if (rg_tensor_split gpu \<noteq> []) (opt ''--tensor-split'' (join '','' (map show_f32 (rg_tensor_split gpu))))
     @ args_if (trim (cf_mmproj cfg) \<noteq> []) (opt ''--mmproj'' (cf_mmproj cfg))
     @ args_if (cf_parallel cfg > 0) (opt ''--parallel'' (digits_of_nat (cf_parallel cfg)))
     @ args_if (cf_request_timeout_seconds cfg \<noteq> 3600) (opt ''--timeout'' (digits_of_nat (cf_request_timeout_seconds cfg)))
     @ args_if (cf_sleep_idle_seconds cfg \<ge> 0) (opt ''--sleep-idle-seconds'' (show_int (cf_sleep_idle_seconds cfg)))
     @ args_if (lora_plain cfg \<noteq> []) (opt ''--lora'' (join '','' (lora_plain cfg)))
     @ args_if (lora_scaled show_f32 cfg \<noteq> []) (opt ''--lora-scaled'' (join '','' (lora_scaled show_f32 cfg)))
     @ args_if (cf_n_cpu_moe cfg > 0) (opt ''--n-cpu-moe'' (digits_of_nat (cf_n_cpu_moe cfg)))
     @ args_if (cf_threads cfg > 0) (opt ''--threads'' (digits_of_nat (cf_threads cfg)))
     @ args_if (speculative_enabled cfg) (draft_entries show_f32 cfg gpu)
     @ args_if (cf_reasoning cfg \<noteq> ''auto'') (opt ''--reasoning'' (cf_reasoning cfg))
     @ args_if (cf_reasoning_format cfg \<noteq> ''auto'') (opt ''--reasoning-format'' (cf_reasoning_format cfg))
     @ args_if (cf_reasoning_effort cfg \<noteq> ''default'' \<and> cf_reasoning_effort cfg \<noteq> ''none'')
         (opt ''--reasoning-effort'' (cf_reasoning_effort cfg))
     @ args_if (cf_reasoning_budget cfg \<noteq> - 1) (opt ''--reasoning-budget'' (show_int (cf_reasoning_budget cfg)))
     @ args_if (trim (cf_reasoning_budget_message cfg) \<noteq> [])
         (opt ''--reasoning-budget-message'' (cf_reasoning_budget_message cfg))
     @ args_if (cf_reasoning_preserve cfg = ''on'') (switch ''--reasoning-preserve'')
     @ args_if (cf_reasoning_preserve cfg = ''off'') (switch ''--no-reasoning-preserve'')
     @ args_if (\<not> has_flag (cf_server_args cfg) [''--cont-batching'', ''-cb'', ''--no-cont-batching'', ''-nocb''])
         (switch ''--cont-batching'')
     @ args_if (\<not> has_flag (cf_server_args cfg) [''--webui'', ''--ui'', ''--no-webui'', ''--no-ui''])
         (switch ''--no-webui'')"

lemma draft_device_args:
  "(if t then [f, v] else case d of None \<Rightarrow> [] | Some x \<Rightarrow> [f, x]) = option_args f (if t then Some v else d)"
  by (simp add: option_args_def split: option.split)

lemma preserve_args:
  "(if (p :: string) = ''on'' then x else if p = ''off'' then y else []) = args_if (p = ''on'') x @ args_if (p = ''off'') y"
  by (simp add: args_if_def)

lemma draft_args_flatten: "draft_args show_f32 cfg gpu = flatten (draft_entries show_f32 cfg gpu)"
  by (simp only: draft_args_def draft_entries_def draft_device_args flatten_append flatten_pieces flatten_if
      flatten_option_entry append_Cons append_Nil)

lemma settings_args_flatten: "settings_args show_f32 cfg gpu = flatten (settings_entries show_f32 cfg gpu)"
  by (simp only: settings_args_def settings_entries_def draft_args_flatten preserve_args flatten_append flatten_pieces
      flatten_if flatten_option_entry append_Cons append_Nil append_assoc)

definition draft_flags :: "string list" where
  "draft_flags =
     [''--spec-type'', ''--spec-draft-n-max'', ''--spec-draft-n-min'', ''--spec-draft-p-min'', ''--spec-draft-p-split'',
      ''--spec-draft-ngl'', ''--spec-draft-device'', ''--spec-draft-model'']"

definition settings_flags :: "string list" where
  "settings_flags =
     [''--model'', ''--host'', ''--port'', ''--n-gpu-layers'', ''--ctx-size'', ''--batch-size'', ''--ubatch-size'', ''--keep'',
      ''--cache-type-k'', ''--cache-type-v'', ''--flash-attn'', ''--device'', ''--main-gpu'', ''--split-mode'',
      ''--tensor-split'', ''--mmproj'', ''--parallel'', ''--timeout'', ''--sleep-idle-seconds'', ''--lora'',
      ''--lora-scaled'', ''--n-cpu-moe'', ''--threads''] @ draft_flags @
     [''--reasoning'', ''--reasoning-format'', ''--reasoning-effort'', ''--reasoning-budget'',
      ''--reasoning-budget-message'', ''--reasoning-preserve'', ''--no-reasoning-preserve'', ''--cont-batching'',
      ''--no-webui'']"

lemma flags_if: "subseq (map fst es) fs \<Longrightarrow> subseq (map fst (args_if b es)) fs"
  by (simp add: args_if_def)

lemma flags_pieces:
  "subseq (map fst (opt f v)) [f]" "subseq (map fst (switch f)) [f]" "subseq (map fst (option_entry f w)) [f]"
  by (simp_all add: option_entry_def opt_def switch_def split: option.split)

lemma flags_append:
  "subseq (map fst es) [f] \<Longrightarrow> subseq (map fst es') fs \<Longrightarrow> subseq (map fst (es @ es')) (f # fs)"
  using list_emb_append_mono [of "(=)" "map fst es" "[f]" "map fst es'" fs] by simp

lemma flags_append_draft:
  "subseq (map fst es) gs \<Longrightarrow> subseq (map fst es') fs \<Longrightarrow> subseq (map fst (es @ es')) (gs @ fs)"
  using list_emb_append_mono [of "(=)" "map fst es" gs "map fst es'" fs] by simp

lemma draft_entries_flags: "subseq (map fst (draft_entries show_f32 cfg gpu)) draft_flags"
  unfolding draft_entries_def draft_flags_def
  by (intro flags_append flags_if flags_pieces)

lemma settings_entries_flags: "subseq (map fst (settings_entries show_f32 cfg gpu)) settings_flags"
  unfolding settings_entries_def settings_flags_def append_Cons append_Nil
  by (intro flags_append flags_append_draft flags_if flags_pieces draft_entries_flags)

lemma settings_flags_distinct: "distinct settings_flags"
  by code_simp

lemma settings_flags_owned:
  "set settings_flags \<subseteq> set app_managed_server_args \<union> {''--cont-batching'', ''--no-webui''}"
  by code_simp

lemma flags_have_no_equals: "list_all (\<lambda>f. CHR ''='' \<notin> set f) settings_flags"
  by code_simp

section \<open>Settings left to the runtime\<close>

definition switch_flags :: "string list" where
  "switch_flags = [''--reasoning-preserve'', ''--no-reasoning-preserve'', ''--cont-batching'', ''--no-webui'']"

definition shaped :: "string \<times> string option \<Rightarrow> bool" where
  "shaped e \<longleftrightarrow> (snd e = None) = (fst e \<in> set switch_flags)"

lemma shaped_pieces:
  "list_all shaped (opt f v) = (f \<notin> set switch_flags)" "list_all shaped (switch f) = (f \<in> set switch_flags)"
  "f \<notin> set switch_flags \<Longrightarrow> list_all shaped (option_entry f w)"
  "list_all shaped es \<Longrightarrow> list_all shaped (args_if b es)"
  by (simp_all add: shaped_def opt_def switch_def option_entry_def args_if_def split: option.split)

lemma draft_entries_shaped: "list_all shaped (draft_entries show_f32 cfg gpu)"
  unfolding draft_entries_def list_all_append
  by (intro conjI shaped_pieces(3,4); simp add: shaped_pieces switch_flags_def)

lemma settings_entries_shaped: "list_all shaped (settings_entries show_f32 cfg gpu)"
  unfolding settings_entries_def list_all_append
  by (intro conjI shaped_pieces(3,4) draft_entries_shaped; simp add: shaped_pieces switch_flags_def)

definition filter_entry :: "app_config \<Rightarrow> string \<times> string option \<Rightarrow> (string \<times> string option) list" where
  "filter_entry cfg e =
     (case inherited_field cfg (fst e) of
        None \<Rightarrow> [e]
      | Some fd \<Rightarrow> option_entry (fst e) (map_option digits_of_nat (fd_app_default fd)))"

lemma filter_entry_simps:
  "inherited_field cfg f = None \<Longrightarrow> filter_entry cfg (f, v) = [(f, v)]"
  "inherited_field cfg f = Some fd \<Longrightarrow> filter_entry cfg (f, v) = option_entry f (map_option digits_of_nat (fd_app_default fd))"
  by (simp_all add: filter_entry_def)

text \<open>No value is spelled like a setting that is left to the runtime.\<close>

definition no_alias_values :: "app_config \<Rightarrow> (string \<times> string option) list \<Rightarrow> bool" where
  "no_alias_values cfg es \<longleftrightarrow>
     list_all (\<lambda>e. case snd e of None \<Rightarrow> True | Some v \<Rightarrow> inherited_field cfg (argument_name v) = None) es"

lemma catalogue_switches:
  "list_all (\<lambda>fd. list_all (\<lambda>a. fd_switch fd = (a \<in> set switch_flags)) (fd_args fd)) tuning_fields"
  by code_simp

lemma inherited_switch: "inherited_field cfg f = Some fd \<Longrightarrow> fd_switch fd = (f \<in> set switch_flags)"
  using inherited_field_Some [of cfg f fd] catalogue_switches unfolding list_all_iff by blast

lemma argument_name_flag: "CHR ''='' \<notin> set f \<Longrightarrow> argument_name f = f"
  by (auto simp: argument_name_def takeWhile_eq_all_conv)

lemma filter_flatten:
  assumes "list_all (\<lambda>e. CHR ''='' \<notin> set (fst e)) es" and "list_all shaped es" and "no_alias_values cfg es"
  shows "filter_args cfg (flatten es) = flatten (concat (map (filter_entry cfg) es))"
  using assms
proof (induction es rule: flatten.induct)
  case (2 f es)
  then have f: "argument_name f = f" and sw: "f \<in> set switch_flags" and eq: "CHR ''='' \<notin> set f"
    and IH: "filter_args cfg (flatten es) = flatten (concat (map (filter_entry cfg) es))"
    by (simp_all add: shaped_def no_alias_values_def argument_name_flag)
  show ?case
  proof (cases "inherited_field cfg f")
    case (Some fd)
    with inherited_switch sw have "fd_switch fd" by blast
    with Some app_defaults_take_values [of fd] inherited_field_Some [OF Some] have "fd_app_default fd = None"
      by (cases "fd_app_default fd") auto
    with Some f \<open>fd_switch fd\<close> IH show ?thesis by (simp add: filter_entry_simps(2) option_entry_def)
  qed (use f IH in \<open>simp add: filter_entry_simps(1)\<close>)
next
  case (3 f v es)
  then have f: "argument_name f = f" and sw: "f \<notin> set switch_flags" and eq: "CHR ''='' \<notin> set f"
    and v: "inherited_field cfg (argument_name v) = None"
    and IH: "filter_args cfg (flatten es) = flatten (concat (map (filter_entry cfg) es))"
    by (simp_all add: shaped_def no_alias_values_def argument_name_flag)
  show ?case
  proof (cases "inherited_field cfg f")
    case (Some fd)
    with inherited_switch sw have "\<not> fd_switch fd" by blast
    with Some f eq IH show ?thesis
      by (simp add: filter_entry_simps(2) option_entry_def opt_def split: option.split)
  qed (use f v IH in \<open>simp add: filter_entry_simps(1)\<close>)
qed simp

lemma subseq_members: "subseq xs ys \<Longrightarrow> set xs \<subseteq> set ys"
  by (auto elim: list_emb_set)

lemma filter_entry_flags: "subseq (map fst (concat (map (filter_entry cfg) es))) (map fst es)"
proof (induction es)
  case (Cons e es)
  have "subseq (map fst (filter_entry cfg e)) [fst e]"
    by (simp add: filter_entry_def option_entry_def opt_def split: option.split)
  with Cons list_emb_append_mono [of "(=)" "map fst (filter_entry cfg e)" "[fst e]"] show ?case by simp
qed simp

lemma filter_entry_inherited:
  assumes "e \<in> set (concat (map (filter_entry cfg) es))"
  shows "case inherited_field cfg (fst e) of
      None \<Rightarrow> e \<in> set es | Some fd \<Rightarrow> snd e = map_option digits_of_nat (fd_app_default fd) \<and> fd_app_default fd \<noteq> None"
proof -
  from assms obtain f v where x: "(f, v) \<in> set es" and e: "e \<in> set (filter_entry cfg (f, v))" by auto
  show ?thesis
  proof (cases "inherited_field cfg f")
    case None
    with x e show ?thesis by (simp add: filter_entry_simps)
  next
    case (Some fd)
    with e show ?thesis by (cases "fd_app_default fd") (simp_all add: filter_entry_simps option_entry_def opt_def)
  qed
qed

lemma first_entries:
  "\<exists>es. settings_entries show_f32 cfg gpu =
     opt ''--model'' (cf_active_model cfg) @ opt ''--host'' ''127.0.0.1'' @ opt ''--port'' (digits_of_nat (cf_port cfg)) @ es"
  unfolding settings_entries_def by (rule exI, rule refl)

lemma addresses_not_inherited:
  "inherited_field cfg ''--model'' = None" "inherited_field cfg ''--host'' = None" "inherited_field cfg ''--port'' = None"
proof -
  have "list_all (\<lambda>fd. list_all (\<lambda>a. a \<notin> {''--model'', ''--host'', ''--port''}) (fd_args fd)) tuning_fields"
    by code_simp
  then show "inherited_field cfg ''--model'' = None" "inherited_field cfg ''--host'' = None" "inherited_field cfg ''--port'' = None"
    by (auto simp: inherited_field_None list_all_iff)
qed

section \<open>Properties\<close>

text \<open>C7. The application's options reach the server once, and nothing overrides them. Unless a value
  is itself spelled like a setting that is left to the runtime, the command line is a list of
  distinct options with their values, then the user's arguments, none of which names an option the
  application owns; it starts with the selected model, the loopback address and the port, and a
  setting that is left to the runtime appears only with the application's own default. On the CPU
  backend that command line is the one whose placement is then replaced.\<close>

theorem command_line_owned:
  assumes "no_alias_values cfg (settings_entries show_f32 cfg gpu)"
  shows "\<exists>es. build_args_with_gpu show_f32 cfg gpu =
      (if cf_active_backend cfg = ''cpu'' then force_cpu_server (speculative_enabled cfg) else id)
        (flatten es @ unmanaged_args (cf_server_args cfg)) \<and>
    distinct (map fst es) \<and>
    set (map fst es) \<subseteq> set app_managed_server_args \<union> {''--cont-batching'', ''--no-webui''} \<and>
    take 3 es = [(''--model'', Some (cf_active_model cfg)), (''--host'', Some ''127.0.0.1''),
      (''--port'', Some (digits_of_nat (cf_port cfg)))] \<and>
    (\<forall>a \<in> set (unmanaged_args (cf_server_args cfg)). raw_name a \<notin> set app_managed_server_args) \<and>
    (\<forall>e \<in> set es. case inherited_field cfg (fst e) of
       None \<Rightarrow> e \<in> set (settings_entries show_f32 cfg gpu)
     | Some fd \<Rightarrow> snd e = map_option digits_of_nat (fd_app_default fd) \<and> fd_app_default fd \<noteq> None)"
proof -
  let ?es = "settings_entries show_f32 cfg gpu"
  let ?fs = "concat (map (filter_entry cfg) ?es)"
  note sub = settings_entries_flags [of show_f32 cfg gpu]
  have flags: "subseq (map fst ?fs) settings_flags"
    using filter_entry_flags sub by (rule subseq_order.order_trans)
  have "list_all (\<lambda>e. CHR ''='' \<notin> set (fst e)) ?es"
    using subseq_members [OF sub] flags_have_no_equals by (auto simp: list_all_iff)
  then have "filter_args cfg (settings_args show_f32 cfg gpu) = flatten ?fs"
    unfolding settings_args_flatten by (rule filter_flatten [OF _ settings_entries_shaped assms])
  then have "build_args_with_gpu show_f32 cfg gpu =
      (if cf_active_backend cfg = ''cpu'' then force_cpu_server (speculative_enabled cfg) else id)
        (flatten ?fs @ unmanaged_args (cf_server_args cfg))"
    by (simp add: build_args_with_gpu_def Let_def)
  moreover have "distinct (map fst ?fs)" using flags settings_flags_distinct by (metis distinct_nthsI subseq_conv_nths)
  moreover have "set (map fst ?fs) \<subseteq> set settings_flags" using flags by (rule subseq_members)
  then have "set (map fst ?fs) \<subseteq> set app_managed_server_args \<union> {''--cont-batching'', ''--no-webui''}"
    using settings_flags_owned by (rule subset_trans)
  moreover obtain rest where "?es = opt ''--model'' (cf_active_model cfg) @ opt ''--host'' ''127.0.0.1'' @
      opt ''--port'' (digits_of_nat (cf_port cfg)) @ rest" using first_entries by blast
  then have "take 3 ?fs = [(''--model'', Some (cf_active_model cfg)), (''--host'', Some ''127.0.0.1''),
      (''--port'', Some (digits_of_nat (cf_port cfg)))]"
    by (simp add: opt_def filter_entry_simps(1) addresses_not_inherited)
  moreover note unmanaged_none filter_entry_inherited
  ultimately show ?thesis by (intro exI [of _ ?fs]) blast
qed

definition demo_gpu :: resolved_gpu where "demo_gpu = resolved_none"

lemma demo_entries:
  "no_alias_values (config_default []) (settings_entries (\<lambda>_. []) (config_default []) demo_gpu)"
  unfolding no_alias_values_def
  by (simp add: list_all_iff config_default_def inherited_field_def inherited_def find_None_iff split: option.split)

theorem command_line_owned_witness:
  "\<exists>es. build_args_with_gpu (\<lambda>_. []) (config_default []) demo_gpu = flatten es @ unmanaged_args [] \<and> distinct (map fst es)"
  using command_line_owned [OF demo_entries] by (auto simp: config_default_def)

lemma first_error_ok: "first_error cs = Inr () \<longleftrightarrow> list_all (\<lambda>c. c = Inr ()) cs"
  by (induction cs) (auto split: sum.split)

declare first_error.simps [simp del]

text \<open>C25. A validated configuration reaches the server as the user wrote it. When validation accepts a
  configuration, dropping options the application owns from its raw arguments drops nothing: all of
  them, unchanged and in order, end the command line that the CPU placement may then rewrite.\<close>

theorem validated_args_verbatim:
  assumes "config_validate cd c = Inr ()" and "cfg = app_config.truncate c"
  shows "build_args_with_gpu show_f32 cfg gpu =
    (if cf_active_backend c = ''cpu'' then force_cpu_server (speculative_enabled cfg) else id)
      (filter_args cfg (settings_args show_f32 cfg gpu) @ cf_server_args c)"
proof -
  have "validate_fields cd c = Inr ()"
    using assms(1) by (simp add: config_validate_def Let_def first_error_ok)
  then have "check_server_args 0 0 (cf_server_args c) = Inr ()"
    by (simp add: validate_fields_def first_error_ok)
  then have "unmanaged_args (cf_server_args c) = cf_server_args c"
    by (intro unmanaged_all checked_args_unmanaged)
  moreover have "cf_server_args cfg = cf_server_args c" "cf_active_backend cfg = cf_active_backend c"
    by (simp_all add: assms(2) app_config.truncate_def)
  ultimately show ?thesis by (simp add: build_args_with_gpu_def Let_def)
qed

definition demo_codec :: codec where
  "demo_codec = \<lparr>cd_merge = (\<lambda>c _. Inr c), cd_snapshot = (\<lambda>_. []), cd_options_size = length,
     cd_providers_size = length\<rparr>"

definition demo_saved :: saved_config where
  "demo_saved = app_config.extend (config_default [])
     \<lparr>sc_chat_options = [], sc_provider_options = [], sc_recent_runtimes = [], sc_sessions = []\<rparr>"

theorem validated_args_verbatim_witness:
  "build_args_with_gpu (\<lambda>_. []) (app_config.truncate demo_saved) demo_gpu =
     filter_args (app_config.truncate demo_saved) (settings_args (\<lambda>_. []) (app_config.truncate demo_saved) demo_gpu)"
proof -
  have "trim ''llama.cpp'' = ''llama.cpp''" by (rule fallbacks_trimmed)
  then have "config_validate demo_codec demo_saved = Inr ()"
    by (simp add: config_validate_def Let_def validate_fields_def first_error_ok demo_saved_def app_config.defs
        config_default_def demo_codec_def refuse_if_def validate_provider_selection_def parse_provider_def
        bad_path_def placement_validate_def placement_default_def option_list_def current_config_version_def
        max_server_args_def max_chat_options_bytes_def max_provider_options_bytes_def)
  from validated_args_verbatim [OF this refl, of "\<lambda>_. []" demo_gpu] show ?thesis
    by (simp add: demo_saved_def app_config.defs config_default_def)
qed

end
