(* ===== verification/ModelScan.thy ===== *)
theory ModelScan
  imports EstimateFiles "HOL-Library.Multiset"
begin

text \<open>
  Finding models on disk, \<open>src-tauri/src/models.rs\<close>: the walk over the models directory with its limits,
  and grouping the shards of a split model into one entry.

  The directory tree is a \<open>tree_view\<close>: what \<open>canonicalize\<close>, \<open>is_dir\<close> and \<open>read_dir\<close> answer, with Unix
  paths. The cancellation flag is raised by another thread and never lowered: the number of checks
  that still find it low, or \<open>None\<close> if it stays low. A size is kept in bytes; the code's megabytes
  are an exact multiple of it up to \<open>2 ^ 53\<close> bytes.
\<close>

section \<open>Data\<close>

record model_shards =
  ms_files :: "string list"
  ms_total :: nat
  ms_missing :: "nat list"

record gguf_model =
  gm_name :: string
  gm_path :: string
  gm_size :: nat
  gm_vision :: bool
  gm_shards :: "model_shards option"

datatype file_kind = Symlink | Directory | RegularFile | OtherKind

record dir_entry =
  de_path :: string
  de_kind :: "file_kind option"
  de_length :: "nat option"

record tree_view =
  tv_canonical :: "string \<Rightarrow> string + string"
  tv_is_dir :: "string \<Rightarrow> bool"
  tv_entries :: "string \<Rightarrow> string + dir_entry option list"

record scan_progress =
  sp_patience :: "nat option"
  sp_entries :: nat
  sp_max_entries :: nat
  sp_visited :: "string list"
  sp_truncated :: bool

definition max_depth :: nat where "max_depth = 8"
definition max_models :: nat where "max_models = 10000"
definition max_entries :: nat where "max_entries = 100000"

section \<open>Cancellation\<close>

definition scan_cancelled :: string where "scan_cancelled = ''model scan cancelled''"

fun check_flag :: "nat option \<Rightarrow> string + nat option" where
  "check_flag None = Inr None"
| "check_flag (Some 0) = Inl scan_cancelled"
| "check_flag (Some (Suc n)) = Inr (Some n)"

definition check_progress :: "scan_progress \<Rightarrow> string + scan_progress" where
  "check_progress pg = bind_r (check_flag (sp_patience pg)) (\<lambda>p. Inr (pg\<lparr>sp_patience := p\<rparr>))"

section \<open>The walk\<close>

definition is_gguf :: "string \<Rightarrow> bool" where
  "is_gguf path \<longleftrightarrow>
     (case path_extension path of None \<Rightarrow> False | Some e \<Rightarrow> eq_ignore_ascii_case e ''gguf'')"

definition found_model_at :: "string \<Rightarrow> nat \<Rightarrow> gguf_model" where
  "found_model_at path len =
     (let n = (case path_file_name path of None \<Rightarrow> [] | Some f \<Rightarrow> from_utf8_lossy f) in
      \<lparr>gm_name = n, gm_path = from_utf8_lossy path, gm_size = len,
       gm_vision = contains_sub ''mmproj'' (map to_ascii_lowercase n), gm_shards = None\<rparr>)"

definition limits_reached :: "gguf_model list \<Rightarrow> scan_progress \<Rightarrow> bool" where
  "limits_reached models pg \<longleftrightarrow> length models \<ge> max_models \<or> sp_entries pg \<ge> sp_max_entries pg"

text \<open>The first argument counts the directory levels that may still be entered.\<close>

function walk ::
  "nat \<Rightarrow> tree_view \<Rightarrow> string \<Rightarrow> gguf_model list \<Rightarrow> scan_progress \<Rightarrow> string + (gguf_model list \<times> scan_progress)"
and walk_entries ::
  "nat \<Rightarrow> tree_view \<Rightarrow> dir_entry option list \<Rightarrow> gguf_model list \<Rightarrow> scan_progress \<Rightarrow>
   string + (gguf_model list \<times> scan_progress)" where
  "walk levels tv dir models pg =
     bind_r (check_progress pg) (\<lambda>pg.
     case levels of
       0 \<Rightarrow> Inr (models, pg\<lparr>sp_truncated := True\<rparr>)
     | Suc levels \<Rightarrow>
         if limits_reached models pg then Inr (models, pg\<lparr>sp_truncated := True\<rparr>)
         else
           (case tv_canonical tv dir of
              Inl e \<Rightarrow> Inl (''cannot read models directory '' @ dir @ '': '' @ e)
            | Inr canonical \<Rightarrow>
                if canonical \<in> set (sp_visited pg) then Inr (models, pg)
                else
                  (case tv_entries tv canonical of
                     Inl e \<Rightarrow> Inl (''cannot enumerate models directory '' @ canonical @ '': '' @ e)
                   | Inr entries \<Rightarrow>
                       walk_entries levels tv entries models (pg\<lparr>sp_visited := canonical # sp_visited pg\<rparr>))))"
| "walk_entries levels tv [] models pg = Inr (models, pg)"
| "walk_entries levels tv (e # es) models pg =
     bind_r (check_progress pg) (\<lambda>pg.
     if limits_reached models pg then Inr (models, pg\<lparr>sp_truncated := True\<rparr>)
     else
       (let pg = pg\<lparr>sp_entries := sp_entries pg + 1\<rparr> in
        case e of
          None \<Rightarrow> walk_entries levels tv es models pg
        | Some de \<Rightarrow>
            if de_kind de = Some Directory then
              bind_r (walk levels tv (de_path de) models pg) (\<lambda>(models, pg).
              walk_entries levels tv es models pg)
            else if de_kind de = Some RegularFile \<and> is_gguf (de_path de) then
              (case de_length de of
                 None \<Rightarrow> walk_entries levels tv es models pg
               | Some len \<Rightarrow> walk_entries levels tv es (models @ [found_model_at (de_path de) len]) pg)
            else walk_entries levels tv es models pg))"
  by pat_completeness auto
termination
  by (relation "measures [\<lambda>x. case x of Inl (l, _) \<Rightarrow> 2 * l | Inr (l, _) \<Rightarrow> 2 * l + 1,
        \<lambda>x. case x of Inl _ \<Rightarrow> 0 | Inr (_, _, es, _) \<Rightarrow> length es]") auto

declare walk.simps [simp del] walk_entries.simps(2) [simp del]

section \<open>Grouping shards\<close>

type_synonym group_key = "string list \<times> string \<times> nat"

definition key_less :: "group_key \<Rightarrow> group_key \<Rightarrow> bool" where
  "key_less a b \<longleftrightarrow>
     (case (a, b) of ((p, s, n), (q, t, m)) \<Rightarrow> p < q \<or> p = q \<and> (s < t \<or> s = t \<and> n < m))"

fun group_insert :: "group_key \<Rightarrow> 'v \<Rightarrow> (group_key \<times> 'v list) list \<Rightarrow> (group_key \<times> 'v list) list" where
  "group_insert k v [] = [(k, [v])]"
| "group_insert k v ((k', vs) # gs) =
     (if k = k' then (k', vs @ [v]) # gs
      else if key_less k k' then (k, [v]) # (k', vs) # gs
      else (k', vs) # group_insert k v gs)"

fun split_files ::
  "nat option \<Rightarrow> gguf_model list \<Rightarrow> (group_key \<times> (nat \<times> gguf_model) list) list \<Rightarrow> gguf_model list \<Rightarrow>
   string + ((group_key \<times> (nat \<times> gguf_model) list) list \<times> gguf_model list \<times> nat option)" where
  "split_files p models groups [] = Inr (groups, models, p)"
| "split_files p models groups (f # fs) =
     bind_r (check_flag p) (\<lambda>p.
     case shard_name (gm_name f) of
       None \<Rightarrow> split_files p (models @ [f]) groups fs
     | Some (base, index, total1) \<Rightarrow>
         split_files p models
           (group_insert (path_components (path_parent (gm_path f)), base, total1) (index, f) groups) fs)"

fun find_missing :: "nat option \<Rightarrow> nat list \<Rightarrow> nat list \<Rightarrow> string + (nat list \<times> nat option)" where
  "find_missing p present [] = Inr ([], p)"
| "find_missing p present (i # is1) =
     bind_r (check_flag p) (\<lambda>p.
     bind_r (find_missing p present is1) (\<lambda>(rest, p).
     Inr (if i \<in> set present then rest else i # rest, p)))"

definition merge_group ::
  "nat option \<Rightarrow> group_key \<times> (nat \<times> gguf_model) list \<Rightarrow> string + (gguf_model \<times> nat option)" where
  "merge_group p g =
     (case g of ((_, base, total1), parts) \<Rightarrow>
        bind_r (check_flag p) (\<lambda>p.
        let parts = sort_key fst parts in
        bind_r (check_flag p) (\<lambda>p.
        bind_r (find_missing p (map fst parts) [1..<total1 + 1]) (\<lambda>(missing, p).
        Inr ((snd (hd parts))\<lparr>gm_name := base @ ''.gguf'',
               gm_size := sum_list (map (\<lambda>q. gm_size (snd q)) parts),
               gm_shards := Some \<lparr>ms_files = map (\<lambda>q. gm_path (snd q)) parts, ms_total = total1,
                                  ms_missing = missing\<rparr>\<rparr>, p)))))"

fun merge_groups ::
  "nat option \<Rightarrow> (group_key \<times> (nat \<times> gguf_model) list) list \<Rightarrow> string + (gguf_model list \<times> nat option)" where
  "merge_groups p [] = Inr ([], p)"
| "merge_groups p (g # gs) =
     bind_r (merge_group p g) (\<lambda>(m, p). bind_r (merge_groups p gs) (\<lambda>(ms, p). Inr (m # ms, p)))"

definition group_shards :: "nat option \<Rightarrow> gguf_model list \<Rightarrow> string + (gguf_model list \<times> nat option)" where
  "group_shards p fs =
     bind_r (check_flag p) (\<lambda>p.
     bind_r (split_files p [] [] fs) (\<lambda>(groups, models, p).
     bind_r (merge_groups p groups) (\<lambda>(merged, p). Inr (models @ merged, p))))"

section \<open>The scan\<close>

text \<open>Larger models first, then by name; equal models keep their order.\<close>

definition model_before :: "gguf_model \<Rightarrow> gguf_model \<Rightarrow> bool" where
  "model_before a b \<longleftrightarrow> gm_size b < gm_size a \<or> gm_size a = gm_size b \<and> gm_name a \<le> gm_name b"

fun insert_model :: "gguf_model \<Rightarrow> gguf_model list \<Rightarrow> gguf_model list" where
  "insert_model m [] = [m]"
| "insert_model m (x # xs) = (if model_before m x then m # x # xs else x # insert_model m xs)"

definition sort_models :: "gguf_model list \<Rightarrow> gguf_model list" where
  "sort_models ms = foldr insert_model ms []"

record model_scan =
  sc_models :: "gguf_model list"
  sc_truncated :: bool

definition scan_with_limits :: "tree_view \<Rightarrow> string \<Rightarrow> nat option \<Rightarrow> nat \<Rightarrow> string + model_scan" where
  "scan_with_limits tv models_dir patience entries =
     bind_r (check_progress \<lparr>sp_patience = patience, sp_entries = 0, sp_max_entries = entries, sp_visited = [],
                             sp_truncated = False\<rparr>) (\<lambda>pg.
     let root = trim models_dir in
     if root = [] then Inl ''models directory is empty''
     else
       (case tv_canonical tv root of
          Inl e \<Rightarrow> Inl (''cannot open models directory '' @ root @ '': '' @ e)
        | Inr canonical \<Rightarrow>
            if \<not> tv_is_dir tv canonical then Inl (''models path is not a directory: '' @ canonical)
            else
              bind_r (walk (max_depth + 1) tv canonical [] pg) (\<lambda>(models, pg).
              bind_r (check_progress pg) (\<lambda>pg.
              bind_r (group_shards (sp_patience pg) models) (\<lambda>(grouped, p).
              bind_r (check_flag p) (\<lambda>_.
              Inr \<lparr>sc_models = sort_models grouped, sc_truncated = sp_truncated pg\<rparr>))))))"

definition scan_cancellable :: "tree_view \<Rightarrow> string \<Rightarrow> nat option \<Rightarrow> string + model_scan" where
  "scan_cancellable tv models_dir patience = scan_with_limits tv models_dir patience max_entries"

section \<open>Before a launch\<close>

definition validate_model_shards :: "(string \<Rightarrow> bool) \<Rightarrow> string \<Rightarrow> string + unit" where
  "validate_model_shards is_file path =
     (case Option.bind (Option.bind (path_file_name path) from_utf8) shard_name of
        None \<Rightarrow> Inr ()
      | Some (base, index, total1) \<Rightarrow>
          if index \<noteq> 1 then Inl ''select the first GGUF shard before starting the model''
          else
            (let extension = (case path_extension path of None \<Rightarrow> ''gguf'' | Some e \<Rightarrow> e);
                 shard = (\<lambda>i. path_join (path_parent path) (shard_file base i total1 extension))
             in case find (\<lambda>i. \<not> is_file (shard i)) [1..<total1 + 1] of
                  None \<Rightarrow> Inr ()
                | Some i \<Rightarrow> Inl (''model shard is missing: '' @ shard i)))"

section \<open>Names of shards\<close>

definition padded :: "nat \<Rightarrow> nat \<Rightarrow> string" where
  "padded n v = replicate (n - length (digits_of_nat v)) CHR ''0'' @ digits_of_nat v"

lemma pad5_padded: "pad5 v = padded 5 v"
  by (simp add: pad5_def padded_def Let_def)

lemma digits_value_snoc: "digits_value (s @ [c]) = 10 * digits_value s + (code c - 48)"
  by (simp add: digits_value_def)

lemma digit_char: "is_ascii_digit c \<Longrightarrow> char_of (48 + (code c - 48)) = c \<and> code c - 48 < 10"
  by (auto simp: is_ascii_digit_def code_def)

lemma padded_snoc:
  assumes "0 < n" and "d < 10"
  shows "padded (Suc n) (10 * v + d) = padded n v @ [char_of (48 + d)]"
proof (cases "v = 0")
  case True
  then have "digits_of_nat (10 * v + d) = [char_of (48 + d)]" "digits_of_nat v = [CHR ''0'']"
    using assms(2) by (simp_all add: digits_of_nat.simps [of d] digits_of_nat.simps [of 0] char_of_def bit_0)
  with assms show ?thesis by (simp add: padded_def True replicate_append_same [symmetric] Suc_diff_le)
    (metis Suc_pred replicate_Suc replicate_append_same)
next
  case False
  then have "digits_of_nat (10 * v + d) = digits_of_nat v @ [char_of (48 + d)]"
    using assms(2) by (subst digits_of_nat.simps) simp
  then show ?thesis by (simp add: padded_def)
qed

lemma padded_value:
  assumes "list_all is_ascii_digit s" and "s \<noteq> []"
  shows "padded (length s) (digits_value s) = s \<and> digits_value s < 10 ^ length s"
  using assms
proof (induction s rule: rev_induct)
  case (snoc c s)
  then have c: "is_ascii_digit c" and s: "list_all is_ascii_digit s" by simp_all
  note d = digit_char [OF c]
  show ?case
  proof (cases "s = []")
    case True
    have "digits_value [c] = code c - 48" by (simp add: digits_value_def)
    with d True show ?thesis by (simp add: padded_def digits_of_nat.simps [of "code c - 48"])
  next
    case False
    with snoc s have IH: "padded (length s) (digits_value s) = s" "digits_value s < 10 ^ length s" by simp_all
    have "padded (length (s @ [c])) (digits_value (s @ [c])) = s @ [c]"
      using padded_snoc [of "length s" "code c - 48" "digits_value s"] d False IH(1) by (simp add: digits_value_snoc)
    moreover have "digits_value (s @ [c]) < 10 ^ length (s @ [c])"
      using IH(2) d by (simp add: digits_value_snoc)
    ultimately show ?thesis by blast
  qed
qed simp

lemma digits_value_digits: "digits_value (digits_of_nat v) = v"
proof (induction v rule: digits_of_nat.induct)
  case (1 v)
  show ?case
  proof (cases "v < 10")
    case True
    then show ?thesis by (subst digits_of_nat.simps) (simp add: digits_value_def)
  next
    case False
    then show ?thesis using 1 by (subst digits_of_nat.simps) (simp add: digits_value_snoc)
  qed
qed

lemma digits_value_zeros: "digits_value (replicate k CHR ''0'' @ s) = digits_value s"
proof -
  have "code CHR ''0'' = 48" by (simp add: code_def)
  then show ?thesis by (induction k) (simp_all add: digits_value_def)
qed

lemma digits_of_nat_length: "0 < n \<Longrightarrow> v < 10 ^ n \<Longrightarrow> length (digits_of_nat v) \<le> n"
proof (induction n arbitrary: v)
  case (Suc n)
  show ?case
  proof (cases "v < 10")
    case True
    then show ?thesis by (subst digits_of_nat.simps) simp
  next
    case False
    with Suc(3) have "0 < n" by (cases n) auto
    moreover have "v div 10 < 10 ^ n" using Suc(3) by (simp add: less_mult_imp_div_less mult.commute)
    ultimately show ?thesis using Suc(1) False by (subst digits_of_nat.simps) simp
  qed
qed simp

lemma padded_five:
  assumes "v < 100000"
  shows "five_digits (pad5 v)" and "digits_value (pad5 v) = v"
proof -
  have "length (digits_of_nat v) \<le> 5" using assms by (intro digits_of_nat_length) simp_all
  moreover have "is_ascii_digit CHR ''0''" by (simp add: is_ascii_digit_def code_def)
  ultimately show "five_digits (pad5 v)"
    by (auto simp: five_digits_def pad5_padded padded_def list_all_iff digits_of_nat_digits)
  show "digits_value (pad5 v) = v" by (simp add: pad5_padded padded_def digits_value_zeros digits_value_digits)
qed

lemma five_digits_parse:
  assumes "five_digits s"
  shows "parse_unsigned (2 ^ 64) s = Some (digits_value s)" and "pad5 (digits_value s) = s"
    and "digits_value s < 100000" and "CHR ''-'' \<notin> set s"
proof -
  have s: "s \<noteq> []" "list_all is_ascii_digit s" "length s = 5" using assms by (auto simp: five_digits_def)
  from padded_value [OF s(2,1)] s(3) show "pad5 (digits_value s) = s" and v: "digits_value s < 100000"
    by (simp_all add: pad5_padded)
  show "CHR ''-'' \<notin> set s" using s(2) minus_no_digit by (auto simp: list_all_iff)
  obtain c r where c: "s = c # r" "is_ascii_digit c" using s by (cases s) auto
  have "c \<noteq> CHR ''+''" using c(2) by (auto simp: is_ascii_digit_def code_def)
  then show "parse_unsigned (2 ^ 64) s = Some (digits_value s)"
    using s v c by (simp add: parse_unsigned_def)
qed

lemma rsplit_sub_at:
  assumes "p \<noteq> []" and "last p \<notin> set t"
  shows "rsplit_sub p (a @ p @ t) = Some (a, t)"
proof -
  have "find_sub (rev p) (rev t @ rev p @ rev a) = Some (length (rev t))"
    by (rule find_sub_at) (use assms in \<open>simp_all add: hd_rev\<close>)
  then show ?thesis by (simp add: rsplit_sub_def split_sub_def)
qed

lemma rsplit_sub_Some:
  assumes "rsplit_sub p s = Some (a, t)" and "p \<noteq> []"
  shows "s = a @ p @ t"
proof -
  from assms(1) have "split_sub (rev p) (rev s) = Some (rev t, rev a)" by (auto simp: rsplit_sub_def)
  from split_sub_Some [OF this] assms(2) have "rev s = rev t @ rev p @ rev a" by simp
  then show ?thesis by (metis append.assoc rev_append rev_rev_ident)
qed

lemma gguf_no_dot: "eq_ignore_ascii_case e ''gguf'' \<Longrightarrow> CHR ''.'' \<notin> set e"
proof
  assume e: "eq_ignore_ascii_case e ''gguf''" and "CHR ''.'' \<in> set e"
  then have "to_ascii_lowercase CHR ''.'' \<in> set (map to_ascii_lowercase ''gguf'')"
    unfolding eq_ignore_ascii_case_def by (metis image_eqI set_map)
  then show False by (simp add: to_ascii_lowercase_def code_def char_of_def bit_0)
qed

lemma shard_name_file:
  assumes "eq_ignore_ascii_case e ''gguf''" and "base \<noteq> []" and "1 < n" "n < 100000" "0 < i" "i \<le> n"
  shows "shard_name (shard_file base i n e) = Some (base, i, n)"
proof -
  have i: "i < 100000" using assms by simp
  note pi = padded_five [OF i] and pn = padded_five [OF assms(4)]
  have "rsplit_once CHR ''.'' (shard_file base i n e) = Some (base @ ''-'' @ pad5 i @ ''-of-'' @ pad5 n, e)"
    using gguf_no_dot [OF assms(1)] by (simp add: shard_file_def rsplit_once_Some_iff)
  moreover have "rsplit_sub ''-of-'' (base @ ''-'' @ pad5 i @ ''-of-'' @ pad5 n) = Some (base @ ''-'' @ pad5 i, pad5 n)"
    using rsplit_sub_at [of "''-of-''" "pad5 n" "base @ ''-'' @ pad5 i"] five_digits_parse(4) [OF pn(1)] by simp
  moreover have "rsplit_once CHR ''-'' (base @ ''-'' @ pad5 i) = Some (base, pad5 i)"
    using five_digits_parse(4) [OF pi(1)] by (simp add: rsplit_once_Some_iff)
  ultimately show ?thesis
    using assms pi pn five_digits_parse(1) [OF pi(1)] five_digits_parse(1) [OF pn(1)] by (simp add: shard_name_def)
qed

text \<open>C39. The names of shards are exactly the names the application writes for them: a file name is read
  as shard \<open>i\<close> of \<open>n\<close> of a model when, and only when, it is the name generated for that shard under
  some spelling of the extension, with 1 < n < 100000 and 0 < i <= n.\<close>

theorem shard_name_roundtrip:
  "shard_name file_name = Some (base, i, n) \<longleftrightarrow>
     (\<exists>extension. file_name = shard_file base i n extension \<and> eq_ignore_ascii_case extension ''gguf'') \<and>
     base \<noteq> [] \<and> 1 < n \<and> n < 100000 \<and> 0 < i \<and> i \<le> n"
proof
  assume "shard_name file_name = Some (base, i, n)"
  then obtain stem e pre nt it where e: "rsplit_once CHR ''.'' file_name = Some (stem, e)" "eq_ignore_ascii_case e ''gguf''"
    and nt: "rsplit_sub ''-of-'' stem = Some (pre, nt)" and it: "rsplit_once CHR ''-'' pre = Some (base, it)"
    and b: "base \<noteq> []" and five: "five_digits it" "five_digits nt"
    and i: "parse_unsigned (2 ^ 64) it = Some i" and n: "parse_unsigned (2 ^ 64) nt = Some n"
    and r: "1 < n" "0 < i" "i \<le> n"
    by (auto simp: shard_name_def split: Option.bind_splits if_splits)
  from e(1) it have "file_name = stem @ CHR ''.'' # e" "pre = base @ CHR ''-'' # it"
    by (simp_all add: rsplit_once_Some_iff)
  moreover have "stem = pre @ ''-of-'' @ nt" using rsplit_sub_Some [OF nt] by simp
  moreover have "it = pad5 i" "nt = pad5 n" "n < 100000"
    using five_digits_parse [OF five(1)] five_digits_parse [OF five(2)] i n by simp_all
  ultimately show "(\<exists>extension. file_name = shard_file base i n extension \<and> eq_ignore_ascii_case extension ''gguf'') \<and>
      base \<noteq> [] \<and> 1 < n \<and> n < 100000 \<and> 0 < i \<and> i \<le> n"
    using e(2) b r by (auto simp: shard_file_def)
qed (auto simp: shard_name_file)

section \<open>Grouping keeps every file\<close>

definition member_files :: "gguf_model \<Rightarrow> string list" where
  "member_files m = (case gm_shards m of None \<Rightarrow> [gm_path m] | Some sh \<Rightarrow> ms_files sh)"

abbreviation grouped_files :: "(group_key \<times> (nat \<times> gguf_model) list) list \<Rightarrow> (nat \<times> gguf_model) list" where
  "grouped_files groups \<equiv> concat (map snd groups)"

text \<open>Each part of a group carries the group's directory, base name and number of shards; no two groups
  share all three.\<close>

definition part_of :: "group_key \<Rightarrow> nat \<times> gguf_model \<Rightarrow> bool" where
  "part_of k q \<longleftrightarrow> (case (k, q) of ((d, base, n), (i, f)) \<Rightarrow>
     shard_name (gm_name f) = Some (base, i, n) \<and> path_components (path_parent (gm_path f)) = d)"

definition well_grouped :: "(group_key \<times> (nat \<times> gguf_model) list) list \<Rightarrow> bool" where
  "well_grouped groups \<longleftrightarrow> (\<forall>(k, parts) \<in> set groups. parts \<noteq> [] \<and> list_all (part_of k) parts) \<and>
     sorted_wrt key_less (map fst groups)"

lemma well_grouped_simps [simp]:
  "well_grouped []"
  "well_grouped ((k, parts) # gs) \<longleftrightarrow> parts \<noteq> [] \<and> list_all (part_of k) parts \<and>
     (\<forall>k' \<in> fst ` set gs. key_less k k') \<and> well_grouped gs"
  by (auto simp: well_grouped_def)

lemma key_less_trans: "key_less a b \<Longrightarrow> key_less b c \<Longrightarrow> key_less a c"
  by (auto simp: key_less_def split: prod.splits)

lemma key_less_total: "a \<noteq> b \<Longrightarrow> \<not> key_less a b \<Longrightarrow> key_less b a"
  by (auto simp: key_less_def split: prod.splits)

lemma key_less_irrefl: "\<not> key_less a a"
  by (auto simp: key_less_def split: prod.splits)

lemma group_insert_files: "mset (grouped_files (group_insert k v gs)) = add_mset v (mset (grouped_files gs))"
  by (induction k v gs rule: group_insert.induct) auto

lemma group_insert_keys: "fst ` set (group_insert k v gs) = insert k (fst ` set gs)"
  by (induction k v gs rule: group_insert.induct) auto

lemma group_insert_well_grouped: "well_grouped gs \<Longrightarrow> part_of k v \<Longrightarrow> well_grouped (group_insert k v gs)"
proof (induction k v gs rule: group_insert.induct)
  case (2 k v k' vs gs)
  consider "k = k'" | "k \<noteq> k'" "key_less k k'" | "k \<noteq> k'" "\<not> key_less k k'" by blast
  then show ?case
  proof cases
    case 2
    with "2.prems" show ?thesis by (auto intro: key_less_trans)
  next
    case 3
    with "2.prems" "2.IH" key_less_total [of k k'] show ?thesis by (auto simp: group_insert_keys)
  qed (use "2.prems" in simp)
qed simp

lemma split_files_accounts:
  assumes "split_files p models groups fs = Inr (groups', models', p')" and "well_grouped groups"
  shows "well_grouped groups' \<and>
    mset models' + mset (map snd (grouped_files groups')) = mset models + mset (map snd (grouped_files groups)) + mset fs \<and>
    set models' \<subseteq> set models \<union> {f \<in> set fs. shard_name (gm_name f) = None}"
  using assms
proof (induction p models groups fs rule: split_files.induct)
  case (2 p models groups f fs)
  from "2.prems"(1) obtain q where q: "check_flag p = Inr q" by (auto simp: bind_r_Inr_iff)
  show ?case
  proof (cases "shard_name (gm_name f)")
    case None
    with "2.prems" "2.IH"(1) [OF None] show ?thesis by (auto simp: q)
  next
    case (Some t)
    then obtain base i n where t: "shard_name (gm_name f) = Some (base, i, n)" by (cases t) auto
    define k where "k = (path_components (path_parent (gm_path f)), base, n)"
    have w: "well_grouped (group_insert k (i, f) groups)"
      using "2.prems"(2) t by (intro group_insert_well_grouped) (auto simp: part_of_def k_def)
    have m: "mset (map snd (grouped_files (group_insert k (i, f) groups))) = add_mset f (mset (map snd (grouped_files groups)))"
      by (simp only: mset_map group_insert_files) simp
    have r: "split_files q models (group_insert k (i, f) groups) fs = Inr (groups', models', p')"
      using "2.prems"(1) by (simp add: q t k_def)
    from "2.IH"(2) [OF t refl refl, folded k_def, OF r w] m show ?thesis by auto
  qed
qed simp

lemma find_missing_filter: "find_missing p present is1 = Inr (r, p') \<Longrightarrow> r = filter (\<lambda>i. i \<notin> set present) is1"
  by (induction p present is1 arbitrary: r p' rule: find_missing.induct) (auto simp: bind_r_Inr_iff)

definition merged_model :: "group_key \<times> (nat \<times> gguf_model) list \<Rightarrow> gguf_model" where
  "merged_model g = (let parts = sort_key fst (snd g); n = snd (snd (fst g)) in
     (snd (hd parts))\<lparr>gm_name := fst (snd (fst g)) @ ''.gguf'', gm_size := sum_list (map (\<lambda>q. gm_size (snd q)) parts),
        gm_shards := Some \<lparr>ms_files = map (\<lambda>q. gm_path (snd q)) parts, ms_total = n,
                           ms_missing = filter (\<lambda>i. i \<notin> fst ` set parts) [1..<n + 1]\<rparr>\<rparr>)"

lemma merge_groups_merged: "merge_groups p gs = Inr (ms, p') \<Longrightarrow> ms = map merged_model gs"
proof (induction gs arbitrary: p ms)
  case (Cons g gs)
  then obtain m q ms' where m: "merge_group p g = Inr (m, q)" and r: "merge_groups q gs = Inr (ms', p')" "ms = m # ms'"
    by (auto simp: bind_r_Inr_iff)
  from m have "m = merged_model g"
    by (auto simp: merge_group_def merged_model_def Let_def bind_r_Inr_iff split: prod.splits
        dest!: find_missing_filter simp del: upt_Suc)
  with Cons.IH [OF r(1)] r(2) show ?case by simp
qed simp

lemma merged_model_sel:
  "gm_name (merged_model ((d, base, n), parts)) = base @ ''.gguf''"
  "gm_shards (merged_model ((d, base, n), parts)) =
     Some \<lparr>ms_files = map (\<lambda>q. gm_path (snd q)) (sort_key fst parts), ms_total = n,
           ms_missing = filter (\<lambda>i. i \<notin> fst ` set parts) [1..<n + 1]\<rparr>"
  by (simp_all add: merged_model_def Let_def del: upt_Suc)

lemma merged_files:
  "mset (concat (map member_files (map merged_model gs))) = mset (map gm_path (map snd (grouped_files gs)))"
  by (induction gs) (simp_all add: member_files_def merged_model_def Let_def image_mset.compositionality comp_def del: upt_Suc)

lemma merged_size: "gm_size (merged_model g) = sum_list (map (\<lambda>q. gm_size (snd q)) (snd g))"
proof -
  have "mset (map (\<lambda>q. gm_size (snd q)) (sort_key fst (snd g))) = mset (map (\<lambda>q. gm_size (snd q)) (snd g))" by simp
  then have "sum_list (map (\<lambda>q. gm_size (snd q)) (sort_key fst (snd g))) = sum_list (map (\<lambda>q. gm_size (snd q)) (snd g))"
    by (metis sum_mset_sum_list)
  then show ?thesis by (simp add: merged_model_def Let_def)
qed

lemma merged_sizes:
  "sum_list (map gm_size (map merged_model gs)) = sum_list (map gm_size (map snd (grouped_files gs)))"
  by (induction gs) (simp_all add: merged_size comp_def)

lemma group_shards_split:
  assumes "group_shards p fs = Inr (models, p')"
  obtains groups singles where "well_grouped groups" "models = singles @ map merged_model groups"
    "mset singles + mset (map snd (grouped_files groups)) = mset fs"
    "set singles \<subseteq> {f \<in> set fs. shard_name (gm_name f) = None}"
proof -
  from assms obtain q groups singles r merged where
    s: "split_files q [] [] fs = Inr (groups, singles, r)" and m: "merge_groups r groups = Inr (merged, p')"
    and "models = singles @ merged"
    by (auto simp: group_shards_def bind_r_Inr_iff)
  then show thesis
    using that [of groups singles] split_files_accounts [OF s] merge_groups_merged [OF m] by simp
qed

lemma well_grouped_unique:
  "well_grouped gs \<Longrightarrow> (k, ps) \<in> set gs \<Longrightarrow> (k, qs) \<in> set gs \<Longrightarrow> ps = qs"
proof (induction gs)
  case (Cons g gs)
  have "key_less k k" if "(k, rs) \<in> set gs" "fst g = k" for rs
    using Cons.prems(1) that by (cases g) force
  with Cons show ?case by (cases g) (auto simp: key_less_irrefl)
qed simp

text \<open>A file named as a shard of a group, in the group's directory, is one of the group's parts.\<close>

lemma in_group_iff:
  assumes w: "well_grouped groups" and g: "((d, base, n), parts) \<in> set groups"
    and fs: "mset singles + mset (map snd (grouped_files groups)) = mset fs"
    and single: "set singles \<subseteq> {f \<in> set fs. shard_name (gm_name f) = None}"
  shows "i \<in> fst ` set parts \<longleftrightarrow>
    (\<exists>f \<in> set fs. gm_path f \<in> (\<lambda>q. gm_path (snd q)) ` set parts \<and> shard_name (gm_name f) = Some (base, i, n))"
proof -
  have all: "set fs = set singles \<union> snd ` set (grouped_files groups)"
    using arg_cong [OF fs, of set_mset] by simp
  have part: "part_of k q" if "(k, ps) \<in> set groups" "q \<in> set ps" for k ps q
    using w that by (auto simp: well_grouped_def list_all_iff)
  show ?thesis
  proof
    assume "i \<in> fst ` set parts"
    then obtain f where "(i, f) \<in> set parts" by auto
    with part [OF g this] all g show "\<exists>f \<in> set fs. gm_path f \<in> (\<lambda>q. gm_path (snd q)) ` set parts \<and>
        shard_name (gm_name f) = Some (base, i, n)"
      by (intro bexI [of _ f]) (force simp: part_of_def)+
  next
    assume "\<exists>f \<in> set fs. gm_path f \<in> (\<lambda>q. gm_path (snd q)) ` set parts \<and> shard_name (gm_name f) = Some (base, i, n)"
    then obtain f j f' where f: "f \<in> set fs" "shard_name (gm_name f) = Some (base, i, n)"
      and f': "(j, f') \<in> set parts" "gm_path f = gm_path f'" by auto
    have "f \<notin> set singles" using single f(2) by auto
    with f(1) all obtain k ps j' where ps: "(k, ps) \<in> set groups" "(j', f) \<in> set ps" by auto
    have "path_components (path_parent (gm_path f)) = d" using part [OF g f'(1)] f'(2) by (simp add: part_of_def)
    then have "k = (d, base, n)" "j' = i" using part [OF ps] f(2) by (cases k, simp add: part_of_def)+
    with ps g w show "i \<in> fst ` set parts" using well_grouped_unique by force
  qed
qed

text \<open>C21. Grouping neither loses nor repeats a file: the paths and the sizes of the grouped entries are those
  of the files found, and an entry with n shards lists, as its missing ones, exactly the numbers among
  1, ..., n for which no file of the entry carries the name of that shard.\<close>

theorem grouping_accounts_for_files:
  assumes found: "\<forall>f \<in> set fs. gm_shards f = None"
    and ok: "group_shards p fs = Inr (models, p')"
  shows "mset (concat (map member_files models)) = mset (map gm_path fs) \<and>
    sum_list (map gm_size models) = sum_list (map gm_size fs) \<and>
    (\<forall>m \<in> set models. \<forall>sh. gm_shards m = Some sh \<longrightarrow>
       (\<exists>base. gm_name m = base @ ''.gguf'' \<and>
          (\<forall>i. i \<in> set (ms_missing sh) \<longleftrightarrow> 1 \<le> i \<and> i \<le> ms_total sh \<and>
             \<not> (\<exists>f \<in> set fs. gm_path f \<in> set (ms_files sh) \<and> shard_name (gm_name f) = Some (base, i, ms_total sh)))))"
proof -
  from ok obtain groups singles where w: "well_grouped groups" and m: "models = singles @ map merged_model groups"
    and fs: "mset singles + mset (map snd (grouped_files groups)) = mset fs"
    and single: "set singles \<subseteq> {f \<in> set fs. shard_name (gm_name f) = None}" by (rule group_shards_split)
  have plain: "member_files f = [gm_path f]" if "f \<in> set singles" for f
    using that single found by (auto simp: member_files_def)
  have "concat (map member_files singles) = map gm_path singles" using plain by (induction singles) simp_all
  then have "mset (concat (map member_files models)) = image_mset gm_path (mset singles + mset (map snd (grouped_files groups)))"
    using merged_files [of groups] by (simp add: m image_mset.compositionality)
  then have "mset (concat (map member_files models)) = mset (map gm_path fs)" unfolding fs by simp
  moreover have "sum_list (map gm_size models) = sum_mset (image_mset gm_size (mset singles + mset (map snd (grouped_files groups))))"
    using merged_sizes [of groups] by (simp add: m sum_mset_sum_list [symmetric] image_mset.compositionality)
  then have "sum_list (map gm_size models) = sum_list (map gm_size fs)"
    unfolding fs by (simp add: sum_mset_sum_list [symmetric] image_mset.compositionality)
  moreover have "\<exists>base. gm_name e = base @ ''.gguf'' \<and>
          (\<forall>i. i \<in> set (ms_missing sh) \<longleftrightarrow> 1 \<le> i \<and> i \<le> ms_total sh \<and>
             \<not> (\<exists>f \<in> set fs. gm_path f \<in> set (ms_files sh) \<and> shard_name (gm_name f) = Some (base, i, ms_total sh)))"
    if "e \<in> set models" "gm_shards e = Some sh" for e sh
  proof -
    from that single found obtain d base n parts where g: "((d, base, n), parts) \<in> set groups"
      and e: "e = merged_model ((d, base, n), parts)" by (fastforce simp: m)
    show ?thesis
      using in_group_iff [OF w g fs single] that(2) by (auto simp: e merged_model_sel simp del: upt_Suc)
  qed
  ultimately show ?thesis by blast
qed

theorem grouping_accounts_for_files_witness:
  "let fs = [found_model_at ''/m/b.gguf'' 7, (found_model_at ''/m/c'' 5)\<lparr>gm_name := shard_file ''a'' 2 3 ''gguf''\<rparr>] in
   \<exists>models. group_shards None fs = Inr (models, None) \<and>
     mset (concat (map member_files models)) = mset (map gm_path fs) \<and>
     map gm_shards models = [None, Some \<lparr>ms_files = [''/m/c''], ms_total = 3, ms_missing = [1, 3]\<rparr>]"
proof -
  define f where "f = found_model_at ''/m/b.gguf'' 7"
  define g where "g = (found_model_at ''/m/c'' 5)\<lparr>gm_name := shard_file ''a'' 2 3 ''gguf''\<rparr>"
  have f: "gm_shards f = None" "gm_name f = ''b.gguf''" unfolding f_def by code_simp+
  have "shard_name ''b.gguf'' = None" by code_simp
  moreover have g: "gm_shards g = None" "gm_path g = ''/m/c''" unfolding g_def by code_simp+
  moreover have "shard_name (gm_name g) = Some (''a'', 2, 3)"
    by (simp add: g_def shard_name_file eq_ignore_ascii_case_def)
  ultimately obtain models where ok: "group_shards None [f, g] = Inr (models, None)"
    "map gm_shards models = [None, Some \<lparr>ms_files = [''/m/c''], ms_total = 3, ms_missing = [1, 3]\<rparr>]"
    using f by (simp add: group_shards_def merge_group_def Let_def upt_rec)
  have "\<forall>x \<in> set [f, g]. gm_shards x = None" using f g by simp
  from grouping_accounts_for_files [OF this ok(1)] ok show ?thesis
    unfolding Let_def f_def [symmetric] g_def [symmetric] by (intro exI [of _ models]) simp
qed

section \<open>Limits\<close>

definition within :: "gguf_model list \<Rightarrow> scan_progress \<Rightarrow> bool" where
  "within models pg \<longleftrightarrow> length models \<le> max_models \<and> sp_entries pg \<le> sp_max_entries pg \<and> distinct (sp_visited pg)"

lemma check_progress_Inr: "check_progress pg = Inr pg' \<longleftrightarrow> (\<exists>p. check_flag (sp_patience pg) = Inr p \<and> pg' = pg\<lparr>sp_patience := p\<rparr>)"
  by (auto simp: check_progress_def bind_r_Inr_iff)

lemma within_updates [simp]:
  "within models (pg\<lparr>sp_patience := p\<rparr>) = within models pg"
  "within models (pg\<lparr>sp_truncated := t\<rparr>) = within models pg"
  "canonical \<notin> set (sp_visited pg) \<Longrightarrow> within models (pg\<lparr>sp_visited := canonical # sp_visited pg\<rparr>) = within models pg"
  by (simp_all add: within_def)

lemma check_progress_within:
  "check_progress pg = Inr q \<Longrightarrow> within models pg \<Longrightarrow> within models q \<and> sp_max_entries q = sp_max_entries pg"
  by (auto simp: check_progress_Inr)

lemma within_entry:
  assumes "\<not> limits_reached models q" and "within models q"
  shows "within models (q\<lparr>sp_entries := sp_entries q + 1\<rparr>)" and "within (models @ [m]) (q\<lparr>sp_entries := sp_entries q + 1\<rparr>)"
  using assms by (simp_all add: limits_reached_def within_def)

lemma walk_within:
  "walk l tv dir models pg = Inr (models', pg') \<Longrightarrow> within models pg \<Longrightarrow>
     within models' pg' \<and> sp_max_entries pg' = sp_max_entries pg"
  "walk_entries l tv es models pg = Inr (models', pg') \<Longrightarrow> within models pg \<Longrightarrow>
     within models' pg' \<and> sp_max_entries pg' = sp_max_entries pg"
proof (induction l tv dir models pg and l tv es models pg arbitrary: models' pg' and models' pg' rule: walk_walk_entries.induct)
  case (1 l tv dir models pg)
  from "1.prems"(1) obtain q where q: "check_progress pg = Inr q"
    by (auto simp: walk.simps [of l] bind_r_Inr_iff)
  note w = check_progress_within [OF q "1.prems"(2)]
  show ?case
    using "1.prems"(1) w "1.IH"
    by (simp add: walk.simps [of l] q split: nat.split_asm if_split_asm sum.split_asm) auto
next
  case (3 l tv e es models pg)
  from "3.prems"(1) obtain q where q: "check_progress pg = Inr q"
    by (auto simp: walk_entries.simps(2) bind_r_Inr_iff)
  note w = check_progress_within [OF q "3.prems"(2)]
  show ?case
  proof (cases "limits_reached models q")
    case True
    with "3.prems"(1) w show ?thesis by (auto simp: walk_entries.simps(2) q)
  next
    case False
    define q1 where "q1 = q\<lparr>sp_entries := sp_entries q + 1\<rparr>"
    note IH = "3.IH" [of q, OF False q1_def]
    have w1: "within models q1" "\<And>m. within (models @ [m]) q1" "sp_max_entries q1 = sp_max_entries pg"
      using within_entry [OF False] w by (simp_all add: q1_def)
    have r: "walk_entries l tv (e # es) models pg = (case e of
          None \<Rightarrow> walk_entries l tv es models q1
        | Some de \<Rightarrow>
            if de_kind de = Some Directory then
              bind_r (walk l tv (de_path de) models q1) (\<lambda>(models, pg). walk_entries l tv es models pg)
            else if de_kind de = Some RegularFile \<and> is_gguf (de_path de) then
              (case de_length de of
                 None \<Rightarrow> walk_entries l tv es models q1
               | Some len \<Rightarrow> walk_entries l tv es (models @ [found_model_at (de_path de) len]) q1)
            else walk_entries l tv es models q1)"
      using False unfolding q1_def by (simp only: walk_entries.simps(2) q bind_r_simps Let_def if_False)
    note step = "3.prems"(1) [unfolded r]
    show ?thesis
    proof (cases e)
      case None
      with IH(1) w1 step show ?thesis by simp
    next
      case (Some de)
      consider (dir) "de_kind de = Some Directory"
        | (found) len where "de_kind de \<noteq> Some Directory" "de_kind de = Some RegularFile \<and> is_gguf (de_path de)" "de_length de = Some len"
        | (skip) "de_kind de \<noteq> Some Directory" "de_kind de = Some RegularFile \<and> is_gguf (de_path de) \<longrightarrow> de_length de = None"
        by (cases "de_length de") auto
      then show ?thesis
      proof cases
        case dir
        with step obtain m2 pg2 where "walk l tv (de_path de) models q1 = Inr (m2, pg2)"
          "walk_entries l tv es m2 pg2 = Inr (models', pg')" by (auto simp: Some bind_r_Inr_iff)
        with IH(2) [OF Some dir this(1)] IH(3) [OF Some dir] w1 show ?thesis by auto
      next
        case found
        with step IH(5) w1 Some show ?thesis by simp
      next
        case skip
        with step IH(4,6) w1 Some show ?thesis by (auto split: if_split_asm option.split_asm)
      qed
    qed
  qed
qed simp

lemma length_sort_models: "length (sort_models ms) = length ms"
proof -
  have "length (insert_model m xs) = Suc (length xs)" for m xs by (induction xs) simp_all
  then show ?thesis unfolding sort_models_def by (induction ms) simp_all
qed

lemma group_shards_length:
  assumes "group_shards p fs = Inr (models, p')"
  shows "length models \<le> length fs"
proof -
  from assms obtain groups singles where w: "well_grouped groups" and m: "models = singles @ map merged_model groups"
    and fs: "mset singles + mset (map snd (grouped_files groups)) = mset fs" by (rule group_shards_split)
  have "well_grouped gs \<Longrightarrow> length gs \<le> length (grouped_files gs)" for gs
  proof (induction gs)
    case (Cons g gs)
    then show ?case by (cases g; cases "snd g") auto
  qed simp
  then have "length groups \<le> length (grouped_files groups)" using w .
  moreover have "length singles + length (grouped_files groups) = length fs"
    using arg_cong [OF fs, of size] by (simp only: size_union size_mset length_map)
  ultimately show ?thesis by (simp only: m length_append length_map)
qed

text \<open>A scan stays within its limits whatever the directory tree looks like: the walk under the models
  directory returns at most \<open>max_models\<close> files, reads at most the given number of entries and enters no
  directory twice, so that links back into the tree do not make it go round; the models reported are no
  more than the files found.\<close>

lemma scan_stays_within_limits:
  assumes "scan_with_limits tv models_dir patience entries = Inr sc"
  shows "\<exists>canonical found pg. tv_canonical tv (trim models_dir) = Inr canonical \<and> tv_is_dir tv canonical \<and>
    (\<exists>p. walk (max_depth + 1) tv canonical []
        \<lparr>sp_patience = p, sp_entries = 0, sp_max_entries = entries, sp_visited = [], sp_truncated = False\<rparr> = Inr (found, pg)) \<and>
    length (sc_models sc) \<le> length found \<and> length found \<le> max_models \<and>
    sp_entries pg \<le> entries \<and> distinct (sp_visited pg) \<and> sc_truncated sc = sp_truncated pg"
proof -
  from assms obtain p canonical found pg q grouped r where
    c: "tv_canonical tv (trim models_dir) = Inr canonical" "tv_is_dir tv canonical"
    and w: "walk (max_depth + 1) tv canonical []
        \<lparr>sp_patience = p, sp_entries = 0, sp_max_entries = entries, sp_visited = [], sp_truncated = False\<rparr> = Inr (found, pg)"
    and q: "check_progress pg = Inr q" and g: "group_shards (sp_patience q) found = Inr (grouped, r)"
    and sc: "sc = \<lparr>sc_models = sort_models grouped, sc_truncated = sp_truncated q\<rparr>"
    by (auto simp: scan_with_limits_def Let_def bind_r_Inr_iff check_progress_Inr simp del: Suc_eq_plus1
        split: if_split_asm sum.split_asm)
  from walk_within(1) [OF w] have "length found \<le> max_models \<and> sp_entries pg \<le> entries \<and> distinct (sp_visited pg)"
    by (simp add: within_def)
  moreover have "length grouped \<le> length found" using group_shards_length [OF g] .
  moreover have "sp_truncated q = sp_truncated pg" using q by (auto simp: check_progress_Inr)
  ultimately show ?thesis
    using c w by (intro exI [of _ canonical] exI [of _ found] exI [of _ pg]) (auto simp: sc length_sort_models)
qed

text \<open>A directory with one model and a directory that links back to it.\<close>

definition demo_tree :: tree_view where
  "demo_tree = \<lparr>tv_canonical = (\<lambda>_. Inr ''/m''), tv_is_dir = (\<lambda>_. True),
     tv_entries = (\<lambda>_. Inr [Some \<lparr>de_path = ''/m/back'', de_kind = Some Directory, de_length = None\<rparr>,
                             Some \<lparr>de_path = ''/m/a.gguf'', de_kind = Some RegularFile, de_length = Some 3\<rparr>])\<rparr>"

theorem scan_stays_within_limits_witness:
  "\<exists>sc. scan_with_limits demo_tree ''/m'' None 4 = Inr sc \<and> length (sc_models sc) \<le> max_models"
proof -
  have f: "trim ''/m'' = ''/m''" "is_gguf ''/m/a.gguf''" "shard_name (gm_name (found_model_at ''/m/a.gguf'' 3)) = None"
    by code_simp+
  obtain sc where sc: "scan_with_limits demo_tree ''/m'' None 4 = Inr sc"
    using f by (simp add: scan_with_limits_def Let_def check_progress_def demo_tree_def walk.simps walk_entries.simps(2)
        limits_reached_def max_models_def max_depth_def group_shards_def)
  from scan_stays_within_limits [OF this] sc show ?thesis by fastforce
qed

section \<open>Cancelling a scan\<close>

text \<open>\<open>cut strip r r'\<close>: the run \<open>r\<close>, against the run \<open>r'\<close> that is never cancelled, was cancelled or did the
  same; \<open>strip\<close> forgets how many checks were left.\<close>

definition cut :: "('a \<Rightarrow> 'b) \<Rightarrow> string + 'a \<Rightarrow> string + 'b \<Rightarrow> bool" where
  "cut strip r r' \<longleftrightarrow> r = Inl scan_cancelled \<or> (case r of Inl e \<Rightarrow> r' = Inl e | Inr x \<Rightarrow> r' = Inr (strip x))"

lemma cut_simps [simp]:
  "cut f (Inr x) (Inr y) \<longleftrightarrow> y = f x"
  "cut f (Inl e) (Inl e)"
  "cut f (Inl scan_cancelled) r"
  by (auto simp: cut_def)

lemma cut_bind:
  assumes "cut f r r'" and "\<And>x. r = Inr x \<Longrightarrow> cut g (k x) (k' (f x))"
  shows "cut g (bind_r r k) (bind_r r' k')"
  using assms by (cases r) (auto simp: cut_def)

abbreviation forget :: "'a \<times> nat option \<Rightarrow> 'a \<times> nat option" where "forget x \<equiv> (fst x, None)"
abbreviation patient :: "scan_progress \<Rightarrow> scan_progress" where "patient pg \<equiv> pg\<lparr>sp_patience := None\<rparr>"

lemma cut_flag: "(\<And>q. cut g (k q) r') \<Longrightarrow> cut g (bind_r (check_flag p) k) r'"
  by (cases p rule: check_flag.cases) simp_all

lemma check_progress_patient [simp]: "check_progress (patient pg) = Inr (patient pg)"
  by (simp add: check_progress_def)

lemma cut_progress:
  "(\<And>p. cut g (k (pg\<lparr>sp_patience := p\<rparr>)) r') \<Longrightarrow> cut g (bind_r (check_progress pg) k) r'"
  unfolding check_progress_def by (cases "sp_patience pg" rule: check_flag.cases) simp_all

lemma cut_split_files:
  "cut (\<lambda>(gs, ms, _). (gs, ms, None)) (split_files p models groups fs) (split_files None models groups fs)"
  by (induction fs arbitrary: p models groups) (auto intro!: cut_flag split: option.splits)

lemma cut_find_missing: "cut forget (find_missing p present is1) (find_missing None present is1)"
  by (induction is1 arbitrary: p) (auto intro!: cut_flag cut_bind)

lemma cut_merge_group: "cut forget (merge_group p g) (merge_group None g)"
  by (auto simp: merge_group_def Let_def simp del: upt_Suc split: prod.split
      intro!: cut_flag cut_bind [OF cut_find_missing])

lemma cut_merge_groups: "cut forget (merge_groups p gs) (merge_groups None gs)"
  by (induction gs arbitrary: p) (auto intro!: cut_bind [OF cut_merge_group] cut_bind)

lemma cut_group_shards: "cut forget (group_shards p fs) (group_shards None fs)"
  by (auto simp: group_shards_def intro!: cut_flag cut_bind [OF cut_split_files] cut_bind [OF cut_merge_groups])

abbreviation patient_found :: "gguf_model list \<times> scan_progress \<Rightarrow> gguf_model list \<times> scan_progress" where
  "patient_found x \<equiv> (fst x, patient (snd x))"

lemma limits_reached_patience [simp]: "limits_reached models (pg\<lparr>sp_patience := p\<rparr>) = limits_reached models pg"
  by (simp add: limits_reached_def)

lemma patient_updates:
  "(patient pg)\<lparr>sp_visited := v\<rparr> = patient (pg\<lparr>sp_visited := v\<rparr>)"
  "(patient pg)\<lparr>sp_entries := n\<rparr> = patient (pg\<lparr>sp_entries := n\<rparr>)"
  by simp_all

lemma cut_walk:
  "cut patient_found (walk l tv dir models pg) (walk l tv dir models (patient pg))"
  "cut patient_found (walk_entries l tv es models pg) (walk_entries l tv es models (patient pg))"
proof (induction l tv dir models pg and l tv es models pg rule: walk_walk_entries.induct)
  case (1 l tv dir models pg)
  show ?case
    using "1.IH" [where x = "pg\<lparr>sp_patience := p\<rparr>" for p]
    by (auto simp: walk.simps [of l] patient_updates intro!: cut_progress split: nat.split sum.split)
next
  case (3 l tv e es models pg)
  show ?case
    using "3.IH" [where x = "pg\<lparr>sp_patience := p\<rparr>" for p]
    by (auto simp: walk_entries.simps(2) Let_def patient_updates intro!: cut_progress cut_bind [where f = patient_found]
        split: option.split)
qed simp

text \<open>C24. Cancelling a scan changes nothing but whether it ends: whenever the flag is raised, the scan either
  fails with the cancellation message or gives exactly what it would have given undisturbed, error or
  result; it never reports part of the models as all of them.\<close>

theorem cancelled_scan_is_all_or_nothing:
  "scan_with_limits tv models_dir patience entries = Inl scan_cancelled \<or>
   scan_with_limits tv models_dir patience entries = scan_with_limits tv models_dir None entries"
proof -
  have "cut (\<lambda>x. x) (scan_with_limits tv models_dir patience entries) (scan_with_limits tv models_dir None entries)"
    unfolding scan_with_limits_def
  proof (rule cut_bind [where f = patient], goal_cases)
    case 1
    show ?case by (cases patience rule: check_flag.cases) (simp_all add: check_progress_def)
  next
    case (2 pg)
    show ?case
      by (auto simp: Let_def check_progress_Inr split: sum.split
          intro!: cut_bind [OF cut_walk(1)] cut_progress cut_bind [OF cut_group_shards] cut_flag)
  qed
  then show ?thesis by (auto simp: cut_def split: sum.splits)
qed

section \<open>A complete entry that does not start\<close>

text \<open>The group of a shard ignores the spelling of its extension, the check before a launch does not: two
  files that form one complete entry can be refused as incomplete.\<close>

lemma complete_entry_can_be_refused:
  "let a = shard_file ''a'' 1 2 ''gguf''; b = shard_file ''a'' 2 2 ''GGUF'';
       files = [''/m/'' @ a, ''/m/'' @ b];
       m1 = (found_model_at ''/m/a'' 5)\<lparr>gm_name := a, gm_path := ''/m/'' @ a\<rparr>;
       m2 = (found_model_at ''/m/a'' 5)\<lparr>gm_name := b, gm_path := ''/m/'' @ b\<rparr>
   in group_shards None [m1, m2] =
        Inr ([m1\<lparr>gm_name := ''a.gguf'', gm_size := 10,
                 gm_shards := Some \<lparr>ms_files = files, ms_total = 2, ms_missing = []\<rparr>\<rparr>], None) \<and>
      validate_model_shards (\<lambda>p. p \<in> set files) (''/m/'' @ a) =
        Inl (''model shard is missing: /m/a-00002-of-00002.gguf'')"
proof -
  define a where "a = shard_file ''a'' 1 2 ''gguf''"
  define b where "b = shard_file ''a'' 2 2 ''GGUF''"
  have p5: "pad5 1 = ''00001''" "pad5 2 = ''00002''" by code_simp+
  then have ab: "a = ''a-00001-of-00002.gguf''" "b = ''a-00002-of-00002.GGUF''"
    by (simp_all add: a_def b_def shard_file_def)
  have cased: "eq_ignore_ascii_case ''gguf'' ''gguf''" "eq_ignore_ascii_case ''GGUF'' ''gguf''" by code_simp+
  have n: "shard_name a = Some (''a'', 1, 2)" "shard_name b = Some (''a'', 2, 2)"
    using cased unfolding a_def b_def by (intro shard_name_file; simp)+
  have p: "path_components (path_parent (''/m/'' @ a)) = path_components (path_parent (''/m/'' @ b))"
    unfolding ab by code_simp
  have n5: "path_file_name (''/m/'' @ a) = Some a" "path_extension (''/m/'' @ a) = Some ''gguf''"
    "path_parent (''/m/'' @ a) = ''/m''" "from_utf8 a = Some a"
    unfolding ab by code_simp+
  define c where "c = path_join ''/m'' (shard_file ''a'' 2 2 ''gguf'')"
  have c: "c = ''/m/a-00002-of-00002.gguf''" unfolding c_def shard_file_def p5 by code_simp
  have r: "[1..<2 + 1] = [1, 2::nat]" by (simp add: upt_rec)
  have one: "path_join ''/m'' (shard_file ''a'' 1 2 ''gguf'') = ''/m/'' @ a"
    unfolding ab shard_file_def p5 by code_simp
  have other: "c \<noteq> ''/m/'' @ a" "c \<noteq> ''/m/'' @ b" by (simp_all add: c ab)
  have "validate_model_shards (\<lambda>p. p \<in> {''/m/'' @ a, ''/m/'' @ b}) (''/m/'' @ a) = Inl (''model shard is missing: '' @ c)"
    unfolding validate_model_shards_def n5 option.case bind.bind_lunit n prod.case Let_def
    using one other by (simp only: r find.simps list.case c_def insert_iff empty_iff) simp
  moreover have "group_shards None
      [(found_model_at ''/m/a'' 5)\<lparr>gm_name := a, gm_path := ''/m/'' @ a\<rparr>, (found_model_at ''/m/a'' 5)\<lparr>gm_name := b, gm_path := ''/m/'' @ b\<rparr>] =
      Inr ([(found_model_at ''/m/a'' 5)\<lparr>gm_name := ''a.gguf'', gm_path := ''/m/'' @ a, gm_size := 10,
         gm_shards := Some \<lparr>ms_files = [''/m/'' @ a, ''/m/'' @ b], ms_total = 2, ms_missing = []\<rparr>\<rparr>], None)"
    using n p by (simp add: group_shards_def merge_group_def Let_def upt_rec found_model_at_def)
  ultimately show ?thesis
    unfolding Let_def a_def [symmetric] b_def [symmetric] by (simp add: c)
qed

end
