(* ===== verification/OptionSchema.thy ===== *)
theory OptionSchema
  imports Http Complex_Main
begin

text \<open>
  The option language shared by discovery, editors and launches,
  \<open>src-tauri/src/providers/runtime_options.rs\<close>: sourced facts about the options of a runtime, the check
  of a schema, and the resolution of saved values into arguments and request fields.

  A JSON number is its text; the \<open>f64\<close> that \<open>serde_json\<close> reads from it, the compact text of a value and
  the encoded size of a schema are the parameters in \<open>json_lib\<close>. A finite \<open>f64\<close> is its exact value. A
  \<open>BTreeMap\<close> is an association list with increasing keys.
\<close>

section \<open>Numbers\<close>

datatype float64 = Finite rat | PosInf | NegInf | NotANumber

fun f64_finite :: "float64 \<Rightarrow> bool" where
  "f64_finite (Finite _) = True"
| "f64_finite _ = False"

fun f64_less :: "float64 \<Rightarrow> float64 \<Rightarrow> bool" where
  "f64_less NotANumber _ = False"
| "f64_less _ NotANumber = False"
| "f64_less (Finite a) (Finite b) = (a < b)"
| "f64_less PosInf _ = False"
| "f64_less _ NegInf = False"
| "f64_less _ _ = True"

fun f64_eq :: "float64 \<Rightarrow> float64 \<Rightarrow> bool" where
  "f64_eq NotANumber _ = False"
| "f64_eq a b = (a = b)"

definition f64_le :: "float64 \<Rightarrow> float64 \<Rightarrow> bool" where
  "f64_le a b \<longleftrightarrow> f64_less a b \<or> f64_eq a b"

text \<open>\<open>fract() == 0.0\<close>.\<close>

definition whole :: "rat \<Rightarrow> bool" where
  "whole x \<longleftrightarrow> of_int \<lfloor>x\<rfloor> = x"

fun f64_whole :: "float64 \<Rightarrow> bool" where
  "f64_whole (Finite x) = whole x"
| "f64_whole _ = False"

section \<open>JSON values\<close>

record json_lib =
  jl_float :: "string \<Rightarrow> rat"
  jl_render :: "json \<Rightarrow> string"

definition int_text :: "string \<Rightarrow> int option" where
  "int_text s =
     (case s of
        [] \<Rightarrow> None
      | c # ds \<Rightarrow>
          if c = CHR ''-'' then
            (if ds \<noteq> [] \<and> list_all is_ascii_digit ds then Some (- int (digits_value ds)) else None)
          else if list_all is_ascii_digit s then Some (int (digits_value s)) else None)"

fun as_i64 :: "json \<Rightarrow> int option" where
  "as_i64 (JNum t) =
     (case int_text t of None \<Rightarrow> None | Some i \<Rightarrow> if - (2 ^ 63) \<le> i \<and> i < 2 ^ 63 then Some i else None)"
| "as_i64 _ = None"

fun as_u64 :: "json \<Rightarrow> int option" where
  "as_u64 (JNum t) =
     (case int_text t of None \<Rightarrow> None | Some i \<Rightarrow> if 0 \<le> i \<and> i < 2 ^ 64 then Some i else None)"
| "as_u64 _ = None"

fun as_f64 :: "json_lib \<Rightarrow> json \<Rightarrow> float64 option" where
  "as_f64 J (JNum t) = Some (Finite (jl_float J t))"
| "as_f64 J _ = None"

fun as_str :: "json \<Rightarrow> string option" where
  "as_str (JStr s) = Some s"
| "as_str _ = None"

fun as_bool :: "json \<Rightarrow> bool option" where
  "as_bool (JBool b) = Some b"
| "as_bool _ = None"

fun as_array :: "json \<Rightarrow> json list option" where
  "as_array (JArr vs) = Some vs"
| "as_array _ = None"

text \<open>
  Equality of \<open>Value\<close>s. Integers are equal when they are the same integer, other numbers when their
  values are, and an integer never equals a float.
\<close>

definition number_eq :: "json_lib \<Rightarrow> string \<Rightarrow> string \<Rightarrow> bool" where
  "number_eq J s t \<longleftrightarrow>
     (case (int_text s, int_text t) of
        (Some i, Some j) \<Rightarrow> i = j
      | (None, None) \<Rightarrow> jl_float J s = jl_float J t
      | _ \<Rightarrow> False)"

fun json_eq :: "json_lib \<Rightarrow> json \<Rightarrow> json \<Rightarrow> bool"
and json_list_eq :: "json_lib \<Rightarrow> json list \<Rightarrow> json list \<Rightarrow> bool"
and json_fields_eq :: "json_lib \<Rightarrow> (string \<times> json) list \<Rightarrow> (string \<times> json) list \<Rightarrow> bool" where
  "json_eq J JNull JNull = True"
| "json_eq J (JBool a) (JBool b) = (a = b)"
| "json_eq J (JNum s) (JNum t) = number_eq J s t"
| "json_eq J (JStr s) (JStr t) = (s = t)"
| "json_eq J (JArr vs) (JArr ws) = json_list_eq J vs ws"
| "json_eq J (JObj vs) (JObj ws) = json_fields_eq J vs ws"
| "json_eq J _ _ = False"
| "json_list_eq J [] [] = True"
| "json_list_eq J (v # vs) (w # ws) = (json_eq J v w \<and> json_list_eq J vs ws)"
| "json_list_eq J _ _ = False"
| "json_fields_eq J [] [] = True"
| "json_fields_eq J ((k, v) # vs) ((l, w) # ws) = (k = l \<and> json_eq J v w \<and> json_fields_eq J vs ws)"
| "json_fields_eq J _ _ = False"

text \<open>The integer an \<open>i128\<close> is made from, and the equality of operands.\<close>

definition number_integer :: "string \<Rightarrow> int option" where
  "number_integer t = (case as_i64 (JNum t) of Some i \<Rightarrow> Some i | None \<Rightarrow> as_u64 (JNum t))"

definition integer_float :: "json_lib \<Rightarrow> int \<Rightarrow> string \<Rightarrow> bool" where
  "integer_float J i t \<longleftrightarrow>
     (let x = jl_float J t in whole x \<and> of_int (- (2 ^ 63)) \<le> x \<and> x < of_int (2 ^ 64) \<and> \<lfloor>x\<rfloor> = i)"

fun same_operand :: "json_lib \<Rightarrow> json \<Rightarrow> json \<Rightarrow> bool" where
  "same_operand J (JNum a) (JNum b) =
     (case (number_integer a, number_integer b) of
        (Some i, Some j) \<Rightarrow> i = j
      | (Some i, None) \<Rightarrow> integer_float J i b
      | (None, Some j) \<Rightarrow> integer_float J j a
      | (None, None) \<Rightarrow> jl_float J a = jl_float J b)"
| "same_operand J v w = json_eq J v w"

section \<open>Facts\<close>

datatype certainty = Unknown | Documented | Verified | UserConfirmed

datatype fact_source =
    HelpSource (hs_document: string) (hs_start: nat) (hs_end: nat)
  | AdapterSource string string
  | UserSource string

record 'a fact =
  fa_value :: "'a option"
  fa_certainty :: certainty
  fa_source :: "fact_source option"

definition no_fact :: "'a fact" where
  "no_fact = \<lparr>fa_value = None, fa_certainty = Unknown, fa_source = None\<rparr>"

definition supported :: "'a fact \<Rightarrow> 'a option" where
  "supported f = (if fa_certainty f \<noteq> Unknown then fa_value f else None)"

section \<open>Schemas\<close>

record schema_binding =
  bi_engine :: string
  bi_runtime :: string
  bi_fingerprint :: string

datatype help_stream = Stdout | Stderr

record raw_help =
  rh_id :: string
  rh_scope :: "string list"
  rh_stream :: help_stream
  rh_text :: string
  rh_truncated :: bool

datatype value_kind = Boolean | Integer | Number | Text | Tokens | Json

record arity =
  ar_min :: nat
  ar_max :: "nat option"

datatype value_style = Separate | Equals

record spelling =
  sg_flag :: string
  sg_style :: value_style
  sg_polarity :: "bool option"

datatype option_target = Launch | Request

datatype managed_binding = Model | Host | Port | Authentication | Discovery | EntryPoint | Reserved

record numeric_range =
  nr_min :: "float64 option"
  nr_max :: "float64 option"
  nr_min_exclusive :: bool
  nr_max_exclusive :: bool
  nr_sentinels :: "float64 list"

datatype benchmark_role = ContextTotalTokens | ContextPerSequenceTokens | ContextPerRequestKvTokens | ConcurrencyCapacity

fun role_as_str :: "benchmark_role \<Rightarrow> string" where
  "role_as_str ContextTotalTokens = ''context.total_tokens''"
| "role_as_str ContextPerSequenceTokens = ''context.per_sequence_tokens''"
| "role_as_str ContextPerRequestKvTokens = ''context.per_request_kv_tokens''"
| "role_as_str ConcurrencyCapacity = ''concurrency.capacity''"

record option_definition =
  op_key :: string
  op_scope :: "string list"
  op_spellings :: "spelling list"
  op_position :: "nat option"
  op_kind :: "value_kind fact"
  op_arity :: "arity fact"
  op_repeatable :: "bool fact"
  op_choices :: "json list fact"
  op_range :: "numeric_range fact"
  op_unit :: "string fact"
  op_runtime_default :: "json fact"
  op_group :: string
  op_help :: string
  op_target :: option_target
  op_request_field :: "string fact"
  op_restart_required :: "bool fact"
  op_sensitive :: "bool fact"
  op_local_path :: "bool fact"
  op_benchmark_public :: "bool fact"
  op_benchmark_name :: "string fact"
  op_benchmark_role :: "benchmark_role fact"
  op_managed :: "managed_binding option"
  op_raw_spans :: "fact_source list"

record predicate =
  pd_key :: string
  pd_equals :: "json option"

datatype relation =
    Requires (rl_when: predicate) (rl_other: predicate)
  | Excludes (rl_when: predicate) (rl_other: predicate)

record option_schema =
  os_version :: nat
  os_binding :: schema_binding
  os_options :: "option_definition list"
  os_constraints :: "relation fact list"
  os_raw_help :: "raw_help list"
  os_end_of_options :: "bool fact"

type_synonym occurrence = "string option \<times> json list"

record override =
  ov_spelling :: "string option"
  ov_occurrences :: "json list list"

record option_issue =
  oi_key :: string
  oi_message :: string

record resolved_options =
  ro_boundaries :: "nat list"
  ro_argv :: "string list"
  ro_request :: "(string \<times> json) list"

definition schema_version :: nat where "schema_version = 1"
definition max_schema_bytes :: nat where "max_schema_bytes = 3 * 1024 * 1024"
definition max_help_bytes :: nat where "max_help_bytes = 2 * 1024 * 1024"
definition max_options :: nat where "max_options = 4096"
definition max_arguments :: nat where "max_arguments = 512"
definition max_argument_bytes :: nat where "max_argument_bytes = 32768"
definition max_values_bytes :: nat where "max_values_bytes = 131072"

section \<open>Values of an option\<close>

definition range_contains :: "numeric_range \<Rightarrow> float64 \<Rightarrow> bool" where
  "range_contains r x \<longleftrightarrow>
     f64_finite x \<and>
     (list_ex (f64_eq x) (nr_sentinels r) \<or>
      (case nr_min r of None \<Rightarrow> True | Some lo \<Rightarrow> if nr_min_exclusive r then f64_less lo x else f64_le lo x) \<and>
      (case nr_max r of None \<Rightarrow> True | Some hi \<Rightarrow> if nr_max_exclusive r then f64_less x hi else f64_le x hi))"

definition range_valid :: "numeric_range \<Rightarrow> bool" where
  "range_valid r \<longleftrightarrow>
     (case nr_min r of None \<Rightarrow> True | Some lo \<Rightarrow> f64_finite lo) \<and>
     (case nr_max r of None \<Rightarrow> True | Some hi \<Rightarrow> f64_finite hi) \<and>
     length (nr_sentinels r) \<le> 128 \<and> list_all f64_finite (nr_sentinels r) \<and>
     (nr_min_exclusive r \<longrightarrow> nr_min r \<noteq> None) \<and> (nr_max_exclusive r \<longrightarrow> nr_max r \<noteq> None) \<and>
     (case (nr_min r, nr_max r) of
        (Some lo, Some hi) \<Rightarrow> f64_less lo hi \<or> f64_eq lo hi \<and> \<not> nr_min_exclusive r \<and> \<not> nr_max_exclusive r
      | _ \<Rightarrow> True)"

definition bounded_text :: "string \<Rightarrow> nat \<Rightarrow> bool" where
  "bounded_text s n \<longleftrightarrow> length s \<le> n \<and> CHR 0x00 \<notin> set s"

definition plain_identifier :: "string \<Rightarrow> bool" where
  "plain_identifier s \<longleftrightarrow> s \<noteq> [] \<and> length s \<le> 128 \<and>
     list_all (\<lambda>b. is_ascii_alphanumeric b \<or> b \<in> set ''._-/'') s"

definition valid_scope :: "string list \<Rightarrow> bool" where
  "valid_scope scope \<longleftrightarrow> length scope \<le> 8 \<and>
     list_all (\<lambda>s. plain_identifier s \<and> hd s \<noteq> CHR ''-'' \<and> hd s \<noteq> CHR ''/'' \<and> CHR ''/'' \<notin> set s) scope"

definition value_of_kind :: "json_lib \<Rightarrow> value_kind option \<Rightarrow> json \<Rightarrow> bool" where
  "value_of_kind J k v =
     (case k of
        Some Boolean \<Rightarrow> as_bool v \<noteq> None
      | Some Integer \<Rightarrow> as_i64 v \<noteq> None
      | Some Number \<Rightarrow> (case as_f64 J v of None \<Rightarrow> False | Some x \<Rightarrow> f64_finite x)
      | Some Json \<Rightarrow> True
      | _ \<Rightarrow> as_str v \<noteq> None)"

definition check_r :: "bool \<Rightarrow> 'e \<Rightarrow> 'e + unit" where
  "check_r b e = (if b then Inr () else Inl e)"

definition scalar_text :: "json_lib \<Rightarrow> value_kind option \<Rightarrow> json \<Rightarrow> string" where
  "scalar_text J k v =
     (if k = Some Json then jl_render J v else case as_str v of Some s \<Rightarrow> s | None \<Rightarrow> jl_render J v)"

definition check_range :: "json_lib \<Rightarrow> numeric_range option \<Rightarrow> json \<Rightarrow> string + unit" where
  "check_range J r v =
     (case r of
        None \<Rightarrow> Inr ()
      | Some r \<Rightarrow>
          (case as_f64 J v of
             None \<Rightarrow> Inl ''numeric range requires a number''
           | Some x \<Rightarrow> check_r (range_contains r x) ''value is outside the documented numeric range''))"

definition scalar :: "json_lib \<Rightarrow> option_definition \<Rightarrow> json \<Rightarrow> string + string" where
  "scalar J opt v =
     bind_r (check_r (value_of_kind J (supported (op_kind opt)) v)
       ''value does not match the documented type; unknown types accept text tokens only'') (\<lambda>_.
     bind_r (check_r (case supported (op_choices opt) of None \<Rightarrow> True | Some cs \<Rightarrow> list_ex (\<lambda>c. json_eq J c v) cs)
       ''value is outside the documented choices'') (\<lambda>_.
     bind_r (check_range J (supported (op_range opt)) v) (\<lambda>_.
     let t = scalar_text J (supported (op_kind opt)) v in
     bind_r (check_r (bounded_text t max_argument_bytes) ''option value contains NUL or exceeds its size limit'') (\<lambda>_.
     Inr t))))"

section \<open>Arguments of an option\<close>

definition one_value :: arity where
  "one_value = \<lparr>ar_min = 1, ar_max = Some 1\<rparr>"

definition option_arity :: "option_definition \<Rightarrow> string + arity" where
  "option_arity opt =
     (if op_target opt = Request then Inr one_value
      else case supported (op_arity opt) of
        None \<Rightarrow> Inl ''arity is unknown; confirm the value count or provide adapter metadata before generating argv''
      | Some a \<Rightarrow> Inr a)"

definition chosen_spelling :: "option_definition \<Rightarrow> string option \<Rightarrow> string + spelling option" where
  "chosen_spelling opt saved =
     (case saved of
        Some flag \<Rightarrow>
          (case find (\<lambda>s. sg_flag s = flag) (op_spellings opt) of
             None \<Rightarrow> Inl ''saved alias is absent from this schema''
           | Some s \<Rightarrow> Inr (Some s))
      | None \<Rightarrow> Inr (case op_spellings opt of [] \<Rightarrow> None | s # _ \<Rightarrow> Some s))"

definition says :: "bool \<Rightarrow> spelling \<Rightarrow> bool" where
  "says enabled s \<longleftrightarrow> (case sg_polarity s of None \<Rightarrow> True | Some b \<Rightarrow> b) = enabled"

definition switch_row :: "json_lib \<Rightarrow> option_definition \<Rightarrow> string option \<Rightarrow> spelling option \<Rightarrow> json list \<Rightarrow> string + string list" where
  "switch_row J opt saved chosen row =
     bind_r (check_r (length row = 1) ''a boolean switch needs an explicit true or false'') (\<lambda>_.
     bind_r (scalar J opt (hd row)) (\<lambda>_.
     let enabled = (as_bool (hd row) = Some True);
         spelling = (if saved \<noteq> None then Option.bind chosen (\<lambda>s. if says enabled s then Some s else None)
                     else find (says enabled) (op_spellings opt))
     in case spelling of
          Some s \<Rightarrow> Inr [sg_flag s]
        | None \<Rightarrow>
            if \<not> enabled \<and> (case supported (op_runtime_default opt) of None \<Rightarrow> False | Some v \<Rightarrow> json_eq J v (JBool False)) \<and>
              saved = None
            then Inr []
            else Inl ''this runtime has no confirmed spelling for the explicit boolean value''))"

definition value_row :: "json_lib \<Rightarrow> option_definition \<Rightarrow> arity \<Rightarrow> spelling option \<Rightarrow> json list \<Rightarrow> string + string list" where
  "value_row J opt a chosen row =
     bind_r (check_r (ar_min a \<le> length row \<and> (case ar_max a of None \<Rightarrow> True | Some n \<Rightarrow> length row \<le> n))
       ''value count does not match the documented arity'') (\<lambda>_.
     bind_r (traverse_r (scalar J opt) row) (\<lambda>values.
     if op_target opt = Request then Inr []
     else case chosen of
       None \<Rightarrow> Inr values
     | Some s \<Rightarrow>
         if sg_style s = Equals \<and> values \<noteq> [] then Inr [sg_flag s @ ''='' @ hd values]
         else
           bind_r (check_r (\<not> list_ex (\<lambda>(v, t). as_str v \<noteq> None \<and> starts_with ''-'' t) (zip row values))
             ''a flag-like text value needs a confirmed equals spelling to keep its boundary unambiguous'') (\<lambda>_.
           Inr (sg_flag s # values))))"

definition resolve_row :: "json_lib \<Rightarrow> option_definition \<Rightarrow> arity \<Rightarrow> occurrence \<Rightarrow> string + string list" where
  "resolve_row J opt a occ =
     (case occ of (saved, row) \<Rightarrow>
        bind_r (chosen_spelling opt saved) (\<lambda>chosen.
        bind_r (check_r (length row \<le> 256) ''too many option values'') (\<lambda>_.
        if supported (op_kind opt) = Some Boolean \<and> ar_max a = Some 0 then switch_row J opt saved chosen row
        else value_row J opt a chosen row)))"

definition resolve_rows :: "json_lib \<Rightarrow> option_definition \<Rightarrow> occurrence list \<Rightarrow> string + string list" where
  "resolve_rows J opt rows =
     bind_r (check_r (length rows \<le> 128 \<and> (length rows > 1 \<longrightarrow> supported (op_repeatable opt) = Some True))
       ''repetition needs explicit supported metadata'') (\<lambda>_.
     bind_r (option_arity opt) (\<lambda>a.
     bind_r (traverse_r (resolve_row J opt a) rows) (\<lambda>argss. Inr (concat argss))))"

definition resolve_one :: "json_lib \<Rightarrow> option_definition \<Rightarrow> string option \<Rightarrow> json list \<Rightarrow> string + string list" where
  "resolve_one J opt saved row = resolve_rows J opt [(saved, row)]"

section \<open>The check of a schema\<close>

text \<open>\<open>str::lines().count()\<close>.\<close>

definition line_count :: "string \<Rightarrow> nat" where
  "line_count s = length (filter (\<lambda>c. c = CHR 0x0A) s) + (if s \<noteq> [] \<and> last s \<noteq> CHR 0x0A then 1 else 0)"

definition source_valid :: "raw_help list \<Rightarrow> fact_source \<Rightarrow> bool" where
  "source_valid docs src =
     (case src of
        HelpSource d first final \<Rightarrow>
          (case find (\<lambda>h. rh_id h = d) docs of
             None \<Rightarrow> False
           | Some h \<Rightarrow> 0 < first \<and> first \<le> final \<and> final \<le> line_count (rh_text h))
      | AdapterSource i revision \<Rightarrow> plain_identifier i \<and> revision \<noteq> [] \<and> bounded_text revision 256
      | UserSource remark \<Rightarrow> remark \<noteq> [] \<and> bounded_text remark 1024)"

definition check_source :: "raw_help list \<Rightarrow> fact_source \<Rightarrow> string + unit" where
  "check_source docs src = check_r (source_valid docs src) ''option fact has an invalid source or raw-help span''"

definition check_fact :: "raw_help list \<Rightarrow> 'a fact \<Rightarrow> string + unit" where
  "check_fact docs f =
     bind_r (check_r (fa_certainty f \<noteq> Unknown \<longrightarrow> fa_value f \<noteq> None \<and> fa_source f \<noteq> None)
       ''supported option facts need a value and source'') (\<lambda>_.
     case fa_source f of None \<Rightarrow> Inr () | Some src \<Rightarrow> check_source docs src)"

fun check_each :: "('a \<Rightarrow> 'e + unit) \<Rightarrow> 'a list \<Rightarrow> 'e + unit" where
  "check_each f [] = Inr ()"
| "check_each f (x # xs) = bind_r (f x) (\<lambda>_. check_each f xs)"

definition is_ascii_hexdigit :: "char \<Rightarrow> bool" where
  "is_ascii_hexdigit c \<longleftrightarrow> is_ascii_digit c \<or> c \<in> set ''abcdefABCDEF''"

definition check_binding :: "schema_binding \<Rightarrow> string + unit" where
  "check_binding b =
     check_r (plain_identifier (bi_engine b) \<and> plain_identifier (bi_runtime b) \<and> length (bi_fingerprint b) = 64 \<and>
         list_all is_ascii_hexdigit (bi_fingerprint b))
       ''option schema needs an engine, runtime and SHA-256 fingerprint''"

fun check_help :: "string list \<Rightarrow> raw_help list \<Rightarrow> string + unit" where
  "check_help seen [] = Inr ()"
| "check_help seen (h # hs) =
     bind_r (check_r (plain_identifier (rh_id h) \<and> valid_scope (rh_scope h) \<and> rh_id h \<notin> set seen)
       ''invalid or duplicate raw-help document'') (\<lambda>_. check_help (rh_id h # seen) hs)"

definition benchmark_identifier :: "string \<Rightarrow> bool" where
  "benchmark_identifier s \<longleftrightarrow> s \<noteq> [] \<and> length s \<le> 64 \<and> is_ascii_alphanumeric (hd s) \<and>
     list_all (\<lambda>b. is_ascii_alphanumeric b \<or> b \<in> set ''_.-'') s"

definition check_option_facts :: "raw_help list \<Rightarrow> option_definition \<Rightarrow> string + unit" where
  "check_option_facts docs opt =
     bind_r (check_fact docs (op_kind opt)) (\<lambda>_. bind_r (check_fact docs (op_arity opt)) (\<lambda>_.
     bind_r (check_fact docs (op_repeatable opt)) (\<lambda>_. bind_r (check_fact docs (op_choices opt)) (\<lambda>_.
     bind_r (check_fact docs (op_range opt)) (\<lambda>_. bind_r (check_fact docs (op_unit opt)) (\<lambda>_.
     bind_r (check_fact docs (op_runtime_default opt)) (\<lambda>_. bind_r (check_fact docs (op_request_field opt)) (\<lambda>_.
     bind_r (check_fact docs (op_restart_required opt)) (\<lambda>_. bind_r (check_fact docs (op_sensitive opt)) (\<lambda>_.
     bind_r (check_fact docs (op_local_path opt)) (\<lambda>_. bind_r (check_fact docs (op_benchmark_public opt)) (\<lambda>_.
     bind_r (check_fact docs (op_benchmark_name opt)) (\<lambda>_. bind_r (check_fact docs (op_benchmark_role opt)) (\<lambda>_.
     bind_r (check_r (case fa_value (op_benchmark_name opt) of None \<Rightarrow> True | Some n \<Rightarrow> benchmark_identifier n)
       (op_key opt @ '': invalid benchmark setting name'')) (\<lambda>_.
     check_each (check_source docs) (op_raw_spans opt))))))))))))))))"

fun is_scalar :: "json \<Rightarrow> bool" where
  "is_scalar JNull = False"
| "is_scalar (JArr _) = False"
| "is_scalar (JObj _) = False"
| "is_scalar _ = True"

definition range_ok :: "option_definition \<Rightarrow> numeric_range \<Rightarrow> bool" where
  "range_ok opt r \<longleftrightarrow>
     supported (op_kind opt) \<in> {Some Integer, Some Number} \<and> range_valid r \<and>
     (supported (op_kind opt) = Some Integer \<longrightarrow> list_all f64_whole (nr_sentinels r))"

definition check_option_values :: "option_definition \<Rightarrow> string + unit" where
  "check_option_values opt =
     bind_r (check_r (case supported (op_arity opt) of None \<Rightarrow> True
         | Some a \<Rightarrow> ar_min a \<le> 256 \<and> (case ar_max a of None \<Rightarrow> True | Some n \<Rightarrow> ar_min a \<le> n \<and> n \<le> 256))
       (op_key opt @ '': invalid arity'')) (\<lambda>_.
     bind_r (check_r (case supported (op_choices opt) of None \<Rightarrow> True
         | Some cs \<Rightarrow> length cs \<le> 256 \<and> list_all is_scalar cs)
       (op_key opt @ '': invalid documented choices'')) (\<lambda>_.
     check_r (case supported (op_range opt) of None \<Rightarrow> True | Some r \<Rightarrow> range_ok opt r)
       (op_key opt @ '': invalid numeric range'')))"

record seen_options =
  so_keys :: "string list"
  so_flags :: "(string list \<times> string) list"
  so_positions :: "(string list \<times> nat) list"
  so_fields :: "string list"

definition flag_mark :: "char \<Rightarrow> bool" where
  "flag_mark c \<longleftrightarrow> c = CHR ''-'' \<or> c = CHR ''/''"

definition flag_text_ok :: "string \<Rightarrow> bool" where
  "flag_text_ok flag \<longleftrightarrow>
     (let body = dropWhile flag_mark flag in
      flag \<noteq> [] \<and> flag_mark (hd flag) \<and> body \<noteq> [] \<and>
      list_all (\<lambda>b. is_ascii_alphanumeric b \<or> b \<in> set ''_-.?'') body)"

definition spelling_ok :: "option_definition \<Rightarrow> spelling \<Rightarrow> bool" where
  "spelling_ok opt sg \<longleftrightarrow>
     flag_text_ok (sg_flag sg) \<and>
     (sg_style sg = Equals \<longrightarrow> (case supported (op_arity opt) of None \<Rightarrow> False | Some a \<Rightarrow> ar_max a = Some 1)) \<and>
     (sg_polarity sg \<noteq> None \<longrightarrow> supported (op_kind opt) = Some Boolean \<and>
        (case supported (op_arity opt) of None \<Rightarrow> False | Some a \<Rightarrow> ar_max a = Some 0))"

fun check_spellings ::
  "option_definition \<Rightarrow> spelling list \<Rightarrow> (string list \<times> string) list \<Rightarrow> string + (string list \<times> string) list" where
  "check_spellings opt [] flags = Inr flags"
| "check_spellings opt (sg # sgs) flags =
     (if spelling_ok opt sg \<and> (op_scope opt, sg_flag sg) \<notin> set flags
      then check_spellings opt sgs ((op_scope opt, sg_flag sg) # flags)
      else Inl (op_key opt @ '': invalid or conflicting flag spelling''))"

definition check_request_target :: "option_definition \<Rightarrow> seen_options \<Rightarrow> string + seen_options" where
  "check_request_target opt so =
     (case supported (op_request_field opt) of
        None \<Rightarrow> Inl (op_key opt @ '': request fields need explicit protocol metadata'')
      | Some fld \<Rightarrow>
          if plain_identifier fld \<and>
            (case fa_source (op_request_field opt) of Some (AdapterSource _ _) \<Rightarrow> True | _ \<Rightarrow> False) \<and>
            fld \<notin> set (so_fields so) \<and> op_spellings opt = [] \<and> op_position opt = None
          then Inr (so\<lparr>so_fields := fld # so_fields so\<rparr>)
          else Inl (op_key opt @ '': invalid request mapping''))"

definition check_launch_target :: "option_definition \<Rightarrow> seen_options \<Rightarrow> string + seen_options" where
  "check_launch_target opt so =
     (if fa_value (op_request_field opt) \<noteq> None \<or> ((op_position opt \<noteq> None) = (op_spellings opt \<noteq> []))
      then Inl (op_key opt @ '': choose flags or a positional slot'')
      else
        bind_r (case op_position opt of
            None \<Rightarrow> Inr so
          | Some p \<Rightarrow>
              if (op_scope opt, p) \<in> set (so_positions so) then Inl ''duplicate scoped positional slot''
              else Inr (so\<lparr>so_positions := (op_scope opt, p) # so_positions so\<rparr>)) (\<lambda>so.
        bind_r (check_spellings opt (op_spellings opt) (so_flags so)) (\<lambda>flags.
        Inr (so\<lparr>so_flags := flags\<rparr>))))"

definition check_option :: "raw_help list \<Rightarrow> option_definition \<Rightarrow> seen_options \<Rightarrow> string + seen_options" where
  "check_option docs opt so =
     bind_r (check_r (plain_identifier (op_key opt) \<and> valid_scope (op_scope opt) \<and> op_key opt \<notin> set (so_keys so) \<and>
         bounded_text (op_help opt) 32768 \<and> bounded_text (op_group opt) 256)
       ''invalid or duplicate runtime option identity'') (\<lambda>_.
     let so = so\<lparr>so_keys := op_key opt # so_keys so\<rparr> in
     bind_r (check_option_facts docs opt) (\<lambda>_.
     bind_r (check_option_values opt) (\<lambda>_.
     case op_target opt of
       Request \<Rightarrow> check_request_target opt so
     | Launch \<Rightarrow> check_launch_target opt so)))"

fun check_options :: "raw_help list \<Rightarrow> option_definition list \<Rightarrow> seen_options \<Rightarrow> string + unit" where
  "check_options docs [] so = Inr ()"
| "check_options docs (opt # opts) so = bind_r (check_option docs opt so) (check_options docs opts)"

definition option_by_key :: "option_schema \<Rightarrow> string \<Rightarrow> option_definition option" where
  "option_by_key sc k = find (\<lambda>opt. op_key opt = k) (os_options sc)"

definition check_operand :: "json_lib \<Rightarrow> option_schema \<Rightarrow> predicate \<Rightarrow> string + unit" where
  "check_operand J sc pd =
     (case (pd_equals pd, option_by_key sc (pd_key pd)) of
        (Some expected, Some opt) \<Rightarrow>
          check_r (expected \<noteq> JNull \<and> (case scalar J opt expected of Inl _ \<Rightarrow> False | Inr _ \<Rightarrow> True))
            (pd_key pd @ '': constraint operand does not match the option's documented values'')
      | _ \<Rightarrow> Inr ())"

definition check_constraint :: "json_lib \<Rightarrow> option_schema \<Rightarrow> relation fact \<Rightarrow> string + unit" where
  "check_constraint J sc c =
     bind_r (check_fact (os_raw_help sc) c) (\<lambda>_.
     case supported c of
       None \<Rightarrow> Inr ()
     | Some rel \<Rightarrow>
         bind_r (check_r (option_by_key sc (pd_key (rl_when rel)) \<noteq> None \<and> option_by_key sc (pd_key (rl_other rel)) \<noteq> None)
           ''constraint refers to an unknown option'') (\<lambda>_.
         bind_r (check_operand J sc (rl_when rel)) (\<lambda>_. check_operand J sc (rl_other rel))))"

text \<open>The encoded size of a schema is an argument.\<close>

definition schema_validate :: "json_lib \<Rightarrow> (option_schema \<Rightarrow> nat) \<Rightarrow> option_schema \<Rightarrow> string + unit" where
  "schema_validate J encoded_size sc =
     bind_r (check_r (os_version sc = schema_version)
       (''unsupported runtime option schema version '' @ digits_of_nat (os_version sc) @
        ''; this app supports '' @ digits_of_nat schema_version)) (\<lambda>_.
     bind_r (check_binding (os_binding sc)) (\<lambda>_.
     bind_r (check_r (length (os_options sc) \<le> max_options \<and> length (os_constraints sc) \<le> max_options)
       ''runtime option schema exceeds its option/constraint limit'') (\<lambda>_.
     bind_r (check_r (sum_list (map (length \<circ> rh_text) (os_raw_help sc)) \<le> max_help_bytes)
       ''runtime option schema raw help exceeds 2 MiB'') (\<lambda>_.
     bind_r (check_help [] (os_raw_help sc)) (\<lambda>_.
     bind_r (check_fact (os_raw_help sc) (os_end_of_options sc)) (\<lambda>_.
     bind_r (check_options (os_raw_help sc) (os_options sc)
       \<lparr>so_keys = [], so_flags = [], so_positions = [], so_fields = []\<rparr>) (\<lambda>_.
     bind_r (check_each (check_constraint J sc) (os_constraints sc)) (\<lambda>_.
     check_r (encoded_size sc \<le> max_schema_bytes) ''runtime option schema exceeds 3 MiB''))))))))"

text \<open>The decoder of a schema is an argument.\<close>

definition schema_parse ::
  "json_lib \<Rightarrow> (option_schema \<Rightarrow> nat) \<Rightarrow> (string \<Rightarrow> string + option_schema) \<Rightarrow> string \<Rightarrow> string + option_schema" where
  "schema_parse J encoded_size decode bytes =
     (if length bytes > max_schema_bytes then Inl ''runtime option schema exceeds 3 MiB''
      else case decode bytes of
        Inl e \<Rightarrow> Inl (''invalid runtime option schema: '' @ e)
      | Inr sc \<Rightarrow> bind_r (schema_validate J encoded_size sc) (\<lambda>_. Inr sc))"

fun least_name :: "string list \<Rightarrow> string option" where
  "least_name [] = None"
| "least_name (x # xs) = (case least_name xs of None \<Rightarrow> Some x | Some y \<Rightarrow> Some (if x \<le> y then x else y))"

definition public_setting_name :: "option_definition \<Rightarrow> string option" where
  "public_setting_name opt =
     (let public = (\<lambda>f. Option.bind (supported f) (\<lambda>n. if benchmark_identifier n then Some n else None)) in
      case public (op_benchmark_name opt) of
        Some n \<Rightarrow> Some n
      | None \<Rightarrow>
          if op_target opt = Request then public (op_request_field opt)
          else least_name (filter (\<lambda>n. \<not> starts_with ''no-'' n \<and> benchmark_identifier n)
            (List.map_filter (\<lambda>sg. strip_prefix ''--'' (sg_flag sg))
              (filter (\<lambda>sg. sg_polarity sg \<noteq> Some False) (op_spellings opt)))))"

section \<open>Resolving saved values\<close>

type_synonym overrides = "(string \<times> occurrence list) list"

definition override_rows :: "override \<Rightarrow> occurrence list" where
  "override_rows ov = map (\<lambda>row. (ov_spelling ov, row)) (ov_occurrences ov)"

definition managed_message :: "option_definition \<Rightarrow> managed_binding \<Rightarrow> string" where
  "managed_message opt b =
     (case b of
        EntryPoint \<Rightarrow> ''this option is fixed by the registered entry point; its saved value was retained. Register another entry point to change it''
      | Reserved \<Rightarrow> ''the engine's adapter reserves this option for the app; its saved value was retained''
      | _ \<Rightarrow>
          if b = Discovery \<and> op_position opt \<noteq> None
          then ''this positional's place in the launch command is not mapped; confirm its role in the reviewed help first. Its saved value was retained''
          else ''this option is managed by the app; use its binding control'')"

text \<open>What one saved option contributes.\<close>

datatype contribution = Problem string | Arguments "string list" | RequestField string json

definition resolve_override :: "json_lib \<Rightarrow> option_schema \<Rightarrow> string list \<Rightarrow> string \<Rightarrow> occurrence list \<Rightarrow> contribution" where
  "resolve_override J sc selected k rows =
     (case option_by_key sc k of
        None \<Rightarrow> Problem ''saved option is absent from this schema; review the runtime change''
      | Some opt \<Rightarrow>
          if take (length (op_scope opt)) selected \<noteq> op_scope opt
          then Problem ''option belongs to another subcommand; its saved value was retained''
          else case op_managed opt of
            Some b \<Rightarrow> Problem (managed_message opt b)
          | None \<Rightarrow>
              (case resolve_rows J opt rows of
                 Inl e \<Rightarrow> Problem e
               | Inr args \<Rightarrow>
                   if op_target opt = Request then
                     (if length rows \<noteq> 1 \<or> length (snd (hd rows)) \<noteq> 1
                      then Problem ''request mapping needs exactly one explicit value''
                      else RequestField (the (supported (op_request_field opt))) (hd (snd (hd rows))))
                   else Arguments args))"

type_synonym contributions = "(string \<times> contribution) list"

definition contributions_of :: "json_lib \<Rightarrow> option_schema \<Rightarrow> string list \<Rightarrow> overrides \<Rightarrow> contributions" where
  "contributions_of J sc selected ovs = map (\<lambda>(k, rows). (k, resolve_override J sc selected k rows)) ovs"

fun problem_issues :: "contributions \<Rightarrow> option_issue list" where
  "problem_issues [] = []"
| "problem_issues ((k, Problem m) # cs) = \<lparr>oi_key = k, oi_message = m\<rparr> # problem_issues cs"
| "problem_issues (_ # cs) = problem_issues cs"

fun emitted_arguments :: "contributions \<Rightarrow> (string \<times> string list) list" where
  "emitted_arguments [] = []"
| "emitted_arguments ((k, Arguments args) # cs) = (k, args) # emitted_arguments cs"
| "emitted_arguments (_ # cs) = emitted_arguments cs"

fun request_values :: "contributions \<Rightarrow> (string \<times> json) list \<Rightarrow> (string \<times> json) list" where
  "request_values [] request = request"
| "request_values ((k, RequestField f v) # cs) request = request_values cs (map_insert f v request)"
| "request_values (_ # cs) request = request_values cs request"

definition predicate_matches :: "json_lib \<Rightarrow> overrides \<Rightarrow> predicate \<Rightarrow> bool" where
  "predicate_matches J ovs pd \<longleftrightarrow>
     (case map_of ovs (pd_key pd) of
        None \<Rightarrow> False
      | Some rows \<Rightarrow>
          rows \<noteq> [] \<and>
          (case pd_equals pd of
             None \<Rightarrow> True
           | Some expected \<Rightarrow> list_ex (\<lambda>(_, row). length row = 1 \<and> same_operand J (hd row) expected) rows))"

definition constraint_issues :: "json_lib \<Rightarrow> overrides \<Rightarrow> relation fact \<Rightarrow> option_issue list" where
  "constraint_issues J ovs c =
     (case supported c of
        Some (Requires w other) \<Rightarrow>
          if predicate_matches J ovs w \<and> \<not> predicate_matches J ovs other
          then [\<lparr>oi_key = pd_key w, oi_message = ''requires the documented value of '' @ pd_key other\<rparr>] else []
      | Some (Excludes w other) \<Rightarrow>
          if predicate_matches J ovs w \<and> predicate_matches J ovs other
          then [\<lparr>oi_key = pd_key w, oi_message = ''cannot be combined with '' @ pd_key other\<rparr>] else []
      | None \<Rightarrow> [])"

type_synonym positional = "nat \<times> string \<times> string list"

text \<open>The options of one scope in schema order: its positional values, its flags, and what is left.\<close>

fun take_options ::
  "string list \<Rightarrow> option_definition list \<Rightarrow> (string \<times> string list) list \<Rightarrow>
   positional list \<times> string list \<times> (string \<times> string list) list" where
  "take_options here [] emitted = ([], [], emitted)"
| "take_options here (opt # opts) emitted =
     (if op_scope opt \<noteq> here then take_options here opts emitted
      else case map_of emitted (op_key opt) of
        None \<Rightarrow> take_options here opts emitted
      | Some args \<Rightarrow>
          let (pos, argv, emitted) = take_options here opts (map_remove (op_key opt) emitted) in
          case op_position opt of
            Some p \<Rightarrow> ((p, op_key opt, args) # pos, argv, emitted)
          | None \<Rightarrow> (pos, args @ argv, emitted))"

definition earlier_missing :: "option_schema \<Rightarrow> string list \<Rightarrow> positional list \<Rightarrow> option_issue list" where
  "earlier_missing sc here pos =
     (if pos = [] then []
      else map (\<lambda>opt. \<lparr>oi_key = op_key opt, oi_message = ''an earlier positional value must be supplied before this slot''\<rparr>)
        (filter (\<lambda>opt. \<not> list_ex (\<lambda>(_, k, args). k = op_key opt \<and> args \<noteq> []) pos)
          (filter (\<lambda>opt. op_scope opt = here \<and>
              (case op_position opt of None \<Rightarrow> False | Some p \<Rightarrow> p < fst (last pos)) \<and>
              (op_managed opt = None \<or> op_managed opt = Some Discovery)) (os_options sc))))"

definition varying :: "option_schema \<Rightarrow> string \<Rightarrow> bool" where
  "varying sc k \<longleftrightarrow>
     list_ex (\<lambda>opt. op_key opt = k \<and>
       (supported (op_repeatable opt) = Some True \<or>
        (case supported (op_arity opt) of None \<Rightarrow> True | Some a \<Rightarrow> ar_max a \<noteq> Some (ar_min a)))) (os_options sc)"

definition varying_issues :: "option_schema \<Rightarrow> positional list \<Rightarrow> option_issue list" where
  "varying_issues sc pos =
     (case find (\<lambda>(_, k, _). varying sc k) (butlast pos) of
        None \<Rightarrow> []
      | Some (_, k, _) \<Rightarrow>
          [\<lparr>oi_key = k, oi_message = ''a positional with a varying value count must be the last positional supplied''\<rparr>])"

definition dashed :: "positional list \<Rightarrow> bool" where
  "dashed pos \<longleftrightarrow> list_ex (\<lambda>(_, _, args). list_ex (starts_with ''-'') args) pos"

definition delimiter :: "option_schema \<Rightarrow> bool \<Rightarrow> positional list \<Rightarrow> option_issue list \<times> string list" where
  "delimiter sc innermost pos =
     (if \<not> dashed pos then ([], [])
      else if \<not> innermost \<or> supported (os_end_of_options sc) \<noteq> Some True
      then ([\<lparr>oi_key = fst (snd (hd pos)),
              oi_message = ''leading-dash positional values need an explicitly supported end-of-options delimiter''\<rparr>], [])
      else ([], [''--'']))"

definition positional_args :: "positional list \<Rightarrow> string list" where
  "positional_args pos = concat (map (\<lambda>(_, _, args). args) pos)"

text \<open>The arguments of one depth, its issues, and the emitted options that remain.\<close>

definition depth_arguments ::
  "option_schema \<Rightarrow> bool \<Rightarrow> string list \<Rightarrow> (string \<times> string list) list \<Rightarrow>
   option_issue list \<times> string list \<times> (string \<times> string list) list" where
  "depth_arguments sc innermost here emitted =
     (let (pos, argv, emitted) = take_options here (os_options sc) emitted;
          pos = sort_key fst pos;
          (dash_issues, dash) = delimiter sc innermost pos
      in (earlier_missing sc here pos @ varying_issues sc pos @ dash_issues, argv @ dash @ positional_args pos, emitted))"

fun emit_scopes ::
  "option_schema \<Rightarrow> string list \<Rightarrow> string list \<Rightarrow> (string \<times> string list) list \<Rightarrow>
   string list \<Rightarrow> nat list \<Rightarrow> option_issue list \<Rightarrow> string list \<times> nat list \<times> option_issue list" where
  "emit_scopes sc here [] emitted argv boundaries issues =
     (let (more_issues, args, _) = depth_arguments sc True here emitted
      in (argv @ args, boundaries, issues @ more_issues))"
| "emit_scopes sc here (sub # subs) emitted argv boundaries issues =
     (let (more_issues, args, emitted) = depth_arguments sc False here emitted;
          argv = argv @ args
      in emit_scopes sc (here @ [sub]) subs emitted (argv @ [sub]) (boundaries @ [length argv]) (issues @ more_issues))"

definition resolve_validated ::
  "json_lib \<Rightarrow> option_schema \<Rightarrow> string list \<Rightarrow> overrides \<Rightarrow> option_issue list + resolved_options" where
  "resolve_validated J sc selected ovs =
     (if length ovs > max_options then Inl [\<lparr>oi_key = [], oi_message = ''too many saved runtime options''\<rparr>]
      else if \<not> valid_scope selected then Inl [\<lparr>oi_key = [], oi_message = ''invalid selected subcommand''\<rparr>]
      else
        let cs = contributions_of J sc selected ovs;
            emitted = emitted_arguments cs;
            request = request_values cs [];
            issues = problem_issues cs @ concat (map (constraint_issues J ovs) (os_constraints sc));
            (argv, boundaries, issues) = emit_scopes sc [] selected emitted [] [] issues;
            issues = issues @
              (if length argv > max_arguments \<or> sum_list (map length argv) > max_values_bytes
               then [\<lparr>oi_key = [], oi_message = ''runtime option arguments exceed their size limit''\<rparr>] else [])
        in if issues = [] then Inr \<lparr>ro_boundaries = boundaries, ro_argv = argv, ro_request = request\<rparr>
           else Inl issues)"

definition resolve_occurrences ::
  "json_lib \<Rightarrow> (option_schema \<Rightarrow> nat) \<Rightarrow> option_schema \<Rightarrow> string list \<Rightarrow> overrides \<Rightarrow> option_issue list + resolved_options" where
  "resolve_occurrences J encoded_size sc selected ovs =
     (case schema_validate J encoded_size sc of
        Inl m \<Rightarrow> Inl [\<lparr>oi_key = [], oi_message = m\<rparr>]
      | Inr _ \<Rightarrow> resolve_validated J sc selected ovs)"

definition schema_resolve ::
  "json_lib \<Rightarrow> (option_schema \<Rightarrow> nat) \<Rightarrow> option_schema \<Rightarrow> string list \<Rightarrow> (string \<times> override) list \<Rightarrow>
   option_issue list + resolved_options" where
  "schema_resolve J encoded_size sc selected ovs =
     resolve_occurrences J encoded_size sc selected (map (\<lambda>(k, ov). (k, override_rows ov)) ovs)"

section \<open>The sections of a command\<close>

fun split_sections :: "string list \<Rightarrow> nat \<Rightarrow> (nat \<times> string) list \<Rightarrow> string + string list list" where
  "split_sections argv start [] = Inr [drop start argv]"
| "split_sections argv start ((i, sub) # rest) =
     (if i < start \<or> \<not> (i < length argv \<and> argv ! i = sub) then Inl ''resolved scope boundary is invalid''
      else bind_r (split_sections argv (i + 1) rest) (\<lambda>ss. Inr (drop start (take i argv) # ss)))"

definition resolved_sections :: "resolved_options \<Rightarrow> string list \<Rightarrow> string + string list list" where
  "resolved_sections r scope =
     (if length (ro_boundaries r) \<noteq> length scope
      then Inl ''resolved scope boundaries do not match the command layout''
      else split_sections (ro_argv r) 0 (zip (ro_boundaries r) scope))"

end
