(* ===== verification/OptionResolution.thy ===== *)
theory OptionResolution
  imports OptionSchema
begin

text \<open>
  What the resolution of saved option values promises: the command is laid out by scope in schema
  order, every saved value is honoured or reported, no saved value is read as an option, and operands
  of constraints are compared exactly.
\<close>

section \<open>Operands\<close>

text \<open>The exact value of a JSON number.\<close>

definition exact_number :: "json_lib \<Rightarrow> string \<Rightarrow> rat" where
  "exact_number J t = (case number_integer t of Some i \<Rightarrow> of_int i | None \<Rightarrow> jl_float J t)"

lemma number_integer_range: "number_integer t = Some i \<Longrightarrow> - (2 ^ 63) \<le> i \<and> i < 2 ^ 64"
  by (auto simp: number_integer_def split: option.splits if_splits)

lemma integer_float_exact:
  assumes "number_integer t = Some i"
  shows "integer_float J i s \<longleftrightarrow> of_int i = jl_float J s"
proof -
  have r: "- (2 ^ 63) \<le> i" "i < 2 ^ 64" using number_integer_range [OF assms] by simp_all
  then have "(of_int (- (2 ^ 63)) :: rat) \<le> of_int i" "(of_int i :: rat) < of_int (2 ^ 64)"
    by (simp_all only: of_int_le_iff of_int_less_iff)
  then show ?thesis unfolding integer_float_def Let_def whole_def by (metis floor_of_int)
qed

lemma same_number: "same_operand J (JNum a) (JNum b) \<longleftrightarrow> exact_number J a = exact_number J b"
  by (auto simp: exact_number_def integer_float_exact split: option.split)

lemma number_eq_simps:
  "number_eq J a a" "number_eq J a b = number_eq J b a"
  "number_eq J a b \<Longrightarrow> number_eq J b c \<Longrightarrow> number_eq J a c"
  by (auto simp: number_eq_def split: option.splits)

lemma json_eq_lists:
  "json_list_eq J vs ws = list_all2 (json_eq J) vs ws"
  "json_fields_eq J ms ns = list_all2 (rel_prod (=) (json_eq J)) ms ns"
proof -
  show "json_list_eq J vs ws = list_all2 (json_eq J) vs ws"
    by (induction vs ws rule: list_induct2') simp_all
  show "json_fields_eq J ms ns = list_all2 (rel_prod (=) (json_eq J)) ms ns"
    by (induction ms ns rule: list_induct2') auto
qed

lemma json_eq_refl: "json_eq J v v"
  by (induction v) (auto simp: json_eq_lists number_eq_simps intro!: list_all2_same [THEN iffD2] split: prod.split)

lemma json_eq_left:
  "json_eq J JNull w \<longleftrightarrow> w = JNull" "json_eq J (JBool b) w \<longleftrightarrow> w = JBool b" "json_eq J (JStr s) w \<longleftrightarrow> w = JStr s"
  by (cases w; auto)+

lemma json_eq_sym: "json_eq J v w \<Longrightarrow> json_eq J w v"
proof (induction v arbitrary: w)
  case (JNum s)
  then show ?case by (cases w) (auto simp: number_eq_simps(2))
next
  case (JArr vs)
  then show ?case by (cases w) (fastforce simp: json_eq_lists list_all2_conv_all_nth)+
next
  case (JObj ms)
  then obtain ns where w: "w = JObj ns" and r: "list_all2 (rel_prod (=) (json_eq J)) ms ns"
    by (cases w) (auto simp: json_eq_lists)
  have "list_all2 (\<lambda>x y. rel_prod (=) (json_eq J) y x) ms ns"
    using r by (rule list.rel_mono_strong) (use JObj.IH in \<open>fastforce simp: rel_prod_sel snds.simps\<close>)
  then show ?case by (simp add: w json_eq_lists list.rel_flip [of _ ns ms, symmetric] conversep_iff [abs_def])
qed (simp_all add: json_eq_left)

lemma json_eq_trans: "json_eq J u v \<Longrightarrow> json_eq J v w \<Longrightarrow> json_eq J u w"
proof (induction u arbitrary: v w)
  case (JNum s)
  then show ?case by (cases v; cases w) (auto intro: number_eq_simps(3))
next
  case (JArr vs)
  show ?case
  proof (cases v; cases w)
    fix xs ys assume "v = JArr xs" "w = JArr ys"
    then show ?thesis using JArr
      by (auto simp: json_eq_lists list_all2_conv_all_nth intro: JArr.IH)
  qed (use JArr in simp_all)
next
  case (JObj ms)
  show ?case
  proof (cases v; cases w)
    fix xs ys assume vw: "v = JObj xs" "w = JObj ys"
    { fix i assume i: "i < length ms"
      then have "ms ! i \<in> set ms" by simp
      moreover have "rel_prod (=) (json_eq J) (ms ! i) (xs ! i)" "rel_prod (=) (json_eq J) (xs ! i) (ys ! i)"
        using JObj.prems vw i by (auto simp: json_eq_lists list_all2_conv_all_nth)
      ultimately have "rel_prod (=) (json_eq J) (ms ! i) (ys ! i)"
        using JObj.IH [of "ms ! i" "snd (ms ! i)" "snd (xs ! i)" "snd (ys ! i)"] by (auto simp: rel_prod_sel snds.simps) }
    then show ?thesis using JObj.prems vw by (auto simp: json_eq_lists list_all2_conv_all_nth)
  qed (use JObj in simp_all)
qed (auto simp: json_eq_left)

text \<open>C26. Operands of constraints are compared exactly: the comparison is an equivalence, and two numbers are
  equal operands precisely when their values are equal, whether they were written as integers or as
  floats; no rounding or saturating conversion makes different numbers match.\<close>

theorem same_operand_exact:
  "equivp (same_operand J) \<and> (\<forall>a b. same_operand J (JNum a) (JNum b) \<longleftrightarrow> exact_number J a = exact_number J b)"
proof -
  have other: "same_operand J v w = json_eq J v w" if "\<not> (\<exists>a b. v = JNum a \<and> w = JNum b)" for v w
    using that by (cases v; cases w; simp)
  have mixed: "\<not> same_operand J (JNum a) w" "\<not> same_operand J w (JNum a)" if "\<nexists>b. w = JNum b" for a w
    using that by (cases w; simp)+
  have num: "(\<exists>b. w = JNum b) \<longleftrightarrow> (\<exists>a. v = JNum a)" if "same_operand J v w" for v w
    using that mixed by metis
  have "equivp (same_operand J)"
  proof (rule equivpI)
    show "reflp (same_operand J)" by (rule reflpI) (metis same_number other json_eq_refl)
    show "symp (same_operand J)" by (rule sympI) (metis same_number other json_eq_sym)
    show "transp (same_operand J)"
    proof (rule transpI)
      fix u v w assume uv: "same_operand J u v" and vw: "same_operand J v w"
      show "same_operand J u w"
      proof (cases "\<exists>a. v = JNum a")
        case True
        with num [OF uv] num [OF vw] uv vw show ?thesis by (auto simp del: same_operand.simps simp: same_number)
      next
        case False
        with num [OF uv] num [OF vw] uv vw show ?thesis using json_eq_trans by (metis other)
      qed
    qed
  qed
  then show ?thesis by (simp add: same_number del: same_operand.simps)
qed

section \<open>Schemas that pass the check\<close>

lemma check_r_Inr [simp]: "check_r b e = Inr u \<longleftrightarrow> b"
  by (simp add: check_r_def)

lemma check_each_Inr: "check_each f xs = Inr u \<longleftrightarrow> (\<forall>x \<in> set xs. f x = Inr ())"
  by (induction xs) (auto simp: bind_r_Inr_iff)

text \<open>What one option adds to the names that are taken.\<close>

definition option_ok :: "option_definition \<Rightarrow> bool" where
  "option_ok opt \<longleftrightarrow>
     valid_scope (op_scope opt) \<and>
     (op_target opt = Launch \<longrightarrow> (op_position opt = None) = (op_spellings opt \<noteq> []) \<and> list_all (spelling_ok opt) (op_spellings opt)) \<and>
     (op_target opt = Request \<longrightarrow> op_spellings opt = [] \<and> op_position opt = None \<and> supported (op_request_field opt) \<noteq> None)"

lemma check_spellings_Inr:
  "check_spellings opt sgs flags = Inr flags' \<Longrightarrow>
     list_all (spelling_ok opt) sgs \<and> flags' = rev (map (\<lambda>sg. (op_scope opt, sg_flag sg)) sgs) @ flags \<and>
     distinct (map (\<lambda>sg. (op_scope opt, sg_flag sg)) sgs) \<and>
     set (map (\<lambda>sg. (op_scope opt, sg_flag sg)) sgs) \<inter> set flags = {}"
  by (induction opt sgs flags rule: check_spellings.induct) (auto split: if_splits)

definition request_field_of :: "option_definition \<Rightarrow> string list" where
  "request_field_of opt = (if op_target opt = Request then [the (supported (op_request_field opt))] else [])"

definition flags_of :: "option_definition \<Rightarrow> (string list \<times> string) list" where
  "flags_of opt = map (\<lambda>sg. (op_scope opt, sg_flag sg)) (op_spellings opt)"

lemma check_launch_target_Inr:
  assumes "check_launch_target opt so = Inr so'"
  shows "(op_position opt = None) = (op_spellings opt \<noteq> []) \<and> list_all (spelling_ok opt) (op_spellings opt) \<and>
    so_keys so' = so_keys so \<and> so_fields so' = so_fields so \<and> so_flags so' = rev (flags_of opt) @ so_flags so \<and>
    distinct (flags_of opt) \<and> set (flags_of opt) \<inter> set (so_flags so) = {}"
proof -
  from assms obtain flags where "(op_position opt \<noteq> None) \<noteq> (op_spellings opt \<noteq> [])"
    and f: "check_spellings opt (op_spellings opt) (so_flags so) = Inr flags"
    and "so_flags so' = flags" "so_keys so' = so_keys so" "so_fields so' = so_fields so"
    unfolding check_launch_target_def
    by (cases "op_position opt") (auto simp: bind_r_Inr_iff split: if_splits)
  with check_spellings_Inr [OF f] show ?thesis by (cases "op_position opt") (simp_all add: flags_of_def)
qed

lemma check_option_Inr:
  assumes "check_option docs opt so = Inr so'"
  shows "option_ok opt \<and> op_key opt \<notin> set (so_keys so) \<and> so_keys so' = op_key opt # so_keys so \<and>
    so_fields so' = request_field_of opt @ so_fields so \<and> set (request_field_of opt) \<inter> set (so_fields so) = {} \<and>
    so_flags so' = rev (flags_of opt) @ so_flags so \<and> distinct (flags_of opt) \<and> set (flags_of opt) \<inter> set (so_flags so) = {}"
proof -
  from assms have ident: "valid_scope (op_scope opt)" "op_key opt \<notin> set (so_keys so)"
    and t: "(case op_target opt of Request \<Rightarrow> check_request_target opt (so\<lparr>so_keys := op_key opt # so_keys so\<rparr>)
        | Launch \<Rightarrow> check_launch_target opt (so\<lparr>so_keys := op_key opt # so_keys so\<rparr>)) = Inr so'"
    by (auto simp: check_option_def bind_r_Inr_iff Let_def)
  show ?thesis
  proof (cases "op_target opt")
    case Launch
    with t have "check_launch_target opt (so\<lparr>so_keys := op_key opt # so_keys so\<rparr>) = Inr so'" by simp
    from check_launch_target_Inr [OF this] ident Launch show ?thesis
      by (simp add: option_ok_def request_field_of_def flags_of_def)
  next
    case Request
    with t ident show ?thesis
      by (auto simp: check_request_target_def option_ok_def request_field_of_def flags_of_def split: option.splits if_splits)
  qed
qed

lemma check_options_Inr:
  assumes "check_options docs opts so = Inr u"
  shows "list_all option_ok opts \<and> distinct (map op_key opts) \<and> set (map op_key opts) \<inter> set (so_keys so) = {} \<and>
    distinct (concat (map request_field_of opts)) \<and>
    set (concat (map request_field_of opts)) \<inter> set (so_fields so) = {} \<and>
    distinct (concat (map flags_of opts)) \<and> set (concat (map flags_of opts)) \<inter> set (so_flags so) = {}"
  using assms
proof (induction docs opts so rule: check_options.induct)
  case (2 docs opt opts so)
  then obtain so' where so': "check_option docs opt so = Inr so'" and r: "check_options docs opts so' = Inr u"
    by (auto simp: bind_r_Inr_iff)
  note f = check_option_Inr [OF so']
  have d: "distinct (request_field_of opt)" by (simp add: request_field_of_def)
  from "2.IH" [OF r] f d show ?case by auto
qed simp

definition schema_sound :: "option_schema \<Rightarrow> bool" where
  "schema_sound sc \<longleftrightarrow>
     list_all option_ok (os_options sc) \<and> distinct (map op_key (os_options sc)) \<and>
     distinct (concat (map request_field_of (os_options sc))) \<and> distinct (concat (map flags_of (os_options sc)))"

lemma schema_validate_sound: "schema_validate J encoded_size sc = Inr u \<Longrightarrow> schema_sound sc"
  by (auto simp: schema_validate_def bind_r_Inr_iff schema_sound_def dest!: check_options_Inr)

section \<open>The layout of a command\<close>

text \<open>What the emitted options of one scope contribute, read off the schema.\<close>

definition args_at :: "(string \<times> string list) list \<Rightarrow> string \<Rightarrow> string list" where
  "args_at emitted k = (case map_of emitted k of None \<Rightarrow> [] | Some args \<Rightarrow> args)"

definition flag_arguments :: "option_schema \<Rightarrow> (string \<times> string list) list \<Rightarrow> string list \<Rightarrow> string list" where
  "flag_arguments sc emitted here =
     concat (map (\<lambda>opt. args_at emitted (op_key opt))
       (filter (\<lambda>opt. op_scope opt = here \<and> op_position opt = None) (os_options sc)))"

definition positional_of :: "(string \<times> string list) list \<Rightarrow> string list \<Rightarrow> option_definition \<Rightarrow> positional option" where
  "positional_of emitted here opt =
     (if op_scope opt \<noteq> here then None
      else case (op_position opt, map_of emitted (op_key opt)) of
        (Some p, Some args) \<Rightarrow> Some (p, op_key opt, args)
      | _ \<Rightarrow> None)"

definition positionals :: "option_schema \<Rightarrow> (string \<times> string list) list \<Rightarrow> string list \<Rightarrow> positional list" where
  "positionals sc emitted here = sort_key fst (List.map_filter (positional_of emitted here) (os_options sc))"

definition scope_section :: "option_schema \<Rightarrow> (string \<times> string list) list \<Rightarrow> bool \<Rightarrow> string list \<Rightarrow> string list" where
  "scope_section sc emitted innermost here =
     flag_arguments sc emitted here @ snd (delimiter sc innermost (positionals sc emitted here)) @
     positional_args (positionals sc emitted here)"

fun scope_sections :: "option_schema \<Rightarrow> (string \<times> string list) list \<Rightarrow> string list \<Rightarrow> string list \<Rightarrow> string list list" where
  "scope_sections sc emitted here [] = [scope_section sc emitted True here]"
| "scope_sections sc emitted here (sub # subs) =
     scope_section sc emitted False here # scope_sections sc emitted (here @ [sub]) subs"

lemma length_scope_sections: "length (scope_sections sc emitted here subs) = Suc (length subs)"
  by (induction subs arbitrary: here) simp_all

lemma map_filter_cong: "(\<And>x. x \<in> set xs \<Longrightarrow> f x = g x) \<Longrightarrow> List.map_filter f xs = List.map_filter g xs"
  by (induction xs) (simp_all add: List.map_filter_simps split: option.split)

lemma take_options_result:
  assumes "distinct (map op_key opts)" and "take_options here opts emitted = (pos, argv, emitted')"
  shows "pos = List.map_filter (positional_of emitted here) opts \<and>
    argv = concat (map (\<lambda>opt. args_at emitted (op_key opt)) (filter (\<lambda>opt. op_scope opt = here \<and> op_position opt = None) opts)) \<and>
    (\<forall>k. (\<forall>opt \<in> set opts. op_scope opt = here \<longrightarrow> op_key opt \<noteq> k) \<longrightarrow> map_of emitted' k = map_of emitted k)"
  using assms
proof (induction here opts emitted arbitrary: pos argv emitted' rule: take_options.induct)
  case (2 here opt opts emitted)
  show ?case
  proof (cases "op_scope opt = here \<and> map_of emitted (op_key opt) \<noteq> None")
    case False
    with "2.prems" have r: "take_options here opts emitted = (pos, argv, emitted')"
      by (auto split: if_splits)
    have "positional_of emitted here opt = None" "op_scope opt = here \<Longrightarrow> args_at emitted (op_key opt) = []"
      using False by (auto simp: positional_of_def args_at_def split: option.split)
    moreover have "pos = List.map_filter (positional_of emitted here) opts \<and>
      argv = concat (map (\<lambda>opt. args_at emitted (op_key opt)) (filter (\<lambda>opt. op_scope opt = here \<and> op_position opt = None) opts)) \<and>
      (\<forall>k. (\<forall>opt \<in> set opts. op_scope opt = here \<longrightarrow> op_key opt \<noteq> k) \<longrightarrow> map_of emitted' k = map_of emitted k)"
      using False "2.IH"(1,2) r "2.prems"(1) by (cases "op_scope opt = here") auto
    ultimately show ?thesis by (auto simp: List.map_filter_simps)
  next
    case True
    then obtain args where h: "op_scope opt = here" and args: "map_of emitted (op_key opt) = Some args" by auto
    define rest where "rest = map_remove (op_key opt) emitted"
    obtain pos1 argv1 em1 where r: "take_options here opts rest = (pos1, argv1, em1)" by (metis prod_cases3)
    have other: "map_of rest (op_key o2) = map_of emitted (op_key o2)" if "o2 \<in> set opts" for o2
      using imageI [OF that, of op_key] "2.prems"(1) by (auto simp: rest_def map_of_map_remove)
    have same: "positional_of rest here o2 = positional_of emitted here o2"
      "args_at rest (op_key o2) = args_at emitted (op_key o2)" if "o2 \<in> set opts" for o2
      using other [OF that] by (simp_all add: positional_of_def args_at_def)
    have IH: "pos1 = List.map_filter (positional_of rest here) opts"
      "argv1 = concat (map (\<lambda>opt. args_at rest (op_key opt)) (filter (\<lambda>opt. op_scope opt = here \<and> op_position opt = None) opts))"
      "\<And>k. (\<forall>opt \<in> set opts. op_scope opt = here \<longrightarrow> op_key opt \<noteq> k) \<Longrightarrow> map_of em1 k = map_of rest k"
      using "2.IH"(3) [of args] h args r "2.prems"(1) by (auto simp: rest_def)
    have IH1: "pos1 = List.map_filter (positional_of emitted here) opts"
      unfolding IH(1) using same(1) by (rule map_filter_cong)
    have IH2: "argv1 = concat (map (\<lambda>opt. args_at emitted (op_key opt)) (filter (\<lambda>opt. op_scope opt = here \<and> op_position opt = None) opts))"
      unfolding IH(2) by (intro arg_cong [where f = concat] map_cong refl) (use same(2) in simp)
    have res: "(pos, argv, emitted') = (case op_position opt of Some p \<Rightarrow> ((p, op_key opt, args) # pos1, argv1, em1) | None \<Rightarrow> (pos1, args @ argv1, em1))"
      using "2.prems"(2) h args r by (simp add: rest_def split: option.splits)
    have "positional_of emitted here opt = (case op_position opt of None \<Rightarrow> None | Some p \<Rightarrow> Some (p, op_key opt, args))"
      "args_at emitted (op_key opt) = args"
      using h args by (simp_all add: positional_of_def args_at_def split: option.split)
    then show ?thesis
      using res IH1 IH2 IH(3) h by (cases "op_position opt") (auto simp: List.map_filter_simps rest_def map_of_map_remove)
  qed
qed (simp add: List.map_filter_simps)

text \<open>A command is its sections with the names of the subcommands between them.\<close>

fun join_sections :: "string list list \<Rightarrow> string list \<Rightarrow> string list" where
  "join_sections (s # ss) (sub # subs) = s @ sub # join_sections ss subs"
| "join_sections (s # ss) [] = s"
| "join_sections [] subs = []"

fun section_ends :: "nat \<Rightarrow> string list list \<Rightarrow> string list \<Rightarrow> nat list" where
  "section_ends n (s # ss) (sub # subs) = (n + length s) # section_ends (n + length s + 1) ss subs"
| "section_ends n ss [] = []"
| "section_ends n [] subs = []"

lemma length_section_ends: "length ss = Suc (length subs) \<Longrightarrow> length (section_ends n ss subs) = length subs"
  by (induction n ss subs rule: section_ends.induct) auto

lemma split_sections_join:
  "length ss = Suc (length subs) \<Longrightarrow>
     split_sections (pre @ join_sections ss subs) (length pre) (zip (section_ends (length pre) ss subs) subs) = Inr ss"
proof (induction subs arbitrary: pre ss)
  case Nil
  then show ?case by (cases ss) auto
next
  case (Cons sub subs)
  then obtain s ss' where ss: "ss = s # ss'" "length ss' = Suc (length subs)" by (cases ss) auto
  have "split_sections (pre @ join_sections ss (sub # subs)) (length pre + length s + 1)
      (zip (section_ends (length pre + length s + 1) ss' subs) subs) = Inr ss'"
    using Cons.IH [OF ss(2), of "pre @ s @ [sub]"] by (simp add: ss(1))
  then show ?case by (simp add: ss(1) nth_append)
qed

definition untouched :: "option_schema \<Rightarrow> (string \<times> string list) list \<Rightarrow> (string \<times> string list) list \<Rightarrow> string list \<Rightarrow> bool" where
  "untouched sc emitted emitted0 here \<longleftrightarrow>
     (\<forall>opt \<in> set (os_options sc). length here \<le> length (op_scope opt) \<longrightarrow> map_of emitted (op_key opt) = map_of emitted0 (op_key opt))"

lemma depth_arguments_section:
  assumes "distinct (map op_key (os_options sc))" and un: "untouched sc emitted emitted0 here"
    and d: "depth_arguments sc innermost here emitted = (issues, args, emitted')"
  shows "args = scope_section sc emitted0 innermost here" and "untouched sc emitted' emitted0 (here @ [sub])"
    and "issues = earlier_missing sc here (positionals sc emitted0 here) @ varying_issues sc (positionals sc emitted0 here) @
       fst (delimiter sc innermost (positionals sc emitted0 here))"
proof -
  obtain pos argv em where t: "take_options here (os_options sc) emitted = (pos, argv, em)" by (metis prod_cases3)
  note r = take_options_result [OF assms(1) t]
  have same: "map_of emitted (op_key opt) = map_of emitted0 (op_key opt)" if "opt \<in> set (os_options sc)" "op_scope opt = here" for opt
    using un that by (simp add: untouched_def)
  have "pos = List.map_filter (positional_of emitted0 here) (os_options sc)"
    using r by (auto simp: positional_of_def same intro!: map_filter_cong)
  then have pos: "sort_key fst pos = positionals sc emitted0 here" by (simp add: positionals_def)
  have "argv = flag_arguments sc emitted0 here"
    using r by (auto simp: flag_arguments_def args_at_def same intro!: arg_cong [where f = concat])
  with d pos t show "args = scope_section sc emitted0 innermost here"
    and "issues = earlier_missing sc here (positionals sc emitted0 here) @ varying_issues sc (positionals sc emitted0 here) @
       fst (delimiter sc innermost (positionals sc emitted0 here))"
    by (auto simp: depth_arguments_def scope_section_def Let_def split: prod.splits)
  have "emitted' = em" using d t by (auto simp: depth_arguments_def Let_def split: prod.splits)
  moreover have "map_of em (op_key opt) = map_of emitted0 (op_key opt)"
    if o: "opt \<in> set (os_options sc)" "length here < length (op_scope opt)" for opt
  proof -
    have "op_key o2 \<noteq> op_key opt" if "o2 \<in> set (os_options sc)" "op_scope o2 = here" for o2
      using assms(1) that o by (auto simp: distinct_map inj_on_def)
    with r un o show ?thesis by (simp add: untouched_def)
  qed
  ultimately show "untouched sc emitted' emitted0 (here @ [sub])" by (simp add: untouched_def)
qed

fun scope_issues :: "option_schema \<Rightarrow> (string \<times> string list) list \<Rightarrow> string list \<Rightarrow> string list \<Rightarrow> option_issue list" where
  "scope_issues sc emitted here subs =
     (let pos = positionals sc emitted here in
      earlier_missing sc here pos @ varying_issues sc pos @ fst (delimiter sc (subs = []) pos) @
      (case subs of [] \<Rightarrow> [] | sub # rest \<Rightarrow> scope_issues sc emitted (here @ [sub]) rest))"

declare scope_issues.simps [simp del]

lemma emit_scopes_layout:
  assumes "distinct (map op_key (os_options sc))" and "untouched sc emitted emitted0 here"
  shows "emit_scopes sc here subs emitted argv boundaries issues =
    (argv @ join_sections (scope_sections sc emitted0 here subs) subs,
     boundaries @ section_ends (length argv) (scope_sections sc emitted0 here subs) subs,
     issues @ scope_issues sc emitted0 here subs)"
  using assms(2)
proof (induction subs arbitrary: here emitted argv boundaries issues)
  case Nil
  obtain i a e where d: "depth_arguments sc True here emitted = (i, a, e)" by (metis prod_cases3)
  from depth_arguments_section [OF assms(1) Nil d] d show ?case by (simp add: scope_issues.simps [of sc _ _ "[]"] Let_def)
next
  case (Cons sub subs)
  obtain i a e where d: "depth_arguments sc False here emitted = (i, a, e)" by (metis prod_cases3)
  note s = depth_arguments_section [OF assms(1) Cons.prems d]
  show ?case
    using Cons.IH [OF s(2) [of sub]] d s by (simp add: scope_issues.simps [of sc _ _ "sub # subs"] Let_def add.assoc)
qed

section \<open>Results\<close>

abbreviation emitted_of :: "json_lib \<Rightarrow> option_schema \<Rightarrow> string list \<Rightarrow> overrides \<Rightarrow> (string \<times> string list) list" where
  "emitted_of J sc selected ovs \<equiv> emitted_arguments (contributions_of J sc selected ovs)"

lemma resolve_Inr:
  assumes "resolve_occurrences J encoded_size sc selected ovs = Inr r"
  shows "schema_sound sc" and "valid_scope selected"
    and "problem_issues (contributions_of J sc selected ovs) = []"
    and "\<forall>c \<in> set (os_constraints sc). constraint_issues J ovs c = []"
    and "ro_argv r = join_sections (scope_sections sc (emitted_of J sc selected ovs) [] selected) selected"
    and "ro_boundaries r = section_ends 0 (scope_sections sc (emitted_of J sc selected ovs) [] selected) selected"
    and "scope_issues sc (emitted_of J sc selected ovs) [] selected = []"
    and "ro_request r = request_values (contributions_of J sc selected ovs) []"
proof -
  from assms have ok: "schema_validate J encoded_size sc = Inr ()" and v: "resolve_validated J sc selected ovs = Inr r"
    by (auto simp: resolve_occurrences_def split: sum.splits)
  show sound: "schema_sound sc" by (rule schema_validate_sound [OF ok])
  then have d: "distinct (map op_key (os_options sc))" by (simp add: schema_sound_def)
  have "untouched sc (emitted_of J sc selected ovs) (emitted_of J sc selected ovs) []" by (simp add: untouched_def)
  note e = emit_scopes_layout [OF d this]
  show "valid_scope selected" "problem_issues (contributions_of J sc selected ovs) = []"
    "\<forall>c \<in> set (os_constraints sc). constraint_issues J ovs c = []"
    "ro_argv r = join_sections (scope_sections sc (emitted_of J sc selected ovs) [] selected) selected"
    "ro_boundaries r = section_ends 0 (scope_sections sc (emitted_of J sc selected ovs) [] selected) selected"
    "scope_issues sc (emitted_of J sc selected ovs) [] selected = []"
    "ro_request r = request_values (contributions_of J sc selected ovs) []"
    using v by (auto simp: resolve_validated_def Let_def e split: if_split_asm)
qed

lemma resolved_sections_layout:
  assumes "resolve_occurrences J encoded_size sc selected ovs = Inr r"
  shows "resolved_sections r selected = Inr (scope_sections sc (emitted_of J sc selected ovs) [] selected)"
  using split_sections_join [of "scope_sections sc (emitted_of J sc selected ovs) [] selected" selected "[]"]
  by (simp add: resolved_sections_def resolve_Inr(5,6) [OF assms] length_section_ends length_scope_sections)

text \<open>C15. The boundaries that a resolution reports are the boundaries of its command: cut there, the arguments
  are one section for every prefix of the selected subcommand, each holding the arguments of the saved
  options of that scope in the order of the schema, its positional values last and by slot.\<close>

theorem resolution_lays_out_command:
  assumes "resolve_occurrences J encoded_size sc selected ovs = Inr r"
  shows "resolved_sections r selected = Inr (scope_sections sc (emitted_of J sc selected ovs) [] selected) \<and>
    ro_argv r = join_sections (scope_sections sc (emitted_of J sc selected ovs) [] selected) selected"
  using resolved_sections_layout [OF assms] resolve_Inr(5) [OF assms] by simp

lemma emitted_arguments_in: "(k, args) \<in> set (emitted_arguments cs) \<longleftrightarrow> (k, Arguments args) \<in> set cs"
  by (induction cs rule: emitted_arguments.induct) auto

lemma emitted_keys: "set (map fst (emitted_arguments cs)) \<subseteq> set (map fst cs)"
  by (induction cs rule: emitted_arguments.induct) auto

lemma emitted_distinct: "distinct (map fst cs) \<Longrightarrow> distinct (map fst (emitted_arguments cs))"
proof (induction cs rule: emitted_arguments.induct)
  case (2 k args cs)
  with emitted_keys [of cs] show ?case by auto
qed auto

lemma problem_free: "problem_issues cs = [] \<Longrightarrow> (k, c) \<in> set cs \<Longrightarrow> \<not> (\<exists>m. c = Problem m)"
  by (induction cs rule: problem_issues.induct) auto

lemma nth_scope_sections:
  "d \<le> length subs \<Longrightarrow>
     scope_sections sc em here subs ! d = scope_section sc em (d = length subs) (here @ take d subs)"
proof (induction subs arbitrary: here d)
  case (Cons sub subs)
  then show ?case by (cases d) auto
qed simp

lemma concat_infix: "x \<in> set xs \<Longrightarrow> \<exists>a b. concat xs = a @ x @ b"
  by (metis concat.simps(2) concat_append split_list)

lemma option_by_key_Some:
  "option_by_key sc k = Some opt \<longleftrightarrow> opt \<in> set (os_options sc) \<and> op_key opt = k"
  if "distinct (map op_key (os_options sc))"
proof
  assume "option_by_key sc k = Some opt"
  then show "opt \<in> set (os_options sc) \<and> op_key opt = k"
    by (auto simp: option_by_key_def find_Some_iff)
next
  assume o: "opt \<in> set (os_options sc) \<and> op_key opt = k"
  then obtain o2 where o2: "find (\<lambda>opt. op_key opt = k) (os_options sc) = Some o2"
    by (metis (mono_tags, lifting) find_None_iff option.exhaust)
  then have "o2 \<in> set (os_options sc)" "op_key o2 = k" by (auto simp: find_Some_iff)
  with o that have "o2 = opt" by (metis distinct_map inj_onD)
  with o2 show "option_by_key sc k = Some opt" by (simp add: option_by_key_def)
qed

lemma section_has_arguments:
  assumes "opt \<in> set (os_options sc)" and "map_of em (op_key opt) = Some args"
  shows "\<exists>a b. scope_section sc em innermost (op_scope opt) = a @ args @ b"
proof (cases "op_position opt")
  case None
  have "args_at em (op_key opt) = args" by (simp add: args_at_def assms(2))
  then have "args \<in> set (map (\<lambda>opt2. args_at em (op_key opt2))
      (filter (\<lambda>opt2. op_scope opt2 = op_scope opt \<and> op_position opt2 = None) (os_options sc)))"
    using assms(1) None by (auto intro!: image_eqI [of _ _ opt])
  from concat_infix [OF this] obtain a b where "flag_arguments sc em (op_scope opt) = a @ args @ b"
    by (auto simp: flag_arguments_def)
  then show ?thesis by (auto simp: scope_section_def)
next
  case (Some p)
  have "positional_of em (op_scope opt) opt = Some (p, op_key opt, args)"
    by (simp add: positional_of_def Some assms(2))
  then have "(p, op_key opt, args) \<in> set (positionals sc em (op_scope opt))"
    using assms(1) by (auto simp: positionals_def List.map_filter_def intro!: rev_image_eqI)
  then have "args \<in> set (map (\<lambda>(_, _, args). args) (positionals sc em (op_scope opt)))" by force
  from concat_infix [OF this] obtain a b where "positional_args (positionals sc em (op_scope opt)) = a @ args @ b"
    by (auto simp: positional_args_def)
  then have "scope_section sc em innermost (op_scope opt) =
      (flag_arguments sc em (op_scope opt) @ snd (delimiter sc innermost (positionals sc em (op_scope opt))) @ a) @ args @ b"
    by (simp add: scope_section_def)
  then show ?thesis by blast
qed

lemma map_of_map_insert: "map_of (map_insert k v m) = (map_of m)(k \<mapsto> v)"
  by (induction k v m rule: map_insert.induct) (auto simp: fun_eq_iff)

fun field_names :: "contributions \<Rightarrow> string list" where
  "field_names [] = []"
| "field_names ((k, RequestField f v) # cs) = f # field_names cs"
| "field_names (_ # cs) = field_names cs"

lemma request_values_other: "f \<notin> set (field_names cs) \<Longrightarrow> map_of (request_values cs m) f = map_of m f"
  by (induction cs m rule: request_values.induct) (auto simp: map_of_map_insert)

lemma request_values_field:
  "distinct (field_names cs) \<Longrightarrow> (k, RequestField f v) \<in> set cs \<Longrightarrow> map_of (request_values cs m) f = Some v"
proof (induction cs m rule: request_values.induct)
  case (2 k2 f2 v2 cs m)
  then show ?case by (auto simp: request_values_other map_of_map_insert)
qed auto

lemma field_names_in: "f \<in> set (field_names cs) \<longleftrightarrow> (\<exists>k v. (k, RequestField f v) \<in> set cs)"
  by (induction cs rule: field_names.induct) auto

lemma contribution_RequestField:
  assumes "resolve_override J sc selected k rows = RequestField f v"
  shows "\<exists>opt. option_by_key sc k = Some opt \<and> op_target opt = Request \<and> f = the (supported (op_request_field opt))"
  using assms by (auto simp: resolve_override_def split: option.splits if_splits sum.splits)

lemma distinct_concat_inj:
  "distinct (concat (map f xs)) \<Longrightarrow> x \<in> set xs \<Longrightarrow> y \<in> set xs \<Longrightarrow> a \<in> set (f x) \<Longrightarrow> a \<in> set (f y) \<Longrightarrow> distinct xs \<Longrightarrow> x = y"
  by (induction xs) auto

lemma field_names_distinct:
  assumes sound: "schema_sound sc" and "distinct (map fst ovs)"
  shows "distinct (field_names (contributions_of J sc selected ovs))"
  using assms(2)
proof (induction ovs)
  case (Cons x ovs)
  obtain k rows where x: "x = (k, rows)" by (cases x)
  have d: "distinct (map op_key (os_options sc))" "distinct (os_options sc)"
    using sound by (auto simp: schema_sound_def distinct_map)
  have "f \<notin> set (field_names (contributions_of J sc selected ovs))" if f: "resolve_override J sc selected k rows = RequestField f v" for f v
  proof
    assume "f \<in> set (field_names (contributions_of J sc selected ovs))"
    then obtain k2 rows2 v2 where k2: "(k2, rows2) \<in> set ovs" "resolve_override J sc selected k2 rows2 = RequestField f v2"
      by (auto simp: field_names_in contributions_of_def) metis
    from contribution_RequestField [OF f] contribution_RequestField [OF k2(2)] obtain o1 o2 where
      o: "option_by_key sc k = Some o1" "op_target o1 = Request" "f \<in> set (request_field_of o1)"
         "option_by_key sc k2 = Some o2" "op_target o2 = Request" "f \<in> set (request_field_of o2)"
      by (auto simp: request_field_of_def)
    then have "o1 \<in> set (os_options sc)" "op_key o1 = k" "o2 \<in> set (os_options sc)" "op_key o2 = k2"
      using option_by_key_Some [OF d(1)] by auto
    moreover from this o sound d(2) have "o1 = o2" by (auto simp: schema_sound_def dest: distinct_concat_inj)
    ultimately have "k = k2" by simp
    with k2(1) Cons.prems show False by (auto simp: x rev_image_eqI)
  qed
  with Cons show ?case by (cases "resolve_override J sc selected k rows") (auto simp: x contributions_of_def)
qed (simp add: contributions_of_def)

text \<open>A constraint holds for the saved values.\<close>

definition constraint_holds :: "json_lib \<Rightarrow> overrides \<Rightarrow> relation fact \<Rightarrow> bool" where
  "constraint_holds J ovs c \<longleftrightarrow>
     (case supported c of
        None \<Rightarrow> True
      | Some (Requires w other) \<Rightarrow> predicate_matches J ovs w \<longrightarrow> predicate_matches J ovs other
      | Some (Excludes w other) \<Rightarrow> \<not> (predicate_matches J ovs w \<and> predicate_matches J ovs other))"

text \<open>What a resolution does with one saved option.\<close>

lemma saved_option_resolved:
  assumes ok: "resolve_occurrences J encoded_size sc selected ovs = Inr r" and keys: "distinct (map fst ovs)"
    and x: "(k, rows) \<in> set ovs"
  obtains opt args where "option_by_key sc k = Some opt" "opt \<in> set (os_options sc)" "op_key opt = k"
    "take (length (op_scope opt)) selected = op_scope opt" "op_managed opt = None" "resolve_rows J opt rows = Inr args"
    "op_target opt = Launch \<longrightarrow> map_of (emitted_of J sc selected ovs) k = Some args"
    "op_target opt = Request \<longrightarrow> (\<exists>saved v. rows = [(saved, [v])] \<and>
       (k, RequestField (the (supported (op_request_field opt))) v) \<in> set (contributions_of J sc selected ovs))"
proof -
  have d: "distinct (map op_key (os_options sc))" using resolve_Inr(1) [OF ok] by (simp add: schema_sound_def)
  define cs where "cs = contributions_of J sc selected ovs"
  define c where "c = resolve_override J sc selected k rows"
  have c: "(k, c) \<in> set cs" using x by (force simp: cs_def c_def contributions_of_def)
  with problem_free [OF resolve_Inr(3) [OF ok]] have np: "\<nexists>m. c = Problem m" by (auto simp: cs_def)
  then obtain opt args where opt: "option_by_key sc k = Some opt" "take (length (op_scope opt)) selected = op_scope opt"
      "op_managed opt = None" "resolve_rows J opt rows = Inr args"
    and ct: "c = (if op_target opt = Request then
        (if length rows \<noteq> 1 \<or> length (snd (hd rows)) \<noteq> 1 then Problem ''request mapping needs exactly one explicit value''
         else RequestField (the (supported (op_request_field opt))) (hd (snd (hd rows)))) else Arguments args)"
    by (auto simp: c_def resolve_override_def split: option.splits if_splits sum.splits)
  have kd: "distinct (map fst cs)" using keys by (simp add: cs_def contributions_of_def comp_def case_prod_beta)
  have o: "opt \<in> set (os_options sc)" "op_key opt = k" using opt(1) option_by_key_Some [OF d] by blast+
  have "map_of (emitted_of J sc selected ovs) k = Some args" if "op_target opt = Launch"
  proof -
    have "(k, args) \<in> set (emitted_arguments cs)" using c ct that by (simp add: emitted_arguments_in)
    then show ?thesis using emitted_distinct [OF kd] by (simp add: cs_def)
  qed
  moreover have "\<exists>saved v. rows = [(saved, [v])] \<and> (k, RequestField (the (supported (op_request_field opt))) v) \<in> set cs"
    if "op_target opt = Request"
  proof -
    from ct that np have "length rows = 1" "length (snd (hd rows)) = 1" by (auto split: if_splits)
    then obtain saved v where "rows = [(saved, [v])]" by (auto simp: length_Suc_conv)
    with ct that c show ?thesis by simp
  qed
  ultimately show ?thesis using that opt o by (simp add: cs_def)
qed

text \<open>C10. A saved value is never dropped silently. When a resolution succeeds, every saved option belongs to
  the schema, to the selected subcommand and to the user, its arguments stand together in the section of
  its scope or its one value is the value of its request field, and every supported constraint holds;
  any other saved option makes the resolution fail with an issue.\<close>

theorem saved_values_honoured:
  assumes ok: "resolve_occurrences J encoded_size sc selected ovs = Inr r" and keys: "distinct (map fst ovs)"
  shows "(\<forall>(k, rows) \<in> set ovs. \<exists>opt. option_by_key sc k = Some opt \<and> op_managed opt = None \<and>
      take (length (op_scope opt)) selected = op_scope opt \<and>
      (op_target opt = Launch \<longrightarrow> (\<exists>args a b ss. resolve_rows J opt rows = Inr args \<and> resolved_sections r selected = Inr ss \<and>
         ss ! length (op_scope opt) = a @ args @ b)) \<and>
      (op_target opt = Request \<longrightarrow> (\<exists>saved v. rows = [(saved, [v])] \<and>
         map_of (ro_request r) (the (supported (op_request_field opt))) = Some v))) \<and>
    (\<forall>c \<in> set (os_constraints sc). constraint_holds J ovs c)"
proof (intro conjI ballI)
  fix x assume x: "x \<in> set ovs"
  obtain k rows where kr: "x = (k, rows)" by (cases x)
  from x obtain opt args where opt: "option_by_key sc k = Some opt" "opt \<in> set (os_options sc)" "op_key opt = k"
      "take (length (op_scope opt)) selected = op_scope opt" "op_managed opt = None" "resolve_rows J opt rows = Inr args"
    and launch: "op_target opt = Launch \<longrightarrow> map_of (emitted_of J sc selected ovs) k = Some args"
    and request: "op_target opt = Request \<longrightarrow> (\<exists>saved v. rows = [(saved, [v])] \<and>
       (k, RequestField (the (supported (op_request_field opt))) v) \<in> set (contributions_of J sc selected ovs))"
    unfolding kr by (rule saved_option_resolved [OF ok keys]) blast
  have "\<exists>args a b ss. resolve_rows J opt rows = Inr args \<and> resolved_sections r selected = Inr ss \<and>
         ss ! length (op_scope opt) = a @ args @ b" if l: "op_target opt = Launch"
  proof -
    have "length (op_scope opt) \<le> length selected" using opt(4) by (metis length_take min.cobounded2 min.commute)
    moreover obtain a b where "scope_section sc (emitted_of J sc selected ovs) (length (op_scope opt) = length selected) (op_scope opt) = a @ args @ b"
      using section_has_arguments [OF opt(2)] launch l opt(3) by blast
    ultimately show ?thesis
      using opt(4,6) resolved_sections_layout [OF ok] by (auto simp: nth_scope_sections)
  qed
  moreover have "\<exists>saved v. rows = [(saved, [v])] \<and> map_of (ro_request r) (the (supported (op_request_field opt))) = Some v"
    if "op_target opt = Request"
    using request that request_values_field [OF field_names_distinct [OF resolve_Inr(1) [OF ok] keys]] resolve_Inr(8) [OF ok] by fastforce
  ultimately show "case x of (k, rows) \<Rightarrow> \<exists>opt. option_by_key sc k = Some opt \<and> op_managed opt = None \<and>
      take (length (op_scope opt)) selected = op_scope opt \<and>
      (op_target opt = Launch \<longrightarrow> (\<exists>args a b ss. resolve_rows J opt rows = Inr args \<and> resolved_sections r selected = Inr ss \<and>
         ss ! length (op_scope opt) = a @ args @ b)) \<and>
      (op_target opt = Request \<longrightarrow> (\<exists>saved v. rows = [(saved, [v])] \<and>
         map_of (ro_request r) (the (supported (op_request_field opt))) = Some v))"
    using opt by (auto simp: kr)
next
  fix c assume "c \<in> set (os_constraints sc)"
  with resolve_Inr(4) [OF ok] have "constraint_issues J ovs c = []" by blast
  then show "constraint_holds J ovs c"
    by (auto simp: constraint_issues_def constraint_holds_def split: option.splits relation.splits if_splits)
qed

section \<open>Values and options\<close>

text \<open>An argument that no parser of the declared options takes for something else: it has no leading dash, it
  is a declared flag, a declared flag with its value, or the text of a value that is not a string.\<close>

definition own_argument :: "json_lib \<Rightarrow> option_schema \<Rightarrow> string \<Rightarrow> bool" where
  "own_argument J sc x \<longleftrightarrow>
     \<not> starts_with ''-'' x \<or>
     (\<exists>opt \<in> set (os_options sc). \<exists>sg \<in> set (op_spellings opt). x = sg_flag sg \<or> (\<exists>t. x = sg_flag sg @ ''='' @ t)) \<or>
     (\<exists>v. as_str v = None \<and> x = jl_render J v)"

lemma scalar_Inr: "scalar J opt v = Inr t \<Longrightarrow> t = scalar_text J (supported (op_kind opt)) v"
  by (auto simp: scalar_def bind_r_Inr_iff Let_def)

lemma scalar_text_own:
  "scalar J opt v = Inr t \<Longrightarrow> as_str v = None \<Longrightarrow> t = jl_render J v"
  by (auto simp: scalar_text_def dest!: scalar_Inr)

lemma resolve_row_own:
  assumes opt: "opt \<in> set (os_options sc)" and flags: "op_spellings opt \<noteq> []"
    and r: "resolve_row J opt a occ = Inr args"
  shows "list_all (own_argument J sc) args"
proof -
  obtain saved row where occ: "occ = (saved, row)" by (cases occ)
  from r obtain chosen where chosen: "chosen_spelling opt saved = Inr chosen"
    and rest: "(if supported (op_kind opt) = Some Boolean \<and> ar_max a = Some 0 then switch_row J opt saved chosen row
        else value_row J opt a chosen row) = Inr args"
    by (auto simp: resolve_row_def occ bind_r_Inr_iff)
  from chosen flags obtain sg where sg: "chosen = Some sg" "sg \<in> set (op_spellings opt)"
    by (auto simp: chosen_spelling_def find_Some_iff split: option.splits list.splits)
  have flag: "own_argument J sc (sg_flag s2)" "own_argument J sc (sg_flag s2 @ ''='' @ t)" if "s2 \<in> set (op_spellings opt)" for s2 t
    using opt that by (auto simp: own_argument_def)
  show ?thesis
  proof (cases "supported (op_kind opt) = Some Boolean \<and> ar_max a = Some 0")
    case True
    with rest have "switch_row J opt saved chosen row = Inr args" by simp
    then show ?thesis using sg flag(1)
      by (auto simp: switch_row_def bind_r_Inr_iff Let_def find_Some_iff split: if_splits option.splits Option.bind_splits)
  next
    case False
    with rest have v: "value_row J opt a chosen row = Inr args" by simp
    then obtain texts where vs: "traverse_r (scalar J opt) row = Inr texts"
      and args: "args = [] \<or> args = [sg_flag sg @ ''='' @ hd texts] \<or>
        args = sg_flag sg # texts \<and> \<not> list_ex (\<lambda>(v, t). as_str v \<noteq> None \<and> starts_with ''-'' t) (zip row texts)"
      by (auto simp: value_row_def bind_r_Inr_iff sg(1) split: if_splits)
    have l: "list_all2 (\<lambda>v t. scalar J opt v = Inr t) row texts" using vs by (simp add: traverse_r_Inr_iff)
    have "own_argument J sc t" if t: "t \<in> set texts" and d: "\<not> list_ex (\<lambda>(v, t). as_str v \<noteq> None \<and> starts_with ''-'' t) (zip row texts)" for t
    proof -
      from t obtain i where i: "i < length texts" "t = texts ! i" by (auto simp: in_set_conv_nth)
      define v where "v = row ! i"
      have v: "(v, t) \<in> set (zip row texts)" "scalar J opt v = Inr t"
        using l i by (auto simp: v_def list_all2_conv_all_nth set_zip)
      with d have "as_str v = None \<or> \<not> starts_with ''-'' t" by (auto simp: list_ex_iff)
      with scalar_text_own [OF v(2)] show ?thesis by (auto simp: own_argument_def)
    qed
    with args flag [OF sg(2)] show ?thesis by (auto simp: list_all_iff)
  qed
qed

lemma resolve_rows_own:
  assumes "opt \<in> set (os_options sc)" and "op_spellings opt \<noteq> []" and "resolve_rows J opt rows = Inr args"
  shows "list_all (own_argument J sc) args"
proof -
  from assms(3) obtain a argss where t: "traverse_r (resolve_row J opt a) rows = Inr argss" and args: "args = concat argss"
    by (auto simp: resolve_rows_def bind_r_Inr_iff)
  have "\<exists>row. resolve_row J opt a row = Inr xs" if "xs \<in> set argss" for xs
    using t that by (auto simp: traverse_r_Inr_iff list_all2_conv_all_nth in_set_conv_nth) (metis surj_pair)
  then have "list_all (list_all (own_argument J sc)) argss"
    using resolve_row_own [OF assms(1,2)] unfolding list_all_iff by blast
  then show ?thesis by (simp add: args list_all_iff)
qed

lemma flag_arguments_own:
  assumes ok: "resolve_occurrences J encoded_size sc selected ovs = Inr r"
  shows "list_all (own_argument J sc) (flag_arguments sc (emitted_of J sc selected ovs) here)"
proof -
  note sound = resolve_Inr(1) [OF ok]
  have d: "distinct (map op_key (os_options sc))" using sound by (simp add: schema_sound_def)
  have "list_all (own_argument J sc) (args_at (emitted_of J sc selected ovs) (op_key opt))"
    if o: "opt \<in> set (os_options sc)" "op_position opt = None" for opt
  proof (cases "map_of (emitted_of J sc selected ovs) (op_key opt)")
    case (Some args)
    then have "(op_key opt, Arguments args) \<in> set (contributions_of J sc selected ovs)"
      using map_of_SomeD emitted_arguments_in by fast
    then obtain rows where "resolve_override J sc selected (op_key opt) rows = Arguments args"
      by (auto simp: contributions_of_def)
    moreover have "option_by_key sc (op_key opt) = Some opt" using option_by_key_Some [OF d] o(1) by simp
    ultimately have r: "resolve_rows J opt rows = Inr args" and l: "op_target opt = Launch"
      by (auto simp: resolve_override_def intro: option_target.exhaust [of "op_target opt"] split: if_splits option.splits sum.splits)
    from sound o l have "op_spellings opt \<noteq> []" by (auto simp: schema_sound_def list_all_iff option_ok_def)
    from resolve_rows_own [OF o(1) this r] show ?thesis by (simp add: args_at_def Some)
  qed (simp add: args_at_def)
  then show ?thesis by (auto simp: flag_arguments_def list_all_iff)
qed

definition delimited :: "json_lib \<Rightarrow> option_schema \<Rightarrow> string list \<Rightarrow> bool" where
  "delimited J sc argv \<longleftrightarrow>
     (\<exists>front back. argv = front @ back \<and> list_all (own_argument J sc) front \<and>
        (back = [] \<or> hd back = ''--'' \<and> supported (os_end_of_options sc) = Some True))"

lemma section_delimited:
  assumes f: "list_all (own_argument J sc) (flag_arguments sc em here)"
    and i: "fst (delimiter sc innermost (positionals sc em here)) = []"
  shows "delimited J sc (scope_section sc em innermost here) \<and>
    (\<not> innermost \<longrightarrow> list_all (own_argument J sc) (scope_section sc em innermost here))"
proof (cases "dashed (positionals sc em here)")
  case True
  with i have e: "innermost" "supported (os_end_of_options sc) = Some True"
    by (auto simp: delimiter_def split: if_splits)
  then have "scope_section sc em innermost here = flag_arguments sc em here @ (''--'' # positional_args (positionals sc em here))"
    using True by (simp add: scope_section_def delimiter_def)
  with e f show ?thesis unfolding delimited_def by (metis list.sel(1))
next
  case False
  then have "list_all (own_argument J sc) (positional_args (positionals sc em here))"
    by (fastforce simp: dashed_def positional_args_def list_ex_iff list_all_iff own_argument_def)
  with f False have "list_all (own_argument J sc) (scope_section sc em innermost here)"
    by (simp add: scope_section_def delimiter_def)
  moreover from this have "delimited J sc (scope_section sc em innermost here)"
    unfolding delimited_def by (intro exI [of _ "scope_section sc em innermost here"] exI [of _ "[]"]) simp
  ultimately show ?thesis by blast
qed

lemma delimited_append:
  assumes "list_all (own_argument J sc) front" and "delimited J sc argv"
  shows "delimited J sc (front @ argv)"
proof -
  from assms(2) obtain f b where "argv = f @ b" "list_all (own_argument J sc) f"
    "b = [] \<or> hd b = ''--'' \<and> supported (os_end_of_options sc) = Some True" by (auto simp: delimited_def)
  with assms(1) show ?thesis unfolding delimited_def by (intro exI [of _ "front @ f"] exI [of _ b]) simp
qed

lemma sections_delimited:
  assumes f: "\<And>here. list_all (own_argument J sc) (flag_arguments sc em here)"
    and "scope_issues sc em here subs = []" and "list_all (own_argument J sc) subs"
  shows "delimited J sc (join_sections (scope_sections sc em here subs) subs)"
  using assms(2,3)
proof (induction subs arbitrary: here)
  case Nil
  then show ?case using section_delimited [OF f, of True here] by (simp add: scope_issues.simps Let_def)
next
  case (Cons sub subs)
  from Cons.prems(1) have "fst (delimiter sc False (positionals sc em here)) = []" "scope_issues sc em (here @ [sub]) subs = []"
    by (simp_all add: scope_issues.simps [of sc em here] Let_def)
  with section_delimited [OF f] Cons show ?case
    using delimited_append [of J sc "scope_section sc em False here @ [sub]"] by simp
qed


section \<open>An example\<close>

definition demo_lib :: json_lib where
  "demo_lib = \<lparr>jl_float = (\<lambda>_. 0), jl_render = (\<lambda>v. case v of JNum t \<Rightarrow> t | _ \<Rightarrow> [])\<rparr>"

definition known :: "'a \<Rightarrow> 'a fact" where
  "known v = \<lparr>fa_value = Some v, fa_certainty = Verified, fa_source = Some (UserSource ''seen'')\<rparr>"

definition demo_option :: "string \<Rightarrow> spelling list \<Rightarrow> nat option \<Rightarrow> value_kind \<Rightarrow> option_definition" where
  "demo_option key spellings position kind =
     \<lparr>op_key = key, op_scope = [], op_spellings = spellings, op_position = position, op_kind = known kind,
      op_arity = known one_value, op_repeatable = no_fact, op_choices = no_fact, op_range = no_fact, op_unit = no_fact,
      op_runtime_default = no_fact, op_group = [], op_help = [], op_target = Launch, op_request_field = no_fact,
      op_restart_required = no_fact, op_sensitive = no_fact, op_local_path = no_fact, op_benchmark_public = no_fact,
      op_benchmark_name = no_fact, op_benchmark_role = no_fact, op_managed = None, op_raw_spans = []\<rparr>"

definition demo_schema :: option_schema where
  "demo_schema =
     \<lparr>os_version = 1, os_binding = \<lparr>bi_engine = ''e'', bi_runtime = ''r'', bi_fingerprint = replicate 64 CHR ''a''\<rparr>,
      os_options = [demo_option ''ctx'' [\<lparr>sg_flag = ''--ctx'', sg_style = Separate, sg_polarity = None\<rparr>] None Integer,
                    demo_option ''prompt'' [] (Some 0) Text],
      os_constraints = [], os_raw_help = [], os_end_of_options = known True\<rparr>"

definition demo_overrides :: overrides where
  "demo_overrides = [(''ctx'', [(None, [JNum ''8''])]), (''prompt'', [(None, [JStr ''-x''])])]"

lemmas demo_chars = is_ascii_alphanumeric_def is_ascii_alphabetic_def
  is_ascii_digit_def code_def

lemma demo_facts:
  "check_option_facts [] (demo_option k sps p kd) = Inr ()" "check_option_values (demo_option k sps p kd) = Inr ()"
  "check_fact [] (known True) = Inr ()"
  by (simp_all add: demo_option_def check_option_facts_def check_option_values_def check_fact_def known_def check_source_def
      source_valid_def bounded_text_def no_fact_def check_r_def supported_def one_value_def)

lemma demo_options_checked:
  "check_options [] (os_options demo_schema) \<lparr>so_keys = [], so_flags = [], so_positions = [], so_fields = []\<rparr> = Inr ()"
proof -
  have i: "plain_identifier ''ctx''" "plain_identifier ''prompt''" "flag_text_ok ''--ctx''"
    by (simp_all add: plain_identifier_def flag_text_ok_def flag_mark_def demo_chars)
  have o: "op_key (demo_option k sps p kd) = k" "op_scope (demo_option k sps p kd) = []" "op_help (demo_option k sps p kd) = []"
    "op_group (demo_option k sps p kd) = []" "op_target (demo_option k sps p kd) = Launch" "op_spellings (demo_option k sps p kd) = sps"
    "op_position (demo_option k sps p kd) = p" "fa_value (op_request_field (demo_option k sps p kd)) = None" for k sps p kd
    by (simp_all add: demo_option_def no_fact_def)
  show ?thesis
    using i by (simp add: demo_schema_def check_option_def demo_facts check_r_def check_launch_target_def o valid_scope_def
        bounded_text_def spelling_ok_def Let_def)
qed

lemma demo_validated: "schema_validate J (\<lambda>_. 0) demo_schema = Inr ()"
proof -
  have "check_binding (os_binding demo_schema) = Inr ()"
    by (simp add: check_binding_def demo_schema_def plain_identifier_def is_ascii_hexdigit_def demo_chars check_r_def list_all_iff)
  moreover have "os_version demo_schema = 1" "length (os_options demo_schema) = 2" "os_constraints demo_schema = []"
    "os_raw_help demo_schema = []" "os_end_of_options demo_schema = known True" by (simp_all add: demo_schema_def)
  ultimately show ?thesis
    using demo_options_checked
    by (simp add: schema_validate_def check_r_def schema_version_def max_options_def max_help_bytes_def
        max_schema_bytes_def demo_facts)
qed

lemma demo_contributions:
  "contributions_of demo_lib demo_schema [] demo_overrides =
     [(''ctx'', Arguments [''--ctx'', ''8'']), (''prompt'', Arguments [''-x''])]"
  by (simp add: contributions_of_def demo_overrides_def resolve_override_def option_by_key_def demo_schema_def resolve_rows_def
      option_arity_def resolve_row_def chosen_spelling_def value_row_def scalar_def check_r_def demo_option_def known_def
      no_fact_def supported_def one_value_def value_of_kind_def check_range_def scalar_text_def bounded_text_def
      max_argument_bytes_def demo_lib_def int_text_def is_ascii_digit_def code_def digits_value_def starts_with_iff)

lemma demo_resolved:
  "resolve_occurrences demo_lib (\<lambda>_. 0) demo_schema [] demo_overrides =
     Inr \<lparr>ro_boundaries = [], ro_argv = [''--ctx'', ''8'', ''--'', ''-x''], ro_request = []\<rparr>"
proof -
  have "depth_arguments demo_schema True [] [(''ctx'', [''--ctx'', ''8'']), (''prompt'', [''-x''])] =
      ([], [''--ctx'', ''8'', ''--'', ''-x''], [])"
    by (simp add: depth_arguments_def demo_schema_def demo_option_def map_remove_def delimiter_def dashed_def known_def
        supported_def earlier_missing_def varying_issues_def positional_args_def starts_with_iff)
  moreover have "os_constraints demo_schema = []" "length demo_overrides = 2" by (simp_all add: demo_schema_def demo_overrides_def)
  ultimately show ?thesis
    by (simp add: resolve_occurrences_def demo_validated resolve_validated_def demo_contributions valid_scope_def
        max_options_def max_arguments_def max_values_bytes_def Let_def)
qed

theorem resolution_lays_out_command_witness:
  "resolved_sections \<lparr>ro_boundaries = [], ro_argv = [''--ctx'', ''8'', ''--'', ''-x''], ro_request = []\<rparr> [] =
     Inr (scope_sections demo_schema (emitted_of demo_lib demo_schema [] demo_overrides) [] [])"
  using resolution_lays_out_command [OF demo_resolved] by blast

theorem saved_values_honoured_witness:
  "(\<exists>opt. option_by_key demo_schema ''ctx'' = Some opt \<and> op_managed opt = None) \<and>
   (\<exists>opt. option_by_key demo_schema ''prompt'' = Some opt \<and> op_managed opt = None)"
  using saved_values_honoured [OF demo_resolved] by (auto simp: demo_overrides_def)


end
