(* ===== verification/OptionOrder.thy ===== *)
theory OptionOrder
  imports OptionResolution "HOL-Library.Multiset"
begin

text \<open>
  Saved options and their order, \<open>src-tauri/src/providers/runtime_ordered.rs\<close> with the stored form of
  grouped values of \<open>providers/runtime_help_store.rs\<close>: the record that orders saved occurrences, the plan
  made from it, and the resolution of a plan.

  The message of a failed \<open>serde\<close> decoding is an argument.
\<close>

section \<open>Stored values\<close>

definition order_key :: string where "order_key = ''@option_order''"
definition order_version :: nat where "order_version = 1"
definition max_order_bytes :: nat where "max_order_bytes = 65536"
definition max_plan :: nat where "max_plan = 512"

type_synonym grouped = "(string \<times> override) list"

definition optional_text :: "json option \<Rightarrow> string option option" where
  "optional_text v =
     (case v of
        None \<Rightarrow> Some None
      | Some JNull \<Rightarrow> Some None
      | Some (JStr s) \<Rightarrow> Some (Some s)
      | _ \<Rightarrow> None)"

definition only_keys :: "string list \<Rightarrow> (string \<times> json) list \<Rightarrow> bool" where
  "only_keys ks fs \<longleftrightarrow> list_all (\<lambda>(k, _). k \<in> set ks) fs"

text \<open>\<open>Override::deserialize\<close> of an object.\<close>

definition decode_override :: "(string \<times> json) list \<Rightarrow> override option" where
  "decode_override fs =
     (if \<not> only_keys [''spelling'', ''occurrences''] fs then None
      else Option.bind (optional_text (map_of fs ''spelling'')) (\<lambda>spelling.
        Option.bind (Option.bind (map_of fs ''occurrences'') as_array) (\<lambda>rows.
        Option.bind (traverse_o as_array rows) (\<lambda>rows.
        Some \<lparr>ov_spelling = spelling, ov_occurrences = rows\<rparr>))))"

definition encode_override :: "override \<Rightarrow> json" where
  "encode_override ov =
     JObj [(''occurrences'', JArr (map JArr (ov_occurrences ov))),
           (''spelling'', case ov_spelling ov of None \<Rightarrow> JNull | Some s \<Rightarrow> JStr s)]"

definition stored_override :: "json \<Rightarrow> override option" where
  "stored_override v =
     (case v of
        JObj fs \<Rightarrow> if map_of fs ''occurrences'' \<noteq> None then decode_override fs else None
      | _ \<Rightarrow> None)"

definition override_from_value :: "json \<Rightarrow> override" where
  "override_from_value v =
     (case stored_override v of Some ov \<Rightarrow> ov | None \<Rightarrow> \<lparr>ov_spelling = None, ov_occurrences = [[v]]\<rparr>)"

definition overrides_from_map :: "(string \<times> json) list \<Rightarrow> grouped" where
  "overrides_from_map m =
     fold (\<lambda>(k, v) out. if k = order_key then out else map_insert k (override_from_value v) out) m []"

definition value_from_override :: "override \<Rightarrow> json" where
  "value_from_override ov =
     (case (ov_spelling ov, ov_occurrences ov) of
        (None, [[v]]) \<Rightarrow> v
      | _ \<Rightarrow> encode_override ov)"

definition map_from_overrides :: "grouped \<Rightarrow> (string \<times> json) list" where
  "map_from_overrides ovs = fold (\<lambda>(k, ov) m. map_insert k (value_from_override ov) m) ovs []"

section \<open>The record of an order\<close>

record order_entry =
  oe_key :: string
  oe_spelling :: "string option"

record saved_order =
  od_version :: nat
  od_occurrences :: "order_entry list"

definition order_key_valid :: "string \<Rightarrow> bool" where
  "order_key_valid k \<longleftrightarrow> k \<noteq> [] \<and> length k \<le> 128 \<and>
     list_all (\<lambda>b. is_ascii_alphanumeric b \<or> b \<in> set ''._-/'') k"

text \<open>\<open>OrderEntry\<close> and \<open>SavedOrder\<close>: a struct is read from an object or from an array of its fields.\<close>

definition decode_entry :: "json \<Rightarrow> order_entry option" where
  "decode_entry v =
     (case v of
        JObj fs \<Rightarrow>
          if \<not> only_keys [''key'', ''spelling''] fs then None
          else Option.bind (Option.bind (map_of fs ''key'') as_str) (\<lambda>k.
            map_option (\<lambda>s. \<lparr>oe_key = k, oe_spelling = s\<rparr>) (optional_text (map_of fs ''spelling'')))
      | JArr [JStr k] \<Rightarrow> Some \<lparr>oe_key = k, oe_spelling = None\<rparr>
      | JArr [JStr k, s] \<Rightarrow> map_option (\<lambda>s. \<lparr>oe_key = k, oe_spelling = s\<rparr>) (optional_text (Some s))
      | _ \<Rightarrow> None)"

definition decode_order :: "(string \<times> json) list \<Rightarrow> saved_order option" where
  "decode_order fs =
     (if \<not> only_keys [''version'', ''occurrences''] fs then None
      else Option.bind (Option.bind (map_of fs ''version'') as_u64) (\<lambda>version.
        if version \<ge> 2 ^ 32 then None
        else Option.bind (Option.bind (map_of fs ''occurrences'') as_array) (\<lambda>entries.
          map_option (\<lambda>es. \<lparr>od_version = nat version, od_occurrences = es\<rparr>) (traverse_o decode_entry entries))))"

definition order_version_of :: "json \<Rightarrow> int option" where
  "order_version_of raw = (case raw of JObj fs \<Rightarrow> Option.bind (map_of fs ''version'') as_u64 | _ \<Rightarrow> None)"

definition entry_valid :: "order_entry \<Rightarrow> bool" where
  "entry_valid e \<longleftrightarrow> order_key_valid (oe_key e) \<and>
     (case oe_spelling e of None \<Rightarrow> True | Some s \<Rightarrow> s \<noteq> [] \<and> length s \<le> 128 \<and> CHR 0x00 \<notin> set s)"

definition count_key :: "string \<Rightarrow> (string \<times> nat) list \<Rightarrow> (string \<times> nat) list" where
  "count_key k m = map_insert k (Suc (case map_of m k of None \<Rightarrow> 0 | Some n \<Rightarrow> n)) m"

definition entry_counts :: "order_entry list \<Rightarrow> (string \<times> nat) list" where
  "entry_counts es = fold (count_key \<circ> oe_key) es []"

definition check_count :: "order_entry list \<Rightarrow> grouped \<Rightarrow> string \<times> nat \<Rightarrow> string + unit" where
  "check_count es ovs kn =
     (case kn of (k, n) \<Rightarrow>
        case map_of ovs k of
          None \<Rightarrow> Inl (''the saved option order names '' @ k @ '', which has no saved value'')
        | Some ov \<Rightarrow>
            if length (ov_occurrences ov) \<noteq> n then
              Inl (''the saved option order lists '' @ digits_of_nat n @ '' occurrence(s) of '' @ k @ '', but '' @
                digits_of_nat (length (ov_occurrences ov)) @ '' are saved'')
            else if map_option oe_spelling (find (\<lambda>e. oe_key e = k) es) \<noteq> Some (ov_spelling ov) then
              Inl (''the saved option order spells '' @ k @ '' differently from its saved value'')
            else Inr ())"

definition check_order :: "order_entry list \<Rightarrow> grouped \<Rightarrow> string + unit" where
  "check_order es ovs =
     bind_r (check_r (length es \<le> max_plan) ''the saved option order has too many occurrences'') (\<lambda>_.
     bind_r (check_r (list_all entry_valid es) ''the saved option order has an invalid entry'') (\<lambda>_.
     check_each (check_count es ovs) (entry_counts es)))"

definition checked_saved_order ::
  "json_lib \<Rightarrow> (json \<Rightarrow> string) \<Rightarrow> (string \<times> json) list \<Rightarrow> string + (saved_order \<times> grouped) option" where
  "checked_saved_order J decode_error stored =
     (case map_of stored order_key of
        None \<Rightarrow> Inr None
      | Some raw \<Rightarrow>
          bind_r (check_r (length (jl_render J raw) \<le> max_order_bytes)
            ''the saved option order exceeds 64 KiB; the saved values were retained'') (\<lambda>_.
          case order_version_of raw of
            None \<Rightarrow> Inl ''the saved option order has no valid version''
          | Some version \<Rightarrow>
              if version \<noteq> int order_version then
                Inl (''the saved option order uses version '' @ digits_of_nat (nat version) @
                  '', which this app does not support; the saved values were retained'')
              else
                case Option.bind (case raw of JObj fs \<Rightarrow> Some fs | _ \<Rightarrow> None) decode_order of
                  None \<Rightarrow> Inl (''the saved option order is malformed: '' @ decode_error raw)
                | Some order \<Rightarrow>
                    bind_r (check_order (od_occurrences order) (overrides_from_map stored)) (\<lambda>_.
                    Inr (Some (order, overrides_from_map stored)))))"

definition saved_order_of ::
  "json_lib \<Rightarrow> (json \<Rightarrow> string) \<Rightarrow> (string \<times> json) list \<Rightarrow> string + saved_order option" where
  "saved_order_of J decode_error stored =
     bind_r (checked_saved_order J decode_error stored) (\<lambda>checked. Inr (map_option fst checked))"

definition order_keys :: "saved_order \<Rightarrow> string set" where
  "order_keys order = oe_key ` set (od_occurrences order)"

definition recorded_keys :: "json_lib \<Rightarrow> (json \<Rightarrow> string) \<Rightarrow> (string \<times> json) list \<Rightarrow> string set" where
  "recorded_keys J decode_error stored =
     (case saved_order_of J decode_error stored of Inr (Some order) \<Rightarrow> order_keys order | _ \<Rightarrow> {})"

section \<open>Plans\<close>

record planned =
  pl_key :: string
  pl_spelling :: "string option"
  pl_values :: "json list"

definition planned_rows :: "string \<Rightarrow> override \<Rightarrow> planned list" where
  "planned_rows k ov = map (\<lambda>row. \<lparr>pl_key = k, pl_spelling = ov_spelling ov, pl_values = row\<rparr>) (ov_occurrences ov)"

text \<open>The values that the record does not order: in schema order, then what the schema does not know.\<close>

definition schema_rows :: "grouped \<Rightarrow> string set \<Rightarrow> option_definition list \<Rightarrow> planned list" where
  "schema_rows ovs recorded opts =
     concat (map (\<lambda>opt. case map_of ovs (op_key opt) of
         None \<Rightarrow> []
       | Some ov \<Rightarrow> if op_key opt \<in> recorded then [] else planned_rows (op_key opt) ov) opts)"

definition unknown_rows :: "grouped \<Rightarrow> string set \<Rightarrow> option_definition list \<Rightarrow> planned list" where
  "unknown_rows ovs recorded opts =
     concat (map (\<lambda>(k, ov). if k \<notin> recorded \<and> \<not> list_ex (\<lambda>opt. op_key opt = k) opts then planned_rows k ov else []) ovs)"

text \<open>The recorded occurrences in saved order; \<open>None\<close> is the panic of an index out of bounds.\<close>

fun recorded_rows :: "grouped \<Rightarrow> (string \<times> nat) list \<Rightarrow> order_entry list \<Rightarrow> planned list option" where
  "recorded_rows ovs seen [] = Some []"
| "recorded_rows ovs seen (e # es) =
     (let i = (case map_of seen (oe_key e) of None \<Rightarrow> 0 | Some n \<Rightarrow> n) in
      case map_of ovs (oe_key e) of
        None \<Rightarrow> None
      | Some ov \<Rightarrow>
          if i < length (ov_occurrences ov) then
            map_option (\<lambda>ps. \<lparr>pl_key = oe_key e, pl_spelling = oe_spelling e, pl_values = ov_occurrences ov ! i\<rparr> # ps)
              (recorded_rows ovs (count_key (oe_key e) seen) es)
          else None)"

definition saved_plan_from_grouped :: "option_schema \<Rightarrow> grouped \<Rightarrow> saved_order \<Rightarrow> planned list option" where
  "saved_plan_from_grouped sc ovs order =
     map_option (\<lambda>ps. schema_rows ovs (order_keys order) (os_options sc) @
         unknown_rows ovs (order_keys order) (os_options sc) @ ps)
       (recorded_rows ovs [] (od_occurrences order))"

definition plan_from_overrides :: "grouped \<Rightarrow> planned list" where
  "plan_from_overrides ovs = concat (map (\<lambda>(k, ov). planned_rows k ov) ovs)"

definition add_planned :: "planned \<Rightarrow> grouped \<Rightarrow> grouped" where
  "add_planned p out =
     (case map_of out (pl_key p) of
        None \<Rightarrow> map_insert (pl_key p) \<lparr>ov_spelling = pl_spelling p, ov_occurrences = [pl_values p]\<rparr> out
      | Some ov \<Rightarrow>
          map_insert (pl_key p)
            \<lparr>ov_spelling = (if ov_spelling ov = None then pl_spelling p else ov_spelling ov),
             ov_occurrences = ov_occurrences ov @ [pl_values p]\<rparr> out)"

definition overrides_from_plan :: "planned list \<Rightarrow> grouped" where
  "overrides_from_plan plan = fold add_planned plan []"

section \<open>Resolving a plan\<close>

definition add_occurrence :: "planned \<Rightarrow> overrides \<Rightarrow> overrides" where
  "add_occurrence p out =
     map_insert (pl_key p)
       ((case map_of out (pl_key p) of None \<Rightarrow> [] | Some rows \<Rightarrow> rows) @ [(pl_spelling p, pl_values p)]) out"

definition group_plan :: "planned list \<Rightarrow> overrides" where
  "group_plan plan = fold add_occurrence plan []"

type_synonym emission = "nat \<times> nat option \<times> string list"

definition planned_arguments :: "json_lib \<Rightarrow> option_schema \<Rightarrow> planned \<Rightarrow> option_issue list + emission option" where
  "planned_arguments J sc p =
     (case option_by_key sc (pl_key p) of
        None \<Rightarrow> Inr None
      | Some opt \<Rightarrow>
          if op_target opt = Request then Inr None
          else case resolve_one J opt (pl_spelling p) (pl_values p) of
            Inl m \<Rightarrow> Inl [\<lparr>oi_key = pl_key p, oi_message = m\<rparr>]
          | Inr args \<Rightarrow> Inr (Some (length (op_scope opt), op_position opt, args)))"

definition depth_flags :: "emission list \<Rightarrow> nat \<Rightarrow> string list" where
  "depth_flags items d = concat (map (\<lambda>(_, _, args). args) (filter (\<lambda>(e, p, _). e = d \<and> p = None) items))"

definition depth_positionals :: "emission list \<Rightarrow> nat \<Rightarrow> (nat \<times> string list) list" where
  "depth_positionals items d =
     sort_key fst (List.map_filter (\<lambda>(e, p, args). if e = d then map_option (\<lambda>q. (q, args)) p else None) items)"

definition plan_section :: "emission list \<Rightarrow> nat \<Rightarrow> string list" where
  "plan_section items d =
     (let pos = depth_positionals items d in
      depth_flags items d @ (if list_ex (\<lambda>(_, args). list_ex (starts_with ''-'') args) pos then [''--''] else []) @
      concat (map snd pos))"

fun emit_plan :: "emission list \<Rightarrow> nat \<Rightarrow> string list \<Rightarrow> string list \<Rightarrow> nat list \<Rightarrow> string list \<times> nat list" where
  "emit_plan items d [] argv boundaries = (argv @ plan_section items d, boundaries)"
| "emit_plan items d (sub # subs) argv boundaries =
     (let argv = argv @ plan_section items d
      in emit_plan items (Suc d) subs (argv @ [sub]) (boundaries @ [length argv]))"

definition resolve_plan ::
  "json_lib \<Rightarrow> (option_schema \<Rightarrow> nat) \<Rightarrow> option_schema \<Rightarrow> string list \<Rightarrow> planned list \<Rightarrow> option_issue list + resolved_options" where
  "resolve_plan J encoded_size sc selected plan =
     (case schema_validate J encoded_size sc of
        Inl m \<Rightarrow> Inl [\<lparr>oi_key = [], oi_message = m\<rparr>]
      | Inr _ \<Rightarrow>
          if length plan > max_plan then Inl [\<lparr>oi_key = [], oi_message = ''too many planned option occurrences''\<rparr>]
          else
            bind_r (resolve_validated J sc selected (group_plan plan)) (\<lambda>r.
            bind_r (traverse_r (planned_arguments J sc) plan) (\<lambda>items.
            let (argv, boundaries) = emit_plan (List.map_filter id items) 0 selected [] []
            in Inr \<lparr>ro_boundaries = boundaries, ro_argv = argv, ro_request = ro_request r\<rparr>)))"

definition order_issue :: "string \<Rightarrow> option_issue list" where
  "order_issue m = [\<lparr>oi_key = order_key, oi_message = m\<rparr>]"

text \<open>A key of the record whose option is sent with requests; keys are visited in order.\<close>

definition request_key :: "option_schema \<Rightarrow> order_entry list \<Rightarrow> string option" where
  "request_key sc es =
     find (\<lambda>k. list_ex (\<lambda>opt. op_key opt = k \<and> op_target opt = Request) (os_options sc)) (map fst (entry_counts es))"

text \<open>\<open>None\<close> is a panic.\<close>

definition resolve_saved ::
  "json_lib \<Rightarrow> (json \<Rightarrow> string) \<Rightarrow> (option_schema \<Rightarrow> nat) \<Rightarrow> option_schema \<Rightarrow> string list \<Rightarrow> (string \<times> json) list \<Rightarrow>
   (option_issue list + resolved_options) option" where
  "resolve_saved J decode_error encoded_size sc selected stored =
     (case checked_saved_order J decode_error stored of
        Inl m \<Rightarrow> Some (Inl (order_issue m))
      | Inr None \<Rightarrow> Some (schema_resolve J encoded_size sc selected (overrides_from_map stored))
      | Inr (Some (order, ovs)) \<Rightarrow>
          (case request_key sc (od_occurrences order) of
             Some k \<Rightarrow> Some (Inl (order_issue
               (k @ '' is sent with requests and has no command-line position; remove it from the saved order'')))
           | None \<Rightarrow> map_option (resolve_plan J encoded_size sc selected) (saved_plan_from_grouped sc ovs order)))"

section \<open>What a plan holds\<close>

definition rows_of :: "grouped \<Rightarrow> string \<Rightarrow> json list list" where
  "rows_of ovs k = (case map_of ovs k of None \<Rightarrow> [] | Some ov \<Rightarrow> ov_occurrences ov)"

definition values_for :: "string \<Rightarrow> planned list \<Rightarrow> json list list" where
  "values_for k plan = map pl_values (filter (\<lambda>p. pl_key p = k) plan)"

lemma values_for_simps [simp]:
  "values_for k [] = []"
  "values_for k (p # ps) = (if pl_key p = k then pl_values p # values_for k ps else values_for k ps)"
  "values_for k (ps @ qs) = values_for k ps @ values_for k qs"
  by (simp_all add: values_for_def)

lemma values_for_rows: "values_for k (planned_rows k' ov) = (if k = k' then ov_occurrences ov else [])"
  by (auto simp: values_for_def planned_rows_def comp_def)

lemma values_for_concat: "values_for k (concat pss) = concat (map (values_for k) pss)"
  by (induction pss) simp_all

definition seen_of :: "(string \<times> nat) list \<Rightarrow> string \<Rightarrow> nat" where
  "seen_of seen k = (case map_of seen k of None \<Rightarrow> 0 | Some n \<Rightarrow> n)"

lemma seen_of_count_key: "seen_of (count_key k m) k' = (if k' = k then Suc (seen_of m k) else seen_of m k')"
  by (simp add: seen_of_def count_key_def map_of_map_insert split: option.split)

definition key_count :: "string \<Rightarrow> order_entry list \<Rightarrow> nat" where
  "key_count k es = length (filter (\<lambda>e. oe_key e = k) es)"

lemma count_key_keys: "fst ` set (count_key k m) = insert k (fst ` set m)"
  by (simp add: count_key_def map_insert_keys)

lemma fold_count_key:
  "seen_of (fold (count_key \<circ> oe_key) es m) k = seen_of m k + key_count k es \<and>
   fst ` set (fold (count_key \<circ> oe_key) es m) = fst ` set m \<union> oe_key ` set es"
  by (induction es arbitrary: m) (auto simp: seen_of_count_key key_count_def count_key_keys)

lemma fold_count_sorted: "sorted_wrt (<) (map fst m) \<Longrightarrow> sorted_wrt (<) (map fst (fold (count_key \<circ> oe_key) es m))"
  by (induction es arbitrary: m) (simp_all add: count_key_def map_insert_sorted)

lemma entry_counts_in: "(k, n) \<in> set (entry_counts es) \<longleftrightarrow> k \<in> oe_key ` set es \<and> n = key_count k es"
proof -
  have f: "fst ` set (entry_counts es) = oe_key ` set es" and s: "seen_of (entry_counts es) k = key_count k es" for k
    using fold_count_key [of es "[]"] by (simp_all add: entry_counts_def seen_of_def)
  have "sorted_wrt (<) (map fst (entry_counts es))" unfolding entry_counts_def by (rule fold_count_sorted) simp
  then have d: "distinct (map fst (entry_counts es))" by (simp add: strict_sorted_iff)
  show ?thesis
  proof
    assume kn: "(k, n) \<in> set (entry_counts es)"
    then have "map_of (entry_counts es) k = Some n" using d by simp
    with s [of k] kn f show "k \<in> oe_key ` set es \<and> n = key_count k es" by (force simp: seen_of_def)
  next
    assume kn: "k \<in> oe_key ` set es \<and> n = key_count k es"
    then obtain m where "(k, m) \<in> set (entry_counts es)" using f by fastforce
    with s [of k] d kn show "(k, n) \<in> set (entry_counts es)" by (auto simp: seen_of_def)
  qed
qed

text \<open>A record that passes the check names as many occurrences as are saved.\<close>

lemma check_order_rows:
  assumes "check_order es ovs = Inr u" "e \<in> set es"
  shows "\<exists>ov. map_of ovs (oe_key e) = Some ov \<and> length (ov_occurrences ov) = key_count (oe_key e) es"
proof -
  have "(oe_key e, key_count (oe_key e) es) \<in> set (entry_counts es)" using assms(2) by (simp add: entry_counts_in)
  with assms(1) have "check_count es ovs (oe_key e, key_count (oe_key e) es) = Inr ()"
    by (auto simp: check_order_def bind_r_Inr_iff check_each_Inr)
  then show ?thesis by (simp add: check_count_def split: option.splits if_splits)
qed

lemma recorded_rows_values:
  assumes "\<And>e. e \<in> set es \<Longrightarrow> map_of ovs (oe_key e) \<noteq> None \<and>
    length (rows_of ovs (oe_key e)) = seen_of seen (oe_key e) + key_count (oe_key e) es"
  shows "\<exists>ps. recorded_rows ovs seen es = Some ps \<and>
    map (\<lambda>p. (pl_key p, pl_spelling p)) ps = map (\<lambda>e. (oe_key e, oe_spelling e)) es \<and>
    (\<forall>k. values_for k ps = (if k \<in> oe_key ` set es then drop (seen_of seen k) (rows_of ovs k) else []))"
  using assms
proof (induction es arbitrary: seen)
  case (Cons e es)
  define i where "i = seen_of seen (oe_key e)"
  obtain ov where ov: "map_of ovs (oe_key e) = Some ov" using Cons.prems [of e] by auto
  then have rows: "rows_of ovs (oe_key e) = ov_occurrences ov" by (simp add: rows_of_def)
  have i: "i < length (ov_occurrences ov)" using Cons.prems [of e] by (simp add: rows i_def key_count_def)
  have "map_of ovs (oe_key e2) \<noteq> None \<and>
      length (rows_of ovs (oe_key e2)) = seen_of (count_key (oe_key e) seen) (oe_key e2) + key_count (oe_key e2) es"
    if "e2 \<in> set es" for e2
    using Cons.prems [of e2] that by (auto simp: seen_of_count_key key_count_def)
  from Cons.IH [OF this] obtain ps where ps: "recorded_rows ovs (count_key (oe_key e) seen) es = Some ps"
    "map (\<lambda>p. (pl_key p, pl_spelling p)) ps = map (\<lambda>e. (oe_key e, oe_spelling e)) es"
    "\<And>k. values_for k ps = (if k \<in> oe_key ` set es then drop (seen_of (count_key (oe_key e) seen) k) (rows_of ovs k) else [])"
    by blast
  have r: "recorded_rows ovs seen (e # es) =
      Some (\<lparr>pl_key = oe_key e, pl_spelling = oe_spelling e, pl_values = ov_occurrences ov ! i\<rparr> # ps)"
    using ov i ps(1) by (simp add: i_def seen_of_def Let_def)
  have last_row: "drop (Suc i) (ov_occurrences ov) = []" if "oe_key e \<notin> oe_key ` set es"
  proof -
    have "key_count (oe_key e) es = 0" unfolding key_count_def length_0_conv filter_empty_conv using that by (metis image_eqI)
    then show ?thesis using Cons.prems [of e] by (simp add: rows i_def key_count_def)
  qed
  show ?case unfolding r
    using ps(2,3) last_row Cons_nth_drop_Suc [OF i] by (auto simp: seen_of_count_key rows i_def)
qed simp

lemma schema_rows_values:
  assumes "distinct (map op_key opts)"
  shows "values_for k (schema_rows ovs recorded opts) =
    (if k \<in> op_key ` set opts \<and> k \<notin> recorded then rows_of ovs k else [])"
  using assms
proof (induction opts)
  case (Cons opt opts)
  have "schema_rows ovs recorded (opt # opts) =
      (case map_of ovs (op_key opt) of None \<Rightarrow> [] | Some ov \<Rightarrow> if op_key opt \<in> recorded then [] else planned_rows (op_key opt) ov) @
      schema_rows ovs recorded opts" by (simp add: schema_rows_def)
  with Cons show ?case by (auto simp: values_for_rows rows_of_def split: option.splits)
qed (simp add: schema_rows_def)

lemma unknown_rows_values:
  assumes "distinct (map fst ovs)"
  shows "values_for k (unknown_rows ovs recorded opts) =
    (if k \<notin> op_key ` set opts \<and> k \<notin> recorded then rows_of ovs k else [])"
  using assms
proof (induction ovs)
  case (Cons x ovs)
  obtain k' ov where x: "x = (k', ov)" by (cases x)
  have "unknown_rows (x # ovs) recorded opts =
      (if k' \<notin> recorded \<and> \<not> list_ex (\<lambda>opt. op_key opt = k') opts then planned_rows k' ov else []) @ unknown_rows ovs recorded opts"
    by (simp add: unknown_rows_def x)
  moreover have "k' \<in> op_key ` set opts \<longleftrightarrow> list_ex (\<lambda>opt. op_key opt = k') opts" by (auto simp: list_ex_iff)
  moreover have "rows_of ovs k' = []" using Cons.prems by (force simp: x rows_of_def dest: map_of_SomeD split: option.split)
  ultimately show ?case using Cons by (auto simp: values_for_rows rows_of_def x)
qed (simp add: unknown_rows_def rows_of_def)

lemma overrides_from_map_sorted: "sorted_wrt (<) (map fst (overrides_from_map m))"
proof -
  have "sorted_wrt (<) (map fst out) \<Longrightarrow> sorted_wrt (<) (map fst
      (fold (\<lambda>(k, v) out. if k = order_key then out else map_insert k (override_from_value v) out) m out))" for out
    by (induction m arbitrary: out) (auto simp: map_insert_sorted)
  then show ?thesis by (simp add: overrides_from_map_def)
qed

lemma checked_saved_order_Inr:
  assumes "checked_saved_order J decode_error stored = Inr (Some (order, ovs))"
  shows "ovs = overrides_from_map stored" "check_order (od_occurrences order) ovs = Inr ()"
  using assms by (auto simp: checked_saved_order_def bind_r_Inr_iff Let_def split: option.splits if_splits)

text \<open>C9. The record of an order decides positions and spellings only. When it passes its check, a plan is made
  (no index is out of bounds), the plan holds exactly the saved values of every option, in their saved
  order and whether or not the schema knows the option, and the recorded occurrences stand in the plan in the order and
  with the spelling of the record.
\<close>

theorem saved_order_keeps_values:
  assumes "checked_saved_order J decode_error stored = Inr (Some (order, ovs))" and "distinct (map op_key (os_options sc))"
  shows "\<exists>plan. saved_plan_from_grouped sc ovs order = Some plan \<and>
    (\<forall>k. values_for k plan = rows_of (overrides_from_map stored) k) \<and>
    map (\<lambda>p. (pl_key p, pl_spelling p)) (filter (\<lambda>p. pl_key p \<in> order_keys order) plan) =
    map (\<lambda>e. (oe_key e, oe_spelling e)) (od_occurrences order)"
proof -
  note c = checked_saved_order_Inr [OF assms(1)]
  define es where "es = od_occurrences order"
  have d: "distinct (map fst ovs)" using overrides_from_map_sorted by (simp add: c(1) strict_sorted_iff)
  have "map_of ovs (oe_key e) \<noteq> None \<and> length (rows_of ovs (oe_key e)) = seen_of [] (oe_key e) + key_count (oe_key e) es"
    if "e \<in> set es" for e
    using check_order_rows [OF c(2)] that by (fastforce simp: es_def rows_of_def seen_of_def)
  from recorded_rows_values [of es ovs "[]", OF this] obtain ps where ps: "recorded_rows ovs [] es = Some ps"
    "map (\<lambda>p. (pl_key p, pl_spelling p)) ps = map (\<lambda>e. (oe_key e, oe_spelling e)) es"
    "\<And>k. values_for k ps = (if k \<in> oe_key ` set es then rows_of ovs k else [])"
    by (auto simp: seen_of_def)
  define front where "front = schema_rows ovs (order_keys order) (os_options sc) @ unknown_rows ovs (order_keys order) (os_options sc)"
  have plan: "saved_plan_from_grouped sc ovs order = Some (front @ ps)"
    using ps(1) by (simp add: saved_plan_from_grouped_def es_def front_def)
  have "values_for k (front @ ps) = rows_of ovs k" for k
    using schema_rows_values [OF assms(2), of k ovs "order_keys order"] unknown_rows_values [OF d, of k "order_keys order" "os_options sc"] ps(3) [of k]
    by (auto simp: front_def order_keys_def es_def)
  moreover have "filter (\<lambda>p. pl_key p \<in> order_keys order) front = []"
    by (auto simp: front_def schema_rows_def unknown_rows_def filter_empty_conv planned_rows_def split: option.splits if_splits)
  moreover have "\<forall>p \<in> set ps. pl_key p \<in> order_keys order"
  proof
    fix p assume "p \<in> set ps"
    then have "(pl_key p, pl_spelling p) \<in> set (map (\<lambda>e. (oe_key e, oe_spelling e)) es)" unfolding ps(2) [symmetric] by force
    then show "pl_key p \<in> order_keys order" by (auto simp: order_keys_def es_def)
  qed
  ultimately show ?thesis using plan ps(2) by (auto simp: c(1) es_def)
qed

section \<open>Grouping and stored form\<close>

lemma group_plan_map_of:
  "map_of (fold add_occurrence plan out) k =
     (let rows = map (\<lambda>p. (pl_spelling p, pl_values p)) (filter (\<lambda>p. pl_key p = k) plan) in
      case map_of out k of None \<Rightarrow> if rows = [] then None else Some rows | Some rs \<Rightarrow> Some (rs @ rows))"
  by (induction plan arbitrary: out) (auto simp: add_occurrence_def map_of_map_insert Let_def split: option.split)

lemma group_plan_of: "map_of (group_plan plan) k =
  (if k \<in> pl_key ` set plan then Some (map (\<lambda>p. (pl_spelling p, pl_values p)) (filter (\<lambda>p. pl_key p = k) plan)) else None)"
  by (auto simp: group_plan_def group_plan_map_of Let_def filter_empty_conv)

lemma group_plan_sorted: "sorted_wrt (<) (map fst (group_plan plan))"
proof -
  have "sorted_wrt (<) (map fst out) \<Longrightarrow> sorted_wrt (<) (map fst (fold add_occurrence plan out))" for out
    by (induction plan arbitrary: out) (auto simp: add_occurrence_def map_insert_sorted)
  then show ?thesis by (simp add: group_plan_def)
qed

text \<open>Values that are stored as they are, and read back as such.\<close>

definition plainly_stored :: "override \<Rightarrow> bool" where
  "plainly_stored ov \<longleftrightarrow>
     (case (ov_spelling ov, ov_occurrences ov) of (None, [[v]]) \<Rightarrow> stored_override v = None | _ \<Rightarrow> True)"

lemma traverse_arrays: "traverse_o as_array (map JArr rows) = Some rows"
  by (induction rows) simp_all

lemma decode_encode_override: "stored_override (encode_override ov) = Some ov"
  by (cases "ov_spelling ov")
    (simp_all add: encode_override_def stored_override_def decode_override_def only_keys_def optional_text_def traverse_arrays)

lemma value_roundtrip: "plainly_stored ov \<Longrightarrow> override_from_value (value_from_override ov) = ov"
  unfolding value_from_override_def override_from_value_def plainly_stored_def
  by (cases ov) (auto simp: decode_encode_override split: option.splits list.splits)

lemma fold_map_insert_append:
  "sorted_wrt (<) (map fst out @ map fst xs) \<Longrightarrow>
     fold (\<lambda>(k, v) m. map_insert k (f v) m) xs out = out @ map (\<lambda>(k, v). (k, f v)) xs"
proof (induction xs arbitrary: out)
  case (Cons x xs)
  obtain k v where x: "x = (k, v)" by (cases x)
  have "map_insert k (f v) out = out @ [(k, f v)]"
    using Cons.prems by (intro map_insert_last) (auto simp: x sorted_wrt_append)
  then show ?case using Cons.IH [of "out @ [(k, f v)]"] Cons.prems by (simp add: x)
qed simp

lemma fold_rows_again:
  assumes "\<forall>k' \<in> fst ` set out. k' < k"
  shows "fold add_planned (map (\<lambda>row. \<lparr>pl_key = k, pl_spelling = sp, pl_values = row\<rparr>) rows)
      (out @ [(k, \<lparr>ov_spelling = sp, ov_occurrences = rs\<rparr>)]) = out @ [(k, \<lparr>ov_spelling = sp, ov_occurrences = rs @ rows\<rparr>)]"
proof (induction rows arbitrary: rs)
  case (Cons row rows)
  have n: "map_of out k = None" using assms by (auto simp: map_of_eq_None_iff)
  have "add_planned \<lparr>pl_key = k, pl_spelling = sp, pl_values = row\<rparr> (out @ [(k, \<lparr>ov_spelling = sp, ov_occurrences = rs\<rparr>)]) =
      out @ [(k, \<lparr>ov_spelling = sp, ov_occurrences = rs @ [row]\<rparr>)]"
    by (simp add: add_planned_def map_add_def n map_insert_again [OF assms])
  then show ?case using Cons.IH [of "rs @ [row]"] by simp
qed simp

lemma fold_planned_rows:
  assumes "\<forall>k' \<in> fst ` set out. k' < k" "ov_occurrences ov \<noteq> []"
  shows "fold add_planned (planned_rows k ov) out = out @ [(k, ov)]"
proof -
  obtain row rows where r: "ov_occurrences ov = row # rows" using assms(2) by (cases "ov_occurrences ov") auto
  have n: "map_of out k = None" using assms(1) by (auto simp: map_of_eq_None_iff)
  have "add_planned \<lparr>pl_key = k, pl_spelling = ov_spelling ov, pl_values = row\<rparr> out =
      out @ [(k, \<lparr>ov_spelling = ov_spelling ov, ov_occurrences = [row]\<rparr>)]"
    by (simp add: add_planned_def n map_insert_last [OF assms(1)])
  then show ?thesis using fold_rows_again [OF assms(1), of "ov_spelling ov" rows "[row]"] r
    by (simp add: planned_rows_def)
qed

lemma plan_roundtrip:
  "sorted_wrt (<) (map fst out @ map fst ovs) \<Longrightarrow> list_all (\<lambda>(_, ov). ov_occurrences ov \<noteq> []) ovs \<Longrightarrow>
     fold add_planned (plan_from_overrides ovs) out = out @ ovs"
proof (induction ovs arbitrary: out)
  case (Cons x ovs)
  obtain k ov where x: "x = (k, ov)" by (cases x)
  have "fold add_planned (planned_rows k ov) out = out @ [(k, ov)]"
    using Cons.prems by (intro fold_planned_rows) (auto simp: x sorted_wrt_append)
  then show ?case using Cons.IH [of "out @ [(k, ov)]"] Cons.prems by (simp add: x plan_from_overrides_def)
qed (simp add: plan_from_overrides_def)

text \<open>C29. Saved values survive their stored form and their plan. Grouped values (every option with an occurrence,
  none named like the order record) that are written to a profile and read back are unchanged, and so are
  grouped values that are expanded into a plan and grouped again. The stored form is ambiguous in one place,
  which the hypothesis excludes: a single value that is itself an object with occurrences.
\<close>

theorem stored_values_roundtrip:
  assumes "sorted_wrt (<) (map fst ovs)"
    and "list_all (\<lambda>(k, ov). k \<noteq> order_key \<and> plainly_stored ov \<and> ov_occurrences ov \<noteq> []) ovs"
  shows "overrides_from_map (map_from_overrides ovs) = ovs \<and> overrides_from_plan (plan_from_overrides ovs) = ovs"
proof -
  have m: "map_from_overrides ovs = map (\<lambda>(k, ov). (k, value_from_override ov)) ovs"
    using fold_map_insert_append [of "[]" ovs value_from_override] assms(1) by (simp add: map_from_overrides_def)
  have "fold (\<lambda>(k, v) out. if k = order_key then out else map_insert k (override_from_value v) out) xs out =
      fold (\<lambda>(k, v) out. map_insert k (override_from_value v) out) xs out" if "order_key \<notin> fst ` set xs" for xs out
    using that by (induction xs arbitrary: out) auto
  moreover have "order_key \<notin> fst ` set (map_from_overrides ovs)" using assms(2) by (force simp: m list_all_iff)
  ultimately have "overrides_from_map (map_from_overrides ovs) =
      map (\<lambda>(k, v). (k, override_from_value v)) (map_from_overrides ovs)"
    using fold_map_insert_append [of "[]" "map_from_overrides ovs" override_from_value] assms(1)
    by (simp add: overrides_from_map_def m comp_def case_prod_beta)
  also have "\<dots> = ovs"
    unfolding m map_map by (rule map_idI) (use assms(2) in \<open>auto simp: list_all_iff value_roundtrip\<close>)
  finally show ?thesis
    using plan_roundtrip [of "[]" ovs] assms by (auto simp: overrides_from_plan_def list_all_iff)
qed

lemma object_value_misread:
  "overrides_from_map (map_from_overrides
     [(''x'', \<lparr>ov_spelling = None, ov_occurrences = [[JObj [(''occurrences'', JArr [])]]]\<rparr>)]) =
   [(''x'', \<lparr>ov_spelling = None, ov_occurrences = []\<rparr>)]"
  by code_simp

theorem stored_values_roundtrip_witness:
  "overrides_from_map (map_from_overrides [(''a'', \<lparr>ov_spelling = Some ''-a'', ov_occurrences = [[JNum ''1''], [JNum ''2'']]\<rparr>)]) =
     [(''a'', \<lparr>ov_spelling = Some ''-a'', ov_occurrences = [[JNum ''1''], [JNum ''2'']]\<rparr>)]"
  by (rule stored_values_roundtrip [THEN conjunct1]) (simp_all add: order_key_def plainly_stored_def)

section \<open>The resolution of a plan\<close>

definition planned_text :: "json_lib \<Rightarrow> option_schema \<Rightarrow> planned \<Rightarrow> string list" where
  "planned_text J sc p =
     (case planned_arguments J sc p of Inr (Some (_, _, args)) \<Rightarrow> args | _ \<Rightarrow> [])"

definition planned_item :: "json_lib \<Rightarrow> option_schema \<Rightarrow> planned \<Rightarrow> emission option" where
  "planned_item J sc p = (case planned_arguments J sc p of Inr item \<Rightarrow> item | Inl _ \<Rightarrow> None)"

lemma traverse_planned:
  assumes "traverse_r (planned_arguments J sc) plan = Inr items"
  shows "List.map_filter id items = List.map_filter (planned_item J sc) plan"
  using assms
proof (induction plan arbitrary: items)
  case (Cons p plan)
  then obtain item rest where "planned_arguments J sc p = Inr item" "traverse_r (planned_arguments J sc) plan = Inr rest"
    "items = item # rest" by (auto simp: bind_r_Inr_iff)
  with Cons.IH show ?case by (simp add: List.map_filter_simps planned_item_def split: option.split)
qed (simp add: List.map_filter_simps)

lemma emit_plan_layout:
  "emit_plan items d subs argv boundaries =
     (argv @ join_sections (map (plan_section items) [d..<Suc (d + length subs)]) subs,
      boundaries @ section_ends (length argv) (map (plan_section items) [d..<Suc (d + length subs)]) subs)"
proof (induction subs arbitrary: d argv boundaries)
  case (Cons sub subs)
  have "[d..<Suc (d + length (sub # subs))] = d # [Suc d..<Suc (Suc d + length subs)]" by (subst upt_rec) (simp del: upt_Suc)
  then show ?case using Cons [of "Suc d"] by (simp add: Let_def add.assoc del: upt_Suc)
qed simp

lemma resolve_plan_Inr:
  assumes "resolve_plan J encoded_size sc selected plan = Inr r"
  defines "items \<equiv> List.map_filter (planned_item J sc) plan"
  obtains r0 where "resolve_occurrences J encoded_size sc selected (group_plan plan) = Inr r0"
    "ro_request r = ro_request r0"
    "resolved_sections r selected = Inr (map (plan_section items) [0..<Suc (length selected)])"
    "ro_argv r = join_sections (map (plan_section items) [0..<Suc (length selected)]) selected"
    "\<forall>p \<in> set plan. \<exists>item. planned_arguments J sc p = Inr item"
proof -
  from assms(1) obtain r0 its where v: "schema_validate J encoded_size sc = Inr ()" "resolve_validated J sc selected (group_plan plan) = Inr r0"
    and t: "traverse_r (planned_arguments J sc) plan = Inr its"
    and r: "r = \<lparr>ro_boundaries = snd (emit_plan (List.map_filter id its) 0 selected [] []),
      ro_argv = fst (emit_plan (List.map_filter id its) 0 selected [] []), ro_request = ro_request r0\<rparr>"
    by (auto simp: resolve_plan_def bind_r_Inr_iff Let_def case_prod_beta split: sum.splits if_splits)
  have i: "List.map_filter id its = items" using traverse_planned [OF t] by (simp add: items_def)
  define ss where "ss = map (plan_section items) [0..<Suc (length selected)]"
  have l: "length ss = Suc (length selected)" by (simp add: ss_def)
  have e: "emit_plan items 0 selected [] [] = (join_sections ss selected, section_ends 0 ss selected)"
    using emit_plan_layout [of items 0 selected "[]" "[]"] by (simp add: ss_def)
  have "resolved_sections r selected = Inr ss"
    using split_sections_join [OF l, of "[]"] l by (simp add: resolved_sections_def r i e length_section_ends)
  moreover have "\<forall>p \<in> set plan. \<exists>item. planned_arguments J sc p = Inr item"
    using t by (auto simp: traverse_r_Inr_iff list_all2_conv_all_nth in_set_conv_nth)
  ultimately show ?thesis using that v by (simp add: resolve_occurrences_def r i e ss_def)
qed

text \<open>The option of a planned occurrence, and the arguments of one occurrence.\<close>

definition plans_at :: "option_schema \<Rightarrow> (nat option \<Rightarrow> bool) \<Rightarrow> nat \<Rightarrow> planned \<Rightarrow> bool" where
  "plans_at sc Q d p \<longleftrightarrow>
     (case option_by_key sc (pl_key p) of
        None \<Rightarrow> False
      | Some opt \<Rightarrow> op_target opt = Launch \<and> length (op_scope opt) = d \<and> Q (op_position opt))"

abbreviation plans_flag :: "option_schema \<Rightarrow> nat \<Rightarrow> planned \<Rightarrow> bool" where
  "plans_flag sc \<equiv> plans_at sc (\<lambda>q. q = None)"

lemma planned_item_cases:
  assumes "planned_arguments J sc p = Inr item" "option_by_key sc (pl_key p) = Some opt"
  shows "planned_item J sc p = (if op_target opt = Launch then Some (length (op_scope opt), op_position opt, planned_text J sc p) else None)"
  using assms by (cases "op_target opt") (auto simp: planned_item_def planned_text_def planned_arguments_def split: sum.splits)

lemma row_by_row:
  assumes "resolve_rows J opt rows = Inr args"
  shows "\<exists>argss. args = concat argss \<and> list_all2 (\<lambda>(saved, row) a. resolve_one J opt saved row = Inr a) rows argss"
proof -
  from assms obtain a argss where a: "option_arity opt = Inr a" and t: "traverse_r (resolve_row J opt a) rows = Inr argss"
    and args: "args = concat argss" by (auto simp: resolve_rows_def bind_r_Inr_iff)
  have "resolve_one J opt saved row = Inr x" if "resolve_row J opt a (saved, row) = Inr x" for saved row x
    using a that by (simp add: resolve_one_def resolve_rows_def check_r_def)
  then have "list_all2 (\<lambda>(saved, row) a. resolve_one J opt saved row = Inr a) rows argss"
    using t by (auto simp: traverse_r_Inr_iff elim!: list_all2_mono)
  with args show ?thesis by blast
qed

lemma concat_rows:
  "list_all2 (\<lambda>(saved, row) a. resolve_one J opt saved row = Inr a) (map (\<lambda>p. (pl_spelling p, pl_values p)) ps) argss \<Longrightarrow>
     option_by_key sc k = Some opt \<Longrightarrow> op_target opt = Launch \<Longrightarrow> \<forall>p \<in> set ps. pl_key p = k \<Longrightarrow>
     argss = map (planned_text J sc) ps"
proof (induction ps arbitrary: argss)
  case (Cons p ps)
  then show ?case by (auto simp: list_all2_Cons1 planned_text_def planned_arguments_def)
qed simp

text \<open>Sums over a plan, by key.\<close>

lemma sum_by_key:
  fixes f :: "planned \<Rightarrow> 'a :: comm_monoid_add"
  assumes "distinct ks"
  shows "(\<Sum>k\<leftarrow>ks. \<Sum>p\<leftarrow>filter (\<lambda>p. pl_key p = k) plan. f p) = (\<Sum>p\<leftarrow>filter (\<lambda>p. pl_key p \<in> set ks) plan. f p)"
  using assms
proof (induction ks)
  case (Cons k ks)
  have "(\<Sum>p\<leftarrow>filter (\<lambda>p. pl_key p = k) plan. f p) + (\<Sum>p\<leftarrow>filter (\<lambda>p. pl_key p \<in> set ks) plan. f p) =
      (\<Sum>p\<leftarrow>filter (\<lambda>p. pl_key p = k \<or> pl_key p \<in> set ks) plan. f p)"
    using Cons.prems by (induction plan) (auto simp: ac_simps)
  with Cons show ?case by simp
qed simp

lemma mset_concat_sum: "mset (concat xss) = (\<Sum>xs\<leftarrow>xss. mset xs)"
  by (induction xss) simp_all

definition resolvable :: "json_lib \<Rightarrow> option_schema \<Rightarrow> planned \<Rightarrow> bool" where
  "resolvable J sc p \<longleftrightarrow> option_by_key sc (pl_key p) \<noteq> None \<and> (\<exists>item. planned_arguments J sc p = Inr item)"

lemma plan_flags:
  "\<forall>p \<in> set plan. resolvable J sc p \<Longrightarrow>
     depth_flags (List.map_filter (planned_item J sc) plan) d = concat (map (planned_text J sc) (filter (plans_flag sc d) plan))"
proof (induction plan)
  case (Cons p plan)
  then obtain item opt where p: "planned_arguments J sc p = Inr item" "option_by_key sc (pl_key p) = Some opt"
    by (auto simp: resolvable_def)
  from Cons planned_item_cases [OF p] p(2) show ?case
    by (auto simp: List.map_filter_simps depth_flags_def plans_at_def)
qed (simp add: depth_flags_def List.map_filter_simps)

lemma mset_sorted_args:
  fixes xs :: "(nat \<times> string list) list"
  shows "mset (concat (map snd (sort_key fst xs))) = (\<Sum>x\<leftarrow>xs. mset (snd x))"
proof -
  have m: "mset (concat (map snd ys)) = (\<Sum>x\<in>#mset ys. mset (snd x))" for ys :: "(nat \<times> string list) list"
    by (induction ys) simp_all
  have "(\<Sum>x\<leftarrow>xs. mset (snd x)) = (\<Sum>x\<in>#mset xs. mset (snd x))" by (induction xs) simp_all
  then show ?thesis unfolding m mset_sort by simp
qed

lemma plan_positionals:
  "\<forall>p \<in> set plan. resolvable J sc p \<Longrightarrow>
     mset (concat (map snd (depth_positionals (List.map_filter (planned_item J sc) plan) d))) =
     (\<Sum>p\<leftarrow>filter (plans_at sc (\<lambda>q. q \<noteq> None) d) plan. mset (planned_text J sc p))"
  unfolding depth_positionals_def mset_sorted_args
proof (induction plan)
  case (Cons p plan)
  then obtain item opt where p: "planned_arguments J sc p = Inr item" "option_by_key sc (pl_key p) = Some opt"
    by (auto simp: resolvable_def)
  from Cons planned_item_cases [OF p] p(2) show ?case
    by (auto simp: List.map_filter_simps plans_at_def)
qed (simp add: List.map_filter_simps)

text \<open>The grouped resolution of a plan.\<close>

lemma planned_resolved:
  assumes ok: "resolve_occurrences J encoded_size sc selected (group_plan plan) = Inr r0" and p: "p \<in> set plan"
  obtains opt where "option_by_key sc (pl_key p) = Some opt" "opt \<in> set (os_options sc)" "op_key opt = pl_key p"
    "take (length (op_scope opt)) selected = op_scope opt"
    "op_target opt = Launch \<longrightarrow> map_of (emitted_of J sc selected (group_plan plan)) (pl_key p) =
       Some (concat (map (planned_text J sc) (filter (\<lambda>q. pl_key q = pl_key p) plan)))"
proof -
  have keys: "distinct (map fst (group_plan plan))" using group_plan_sorted by (simp add: strict_sorted_iff)
  define ps where "ps = filter (\<lambda>q. pl_key q = pl_key p) plan"
  define rows where "rows = map (\<lambda>p. (pl_spelling p, pl_values p)) ps"
  have "map_of (group_plan plan) (pl_key p) = Some rows" using p by (simp add: group_plan_of rows_def ps_def)
  then have "(pl_key p, rows) \<in> set (group_plan plan)" by (rule map_of_SomeD)
  from saved_option_resolved [OF ok keys this] obtain opt args where o: "option_by_key sc (pl_key p) = Some opt"
      "opt \<in> set (os_options sc)" "op_key opt = pl_key p" "take (length (op_scope opt)) selected = op_scope opt"
      "resolve_rows J opt rows = Inr args"
      "op_target opt = Launch \<longrightarrow> map_of (emitted_of J sc selected (group_plan plan)) (pl_key p) = Some args"
    by metis
  moreover have "args = concat (map (planned_text J sc) ps)" if "op_target opt = Launch"
  proof -
    obtain argss where "args = concat argss" "list_all2 (\<lambda>(saved, row) a. resolve_one J opt saved row = Inr a) rows argss"
      using row_by_row [OF o(5)] by blast
    with concat_rows [OF _ o(1) that] show ?thesis by (auto simp: rows_def ps_def)
  qed
  ultimately show ?thesis using that by (simp add: ps_def)
qed

lemma grouped_arguments:
  assumes ok: "resolve_occurrences J encoded_size sc selected (group_plan plan) = Inr r0" and o: "opt \<in> set (os_options sc)"
  shows "args_at (emitted_of J sc selected (group_plan plan)) (op_key opt) =
    (if op_target opt = Launch then concat (map (planned_text J sc) (filter (\<lambda>q. pl_key q = op_key opt) plan)) else [])"
proof -
  have d: "distinct (map op_key (os_options sc))" using resolve_Inr(1) [OF ok] by (simp add: schema_sound_def)
  have by_key: "option_by_key sc (op_key opt) = Some opt" using option_by_key_Some [OF d] o by simp
  have keys: "distinct (map fst (group_plan plan))" using group_plan_sorted by (simp add: strict_sorted_iff)
  define em where "em = emitted_of J sc selected (group_plan plan)"
  have planned: "op_target opt = Launch \<longrightarrow> map_of em (op_key opt) =
      Some (concat (map (planned_text J sc) (filter (\<lambda>q. pl_key q = op_key opt) plan)))"
    if p: "p \<in> set plan" "pl_key p = op_key opt" for p
  proof -
    obtain opt2 where "option_by_key sc (pl_key p) = Some opt2" "op_target opt2 = Launch \<longrightarrow> map_of em (pl_key p) =
       Some (concat (map (planned_text J sc) (filter (\<lambda>q. pl_key q = pl_key p) plan)))"
      by (rule planned_resolved [OF ok p(1)]) (simp add: em_def)
    then show ?thesis using by_key p(2) by simp
  qed
  show ?thesis unfolding em_def [symmetric]
  proof (cases "map_of em (op_key opt)")
    case None
    then have "filter (\<lambda>q. pl_key q = op_key opt) plan = []" if "op_target opt = Launch"
      using planned that by (auto simp: filter_empty_conv)
    with None show "args_at em (op_key opt) =
        (if op_target opt = Launch then concat (map (planned_text J sc) (filter (\<lambda>q. pl_key q = op_key opt) plan)) else [])"
      by (simp add: args_at_def)
  next
    case (Some args)
    then have "(op_key opt, Arguments args) \<in> set (contributions_of J sc selected (group_plan plan))"
      unfolding em_def using map_of_SomeD emitted_arguments_in by fast
    then obtain rows where rows: "(op_key opt, rows) \<in> set (group_plan plan)"
      "resolve_override J sc selected (op_key opt) rows = Arguments args" by (auto simp: contributions_of_def)
    then have l: "op_target opt = Launch"
      using by_key by (cases "op_target opt") (auto simp: resolve_override_def split: if_splits option.splits sum.splits)
    have "map_of (group_plan plan) (op_key opt) \<noteq> None" using rows(1) keys by simp
    then obtain p where "p \<in> set plan" "pl_key p = op_key opt" by (auto simp: group_plan_of split: if_splits)
    with planned l show "args_at em (op_key opt) =
        (if op_target opt = Launch then concat (map (planned_text J sc) (filter (\<lambda>q. pl_key q = op_key opt) plan)) else [])"
      by (auto simp: args_at_def)
  qed
qed

text \<open>At every depth, both resolutions emit the same arguments.\<close>

lemma depth_sum:
  assumes ok: "resolve_occurrences J encoded_size sc selected (group_plan plan) = Inr r0" and "d \<le> length selected"
  shows "(\<Sum>opt\<leftarrow>filter (\<lambda>opt. op_scope opt = take d selected \<and> Q (op_position opt)) (os_options sc).
      mset (args_at (emitted_of J sc selected (group_plan plan)) (op_key opt))) =
    (\<Sum>p\<leftarrow>filter (plans_at sc Q d) plan. mset (planned_text J sc p))"
proof -
  have dk: "distinct (map op_key (os_options sc))" using resolve_Inr(1) [OF ok] by (simp add: schema_sound_def)
  define opts where "opts = filter (\<lambda>opt. op_scope opt = take d selected \<and> Q (op_position opt)) (os_options sc)"
  define ks where "ks = map op_key (filter (\<lambda>opt. op_target opt = Launch) opts)"
  have ks: "distinct ks" using dk by (simp add: ks_def opts_def distinct_map inj_on_def)
  have sub: "set opts \<subseteq> set (os_options sc)" by (auto simp: opts_def)
  have "(\<Sum>opt\<leftarrow>os. mset (args_at (emitted_of J sc selected (group_plan plan)) (op_key opt))) =
      (\<Sum>k\<leftarrow>map op_key (filter (\<lambda>opt. op_target opt = Launch) os). \<Sum>p\<leftarrow>filter (\<lambda>p. pl_key p = k) plan. mset (planned_text J sc p))"
    if "set os \<subseteq> set (os_options sc)" for os
    using that by (induction os) (simp_all add: grouped_arguments [OF ok] mset_concat_sum comp_def)
  from this [OF sub] have "(\<Sum>opt\<leftarrow>opts. mset (args_at (emitted_of J sc selected (group_plan plan)) (op_key opt))) =
      (\<Sum>p\<leftarrow>filter (\<lambda>p. pl_key p \<in> set ks) plan. mset (planned_text J sc p))"
    using sum_by_key [OF ks] by (simp add: ks_def)
  moreover have "pl_key p \<in> set ks \<longleftrightarrow> plans_at sc Q d p" if p: "p \<in> set plan" for p
  proof -
    obtain opt where o: "option_by_key sc (pl_key p) = Some opt" "opt \<in> set (os_options sc)" "op_key opt = pl_key p"
      "take (length (op_scope opt)) selected = op_scope opt" by (rule planned_resolved [OF ok p])
    have "op_scope opt = take d selected \<longleftrightarrow> length (op_scope opt) = d" using o(4) assms(2) by auto
    moreover have "pl_key p \<in> set ks \<longleftrightarrow> op_target opt = Launch \<and> op_scope opt = take d selected \<and> Q (op_position opt)"
    proof -
      have "pl_key p \<in> set ks \<longleftrightarrow> (\<exists>o2 \<in> set (os_options sc). op_scope o2 = take d selected \<and> Q (op_position o2) \<and>
          op_target o2 = Launch \<and> op_key o2 = pl_key p)" unfolding ks_def opts_def by force
      moreover have "o2 = opt" if "o2 \<in> set (os_options sc)" "op_key o2 = pl_key p" for o2
        using dk o(2,3) that unfolding distinct_map by (metis inj_onD)
      ultimately show ?thesis using o(2,3) by blast
    qed
    ultimately show ?thesis by (simp add: plans_at_def o(1))
  qed
  moreover from this have "filter (\<lambda>p. pl_key p \<in> set ks) plan = filter (plans_at sc Q d) plan" by (rule filter_cong [OF refl])
  ultimately show ?thesis by (simp add: opts_def)
qed

lemma grouped_flags_mset:
  assumes "resolve_occurrences J encoded_size sc selected (group_plan plan) = Inr r0" "d \<le> length selected"
  shows "mset (flag_arguments sc (emitted_of J sc selected (group_plan plan)) (take d selected)) =
    mset (concat (map (planned_text J sc) (filter (plans_flag sc d) plan)))"
  using depth_sum [OF assms, of "\<lambda>q. q = None"] by (simp add: flag_arguments_def mset_concat_sum comp_def)

lemma positional_args_mset:
  "mset (positional_args (positionals sc em here)) =
     (\<Sum>opt\<leftarrow>filter (\<lambda>opt. op_scope opt = here \<and> op_position opt \<noteq> None) (os_options sc). mset (args_at em (op_key opt)))"
proof -
  have "mset (concat (map (\<lambda>(_, _, args). args) ys)) = (\<Sum>x\<in>#mset ys. mset (snd (snd x)))" for ys :: "positional list"
    by (induction ys) auto
  moreover have "(\<Sum>x\<leftarrow>xs. mset (snd (snd x))) = (\<Sum>x\<in>#mset xs. mset (snd (snd x)))" for xs :: "positional list"
    by (induction xs) simp_all
  ultimately have "mset (positional_args (positionals sc em here)) =
      (\<Sum>x\<leftarrow>List.map_filter (positional_of em here) (os_options sc). mset (snd (snd x)))"
    unfolding positional_args_def positionals_def by (simp only: mset_sort)
  also have "(\<Sum>x\<leftarrow>List.map_filter (positional_of em here) os. mset (snd (snd x))) =
      (\<Sum>opt\<leftarrow>filter (\<lambda>opt. op_scope opt = here \<and> op_position opt \<noteq> None) os. mset (args_at em (op_key opt)))" for os
    by (induction os) (auto simp: List.map_filter_simps positional_of_def args_at_def split: option.split)
  finally show ?thesis .
qed

lemma dashed_args: "dashed pos \<longleftrightarrow> list_ex (starts_with ''-'') (positional_args pos)"
  by (induction pos) (auto simp: dashed_def positional_args_def)

lemma plan_dashed:
  "list_ex (\<lambda>(_, args). list_ex (starts_with ''-'') args) pos \<longleftrightarrow> list_ex (starts_with ''-'') (concat (map snd pos))"
  by (induction pos) auto

lemma list_ex_mset: "mset xs = mset ys \<Longrightarrow> list_ex P xs = list_ex P ys"
  by (metis list_ex_iff set_mset_mset)

text \<open>A depth of a successful grouped resolution has no issue.\<close>

lemma scope_issues_depth:
  "scope_issues sc em here subs = [] \<Longrightarrow> d \<le> length subs \<Longrightarrow>
     fst (delimiter sc (d = length subs) (positionals sc em (here @ take d subs))) = []"
proof (induction subs arbitrary: here d)
  case Nil
  then show ?case by (simp add: scope_issues.simps Let_def)
next
  case (Cons sub subs)
  from Cons.prems(1) have h: "fst (delimiter sc False (positionals sc em here)) = []" "scope_issues sc em (here @ [sub]) subs = []"
    by (simp_all add: scope_issues.simps [of sc em here] Let_def)
  show ?case
  proof (cases d)
    case 0
    with h(1) show ?thesis by simp
  next
    case (Suc e)
    with Cons.IH [OF h(2), of e] Cons.prems(2) show ?thesis by simp
  qed
qed

text \<open>One section of a plan and the section of the grouped resolution at the same depth.\<close>

lemma plan_all_resolvable:
  assumes "resolve_occurrences J encoded_size sc selected (group_plan plan) = Inr r0"
    and "\<forall>p \<in> set plan. \<exists>item. planned_arguments J sc p = Inr item"
  shows "\<forall>p \<in> set plan. resolvable J sc p"
proof
  fix p assume p: "p \<in> set plan"
  obtain opt where "option_by_key sc (pl_key p) = Some opt" by (rule planned_resolved [OF assms(1) p])
  with assms(2) p show "resolvable J sc p" by (simp add: resolvable_def)
qed

lemma plan_section_shape:
  assumes ok: "resolve_occurrences J encoded_size sc selected (group_plan plan) = Inr r0"
    and rs: "\<forall>p \<in> set plan. resolvable J sc p" and d: "d \<le> length selected"
  defines "items \<equiv> List.map_filter (planned_item J sc) plan"
    and "pos \<equiv> positionals sc (emitted_of J sc selected (group_plan plan)) (take d selected)"
  shows "mset (concat (map snd (depth_positionals items d))) = mset (positional_args pos)"
    and "plan_section items d = concat (map (planned_text J sc) (filter (plans_flag sc d) plan)) @
      (if dashed pos then [''--''] else []) @ concat (map snd (depth_positionals items d))"
    and "dashed pos \<Longrightarrow> d = length selected \<and> supported (os_end_of_options sc) = Some True"
    and "snd (delimiter sc (d = length selected) pos) = (if dashed pos then [''--''] else [])"
proof -
  show m: "mset (concat (map snd (depth_positionals items d))) = mset (positional_args pos)"
    using plan_positionals [OF rs, of d] depth_sum [OF ok d, of "\<lambda>q. q \<noteq> None"] positional_args_mset [of sc _ "take d selected"]
    by (simp add: items_def pos_def)
  then have "list_ex (\<lambda>(_, args). list_ex (starts_with ''-'') args) (depth_positionals items d) = dashed pos"
    unfolding plan_dashed dashed_args by (rule list_ex_mset)
  then show "plan_section items d = concat (map (planned_text J sc) (filter (plans_flag sc d) plan)) @
      (if dashed pos then [''--''] else []) @ concat (map snd (depth_positionals items d))"
    using plan_flags [OF rs, of d] by (simp add: plan_section_def items_def)
  have "fst (delimiter sc (d = length selected) pos) = []"
    using scope_issues_depth [OF resolve_Inr(7) [OF ok] d] by (simp add: pos_def)
  then show "dashed pos \<Longrightarrow> d = length selected \<and> supported (os_end_of_options sc) = Some True"
    and "snd (delimiter sc (d = length selected) pos) = (if dashed pos then [''--''] else [])"
    by (auto simp: delimiter_def split: if_splits)
qed

text \<open>C16. A plan changes the order of arguments and nothing else. When the resolution of a plan succeeds, so does the
  resolution of its values grouped by option, with the same request fields; both commands are cut into the
  same sections, every section of the plan's command is a rearrangement of the section of the grouped one,
  and it starts with the flags of its occurrences in the order of the plan.
\<close>

theorem plan_changes_only_order:
  assumes "resolve_plan J encoded_size sc selected plan = Inr r"
  shows "\<exists>r0 ss ss0. resolve_occurrences J encoded_size sc selected (group_plan plan) = Inr r0 \<and> ro_request r = ro_request r0 \<and>
    resolved_sections r selected = Inr ss \<and> resolved_sections r0 selected = Inr ss0 \<and>
    list_all2 (\<lambda>s s0. mset s = mset s0) ss ss0 \<and>
    list_all2 (\<lambda>d s. prefix (concat (map (planned_text J sc) (filter (plans_flag sc d) plan))) s) [0..<Suc (length selected)] ss"
proof -
  define items where "items = List.map_filter (planned_item J sc) plan"
  obtain r0 where ok: "resolve_occurrences J encoded_size sc selected (group_plan plan) = Inr r0" "ro_request r = ro_request r0"
    and sec: "resolved_sections r selected = Inr (map (plan_section items) [0..<Suc (length selected)])"
    and args: "\<forall>p \<in> set plan. \<exists>item. planned_arguments J sc p = Inr item"
    by (rule resolve_plan_Inr [OF assms]) (simp add: items_def)
  note rs = plan_all_resolvable [OF ok(1) args]
  define em where "em = emitted_of J sc selected (group_plan plan)"
  have sec0: "resolved_sections r0 selected = Inr (scope_sections sc em [] selected)"
    unfolding em_def by (rule resolved_sections_layout [OF ok(1)])
  have "mset (plan_section items d) = mset (scope_section sc em (d = length selected) (take d selected))" if d: "d \<le> length selected" for d
    using plan_section_shape(1,2,4) [OF ok(1) rs d] grouped_flags_mset [OF ok(1) d]
    by (simp add: items_def scope_section_def em_def)
  then have "list_all2 (\<lambda>s s0. mset s = mset s0) (map (plan_section items) [0..<Suc (length selected)]) (scope_sections sc em [] selected)"
    by (auto simp: list_all2_conv_all_nth length_scope_sections nth_scope_sections simp del: upt_Suc)
  moreover have "prefix (concat (map (planned_text J sc) (filter (plans_flag sc d) plan))) (plan_section items d)"
    if "d \<le> length selected" for d
    using plan_section_shape(2) [OF ok(1) rs that] by (simp add: items_def)
  then have "list_all2 (\<lambda>d s. prefix (concat (map (planned_text J sc) (filter (plans_flag sc d) plan))) s)
      [0..<Suc (length selected)] (map (plan_section items) [0..<Suc (length selected)])"
    by (auto simp: list_all2_conv_all_nth simp del: upt_Suc)
  ultimately show ?thesis using ok sec sec0 by blast
qed

section \<open>Values of a plan\<close>

lemma planned_text_own:
  assumes ok: "resolve_occurrences J encoded_size sc selected (group_plan plan) = Inr r0" and p: "p \<in> set plan"
    and f: "plans_flag sc d p"
  shows "list_all (own_argument J sc) (planned_text J sc p)"
proof (cases "planned_arguments J sc p")
  case (Inr item)
  obtain opt where o: "option_by_key sc (pl_key p) = Some opt" "opt \<in> set (os_options sc)" by (rule planned_resolved [OF ok p])
  have l: "op_target opt = Launch" "op_position opt = None" using f o(1) by (simp_all add: plans_at_def)
  obtain args where args: "resolve_one J opt (pl_spelling p) (pl_values p) = Inr args" "planned_text J sc p = args"
    using Inr o(1) l(1) by (auto simp: planned_arguments_def planned_text_def split: sum.splits)
  have "op_spellings opt \<noteq> []" using resolve_Inr(1) [OF ok] o(2) l by (auto simp: schema_sound_def list_all_iff option_ok_def)
  with resolve_rows_own [OF o(2)] args show ?thesis by (simp add: resolve_one_def)
qed (simp add: planned_text_def)

lemma join_delimited:
  assumes "length ss = Suc (length subs)" "\<forall>d < length subs. list_all (own_argument J sc) (ss ! d)"
    and "delimited J sc (ss ! length subs)" "list_all (own_argument J sc) subs"
  shows "delimited J sc (join_sections ss subs)"
  using assms
proof (induction subs arbitrary: ss)
  case Nil
  then show ?case by (cases ss) auto
next
  case (Cons sub subs)
  then obtain s ss' where ss: "ss = s # ss'" "length ss' = Suc (length subs)" by (cases ss) auto
  have own: "list_all (own_argument J sc) (s @ [sub])" using Cons.prems(2,4) by (auto simp: ss(1))
  have "\<forall>d < length subs. list_all (own_argument J sc) (ss' ! d)" using Cons.prems(2) by (auto simp: ss(1))
  with Cons.IH [OF ss(2)] Cons.prems(3,4) have "delimited J sc (join_sections ss' subs)" by (simp add: ss(1))
  from delimited_append [OF own this] show ?case by (simp add: ss(1))
qed


section \<open>An example\<close>

definition demo_plan :: "planned list" where
  "demo_plan =
     [\<lparr>pl_key = ''prompt'', pl_spelling = None, pl_values = [JStr ''-x'']\<rparr>,
      \<lparr>pl_key = ''ctx'', pl_spelling = None, pl_values = [JNum ''8'']\<rparr>]"

lemma demo_grouped: "group_plan demo_plan = demo_overrides"
  by code_simp

lemma demo_planned:
  "planned_arguments demo_lib demo_schema \<lparr>pl_key = ''prompt'', pl_spelling = None, pl_values = [JStr ''-x'']\<rparr> = Inr (Some (0, Some 0, [''-x'']))"
  "planned_arguments demo_lib demo_schema \<lparr>pl_key = ''ctx'', pl_spelling = None, pl_values = [JNum ''8'']\<rparr> = Inr (Some (0, None, [''--ctx'', ''8'']))"
  by (simp_all add: planned_arguments_def option_by_key_def demo_schema_def resolve_one_def resolve_rows_def
      option_arity_def resolve_row_def chosen_spelling_def value_row_def scalar_def check_r_def demo_option_def known_def
      no_fact_def supported_def one_value_def value_of_kind_def check_range_def scalar_text_def bounded_text_def
      max_argument_bytes_def demo_lib_def int_text_def is_ascii_digit_def code_def digits_value_def starts_with_iff)

lemma demo_plan_resolved:
  "resolve_plan demo_lib (\<lambda>_. 0) demo_schema [] demo_plan =
     Inr \<lparr>ro_boundaries = [], ro_argv = [''--ctx'', ''8'', ''--'', ''-x''], ro_request = []\<rparr>"
proof -
  have v: "resolve_validated demo_lib demo_schema [] demo_overrides =
      Inr \<lparr>ro_boundaries = [], ro_argv = [''--ctx'', ''8'', ''--'', ''-x''], ro_request = []\<rparr>"
    using demo_resolved by (simp add: resolve_occurrences_def demo_validated)
  have "traverse_r (planned_arguments demo_lib demo_schema) demo_plan =
      Inr [Some (0, Some 0, [''-x'']), Some (0, None, [''--ctx'', ''8''])]"
    unfolding demo_plan_def by (simp add: demo_planned)
  moreover have "length demo_plan = 2" by (simp add: demo_plan_def)
  ultimately show ?thesis
    by (simp add: resolve_plan_def demo_validated demo_grouped v max_plan_def List.map_filter_simps plan_section_def
        depth_flags_def depth_positionals_def starts_with_iff)
qed

theorem plan_changes_only_order_witness:
  "\<exists>r0. resolve_occurrences demo_lib (\<lambda>_. 0) demo_schema [] (group_plan demo_plan) = Inr r0 \<and> ro_request r0 = []"
  using plan_changes_only_order [OF demo_plan_resolved] by force


definition demo_stored :: "(string \<times> json) list" where
  "demo_stored =
     [(''@option_order'', JObj [(''occurrences'', JArr [JObj [(''key'', JStr ''ctx''), (''spelling'', JNull)]]),
        (''version'', JNum ''1'')]),
      (''ctx'', JNum ''8'')]"

definition demo_order :: saved_order where
  "demo_order = \<lparr>od_version = 1, od_occurrences = [\<lparr>oe_key = ''ctx'', oe_spelling = None\<rparr>]\<rparr>"

lemma demo_checked:
  "checked_saved_order demo_lib (\<lambda>_. []) demo_stored = Inr (Some (demo_order, overrides_from_map demo_stored))"
proof -
  have m: "overrides_from_map demo_stored = [(''ctx'', \<lparr>ov_spelling = None, ov_occurrences = [[JNum ''8'']]\<rparr>)]"
    by (simp add: demo_stored_def overrides_from_map_def order_key_def override_from_value_def stored_override_def)
  have "entry_counts (od_occurrences demo_order) = [(''ctx'', 1)]"
    by (simp add: demo_order_def entry_counts_def count_key_def)
  then have c: "check_order (od_occurrences demo_order) (overrides_from_map demo_stored) = Inr ()"
    unfolding m by (simp add: check_order_def check_r_def demo_order_def max_plan_def entry_valid_def order_key_valid_def check_count_def
        demo_chars)
  have u: "as_u64 (JNum ''1'') = Some 1" by (simp add: int_text_def is_ascii_digit_def digits_value_def code_def)
  show ?thesis
    using c by (simp add: checked_saved_order_def demo_stored_def order_key_def demo_lib_def check_r_def order_version_of_def u
        order_version_def decode_order_def only_keys_def decode_entry_def optional_text_def demo_order_def del: as_u64.simps)
qed

theorem saved_order_keeps_values_witness:
  "\<exists>plan. saved_plan_from_grouped demo_schema (overrides_from_map demo_stored) demo_order = Some plan \<and>
    values_for ''ctx'' plan = rows_of (overrides_from_map demo_stored) ''ctx''"
proof -
  have "distinct (map op_key (os_options demo_schema))" by (simp add: demo_schema_def demo_option_def)
  from saved_order_keeps_values [OF demo_checked this] show ?thesis by auto
qed

end
