(* ===== verification/CommandText.thy ===== *)
theory CommandText
  imports Prelude
begin

text \<open>
  Splitting a pasted command line into words, \<open>split_command\<close> and \<open>split_command_with_syntax\<close> of
  \<open>src-tauri/src/providers/options.rs\<close>: POSIX quoting for simple input, and the argument rules of the
  Microsoft C runtime.

  The text is its UTF-8 bytes. Every character that the code compares with is ASCII, except white space,
  which is recognised by its encoding.
\<close>

section \<open>POSIX\<close>

definition flush :: "bool \<Rightarrow> string \<Rightarrow> string list \<Rightarrow> string list" where
  "flush has_word current collected = (if has_word then collected @ [current] else collected)"

function split_loop :: "char option \<Rightarrow> string \<Rightarrow> bool \<Rightarrow> string list \<Rightarrow> string \<Rightarrow> string + string list" where
  "split_loop quote current has_word collected [] =
     (if quote \<noteq> None then Inl ''unterminated quote'' else Inr (flush has_word current collected))"
| "split_loop quote current has_word collected (c # cs) =
     (case quote of
        Some q \<Rightarrow>
          if c = q then split_loop None current has_word collected cs
          else if q = CHR 0x22 \<and> c = CHR 0x5C then
            (case cs of
               [] \<Rightarrow> Inl ''unterminated escape''
             | d # ds \<Rightarrow>
                 if d \<in> {CHR 0x22, CHR 0x5C, CHR ''$'', CHR 0x60} then split_loop quote (current @ [d]) has_word collected ds
                 else if d = CHR 0x0A then split_loop quote current has_word collected ds
                 else split_loop quote (current @ [CHR 0x5C, d]) has_word collected ds)
          else split_loop quote (current @ [c]) has_word collected cs
      | None \<Rightarrow>
          if c = CHR 0x27 \<or> c = CHR 0x22 then split_loop (Some c) current True collected cs
          else if c = CHR 0x5C then
            (case cs of
               [] \<Rightarrow> split_loop None current has_word collected []
             | d # ds \<Rightarrow>
                 if d = CHR 0x0A \<or> d = CHR 0x0D then split_loop None current has_word collected ds
                 else split_loop None (current @ [d]) True collected ds)
          else
            (case first_strip ws_chars (c # cs) of
               Some rest \<Rightarrow> split_loop None (if has_word then [] else current) False (flush has_word current collected) rest
             | None \<Rightarrow> split_loop None (current @ [c]) True collected cs))"
  by pat_completeness auto
termination
  by (relation "measure (\<lambda>(_, _, _, _, s). length s)")
    (auto dest: first_strip_length [OF _ ws_chars_nonempty(1)])

definition split_command :: "string \<Rightarrow> string + string list" where
  "split_command s = split_loop None [] False [] s"

section \<open>Windows\<close>

datatype command_syntax = Posix | Windows

definition next_is :: "char \<Rightarrow> string \<Rightarrow> bool" where
  "next_is d s \<longleftrightarrow> (case s of [] \<Rightarrow> False | c # _ \<Rightarrow> c = d)"

text \<open>The backslashes at the start of a text, and what follows them.\<close>

definition slash_run :: "string \<Rightarrow> nat \<times> string" where
  "slash_run s = (length (takeWhile (\<lambda>c. c = CHR 0x5C) s), dropWhile (\<lambda>c. c = CHR 0x5C) s)"

definition backslashes :: "nat \<Rightarrow> string" where
  "backslashes n = replicate n CHR 0x5C"

lemma slash_run_simps:
  "slash_run (CHR 0x5C # s) = (Suc (fst (slash_run s)), snd (slash_run s))"
  "c \<noteq> CHR 0x5C \<Longrightarrow> slash_run (c # s) = (0, c # s)"
  "slash_run [] = (0, [])"
  by (simp_all add: slash_run_def)

lemma slash_run_length: "length (snd (slash_run s)) \<le> length s"
  by (simp add: slash_run_def length_dropWhile_le)

function split_windows :: "string \<Rightarrow> bool \<Rightarrow> bool \<Rightarrow> string list \<Rightarrow> string \<Rightarrow> string list" where
  "split_windows current started quoted collected [] = flush started current collected"
| "split_windows current started quoted collected (c # cs) =
     (if \<not> quoted \<and> (c = CHR '' '' \<or> c = CHR 0x09) then
        (if started then split_windows [] False quoted (collected @ [current]) cs
         else split_windows current False quoted collected cs)
      else if c \<noteq> CHR 0x5C \<and> c \<noteq> CHR 0x22 then split_windows (current @ [c]) True quoted collected cs
      else if \<not> next_is (CHR 0x22) (snd (slash_run (c # cs))) then
        split_windows (current @ backslashes (fst (slash_run (c # cs)))) True quoted collected (snd (slash_run (c # cs)))
      else
        let n = fst (slash_run (c # cs)); rest = tl (snd (slash_run (c # cs)));
            current = current @ backslashes (n div 2)
        in if odd n then split_windows (current @ [CHR 0x22]) True quoted collected rest
           else if quoted \<and> next_is (CHR 0x22) rest then
             split_windows (current @ [CHR 0x22]) True quoted collected (tl rest)
           else split_windows current True (\<not> quoted) collected rest)"
  by pat_completeness auto
termination
proof (relation "measure (\<lambda>(_, _, _, _, s). length s)", goal_cases)
  case (5 current started quoted collected c cs)
  then have "c = CHR 0x5C" by (auto simp: next_is_def slash_run_simps)
  then show ?case using slash_run_length [of cs] by (simp add: slash_run_simps)
next
  case (6 current started quoted collected c cs n rest current')
  then show ?case using slash_run_length [of "c # cs"] by (cases "snd (slash_run (c # cs))") (auto simp: next_is_def)
next
  case (7 current started quoted collected c cs n rest current')
  then show ?case using slash_run_length [of "c # cs"] by (cases "snd (slash_run (c # cs))") (auto simp: next_is_def)
next
  case (8 current started quoted collected c cs n rest current')
  then show ?case using slash_run_length [of "c # cs"] by (cases "snd (slash_run (c # cs))") (auto simp: next_is_def)
qed simp_all

definition split_command_with_syntax :: "string \<Rightarrow> command_syntax \<Rightarrow> string + string list" where
  "split_command_with_syntax s syn =
     (if syn = Posix then split_command s
      else if CHR 0x00 \<in> set s then Inl ''a Windows command line cannot contain NUL''
      else Inr (split_windows [] False False [] s))"

section \<open>Quoting for POSIX\<close>

declare split_loop.simps [simp del] split_windows.simps [simp del]

text \<open>A word between apostrophes; an apostrophe closes them, is escaped and opens them again.\<close>

fun quote_rest :: "string \<Rightarrow> string" where
  "quote_rest [] = [CHR 0x27]"
| "quote_rest (c # cs) = (if c = CHR 0x27 then [CHR 0x27, CHR 0x5C, CHR 0x27, CHR 0x27] else [c]) @ quote_rest cs"

definition quote_word :: "string \<Rightarrow> string" where
  "quote_word w = CHR 0x27 # quote_rest w"

lemma split_loop_end:
  "split_loop quote current has_word collected [] =
     (if quote \<noteq> None then Inl ''unterminated quote'' else Inr (flush has_word current collected))"
  by (subst split_loop.simps(1)) (rule refl)

text \<open>The steps that the quoted text takes.\<close>

lemma split_loop_step:
  "c \<noteq> CHR 0x27 \<Longrightarrow> split_loop (Some (CHR 0x27)) current h collected (c # s) =
     split_loop (Some (CHR 0x27)) (current @ [c]) h collected s"
  "split_loop (Some (CHR 0x27)) current h collected (CHR 0x27 # s) = split_loop None current h collected s"
  "split_loop None current h collected (CHR 0x27 # s) = split_loop (Some (CHR 0x27)) current True collected s"
  "split_loop None current h collected (CHR 0x5C # CHR 0x27 # s) = split_loop None (current @ [CHR 0x27]) True collected s"
  by (subst split_loop.simps(2); simp)+

lemma split_loop_quoted:
  "split_loop (Some (CHR 0x27)) current True collected (quote_rest w @ s) = split_loop None (current @ w) True collected s"
proof (induction w arbitrary: current)
  case Nil
  show ?case by (simp add: split_loop_step)
next
  case (Cons c w)
  then show ?case by (cases "c = CHR 0x27") (simp_all add: split_loop_step)
qed

lemma split_loop_word:
  "split_loop None [] False collected (quote_word w @ s) = split_loop None w True collected s"
  using split_loop_quoted [of "[]"] by (simp add: quote_word_def split_loop_step)

fun quote_words :: "string list \<Rightarrow> string" where
  "quote_words [] = []"
| "quote_words [w] = quote_word w"
| "quote_words (w # ws) = quote_word w @ CHR '' '' # quote_words ws"

lemma ascii_ws_first:
  "ws_chars = [CHR 0x09] # [CHR 0x0A] # [CHR 0x0B] # [CHR 0x0C] # [CHR 0x0D] # [CHR '' ''] # drop 6 ws_chars"
  by code_simp

lemma space_stripped: "first_strip ws_chars (CHR '' '' # s) = Some s"
  by (subst ascii_ws_first) simp

lemma split_loop_space: "split_loop None w True collected (CHR '' '' # s) = split_loop None [] False (collected @ [w]) s"
  by (subst split_loop.simps(2)) (simp add: space_stripped flush_def)

lemma split_loop_words: "split_loop None [] False collected (quote_words ws) = Inr (collected @ ws)"
proof (induction ws arbitrary: collected rule: quote_words.induct)
  case 1
  then show ?case by (simp add: split_loop_end flush_def)
next
  case (2 w)
  then show ?case using split_loop_word [of collected w "[]"] by (simp add: split_loop_end flush_def)
next
  case (3 w v ws)
  then show ?case by (simp add: split_loop_word split_loop_space)
qed

section \<open>Quoting for Windows\<close>

text \<open>A word between quotation marks; backslashes are doubled before a quotation mark, which is escaped, and
  at the end. The first argument counts the backslashes that were read but not yet written.\<close>

fun quote_argument_rest :: "nat \<Rightarrow> string \<Rightarrow> string" where
  "quote_argument_rest n [] = backslashes (2 * n) @ [CHR 0x22]"
| "quote_argument_rest n (c # cs) =
     (if c = CHR 0x5C then quote_argument_rest (Suc n) cs
      else if c = CHR 0x22 then backslashes (2 * n + 1) @ CHR 0x22 # quote_argument_rest 0 cs
      else backslashes n @ c # quote_argument_rest 0 cs)"

definition quote_argument :: "string \<Rightarrow> string" where
  "quote_argument w = CHR 0x22 # quote_argument_rest 0 w"

fun quote_arguments :: "string list \<Rightarrow> string" where
  "quote_arguments [] = []"
| "quote_arguments [w] = quote_argument w"
| "quote_arguments (w # ws) = quote_argument w @ CHR '' '' # quote_arguments ws"

lemma slash_run_backslashes: "c \<noteq> CHR 0x5C \<Longrightarrow> slash_run (backslashes n @ c # s) = (n, c # s)"
  by (induction n) (simp_all add: backslashes_def slash_run_simps)

lemma windows_letter:
  "\<lbrakk>c \<noteq> CHR 0x5C; c \<noteq> CHR 0x22\<rbrakk> \<Longrightarrow>
     split_windows current True True collected (c # s) = split_windows (current @ [c]) True True collected s"
  by (subst split_windows.simps(2)) simp

lemma windows_slashes:
  assumes "c \<noteq> CHR 0x5C" "c \<noteq> CHR 0x22"
  shows "split_windows current True True collected (CHR 0x5C # backslashes n @ c # s) =
    split_windows (current @ backslashes (Suc n)) True True collected (c # s)"
  using assms by (subst split_windows.simps(2)) (simp add: slash_run_simps slash_run_backslashes next_is_def)

lemma windows_run:
  assumes "c \<noteq> CHR 0x5C" "c \<noteq> CHR 0x22"
  shows "split_windows current True True collected (backslashes n @ c # s) =
    split_windows (current @ backslashes n @ [c]) True True collected s"
proof (cases n)
  case 0
  with assms show ?thesis by (simp add: backslashes_def windows_letter)
next
  case (Suc m)
  then have "backslashes n @ c # s = CHR 0x5C # backslashes m @ c # s" by (simp add: backslashes_def)
  then show ?thesis using assms Suc by (simp add: windows_slashes windows_letter)
qed

lemma windows_quote:
  "split_windows current True True collected (backslashes n @ CHR 0x22 # s) =
    (if odd n then split_windows (current @ backslashes (n div 2) @ [CHR 0x22]) True True collected s
     else if next_is (CHR 0x22) s then split_windows (current @ backslashes (n div 2) @ [CHR 0x22]) True True collected (tl s)
     else split_windows (current @ backslashes (n div 2)) True False collected s)"
proof -
  obtain d r where d: "backslashes n @ CHR 0x22 # s = d # r" and c: "d = CHR 0x5C \<or> d = CHR 0x22"
    by (cases n) (auto simp: backslashes_def)
  have run: "slash_run (d # r) = (n, CHR 0x22 # s)" unfolding d [symmetric] by (rule slash_run_backslashes) simp
  show ?thesis unfolding d by (subst split_windows.simps(2)) (use c in \<open>auto simp: run next_is_def Let_def\<close>)
qed

lemma backslashes_Suc: "backslashes n @ CHR 0x5C # w = backslashes (Suc n) @ w"
  by (simp add: backslashes_def replicate_app_Cons_same)

lemma windows_quoted:
  assumes "\<not> next_is (CHR 0x22) s"
  shows "split_windows current True True collected (quote_argument_rest n w @ s) =
    split_windows (current @ backslashes n @ w) True False collected s"
proof (induction w arbitrary: n current)
  case Nil
  show ?case using assms by (simp add: windows_quote)
next
  case (Cons c w)
  consider "c = CHR 0x5C" | "c = CHR 0x22" | "c \<noteq> CHR 0x5C" "c \<noteq> CHR 0x22" by blast
  then show ?case
  proof cases
    case 1
    with Cons show ?thesis by (simp add: backslashes_Suc)
  next
    case 2
    have odd: "odd (2 * n + 1)" "(2 * n + 1) div 2 = n" by simp_all
    show ?thesis using Cons [where n = 0] windows_quote [of current collected "2 * n + 1"] 2
      by (simp only: odd if_True quote_argument_rest.simps) (simp add: backslashes_def)
  next
    case 3
    with Cons [where n = 0] show ?thesis by (simp add: windows_run) (simp add: backslashes_def)
  qed
qed

lemma windows_space:
  "split_windows w True False collected (CHR '' '' # s) = split_windows [] False False (collected @ [w]) s"
  by (subst split_windows.simps(2)) simp

lemma windows_open:
  assumes "\<not> next_is (CHR 0x22) s"
  shows "split_windows [] False False collected (quote_argument w @ s) = split_windows w True False collected s"
proof -
  have run: "slash_run (CHR 0x22 # t) = (0, CHR 0x22 # t)" for t by (simp add: slash_run_simps)
  have "split_windows [] False False collected (CHR 0x22 # t) = split_windows [] True True collected t" for t
    by (subst split_windows.simps(2)) (simp add: run next_is_def backslashes_def)
  then show ?thesis using windows_quoted [OF assms, where current = "[]" and collected = collected and n = 0 and w = w] by (simp add: quote_argument_def backslashes_def)
qed

lemma split_windows_arguments: "split_windows [] False False collected (quote_arguments ws) = collected @ ws"
proof (induction ws arbitrary: collected rule: quote_arguments.induct)
  case 1
  show ?case by (subst quote_arguments.simps, subst split_windows.simps(1)) (simp add: flush_def)
next
  case (2 w)
  then show ?case using windows_open [where s = "[]" and collected = collected and w = w]
    by (simp add: next_is_def) (simp add: split_windows.simps(1) flush_def)
next
  case (3 w v ws)
  then show ?case by (simp add: windows_open next_is_def windows_space)
qed

lemma nul_in_argument:
  "CHR 0x00 \<in> set (quote_argument_rest n w) \<longleftrightarrow> CHR 0x00 \<in> set w"
  by (induction w arbitrary: n) (auto simp: backslashes_def)

lemma nul_in_arguments: "CHR 0x00 \<in> set (quote_arguments ws) \<longleftrightarrow> (\<exists>w\<in>set ws. CHR 0x00 \<in> set w)"
  by (induction ws rule: quote_arguments.induct) (auto simp: quote_argument_def nul_in_argument)

text \<open>C27. Words are what a pasted command contains. Joining words with the quoting of a POSIX shell and splitting
  the command gives back exactly those words, whatever characters they contain (empty words, quotes,
  backslashes, white space, line ends). With the quoting of the Microsoft C runtime (a quotation mark is
  escaped, backslashes before it are doubled) the same holds for the Windows syntax, unless a word contains a
  NUL: then the splitting reports an error rather than a cut word.
\<close>

theorem quoted_words_split:
  "split_command_with_syntax (quote_words ws) Posix = Inr ws \<and>
   split_command_with_syntax (quote_arguments ws) Windows =
     (if \<exists>w\<in>set ws. CHR 0x00 \<in> set w then Inl ''a Windows command line cannot contain NUL'' else Inr ws)"
  by (simp_all add: split_command_with_syntax_def split_command_def split_loop_words split_windows_arguments nul_in_arguments)

end
