(* ===== verification/EngineOptions.thy ===== *)
theory EngineOptions
  imports OptionResolution Config CommandText
begin

text \<open>
  The options of the Python engines, \<open>src-tauri/src/providers/options.rs\<close>: the built-in schemas, the check
  of saved values and raw arguments, launch arguments and request fields, and the import of a pasted
  command line; with the mapping of a built-in option onto the common option language
  (\<open>from_spec\<close> of \<open>providers/runtime_schema.rs\<close>).

  The bounds of a number are whole. Reading and writing an \<open>f64\<close> and reading JSON text are \<open>engine_lib\<close>.
\<close>

section \<open>Schemas\<close>

datatype option_kind =
    IntegerKind int int "int list option" "int list option"
  | NumberKind int int bool bool
  | FlagKind
  | ToggleKind
  | ChoiceKind "string list"
  | TextKind nat
  | PathKind
  | JsonKind

record option_spec =
  es_key :: string
  es_flag :: "string option"
  es_kind :: option_kind
  es_target :: option_target
  es_group :: string
  es_runtime_default :: "string option"
  es_help :: "string option"

definition launch_spec :: "string \<Rightarrow> string \<Rightarrow> option_kind \<Rightarrow> string \<Rightarrow> string option \<Rightarrow> option_spec" where
  "launch_spec key flag kind grp dflt =
     \<lparr>es_key = key, es_flag = Some flag, es_kind = kind, es_target = Launch, es_group = grp,
      es_runtime_default = dflt, es_help = None\<rparr>"

definition request_spec :: "string \<Rightarrow> option_kind \<Rightarrow> string \<Rightarrow> string option \<Rightarrow> option_spec" where
  "request_spec key kind grp dflt =
     \<lparr>es_key = key, es_flag = None, es_kind = kind, es_target = Request, es_group = grp,
      es_runtime_default = dflt, es_help = None\<rparr>"

definition i32_max :: int where "i32_max = 2147483647"

definition vllm_dtypes :: "string list" where
  "vllm_dtypes = [''auto'', ''half'', ''float16'', ''bfloat16'', ''float'', ''float32'']"

definition vllm_kv_cache_dtypes :: "string list" where
  "vllm_kv_cache_dtypes =
     [''auto'', ''float16'', ''bfloat16'', ''fp8'', ''fp8_e4m3'', ''fp8_e5m2'', ''fp8_inc'', ''fp8_ds_mla'',
      ''nvfp4_ds_mla'', ''turboquant_k8v4'', ''turboquant_4bit_nc'', ''turboquant_k3v4_nc'', ''turboquant_3bit_nc'',
      ''int4_per_token_head'', ''int8_per_token_head'', ''fp8_per_token_head'', ''nvfp4'', ''nvfp4_4over6'']"

definition vllm_options :: "option_spec list" where
  "vllm_options =
     [launch_spec ''runner'' ''--runner'' (ChoiceKind [''auto'', ''generate'', ''pooling'']) ''model'' (Some ''auto''),
      (launch_spec ''max_model_len'' ''--max-model-len'' (IntegerKind 1 i32_max None (Some [-1])) ''context'' None)
        \<lparr>es_help := Some ''-1: auto-fit the context length to available GPU memory. Positive values set an explicit token limit.''\<rparr>,
      launch_spec ''gpu_memory_utilization'' ''--gpu-memory-utilization'' (NumberKind 0 1 True False) ''memory'' (Some ''0.92''),
      launch_spec ''kv_cache_dtype'' ''--kv-cache-dtype'' (ChoiceKind vllm_kv_cache_dtypes) ''memory'' (Some ''auto''),
      launch_spec ''cpu_offload_gb'' ''--cpu-offload-gb'' (NumberKind 0 4096 False False) ''memory'' (Some ''0''),
      launch_spec ''dtype'' ''--dtype'' (ChoiceKind vllm_dtypes) ''model'' (Some ''auto''),
      launch_spec ''quantization'' ''--quantization'' (TextKind 64) ''model'' None,
      launch_spec ''enforce_eager'' ''--enforce-eager'' FlagKind ''model'' (Some ''false''),
      launch_spec ''generation_config'' ''--generation-config'' (TextKind 4096) ''model'' (Some ''auto''),
      launch_spec ''seed'' ''--seed'' (IntegerKind 0 i32_max None None) ''model'' (Some ''0''),
      launch_spec ''tensor_parallel_size'' ''--tensor-parallel-size'' (IntegerKind 1 64 None None) ''parallel'' (Some ''1''),
      launch_spec ''pipeline_parallel_size'' ''--pipeline-parallel-size'' (IntegerKind 1 64 None None) ''parallel'' (Some ''1''),
      launch_spec ''max_num_seqs'' ''--max-num-seqs'' (IntegerKind 1 65536 None None) ''parallel'' (Some ''128''),
      launch_spec ''max_num_batched_tokens'' ''--max-num-batched-tokens'' (IntegerKind 1 i32_max None None) ''parallel'' None,
      launch_spec ''enable_prefix_caching'' ''--enable-prefix-caching'' ToggleKind ''parallel'' None,
      launch_spec ''enable_chunked_prefill'' ''--enable-chunked-prefill'' ToggleKind ''parallel'' None,
      launch_spec ''limit_mm_per_prompt'' ''--limit-mm-per-prompt'' JsonKind ''multimodal'' None,
      launch_spec ''enable_lora'' ''--enable-lora'' FlagKind ''lora'' (Some ''false''),
      launch_spec ''max_loras'' ''--max-loras'' (IntegerKind 1 1024 None None) ''lora'' (Some ''1''),
      launch_spec ''max_lora_rank'' ''--max-lora-rank'' (IntegerKind 1 512 (Some [1, 8, 16, 32, 64, 128, 256, 320, 512]) None) ''lora'' (Some ''16''),
      launch_spec ''speculative_config'' ''--speculative-config'' JsonKind ''speculative'' None,
      launch_spec ''reasoning_parser'' ''--reasoning-parser'' (TextKind 128) ''reasoning'' None,
      launch_spec ''enable_auto_tool_choice'' ''--enable-auto-tool-choice'' FlagKind ''tools'' (Some ''false''),
      launch_spec ''tool_call_parser'' ''--tool-call-parser'' (TextKind 128) ''tools'' None,
      launch_spec ''chat_template'' ''--chat-template'' PathKind ''tools'' None,
      launch_spec ''enable_prompt_tokens_details'' ''--enable-prompt-tokens-details'' FlagKind ''metrics'' (Some ''false''),
      launch_spec ''enable_per_request_metrics'' ''--enable-per-request-metrics'' FlagKind ''metrics'' (Some ''false''),
      request_spec ''temperature'' (NumberKind 0 2 False False) ''sampling'' None,
      request_spec ''top_p'' (NumberKind 0 1 True False) ''sampling'' None,
      request_spec ''top_k'' (IntegerKind (-1) i32_max None None) ''sampling'' None,
      request_spec ''min_p'' (NumberKind 0 1 False False) ''sampling'' None,
      request_spec ''repetition_penalty'' (NumberKind 0 100 True False) ''sampling'' None,
      request_spec ''presence_penalty'' (NumberKind (-2) 2 False False) ''sampling'' None,
      request_spec ''frequency_penalty'' (NumberKind (-2) 2 False False) ''sampling'' None,
      request_spec ''max_tokens'' (IntegerKind 1 i32_max None None) ''sampling'' None]"

definition mlx_kv_schemes :: "string list" where
  "mlx_kv_schemes = [''uniform'', ''turboquant'']"

definition mlx_draft_kinds :: "string list" where
  "mlx_draft_kinds = [''dflash'', ''eagle3'', ''mtp'']"

definition mlx_vlm_options :: "option_spec list" where
  "mlx_vlm_options =
     [launch_spec ''embedding_model'' ''--embedding-model'' PathKind ''model'' None,
      launch_spec ''max_tokens'' ''--max-tokens'' (IntegerKind 1 i32_max None None) ''context'' None,
      launch_spec ''max_kv_size'' ''--max-kv-size'' (IntegerKind 1 i32_max None None) ''context'' None,
      launch_spec ''prefill_step_size'' ''--prefill-step-size'' (IntegerKind 1 1048576 None None) ''memory'' None,
      launch_spec ''kv_bits'' ''--kv-bits'' (NumberKind 1 16 False False) ''memory'' None,
      launch_spec ''kv_quant_scheme'' ''--kv-quant-scheme'' (ChoiceKind mlx_kv_schemes) ''memory'' None,
      launch_spec ''kv_group_size'' ''--kv-group-size'' (IntegerKind 1 4096 None None) ''memory'' None,
      launch_spec ''quantized_kv_start'' ''--quantized-kv-start'' (IntegerKind 0 i32_max None None) ''memory'' None,
      launch_spec ''vision_cache_size'' ''--vision-cache-size'' (IntegerKind 0 10000 None None) ''multimodal'' (Some ''20''),
      launch_spec ''max_num_seqs'' ''--max-num-seqs'' (IntegerKind 1 65536 None None) ''parallel'' None,
      launch_spec ''enable_thinking'' ''--enable-thinking'' FlagKind ''reasoning'' None,
      launch_spec ''thinking_budget'' ''--thinking-budget'' (IntegerKind 0 i32_max None None) ''reasoning'' None,
      launch_spec ''draft_kind'' ''--draft-kind'' (ChoiceKind mlx_draft_kinds) ''speculative'' None,
      launch_spec ''draft_block_size'' ''--draft-block-size'' (IntegerKind 1 4096 None None) ''speculative'' None,
      request_spec ''temperature'' (NumberKind 0 100 False False) ''sampling'' None,
      request_spec ''top_p'' (NumberKind 0 1 False False) ''sampling'' None,
      request_spec ''top_k'' (IntegerKind 0 i32_max None None) ''sampling'' (Some ''0''),
      request_spec ''min_p'' (NumberKind 0 1 False False) ''sampling'' (Some ''0''),
      request_spec ''repetition_penalty'' (NumberKind 0 100 False False) ''sampling'' None,
      request_spec ''presence_penalty'' (NumberKind (-2) 2 False False) ''sampling'' None,
      request_spec ''frequency_penalty'' (NumberKind (-2) 2 False False) ''sampling'' None,
      request_spec ''seed'' (IntegerKind 0 i32_max None None) ''sampling'' None]"

definition engine_schema :: "provider_id \<Rightarrow> option_spec list" where
  "engine_schema p = (case p of Vllm \<Rightarrow> vllm_options | MlxVlm \<Rightarrow> mlx_vlm_options | _ \<Rightarrow> [])"

definition extra_args_key :: string where "extra_args_key = ''extra_args''"
definition trust_remote_code_key :: string where "trust_remote_code_key = ''trust_remote_code''"
definition max_extra_args :: nat where "max_extra_args = 128"
definition max_json_bytes :: nat where "max_json_bytes = 65536"

definition native_model_source_flags :: "string list" where
  "native_model_source_flags =
     [''-hf'', ''-hfr'', ''--hf-repo'', ''-hff'', ''--hf-file'', ''-mu'', ''--model-url'', ''-dr'',
      ''--docker-repo'', ''--spec-draft-hf'', ''-hfd'', ''-hfrd'', ''--hf-repo-draft'', ''--embd-gemma-default'',
      ''--fim-qwen-1.5b-default'', ''--fim-qwen-3b-default'', ''--fim-qwen-7b-default'', ''--fim-qwen-7b-spec'',
      ''--fim-qwen-14b-spec'', ''--fim-qwen-30b-default'', ''--gpt-oss-20b-default'', ''--gpt-oss-120b-default'',
      ''--vision-gemma-4b-default'', ''--vision-gemma-12b-default'']"

fun app_managed_flags :: "provider_id \<Rightarrow> string list" where
  "app_managed_flags (CustomProvider _) = [''--model'', ''--host'', ''--port'', ''--api-key'', ''--served-model-name'']"
| "app_managed_flags Llama = app_managed_server_args @ native_model_source_flags"
| "app_managed_flags Vllm =
     [''--model'', ''--host'', ''--port'', ''--uds'', ''--api-key'', ''--served-model-name'', ''--lora-modules'',
      ''--allowed-local-media-path'', ''--ssl-keyfile'', ''--ssl-certfile'', ''--root-path'', ''--headless'',
      ''--convert'', ''--trust-remote-code'', ''--config'']"
| "app_managed_flags MlxVlm =
     [''--model'', ''--host'', ''--port'', ''--api-key'', ''--adapter-path'', ''--draft-model'', ''--model-dir'',
      ''--image-model'', ''--tts-model'', ''--stt-model'', ''--decision-model'', ''--reranker-model'', ''--reload'',
      ''--trust-remote-code'']"

fun provider_server :: "provider_id \<Rightarrow> string" where
  "provider_server Llama = ''llama-server''"
| "provider_server Vllm = ''vllm''"
| "provider_server MlxVlm = ''mlx-vlm''"
| "provider_server (CustomProvider _) = ''external engine''"

section \<open>Checking a value\<close>

record engine_lib =
  el_parse_f64 :: "string \<Rightarrow> float64 option"
  el_from_f64 :: "rat \<Rightarrow> string"
  el_parse_json :: "string \<Rightarrow> json option"

record engine_issue =
  ei_key :: string
  ei_code :: string
  ei_message :: string

definition engine_issue_of :: "string \<Rightarrow> string \<Rightarrow> string \<Rightarrow> engine_issue" where
  "engine_issue_of key c message = \<lparr>ei_key = key, ei_code = c, ei_message = message\<rparr>"

definition whole_range :: "int \<Rightarrow> int \<Rightarrow> bool \<Rightarrow> bool \<Rightarrow> int list \<Rightarrow> numeric_range" where
  "whole_range lo hi lo_excl hi_excl sentinels =
     \<lparr>nr_min = Some (Finite (of_int lo)), nr_max = Some (Finite (of_int hi)), nr_min_exclusive = lo_excl,
      nr_max_exclusive = hi_excl, nr_sentinels = map (\<lambda>i. Finite (of_int i)) sentinels\<rparr>"

definition leading_dash :: "json \<Rightarrow> bool" where
  "leading_dash v \<longleftrightarrow> (case as_str v of None \<Rightarrow> False | Some s \<Rightarrow> starts_with ''-'' (trim_start s))"

definition check_integer :: "string \<Rightarrow> int \<Rightarrow> int \<Rightarrow> int list option \<Rightarrow> int list option \<Rightarrow> json \<Rightarrow> engine_issue option" where
  "check_integer key lo hi choices sentinels v =
     (case as_i64 v of
        None \<Rightarrow> Some (engine_issue_of key ''type'' (key @ '' must be an integer''))
      | Some i \<Rightarrow>
          if (case choices of None \<Rightarrow> False | Some cs \<Rightarrow> i \<notin> set cs)
          then Some (engine_issue_of key ''choice'' (key @ '' must be one of the listed values''))
          else if (case sentinels of None \<Rightarrow> False | Some ss \<Rightarrow> i \<in> set ss) then None
          else if lo \<le> i \<and> i \<le> hi then None
          else Some (engine_issue_of key ''range'' (key @ '' must be between '' @ show_int lo @ '' and '' @ show_int hi)))"

definition check_number :: "json_lib \<Rightarrow> string \<Rightarrow> int \<Rightarrow> int \<Rightarrow> bool \<Rightarrow> bool \<Rightarrow> json \<Rightarrow> engine_issue option" where
  "check_number J key lo hi lo_excl hi_excl v =
     (case as_f64 J v of
        None \<Rightarrow> Some (engine_issue_of key ''type'' (key @ '' must be a number''))
      | Some x \<Rightarrow>
          if range_contains (whole_range lo hi lo_excl hi_excl []) x then None
          else Some (engine_issue_of key ''range''
            (key @ '' must be '' @ (if lo_excl then ''greater than'' else ''at least'') @ '' '' @ show_int lo @ '' and '' @
             (if hi_excl then ''less than'' else ''at most'') @ '' '' @ show_int hi)))"

definition text_within :: "nat \<Rightarrow> string \<Rightarrow> bool" where
  "text_within n s \<longleftrightarrow> trim s \<noteq> [] \<and> length s \<le> n \<and> CHR 0x00 \<notin> set s"

definition check_value :: "json_lib \<Rightarrow> option_spec \<Rightarrow> json \<Rightarrow> engine_issue option" where
  "check_value J spec v =
     (let key = es_key spec in
      case es_kind spec of
        IntegerKind lo hi choices sentinels \<Rightarrow> check_integer key lo hi choices sentinels v
      | NumberKind lo hi lo_excl hi_excl \<Rightarrow> check_number J key lo hi lo_excl hi_excl v
      | FlagKind \<Rightarrow> if as_bool v = None then Some (engine_issue_of key ''type'' (key @ '' must be true or false'')) else None
      | ToggleKind \<Rightarrow> if as_bool v = None then Some (engine_issue_of key ''type'' (key @ '' must be true or false'')) else None
      | ChoiceKind choices \<Rightarrow>
          (case as_str v of
             None \<Rightarrow> Some (engine_issue_of key ''type'' (key @ '' must be one of the listed values''))
           | Some s \<Rightarrow>
               if s \<in> set choices then None
               else Some (engine_issue_of key ''choice'' (key @ '' does not accept '' @ [CHR 0x27] @ s @ [CHR 0x27])))
      | TextKind max_len \<Rightarrow>
          if leading_dash v then Some (engine_issue_of key ''range'' (key @ '' must not start with '' @ [CHR 0x27] @ ''-'' @ [CHR 0x27]))
          else (case as_str v of
             None \<Rightarrow> Some (engine_issue_of key ''type'' (key @ '' must be text''))
           | Some s \<Rightarrow>
               if text_within max_len s then None
               else Some (engine_issue_of key ''range'' (key @ '' is empty or too long'')))
      | PathKind \<Rightarrow>
          if leading_dash v then Some (engine_issue_of key ''range'' (key @ '' must not start with '' @ [CHR 0x27] @ ''-'' @ [CHR 0x27]))
          else (case as_str v of
             Some s \<Rightarrow>
               if text_within 32768 s then None
               else Some (engine_issue_of key ''type'' (key @ '' must be a file path''))
           | None \<Rightarrow> Some (engine_issue_of key ''type'' (key @ '' must be a file path'')))
      | JsonKind \<Rightarrow>
          (case v of
             JObj _ \<Rightarrow>
               if length (jl_render J v) \<le> max_json_bytes then None
               else Some (engine_issue_of key ''too_large'' (key @ '' is too large''))
           | _ \<Rightarrow> Some (engine_issue_of key ''type'' (key @ '' must be a JSON object''))))"

section \<open>Raw arguments\<close>

definition trim_end_of :: "char \<Rightarrow> string \<Rightarrow> string" where
  "trim_end_of c s = rev (dropWhile (\<lambda>d. d = c) (rev s))"

definition flag_name :: "string \<Rightarrow> string" where
  "flag_name argument = trim (case split_once CHR ''='' argument of None \<Rightarrow> argument | Some (name, _) \<Rightarrow> name)"

definition dashes :: "string \<Rightarrow> string" where
  "dashes s = map (\<lambda>c. if c = CHR ''_'' then CHR ''-'' else c) s"

definition canonical_flag :: "provider_id \<Rightarrow> string \<Rightarrow> string" where
  "canonical_flag p argument =
     (let name = flag_name argument in
      case strip_prefix ''--'' name of
        Some rest \<Rightarrow>
          if p = Vllm \<and> rest \<noteq> []
          then ''--'' @ dashes (trim_end_of CHR ''+'' (takeWhile (\<lambda>c. c \<noteq> CHR ''.'') rest))
          else name
      | None \<Rightarrow> name)"

definition negative_number :: "engine_lib \<Rightarrow> string \<Rightarrow> bool" where
  "negative_number E argument \<longleftrightarrow>
     (case strip_prefix ''-'' argument of
        None \<Rightarrow> False
      | Some rest \<Rightarrow> (case el_parse_f64 E rest of None \<Rightarrow> False | Some x \<Rightarrow> f64_finite x))"

definition dedicated :: "provider_id \<Rightarrow> option_spec list \<Rightarrow> string \<Rightarrow> bool" where
  "dedicated p specs name \<longleftrightarrow> name \<in> set (app_managed_flags p) \<or> list_ex (\<lambda>spec. es_flag spec = Some name) specs"

definition abbreviated :: "provider_id \<Rightarrow> option_spec list \<Rightarrow> string \<Rightarrow> string option" where
  "abbreviated p specs name = find (starts_with name) (app_managed_flags p @ List.map_filter es_flag specs)"

definition raw_argument_problem ::
  "engine_lib \<Rightarrow> provider_id \<Rightarrow> option_spec list \<Rightarrow> string \<Rightarrow> (string \<times> string) option" where
  "raw_argument_problem E p specs argument =
     (if argument = ''--'' then
        Some (''type'', ''a bare -- would turn every later argument into a positional value'')
      else if starts_with ''--'' argument then
        (let name = canonical_flag p argument in
         if dedicated p specs name then
           Some (''managed'', name @ '' has a dedicated setting and cannot be passed as a raw argument'')
         else case abbreviated p specs name of
             Some full \<Rightarrow>
               Some (''managed'', name @ '' abbreviates '' @ full @ '', which has a dedicated setting; spell out the full flag'')
           | None \<Rightarrow> None)
      else if starts_with ''-'' argument \<and> \<not> negative_number E argument then
        Some (''short'', ''short option '' @ argument @
          '' is not accepted; use the long --flag spelling so it can be checked'')
      else None)"

section \<open>Saved options\<close>

definition check_raw_argument ::
  "engine_lib \<Rightarrow> provider_id \<Rightarrow> option_spec list \<Rightarrow> string \<Rightarrow> json \<Rightarrow> engine_issue list" where
  "check_raw_argument E p specs key argument =
     (case as_str argument of
        None \<Rightarrow> [engine_issue_of key ''type'' ''raw arguments must be non-empty text'']
      | Some s \<Rightarrow>
          if text_within 32768 s then
            (case raw_argument_problem E p specs (trim s) of
               None \<Rightarrow> [] | Some (c, message) \<Rightarrow> [engine_issue_of key c message])
          else [engine_issue_of key ''type'' ''raw arguments must be non-empty text''])"

definition validate_entry ::
  "json_lib \<Rightarrow> engine_lib \<Rightarrow> provider_id \<Rightarrow> option_spec list \<Rightarrow> string \<times> json \<Rightarrow> engine_issue list" where
  "validate_entry J E p specs entry =
     (case entry of (key, v) \<Rightarrow>
        if key = extra_args_key then
          (case as_array v of
             None \<Rightarrow> [engine_issue_of key ''type'' (key @ '' must be a list of at most '' @ digits_of_nat max_extra_args @ '' arguments'')]
           | Some arguments \<Rightarrow>
               if length arguments \<le> max_extra_args
               then concat (map (check_raw_argument E p specs key) arguments)
               else [engine_issue_of key ''type'' (key @ '' must be a list of at most '' @ digits_of_nat max_extra_args @ '' arguments'')])
        else if key = trust_remote_code_key then
          (if v = JBool False then []
           else [engine_issue_of key ''managed''
             ''AioLM does not run code from model repositories; clear trust_remote_code''])
        else case find (\<lambda>spec. es_key spec = key) specs of
            None \<Rightarrow> [engine_issue_of key ''unknown'' (key @ '' is not an option of '' @ provider_server p)]
          | Some spec \<Rightarrow> (case check_value J spec v of None \<Rightarrow> [] | Some i \<Rightarrow> [i]))"

definition validate_entries ::
  "json_lib \<Rightarrow> engine_lib \<Rightarrow> provider_id \<Rightarrow> (string \<times> json) list \<Rightarrow> engine_issue list" where
  "validate_entries J E p entries = concat (map (validate_entry J E p (engine_schema p)) entries)"

section \<open>A built-in option in the common option language\<close>

definition documented :: "'a \<Rightarrow> fact_source \<Rightarrow> 'a fact" where
  "documented v src = \<lparr>fa_value = Some v, fa_certainty = Documented, fa_source = Some src\<rparr>"

definition blank :: "string \<Rightarrow> string \<Rightarrow> option_target \<Rightarrow> option_definition" where
  "blank key grp target =
     \<lparr>op_key = key, op_scope = [], op_spellings = [], op_position = None, op_kind = no_fact, op_arity = no_fact,
      op_repeatable = no_fact, op_choices = no_fact, op_range = no_fact, op_unit = no_fact,
      op_runtime_default = no_fact, op_group = grp, op_help = [], op_target = target, op_request_field = no_fact,
      op_restart_required = no_fact, op_sensitive = no_fact, op_local_path = no_fact, op_benchmark_public = no_fact,
      op_benchmark_name = no_fact, op_benchmark_role = no_fact, op_managed = None, op_raw_spans = []\<rparr>"

datatype compat_kind =
    CompatInteger float64 float64
  | CompatNumber float64 float64
  | CompatFlag
  | CompatToggle
  | CompatChoice "string list"
  | CompatText
  | CompatPath
  | CompatJson

definition negative_flag :: "string \<Rightarrow> string" where
  "negative_flag flag = ''--no-'' @ dropWhile (\<lambda>c. c = CHR ''-'') flag"

definition separate :: "string \<Rightarrow> bool option \<Rightarrow> spelling" where
  "separate flag polarity = \<lparr>sg_flag = flag, sg_style = Separate, sg_polarity = polarity\<rparr>"

fun compat_value_kind :: "compat_kind \<Rightarrow> value_kind" where
  "compat_value_kind (CompatInteger _ _) = Integer"
| "compat_value_kind (CompatNumber _ _) = Number"
| "compat_value_kind CompatFlag = Boolean"
| "compat_value_kind CompatToggle = Boolean"
| "compat_value_kind CompatJson = Json"
| "compat_value_kind _ = Text"

definition no_values :: arity where
  "no_values = \<lparr>ar_min = 0, ar_max = Some 0\<rparr>"

definition plain_range :: "float64 \<Rightarrow> float64 \<Rightarrow> numeric_range" where
  "plain_range lo hi =
     \<lparr>nr_min = Some lo, nr_max = Some hi, nr_min_exclusive = False, nr_max_exclusive = False, nr_sentinels = []\<rparr>"

definition compat_details ::
  "compat_kind \<Rightarrow> string option \<Rightarrow> bool \<Rightarrow> fact_source \<Rightarrow> option_definition \<Rightarrow> option_definition" where
  "compat_details kind flag request src opt =
     (case kind of
        CompatInteger lo hi \<Rightarrow> opt\<lparr>op_range := documented (plain_range lo hi) src\<rparr>
      | CompatNumber lo hi \<Rightarrow> opt\<lparr>op_range := documented (plain_range lo hi) src\<rparr>
      | CompatFlag \<Rightarrow> opt\<lparr>op_runtime_default := documented (JBool False) src\<rparr>
      | CompatToggle \<Rightarrow>
          (case flag of
             None \<Rightarrow> opt
           | Some f \<Rightarrow>
               if request then opt
               else opt\<lparr>op_spellings := [separate f (Some True), separate (negative_flag f) (Some False)]\<rparr>)
      | CompatChoice choices \<Rightarrow> opt\<lparr>op_choices := documented (map JStr choices) src\<rparr>
      | CompatPath \<Rightarrow> opt\<lparr>op_local_path := documented True src\<rparr>
      | _ \<Rightarrow> opt)"

definition compat_definition ::
  "string \<Rightarrow> string \<Rightarrow> string option \<Rightarrow> bool \<Rightarrow> compat_kind \<Rightarrow> string option \<Rightarrow> fact_source \<Rightarrow> option_definition" where
  "compat_definition key grp flag request kind runtime_default src =
     (let opt = blank key grp (if request then Request else Launch);
          opt = (if request then opt\<lparr>op_request_field := documented key src\<rparr>
                 else case flag of None \<Rightarrow> opt | Some f \<Rightarrow> opt\<lparr>op_spellings := [separate f None]\<rparr>);
          opt = opt\<lparr>op_kind := documented (compat_value_kind kind) src,
                    op_arity := documented (if kind = CompatFlag \<or> kind = CompatToggle then no_values else one_value) src\<rparr>;
          opt = compat_details kind flag request src opt
      in case runtime_default of
           None \<Rightarrow> opt
         | Some literal \<Rightarrow>
             if fa_value (op_runtime_default opt) = None
             then opt\<lparr>op_runtime_default := documented (JStr literal) src\<rparr> else opt)"

fun compat_of_kind :: "option_kind \<Rightarrow> compat_kind" where
  "compat_of_kind (IntegerKind lo hi _ _) = CompatInteger (Finite (of_int lo)) (Finite (of_int hi))"
| "compat_of_kind (NumberKind lo hi _ _) = CompatNumber (Finite (of_int lo)) (Finite (of_int hi))"
| "compat_of_kind FlagKind = CompatFlag"
| "compat_of_kind ToggleKind = CompatToggle"
| "compat_of_kind (ChoiceKind choices) = CompatChoice choices"
| "compat_of_kind (TextKind _) = CompatText"
| "compat_of_kind PathKind = CompatPath"
| "compat_of_kind JsonKind = CompatJson"

definition adjust_range :: "(numeric_range \<Rightarrow> numeric_range) \<Rightarrow> option_definition \<Rightarrow> option_definition" where
  "adjust_range f opt = opt\<lparr>op_range := (op_range opt)\<lparr>fa_value := map_option f (fa_value (op_range opt))\<rparr>\<rparr>"

fun refine_kind :: "option_kind \<Rightarrow> fact_source \<Rightarrow> option_definition \<Rightarrow> option_definition" where
  "refine_kind (NumberKind _ _ lo_excl hi_excl) src opt =
     adjust_range (\<lambda>r. r\<lparr>nr_min_exclusive := lo_excl, nr_max_exclusive := hi_excl\<rparr>) opt"
| "refine_kind (IntegerKind _ _ choices sentinels) src opt =
     (let opt = (case choices of None \<Rightarrow> opt | Some cs \<Rightarrow> opt\<lparr>op_choices := documented (map (\<lambda>i. JNum (show_int i)) cs) src\<rparr>)
      in case sentinels of None \<Rightarrow> opt
         | Some ss \<Rightarrow> adjust_range (\<lambda>r. r\<lparr>nr_sentinels := map (\<lambda>i. Finite (of_int i)) ss\<rparr>) opt)"
| "refine_kind _ src opt = opt"

definition from_spec :: "option_spec \<Rightarrow> fact_source \<Rightarrow> option_definition" where
  "from_spec spec src =
     (refine_kind (es_kind spec) src
        (compat_definition (es_key spec) (es_group spec) (es_flag spec) (es_target spec = Request)
          (compat_of_kind (es_kind spec)) (es_runtime_default spec) src))
       \<lparr>op_help := case es_help spec of None \<Rightarrow> [] | Some h \<Rightarrow> h\<rparr>"

definition spec_arguments :: "json_lib \<Rightarrow> option_spec \<Rightarrow> json \<Rightarrow> string list" where
  "spec_arguments J spec v =
     (case resolve_one J (from_spec spec (AdapterSource ''builtin.catalog'' ''1'')) None [v] of
        Inl _ \<Rightarrow> [] | Inr args \<Rightarrow> args)"

definition option_launch_args :: "json_lib \<Rightarrow> (string \<times> json) list \<Rightarrow> option_spec \<Rightarrow> string list" where
  "option_launch_args J options spec =
     (case (es_flag spec, map_of options (es_key spec)) of
        (Some _, Some v) \<Rightarrow> if check_value J spec v \<noteq> None then [] else spec_arguments J spec v
      | _ \<Rightarrow> [])"

definition extra_arguments :: "(string \<times> json) list \<Rightarrow> string list" where
  "extra_arguments options =
     (case Option.bind (map_of options extra_args_key) as_array of
        None \<Rightarrow> [] | Some extra \<Rightarrow> List.map_filter as_str extra)"

definition launch_args :: "json_lib \<Rightarrow> provider_id \<Rightarrow> (string \<times> json) list \<Rightarrow> string list" where
  "launch_args J p options =
     concat (map (option_launch_args J options) (filter (\<lambda>spec. es_target spec = Launch) (engine_schema p)))
     @ extra_arguments options"

definition request_fields :: "json_lib \<Rightarrow> provider_id \<Rightarrow> (string \<times> json) list \<Rightarrow> (string \<times> json) list" where
  "request_fields J p options =
     fold (\<lambda>spec m.
       case map_of options (es_key spec) of
         None \<Rightarrow> m
       | Some v \<Rightarrow> if check_value J spec v = None then map_insert (es_key spec) v m else m)
       (filter (\<lambda>spec. es_target spec = Request) (engine_schema p)) []"

section \<open>Importing a command\<close>

record imported_command =
  ic_options :: "(string \<times> json) list"
  ic_model :: "string option"
  ic_managed :: "string list"
  ic_unrecognized :: "string list"

text \<open>\<open>parse::<i64>()\<close>.\<close>

definition parse_i64 :: "string \<Rightarrow> int option" where
  "parse_i64 s =
     (case strip_prefix ''-'' s of
        Some ds \<Rightarrow>
          if ds \<noteq> [] \<and> list_all is_ascii_digit ds \<and> digits_value ds \<le> 2 ^ 63 then Some (- int (digits_value ds)) else None
      | None \<Rightarrow> map_option int (parse_unsigned (2 ^ 63) s))"

definition read_spec_value :: "engine_lib \<Rightarrow> option_kind \<Rightarrow> string \<Rightarrow> json option" where
  "read_spec_value E kind s =
     (case kind of
        IntegerKind _ _ _ _ \<Rightarrow> map_option (\<lambda>i. JNum (show_int i)) (parse_i64 s)
      | NumberKind _ _ _ _ \<Rightarrow>
          (case el_parse_f64 E s of Some (Finite x) \<Rightarrow> Some (JNum (el_from_f64 E x)) | _ \<Rightarrow> None)
      | JsonKind \<Rightarrow> el_parse_json E s
      | FlagKind \<Rightarrow> None
      | ToggleKind \<Rightarrow> None
      | _ \<Rightarrow> Some (JStr s))"

definition parse_spec_value :: "json_lib \<Rightarrow> engine_lib \<Rightarrow> option_spec \<Rightarrow> string \<Rightarrow> json option" where
  "parse_spec_value J E spec s =
     (case read_spec_value E (es_kind spec) s of
        None \<Rightarrow> None | Some v \<Rightarrow> if check_value J spec v = None then Some v else None)"

definition word_base :: "string \<Rightarrow> string" where
  "word_base w = rev (takeWhile (\<lambda>c. c \<noteq> CHR ''/'' \<and> c \<noteq> CHR 0x5C) (rev w))"

definition launcher_word :: "string \<Rightarrow> bool" where
  "launcher_word w \<longleftrightarrow>
     CHR ''='' \<in> set w \<and> \<not> starts_with ''-'' w \<or>
     starts_with ''python'' (word_base w) \<or> word_base w \<in> {''vllm'', ''serve'', ''-m''} \<or>
     w \<in> {''vllm.entrypoints.cli.main'', ''mlx_vlm.server'', ''mlx_vlm.server.cli''}"

definition positional_model :: "provider_id \<Rightarrow> string list \<Rightarrow> string option \<times> string list" where
  "positional_model p words =
     (case words of
        [] \<Rightarrow> (None, [])
      | w # ws \<Rightarrow> if p = Vllm \<and> \<not> starts_with ''-'' w then (Some w, ws) else (None, words))"

text \<open>The value of an option and the words after it.\<close>

definition take_value :: "string option \<Rightarrow> string list \<Rightarrow> string option \<times> string list" where
  "take_value inline words =
     (case inline of
        Some v \<Rightarrow> (Some v, words)
      | None \<Rightarrow>
          (case words of
             [] \<Rightarrow> (None, [])
           | w # ws \<Rightarrow> if starts_with ''--'' w then (None, words) else (Some w, ws)))"

definition split_word :: "provider_id \<Rightarrow> string \<Rightarrow> string \<times> string option" where
  "split_word p word =
     (let (name, inline) = (case split_once CHR ''='' word of None \<Rightarrow> (word, None) | Some (n, v) \<Rightarrow> (n, Some v))
      in (if CHR ''.'' \<in> set name then name else canonical_flag p name, inline))"

definition negated_flag :: "string \<Rightarrow> string option" where
  "negated_flag name = map_option (\<lambda>rest. ''--'' @ rest) (strip_prefix ''--no-'' name)"

definition named_spec :: "option_spec list \<Rightarrow> string \<Rightarrow> option_spec option" where
  "named_spec specs name =
     find (\<lambda>spec. es_flag spec = Some name \<or> es_kind spec = ToggleKind \<and> negated_flag name = es_flag spec) specs"

type_synonym import_state = "imported_command \<times> string list"

definition import_unknown :: "string \<Rightarrow> string option \<Rightarrow> string list \<Rightarrow> import_state \<Rightarrow> string list \<times> import_state" where
  "import_unknown word inline words st =
     (case st of (r, extra) \<Rightarrow>
        case words of
          next_word # rest \<Rightarrow>
            if inline = None \<and> \<not> starts_with ''--'' next_word then (rest, (r, extra @ [word, next_word]))
            else (words, (r, extra @ [word]))
        | [] \<Rightarrow> (words, (r, extra @ [word])))"

definition unrecognized :: "string \<Rightarrow> import_state \<Rightarrow> import_state" where
  "unrecognized w st = (case st of (r, extra) \<Rightarrow> (r\<lparr>ic_unrecognized := ic_unrecognized r @ [w]\<rparr>, extra))"

definition set_option :: "string \<Rightarrow> json \<Rightarrow> import_state \<Rightarrow> import_state" where
  "set_option key v st = (case st of (r, extra) \<Rightarrow> (r\<lparr>ic_options := map_insert key v (ic_options r)\<rparr>, extra))"

definition import_known ::
  "json_lib \<Rightarrow> engine_lib \<Rightarrow> option_spec \<Rightarrow> string \<Rightarrow> string \<Rightarrow> string option \<Rightarrow> string list \<Rightarrow> import_state \<Rightarrow>
   string list \<times> import_state" where
  "import_known J E spec word name inline words st =
     (if es_kind spec = FlagKind \<or> es_kind spec = ToggleKind then
        (let enabled = (negated_flag name \<noteq> es_flag spec) in
         (words, if es_kind spec = FlagKind \<and> \<not> enabled then unrecognized word st
                 else set_option (es_key spec) (JBool enabled) st))
      else case take_value inline words of (value, words) \<Rightarrow>
        (words,
         case value of
           None \<Rightarrow> unrecognized word st
         | Some s \<Rightarrow>
             (case parse_spec_value J E spec s of
                Some v \<Rightarrow> set_option (es_key spec) v st
              | None \<Rightarrow> unrecognized (name @ '' '' @ s) st)))"

text \<open>One round of the loop: the word and the words after it, to the words left and the new result.\<close>

definition import_word ::
  "json_lib \<Rightarrow> engine_lib \<Rightarrow> provider_id \<Rightarrow> string \<Rightarrow> string list \<Rightarrow> import_state \<Rightarrow> string list \<times> import_state" where
  "import_word J E p word words st =
     (if \<not> starts_with ''--'' word then (words, unrecognized word st)
      else case split_word p word of (name, inline) \<Rightarrow>
        if name = ''--model'' then
          (case (take_value inline words, st) of ((value, words), (r, extra)) \<Rightarrow> (words, (r\<lparr>ic_model := value\<rparr>, extra)))
        else if name \<in> set (app_managed_flags p) then
          (case (take_value inline words, st) of ((value, words), (r, extra)) \<Rightarrow>
             (words, (r\<lparr>ic_managed := ic_managed r @
               [case value of Some v \<Rightarrow> if name \<noteq> ''--api-key'' then name @ '' '' @ v else name | None \<Rightarrow> name]\<rparr>, extra)))
        else case named_spec (engine_schema p) name of
            Some spec \<Rightarrow> import_known J E spec word name inline words st
          | None \<Rightarrow> import_unknown word inline words st)"

lemma take_value_length: "length (snd (take_value inline words)) \<le> length words"
  by (auto simp: take_value_def split: option.splits list.splits)

lemma import_word_length: "length (fst (import_word J E p word words st)) \<le> length words"
  using take_value_length [of "snd (split_word p word)" words]
  by (auto simp: import_word_def import_known_def import_unknown_def Let_def split: prod.splits option.splits list.splits)

function import_loop ::
  "json_lib \<Rightarrow> engine_lib \<Rightarrow> provider_id \<Rightarrow> string list \<Rightarrow> import_state \<Rightarrow> import_state" where
  "import_loop J E p [] st = st"
| "import_loop J E p (word # words) st =
     import_loop J E p (fst (import_word J E p word words st)) (snd (import_word J E p word words st))"
  by pat_completeness auto
termination
  by (relation "measure (\<lambda>(_, _, _, words, _). length words)") (simp_all add: less_Suc_eq_le import_word_length case_prod_beta)

definition add_extra :: "import_state \<Rightarrow> imported_command" where
  "add_extra st =
     (case st of (r, extra) \<Rightarrow>
        if extra = [] then r
        else r\<lparr>ic_unrecognized := ic_unrecognized r @ extra,
               ic_options := map_insert extra_args_key (JArr (map JStr extra)) (ic_options r)\<rparr>)"

definition import_words :: "json_lib \<Rightarrow> engine_lib \<Rightarrow> provider_id \<Rightarrow> string list \<Rightarrow> imported_command" where
  "import_words J E p words =
     (case positional_model p (dropWhile launcher_word words) of (m, words) \<Rightarrow>
        add_extra (import_loop J E p words
          (\<lparr>ic_options = [], ic_model = m, ic_managed = [], ic_unrecognized = []\<rparr>, [])))"

definition import_command_with_syntax ::
  "json_lib \<Rightarrow> engine_lib \<Rightarrow> provider_id \<Rightarrow> string \<Rightarrow> command_syntax \<Rightarrow> string + imported_command" where
  "import_command_with_syntax J E p s syn =
     bind_r (split_command_with_syntax s syn) (\<lambda>words. Inr (import_words J E p words))"

definition import_command :: "json_lib \<Rightarrow> engine_lib \<Rightarrow> provider_id \<Rightarrow> string \<Rightarrow> string + imported_command" where
  "import_command J E p s = import_command_with_syntax J E p s Posix"

section \<open>The flags of the built-in schemas\<close>

definition flag_chars :: string where
  "flag_chars = ''abcdefghijklmnopqrstuvwxyz0123456789-''"

definition plain_flag :: "string \<Rightarrow> bool" where
  "plain_flag f \<longleftrightarrow> starts_with ''--'' f \<and> 2 < length f \<and> list_all (\<lambda>c. c \<in> set flag_chars) f"

text \<open>The spellings of an option.\<close>

definition spec_flags :: "option_spec \<Rightarrow> string list" where
  "spec_flags spec =
     (case es_flag spec of None \<Rightarrow> [] | Some f \<Rightarrow> if es_kind spec = ToggleKind then [f, negative_flag f] else [f])"

definition flags_sound :: "provider_id \<Rightarrow> option_spec list \<Rightarrow> bool" where
  "flags_sound p specs \<longleftrightarrow>
     list_all (\<lambda>spec. list_all (\<lambda>f. plain_flag f \<and> f \<noteq> ''--model'' \<and> list_all (\<lambda>m. \<not> starts_with f m) (app_managed_flags p) \<and>
       map_option es_key (named_spec specs f) = Some (es_key spec)) (spec_flags spec)) specs"

lemma vllm_flags_sound: "flags_sound Vllm vllm_options" by code_simp
lemma mlx_flags_sound: "flags_sound MlxVlm mlx_vlm_options" by code_simp
lemma keys_distinct: "distinct (map es_key vllm_options)" "distinct (map es_key mlx_vlm_options)" by code_simp+
lemma flags_soundD:
  assumes "spec \<in> set (engine_schema p)" and "f \<in> set (spec_flags spec)"
  shows "plain_flag f" "f \<noteq> ''--model''" "m \<in> set (app_managed_flags p) \<Longrightarrow> \<not> starts_with f m" "named_spec (engine_schema p) f = Some spec"
proof -
  have d: "distinct (map es_key (engine_schema p))" using keys_distinct by (simp add: engine_schema_def split: provider_id.split)
  have "flags_sound p (engine_schema p)" using assms(1) vllm_flags_sound mlx_flags_sound
    by (auto simp: engine_schema_def split: provider_id.splits)
  then have f: "plain_flag f" "f \<noteq> ''--model''" "list_all (\<lambda>m. \<not> starts_with f m) (app_managed_flags p)"
    and n: "map_option es_key (named_spec (engine_schema p) f) = Some (es_key spec)"
    using assms by (auto simp: flags_sound_def list_all_iff)
  then show "plain_flag f" "f \<noteq> ''--model''" "m \<in> set (app_managed_flags p) \<Longrightarrow> \<not> starts_with f m" by (auto simp: list_all_iff)
  obtain spec' where s: "named_spec (engine_schema p) f = Some spec'" "es_key spec' = es_key spec" using n by auto
  then have "spec' \<in> set (engine_schema p)" by (auto simp: named_spec_def find_Some_iff)
  with d assms(1) s show "named_spec (engine_schema p) f = Some spec" by (auto simp: distinct_map inj_on_def)
qed

text \<open>Such a flag is its own name.\<close>

lemma flag_chars_graphic: "c \<in> set flag_chars \<Longrightarrow> graphic c \<and> c \<noteq> CHR ''='' \<and> c \<noteq> CHR ''.'' \<and> c \<noteq> CHR ''_'' \<and> c \<noteq> CHR ''+''"
  by (auto simp: flag_chars_def graphic_def code_def)

lemma dropWhile_never: "\<forall>x \<in> set xs. \<not> P x \<Longrightarrow> dropWhile P xs = xs"
  by (cases xs) auto

lemma canonical_plain:
  assumes "plain_flag f"
  shows "canonical_flag p f = f" "split_word p f = (f, None)" "starts_with ''--'' f"
proof -
  have start: "starts_with ''--'' f" and len: "2 < length f" using assms by (simp_all only: plain_flag_def)
  then obtain r where f: "f = ''--'' @ r" by (metis starts_with_iff prefixE)
  then have r: "r \<noteq> []" using len by auto
  have c: "graphic c \<and> c \<noteq> CHR ''='' \<and> c \<noteq> CHR ''.'' \<and> c \<noteq> CHR ''_'' \<and> c \<noteq> CHR ''+''" if "c \<in> set f" for c
  proof -
    have "c \<in> set flag_chars" using assms that by (simp only: plain_flag_def list_all_iff)
    then show ?thesis by (rule flag_chars_graphic)
  qed
  have in_f: "x \<in> set f" if "x \<in> set r" for x using that by (simp add: f)
  have "hd f \<in> set f" "last f \<in> set f" "f \<noteq> []" using r by (simp_all add: f)
  then have ends: "graphic (hd f)" "graphic (last f)" "f \<noteq> []" using c by blast+
  have once: "split_once CHR ''='' f = None" unfolding split_once_None_iff using c by blast
  then have n: "flag_name f = f" using trim_graphic(1) [OF ends(3,1,2)] by (simp add: flag_name_def)
  have dot: "takeWhile (\<lambda>c. c \<noteq> CHR ''.'') r = r" unfolding takeWhile_eq_all_conv using c in_f by blast
  have "\<forall>x \<in> set (rev r). \<not> x = CHR ''+''" unfolding set_rev using c in_f by blast
  then have plus: "trim_end_of CHR ''+'' r = r" unfolding trim_end_of_def by (simp only: dropWhile_never rev_rev_ident)
  have "\<forall>x \<in> set r. x \<noteq> CHR ''_''" using c in_f by blast
  then have bar: "dashes r = r" unfolding dashes_def by (intro map_idI) simp
  have "strip_prefix ''--'' f = Some r" unfolding f by (rule strip_prefix_append)
  then show k: "canonical_flag p f = f" unfolding canonical_flag_def Let_def n by (simp only: option.case dot plus bar) (simp add: f)
  have "CHR ''.'' \<notin> set f" using c by blast
  then show "split_word p f = (f, None)" unfolding split_word_def once by (simp add: k)
  show "starts_with ''--'' f" by (rule start)
qed

end
