(* ===== verification/EngineCommand.thy ===== *)
theory EngineCommand
  imports EngineOptions CommandLine
begin

text \<open>
  What the options of the Python engines promise: a value that the editor accepts reaches the command
  line, no accepted setting reaches an argument that the application owns, and the import of a command
  only produces options that the check accepts and recovers the options a command was made from.
\<close>

section \<open>Numbers as text\<close>

lemma code_digit: "(m :: nat) < 10 \<Longrightarrow> code (char_of (48 + m) :: char) = 48 + m"
  by (simp add: code_def)

lemma char_digit: "(m :: nat) < 10 \<Longrightarrow> is_ascii_digit (char_of (48 + m) :: char)"
  by (simp add: is_ascii_digit_def code_digit)

lemma decimal_digits: "digits_of_nat n \<noteq> [] \<and> list_all is_ascii_digit (digits_of_nat n)"
proof (induction n rule: digits_of_nat.induct)
  case (1 n)
  then show ?case by (subst (1 2) digits_of_nat.simps) (auto simp: char_digit)
qed

lemma digits_value_digits_of_nat: "digits_value (digits_of_nat n) = n"
proof (induction n rule: digits_of_nat.induct)
  case (1 n)
  then show ?case by (subst digits_of_nat.simps) (simp add: digits_value_def code_digit)
qed

lemma digit_no_minus: "list_all is_ascii_digit s \<Longrightarrow> s \<noteq> [] \<Longrightarrow> hd s \<noteq> CHR ''-'' \<and> hd s \<noteq> CHR ''+''"
  by (cases s) (auto simp: is_ascii_digit_def code_def)

lemma int_text_show_int: "int_text (show_int i) = Some i"
proof (cases "i < 0")
  case True
  then show ?thesis using decimal_digits [of "nat (- i)"]
    by (simp add: show_int_def int_text_def digits_value_digits_of_nat)
next
  case False
  then show ?thesis using decimal_digits [of "nat i"] digit_no_minus [of "digits_of_nat (nat i)"]
      digits_value_digits_of_nat [of "nat i"]
    by (cases "digits_of_nat (nat i)") (auto simp: show_int_def int_text_def)
qed

section \<open>Laws of the JSON library\<close>

text \<open>
  What is used of \<open>serde_json\<close>: small integers are exact as \<open>f64\<close>, a number or truth value is written in a
  short text, an integer in decimal, no text contains NUL or starts with two dashes, and an object starts with a brace.
\<close>

definition json_laws :: "json_lib \<Rightarrow> bool" where
  "json_laws J \<longleftrightarrow>
     (\<forall>t i. int_text t = Some i \<longrightarrow> \<bar>i\<bar> \<le> 2 ^ 53 \<longrightarrow> jl_float J t = of_int i) \<and>
     (\<forall>t. length (jl_render J (JNum t)) \<le> 64) \<and> (\<forall>b. length (jl_render J (JBool b)) \<le> 64) \<and>
     (\<forall>v. CHR 0x00 \<notin> set (jl_render J v)) \<and> (\<forall>fs. starts_with ''{'' (jl_render J (JObj fs))) \<and>
     (\<forall>v. \<not> starts_with ''--'' (jl_render J v)) \<and> (\<forall>t i. int_text t = Some i \<longrightarrow> \<bar>i\<bar> \<le> 2 ^ 63 \<longrightarrow> jl_render J (JNum t) = show_int i)"

lemma json_lawsD:
  assumes "json_laws J"
  shows "int_text t = Some i \<Longrightarrow> \<bar>i\<bar> \<le> 2 ^ 53 \<Longrightarrow> jl_float J t = of_int i"
    and "bounded_text (jl_render J (JNum t)) max_argument_bytes"
    and "bounded_text (jl_render J (JBool b)) max_argument_bytes"
    and "CHR 0x00 \<notin> set (jl_render J v)" and "starts_with ''{'' (jl_render J (JObj fs))"
    and "\<not> starts_with ''--'' (jl_render J v)" and "int_text t = Some i \<Longrightarrow> \<bar>i\<bar> \<le> 2 ^ 63 \<Longrightarrow> jl_render J (JNum t) = show_int i"
proof -
  have "length (jl_render J (JNum t)) \<le> 64" "length (jl_render J (JBool b)) \<le> 64" and nul: "CHR 0x00 \<notin> set (jl_render J v)" for v
    using assms by (auto simp: json_laws_def)
  then show "bounded_text (jl_render J (JNum t)) max_argument_bytes" "bounded_text (jl_render J (JBool b)) max_argument_bytes"
    by (auto simp: bounded_text_def max_argument_bytes_def intro: order_trans)
  show "CHR 0x00 \<notin> set (jl_render J v)" by (rule nul)
qed (use assms in \<open>auto simp: json_laws_def\<close>)

section \<open>The built-in schemas\<close>

definition small :: "int \<Rightarrow> bool" where
  "small i \<longleftrightarrow> \<bar>i\<bar> \<le> 2 ^ 53"

definition plain_choice :: "string \<Rightarrow> bool" where
  "plain_choice s \<longleftrightarrow> bounded_text s max_argument_bytes \<and> \<not> starts_with ''-'' s"

definition kind_sound :: "option_kind \<Rightarrow> bool" where
  "kind_sound kind \<longleftrightarrow>
     (case kind of
        IntegerKind lo hi cs ss \<Rightarrow> small lo \<and> small hi \<and> (case ss of None \<Rightarrow> True | Some ss \<Rightarrow> list_all small ss)
      | ChoiceKind cs \<Rightarrow> list_all plain_choice cs
      | TextKind n \<Rightarrow> n \<le> max_argument_bytes
      | _ \<Rightarrow> True)"

lemma plain_choice_short: "length s \<le> 64 \<Longrightarrow> CHR 0x00 \<notin> set s \<Longrightarrow> \<not> prefix ''-'' s \<Longrightarrow> plain_choice s"
  by (simp add: plain_choice_def bounded_text_def max_argument_bytes_def starts_with_iff)

lemmas builtin_defs = vllm_options_def mlx_vlm_options_def launch_spec_def request_spec_def i32_max_def
  vllm_dtypes_def vllm_kv_cache_dtypes_def mlx_kv_schemes_def mlx_draft_kinds_def

lemma vllm_kinds_sound: "list_all (\<lambda>spec. kind_sound (es_kind spec)) vllm_options"
  by (simp add: builtin_defs kind_sound_def small_def max_argument_bytes_def plain_choice_short)

lemma mlx_kinds_sound: "list_all (\<lambda>spec. kind_sound (es_kind spec)) mlx_vlm_options"
  by (simp add: builtin_defs kind_sound_def small_def max_argument_bytes_def plain_choice_short)

lemma kinds_sound: "spec \<in> set (engine_schema p) \<Longrightarrow> kind_sound (es_kind spec)"
  using vllm_kinds_sound mlx_kinds_sound by (auto simp: engine_schema_def list_all_iff split: provider_id.splits)

section \<open>The command of an accepted value\<close>

lemma supported_simps [simp]: "supported (documented v src) = Some v" "supported no_fact = None"
  by (simp_all add: supported_def documented_def no_fact_def)

lemma value_arguments:
  assumes "op_target od = Launch" "op_arity od = documented one_value src" "op_spellings od = [separate f None]"
    and "supported (op_kind od) \<noteq> Some Boolean"
  shows "resolve_one J od None [v] =
    bind_r (scalar J od v) (\<lambda>t.
      if as_str v \<noteq> None \<and> starts_with ''-'' t
      then Inl ''a flag-like text value needs a confirmed equals spelling to keep its boundary unambiguous''
      else Inr [f, t])"
  using assms by (cases "scalar J od v") (auto simp: resolve_one_def resolve_rows_def resolve_row_def option_arity_def chosen_spelling_def
    value_row_def check_r_def one_value_def separate_def)

text \<open>A built-in option on the command line.\<close>

lemmas from_spec_defs = from_spec_def compat_definition_def compat_details_def blank_def adjust_range_def Let_def

lemma from_spec_valued:
  assumes "es_target spec = Launch" "es_flag spec = Some f" "es_kind spec \<noteq> FlagKind" "es_kind spec \<noteq> ToggleKind"
  shows "op_target (from_spec spec src) = Launch" "op_arity (from_spec spec src) = documented one_value src"
    "op_spellings (from_spec spec src) = [separate f None]"
    "op_kind (from_spec spec src) = documented (compat_value_kind (compat_of_kind (es_kind spec))) src"
  using assms by (cases "es_kind spec"; auto simp: from_spec_defs split: option.splits)+

lemma from_spec_choices:
  "op_choices (from_spec spec src) =
     (case es_kind spec of
        ChoiceKind cs \<Rightarrow> documented (map JStr cs) src
      | IntegerKind _ _ (Some cs) _ \<Rightarrow> documented (map (\<lambda>i. JNum (show_int i)) cs) src
      | _ \<Rightarrow> no_fact)"
  by (cases "es_kind spec") (auto simp: from_spec_defs split: option.splits)

lemma from_spec_range:
  "supported (op_range (from_spec spec src)) =
     (case es_kind spec of
        NumberKind lo hi a b \<Rightarrow> Some (whole_range lo hi a b [])
      | IntegerKind lo hi _ ss \<Rightarrow> Some (whole_range lo hi False False (case ss of None \<Rightarrow> [] | Some ss \<Rightarrow> ss))
      | _ \<Rightarrow> None)"
  by (cases "es_kind spec") (auto simp: from_spec_defs plain_range_def whole_range_def documented_def supported_def no_fact_def split: option.splits)

text \<open>The text of a value on the command line.\<close>

definition argument_text :: "json_lib \<Rightarrow> json \<Rightarrow> string" where
  "argument_text J v = (case v of JStr s \<Rightarrow> s | _ \<Rightarrow> jl_render J v)"

lemma as_i64_number: "as_i64 v = Some i \<Longrightarrow> \<exists>t. v = JNum t \<and> int_text t = Some i"
  by (cases v) (auto split: option.splits if_splits)

lemma as_f64_number: "as_f64 J v = Some x \<Longrightarrow> \<exists>t. v = JNum t \<and> x = Finite (jl_float J t)"
  by (cases v) auto

lemma as_str_Some: "as_str v = Some s \<longleftrightarrow> v = JStr s"
  by (cases v) auto

lemma as_bool_Some: "as_bool v = Some b \<longleftrightarrow> v = JBool b"
  by (cases v) auto

lemma whole_range_integer:
  "range_contains (whole_range lo hi False False ss) (Finite (of_int i)) \<longleftrightarrow> i \<in> set ss \<or> lo \<le> i \<and> i \<le> hi"
  by (auto simp: range_contains_def whole_range_def list_ex_iff f64_le_def)

lemma listed_integer: "int_text t = Some i \<Longrightarrow> list_ex (\<lambda>c. json_eq J c (JNum t)) (map (\<lambda>i. JNum (show_int i)) cs) \<longleftrightarrow> i \<in> set cs"
  by (auto simp: list_ex_iff number_eq_def int_text_show_int)

lemma listed_text: "list_ex (\<lambda>c. json_eq J c (JStr s)) (map JStr cs) \<longleftrightarrow> s \<in> set cs"
  by (auto simp: list_ex_iff)

lemma accepted_integer:
  assumes "check_value J spec v = None" "es_kind spec = IntegerKind lo hi cs ss"
  obtains t i where "v = JNum t" "int_text t = Some i" "as_i64 v = Some i"
    "case cs of None \<Rightarrow> True | Some cs \<Rightarrow> i \<in> set cs"
    "(case ss of None \<Rightarrow> False | Some ss \<Rightarrow> i \<in> set ss) \<or> lo \<le> i \<and> i \<le> hi"
proof (cases "as_i64 v")
  case None
  with assms show ?thesis by (simp add: check_value_def check_integer_def Let_def)
next
  case (Some i)
  with assms as_i64_number [OF Some] that show ?thesis
    by (auto simp: check_value_def check_integer_def Let_def split: option.splits if_splits)
qed

lemma accepted_number:
  assumes "check_value J spec v = None" "es_kind spec = NumberKind lo hi a b"
  obtains t where "v = JNum t" "range_contains (whole_range lo hi a b []) (Finite (jl_float J t))"
  using assms by (cases v) (auto simp: check_value_def check_number_def Let_def split: if_splits)

lemma scalar_integer:
  assumes "json_laws J" "kind_sound (es_kind spec)" "es_target spec = Launch" "es_flag spec = Some f"
    and kind: "es_kind spec = IntegerKind lo hi cs ss" and ok: "check_value J spec v = None"
  shows "scalar J (from_spec spec src) v = Inr (jl_render J v) \<and> (\<exists>t. v = JNum t)"
proof -
  obtain t i where v: "v = JNum t" "int_text t = Some i" and i: "as_i64 v = Some i"
    and c: "case cs of None \<Rightarrow> True | Some cs \<Rightarrow> i \<in> set cs"
    and r: "(case ss of None \<Rightarrow> False | Some ss \<Rightarrow> i \<in> set ss) \<or> lo \<le> i \<and> i \<le> hi"
    by (rule accepted_integer [OF ok kind])
  have "\<bar>i\<bar> \<le> 2 ^ 53"
    using r assms(2) kind by (auto simp: kind_sound_def small_def list_all_iff split: option.splits)
  then have x: "jl_float J t = of_int i" using json_lawsD(1) [OF assms(1) v(2)] by blast
  have "check_range J (supported (op_range (from_spec spec src))) v = Inr ()"
    using r by (simp add: from_spec_range kind check_range_def v x check_r_def whole_range_integer split: option.splits)
  moreover have "case supported (op_choices (from_spec spec src)) of None \<Rightarrow> True | Some cs \<Rightarrow> list_ex (\<lambda>c. json_eq J c (JNum t)) cs"
    using c listed_integer [OF v(2)] by (simp add: from_spec_choices kind v(1) split: option.splits)
  moreover have "supported (op_kind (from_spec spec src)) = Some Integer"
    using assms(3,4) kind by (simp add: from_spec_valued)
  ultimately show ?thesis using i json_lawsD(2) [OF assms(1), of t]
    by (simp add: scalar_def value_of_kind_def check_r_def scalar_text_def v(1) Let_def)
qed

lemma scalar_number:
  assumes "json_laws J" "es_target spec = Launch" "es_flag spec = Some f"
    and kind: "es_kind spec = NumberKind lo hi a b" and ok: "check_value J spec v = None"
  shows "scalar J (from_spec spec src) v = Inr (jl_render J v) \<and> (\<exists>t. v = JNum t)"
proof -
  obtain t where v: "v = JNum t" and r: "range_contains (whole_range lo hi a b []) (Finite (jl_float J t))"
    by (rule accepted_number [OF ok kind])
  have "supported (op_kind (from_spec spec src)) = Some Number"
    using assms(2,3) kind by (simp add: from_spec_valued)
  moreover have "supported (op_choices (from_spec spec src)) = None" by (simp add: from_spec_choices kind)
  ultimately show ?thesis using r json_lawsD(2) [OF assms(1), of t]
    by (simp add: scalar_def value_of_kind_def check_r_def scalar_text_def v Let_def from_spec_range kind check_range_def)
qed

lemma scalar_text_kind:
  assumes "es_target spec = Launch" "es_flag spec = Some f" "bounded_text s max_argument_bytes"
    and kind: "es_kind spec = TextKind n \<or> es_kind spec = PathKind \<or> es_kind spec = ChoiceKind cs \<and> s \<in> set cs"
  shows "scalar J (from_spec spec src) (JStr s) = Inr s"
  using assms by (auto simp: scalar_def value_of_kind_def check_r_def scalar_text_def Let_def from_spec_range check_range_def
    from_spec_choices from_spec_valued listed_text)

lemma scalar_json:
  assumes "json_laws J" "es_target spec = Launch" "es_flag spec = Some f" "es_kind spec = JsonKind"
  shows "scalar J (from_spec spec src) v =
    (if length (jl_render J v) \<le> max_argument_bytes then Inr (jl_render J v)
     else Inl ''option value contains NUL or exceeds its size limit'')"
  using assms(2-) json_lawsD(4) [OF assms(1)]
  by (simp add: scalar_def value_of_kind_def check_r_def scalar_text_def Let_def from_spec_range check_range_def
    from_spec_choices from_spec_valued bounded_text_def)

lemma switch_spellings:
  assumes "es_target spec = Launch" "es_flag spec = Some f"
  shows "es_kind spec = FlagKind \<Longrightarrow> op_spellings (from_spec spec src) = [separate f None]"
    "es_kind spec = ToggleKind \<Longrightarrow> op_spellings (from_spec spec src) = [separate f (Some True), separate (negative_flag f) (Some False)]"
    "es_kind spec = FlagKind \<Longrightarrow> op_runtime_default (from_spec spec src) = documented (JBool False) src"
    "es_kind spec = FlagKind \<or> es_kind spec = ToggleKind \<Longrightarrow> op_target (from_spec spec src) = Launch \<and>
       op_arity (from_spec spec src) = documented no_values src \<and> op_kind (from_spec spec src) = documented Boolean src"
  using assms by (auto simp: from_spec_defs documented_def no_fact_def split: option.splits)

lemma scalar_switch:
  assumes "json_laws J" "es_target spec = Launch" "es_flag spec = Some f" "es_kind spec = FlagKind \<or> es_kind spec = ToggleKind"
  shows "scalar J (from_spec spec src) (JBool b) = Inr (jl_render J (JBool b))"
  using assms(2-) json_lawsD(3) [OF assms(1), of b] switch_spellings(4) [OF assms(2,3,4), of src]
  by (auto simp: scalar_def value_of_kind_def check_r_def scalar_text_def Let_def from_spec_range check_range_def from_spec_choices)

lemma switch_arguments:
  assumes "json_laws J" "es_target spec = Launch" "es_flag spec = Some f"
  shows "es_kind spec = FlagKind \<Longrightarrow> spec_arguments J spec (JBool b) = (if b then [f] else [])"
    "es_kind spec = ToggleKind \<Longrightarrow> spec_arguments J spec (JBool b) = [if b then f else negative_flag f]"
  using switch_spellings [OF assms(2,3)] scalar_switch [OF assms]
  by (simp_all add: spec_arguments_def resolve_one_def resolve_rows_def resolve_row_def option_arity_def check_r_def
    no_values_def switch_row_def chosen_spelling_def says_def separate_def)

lemma accepted_text:
  assumes "check_value J spec v = None" "kind_sound (es_kind spec)"
    and kind: "es_kind spec = TextKind n \<or> es_kind spec = PathKind \<or> es_kind spec = ChoiceKind cs"
  obtains s where "v = JStr s" "bounded_text s max_argument_bytes" "\<not> starts_with ''-'' s"
    "es_kind spec = ChoiceKind cs \<longrightarrow> s \<in> set cs"
proof -
  have dash: "starts_with ''-'' s \<Longrightarrow> starts_with ''-'' (trim_start s)" for s
  proof -
    assume "starts_with ''-'' s"
    then obtain r where "s = CHR ''-'' # r" by (auto simp: starts_with_iff prefix_def)
    then show ?thesis
      using strip_all_graphic [of ws_chars "CHR ''-''" r] ws_chars_ends
      by (auto simp: starts_with_iff trim_start_def graphic_def code_def list_all_iff)
  qed
  obtain s where v: "v = JStr s"
    using assms by (cases v) (auto simp: check_value_def Let_def leading_dash_def split: if_splits)
  have "bounded_text s max_argument_bytes \<and> \<not> starts_with ''-'' s \<and> (es_kind spec = ChoiceKind cs \<longrightarrow> s \<in> set cs)"
    using assms dash [of s]
    by (auto simp: v check_value_def Let_def leading_dash_def kind_sound_def plain_choice_def list_all_iff bounded_text_def
        text_within_def max_argument_bytes_def split: if_splits)
  with v that show ?thesis by blast
qed

text \<open>What the value of each kind becomes.\<close>

definition expected_arguments :: "json_lib \<Rightarrow> string \<Rightarrow> option_kind \<Rightarrow> json \<Rightarrow> string list" where
  "expected_arguments J f kind v =
     (case kind of
        FlagKind \<Rightarrow> if v = JBool True then [f] else []
      | ToggleKind \<Rightarrow> [if v = JBool True then f else negative_flag f]
      | JsonKind \<Rightarrow> if length (jl_render J v) \<le> max_argument_bytes then [f, jl_render J v] else []
      | _ \<Rightarrow> [f, argument_text J v])"

lemma accepted_arguments:
  assumes "json_laws J" and "spec \<in> set (engine_schema p)" and "es_target spec = Launch" and "es_flag spec = Some f"
    and ok: "check_value J spec v = None"
  shows "spec_arguments J spec v = expected_arguments J f (es_kind spec) v"
proof -
  define src where "src = AdapterSource ''builtin.catalog'' ''1''"
  note sound = kinds_sound [OF assms(2)]
  have valued: "spec_arguments J spec v = [f, t]"
    if "scalar J (from_spec spec src) v = Inr t" "es_kind spec \<noteq> FlagKind" "es_kind spec \<noteq> ToggleKind"
      "\<not> (as_str v \<noteq> None \<and> starts_with ''-'' t)" for t
    using that value_arguments [OF from_spec_valued(1-3) [OF assms(3,4)], of src J v]
    by (cases "es_kind spec") (auto simp: spec_arguments_def src_def [symmetric] from_spec_valued [OF assms(3,4)])
  have bool: "\<exists>b. v = JBool b" if "es_kind spec = FlagKind \<or> es_kind spec = ToggleKind"
    using that ok by (cases v) (auto simp: check_value_def Let_def)
  show ?thesis
  proof (cases "es_kind spec")
    case (IntegerKind lo hi cs ss)
    with scalar_integer [OF assms(1) sound assms(3,4) IntegerKind ok, of src] valued show ?thesis
      by (auto simp: expected_arguments_def argument_text_def)
  next
    case (NumberKind lo hi a b)
    with scalar_number [OF assms(1,3,4) NumberKind ok, of src] valued show ?thesis
      by (auto simp: expected_arguments_def argument_text_def)
  next
    case FlagKind
    with bool switch_arguments(1) [OF assms(1,3,4)] show ?thesis by (auto simp: expected_arguments_def split: if_splits)
  next
    case ToggleKind
    with bool switch_arguments(2) [OF assms(1,3,4)] show ?thesis by (auto simp: expected_arguments_def split: if_splits)
  next
    case (ChoiceKind cs)
    then obtain s where s: "v = JStr s" "bounded_text s max_argument_bytes" "\<not> starts_with ''-'' s" "s \<in> set cs"
      using accepted_text [OF ok sound, of 0 cs] by blast
    with valued [OF scalar_text_kind [OF assms(3,4) s(2), where n = 0 and cs = cs and src = src and J = J, folded s(1)]] ChoiceKind show ?thesis
      by (auto simp: expected_arguments_def argument_text_def)
  next
    case (TextKind n)
    then obtain s where s: "v = JStr s" "bounded_text s max_argument_bytes" "\<not> starts_with ''-'' s"
      using accepted_text [OF ok sound, of n "[]"] by blast
    with valued [OF scalar_text_kind [OF assms(3,4) s(2), where n = n and cs = "[]" and src = src and J = J, folded s(1)]] TextKind show ?thesis
      by (auto simp: expected_arguments_def argument_text_def)
  next
    case PathKind
    then obtain s where s: "v = JStr s" "bounded_text s max_argument_bytes" "\<not> starts_with ''-'' s"
      using accepted_text [OF ok sound, of 0 "[]"] by blast
    with valued [OF scalar_text_kind [OF assms(3,4) s(2), where n = 0 and cs = "[]" and src = src and J = J, folded s(1)]] PathKind show ?thesis
      by (auto simp: expected_arguments_def argument_text_def)
  next
    case JsonKind
    then have "as_str v = None" using ok by (cases v) (auto simp: check_value_def Let_def)
    with JsonKind scalar_json [OF assms(1,3,4) JsonKind, of src v]
      value_arguments [OF from_spec_valued(1-3) [OF assms(3,4)], of src J v] show ?thesis
      by (auto simp: expected_arguments_def spec_arguments_def src_def [symmetric] from_spec_valued [OF assms(3,4)])
  qed
qed

text \<open>C12. A value that the editor accepts reaches the command line. For every option of the built-in schemas
  that has a flag, a value that passes the check of saved values becomes the flag followed by the text of the
  value; a switch becomes its positive spelling, its negative one, or nothing when it is off and off is what the engine
  does without it. The one exception is a JSON object whose text is longer than an argument may be: the
  check accepts up to twice that length, and the command then leaves the option out.
\<close>

theorem accepted_value_reaches_command:
  assumes "json_laws J" and "spec \<in> set (engine_schema p)" and "es_target spec = Launch" and "es_flag spec = Some f"
    and "check_value J spec v = None"
  shows "spec_arguments J spec v = expected_arguments J f (es_kind spec) v"
  using assms by (rule accepted_arguments)

text \<open>An accepted JSON object that is too long for the command line.\<close>

lemma accepted_json_can_be_dropped:
  assumes "json_laws J" "spec \<in> set (engine_schema p)" "es_target spec = Launch" "es_flag spec = Some f" "es_kind spec = JsonKind"
    and "max_argument_bytes < length (jl_render J (JObj fs))" "length (jl_render J (JObj fs)) \<le> max_json_bytes"
  shows "check_value J spec (JObj fs) = None \<and> spec_arguments J spec (JObj fs) = []"
proof -
  have "check_value J spec (JObj fs) = None" using assms(5,7) by (simp add: check_value_def)
  with accepted_arguments [OF assms(1-4) this] assms(5,6) show ?thesis by (simp add: expected_arguments_def)
qed

section \<open>Flags that the application owns\<close>

lemma trim_twice: "trim (trim s) = trim s"
  using trim_fixed [of s] by (simp add: trim_def [of "trim s"])

lemma flag_name_trim: "flag_name (trim a) = flag_name a"
proof (cases "CHR ''='' \<in> set a")
  case True
  then obtain p q where a: "a = p @ CHR ''='' # q" "CHR ''='' \<notin> set p" by (metis split_list_first)
  obtain b where "p = b @ trim_start p" using strip_all_suffix unfolding trim_start_def by blast
  then have "CHR ''='' \<notin> set (trim_start p)" using a(2) by (metis UnCI set_append)
  then have "split_once CHR ''='' (trim a) = Some (trim_start p, trim_end q)" "split_once CHR ''='' a = Some (p, q)"
    using a by (simp_all add: trim_at_equals split_once_Some_iff)
  then show ?thesis by (simp add: flag_name_def trim_start_trim)
next
  case False
  obtain x y where "a = x @ trim a @ y" using trim_infix by blast
  then have "CHR ''='' \<notin> set (trim a)" using False by (metis UnCI set_append)
  then have "split_once CHR ''='' (trim a) = None" "split_once CHR ''='' a = None"
    using False by (simp_all add: split_once_None_iff)
  then show ?thesis by (simp add: flag_name_def trim_twice)
qed

lemma canonical_flag_trim: "canonical_flag p (trim a) = canonical_flag p a"
  by (simp add: canonical_flag_def flag_name_trim)

lemma ws_no_dash: "list_all (\<lambda>w. CHR ''-'' \<notin> set w) ws_chars"
  by (simp add: ws_chars_def ws_encodings_def char_of_def bit_0)

lemma trim_dashes:
  assumes "starts_with ''--'' a"
  shows "starts_with ''--'' (trim a)"
proof -
  obtain r where a: "a = ''-'' @ CHR ''-'' # r" using assms by (auto simp: starts_with_iff prefix_def)
  have "list_all (\<lambda>w. CHR ''-'' \<notin> set w) (map rev ws_chars)" using ws_no_dash by (simp add: list_all_iff)
  from strip_all_stop [OF this, of "rev r" "''-''"] have e: "trim_end a = ''--'' @ trim_end r"
    using strip_all_stop [OF \<open>list_all _ (map rev ws_chars)\<close>, of "rev r" "[]"]
    by (simp add: trim_end_def a)
  have "trim_start a = a"
    using strip_all_graphic [of ws_chars "CHR ''-''" "CHR ''-'' # r"] ws_chars_ends
    by (auto simp: a trim_start_def graphic_def code_def list_all_iff)
  then show ?thesis by (simp add: trim_def e starts_with_iff)
qed

text \<open>The words of one option are its flags and texts that no parser takes for a long option.\<close>

lemma argument_text_no_flag:
  assumes "json_laws J" "spec \<in> set (engine_schema p)" "check_value J spec v = None"
  shows "\<not> starts_with ''--'' (argument_text J v)"
proof (cases v)
  case (JStr s)
  show ?thesis
  proof (cases "\<exists>n cs. es_kind spec = TextKind n \<or> es_kind spec = PathKind \<or> es_kind spec = ChoiceKind cs")
    case True
    then have "\<not> starts_with ''-'' s" using accepted_text [OF assms(3) kinds_sound [OF assms(2)]] JStr by blast
    then show ?thesis by (auto simp: JStr argument_text_def starts_with_iff prefix_def)
  next
    case False
    then show ?thesis using assms(3) JStr
      by (cases "es_kind spec") (auto simp: check_value_def check_integer_def check_number_def Let_def)
  qed
qed (use json_lawsD(6) [OF assms(1)] in \<open>simp_all add: argument_text_def\<close>)

lemma option_words:
  assumes "json_laws J" "spec \<in> set (engine_schema p)" "es_target spec = Launch"
    and a: "a \<in> set (option_launch_args J options spec)" "starts_with ''--'' a"
  shows "a \<in> set (spec_flags spec)"
proof -
  obtain f v where f: "es_flag spec = Some f" and v: "check_value J spec v = None"
    and "a \<in> set (spec_arguments J spec v)"
    using a(1) by (cases "es_flag spec"; cases "map_of options (es_key spec)") (auto simp: option_launch_args_def split: if_splits)
  then have "a \<in> set (expected_arguments J f (es_kind spec) v)" using accepted_arguments [OF assms(1-3) f v] by simp
  moreover have "a \<noteq> argument_text J v" using argument_text_no_flag [OF assms(1,2) v] a(2) by blast
  moreover have "a \<noteq> jl_render J v" using json_lawsD(6) [OF assms(1)] a(2) by blast
  ultimately show ?thesis
    by (cases "es_kind spec") (auto simp: expected_arguments_def spec_flags_def f split: if_splits)
qed

lemma extra_word_free:
  assumes "validate_entries J E p options = []" "a \<in> set (extra_arguments options)" "starts_with ''--'' a"
    and "m \<in> set (app_managed_flags p)"
  shows "\<not> starts_with (canonical_flag p a) m"
proof -
  obtain extra where "map_of options extra_args_key = Some (JArr extra)" and x: "JStr a \<in> set extra"
    using assms(2) by (cases "map_of options extra_args_key"; cases "the (map_of options extra_args_key)")
      (auto simp: extra_arguments_def List.map_filter_def as_str_Some)
  then have "(extra_args_key, JArr extra) \<in> set options" by (simp add: map_of_SomeD)
  then have "validate_entry J E p (engine_schema p) (extra_args_key, JArr extra) = []"
    using assms(1) by (auto simp: validate_entries_def)
  then have "check_raw_argument E p (engine_schema p) extra_args_key (JStr a) = []"
    using x by (auto simp: validate_entry_def split: if_splits)
  then have "raw_argument_problem E p (engine_schema p) (trim a) = None"
    by (simp add: check_raw_argument_def split: if_splits option.splits prod.splits)
  then have "abbreviated p (engine_schema p) (canonical_flag p (trim a)) = None"
    using trim_dashes [OF assms(3)] by (auto simp: raw_argument_problem_def Let_def split: if_splits option.splits)
  then show ?thesis using assms(4) by (auto simp: abbreviated_def find_None_iff canonical_flag_trim)
qed


section \<open>What an import produces\<close>

text \<open>The options of a partial import are those that the check accepts.\<close>

definition checked_options :: "json_lib \<Rightarrow> provider_id \<Rightarrow> (string \<times> json) list \<Rightarrow> bool" where
  "checked_options J p options \<longleftrightarrow>
     list_all (\<lambda>(k, v). list_ex (\<lambda>spec. es_key spec = k \<and> check_value J spec v = None) (engine_schema p)) options"

lemma checked_set_option:
  assumes "checked_options J p (ic_options (fst st))" "spec \<in> set (engine_schema p)" "check_value J spec v = None"
  shows "checked_options J p (ic_options (fst (set_option (es_key spec) v st)))"
  using assms unfolding checked_options_def set_option_def
  by (auto simp: list_ex_iff split: prod.splits intro!: map_insert_all)

lemma unrecognized_options [simp]: "ic_options (fst (unrecognized w st)) = ic_options (fst st)"
  by (simp add: unrecognized_def split: prod.split)

lemma parse_spec_value_checked: "parse_spec_value J E spec s = Some v \<Longrightarrow> check_value J spec v = None"
  by (auto simp: parse_spec_value_def split: option.splits if_splits)

lemma named_spec_in: "named_spec specs name = Some spec \<Longrightarrow> spec \<in> set specs"
  by (auto simp: named_spec_def find_Some_iff)

lemma switch_accepts: "es_kind spec = FlagKind \<or> es_kind spec = ToggleKind \<Longrightarrow> check_value J spec (JBool b) = None"
  by (auto simp: check_value_def)

lemma import_known_checked:
  assumes "spec \<in> set (engine_schema p)" "checked_options J p (ic_options (fst st))"
  shows "checked_options J p (ic_options (fst (snd (import_known J E spec word name inline words st))))"
  using assms checked_set_option [OF assms(2,1)] switch_accepts [of spec J] parse_spec_value_checked [of J E spec]
  by (auto simp: import_known_def Let_def split: prod.splits option.splits)

lemma import_word_checked:
  assumes "checked_options J p (ic_options (fst st))"
  shows "checked_options J p (ic_options (fst (snd (import_word J E p word words st))))"
proof (cases "starts_with ''--'' word")
  case True
  obtain name inline where n: "split_word p word = (name, inline)" by fastforce
  obtain val rest where t: "take_value inline words = (val, rest)" by fastforce
  obtain r extra where st: "st = (r, extra)" by fastforce
  show ?thesis
    using assms True import_known_checked [OF named_spec_in assms]
    by (auto simp: import_word_def n t st import_unknown_def split: option.splits list.splits)
qed (use assms in \<open>simp add: import_word_def\<close>)

lemma import_loop_checked:
  "checked_options J p (ic_options (fst st)) \<Longrightarrow> checked_options J p (ic_options (fst (import_loop J E p words st)))"
  by (induction J E p words st rule: import_loop.induct) (simp_all add: import_word_checked)

lemma issue_free_entry:
  assumes "distinct (map es_key (engine_schema p))" "spec \<in> set (engine_schema p)" "check_value J spec v = None"
    and "es_key spec \<noteq> extra_args_key" "es_key spec \<noteq> trust_remote_code_key"
  shows "validate_entry J E p (engine_schema p) (es_key spec, v) = []"
proof (cases "find (\<lambda>spec'. es_key spec' = es_key spec) (engine_schema p)")
  case None
  then show ?thesis using assms(2) by (auto simp: find_None_iff)
next
  case (Some spec')
  then have "spec' \<in> set (engine_schema p)" "es_key spec' = es_key spec" by (auto simp: find_Some_iff)
  then have "spec' = spec" using assms(1,2) by (auto simp: distinct_map inj_on_def)
  with Some assms(3-5) show ?thesis by (simp add: validate_entry_def)
qed

lemma ordinary_keys: "spec \<in> set (engine_schema p) \<Longrightarrow> es_key spec \<noteq> extra_args_key \<and> es_key spec \<noteq> trust_remote_code_key"
proof -
  have "list_all (\<lambda>spec. es_key spec \<noteq> extra_args_key \<and> es_key spec \<noteq> trust_remote_code_key) (vllm_options @ mlx_vlm_options)"
    by code_simp
  then show "spec \<in> set (engine_schema p) \<Longrightarrow> ?thesis" by (auto simp: engine_schema_def list_all_iff split: provider_id.splits)
qed

lemma schema_keys_distinct: "distinct (map es_key (engine_schema p))"
  using keys_distinct by (simp add: engine_schema_def split: provider_id.split)

lemma extra_entry_issues: "i \<in> set (validate_entry J E p specs (extra_args_key, v)) \<Longrightarrow> ei_key i = extra_args_key"
  by (auto simp: validate_entry_def check_raw_argument_def engine_issue_of_def split: option.splits if_splits)

definition entry_checked :: "json_lib \<Rightarrow> provider_id \<Rightarrow> string \<times> json \<Rightarrow> bool" where
  "entry_checked J p e \<longleftrightarrow>
     fst e = extra_args_key \<or> list_ex (\<lambda>spec. es_key spec = fst e \<and> check_value J spec (snd e) = None) (engine_schema p)"

lemma add_extra_checked:
  assumes "checked_options J p (ic_options (fst st))"
  shows "list_all (entry_checked J p) (ic_options (add_extra st))"
proof -
  have "list_all (entry_checked J p) (ic_options (fst st))"
    using assms by (auto simp: checked_options_def entry_checked_def list_all_iff)
  then show ?thesis by (auto simp: add_extra_def entry_checked_def [of _ _ "(extra_args_key, _)"] split: prod.splits intro!: map_insert_all)
qed

lemma checked_entry_issues:
  assumes "entry_checked J p e" "i \<in> set (validate_entry J E p (engine_schema p) e)"
  shows "ei_key i = extra_args_key"
proof (cases "fst e = extra_args_key")
  case True
  with assms(2) show ?thesis using extra_entry_issues by (cases e) auto
next
  case False
  then obtain spec where spec: "spec \<in> set (engine_schema p)" "es_key spec = fst e" "check_value J spec (snd e) = None"
    using assms(1) by (auto simp: entry_checked_def list_ex_iff)
  have "validate_entry J E p (engine_schema p) (es_key spec, snd e) = []"
    using issue_free_entry [OF schema_keys_distinct spec(1,3)] ordinary_keys [OF spec(1)] by blast
  with assms(2) spec(2) show ?thesis by simp
qed

text \<open>C28. An import never saves an option that the launch would refuse. Whatever command is pasted, the check of
  the imported options finds issues at most among the raw arguments, which the import keeps verbatim
  for review; every option of the engine's schema that it saves has an accepted value.
\<close>

theorem imported_options_checked:
  assumes "import_command_with_syntax J E p s syn = Inr r" and "i \<in> set (validate_entries J E p (ic_options r))"
  shows "ei_key i = extra_args_key"
proof -
  obtain words m where r: "r = import_words J E p words"
    using assms(1) by (auto simp: import_command_with_syntax_def bind_r_Inr_iff)
  have "list_all (entry_checked J p) (ic_options r)"
    unfolding r import_words_def
    by (auto split: prod.split intro!: add_extra_checked import_loop_checked simp: checked_options_def)
  then show ?thesis using assms(2) checked_entry_issues by (auto simp: validate_entries_def list_all_iff)
qed

section \<open>From options to a command and back\<close>

lemma parse_show_int: "- (2 ^ 63) \<le> i \<Longrightarrow> i < 2 ^ 63 \<Longrightarrow> parse_i64 (show_int i) = Some i"
proof (cases "i < 0")
  case True
  assume "- (2 ^ 63) \<le> i"
  with True show ?thesis using decimal_digits [of "nat (- i)"]
    by (simp add: show_int_def parse_i64_def digits_value_digits_of_nat)
next
  case False
  assume "i < 2 ^ 63"
  then have "nat i < 2 ^ 63" using False by simp
  then have "parse_unsigned (2 ^ 63) (digits_of_nat (nat i)) = Some (nat i)"
    using decimal_digits [of "nat i"] digit_no_minus [of "digits_of_nat (nat i)"] digits_value_digits_of_nat [of "nat i"]
    by (cases "digits_of_nat (nat i)") (auto simp: parse_unsigned_def Let_def)
  moreover have "strip_prefix ''-'' (digits_of_nat (nat i)) = None"
    using decimal_digits [of "nat i"] digit_no_minus [of "digits_of_nat (nat i)"]
    by (cases "digits_of_nat (nat i)") auto
  ultimately show ?thesis using False by (simp add: show_int_def parse_i64_def)
qed

text \<open>
  Values that the import reads back: a switch that is off emits nothing, an integer has its decimal text, and the
  parsers of floating-point numbers and of JSON return the value they are given the text of.
\<close>

definition rereadable :: "json_lib \<Rightarrow> engine_lib \<Rightarrow> option_kind \<Rightarrow> json \<Rightarrow> bool" where
  "rereadable J E kind v \<longleftrightarrow>
     (case kind of
        FlagKind \<Rightarrow> v = JBool True
      | IntegerKind _ _ _ _ \<Rightarrow>
          (case v of JNum t \<Rightarrow> (case int_text t of None \<Rightarrow> False | Some i \<Rightarrow> t = show_int i) | _ \<Rightarrow> False)
      | NumberKind _ _ _ _ \<Rightarrow> read_spec_value E kind (jl_render J v) = Some v
      | JsonKind \<Rightarrow> length (jl_render J v) \<le> max_argument_bytes \<and> el_parse_json E (jl_render J v) = Some v
      | _ \<Rightarrow> True)"

definition valued :: "option_kind \<Rightarrow> bool" where
  "valued kind \<longleftrightarrow> kind \<noteq> FlagKind \<and> kind \<noteq> ToggleKind"

lemma reread_value:
  assumes "json_laws J" "spec \<in> set (engine_schema p)" "es_target spec = Launch" "es_flag spec = Some f"
    and ok: "check_value J spec v = None" and re: "rereadable J E (es_kind spec) v" and "valued (es_kind spec)"
  shows "spec_arguments J spec v = [f, argument_text J v] \<and> parse_spec_value J E spec (argument_text J v) = Some v"
proof -
  have "spec_arguments J spec v = [f, argument_text J v] \<and> read_spec_value E (es_kind spec) (argument_text J v) = Some v"
  proof (cases "es_kind spec")
    case (IntegerKind lo hi cs ss)
    obtain t i where v: "v = JNum t" "int_text t = Some i" and i: "as_i64 v = Some i"
      by (rule accepted_integer [OF ok IntegerKind])
    then have "- (2 ^ 63) \<le> i" "i < 2 ^ 63" "t = show_int i"
      using re IntegerKind by (auto simp: rereadable_def split: if_splits)
    then show ?thesis using accepted_arguments [OF assms(1-4) ok] json_lawsD(7) [OF assms(1) v(2)] IntegerKind
      by (simp add: expected_arguments_def argument_text_def v(1) read_spec_value_def parse_show_int)
  next
    case (NumberKind lo hi a b)
    obtain t where v: "v = JNum t" by (rule accepted_number [OF ok NumberKind])
    then show ?thesis using accepted_arguments [OF assms(1-4) ok] re NumberKind
      by (simp add: expected_arguments_def argument_text_def rereadable_def)
  next
    case JsonKind
    then have "argument_text J v = jl_render J v" using ok by (cases v) (auto simp: check_value_def argument_text_def Let_def)
    then show ?thesis using accepted_arguments [OF assms(1-4) ok] re JsonKind
      by (simp add: expected_arguments_def rereadable_def read_spec_value_def)
  next
    case (ChoiceKind cs)
    obtain s where "v = JStr s" using accepted_text [OF ok kinds_sound [OF assms(2)], of 0 cs] ChoiceKind by blast
    then show ?thesis using accepted_arguments [OF assms(1-4) ok] ChoiceKind
      by (simp add: expected_arguments_def argument_text_def read_spec_value_def)
  next
    case (TextKind n)
    obtain s where "v = JStr s" using accepted_text [OF ok kinds_sound [OF assms(2)], of n "[]"] TextKind by blast
    then show ?thesis using accepted_arguments [OF assms(1-4) ok] TextKind
      by (simp add: expected_arguments_def argument_text_def read_spec_value_def)
  next
    case PathKind
    obtain s where "v = JStr s" using accepted_text [OF ok kinds_sound [OF assms(2)], of 0 "[]"] PathKind by blast
    then show ?thesis using accepted_arguments [OF assms(1-4) ok] PathKind
      by (simp add: expected_arguments_def argument_text_def read_spec_value_def)
  qed (use assms(7) in \<open>simp_all add: valued_def\<close>)
  then show ?thesis by (simp add: parse_spec_value_def ok)
qed

text \<open>The import of the words of one option.\<close>

lemma negated_flag_longer: "negated_flag f \<noteq> Some f"
proof
  assume "negated_flag f = Some f"
  then obtain r where "strip_prefix ''--no-'' f = Some r" and e: "f = ''--'' @ r" by (auto simp: negated_flag_def)
  then have "f = ''--no-'' @ r" by (simp add: strip_prefix_Some_iff)
  with e have "length (''--no-'' @ r) = length (''--'' @ r)" by metis
  then show False by simp
qed

lemma toggles_negated: "spec \<in> set (engine_schema p) \<Longrightarrow> es_kind spec = ToggleKind \<Longrightarrow> es_flag spec = Some f \<Longrightarrow>
  negated_flag (negative_flag f) = Some f"
proof -
  have "list_all (\<lambda>spec. es_kind spec = ToggleKind \<longrightarrow> Option.bind (es_flag spec) (\<lambda>f. negated_flag (negative_flag f)) = es_flag spec)
    (vllm_options @ mlx_vlm_options)" by code_simp
  then show "spec \<in> set (engine_schema p) \<Longrightarrow> es_kind spec = ToggleKind \<Longrightarrow> es_flag spec = Some f \<Longrightarrow> ?thesis"
    by (auto simp: engine_schema_def list_all_iff split: provider_id.splits)
qed

lemma flag_word:
  assumes "spec \<in> set (engine_schema p)" "f \<in> set (spec_flags spec)"
  shows "import_word J E p f words st = import_known J E spec f f None words st"
proof -
  note f = flags_soundD [OF assms]
  have "f \<notin> set (app_managed_flags p)" using f(3) [of f] by (auto simp: starts_with_iff)
  with f(2) show ?thesis by (simp add: import_word_def canonical_plain [OF f(1)] f(4))
qed

lemma import_switch:
  assumes "json_laws J" "spec \<in> set (engine_schema p)" "es_target spec = Launch" "es_flag spec = Some f"
    and ok: "check_value J spec v = None" "rereadable J E (es_kind spec) v" "\<not> valued (es_kind spec)"
  shows "\<exists>g. spec_arguments J spec v = [g] \<and> import_word J E p g words st = (words, set_option (es_key spec) v st)"
proof -
  obtain b where v: "v = JBool b" using ok(1,3) by (cases v) (auto simp: check_value_def valued_def Let_def)
  show ?thesis
  proof (cases "es_kind spec = FlagKind")
    case True
    then have b: "b" using ok(2) by (simp add: rereadable_def v)
    have "f \<in> set (spec_flags spec)" using True by (simp add: spec_flags_def assms(4))
    from flag_word [OF assms(2) this] show ?thesis
      using switch_arguments(1) [OF assms(1,3,4) True] b True negated_flag_longer
      by (simp add: v import_known_def assms(4) Let_def)
  next
    case False
    then have k: "es_kind spec = ToggleKind" using ok(3) by (simp add: valued_def)
    then have fs: "f \<in> set (spec_flags spec)" "negative_flag f \<in> set (spec_flags spec)" by (simp_all add: spec_flags_def assms(4))
    show ?thesis
      using switch_arguments(2) [OF assms(1,3,4) k] flag_word [OF assms(2) fs(1)] flag_word [OF assms(2) fs(2)]
        negated_flag_longer toggles_negated [OF assms(2) k assms(4)] k
      by (cases b) (simp_all add: v import_known_def assms(4) Let_def)
  qed
qed

lemma import_option:
  assumes "json_laws J" "spec \<in> set (engine_schema p)" "es_target spec = Launch" "es_flag spec = Some f"
    and "check_value J spec v = None" "rereadable J E (es_kind spec) v"
  shows "import_loop J E p (spec_arguments J spec v @ words) st = import_loop J E p words (set_option (es_key spec) v st)"
proof (cases "valued (es_kind spec)")
  case True
  note r = reread_value [OF assms True]
  have f: "f \<in> set (spec_flags spec)" by (simp add: spec_flags_def assms(4))
  have "\<not> starts_with ''--'' (argument_text J v)" by (rule argument_text_no_flag [OF assms(1,2,5)])
  then show ?thesis using r True by (simp add: flag_word [OF assms(2) f] import_known_def valued_def take_value_def)
next
  case False
  then show ?thesis using import_switch [OF assms False, of words st] by auto
qed

text \<open>The options that can be carried by a command, and what is read from all of them.\<close>

definition launchable :: "json_lib \<Rightarrow> engine_lib \<Rightarrow> provider_id \<Rightarrow> (string \<times> json) list \<Rightarrow> bool" where
  "launchable J E p options \<longleftrightarrow>
     sorted_wrt (<) (map fst options) \<and>
     list_all (\<lambda>(k, v). list_ex (\<lambda>spec. es_key spec = k \<and> es_target spec = Launch \<and> es_flag spec \<noteq> None \<and>
       check_value J spec v = None \<and> rereadable J E (es_kind spec) v) (engine_schema p)) options"

definition saved_option :: "(string \<times> json) list \<Rightarrow> option_spec \<Rightarrow> import_state \<Rightarrow> import_state" where
  "saved_option options spec st =
     (case map_of options (es_key spec) of None \<Rightarrow> st | Some v \<Rightarrow> set_option (es_key spec) v st)"

lemma launchable_entry:
  assumes "launchable J E p options" "map_of options (es_key spec) = Some v" "spec \<in> set (engine_schema p)"
  obtains f where "es_target spec = Launch" "es_flag spec = Some f" "check_value J spec v = None" "rereadable J E (es_kind spec) v"
proof -
  have "(es_key spec, v) \<in> set options" using assms(2) by (rule map_of_SomeD)
  then obtain spec' where s: "spec' \<in> set (engine_schema p)" "es_key spec' = es_key spec" and f: "es_target spec' = Launch"
    "es_flag spec' \<noteq> None" "check_value J spec' v = None" "rereadable J E (es_kind spec') v"
    using assms(1) by (fastforce simp: launchable_def list_all_iff list_ex_iff)
  have "spec' = spec" using s assms(3) schema_keys_distinct [of p] by (auto simp: distinct_map inj_on_def)
  with f that show ?thesis by auto
qed

lemma import_options:
  assumes "json_laws J" "launchable J E p options" "set specs \<subseteq> set (engine_schema p)"
  shows "import_loop J E p (concat (map (option_launch_args J options) specs) @ words) st =
    import_loop J E p words (fold (saved_option options) specs st)"
  using assms(3)
proof (induction specs arbitrary: st)
  case (Cons spec specs)
  then have spec: "spec \<in> set (engine_schema p)" and specs: "set specs \<subseteq> set (engine_schema p)" by simp_all
  show ?case
  proof (cases "map_of options (es_key spec)")
    case None
    then have "option_launch_args J options spec = []" by (cases "es_flag spec") (simp_all add: option_launch_args_def)
    then show ?thesis using Cons.IH [OF specs] None by (simp add: saved_option_def)
  next
    case (Some v)
    obtain f where f: "es_target spec = Launch" "es_flag spec = Some f" "check_value J spec v = None" "rereadable J E (es_kind spec) v"
      by (rule launchable_entry [OF assms(2) Some spec])
    have "option_launch_args J options spec = spec_arguments J spec v" using f Some by (simp add: option_launch_args_def)
    then show ?thesis using import_option [OF assms(1) spec f] Cons.IH [OF specs] Some by (simp add: saved_option_def)
  qed
qed simp

definition insert_saved :: "(string \<times> json) list \<Rightarrow> option_spec \<Rightarrow> (string \<times> json) list \<Rightarrow> (string \<times> json) list" where
  "insert_saved options spec m = (case map_of options (es_key spec) of None \<Rightarrow> m | Some v \<Rightarrow> map_insert (es_key spec) v m)"

lemma fold_saved_option:
  "fold (saved_option options) specs (r, extra) = (r\<lparr>ic_options := fold (insert_saved options) specs (ic_options r)\<rparr>, extra)"
  by (induction specs arbitrary: r) (simp_all add: saved_option_def insert_saved_def set_option_def split: option.split)

lemma fold_insert_sorted:
  "sorted_wrt (<) (map fst m) \<Longrightarrow> sorted_wrt (<) (map fst (fold (insert_saved options) specs m))"
  by (induction specs arbitrary: m) (simp_all add: insert_saved_def map_insert_sorted split: option.split)

lemma fold_insert_map_of:
  "map_of (fold (insert_saved options) specs m) k =
     (if k \<in> es_key ` set specs \<and> map_of options k \<noteq> None then map_of options k else map_of m k)"
  by (induction specs arbitrary: m) (auto simp: insert_saved_def map_of_map_insert split: option.split)

lemma sorted_map_eqI:
  fixes xs ys :: "(string \<times> 'v) list"
  assumes "sorted_wrt (<) (map fst xs)" "sorted_wrt (<) (map fst ys)" "map_of xs = map_of ys"
  shows "xs = ys"
proof -
  have d: "distinct (map fst xs)" "distinct (map fst ys)" using assms(1,2) by (simp_all add: strict_sorted_iff)
  have keys: "map fst xs = map fst ys"
    by (rule strict_sorted_equal [OF assms(2,1)]) (metis assms(3) dom_map_of_conv_image_fst set_map)
  have e: "zs = map (\<lambda>k. (k, the (map_of zs k))) (map fst zs)" if "distinct (map fst zs)" for zs :: "(string \<times> 'v) list"
    using that by (auto simp: comp_def intro!: map_idI [symmetric])
  show ?thesis using e [OF d(1)] e [OF d(2)] keys assms(3) by metis
qed

lemma launch_only_options:
  assumes "launchable J E p options"
  shows "fold (insert_saved options) (filter (\<lambda>spec. es_target spec = Launch) (engine_schema p)) [] = options"
    "extra_arguments options = []"
proof -
  have key: "\<exists>spec \<in> set (engine_schema p). es_key spec = k \<and> es_target spec = Launch" if "map_of options k = Some v" for k v
    using assms map_of_SomeD [OF that] by (fastforce simp: launchable_def list_all_iff list_ex_iff)
  show "fold (insert_saved options) (filter (\<lambda>spec. es_target spec = Launch) (engine_schema p)) [] = options"
  proof (rule sorted_map_eqI)
    show "sorted_wrt (<) (map fst (fold (insert_saved options) (filter (\<lambda>spec. es_target spec = Launch) (engine_schema p)) []))"
      by (rule fold_insert_sorted) simp
    show "sorted_wrt (<) (map fst options)" using assms by (simp add: launchable_def)
    show "map_of (fold (insert_saved options) (filter (\<lambda>spec. es_target spec = Launch) (engine_schema p)) []) = map_of options"
    proof
      fix k
      show "map_of (fold (insert_saved options) (filter (\<lambda>spec. es_target spec = Launch) (engine_schema p)) []) k = map_of options k"
        unfolding fold_insert_map_of using key [of k] by (cases "map_of options k") auto
    qed
  qed
  have "map_of options extra_args_key = None"
    using key [of extra_args_key] ordinary_keys by (cases "map_of options extra_args_key") auto
  then show "extra_arguments options = []" by (simp add: extra_arguments_def)
qed

text \<open>The words before the options in the commands that the application starts.\<close>

definition engine_command :: "provider_id \<Rightarrow> string \<Rightarrow> nat \<Rightarrow> string list \<Rightarrow> string list" where
  "engine_command p model port args =
     (let address = [''--host'', ''127.0.0.1'', ''--port'', digits_of_nat port] in
      if p = Vllm then [''python'', ''-m'', ''vllm.entrypoints.cli.main'', ''serve'', model] @ address @ args
      else [''python'', ''-m'', ''mlx_vlm.server''] @ address @ [''--model'', model] @ args)"

lemma plain_words: "plain_flag ''--host''" "plain_flag ''--port''" "plain_flag ''--model''"
  "launcher_word ''python''" "launcher_word ''-m''" "launcher_word ''vllm.entrypoints.cli.main''" "launcher_word ''serve''"
  "launcher_word ''mlx_vlm.server''" "\<not> launcher_word ''--host''"
  by code_simp+

lemma managed_word:
  assumes "plain_flag f" "f \<in> set (app_managed_flags p)" "f \<noteq> ''--model''" "f \<noteq> ''--api-key''" "\<not> starts_with ''--'' w"
  shows "import_word J E p f (w # words) (r, extra) = (words, (r\<lparr>ic_managed := ic_managed r @ [f @ '' '' @ w]\<rparr>, extra))"
  using assms by (simp add: import_word_def canonical_plain take_value_def)

lemma model_word:
  assumes "\<not> starts_with ''--'' w"
  shows "import_word J E p ''--model'' (w # words) (r, extra) = (words, (r\<lparr>ic_model := Some w\<rparr>, extra))"
  using assms by (simp add: import_word_def canonical_plain plain_words take_value_def)

lemma digits_no_flag: "\<not> starts_with ''--'' (digits_of_nat n)"
  using decimal_digits [of n] digit_no_minus [of "digits_of_nat n"] by (auto simp: starts_with_iff prefix_def)

lemma import_engine_command:
  assumes "p = Vllm \<or> p = MlxVlm" "\<not> launcher_word model" "\<not> starts_with ''-'' model"
  shows "import_words J E p (engine_command p model port args) =
    add_extra (import_loop J E p args
      (\<lparr>ic_options = [], ic_model = Some model, ic_managed = [''--host 127.0.0.1'', ''--port '' @ digits_of_nat port],
        ic_unrecognized = []\<rparr>, []))"
proof -
  have d: "\<not> starts_with ''--'' model" using assms(3) by (auto simp: starts_with_iff prefix_def)
  have m: "''--host'' \<in> set (app_managed_flags p)" "''--port'' \<in> set (app_managed_flags p)" using assms(1) by auto
  have h: "\<not> starts_with ''--'' ''127.0.0.1''" "starts_with ''-'' ''--host''" by (simp_all add: starts_with_iff)
  show ?thesis
  proof (cases "p = Vllm")
    case True
    then show ?thesis using assms(2,3) m
      by (simp add: import_words_def engine_command_def Let_def plain_words positional_model_def managed_word h digits_no_flag)
  next
    case False
    then show ?thesis using assms(1) m d
      by (simp add: import_words_def engine_command_def Let_def plain_words positional_model_def managed_word model_word h digits_no_flag)
  qed
qed

text \<open>The negative spelling of an option with a dedicated setting is accepted as a raw argument.\<close>

lemma raw_negative_toggle_accepted:
  "raw_argument_problem E Vllm vllm_options ''--no-enable-prefix-caching'' = None"
proof -
  have "plain_flag ''--no-enable-prefix-caching''" "\<not> dedicated Vllm vllm_options ''--no-enable-prefix-caching''"
    "abbreviated Vllm vllm_options ''--no-enable-prefix-caching'' = None" by code_simp+
  then show ?thesis by (simp add: raw_argument_problem_def canonical_plain)
qed


text \<open>A model whose last name starts with \<open>python\<close> is skipped with the launcher.\<close>

lemma model_taken_for_launcher:
  "ic_model (import_words J E Vllm [''vllm'', ''serve'', ''org/python-coder'']) = None"
proof -
  have "dropWhile launcher_word [''vllm'', ''serve'', ''org/python-coder''] = []" by code_simp
  then show ?thesis unfolding import_words_def by (simp add: positional_model_def add_extra_def)
qed

section \<open>An example\<close>

definition plain_json :: json_lib where
  "plain_json =
     \<lparr>jl_float = (\<lambda>t. case int_text t of Some i \<Rightarrow> of_int i | None \<Rightarrow> 0),
      jl_render = (\<lambda>v. case v of
          JNum t \<Rightarrow> (case int_text t of Some i \<Rightarrow> if \<bar>i\<bar> \<le> 2 ^ 63 then show_int i else ''0'' | None \<Rightarrow> ''0'')
        | JBool b \<Rightarrow> if b then ''true'' else ''false''
        | JObj _ \<Rightarrow> ''{}''
        | _ \<Rightarrow> ''null'')\<rparr>"

definition no_parsers :: engine_lib where
  "no_parsers = \<lparr>el_parse_f64 = (\<lambda>_. None), el_from_f64 = (\<lambda>_. []), el_parse_json = (\<lambda>_. None)\<rparr>"

lemma digits_length: "n < 10 ^ k \<Longrightarrow> 0 < k \<Longrightarrow> length (digits_of_nat n) \<le> k"
proof (induction k arbitrary: n)
  case (Suc k)
  show ?case
  proof (cases "n < 10")
    case True
    then show ?thesis by (subst digits_of_nat.simps) simp
  next
    case False
    then have "n div 10 < 10 ^ k" "0 < k" using Suc.prems(1) by (cases k; simp)+
    with Suc.IH have "length (digits_of_nat (n div 10)) \<le> k" by blast
    with False show ?thesis by (subst digits_of_nat.simps) simp
  qed
qed simp

lemma show_int_text: "\<bar>i\<bar> \<le> 2 ^ 63 \<Longrightarrow> length (show_int i) \<le> 64 \<and> CHR 0x00 \<notin> set (show_int i) \<and> \<not> starts_with ''--'' (show_int i)"
proof -
  assume i: "\<bar>i\<bar> \<le> 2 ^ 63"
  have "nat \<bar>i\<bar> \<le> 2 ^ 63" using i by simp
  also have "(2::nat) ^ 63 < 10 ^ 20" by simp
  finally have l: "length (digits_of_nat (nat \<bar>i\<bar>)) \<le> 20" using digits_length [of "nat \<bar>i\<bar>" 20] by simp
  have d: "CHR 0x00 \<notin> set (digits_of_nat n)" for n
    using decimal_digits [of n] by (auto simp: list_all_iff is_ascii_digit_def code_def)
  have "\<not> starts_with ''--'' (CHR ''-'' # digits_of_nat n)" for n
    using decimal_digits [of n] digit_no_minus [of "digits_of_nat n"] by (auto simp: starts_with_iff prefix_def)
  then show ?thesis using l d digits_no_flag by (auto simp: show_int_def)
qed

lemma plain_json_laws: "json_laws plain_json"
  using show_int_text by (auto simp: json_laws_def plain_json_def starts_with_iff split: json.split option.split)

definition demo_toggle :: option_spec where
  "demo_toggle = launch_spec ''enable_prefix_caching'' ''--enable-prefix-caching'' ToggleKind ''parallel'' None"

definition demo_length :: option_spec where
  "demo_length = launch_spec ''max_num_seqs'' ''--max-num-seqs'' (IntegerKind 1 65536 None None) ''parallel'' (Some ''128'')"

lemma demo_specs:
  "demo_toggle \<in> set (engine_schema Vllm)" "demo_length \<in> set (engine_schema Vllm)"
  "es_target demo_toggle = Launch" "es_flag demo_toggle = Some ''--enable-prefix-caching''" "es_kind demo_toggle = ToggleKind"
  "es_key demo_toggle = ''enable_prefix_caching''"
  "es_target demo_length = Launch" "es_flag demo_length = Some ''--max-num-seqs''" "es_kind demo_length = IntegerKind 1 65536 None None"
  "es_key demo_length = ''max_num_seqs''"
  by (simp_all add: engine_schema_def vllm_options_def demo_toggle_def demo_length_def launch_spec_def)

theorem accepted_value_reaches_command_witness:
  "spec_arguments plain_json demo_toggle (JBool False) = [''--no-enable-prefix-caching'']"
proof -
  have "check_value plain_json demo_toggle (JBool False) = None" by (simp add: check_value_def demo_specs)
  from accepted_value_reaches_command [OF plain_json_laws demo_specs(1,3,4) this] show ?thesis
    by (simp add: expected_arguments_def demo_specs negative_flag_def)
qed

lemma int_text_eight: "int_text ''8'' = Some 8" "show_int 8 = ''8''"
  by code_simp+

lemma demo_launchable:
  "launchable plain_json no_parsers Vllm [(''enable_prefix_caching'', JBool False), (''max_num_seqs'', JNum ''8'')]"
proof -
  have t: "list_ex (\<lambda>spec. es_key spec = ''enable_prefix_caching'' \<and> es_target spec = Launch \<and> es_flag spec \<noteq> None \<and>
      check_value plain_json spec (JBool False) = None \<and> rereadable plain_json no_parsers (es_kind spec) (JBool False))
      (engine_schema Vllm)"
    unfolding list_ex_iff by (rule bexI [OF _ demo_specs(1)]) (simp add: demo_specs check_value_def rereadable_def)
  have l: "list_ex (\<lambda>spec. es_key spec = ''max_num_seqs'' \<and> es_target spec = Launch \<and> es_flag spec \<noteq> None \<and>
      check_value plain_json spec (JNum ''8'') = None \<and> rereadable plain_json no_parsers (es_kind spec) (JNum ''8''))
      (engine_schema Vllm)"
    unfolding list_ex_iff
    by (rule bexI [OF _ demo_specs(2)]) (simp add: demo_specs check_value_def check_integer_def rereadable_def int_text_eight)
  have "sorted_wrt (<) [''enable_prefix_caching'', ''max_num_seqs'']" by code_simp
  with t l show ?thesis by (simp add: launchable_def)
qed


lemma demo_flag: "plain_flag ''--foo''"
  by code_simp


theorem imported_options_checked_witness:
  "ei_key (engine_issue_of extra_args_key ''type'' ''raw arguments must be non-empty text'') = extra_args_key"
proof -
  define words where "words = [''vllm'', ''serve'', ''m'', ''--foo'', []]"
  have "dropWhile launcher_word words = [''m'', ''--foo'', []]" unfolding words_def by code_simp
  moreover have "named_spec vllm_options ''--foo'' = None" by code_simp
  ultimately have w: "import_words plain_json no_parsers Vllm words =
      \<lparr>ic_options = [(extra_args_key, JArr [JStr ''--foo'', JStr []])], ic_model = Some ''m'', ic_managed = [],
        ic_unrecognized = [''--foo'', []]\<rparr>"
    by (simp add: import_words_def positional_model_def starts_with_iff import_word_def engine_schema_def import_unknown_def
        canonical_plain demo_flag
        add_extra_def)
  have "import_command_with_syntax plain_json no_parsers Vllm (quote_words words) Posix =
      Inr (import_words plain_json no_parsers Vllm words)"
    by (simp add: import_command_with_syntax_def split_command_with_syntax_def split_command_def split_loop_words)
  from imported_options_checked [OF this] show ?thesis
    unfolding w by (simp add: validate_entries_def validate_entry_def max_extra_args_def check_raw_argument_def text_within_def)
qed

end
