(* ===== verification/Spec2Isabelle.thy ===== *)
theory Spec2Isabelle
  imports Jobs Sse OutputBuffers InferenceArgs RuntimeElf RuntimeArchive Multipart Routing EstimateProps
    Permits CommandLine ModelScan OptionOrder EngineCommand
begin

text \<open>
  Verification development for AioLM, a desktop application that runs language models. The modelled core is
  the Rust code under \<open>src/src-tauri/src\<close>; file names below are relative to that directory.

  \<^bold>\<open>The program and its parts.\<close> AioLM keeps settings (\<open>config.rs\<close>), finds model files on disk
  (\<open>models.rs\<close>), reads their headers (\<open>gguf.rs\<close>), estimates what a launch needs (\<open>resource_estimate.rs\<close>),
  unpacks engine builds (\<open>runtime_archive.rs\<close>, \<open>runtime_elf.rs\<close>), builds the command line of an engine and
  starts it as a child process (\<open>server.rs\<close>, \<open>commands/server.rs\<close>, \<open>providers/options.rs\<close>), keeps one state per
  loaded model (\<open>session.rs\<close>) and serves an HTTP API in front of the loaded models (\<open>gateway/\<close>). Long
  operations can be cancelled through registries of jobs (\<open>launch_jobs.rs\<close> and its siblings), and results of
  benchmarks are shared with permits (\<open>benchmark/sharing/permits.rs\<close>).

  The parts interact through calls and shared state. A launch reads the settings, resolves the
  GPU placement, asks the estimate, and attaches a child process to the state of its session; the
  gateway routes a request to a session by name, holds a lease on it while the request runs, and the
  commands that stop, replace or unload a session look at the leases. The theories compose in the same way.

  \<^bold>\<open>Theories.\<close>

  \<^item> \<open>Prelude\<close>: strings as lists of bytes, the string operations of the Rust standard library (splitting,
    trimming, white space, UTF-8), numbers with saturation and parsing, results with \<open>bind_r\<close> and
    \<open>traverse_r\<close>, ordered maps as association lists, and the locale \<open>invariant_system\<close> of a step relation with
    an invariant, whose lemmas are proved once for its two interpretations.
  \<^item> \<open>Config\<close> (\<open>config.rs\<close>, \<open>tuning_defaults.rs\<close>): settings, saved GPU placements, engine identifiers.
    \<open>ConfigCheck\<close> (\<open>config.rs\<close>, \<open>config/execution.rs\<close>): normalisation and validation of the settings, and the boundary between
    external arguments and settings. Its lemmas show that normalisation settles after one round.
  \<^item> \<open>GpuPlacement\<close> (\<open>gpu.rs\<close>, \<open>hardware.rs\<close>): from a saved placement to the devices of a runtime, remapping of
    splits when the devices of the runtime are in another order.
  \<^item> \<open>InferenceArgs\<close> (\<open>inference_args.rs\<close>) and \<open>CommandLine\<close> (\<open>server.rs\<close>): the arguments of the llama.cpp
    server. The lemmas show which arguments the application owns and that validated raw arguments pass unchanged.
  \<^item> \<open>OptionSchema\<close>, \<open>OptionResolution\<close> (\<open>providers/runtime_options.rs\<close>): the language in which the options of
    an engine are described, its check, and the resolution of saved values into arguments and
    request fields. \<open>OptionResolution\<close> proves the layout of the command, that no saved value is lost, and that none
    is read as an option. \<open>OptionOrder\<close> (\<open>providers/runtime_ordered.rs\<close>, \<open>providers/runtime_help_store.rs\<close>): the
    stored form of values and the record of their order; a plan keeps every value and changes only the order
    of arguments. \<open>CommandText\<close> and \<open>EngineOptions\<close> (\<open>providers/options.rs\<close>, \<open>providers/runtime_schema.rs\<close>):
    splitting a pasted command line, the built-in options of the Python engines, their check, launch arguments
    and import. \<open>EngineCommand\<close> proves that accepted values reach the command, that no saved option reaches a flag
    the application owns, and that an import recovers the options a command was made from.
  \<^item> \<open>RuntimeArchive\<close> (\<open>runtime_archive.rs\<close>): extraction of zip and tar archives over a tree of nodes, with path
    checks, links, limits and cancellation. \<open>RuntimeElf\<close> (\<open>runtime_elf.rs\<close>): the names of the libraries
    that an ELF file needs.
  \<^item> \<open>Server\<close> (\<open>server.rs\<close>): the state of one model process, its diagnostics and their redaction; \<open>OutputBuffers\<close>
    (\<open>process_output.rs\<close>): bounded output of a process. \<open>Sessions\<close> (\<open>session.rs\<close>): the registry of
    sessions and the state shared by the application (\<open>world\<close>). \<open>Launch\<close> (\<open>commands/server.rs\<close>, \<open>server.rs\<close>):
    starting, stopping, replacing and unloading models, and the wait for readiness.
  \<^item> \<open>Jobs\<close> (\<open>launch_jobs.rs\<close>, \<open>media/jobs.rs\<close>, \<open>models/scan_jobs.rs\<close>): cancellation by identifier. The locale
    \<open>cancellation_registry\<close> states what the three registries promise; each is an interpretation of it.
  \<^item> \<open>Http\<close> (\<open>gateway/http.rs\<close>), \<open>Multipart\<close> (\<open>gateway/multipart.rs\<close>), \<open>Sse\<close> (\<open>providers/sse.rs\<close>) and \<open>Routing\<close>
    (\<open>gateway/routing.rs\<close>): the API listener. \<open>Routing\<close> interprets \<open>invariant_system\<close> on \<open>gateway_step\<close>, the
    interleaving of requests with everything else that may change a session, so that its invariant (each lease is
    counted in its session) holds in every reachable state.
  \<^item> \<open>GgufReader\<close>, \<open>GgufScan\<close> (\<open>gguf.rs\<close>): the bounded reader of model headers, and what is read from them.
    \<open>ModelScan\<close> (\<open>models.rs\<close>): the walk over the models directory and the grouping of shards.
  \<^item> \<open>EstimateArgs\<close>, \<open>EstimateModel\<close>, \<open>EstimateFiles\<close>, \<open>Estimate\<close> (\<open>resource_estimate.rs\<close>): the memory
    estimate of a launch; \<open>EstimateProps\<close> proves that it never panics, that its bounds are in order and its parts add
    up, and that it does not depend on the cache of headers (\<open>EstimateFiles\<close> interprets \<open>invariant_system\<close> on
    the steps of that cache).
  \<^item> \<open>Permits\<close> (\<open>benchmark/sharing/permits.rs\<close>): upload permits and the tracking of requests.

  \<^bold>\<open>How code becomes definitions.\<close> A struct is a \<open>record\<close>, an enum a \<open>datatype\<close>; \<open>Result\<close> is a sum with the error
  on the left, and a possible panic is an \<open>option\<close>. A \<open>u64\<close> or \<open>usize\<close> is a natural number with the
  saturation, check or wrap-around that the code writes; an \<open>f32\<close> of the settings is its 32 bits; bytes of a file
  are characters. Shared state is passed explicitly; the cells behind locks are indices into the world, and
  code that releases a lock or awaits takes the interference of other tasks as an argument, a list of functions or
  steps. A hash map whose order the code does not observe, and a \<open>BTreeMap\<close>, is an association list.

  \<^bold>\<open>Parameters.\<close> Code outside the repository is an argument: the JSON codec of \<open>serde\<close>, the decimal text of an
  \<open>f32\<close> and an \<open>f64\<close> (\<open>json_lib\<close>), the decompressed entries of an archive, the views of the file system
  (\<open>file_view\<close>, \<open>tree_view\<close>), clocks, sequences of socket and pipe reads, and the exit status of a child. What is
  used of them is a named hypothesis, and the witnesses instantiate them.

  \<^bold>\<open>Bounds and fuel.\<close> No definition runs on fuel that the code does not have. The walk of \<open>ModelScan\<close> counts the
  directory levels that the code limits to \<open>max_depth\<close>; loops over input are \<open>function\<close>s that end because the input
  gets shorter (\<open>strip_placement\<close>, \<open>split_loop\<close>, \<open>split_windows\<close>, \<open>part_end\<close>, \<open>resolve_link\<close>); reads of sockets and
  pipes recurse over the sequence of results that the reads return.

  \<^bold>\<open>Not modelled.\<close> Network and file-system access, subprocesses, the OS credential vault, database
  storage and the Tauri commands around the modelled parts: they are calls of other programs, and little logic
  is left without them. The installation and discovery of engines, help parsing, tuning, benchmarks and
  application updates mix that with logic of their own, which this development does not cover. The user
  interface is written in another language.
\<close>

end
